(* ===== verification/Prelude.thy ===== *)
theory Prelude
  imports Main "HOL-Library.Word" "HOL-Library.While_Combinator" "HOL-Library.Sublist"
    "HOL-Library.Code_Target_Nat"
begin

text \<open>
  Shared vocabulary of the development: the C library constants the sources use, C strings as
  character lists (the bytes before the terminating NUL), the outcome type of an operation, the
  string macros of \<^verbatim>\<open>iamroot.h\<close>, and the lemmas on lists and outcomes that the component
  theories share.
\<close>

section \<open>Automation collections\<close>

named_theorems cstr_simps \<open>unfolding rules of the C string macros\<close>
named_theorems run_simps \<open>rewrite rules of the outcome type\<close>

section \<open>Errors and outcomes\<close>

text \<open>
  The values of \<^verbatim>\<open>errno\<close> the sources compare with or assign. \<open>EOTHER n\<close> stands for any
  other number the system may report.
\<close>

datatype errno =
    E_OK | EPERM | ENOENT | EIO | E2BIG | ENOEXEC | EBADF | EAGAIN | ENOMEM | EACCES | ENOTDIR
  | EINVAL | ENOSPC | ERANGE | ENAMETOOLONG | ENOSYS | ELOOP | EOVERFLOW | ENOTSUP | ENODATA
  | EOTHER nat

text \<open>
  An operation that returns a value, returns \<open>-1\<close> (or \<open>NULL\<close>) with \<^verbatim>\<open>errno\<close> set, accesses
  memory outside of its buffers, or never returns.
\<close>

datatype 'a run = Ret 'a | Err errno | Undef | Diverge

fun run_bind :: "'a run \<Rightarrow> ('a \<Rightarrow> 'b run) \<Rightarrow> 'b run" where
  "run_bind (Ret x) f = f x"
| "run_bind (Err e) f = Err e"
| "run_bind Undef f = Undef"
| "run_bind Diverge f = Diverge"

lemma run_bind_Ret_iff [run_simps]: "run_bind m f = Ret y \<longleftrightarrow> (\<exists>x. m = Ret x \<and> f x = Ret y)"
  by (cases m) auto

lemma run_bind_Undef_iff [run_simps]:
  "run_bind m f = Undef \<longleftrightarrow> m = Undef \<or> (\<exists>x. m = Ret x \<and> f x = Undef)"
  by (cases m) auto

lemma run_bind_Diverge_iff [run_simps]:
  "run_bind m f = Diverge \<longleftrightarrow> m = Diverge \<or> (\<exists>x. m = Ret x \<and> f x = Diverge)"
  by (cases m) auto

lemma run_bind_assoc: "run_bind (run_bind m f) g = run_bind m (\<lambda>x. run_bind (f x) g)"
  by (cases m) auto

fun of_sum :: "errno + 'a \<Rightarrow> 'a run" where
  "of_sum (Inl e) = Err e"
| "of_sum (Inr x) = Ret x"

section \<open>Sizes\<close>

definition PATH_MAX :: nat where "PATH_MAX = 4096"
definition NAME_MAX :: nat where "NAME_MAX = 255"
definition BUFSIZ :: nat where "BUFSIZ = 8192"

lemma PATH_MAX_pos [simp]: "0 < PATH_MAX" "Suc 0 < PATH_MAX" "1 < PATH_MAX"
  by (simp_all add: PATH_MAX_def)

section \<open>C strings\<close>

definition strnlen :: "string \<Rightarrow> nat \<Rightarrow> nat" where
  "strnlen s n = min (length s) n"

text \<open>The macro \<^verbatim>\<open>__strlen\<close>: a length capped at \<^verbatim>\<open>PATH_MAX\<close>.\<close>

definition strlen_max :: "string \<Rightarrow> nat" where
  "strlen_max s = strnlen s PATH_MAX"

text \<open>\<^verbatim>\<open>strncmp (a, b, n) == 0\<close> on the bytes before the terminators.\<close>

definition strneq :: "string \<Rightarrow> string \<Rightarrow> nat \<Rightarrow> bool" where
  "strneq a b n \<longleftrightarrow> take n a = take n b"

text \<open>The macro \<^verbatim>\<open>__strleq\<close>: compare on the (capped) length of the second string.\<close>

definition strleq :: "string \<Rightarrow> string \<Rightarrow> bool" where
  "strleq a b \<longleftrightarrow> strneq a b (strlen_max b)"

text \<open>The macro \<^verbatim>\<open>_strncpy\<close>: what a buffer of \<open>n\<close> bytes holds after the copy.\<close>

definition strncpy_buf :: "string \<Rightarrow> nat \<Rightarrow> string" where
  "strncpy_buf s n = take (n - 1) s"

text \<open>
  \<^verbatim>\<open>_snprintf\<close> with the formatted text already computed: its length when it fits, otherwise
  \<^verbatim>\<open>ENOSPC\<close>; the buffer then holds the truncated text.
\<close>

definition snprintf :: "string \<Rightarrow> nat \<Rightarrow> errno + string" where
  "snprintf s n = (if length s < n then Inr s else Inl ENOSPC)"

fun starts_with :: "string \<Rightarrow> char \<Rightarrow> bool" where
  "starts_with [] c \<longleftrightarrow> False"
| "starts_with (x # xs) c \<longleftrightarrow> x = c"

definition slash :: char where "slash = CHR ''/''"
definition NUL :: char where "NUL = CHR 0x00"

definition strip_slashes :: "string \<Rightarrow> string" where
  "strip_slashes s = dropWhile (\<lambda>c. c = slash) s"

lemma strnlen_le [simp]: "strnlen s n \<le> n" "strnlen s n \<le> length s"
  by (simp_all add: strnlen_def)

lemma strlen_max_short [simp]: "length s \<le> PATH_MAX \<Longrightarrow> strlen_max s = length s"
  by (simp add: strlen_max_def strnlen_def)

lemma strneq_refl [simp]: "strneq s s n"
  by (simp add: strneq_def)

lemma strleq_refl [simp]: "strleq s s"
  by (simp add: strleq_def)

lemma strneq_prefix: "n = length b \<Longrightarrow> strneq a b n \<longleftrightarrow> prefix b a"
  by (auto simp: strneq_def prefix_def) (metis append_take_drop_id)

lemma strneq_sym: "strneq a b n \<longleftrightarrow> strneq b a n"
  by (auto simp: strneq_def)

lemma strneq_prefix_left: "n = length a \<Longrightarrow> strneq a b n \<longleftrightarrow> prefix a b"
  by (simp add: strneq_sym [of a] strneq_prefix)

lemma strleq_prefix: "length b \<le> PATH_MAX \<Longrightarrow> strleq a b \<longleftrightarrow> prefix b a"
  by (simp add: strleq_def strneq_prefix)

lemma strleq_append [simp]: "length b \<le> PATH_MAX \<Longrightarrow> strleq (b @ s) b"
  by (simp add: strleq_prefix)

lemma length_strncpy_buf [simp]: "0 < n \<Longrightarrow> length (strncpy_buf s n) < n"
  by (simp add: strncpy_buf_def)

lemma strncpy_buf_short [simp]: "length s < n \<Longrightarrow> strncpy_buf s n = s"
  by (simp add: strncpy_buf_def)

lemma starts_with_iff: "starts_with s c \<longleftrightarrow> (\<exists>t. s = c # t)"
  by (cases s) auto

lemma starts_with_hd: "starts_with s c \<longleftrightarrow> s \<noteq> [] \<and> hd s = c"
  by (cases s) auto

lemma length_strip_slashes: "length (strip_slashes s) \<le> length s"
  by (simp add: strip_slashes_def length_dropWhile_le)

lemma strip_slashes_no_slash [simp]: "\<not> starts_with (strip_slashes s) slash"
  by (induction s) (auto simp: strip_slashes_def)

section \<open>Path components\<close>

text \<open>Splitting at a separator, and the text a list of components is joined to.\<close>

fun split_at :: "char \<Rightarrow> string \<Rightarrow> string list" where
  "split_at c [] = [[]]"
| "split_at c (x # xs) =
     (if x = c then [] # split_at c xs
      else (case split_at c xs of [] \<Rightarrow> [[x]] | y # ys \<Rightarrow> (x # y) # ys))"

fun join_with :: "char \<Rightarrow> string list \<Rightarrow> string" where
  "join_with c [] = []"
| "join_with c [x] = x"
| "join_with c (x # y # zs) = x @ c # join_with c (y # zs)"

lemma split_at_nonempty [simp]: "split_at c s \<noteq> []"
  by (induction s) (auto split: list.splits)

lemma join_split_at [simp]: "join_with c (split_at c s) = s"
proof (induction s)
  case Nil
  then show ?case by simp
next
  case (Cons x xs)
  obtain y ys where "split_at c xs = y # ys" by (cases "split_at c xs") auto
  with Cons show ?case by (cases ys) auto
qed

lemma split_at_no_sep: "x \<in> set (split_at c s) \<Longrightarrow> c \<notin> set x"
  by (induction s arbitrary: x) (auto split: list.splits if_splits)

lemma split_at_append_sep: "c \<notin> set a \<Longrightarrow> split_at c (a @ c # s) = a # split_at c s"
  by (induction a) auto

lemma split_at_append: "split_at c (a @ c # s) = split_at c a @ split_at c s"
  by (induction a) (auto split: list.splits)

lemma split_at_whole: "c \<notin> set a \<Longrightarrow> split_at c a = [a]"
  by (induction a) auto

lemma join_with_snoc: "xs \<noteq> [] \<Longrightarrow> join_with c (xs @ [x]) = join_with c xs @ c # x"
  by (induction c xs rule: join_with.induct) auto

lemma split_join_with:
  "xs \<noteq> [] \<Longrightarrow> (\<forall>x \<in> set xs. c \<notin> set x) \<Longrightarrow> split_at c (join_with c xs) = xs"
  by (induction c xs rule: join_with.induct) (auto simp: split_at_whole split_at_append_sep)

lemma takeWhile_component: "slash \<notin> set (takeWhile (\<lambda>c. c \<noteq> slash) s)"
  by (auto dest: set_takeWhileD)

section \<open>Loops\<close>

text \<open>
  A loop whose body either goes on with a new state or stops with a result: \<open>Inl\<close> is the state
  of the next iteration, \<open>Inr\<close> the result.
\<close>

definition iterate :: "('s \<Rightarrow> 's + 'r) \<Rightarrow> 's \<Rightarrow> 'r option" where
  "iterate step s =
     map_option (\<lambda>x. case x of Inr r \<Rightarrow> r)
       (while_option isl (\<lambda>x. case x of Inl t \<Rightarrow> step t) (Inl s))"

lemma iterate_unfold:
  "iterate step s = (case step s of Inl t \<Rightarrow> iterate step t | Inr r \<Rightarrow> Some r)"
proof -
  have "while_option isl (\<lambda>x. case x of Inl t \<Rightarrow> step t) (Inl s) =
      while_option isl (\<lambda>x. case x of Inl t \<Rightarrow> step t) (step s)"
    by (subst while_option_unfold) simp
  then show ?thesis
    by (cases "step s") (simp_all add: iterate_def while_option_unfold)
qed

lemma iterate_rule:
  assumes step: "\<And>t u. P t \<Longrightarrow> step t = Inl u \<Longrightarrow> P u"
    and init: "P s"
    and ret: "iterate step s = Some r"
  obtains t where "P t" and "step t = Inr r"
proof -
  let ?c = "\<lambda>x. case x of Inl t \<Rightarrow> step t"
  obtain y where w: "while_option isl ?c (Inl s) = Some y"
    and y: "r = (case y of Inr r \<Rightarrow> r)"
    using ret by (auto simp: iterate_def)
  let ?Q = "\<lambda>x. case x of Inl t \<Rightarrow> P t | Inr r \<Rightarrow> \<exists>t. P t \<and> step t = Inr r"
  have body: "?Q (?c x)" if Q: "?Q x" and b: "isl x" for x
  proof -
    obtain t where t: "x = Inl t" and P: "P t" using Q b by (cases x) auto
    show ?thesis using P step by (cases "step t") (auto simp: t)
  qed
  have "?Q y"
    by (rule while_option_rule [where P = ?Q, OF _ w]) (use body init in auto)
  moreover have "\<not> isl y" using while_option_stop [OF w] .
  ultimately show ?thesis using that y by (cases y) auto
qed

lemma iterate_Some:
  assumes step: "\<And>t u. P t \<Longrightarrow> step t = Inl u \<Longrightarrow> P u \<and> (u, t) \<in> r"
    and wf: "wf r" and init: "P s"
  shows "\<exists>res. iterate step s = Some res"
  using wf init
proof (induction s rule: wf_induct_rule)
  case (less s)
  show ?case
  proof (cases "step s")
    case (Inl u)
    with step less.prems less.IH show ?thesis by (auto simp: iterate_unfold [of step s])
  next
    case (Inr x)
    then show ?thesis by (simp add: iterate_unfold [of step s])
  qed
qed

lemma iterate_None:
  assumes step: "\<And>t. P t \<Longrightarrow> \<exists>u. step t = Inl u \<and> P u" and init: "P s"
  shows "iterate step s = None"
proof (rule ccontr)
  assume "iterate step s \<noteq> None"
  then obtain r where r: "iterate step s = Some r" by auto
  have inv: "\<And>t u. P t \<Longrightarrow> step t = Inl u \<Longrightarrow> P u" using step by fastforce
  show False by (rule iterate_rule [of P, OF inv init r]) (use step in fastforce)+
qed

text \<open>The code equation used to evaluate a loop on a concrete state.\<close>

declare iterate_unfold [code]

end
