(* ===== verification/Realpath.thy ===== *)
theory Realpath
  imports Prelude
begin

text \<open>
  The path walker of \<^verbatim>\<open>path_resolution.c\<close> (\<^verbatim>\<open>__realpathat\<close>) and of \<^verbatim>\<open>realpath.c\<close>
  (\<^verbatim>\<open>next_realpath\<close>): the two are the same loop with a different treatment of a component that
  may be a link. The loop state keeps the unread part of the \<^verbatim>\<open>stack\<close> buffer (the text from
  \<^verbatim>\<open>stack+p\<close> to its terminator), the bytes of the stack from that terminator to the one at
  its end (\<open>rp_hid\<close>: empty unless an attribute with a NUL inside was pushed, so that
  \<open>p = PATH_MAX - length (rp_rest s) - length (rp_hid s)\<close>), the finished part of
  \<^verbatim>\<open>output\<close> (\<^verbatim>\<open>output[0..q)\<close>), \<^verbatim>\<open>nup\<close>, \<^verbatim>\<open>check_dir\<close>, \<^verbatim>\<open>cnt\<close> and the
  current \<^verbatim>\<open>errno\<close>. The system calls are parameters.
\<close>

section \<open>State\<close>

record rpst =
  rp_rest :: string
  rp_hid :: string
  rp_out :: string
  rp_nup :: nat
  rp_check :: bool
  rp_cnt :: nat
  rp_errno :: errno

definition SYMLOOP_MAX :: nat where "SYMLOOP_MAX = 40"

text \<open>What the walker learns about the path it has just assembled.\<close>

datatype lookup = NotLink errno | Attr string | Link string | Fail errno | Bad

definition slash_len :: "string \<Rightarrow> nat" where
  "slash_len s = length (takeWhile (\<lambda>c. c = slash) s)"

text \<open>The increment of the main loop: skip the slashes that follow.\<close>

definition rp_continue :: "rpst \<Rightarrow> rpst" where
  "rp_continue s = s\<lparr>rp_rest := drop (slash_len (rp_rest s)) (rp_rest s)\<rparr>"

text \<open>
  The next component, what is left after it, the room below the unread part (the value of
  \<^verbatim>\<open>p\<close>), and the path assembled in \<^verbatim>\<open>output\<close> to look the component up: a slash is
  pushed back on the stack and copied with the component when the output needs one.
\<close>

definition rp_comp :: "rpst \<Rightarrow> string" where
  "rp_comp s = takeWhile (\<lambda>c. c \<noteq> slash) (rp_rest s)"

definition rp_after :: "rpst \<Rightarrow> string" where
  "rp_after s = drop (length (rp_comp s)) (rp_rest s)"

definition rp_room :: "rpst \<Rightarrow> nat" where
  "rp_room s = PATH_MAX - length (rp_hid s) - length (rp_after s)"

definition rp_sep :: "rpst \<Rightarrow> bool" where
  "rp_sep s \<longleftrightarrow> rp_out s \<noteq> [] \<and> last (rp_out s) \<noteq> slash"

definition rp_full :: "rpst \<Rightarrow> string" where
  "rp_full s = rp_out s @ (if rp_sep s then slash # rp_comp s else rp_comp s)"

definition rp_toolong :: "rpst \<Rightarrow> bool" where
  "rp_toolong s \<longleftrightarrow> rp_sep s \<and> length (rp_rest s) + length (rp_hid s) = PATH_MAX \<or> PATH_MAX \<le> length (rp_full s)"

text \<open>A leading slash resets the output; an initial double slash is kept.\<close>

definition rp_root :: "rpst \<Rightarrow> rpst" where
  "rp_root s =
     (let rest1 = tl (rp_rest s);
          dbl = starts_with rest1 slash \<and> \<not> starts_with (tl rest1) slash
      in rp_continue (s\<lparr>rp_rest := rest1, rp_out := (if dbl then [slash, slash] else [slash]),
           rp_nup := 0, rp_check := False\<rparr>))"

text \<open>An initial \<^verbatim>\<open>..\<close> of a relative path is kept, to be applied to the working directory.\<close>

definition rp_dotdot :: "rpst \<Rightarrow> rpst" where
  "rp_dotdot s =
     rp_continue (s\<lparr>rp_rest := rp_after s, rp_out := rp_full s, rp_nup := Suc (rp_nup s)\<rparr>)"

text \<open>Drop the last component of \<^verbatim>\<open>output\<close>.\<close>

definition rp_pop :: "string \<Rightarrow> string" where
  "rp_pop out =
     (let o1 = rev (dropWhile (\<lambda>c. c \<noteq> slash) (rev out)); q = length o1
      in if 1 < q \<and> (2 < q \<or> \<not> starts_with o1 slash) then butlast o1 else o1)"

text \<open>The code at label \<^verbatim>\<open>skip_readlink\<close>: the component is not a link.\<close>

definition rp_skip :: "errno \<Rightarrow> rpst \<Rightarrow> rpst" where
  "rp_skip e s =
     (if rp_comp s = ''..'' then
        rp_continue (s\<lparr>rp_rest := rp_after s, rp_out := rp_pop (rp_out s), rp_check := False,
          rp_errno := e\<rparr>)
      else
        rp_continue (s\<lparr>rp_rest := rp_after s,
          rp_out := (if rp_comp s = [] then rp_out s else rp_full s),
          rp_check := (rp_after s \<noteq> []), rp_errno := e\<rparr>))"

text \<open>
  The value of an attribute goes back on the stack without its last byte, a terminator as a rule.
  A terminator before that ends the unread part: what follows stays on the stack unseen.
\<close>

definition rp_attr :: "string \<Rightarrow> rpst \<Rightarrow> rpst" where
  "rp_attr v s =
     (if NUL \<in> set v
      then s\<lparr>rp_rest := takeWhile (\<lambda>c. c \<noteq> NUL) v,
             rp_hid := dropWhile (\<lambda>c. c \<noteq> NUL) v @ rp_after s @ rp_hid s\<rparr>
      else s\<lparr>rp_rest := v @ rp_after s\<rparr>)"

text \<open>
  The text of a link goes back on the stack, below the root directory \<open>pre\<close> when it is
  absolute (\<open>pre\<close> is empty outside of a chroot). With the root directory it may be longer
  than the room in front of the unread part. Its end then overwrites the first bytes of that part,
  and the walk goes on only when these are now slashes, which the code strips as if they were slashes
  of the stack, up to the end of the link; otherwise, or when the buffer itself is too short, the
  moves write beyond the buffer.
\<close>

definition rp_link_text :: "string \<Rightarrow> string \<Rightarrow> string" where
  "rp_link_text pre v = (if starts_with v slash then take PATH_MAX pre @ v else v)"

definition rp_push :: "string \<Rightarrow> string \<Rightarrow> rpst \<Rightarrow> rpst + rpst run" where
  "rp_push pre v s =
     (let v' = rp_link_text pre v;
          rest' = (if last v' = slash then strip_slashes (rp_after s) else rp_after s)
      in if length v' \<le> rp_room s
         then Inl (s\<lparr>rp_rest := v' @ rest', rp_cnt := Suc (rp_cnt s)\<rparr>)
         else if length v' \<le> PATH_MAX \<and> (\<forall>c \<in> set (drop (rp_room s) v'). c = slash)
         then let w = strip_slashes (drop (length v' - rp_room s) (rp_after s @ rp_hid s))
              in Inl (s\<lparr>rp_rest := v' @ takeWhile (\<lambda>c. c \<noteq> NUL) w, rp_hid := dropWhile (\<lambda>c. c \<noteq> NUL) w,
                        rp_cnt := Suc (rp_cnt s)\<rparr>)
         else Inr Undef)"

section \<open>One iteration of the main loop\<close>

definition rp_step ::
    "(string \<Rightarrow> nat \<Rightarrow> errno \<Rightarrow> lookup) \<Rightarrow> string \<Rightarrow> rpst \<Rightarrow> rpst + rpst run" where
  "rp_step look pre s =
     (if starts_with (rp_rest s) slash then Inl (rp_root s)
      else if rp_comp s = [] \<and> \<not> rp_check s then Inr (Ret s)
      else if rp_comp s = ''.'' then Inl (rp_continue (s\<lparr>rp_rest := rp_after s\<rparr>))
      else if rp_toolong s then Inr (Err ENAMETOOLONG)
      else if rp_comp s = ''..'' \<and> length (rp_out s) \<le> 3 * rp_nup s then Inl (rp_dotdot s)
      else if rp_comp s = ''..'' \<and> \<not> rp_check s then Inl (rp_skip (rp_errno s) s)
      else case look (rp_full s) (rp_room s) (rp_errno s) of
          NotLink e \<Rightarrow> Inl (rp_skip e s)
        | Attr v \<Rightarrow> Inl (rp_attr v s)
        | Link v \<Rightarrow>
            if Suc (rp_cnt s) = SYMLOOP_MAX then Inr (Err ELOOP) else rp_push pre v s
        | Fail e \<Rightarrow> Inr (Err e)
        | Bad \<Rightarrow> Inr Undef)"

section \<open>After the loop: a relative result is put below the working directory\<close>

text \<open>The loop over \<^verbatim>\<open>nup\<close> that cancels the initial \<^verbatim>\<open>..\<close> components of the output.\<close>

fun rp_cancel :: "nat \<Rightarrow> string \<Rightarrow> nat \<Rightarrow> nat \<Rightarrow> string \<times> nat" where
  "rp_cancel 0 cwd p q = (cwd, p)"
| "rp_cancel (Suc n) cwd p q =
     (let c1 = rev (dropWhile (\<lambda>c. c \<noteq> slash) (rev cwd));
          c2 = (if c1 = [] then take 1 cwd else c1);
          c3 = (if 1 < length c2 then butlast c2 else c2);
          p1 = p + 2
      in rp_cancel n c3 (if p1 < q then Suc p1 else p1) q)"

definition rp_finish :: "(nat \<Rightarrow> errno + string) \<Rightarrow> rpst \<Rightarrow> string run" where
  "rp_finish getcwd s =
     (let out = rp_out s in
      if starts_with out slash then Ret out
      else case getcwd (Suc PATH_MAX) of
          Inl e \<Rightarrow> Err e
        | Inr cwd \<Rightarrow>
            let (c, p) = rp_cancel (rp_nup s) cwd 0 (length out);
                tl_out = drop p out;
                c' = (if tl_out \<noteq> [] \<and> last c \<noteq> slash then c @ [slash] else c)
            in if length out < p then Undef
               else if PATH_MAX \<le> length c' + length tl_out + 1 then Err ENAMETOOLONG
               else Ret (c' @ tl_out))"

definition rp_init :: "string \<Rightarrow> errno \<Rightarrow> rpst" where
  "rp_init filename e =
     \<lparr>rp_rest = filename, rp_hid = [], rp_out = [], rp_nup = 0, rp_check = False, rp_cnt = 0, rp_errno = e\<rparr>"

text \<open>The walk with its entry checks; \<open>None\<close> of the loop is a walk that never ends.\<close>

definition rp_walk ::
    "(string \<Rightarrow> nat \<Rightarrow> errno \<Rightarrow> lookup) \<Rightarrow> string \<Rightarrow> (nat \<Rightarrow> errno + string) \<Rightarrow> errno \<Rightarrow> string
     \<Rightarrow> string run" where
  "rp_walk look pre getcwd e filename =
     (let l = strnlen filename (Suc PATH_MAX) in
      if l = 0 then Err ENOENT
      else if PATH_MAX \<le> l then Err ENAMETOOLONG
      else case iterate (rp_step look pre) (rp_init filename e) of
          None \<Rightarrow> Diverge
        | Some r \<Rightarrow> run_bind r (rp_finish getcwd))"

section \<open>The two callers\<close>

text \<open>
  The lookup of \<^verbatim>\<open>__realpathat\<close>: the extended attribute \<^verbatim>\<open>iamroot.path-resolution\<close> first
  (\<open>xget path size\<close>), the link itself then (\<open>rlink path size\<close>). \<open>esave\<close> is \<^verbatim>\<open>errno_save\<close>.
\<close>

definition rpat_readlink ::
    "(string \<Rightarrow> nat \<Rightarrow> errno + string) \<Rightarrow> errno \<Rightarrow> string \<Rightarrow> nat \<Rightarrow> errno \<Rightarrow> lookup" where
  "rpat_readlink rlink esave full p cur =
     (case rlink full p of
        Inl e \<Rightarrow> if e = ENOENT then NotLink ENOENT
                 else if e \<noteq> EINVAL then Fail e else NotLink esave
      | Inr v \<Rightarrow> if length v = p then Fail ENAMETOOLONG
                 else if v = [] then (if cur = ENOENT then NotLink cur else Fail ENOENT)
                 else Link v)"

definition rpat_lookup ::
    "(string \<Rightarrow> nat \<Rightarrow> errno + string) \<Rightarrow> (string \<Rightarrow> nat \<Rightarrow> errno + string) \<Rightarrow> bool \<Rightarrow> errno
     \<Rightarrow> string \<Rightarrow> nat \<Rightarrow> errno \<Rightarrow> lookup" where
  "rpat_lookup xget rlink follow esave full p cur =
     (if \<not> follow then NotLink cur
      else case xget full p of
          Inl e \<Rightarrow> rpat_readlink rlink esave full p esave
        | Inr v \<Rightarrow> if length v = p then Fail ENAMETOOLONG
                   else if v \<noteq> [] then (if p < length v - 1 then Bad else Attr (butlast v))
                   else rpat_readlink rlink esave full p cur)"

definition realpathat ::
    "(string \<Rightarrow> nat \<Rightarrow> errno + string) \<Rightarrow> (string \<Rightarrow> nat \<Rightarrow> errno + string)
     \<Rightarrow> (nat \<Rightarrow> errno + string) \<Rightarrow> string \<Rightarrow> bool \<Rightarrow> errno \<Rightarrow> string \<Rightarrow> string run" where
  "realpathat xget rlink getcwd rootdir follow esave filename =
     rp_walk (rpat_lookup xget rlink follow esave) (if rootdir = ''/'' then [] else rootdir)
       getcwd esave filename"

text \<open>
  The lookup of \<^verbatim>\<open>next_realpath\<close>: no attribute, every link is followed, a missing component
  is an error.
\<close>

definition next_lookup ::
    "(string \<Rightarrow> nat \<Rightarrow> errno + string) \<Rightarrow> errno \<Rightarrow> string \<Rightarrow> nat \<Rightarrow> errno \<Rightarrow> lookup" where
  "next_lookup rlink esave full p cur =
     (case rlink full p of
        Inl e \<Rightarrow> if e \<noteq> EINVAL then Fail e else NotLink esave
      | Inr v \<Rightarrow> if length v = p then Fail ENAMETOOLONG
                 else if v = [] then Fail ENOENT
                 else Link v)"

definition next_realpath ::
    "(string \<Rightarrow> nat \<Rightarrow> errno + string) \<Rightarrow> (nat \<Rightarrow> errno + string) \<Rightarrow> errno \<Rightarrow> string
     \<Rightarrow> string run" where
  "next_realpath rlink getcwd esave filename =
     rp_walk (next_lookup rlink esave) [] getcwd esave filename"

end
