(* ===== verification/Realpath_Facts.thy ===== *)
theory Realpath_Facts
  imports Realpath
begin

text \<open>
  What the path walker guarantees: the shape of its output, the bounds of its buffers, its
  agreement with lexical normalisation when nothing is a link, and when it ends.
\<close>

section \<open>The steps of the loop\<close>

lemma drop_slash_len: "drop (slash_len s) s = strip_slashes s"
  by (simp add: slash_len_def strip_slashes_def dropWhile_eq_drop)

lemma rp_continue_simps [simp]:
  "rp_rest (rp_continue s) = strip_slashes (rp_rest s)"
  "rp_out (rp_continue s) = rp_out s" "rp_nup (rp_continue s) = rp_nup s"
  "rp_check (rp_continue s) = rp_check s" "rp_cnt (rp_continue s) = rp_cnt s"
  "rp_hid (rp_continue s) = rp_hid s"
  by (simp_all add: rp_continue_def drop_slash_len)

lemma rp_after_eq: "rp_after s = dropWhile (\<lambda>c. c \<noteq> slash) (rp_rest s)"
  by (simp add: rp_after_def rp_comp_def dropWhile_eq_drop)

lemma rp_comp_after: "rp_comp s @ rp_after s = rp_rest s"
  by (simp add: rp_after_eq rp_comp_def)

lemma length_rp_after: "length (rp_after s) = length (rp_rest s) - length (rp_comp s)"
  by (simp add: rp_after_def)

lemma slash_notin_comp [simp]: "slash \<notin> set (rp_comp s)"
  by (simp add: rp_comp_def takeWhile_component)

lemma rp_after_starts: "rp_after s \<noteq> [] \<Longrightarrow> starts_with (rp_after s) slash"
  unfolding rp_after_eq starts_with_hd
  using hd_dropWhile [of "\<lambda>c. c \<noteq> slash" "rp_rest s"] by blast

lemma rp_step_cases:
  assumes "rp_step look pre s = Inl t"
  obtains
    (root) "starts_with (rp_rest s) slash" "t = rp_root s"
  | (dot) "\<not> starts_with (rp_rest s) slash" "rp_comp s = ''.''"
      "t = rp_continue (s\<lparr>rp_rest := rp_after s\<rparr>)"
  | (dotdot) "\<not> starts_with (rp_rest s) slash" "rp_comp s = ''..''"
      "length (rp_out s) \<le> 3 * rp_nup s" "\<not> rp_toolong s" "t = rp_dotdot s"
  | (up) e where "\<not> starts_with (rp_rest s) slash" "rp_comp s = ''..''"
      "3 * rp_nup s < length (rp_out s)" "t = rp_skip e s"
  | (keep) e where "\<not> starts_with (rp_rest s) slash" "rp_comp s \<noteq> ''..''" "rp_comp s \<noteq> ''.''"
      "rp_comp s \<noteq> [] \<or> rp_check s" "\<not> rp_toolong s"
      "look (rp_full s) (rp_room s) (rp_errno s) = NotLink e" "t = rp_skip e s"
  | (attr) v where "\<not> starts_with (rp_rest s) slash" "\<not> rp_toolong s"
      "look (rp_full s) (rp_room s) (rp_errno s) = Attr v"
      "t = rp_attr v s"
  | (link) v where "\<not> starts_with (rp_rest s) slash" "\<not> rp_toolong s"
      "look (rp_full s) (rp_room s) (rp_errno s) = Link v" "Suc (rp_cnt s) \<noteq> SYMLOOP_MAX"
      "rp_push pre v s = Inl t"
proof -
  consider "starts_with (rp_rest s) slash" | "\<not> starts_with (rp_rest s) slash" by blast
  then show thesis
  proof cases
    case 1
    with assms root show thesis by (simp add: rp_step_def)
  next
    case 2
    show thesis
    proof (cases "rp_comp s = ''..''")
      case True
      with assms 2 show thesis
        by (auto simp: rp_step_def split: if_splits lookup.splits intro: dotdot up attr link)
    next
      case False
      with assms 2 show thesis
        by (auto simp: rp_step_def split: if_splits lookup.splits intro: dot keep attr link)
    qed
  qed
qed

section \<open>The shape of the output\<close>

definition good :: "string \<Rightarrow> bool" where
  "good c \<longleftrightarrow> c \<noteq> [] \<and> c \<noteq> ''.'' \<and> c \<noteq> ''..'' \<and> slash \<notin> set c"

text \<open>
  An output made of a root (none, one slash or the special two), \<open>n\<close> times \<^verbatim>\<open>..\<close> and proper
  names.
\<close>

definition shaped :: "string \<Rightarrow> nat \<Rightarrow> string list \<Rightarrow> string \<Rightarrow> bool" where
  "shaped root n cs out \<longleftrightarrow>
     (root = [] \<or> n = 0 \<and> root \<in> {[slash], [slash, slash]}) \<and> list_all good cs \<and>
     out = root @ join_with slash (replicate n ''..'' @ cs)"

text \<open>
  The shape of a state, for a given root; \<open>seen\<close> is what is known of the path to each name.
\<close>

definition shaped_by :: "(string \<Rightarrow> bool) \<Rightarrow> string \<Rightarrow> rpst \<Rightarrow> bool" where
  "shaped_by seen root s \<longleftrightarrow>
     (\<exists>cs. shaped root (rp_nup s) cs (rp_out s) \<and>
        (\<forall>i < length cs. seen (root @ join_with slash (replicate (rp_nup s) ''..'' @ take (Suc i) cs))))"

text \<open>A canonical absolute path: no empty, \<^verbatim>\<open>.\<close> or \<^verbatim>\<open>..\<close> component, no final slash.\<close>

definition canonical :: "string \<Rightarrow> bool" where
  "canonical r \<longleftrightarrow>
     (\<exists>root cs. root \<in> {[slash], [slash, slash]} \<and> list_all good cs \<and> r = root @ join_with slash cs)"

lemma good_dots: "x \<in> set (replicate n ''..'') \<Longrightarrow> x \<noteq> [] \<and> slash \<notin> set x"
  by (auto simp: slash_def)

lemma join_ends:
  "xs \<noteq> [] \<Longrightarrow> \<forall>x \<in> set xs. x \<noteq> [] \<and> slash \<notin> set x \<Longrightarrow>
    join_with slash xs \<noteq> [] \<and> last (join_with slash xs) \<noteq> slash \<and>
    \<not> starts_with (join_with slash xs) slash"
proof (induction slash xs rule: join_with.induct)
  case (2 x)
  then have "last x \<noteq> slash" using last_in_set by fastforce
  with 2 show ?case by (cases x) auto
next
  case (3 x y zs)
  then show ?case by (cases x) auto
qed auto

lemma shaped_items: "list_all good cs \<Longrightarrow> \<forall>x \<in> set (replicate n ''..'' @ cs). x \<noteq> [] \<and> slash \<notin> set x"
  using good_dots [of _ n] by (fastforce simp: list_all_iff good_def)

lemma join_append_comp:
  "xs \<noteq> [] \<Longrightarrow> join_with slash xs @ slash # c = join_with slash (xs @ [c])"
  by (simp add: join_with_snoc)

lemma length_join_dots: "length (join_with slash (replicate n ''..'')) = 3 * n - 1"
proof (induction n)
  case (Suc n)
  then show ?case by (cases n) auto
qed simp

text \<open>Appending the next component.\<close>

lemma rp_full_shaped:
  assumes "shaped root n cs (rp_out s)"
  shows "rp_full s = root @ join_with slash (replicate n ''..'' @ cs @ [rp_comp s])"
proof (cases "replicate n ''..'' @ cs = []")
  case True
  with assms show ?thesis by (auto simp: rp_full_def rp_sep_def shaped_def)
next
  case False
  from assms have "\<forall>x \<in> set (replicate n ''..'' @ cs). x \<noteq> [] \<and> slash \<notin> set x"
    by (intro shaped_items) (simp add: shaped_def)
  from join_ends [OF False this] assms have "rp_sep s"
    by (auto simp: rp_sep_def shaped_def)
  with assms join_append_comp [OF False] show ?thesis by (simp add: rp_full_def shaped_def)
qed

text \<open>Removing the last one.\<close>

lemma dropWhile_rev_comp: "slash \<notin> set c \<Longrightarrow>
  rev (dropWhile (\<lambda>x. x \<noteq> slash) (rev (a @ slash # c))) = a @ [slash]"
  by (simp add: dropWhile_append3) (metis (mono_tags, lifting) dropWhile_append2 dropWhile.simps(2) rev.simps(2) rev_rev_ident set_rev)

lemma dropWhile_rev_none: "slash \<notin> set c \<Longrightarrow>
  rev (dropWhile (\<lambda>x. x \<noteq> slash) (rev c)) = []"
  by (metis (mono_tags, lifting) dropWhile_eq_Nil_conv rev.simps(1) set_rev)

lemma rp_pop_root:
  "rp_pop [slash] = [slash]" "rp_pop [slash, slash] = [slash, slash]" "rp_pop [] = []"
  by (simp_all add: rp_pop_def)

lemma rp_pop_shaped:
  assumes "shaped root n (cs @ [c]) out"
  shows "rp_pop out = root @ join_with slash (replicate n ''..'' @ cs)"
proof -
  let ?xs = "replicate n ''..'' @ cs"
  have c: "slash \<notin> set c" "list_all good cs" using assms by (auto simp: shaped_def good_def)
  have out: "out = root @ join_with slash (?xs @ [c])" using assms by (simp add: shaped_def)
  show ?thesis
  proof (cases "?xs = []")
    case True
    then have o: "out = root @ c" using out by simp
    have "root = [] \<or> root = [slash] \<or> root = [slash, slash]" using assms by (auto simp: shaped_def)
    then have e: "rev (dropWhile (\<lambda>x. x \<noteq> slash) (rev out)) = root"
      using o dropWhile_rev_comp [OF c(1), of "[]"] dropWhile_rev_comp [OF c(1), of "[slash]"]
        dropWhile_rev_none [OF c(1)] by (elim disjE) simp_all
    from True \<open>root = [] \<or> _\<close> show ?thesis unfolding rp_pop_def e Let_def by auto
  next
    case False
    have e: "join_with slash ?xs \<noteq> []" "\<not> starts_with (join_with slash ?xs) slash"
      using join_ends [OF False shaped_items [OF c(2)]] by auto
    have o: "out = (root @ join_with slash ?xs) @ slash # c"
      using out False join_append_comp [OF False, of c] by simp
    have "rev (dropWhile (\<lambda>x. x \<noteq> slash) (rev out)) = (root @ join_with slash ?xs) @ [slash]"
      unfolding o by (rule dropWhile_rev_comp [OF c(1)])
    moreover have "root = [] \<Longrightarrow> \<not> starts_with (join_with slash ?xs @ [slash]) slash"
      using e by (cases "join_with slash ?xs") auto
    moreover have "root \<noteq> [] \<Longrightarrow> Suc 0 < length root + length (join_with slash ?xs)"
      using e by (cases root; cases "join_with slash ?xs") auto
    ultimately show ?thesis using e
      by (cases "root = []") (auto simp: rp_pop_def Let_def butlast_append simp del: rev_append)
  qed
qed


text \<open>Every step keeps the output well shaped.\<close>

lemma shaped_by_cong:
  "rp_out t = rp_out s \<Longrightarrow> rp_nup t = rp_nup s \<Longrightarrow> shaped_by seen root t = shaped_by seen root s"
  by (simp add: shaped_by_def)

lemma rp_push_simps:
  assumes "rp_push pre v s = Inl t"
  shows "rp_out t = rp_out s" "rp_nup t = rp_nup s" "rp_cnt t = Suc (rp_cnt s)" "rp_check t = rp_check s"
  using assms by (auto simp: rp_push_def Let_def split: if_splits)

lemma rp_attr_simps [simp]:
  "rp_out (rp_attr v s) = rp_out s" "rp_nup (rp_attr v s) = rp_nup s" "rp_cnt (rp_attr v s) = rp_cnt s"
  "rp_check (rp_attr v s) = rp_check s"
  by (simp_all add: rp_attr_def)

lemma length_take_drop_While: "length (takeWhile P xs) + length (dropWhile P xs) = length xs"
  by (metis length_append takeWhile_dropWhile_id)

lemma rp_attr_length:
  "length (rp_rest (rp_attr v s)) + length (rp_hid (rp_attr v s)) =
     length v + length (rp_after s) + length (rp_hid s)"
  using length_take_drop_While [of _ v] by (simp add: rp_attr_def add.assoc [symmetric])

text \<open>What a link leaves on the stack is in the buffer.\<close>

lemma rp_push_length:
  assumes "rp_push pre v s = Inl t" and "length (rp_after s) + length (rp_hid s) \<le> PATH_MAX"
  shows "length (rp_rest t) + length (rp_hid t) \<le> PATH_MAX"
proof -
  let ?v = "rp_link_text pre v"
  let ?w = "strip_slashes (drop (length ?v - rp_room s) (rp_after s @ rp_hid s))"
  have w: "length ?w \<le> length (rp_after s) + length (rp_hid s) - (length ?v - rp_room s)"
    using length_strip_slashes [of "drop (length ?v - rp_room s) (rp_after s @ rp_hid s)"]
    by (simp only: length_drop length_append)
  have lw: "length (takeWhile (\<lambda>c. c \<noteq> NUL) ?w) + length (dropWhile (\<lambda>c. c \<noteq> NUL) ?w) = length ?w"
    by (rule length_take_drop_While)
  show ?thesis
  proof (cases "length ?v \<le> rp_room s")
    case True
    then have "length (rp_rest t) \<le> length ?v + length (rp_after s)" "rp_hid t = rp_hid s"
      using assms(1) length_strip_slashes [of "rp_after s"] by (auto simp: rp_push_def Let_def split: if_splits)
    with True assms(2) show ?thesis by (simp add: rp_room_def)
  next
    case False
    then have "rp_rest t = ?v @ takeWhile (\<lambda>c. c \<noteq> NUL) ?w" "rp_hid t = dropWhile (\<lambda>c. c \<noteq> NUL) ?w"
        "length ?v \<le> PATH_MAX"
      using assms(1) by (auto simp: rp_push_def Let_def split: if_splits)
    then have "length (rp_rest t) + length (rp_hid t) = length ?v + length ?w" using lw by (simp only: length_append add.assoc)
    also have "\<dots> \<le> PATH_MAX"
      using w False assms(2) \<open>length ?v \<le> PATH_MAX\<close> unfolding rp_room_def by linarith
    finally show ?thesis .
  qed
qed

lemma rp_skip_simps:
  "rp_nup (rp_skip e s) = rp_nup s" "rp_cnt (rp_skip e s) = rp_cnt s"
  "rp_out (rp_skip e s) =
     (if rp_comp s = ''..'' then rp_pop (rp_out s)
      else if rp_comp s = [] then rp_out s else rp_full s)"
  "rp_rest (rp_skip e s) = strip_slashes (rp_after s)" "rp_hid (rp_skip e s) = rp_hid s"
  "rp_check (rp_skip e s) \<longleftrightarrow> rp_comp s \<noteq> ''..'' \<and> rp_after s \<noteq> []"
  by (auto simp: rp_skip_def)

lemma rp_up_shaped:
  assumes sh: "shaped_by seen root s" and up: "rp_comp s = ''..''"
    and q: "3 * rp_nup s < length (rp_out s)"
  shows "shaped_by seen root (rp_skip e s)"
proof -
  obtain cs where cs: "shaped root (rp_nup s) cs (rp_out s)"
    and seen: "\<forall>i < length cs. seen (root @ join_with slash (replicate (rp_nup s) ''..'' @ take (Suc i) cs))"
    using sh by (auto simp: shaped_by_def)
  show ?thesis
  proof (cases cs rule: rev_cases)
    case Nil
    from cs q have "root \<noteq> []" by (auto simp: Nil shaped_def length_join_dots)
    with cs have "rp_pop (rp_out s) = rp_out s" by (auto simp: Nil shaped_def rp_pop_root)
    with sh up show ?thesis by (subst shaped_by_cong [of _ s]) (simp_all add: rp_skip_simps)
  next
    case (snoc cs' c)
    with cs have "rp_pop (rp_out s) = root @ join_with slash (replicate (rp_nup s) ''..'' @ cs')"
      using rp_pop_shaped by blast
    with cs snoc have "shaped root (rp_nup s) cs' (rp_pop (rp_out s))" by (simp add: shaped_def)
    moreover have "\<forall>i < length cs'. seen (root @ join_with slash (replicate (rp_nup s) ''..'' @ take (Suc i) cs'))"
    proof (intro allI impI)
      fix i assume "i < length cs'"
      then show "seen (root @ join_with slash (replicate (rp_nup s) ''..'' @ take (Suc i) cs'))"
        using seen [rule_format, of i] by (simp add: snoc)
    qed
    ultimately show ?thesis using up by (auto simp: shaped_by_def rp_skip_simps)
  qed
qed

lemma rp_keep_shaped:
  assumes sh: "shaped_by seen root s" and c: "rp_comp s \<noteq> ''.''" "rp_comp s \<noteq> ''..''"
    and full: "seen (rp_full s)"
  shows "shaped_by seen root (rp_skip e s)"
proof (cases "rp_comp s = []")
  case True
  with sh show ?thesis by (subst shaped_by_cong [of _ s]) (simp_all add: rp_skip_simps)
next
  case ne: False
  obtain cs where cs: "shaped root (rp_nup s) cs (rp_out s)"
    and seen: "\<forall>i < length cs. seen (root @ join_with slash (replicate (rp_nup s) ''..'' @ take (Suc i) cs))"
    using sh by (auto simp: shaped_by_def)
  have "good (rp_comp s)" using ne c by (simp add: good_def)
  with cs rp_full_shaped [OF cs]
  have "shaped root (rp_nup s) (cs @ [rp_comp s]) (rp_full s)" by (simp add: shaped_def)
  moreover have "seen (root @ join_with slash (replicate (rp_nup s) ''..'' @ take (Suc i) (cs @ [rp_comp s])))"
    if "i < length (cs @ [rp_comp s])" for i
  proof (cases "i < length cs")
    case True
    then show ?thesis using seen [rule_format, of i] by simp
  next
    case False
    then show ?thesis using that full rp_full_shaped [OF cs] by simp
  qed
  ultimately show ?thesis
    using ne c unfolding shaped_by_def by (intro exI [of _ "cs @ [rp_comp s]"]) (simp add: rp_skip_simps)
qed

lemma length_shaped_join:
  assumes "good c"
  shows "3 * n < length (join_with slash (replicate n ''..'' @ xs @ [c]))"
proof (induction n)
  case 0
  show ?case using assms join_with_snoc [of xs slash c] by (cases xs) (auto simp: good_def)
next
  case (Suc n)
  then show ?case by (cases "replicate n ''..'' @ xs @ [c]") auto
qed

lemma rp_dotdot_shaped:
  assumes "shaped_by seen root s" and "rp_comp s = ''..''" and "length (rp_out s) \<le> 3 * rp_nup s"
  shows "root = []" and "shaped_by seen [] (rp_dotdot s)"
proof -
  obtain cs where sh: "shaped root (rp_nup s) cs (rp_out s)"
    using assms(1) by (auto simp: shaped_by_def)
  show root: "root = []" using sh assms(3) by (auto simp: shaped_def)
  have "cs = []"
  proof (rule ccontr)
    assume ne: "cs \<noteq> []"
    then obtain cs' c where cs: "cs = cs' @ [c]" by (cases cs rule: rev_cases) auto
    with sh length_shaped_join [of c "rp_nup s" cs'] root assms(3) show False by (auto simp: shaped_def)
  qed
  with sh root have "rp_full s = join_with slash (replicate (rp_nup s) ''..'' @ [''..''])"
    using rp_full_shaped [OF sh] assms(2) by simp
  also have "\<dots> = join_with slash (replicate (Suc (rp_nup s)) ''..'')"
    by (simp add: replicate_append_same)
  finally have "shaped [] (Suc (rp_nup s)) [] (rp_full s)" by (simp add: shaped_def)
  then show "shaped_by seen [] (rp_dotdot s)" by (auto simp: shaped_by_def rp_dotdot_def)
qed

lemma rp_root_simps:
  "rp_nup (rp_root s) = 0" "rp_cnt (rp_root s) = rp_cnt s" "\<not> rp_check (rp_root s)"
  "rp_rest (rp_root s) = strip_slashes (tl (rp_rest s))" "rp_hid (rp_root s) = rp_hid s"
  "rp_out (rp_root s) = [slash] \<or> rp_out (rp_root s) = [slash, slash]"
  by (auto simp: rp_root_def Let_def)

lemma rp_root_shaped: "shaped_by seen (rp_out (rp_root s)) (rp_root s)"
  using rp_root_simps [of s] unfolding shaped_by_def shaped_def by (intro exI [of _ "[]"]) auto

lemma rp_step_shaped:
  assumes sh: "shaped_by seen root s" and st: "rp_step look pre s = Inl t"
    and seen: "\<And>p e e'. look (rp_full s) p e = NotLink e' \<Longrightarrow> seen (rp_full s)"
  shows "\<exists>root'. shaped_by seen root' t \<and> (root \<noteq> [] \<longrightarrow> root' \<noteq> [])"
  using st
proof (cases rule: rp_step_cases)
  case root
  then show ?thesis using rp_root_shaped [of seen s] rp_root_simps(6) [of s] by auto
next
  case dotdot
  then show ?thesis using rp_dotdot_shaped [OF sh] by auto
next
  case up
  then show ?thesis using rp_up_shaped [OF sh] by auto
next
  case keep
  then show ?thesis using rp_keep_shaped [OF sh] seen by blast
next
  case (link v)
  with sh show ?thesis using rp_push_simps [OF link(5)] by (metis shaped_by_cong)
qed (use sh in \<open>auto simp: shaped_by_def\<close>)

section \<open>Results of a walk\<close>

lemma rp_step_Inr:
  "rp_step look pre s = Inr (Ret t) \<Longrightarrow> t = s \<and> \<not> starts_with (rp_rest s) slash"
  by (auto simp: rp_step_def rp_push_def Let_def split: if_splits lookup.splits)

lemma rp_walk_Ret:
  assumes "rp_walk look pre getcwd e filename = Ret r"
  obtains s where "iterate (rp_step look pre) (rp_init filename e) = Some (Ret s)"
    and "rp_finish getcwd s = Ret r" and "filename \<noteq> []" and "length filename < PATH_MAX"
  using assms by (auto simp: rp_walk_def Let_def run_simps strnlen_def split: if_splits option.splits)

lemma shaped_starts:
  "shaped root n cs out \<Longrightarrow> starts_with out slash \<longleftrightarrow> root \<noteq> []"
proof (cases "root = []")
  case True
  assume sh: "shaped root n cs out"
  then have "list_all good cs" and "out = join_with slash (replicate n ''..'' @ cs)"
    using True by (simp_all add: shaped_def)
  then have "\<not> starts_with out slash"
    using join_ends [of "replicate n ''..'' @ cs"] shaped_items [of cs n]
    by (cases "replicate n ''..'' @ cs = []") simp_all
  with True show ?thesis by simp
next
  case False
  assume "shaped root n cs out"
  with False show ?thesis by (auto simp: shaped_def)
qed

text \<open>A path the walker has looked up and found not to be a link.\<close>

definition looked_up :: "(string \<Rightarrow> nat \<Rightarrow> errno \<Rightarrow> lookup) \<Rightarrow> string \<Rightarrow> bool" where
  "looked_up look f \<longleftrightarrow> (\<exists>p e e'. look f p e = NotLink e')"

text \<open>A walk of an absolute name keeps a root and only returns names it has looked up.\<close>

lemma rp_walk_absolute:
  assumes walk: "rp_walk look pre getcwd e filename = Ret r" and abs: "starts_with filename slash"
  obtains root cs where "root \<in> {[slash], [slash, slash]}" and "list_all good cs"
    and "r = root @ join_with slash cs"
    and "\<And>i. i < length cs \<Longrightarrow> looked_up look (root @ join_with slash (take (Suc i) cs))"
proof -
  let ?P = "\<lambda>s. \<exists>root. root \<noteq> [] \<and> shaped_by (looked_up look) root s"
  obtain s where it: "iterate (rp_step look pre) (rp_init filename e) = Some (Ret s)"
    and fin: "rp_finish getcwd s = Ret r" using walk by (rule rp_walk_Ret)
  have "rp_step look pre (rp_init filename e) = Inl (rp_root (rp_init filename e))"
    using abs by (simp add: rp_step_def rp_init_def)
  with it have it': "iterate (rp_step look pre) (rp_root (rp_init filename e)) = Some (Ret s)"
    by (simp add: iterate_unfold [of _ "rp_init filename e"])
  have step: "?P u" if P: "?P t" and u: "rp_step look pre t = Inl u" for t u
  proof -
    obtain root where "root \<noteq> []" and sh: "shaped_by (looked_up look) root t" using P by blast
    moreover have "looked_up look (rp_full t)" if "look (rp_full t) p e = NotLink e'" for p e e'
      using that by (auto simp: looked_up_def)
    ultimately show ?thesis using rp_step_shaped [OF sh u] by blast
  qed
  have init: "?P (rp_root (rp_init filename e))"
    using rp_root_shaped [of "looked_up look" "rp_init filename e"] rp_root_simps(6) [of "rp_init filename e"]
    by (intro exI [of _ "rp_out (rp_root (rp_init filename e))"]) auto
  obtain t where P: "?P t" and t: "rp_step look pre t = Inr (Ret s)"
    by (rule iterate_rule [where P = ?P, OF step init it'])
  from t have "t = s" using rp_step_Inr by blast
  with P obtain root where root: "root \<noteq> []" and sb: "shaped_by (looked_up look) root s" by blast
  then obtain cs where sh: "shaped root (rp_nup s) cs (rp_out s)"
    and seen: "\<forall>i < length cs. looked_up look (root @ join_with slash (replicate (rp_nup s) ''..'' @ take (Suc i) cs))"
    unfolding shaped_by_def by blast
  from fin shaped_starts [OF sh] root have r: "r = rp_out s" by (simp add: rp_finish_def)
  from sh root have n: "rp_nup s = 0" by (simp add: shaped_def)
  show thesis
  proof (rule that)
    show "root \<in> {[slash], [slash, slash]}" "list_all good cs" "r = root @ join_with slash cs"
      using sh root r n by (auto simp: shaped_def)
    show "looked_up look (root @ join_with slash (take (Suc i) cs))" if "i < length cs" for i
      using seen [rule_format, OF that] n by simp
  qed
qed


section \<open>Bounds\<close>

text \<open>
  What the walker relies on: a text it is given fits below the unread part, an attribute with its
  last byte.
\<close>

definition lookup_fits :: "(string \<Rightarrow> nat \<Rightarrow> errno \<Rightarrow> lookup) \<Rightarrow> bool" where
  "lookup_fits look \<longleftrightarrow>
     (\<forall>f p e v. 0 < p \<longrightarrow>
        (look f p e = Attr v \<longrightarrow> length v < p) \<and> (look f p e = Link v \<longrightarrow> length v \<le> p) \<and>
        look f p e \<noteq> Bad)"

definition in_bounds :: "rpst \<Rightarrow> bool" where
  "in_bounds s \<longleftrightarrow> length (rp_rest s) + length (rp_hid s) \<le> PATH_MAX \<and>
     length (rp_hid s) < PATH_MAX \<and> length (rp_out s) < PATH_MAX"

lemma length_rp_pop: "length (rp_pop out) \<le> length out"
proof -
  have "length (dropWhile (\<lambda>c. c \<noteq> slash) (rev out)) \<le> length out"
    using length_dropWhile_le [of _ "rev out"] by simp
  then show ?thesis by (auto simp: rp_pop_def Let_def)
qed

lemma rp_rest_bounds:
  "length (rp_after s) \<le> length (rp_rest s)"
  "length (strip_slashes (rp_after s)) \<le> length (rp_rest s)"
  "length (strip_slashes (tl (rp_rest s))) \<le> length (rp_rest s)"
  using length_strip_slashes [of "rp_after s"] length_strip_slashes [of "tl (rp_rest s)"]
  by (simp_all add: length_rp_after)

lemma rp_room_pos:
  assumes "in_bounds s" and "\<not> starts_with (rp_rest s) slash"
  shows "0 < rp_room s"
proof (cases "rp_comp s = []")
  case True
  with assms(2) have "rp_rest s = []" by (cases "rp_rest s") (auto simp: rp_comp_def)
  with assms(1) show ?thesis by (simp add: rp_room_def rp_after_def rp_comp_def in_bounds_def)
next
  case False
  have "length (rp_comp s) + length (rp_after s) = length (rp_rest s)"
    by (metis length_append rp_comp_after)
  moreover have "0 < length (rp_comp s)" using False by simp
  moreover have "length (rp_rest s) + length (rp_hid s) \<le> PATH_MAX" using assms(1) by (simp add: in_bounds_def)
  ultimately show ?thesis unfolding rp_room_def by linarith
qed

lemma rp_step_bounds:
  assumes "in_bounds s" and "rp_step look pre s = Inl t"
    and fits: "\<And>f p e v. 0 < p \<Longrightarrow> look f p e = Attr v \<Longrightarrow> length v < p"
  shows "in_bounds t"
  using assms(2)
proof (cases rule: rp_step_cases)
  case root
  have "2 < PATH_MAX" by (simp add: PATH_MAX_def)
  with root assms(1) rp_root_simps(6) [of s] rp_rest_bounds(3) [of s] show ?thesis
    by (auto simp: in_bounds_def rp_root_simps(4,5))
next
  case dot
  with assms(1) rp_rest_bounds(2) [of s] show ?thesis by (auto simp: in_bounds_def)
next
  case dotdot
  with assms(1) rp_rest_bounds(2) [of s] show ?thesis
    by (auto simp: in_bounds_def rp_dotdot_def rp_toolong_def)
next
  case up
  with assms(1) rp_rest_bounds(2) [of s] length_rp_pop [of "rp_out s"] show ?thesis
    by (auto simp: in_bounds_def rp_skip_simps)
next
  case keep
  with assms(1) rp_rest_bounds(2) [of s] show ?thesis
    by (auto simp: in_bounds_def rp_skip_simps rp_toolong_def)
next
  case (attr v)
  have "length v < rp_room s" by (rule fits [OF rp_room_pos [OF assms(1) attr(1)] attr(3)])
  with rp_attr_length [of v s] attr(4) assms(1) show ?thesis by (auto simp: in_bounds_def rp_room_def)
next
  case (link v)
  have "length (rp_after s) + length (rp_hid s) \<le> PATH_MAX"
    using assms(1) rp_rest_bounds(1) [of s] by (simp add: in_bounds_def)
  then have "length (rp_rest t) + length (rp_hid t) \<le> PATH_MAX" by (rule rp_push_length [OF link(5)])
  moreover have "rp_hid t = rp_hid s \<or> rp_rest t \<noteq> []"
    using link(5) by (auto simp: rp_push_def Let_def split: if_splits)
  then have "length (rp_hid t) < PATH_MAX \<or> 0 < length (rp_rest t)" using assms(1) by (auto simp: in_bounds_def)
  ultimately have "length (rp_hid t) < PATH_MAX" "length (rp_rest t) + length (rp_hid t) \<le> PATH_MAX"
    by linarith+
  with rp_push_simps(1) [OF link(5)] assms(1) show ?thesis by (simp add: in_bounds_def)
qed

text \<open>An absolute link that does not fit with the root directory in front of the unread part.\<close>

definition crowded :: "(string \<Rightarrow> nat \<Rightarrow> errno \<Rightarrow> lookup) \<Rightarrow> string \<Rightarrow> bool" where
  "crowded look pre \<longleftrightarrow> (\<exists>f p e v. 0 < p \<and> look f p e = Link v \<and> starts_with v slash \<and>
     p < length (take PATH_MAX pre) + length v)"

lemma rp_step_Undef:
  assumes "lookup_fits look" and "in_bounds s" and u: "rp_step look pre s = Inr Undef"
  shows "crowded look pre"
proof -
  have "\<not> starts_with (rp_rest s) slash" using u by (auto simp: rp_step_def)
  with assms(2) have pos: "0 < rp_room s" by (rule rp_room_pos)
  with u obtain v where l: "look (rp_full s) (rp_room s) (rp_errno s) = Link v"
    and "rp_push pre v s = Inr Undef"
    using assms(1) by (auto simp: rp_step_def lookup_fits_def split: if_splits lookup.splits)
  then have "rp_room s < length (rp_link_text pre v)"
    by (auto simp: rp_push_def Let_def not_le split: if_splits)
  moreover have "length v \<le> rp_room s" using assms(1) l pos by (auto simp: lookup_fits_def)
  ultimately have "starts_with v slash" "rp_room s < length (take PATH_MAX pre) + length v"
    by (auto simp: rp_link_text_def split: if_splits)
  with l pos show ?thesis unfolding crowded_def by blast
qed

lemma not_crowded_Nil: "lookup_fits look \<Longrightarrow> \<not> crowded look []"
  by (auto simp: crowded_def lookup_fits_def not_less)

lemma in_bounds_init: "length filename < PATH_MAX \<Longrightarrow> in_bounds (rp_init filename e)"
  by (simp add: in_bounds_def rp_init_def)

text \<open>The cancellation of leading \<^verbatim>\<open>..\<close> never runs past the output.\<close>

lemma rp_cancel_le:
  "p + 3 * n \<le> Suc q \<Longrightarrow> snd (rp_cancel n cwd p q) \<le> max p q"
  by (induction n cwd p q rule: rp_cancel.induct) (auto simp: Let_def)

lemma length_dots_le: "0 < n \<Longrightarrow> 3 * n \<le> Suc (length (join_with slash (replicate n ''..'' @ cs)))"
proof (induction n)
  case (Suc n)
  then show ?case by (cases "replicate n ''..'' @ cs"; cases n) auto
qed simp

lemma shaped_cancel:
  assumes "shaped [] n cs out"
  shows "snd (rp_cancel n cwd 0 (length out)) \<le> length out"
proof (cases "n = 0")
  case True
  then show ?thesis by simp
next
  case False
  with assms length_dots_le [of n cs] have "3 * n \<le> Suc (length out)" by (simp add: shaped_def)
  then show ?thesis using rp_cancel_le [of 0 n "length out" cwd] by simp
qed

lemma rp_finish_no_Undef:
  assumes "shaped root (rp_nup s) cs (rp_out s)"
  shows "rp_finish getcwd s \<noteq> Undef"
proof (cases "starts_with (rp_out s) slash")
  case True
  then show ?thesis by (simp add: rp_finish_def)
next
  case False
  with assms shaped_starts [OF assms] have "shaped [] (rp_nup s) cs (rp_out s)" by simp
  from shaped_cancel [OF this] False show ?thesis
    by (auto simp: rp_finish_def Let_def case_prod_unfold split: sum.splits)
       (metis leD snd_conv)
qed

lemma rp_finish_length:
  assumes "rp_finish getcwd s = Ret r" and "in_bounds s"
  shows "length r < PATH_MAX"
  using assms by (auto simp: rp_finish_def in_bounds_def Let_def case_prod_unfold
      split: sum.splits if_splits)

text \<open>
  Outside of a chroot the walk stays within its buffers, and a path it returns fits the
  caller's \<^verbatim>\<open>PATH_MAX\<close> bytes.
\<close>

lemma rp_walk_safe:
  assumes fits: "lookup_fits look"
  shows "rp_walk look pre getcwd e filename = Undef \<Longrightarrow> crowded look pre"
    and "rp_walk look pre getcwd e filename = Ret r \<Longrightarrow> length r < PATH_MAX"
proof -
  let ?P = "\<lambda>s. in_bounds s \<and> (\<exists>root. shaped_by (\<lambda>_. True) root s)"
  have step: "?P u" if P: "?P t" and u: "rp_step look pre t = Inl u" for t u
  proof -
    have "in_bounds u" using rp_step_bounds [of t look pre u] P u fits by (auto simp: lookup_fits_def)
    moreover obtain root where "shaped_by (\<lambda>_. True) root t" using P by blast
    ultimately show ?thesis using rp_step_shaped [OF _ u, of "\<lambda>_. True"] by blast
  qed
  have init: "?P (rp_init filename e)" if "length filename < PATH_MAX"
  proof -
    have "shaped_by (\<lambda>_. True) [] (rp_init filename e)"
      unfolding shaped_by_def by (intro exI [of _ "[]"]) (simp add: shaped_def rp_init_def)
    with in_bounds_init [OF that] show ?thesis by blast
  qed
  have res: "\<exists>t. ?P t \<and> rp_step look pre t = Inr x"
    if len: "length filename < PATH_MAX"
      and it: "iterate (rp_step look pre) (rp_init filename e) = Some x" for x
    by (rule iterate_rule [where P = ?P, OF step init [OF len] it]) blast+
  show "crowded look pre" if "rp_walk look pre getcwd e filename = Undef"
  proof -
    from that
    obtain x where len: "length filename < PATH_MAX"
      and it: "iterate (rp_step look pre) (rp_init filename e) = Some x"
      and x: "x = Undef \<or> (\<exists>s. x = Ret s \<and> rp_finish getcwd s = Undef)"
      by (auto simp: rp_walk_def Let_def run_simps strnlen_def split: if_splits option.splits)
    obtain t where P: "?P t" and t: "rp_step look pre t = Inr x" using res [OF len it] by blast
    from x show ?thesis
    proof
      assume "x = Undef"
      with t P rp_step_Undef [OF fits] show ?thesis by blast
    next
      assume "\<exists>s. x = Ret s \<and> rp_finish getcwd s = Undef"
      then obtain s where s: "x = Ret s" "rp_finish getcwd s = Undef" by blast
      with t rp_step_Inr have "t = s" by blast
      with P s rp_finish_no_Undef show ?thesis by (auto simp: shaped_by_def)
    qed
  qed
  assume "rp_walk look pre getcwd e filename = Ret r"
  then obtain s where it: "iterate (rp_step look pre) (rp_init filename e) = Some (Ret s)"
    and fin: "rp_finish getcwd s = Ret r" and len: "length filename < PATH_MAX" by (rule rp_walk_Ret)
  obtain t where "?P t" and "rp_step look pre t = Inr (Ret s)" using res [OF len it] by blast
  with rp_step_Inr have "in_bounds s" by blast
  with fin show "length r < PATH_MAX" by (rule rp_finish_length)
qed


section \<open>Termination\<close>

lemma rest_empty: "\<not> starts_with (rp_rest s) slash \<Longrightarrow> rp_comp s = [] \<Longrightarrow> rp_rest s = []"
  by (cases "rp_rest s") (auto simp: rp_comp_def)

lemma comp_rest: "rp_rest s = [] \<Longrightarrow> rp_comp s = []"
  by (simp add: rp_comp_def)

lemma comp_shortens:
  assumes "rp_comp s \<noteq> []"
  shows "length (strip_slashes (rp_after s)) < length (rp_rest s)"
proof -
  have "0 < length (rp_comp s)" using assms by simp
  moreover have "length (rp_comp s) + length (rp_after s) = length (rp_rest s)"
    by (metis length_append rp_comp_after)
  ultimately show ?thesis using length_strip_slashes [of "rp_after s"] by linarith
qed

text \<open>Links left to follow first, then the unread text and the pending directory check.\<close>

definition rp_order :: "(rpst \<times> rpst) set" where
  "rp_order = measures [\<lambda>s. SYMLOOP_MAX - rp_cnt s,
     \<lambda>s. 2 * length (rp_rest s) + (if rp_check s then 1 else 0)]"

lemma wf_rp_order: "wf rp_order"
  by (simp add: rp_order_def)

lemma rp_orderI:
  "rp_cnt t = rp_cnt s \<Longrightarrow> length (rp_rest t) < length (rp_rest s) \<Longrightarrow> (t, s) \<in> rp_order"
  by (auto simp: rp_order_def)

lemma rp_step_decreases:
  assumes st: "rp_step look pre s = Inl t" and cnt: "rp_cnt s < SYMLOOP_MAX"
    and no_attr: "\<And>f p e v. look f p e \<noteq> Attr v"
  shows "rp_cnt t < SYMLOOP_MAX \<and> (t, s) \<in> rp_order"
  using st
proof (cases rule: rp_step_cases)
  case root
  then have "length (strip_slashes (tl (rp_rest s))) < length (rp_rest s)"
    using length_strip_slashes [of "tl (rp_rest s)"] by (cases "rp_rest s") auto
  with root cnt show ?thesis by (auto simp: rp_root_simps intro!: rp_orderI)
next
  case dot
  with comp_shortens [of s] cnt show ?thesis by (auto intro!: rp_orderI)
next
  case dotdot
  with comp_shortens [of s] cnt show ?thesis by (auto simp: rp_dotdot_def intro!: rp_orderI)
next
  case up
  with comp_shortens [of s] cnt show ?thesis by (auto simp: rp_skip_simps intro!: rp_orderI)
next
  case keep
  show ?thesis
  proof (cases "rp_comp s = []")
    case True
    with keep have "rp_rest s = []" "rp_check s" "rp_after s = []"
      using rest_empty by (auto simp: rp_after_def)
    with keep True cnt show ?thesis by (simp add: rp_order_def rp_skip_simps strip_slashes_def)
  next
    case False
    with comp_shortens [of s] keep cnt show ?thesis by (auto simp: rp_skip_simps intro!: rp_orderI)
  qed
next
  case (attr v)
  with no_attr show ?thesis by blast
next
  case (link v)
  with cnt rp_push_simps [OF link(5)] show ?thesis by (auto simp: rp_order_def)
qed

lemma rp_walk_terminates:
  assumes "\<And>f p e v. look f p e \<noteq> Attr v"
  shows "rp_walk look pre getcwd e filename \<noteq> Diverge"
proof -
  have "\<exists>x. iterate (rp_step look pre) (rp_init filename e) = Some x"
    by (rule iterate_Some [where P = "\<lambda>s. rp_cnt s < SYMLOOP_MAX", OF _ wf_rp_order])
      (use rp_step_decreases assms in \<open>auto simp: rp_init_def SYMLOOP_MAX_def\<close>)
  then obtain x where it: "iterate (rp_step look pre) (rp_init filename e) = Some x" by blast
  have "x \<noteq> Diverge"
  proof
    assume "x = Diverge"
    then have "\<exists>t. rp_step look pre t = Inr Diverge"
      using iterate_rule [where P = "\<lambda>_. True", OF _ _ it] by auto
    then show False by (auto simp: rp_step_def rp_push_def Let_def split: if_splits lookup.splits)
  qed
  with it show ?thesis
    by (auto simp: rp_walk_def Let_def run_simps rp_finish_def case_prod_unfold split: sum.splits if_splits)
qed

text \<open>An attribute that names its own path is followed for ever: attributes are not counted.\<close>

lemma rp_walk_diverges:
  assumes c: "good c" "length c + 2 < PATH_MAX" and nul: "NUL \<notin> set c"
    and attr: "\<And>e. look (slash # c) PATH_MAX e = Attr (slash # c)"
  shows "rp_walk look pre getcwd e (slash # c) = Diverge"
proof -
  let ?P = "\<lambda>s. rp_hid s = [] \<and> (rp_rest s = slash # c \<or> rp_rest s = c \<and> rp_out s = [slash])"
  have tw: "takeWhile (\<lambda>x. x \<noteq> slash) c = c" using c by (auto simp: good_def takeWhile_eq_all_conv)
  have ns: "\<not> starts_with c slash" "c \<noteq> []" using c by (cases c; auto simp: good_def)+
  have sc: "strip_slashes c = c" using ns by (cases c) (auto simp: strip_slashes_def)
  have step: "\<exists>u. rp_step look pre t = Inl u \<and> ?P u" if "?P t" for t
  proof (cases "rp_rest t = slash # c")
    case True
    with that show ?thesis using ns sc by (auto simp: rp_step_def rp_root_simps(4,5)) (simp add: rp_root_def)
  next
    case False
    with that have t: "rp_rest t = c" "rp_out t = [slash]" "rp_hid t = []" by auto
    have comp: "rp_comp t = c" using t tw by (simp add: rp_comp_def)
    then have "rp_after t = []" "rp_full t = slash # c" "rp_room t = PATH_MAX"
      using t by (auto simp: rp_after_def rp_full_def rp_sep_def rp_room_def)
    note comp this
    then show ?thesis
      using t ns c attr nul by (auto simp: rp_step_def good_def rp_toolong_def rp_sep_def rp_attr_def NUL_def slash_def)
  qed
  have "iterate (rp_step look pre) (rp_init (slash # c) e) = None"
  proof (rule iterate_None [where P = ?P, OF step])
    show "?P (rp_init (slash # c) e)" by (simp add: rp_init_def)
  qed
  with c show ?thesis by (simp add: rp_walk_def Let_def strnlen_def)
qed

section \<open>Agreement with lexical normalisation\<close>

text \<open>The reference: a fold over the components with a stack of names.\<close>

fun norm_comps :: "string list \<Rightarrow> string list \<Rightarrow> string list" where
  "norm_comps st [] = st"
| "norm_comps st (c # cs) =
     (if c = [] \<or> c = ''.'' then norm_comps st cs
      else if c = ''..'' then norm_comps (butlast st) cs
      else norm_comps (st @ [c]) cs)"

definition lexical :: "string \<Rightarrow> string" where
  "lexical f =
     (if starts_with (tl f) slash \<and> \<not> starts_with (tl (tl f)) slash then [slash, slash] else [slash])
     @ join_with slash (norm_comps [] (split_at slash f))"

lemma norm_strip: "norm_comps st (split_at slash (strip_slashes x)) = norm_comps st (split_at slash x)"
  by (induction x) (auto simp: strip_slashes_def)

lemma norm_comp_step:
  "norm_comps st (split_at slash (rp_rest s)) =
     norm_comps (norm_comps st [rp_comp s]) (split_at slash (strip_slashes (rp_after s)))"
proof (cases "rp_after s")
  case Nil
  then have "rp_rest s = rp_comp s" using rp_comp_after [of s] by simp
  then have "split_at slash (rp_rest s) = [rp_comp s]" by (simp add: split_at_whole)
  with Nil show ?thesis by (simp add: strip_slashes_def)
next
  case (Cons a x)
  then have "a = slash" using rp_after_starts [of s] by simp
  with Cons have "rp_rest s = rp_comp s @ slash # x" using rp_comp_after [of s] by simp
  then have "split_at slash (rp_rest s) = rp_comp s # split_at slash x"
    using split_at_append_sep [OF slash_notin_comp, of s x] by simp
  moreover have "strip_slashes (rp_after s) = strip_slashes x"
    using Cons \<open>a = slash\<close> by (simp add: strip_slashes_def)
  ultimately show ?thesis by (simp add: norm_strip)
qed

definition budget :: "rpst \<Rightarrow> nat" where
  "budget s = length (rp_out s) + length (rp_rest s) + length (rp_hid s) +
     (if rp_sep s \<and> (rp_rest s \<noteq> [] \<or> rp_check s) then 1 else 0)"

definition never_link :: "(string \<Rightarrow> nat \<Rightarrow> errno \<Rightarrow> lookup) \<Rightarrow> bool" where
  "never_link look \<longleftrightarrow> (\<forall>f p e. \<exists>e'. look f p e = NotLink e')"

text \<open>One step of a walk without links, with the room it uses.\<close>

lemma after_shorter:
  "rp_after s \<noteq> [] \<Longrightarrow> length (strip_slashes (rp_after s)) < length (rp_after s)"
proof -
  assume "rp_after s \<noteq> []"
  then obtain x where "rp_after s = slash # x" using rp_after_starts [of s] by (auto simp: starts_with_iff)
  then show ?thesis using length_strip_slashes [of x] by (simp add: strip_slashes_def)
qed

lemma length_comp_after: "length (rp_rest s) = length (rp_comp s) + length (rp_after s)"
  by (metis length_append rp_comp_after)

lemma length_rp_full: "length (rp_full s) = length (rp_out s) + length (rp_comp s) + (if rp_sep s then 1 else 0)"
  by (simp add: rp_full_def)

lemma lexical_step:
  assumes nl: "never_link look" and sh: "shaped root 0 cs (rp_out s)" and n: "rp_nup s = 0"
    and r: "root \<noteq> []" and ns: "\<not> starts_with (rp_rest s) slash" and b: "budget s < PATH_MAX"
    and go: "rp_comp s \<noteq> [] \<or> rp_check s"
  obtains t where "rp_step look pre s = Inl t" "shaped root 0 (norm_comps cs [rp_comp s]) (rp_out t)"
    "rp_nup t = 0" "rp_rest t = strip_slashes (rp_after s)" "budget t \<le> budget s"
    "2 * length (rp_rest t) + (if rp_check t then 1 else 0) <
     2 * length (rp_rest s) + (if rp_check s then (1::nat) else 0)"
proof -
  have out: "rp_out s \<noteq> []" using sh r by (auto simp: shaped_def)
  have "rp_rest s \<noteq> [] \<or> rp_check s" using go comp_rest by auto
  then have "length (rp_full s) < PATH_MAX" "length (rp_rest s) + length (rp_hid s) < PATH_MAX"
    using b length_comp_after [of s] by (auto simp: budget_def length_rp_full)
  then have tl: "\<not> rp_toolong s" by (simp add: rp_toolong_def)
  have sa: "length (strip_slashes (rp_after s)) \<le> length (rp_after s)" by (rule length_strip_slashes)
  obtain e0 where e0: "look (rp_full s) (rp_room s) (rp_errno s) = NotLink e0"
    using nl unfolding never_link_def by blast
  show thesis
  proof (cases "rp_comp s = ''.''")
    case True
    let ?t = "rp_continue (s\<lparr>rp_rest := rp_after s\<rparr>)"
    show thesis
    proof (rule that [of ?t])
      show "rp_step look pre s = Inl ?t" using ns True by (simp add: rp_step_def)
      show "budget ?t \<le> budget s"
        using sa length_comp_after [of s] True by (auto simp: budget_def rp_sep_def)
    qed (use True sh n sa length_comp_after [of s] in auto)
  next
    case nodot: False
    show thesis
    proof (cases "rp_comp s = ''..''")
      case True
      have "rp_step look pre s = Inl (rp_skip (if rp_check s then e0 else rp_errno s) s)"
        using ns True tl out n e0 by (simp add: rp_step_def)
      then obtain e where "rp_step look pre s = Inl (rp_skip e s)" by blast
      moreover have "shaped root 0 (butlast cs) (rp_out (rp_skip e s))"
      proof (cases cs rule: rev_cases)
        case Nil
        with sh True r show ?thesis by (auto simp: rp_skip_simps shaped_def rp_pop_root)
      next
        case (snoc cs' c)
        with sh rp_pop_shaped [of root 0 cs' c "rp_out s"] True show ?thesis
          by (auto simp: rp_skip_simps shaped_def)
      qed
      moreover have "budget (rp_skip e s) \<le> budget s"
        using sa length_comp_after [of s] True length_rp_pop [of "rp_out s"]
        by (auto simp: budget_def rp_skip_simps)
      ultimately show thesis
        using that [of "rp_skip e s"] True n sa length_comp_after [of s] by (auto simp: rp_skip_simps)
    next
      case False
      have "rp_step look pre s = Inl (rp_skip e0 s)"
        using ns False nodot tl go e0 by (auto simp: rp_step_def)
      then obtain e where st: "rp_step look pre s = Inl (rp_skip e s)" by blast
      have out': "shaped root 0 (norm_comps cs [rp_comp s]) (rp_out (rp_skip e s))"
        using rp_full_shaped [OF sh] sh False nodot by (auto simp: rp_skip_simps shaped_def good_def)
      have bud: "budget (rp_skip e s) \<le> budget s"
        using sa after_shorter [of s] length_comp_after [of s] length_rp_full [of s] False go
        by (cases "rp_comp s = []"; cases "rp_after s = []")
           (auto simp: budget_def rp_skip_simps strip_slashes_def rest_empty [OF ns])
      have "2 * length (rp_rest (rp_skip e s)) + (if rp_check (rp_skip e s) then 1 else 0) <
          2 * length (rp_rest s) + (if rp_check s then (1::nat) else 0)"
        using comp_shortens [of s] go rest_empty [OF ns] False
        by (cases "rp_comp s = []") (auto simp: rp_skip_simps rp_after_def strip_slashes_def)
      then show thesis
        using that [OF st out' _ _ bud] n by (simp add: rp_skip_simps)
    qed
  qed
qed

lemma lexical_loop:
  assumes "never_link look" and "shaped root 0 cs (rp_out s)" and "rp_nup s = 0"
    and "root \<noteq> []" and "\<not> starts_with (rp_rest s) slash" and "budget s < PATH_MAX"
  shows "\<exists>t. iterate (rp_step look pre) s = Some (Ret t) \<and>
    rp_out t = root @ join_with slash (norm_comps cs (split_at slash (rp_rest s)))"
  using assms(2-)
proof (induction "2 * length (rp_rest s) + (if rp_check s then (1::nat) else 0)" arbitrary: s cs
    rule: less_induct)
  case less
  show ?case
  proof (cases "rp_comp s = [] \<and> \<not> rp_check s")
    case True
    with less.prems have "rp_rest s = []" using rest_empty by blast
    moreover have "rp_step look pre s = Inr (Ret s)" using True less.prems by (simp add: rp_step_def)
    ultimately show ?thesis using less.prems
      by (simp add: iterate_unfold [of _ s] shaped_def)
  next
    case False
    then obtain t where st: "rp_step look pre s = Inl t"
      and sh: "shaped root 0 (norm_comps cs [rp_comp s]) (rp_out t)" and n: "rp_nup t = 0"
      and rest: "rp_rest t = strip_slashes (rp_after s)" and b: "budget t \<le> budget s"
      and dec: "2 * length (rp_rest t) + (if rp_check t then 1 else 0) <
        2 * length (rp_rest s) + (if rp_check s then (1::nat) else 0)"
      using lexical_step [OF assms(1) less.prems] by blast
    have "\<exists>u. iterate (rp_step look pre) t = Some (Ret u) \<and>
        rp_out u = root @ join_with slash (norm_comps (norm_comps cs [rp_comp s]) (split_at slash (rp_rest t)))"
      using less.hyps [OF dec sh n] less.prems b rest by simp
    with st show ?thesis
      unfolding norm_comp_step rest by (simp add: iterate_unfold [of _ s])
  qed
qed

lemma rp_walk_lexical:
  assumes nl: "never_link look" and abs: "starts_with filename slash"
    and len: "length filename < PATH_MAX"
  shows "rp_walk look pre getcwd e filename = Ret (lexical filename)"
proof -
  let ?s = "rp_init filename e" and ?t = "rp_root (rp_init filename e)"
  obtain x where f: "filename = slash # x" using abs by (auto simp: starts_with_iff)
  have st: "rp_step look pre ?s = Inl ?t" using abs by (simp add: rp_step_def rp_init_def)
  let ?root = "rp_out ?t"
  have root: "?root = (if starts_with x slash \<and> \<not> starts_with (tl x) slash then [slash, slash] else [slash])"
    by (simp add: rp_root_def rp_init_def f)
  have sh: "shaped ?root 0 [] (rp_out ?t)" using rp_root_simps(6) [of ?s] by (auto simp: shaped_def)
  have rest: "rp_rest ?t = strip_slashes x" by (simp add: rp_root_simps rp_init_def f)
  have "budget ?t \<le> length filename"
  proof -
    have "\<not> rp_sep ?t" using rp_root_simps(6) [of ?s] by (auto simp: rp_sep_def)
    moreover have "length ?root + length (strip_slashes x) \<le> length filename"
      using length_strip_slashes [of x] length_strip_slashes [of "tl x"]
      unfolding root by (cases x) (auto simp: f strip_slashes_def)
    moreover have "rp_hid ?t = []" by (simp add: rp_root_simps rp_init_def)
    ultimately show ?thesis by (simp add: budget_def rest)
  qed
  with len have b: "budget ?t < PATH_MAX" by simp
  have r: "?root \<noteq> []" using root by simp
  obtain u where it: "iterate (rp_step look pre) ?t = Some (Ret u)"
    and out: "rp_out u = ?root @ join_with slash (norm_comps [] (split_at slash (rp_rest ?t)))"
    using lexical_loop [OF nl sh rp_root_simps(1) r _ b] rest by auto
  have "starts_with (rp_out u) slash" using out r root by (auto split: if_splits)
  moreover have "rp_out u = lexical filename"
    using out unfolding root rest norm_strip unfolding lexical_def f by simp
  moreover have "iterate (rp_step look pre) ?s = Some (Ret u)"
    using it st by (simp add: iterate_unfold [of _ ?s])
  moreover have "filename \<noteq> []" using f by simp
  ultimately show ?thesis
    using len by (simp add: rp_walk_def Let_def strnlen_def rp_finish_def)
qed


section \<open>The two walkers\<close>

lemma canonicalI:
  "root \<in> {[slash], [slash, slash]} \<Longrightarrow> list_all good cs \<Longrightarrow> r = root @ join_with slash cs \<Longrightarrow>
    canonical r"
  by (auto simp: canonical_def)

lemma rpat_lookup_NotLink:
  assumes "rpat_lookup xget rlink True esave f p e = NotLink e'"
  shows "\<exists>n. isl (rlink f n) \<or> rlink f n = Inr []"
proof -
  have "rpat_readlink rlink esave f p c = NotLink e' \<Longrightarrow> isl (rlink f p) \<or> rlink f p = Inr []" for c
    by (auto simp: rpat_readlink_def split: sum.splits if_splits)
  with assms show ?thesis by (auto simp: rpat_lookup_def split: sum.splits if_splits)
qed

text \<open>
  System calls that fill at most the (non-empty) buffer they are given. An empty buffer asks
  \<^verbatim>\<open>getxattr\<close> for the size of the value, and is never passed by a walk in bounds.
\<close>

definition fits :: "(string \<Rightarrow> nat \<Rightarrow> errno + string) \<Rightarrow> bool" where
  "fits call \<longleftrightarrow> (\<forall>f n v. 0 < n \<longrightarrow> call f n = Inr v \<longrightarrow> length v \<le> n)"

lemma fitsD: "fits call \<Longrightarrow> 0 < n \<Longrightarrow> call f n = Inr v \<Longrightarrow> length v \<le> n"
  by (simp add: fits_def)

lemma rpat_readlink_cases:
  "rpat_readlink rlink esave f p e \<noteq> Bad" "rpat_readlink rlink esave f p e \<noteq> Attr v"
  "rpat_readlink rlink esave f p e = Link v \<Longrightarrow> rlink f p = Inr v"
  by (auto simp: rpat_readlink_def split: sum.splits if_splits)

lemma rpat_lookup_cases:
  "rpat_lookup xget rlink follow esave f p e = Bad \<Longrightarrow> \<exists>v. xget f p = Inr v \<and> p < length v - 1"
  "rpat_lookup xget rlink follow esave f p e = Attr v \<Longrightarrow>
     \<exists>w. xget f p = Inr w \<and> w \<noteq> [] \<and> length w \<noteq> p \<and> length w - 1 \<le> p \<and> v = butlast w"
  "rpat_lookup xget rlink follow esave f p e = Link v \<Longrightarrow> rlink f p = Inr v"
  using rpat_readlink_cases by (auto simp: rpat_lookup_def split: sum.splits if_splits)

lemma rpat_lookup_fits:
  assumes "fits xget" and "fits rlink"
  shows "lookup_fits (rpat_lookup xget rlink follow esave)"
  unfolding lookup_fits_def
proof (intro allI impI conjI notI)
  fix f p e v
  assume p: "(0::nat) < p"
  show False if bad: "rpat_lookup xget rlink follow esave f p e = Bad"
    using rpat_lookup_cases(1) [OF bad] fitsD [OF assms(1) p, of f] by fastforce
  show "length v < p" if att: "rpat_lookup xget rlink follow esave f p e = Attr v"
  proof -
    obtain w where w: "xget f p = Inr w" "w \<noteq> []" "length w \<noteq> p" "v = butlast w"
      using rpat_lookup_cases(2) [OF att] by blast
    with fitsD [OF assms(1) p w(1)] show ?thesis by simp
  qed
  show "length v \<le> p" if "rpat_lookup xget rlink follow esave f p e = Link v"
    using rpat_lookup_cases(3) [OF that] fitsD [OF assms(2) p] by blast
qed

lemma next_lookup_fits: "fits rlink \<Longrightarrow> lookup_fits (next_lookup rlink esave)"
  by (auto simp: lookup_fits_def next_lookup_def fits_def split: sum.splits if_splits)

lemma next_lookup_no_Attr: "next_lookup rlink esave f p e \<noteq> Attr v"
  by (auto simp: next_lookup_def split: sum.splits)

section \<open>Properties\<close>

text \<open>
  C2: What \<^verbatim>\<open>__realpathat\<close> returns for an absolute name is canonical, whatever the
  file system answers: one slash (or the special two) and proper names joined by single slashes,
  no \<^verbatim>\<open>.\<close>, no \<^verbatim>\<open>..\<close>, no empty component and no final slash.
\<close>

theorem realpathat_canonical:
  assumes "starts_with filename slash"
    and "realpathat xget rlink getcwd rootdir follow esave filename = Ret r"
  shows "canonical r"
  using rp_walk_absolute [OF assms(2) [unfolded realpathat_def] assms(1)] canonicalI by metis

theorem realpathat_canonical_witness:
  "canonical ''/b/c''"
  by (rule realpathat_canonical [of "''/a/./c''" "\<lambda>f n. Inl ENODATA"
        "\<lambda>f n. if f = ''/a'' then Inr ''x/../b/'' else Inl EINVAL" "\<lambda>n. Inl ENOENT" "''/''" True E_OK]; code_simp)

text \<open>
  A path that \<^verbatim>\<open>__realpathat\<close> returns while following links is free of links: each of
  its leading paths was given to \<^verbatim>\<open>readlink\<close>, which failed or found nothing in it.
\<close>

theorem realpathat_no_links:
  assumes "starts_with filename slash"
    and "realpathat xget rlink getcwd rootdir True esave filename = Ret r"
  shows "\<exists>root cs. r = root @ join_with slash cs \<and> list_all good cs \<and>
    (\<forall>i < length cs. \<exists>n. isl (rlink (root @ join_with slash (take (Suc i) cs)) n) \<or>
       rlink (root @ join_with slash (take (Suc i) cs)) n = Inr [])"
proof -
  obtain root cs where "r = root @ join_with slash cs" and "list_all good cs"
    and seen: "\<And>i. i < length cs \<Longrightarrow>
      looked_up (rpat_lookup xget rlink True esave) (root @ join_with slash (take (Suc i) cs))"
    using rp_walk_absolute [OF assms(2) [unfolded realpathat_def] assms(1)] by metis
  moreover have "\<exists>n. isl (rlink f n) \<or> rlink f n = Inr []"
    if "looked_up (rpat_lookup xget rlink True esave) f" for f
    using that rpat_lookup_NotLink unfolding looked_up_def by blast
  ultimately show ?thesis by blast
qed

theorem realpathat_no_links_witness:
  "\<exists>root cs. ''/b/c'' = root @ join_with slash cs \<and> list_all good cs \<and>
    (\<forall>i < length cs. \<exists>n::nat.
       isl (if root @ join_with slash (take (Suc i) cs) = ''/a'' then Inr ''b'' else Inl EINVAL) \<or>
       (if root @ join_with slash (take (Suc i) cs) = ''/a'' then Inr ''b'' else Inl EINVAL) = Inr [])"
  by (rule realpathat_no_links [of "''/a/c''" "\<lambda>f n. Inl ENODATA"
        "\<lambda>f n. if f = ''/a'' then Inr ''b'' else Inl EINVAL" "\<lambda>n. Inl ENOENT" "''/''" E_OK]; code_simp)

text \<open>
  C21: Outside of a chroot \<^verbatim>\<open>__realpathat\<close> never leaves its \<^verbatim>\<open>stack\<close> and
  \<^verbatim>\<open>output\<close> buffers, and a path it returns fits the \<^verbatim>\<open>PATH_MAX\<close> bytes of the
  caller, as long as the system calls fill no more than the buffer they are given.
\<close>

theorem realpathat_in_bounds:
  assumes "fits xget" and "fits rlink"
  shows "case realpathat xget rlink getcwd ''/'' follow esave filename of
    Ret r \<Rightarrow> length r < PATH_MAX | Err e \<Rightarrow> True | Undef \<Rightarrow> False | Diverge \<Rightarrow> True"
  using rp_walk_safe [OF rpat_lookup_fits [OF assms], where pre = "[]"]
    not_crowded_Nil [OF rpat_lookup_fits [OF assms]] by (auto simp: realpathat_def split: run.splits)

theorem realpathat_in_bounds_witness:
  "case realpathat (\<lambda>f n. Inl ENODATA) (\<lambda>f n. Inr (take n ''/b'')) (\<lambda>n. Inl ENOENT) ''/'' True E_OK ''/a'' of
    Ret r \<Rightarrow> length r < PATH_MAX | Err e \<Rightarrow> True | Undef \<Rightarrow> False | Diverge \<Rightarrow> True"
  by (rule realpathat_in_bounds) (simp_all add: fits_def)

text \<open>
  C22: \<^verbatim>\<open>__realpathat\<close> ends when no file has a \<^verbatim>\<open>path-resolution\<close> attribute: every link
  counts towards \<^verbatim>\<open>SYMLOOP_MAX\<close> and every other iteration consumes input, links in cycles
  included. It ends with a path below \<^verbatim>\<open>PATH_MAX\<close> bytes or with an error, unless an absolute
  link that \<^verbatim>\<open>readlink\<close> returns in a chroot is longer, together with the root directory, than the
  buffer that \<^verbatim>\<open>readlink\<close> was given: only then may it write outside of its buffers.
\<close>

theorem realpathat_terminates:
  assumes "\<And>f n v. xget f n = Inr v \<Longrightarrow> v = []" and "fits rlink"
  shows "case realpathat xget rlink getcwd rootdir follow esave filename of
    Ret r \<Rightarrow> length r < PATH_MAX
  | Err e \<Rightarrow> True
  | Undef \<Rightarrow> rootdir \<noteq> ''/'' \<and> (\<exists>f n v. rlink f n = Inr v \<and> length v \<le> n \<and> starts_with v slash \<and>
      n < length (take PATH_MAX rootdir) + length v)
  | Diverge \<Rightarrow> False"
proof -
  let ?look = "rpat_lookup xget rlink follow esave"
  let ?pre = "if rootdir = ''/'' then [] else rootdir"
  let ?w = "rp_walk ?look ?pre getcwd esave filename"
  have no_attr: "?look f p e \<noteq> Attr v" for f p e v
    using assms(1) rpat_readlink_cases(2) by (auto simp: rpat_lookup_def split: sum.splits)
  have "fits xget" unfolding fits_def using assms(1) by fastforce
  then have fit: "lookup_fits ?look" using assms(2) by (rule rpat_lookup_fits)
  have "?w \<noteq> Diverge" using no_attr by (rule rp_walk_terminates)
  moreover have "length r < PATH_MAX" if "?w = Ret r" for r by (rule rp_walk_safe(2) [OF fit that])
  moreover have "rootdir \<noteq> ''/'' \<and> (\<exists>f n v. rlink f n = Inr v \<and> length v \<le> n \<and> starts_with v slash \<and>
      n < length (take PATH_MAX rootdir) + length v)" if "?w = Undef"
  proof -
    have c: "crowded ?look ?pre" by (rule rp_walk_safe(1) [OF fit that])
    then have "rootdir \<noteq> ''/''" using not_crowded_Nil [OF fit] by (auto split: if_splits)
    moreover obtain f n e v where n: "0 < n" and l: "?look f n e = Link v" and v: "starts_with v slash"
        "n < length (take PATH_MAX ?pre) + length v"
      using c unfolding crowded_def by blast
    moreover have r: "rlink f n = Inr v" by (rule rpat_lookup_cases(3) [OF l])
    moreover note fitsD [OF assms(2) n r]
    ultimately show ?thesis by auto
  qed
  ultimately show ?thesis unfolding realpathat_def by (cases ?w) (simp_all del: length_take)
qed

theorem realpathat_terminates_witness:
  "case realpathat (\<lambda>f n. Inl ENODATA) (\<lambda>f n. Inr (take n ''a'')) (\<lambda>n. Inl ENOENT) ''/r'' True E_OK ''/a'' of
    Ret r \<Rightarrow> length r < PATH_MAX
  | Err e \<Rightarrow> True
  | Undef \<Rightarrow> ''/r'' \<noteq> ''/'' \<and> (\<exists>(f :: string) n v. (Inr (take n ''a'') :: errno + string) = Inr v \<and> length v \<le> n \<and>
      starts_with v slash \<and> n < length (take PATH_MAX ''/r'') + length v)
  | Diverge \<Rightarrow> False"
  using realpathat_terminates [where xget = "\<lambda>f n. Inl ENODATA" and rlink = "\<lambda>f n. Inr (take n ''a'')"
      and getcwd = "\<lambda>n. Inl ENOENT" and rootdir = "''/r''" and follow = True and esave = E_OK
      and filename = "''/a''"] by (simp add: fits_def)

text \<open>
  C38: The loop is not bounded by \<^verbatim>\<open>SYMLOOP_MAX\<close> for the attribute
  \<^verbatim>\<open>iamroot.path-resolution\<close>: a file whose attribute is its own absolute path makes
  \<^verbatim>\<open>__realpathat\<close> run for ever, since the restart does not count.
\<close>

theorem realpathat_attribute_loop:
  assumes "good c" and "length c + 2 < PATH_MAX" and "NUL \<notin> set c"
    and "xget (slash # c) PATH_MAX = Inr (slash # c @ [CHR 0x00])"
  shows "realpathat xget rlink getcwd rootdir True esave (slash # c) = Diverge"
  unfolding realpathat_def
  by (rule rp_walk_diverges [OF assms(1-3)])
    (use assms(2,4) in \<open>simp add: rpat_lookup_def butlast_append\<close>)

theorem realpathat_attribute_loop_witness:
  "realpathat (\<lambda>f n. if f = ''/a'' then Inr (''/a'' @ [CHR 0x00]) else Inl ENODATA) (\<lambda>f n. Inl EINVAL)
     (\<lambda>n. Inl ENOENT) ''/'' True E_OK (slash # ''a'') = Diverge"
  by (rule realpathat_attribute_loop) (simp_all add: good_def slash_def PATH_MAX_def NUL_def)

text \<open>
  C39: In a chroot the text of an absolute link is moved behind the root directory inside of
  \<^verbatim>\<open>stack\<close> without a check: when the two together are longer than the buffer, the walk
  writes outside of it.
\<close>

theorem realpathat_chroot_overflow:
  assumes "good c" and "length c + 2 < PATH_MAX"
    and "isl (xget (slash # c) PATH_MAX)"
    and "rlink (slash # c) PATH_MAX = Inr v" and "starts_with v slash" and "length v < PATH_MAX"
    and "rootdir \<noteq> ''/''" and "PATH_MAX < length (take PATH_MAX rootdir) + length v"
  shows "realpathat xget rlink getcwd rootdir True esave (slash # c) = Undef"
proof -
  let ?look = "rpat_lookup xget rlink True esave"
  let ?s = "rp_init (slash # c) esave" and ?t = "rp_root (rp_init (slash # c) esave)"
  have ns: "\<not> starts_with c slash" "c \<noteq> []" using assms(1) by (cases c; auto simp: good_def)+
  have sc: "strip_slashes c = c" using ns by (cases c) (auto simp: strip_slashes_def)
  have tw: "takeWhile (\<lambda>x. x \<noteq> slash) c = c"
    using assms(1) by (auto simp: good_def takeWhile_eq_all_conv)
  have t: "rp_rest ?t = c" "rp_out ?t = [slash]" "rp_cnt ?t = 0" "rp_hid ?t = []"
    using ns sc by (simp_all add: rp_root_simps rp_init_def) (simp_all add: rp_root_def)
  have c: "rp_comp ?t = c" using t tw by (simp add: rp_comp_def)
  then have a: "rp_after ?t = []" "rp_full ?t = slash # c" "rp_room ?t = PATH_MAX" "\<not> rp_sep ?t"
    using t by (auto simp: rp_after_def rp_full_def rp_sep_def rp_room_def)
  have "v \<noteq> []" using assms(5) by auto
  then have look: "?look (slash # c) PATH_MAX e = Link v" for e
    using assms(3,4,6) by (auto simp: rpat_lookup_def rpat_readlink_def isl_def)
  have push: "rp_push rootdir v ?t = Inr Undef"
    using assms(5,8) by (simp add: rp_push_def rp_link_text_def a Let_def)
  have "rp_step ?look rootdir ?s = Inl ?t" by (simp add: rp_step_def rp_init_def)
  moreover have "rp_step ?look rootdir ?t = Inr Undef"
    unfolding rp_step_def c a t look
    using assms(1,2) ns push by (simp add: good_def rp_toolong_def a SYMLOOP_MAX_def)
  ultimately have "iterate (rp_step ?look rootdir) ?s = Some Undef"
    by (simp add: iterate_unfold [of _ ?s] iterate_unfold [of _ ?t])
  with assms(2,7) show ?thesis
    by (simp add: realpathat_def rp_walk_def Let_def strnlen_def)
qed

theorem realpathat_chroot_overflow_witness:
  "realpathat (\<lambda>f n. Inl ENODATA) (\<lambda>f n. if f = ''/a'' then Inr (slash # replicate 4000 CHR ''x'') else Inl EINVAL)
     (\<lambda>n. Inl ENOENT) (slash # replicate 100 CHR ''r'') True E_OK (slash # ''a'') = Undef"
  by (rule realpathat_chroot_overflow [where v = "slash # replicate 4000 CHR ''x''"])
    (simp_all add: good_def slash_def PATH_MAX_def)

text \<open>
  Without links the walk is lexical normalisation: when links are not followed, or nothing
  on the way is a link or carries an attribute, \<^verbatim>\<open>__realpathat\<close> of an absolute name drops
  the empty and \<^verbatim>\<open>.\<close> components and lets each \<^verbatim>\<open>..\<close> remove the name before it, as
  the fold \<open>norm_comps\<close> does; there is no error for a name below \<^verbatim>\<open>PATH_MAX\<close>.
\<close>

theorem realpathat_lexical:
  assumes "starts_with filename slash" and "length filename < PATH_MAX"
    and "follow \<longrightarrow> (\<forall>f n. isl (xget f n) \<and> rlink f n \<in> {Inl EINVAL, Inl ENOENT})"
  shows "realpathat xget rlink getcwd rootdir follow esave filename = Ret (lexical filename)"
proof -
  have "\<exists>e'. rpat_lookup xget rlink follow esave f p e = NotLink e'" for f p e
  proof (cases follow)
    case True
    then obtain x where x: "xget f p = Inl x" and r: "rlink f p = Inl EINVAL \<or> rlink f p = Inl ENOENT"
      using assms(3) by (fastforce simp: isl_def)
    from r show ?thesis by (rule disjE) (simp_all add: True x rpat_lookup_def rpat_readlink_def)
  qed (simp add: rpat_lookup_def)
  then have "never_link (rpat_lookup xget rlink follow esave)" by (simp add: never_link_def)
  from rp_walk_lexical [OF this assms(1,2)] show ?thesis by (simp add: realpathat_def)
qed

theorem realpathat_lexical_witness:
  "realpathat (\<lambda>f n. Inl ENODATA) (\<lambda>f n. Inl EINVAL) (\<lambda>n. Inl ENOENT) ''/r'' True E_OK ''/a//./b/../c/''
     = Ret (lexical ''/a//./b/../c/'') \<and> lexical ''/a//./b/../c/'' = ''/a/c''"
proof
  show "realpathat (\<lambda>f n. Inl ENODATA) (\<lambda>f n. Inl EINVAL) (\<lambda>n. Inl ENOENT) ''/r'' True E_OK ''/a//./b/../c/''
     = Ret (lexical ''/a//./b/../c/'')"
    by (rule realpathat_lexical) (simp_all add: slash_def PATH_MAX_def)
qed code_simp

text \<open>
  \<^verbatim>\<open>next_realpath\<close> always returns, stays within its buffers whatever the links are, and
  only returns paths below \<^verbatim>\<open>PATH_MAX\<close> bytes.
\<close>

theorem next_realpath_total:
  assumes "fits rlink"
  shows "case next_realpath rlink getcwd esave filename of
    Ret r \<Rightarrow> length r < PATH_MAX | Err e \<Rightarrow> True | Undef \<Rightarrow> False | Diverge \<Rightarrow> False"
  using rp_walk_safe [OF next_lookup_fits [OF assms], where pre = "[]"]
    not_crowded_Nil [OF next_lookup_fits [OF assms]] rp_walk_terminates next_lookup_no_Attr
  by (auto simp: next_realpath_def split: run.splits)

theorem next_realpath_total_witness:
  "case next_realpath (\<lambda>f n. Inr (take n ''a'')) (\<lambda>n. Inl ENOENT) E_OK ''/a'' of
    Ret r \<Rightarrow> length r < PATH_MAX | Err e \<Rightarrow> True | Undef \<Rightarrow> False | Diverge \<Rightarrow> False"
  by (rule next_realpath_total) (simp add: fits_def)

end
