(* ===== verification/Environ.thy ===== *)
theory Environ
  imports Prelude
begin

text \<open>
  The environment as the rest of the library sees it: what the functions of \<^verbatim>\<open>env.c\<close> do to
  the list of \<^verbatim>\<open>NAME=VALUE\<close> strings behind \<^verbatim>\<open>__environ\<close>, and the contract of an
  environment (a locale), which these functions meet. The pointers, the list of owned strings and
  the allocation failures of \<^verbatim>\<open>env.c\<close> are in the theory \<open>Env_Store\<close>, which refines this one.
\<close>

section \<open>Definitions\<close>

type_synonym env = "string list option"

definition eq_sign :: char where "eq_sign = CHR ''=''"

text \<open>The name in front of the first \<^verbatim>\<open>=\<close> (\<^verbatim>\<open>__strchrnul (s, '=') - s\<close> characters).\<close>

definition env_name :: "string \<Rightarrow> string" where
  "env_name s = takeWhile (\<lambda>c. c \<noteq> eq_sign) s"

definition valid_name :: "string \<Rightarrow> bool" where
  "valid_name n \<longleftrightarrow> n \<noteq> [] \<and> eq_sign \<notin> set n"

text \<open>\<^verbatim>\<open>!strncmp (name, *e, l) && l[*e] == '='\<close>.\<close>

definition env_match :: "string \<Rightarrow> string \<Rightarrow> bool" where
  "env_match name e \<longleftrightarrow>
     strneq name e (length name) \<and> length name < length e \<and> e ! length name = eq_sign"

fun env_find :: "string \<Rightarrow> string list \<Rightarrow> string option" where
  "env_find name [] = None"
| "env_find name (e # es) =
     (if env_match name e then Some (drop (Suc (length name)) e) else env_find name es)"

definition env_get :: "string \<Rightarrow> env \<Rightarrow> string option" where
  "env_get name env =
     (if valid_name name then (case env of None \<Rightarrow> None | Some es \<Rightarrow> env_find name es) else None)"

text \<open>Replace the first entry with the same name, or append.\<close>

fun env_replace :: "string \<Rightarrow> string \<Rightarrow> string list \<Rightarrow> string list" where
  "env_replace name s [] = [s]"
| "env_replace name s (e # es) = (if env_match name e then s # es else e # env_replace name s es)"

definition env_insert :: "string \<Rightarrow> string \<Rightarrow> env \<Rightarrow> env" where
  "env_insert name s env = Some (env_replace name s (case env of None \<Rightarrow> [] | Some es \<Rightarrow> es))"

definition env_set :: "string \<Rightarrow> string \<Rightarrow> bool \<Rightarrow> env \<Rightarrow> errno + env" where
  "env_set var val overwrite env =
     (if \<not> valid_name var then Inl EINVAL
      else if \<not> overwrite \<and> env_get var env \<noteq> None then Inr env
      else Inr (env_insert var (var @ eq_sign # val) env))"

definition env_unset :: "string \<Rightarrow> env \<Rightarrow> errno + env" where
  "env_unset name env =
     (if \<not> valid_name name then Inl EINVAL
      else Inr (map_option (filter (\<lambda>e. \<not> env_match name e)) env))"

definition env_put :: "string \<Rightarrow> env \<Rightarrow> errno + env" where
  "env_put s env =
     (if env_name s = [] \<or> env_name s = s then env_unset s env
      else Inr (env_insert (env_name s) s env))"

definition env_clear :: "env \<Rightarrow> env" where
  "env_clear env = None"

section \<open>The contract of an environment\<close>

text \<open>
  What a caller of \<^verbatim>\<open>getenv\<close>, \<^verbatim>\<open>setenv\<close> and \<^verbatim>\<open>unsetenv\<close> relies on: a finite map
  from names to texts. \<open>ok\<close> tells the valid names.
\<close>

locale environment =
  fixes ok :: "string \<Rightarrow> bool"
    and get :: "string \<Rightarrow> 'e \<Rightarrow> string option"
    and put :: "string \<Rightarrow> string \<Rightarrow> 'e \<Rightarrow> 'e"
    and del :: "string \<Rightarrow> 'e \<Rightarrow> 'e"
  assumes get_put: "ok n \<Longrightarrow> get m (put n v e) = (if m = n then Some v else get m e)"
    and get_del: "ok n \<Longrightarrow> get m (del n e) = (if m = n then None else get m e)"
begin

lemma get_put_same [simp]: "ok n \<Longrightarrow> get n (put n v e) = Some v"
  by (simp add: get_put)

lemma get_put_other [simp]: "ok n \<Longrightarrow> m \<noteq> n \<Longrightarrow> get m (put n v e) = get m e"
  by (simp add: get_put)

lemma get_del_same [simp]: "ok n \<Longrightarrow> get n (del n e) = None"
  by (simp add: get_del)

lemma get_del_other [simp]: "ok n \<Longrightarrow> m \<noteq> n \<Longrightarrow> get m (del n e) = get m e"
  by (simp add: get_del)

lemma put_put: "ok n \<Longrightarrow> get m (put n v (put n w e)) = get m (put n v e)"
  by (simp add: get_put)

lemma put_commute:
  "ok n \<Longrightarrow> ok m \<Longrightarrow> n \<noteq> m \<Longrightarrow> get k (put n v (put m w e)) = get k (put m w (put n v e))"
  by (simp add: get_put)

text \<open>A sequence of assignments: the last one to a name wins.\<close>

lemma get_fold_put:
  "list_all (\<lambda>(n, v). ok n) xs \<Longrightarrow>
    get m (fold (\<lambda>(n, v). put n v) xs e) = (case map_of (rev xs) m of None \<Rightarrow> get m e | Some v \<Rightarrow> Some v)"
  by (induction xs arbitrary: e) (auto simp: get_put map_add_def split: option.splits)

end

section \<open>The functions of the library meet the contract\<close>

lemma env_name_append [simp]: "valid_name n \<Longrightarrow> env_name (n @ eq_sign # v) = n"
  unfolding env_name_def valid_name_def by (subst takeWhile_append2) auto

lemma eq_sign_env_name [simp]: "eq_sign \<notin> set (env_name s)"
  by (auto simp: env_name_def dest: set_takeWhileD)

lemma env_match_iff: "env_match n e \<longleftrightarrow> (\<exists>v. e = n @ eq_sign # v)"
proof
  assume m: "env_match n e"
  then have "prefix n e" by (simp add: env_match_def strneq_prefix_left)
  then obtain t where "e = n @ t" by (auto simp: prefix_def)
  with m show "\<exists>v. e = n @ eq_sign # v" by (cases t) (auto simp: env_match_def)
qed (auto simp: env_match_def strneq_prefix_left)

lemma env_match_unique:
  "valid_name n \<Longrightarrow> valid_name m \<Longrightarrow> env_match n e \<Longrightarrow> env_match m e \<longleftrightarrow> m = n"
  unfolding env_match_iff using env_name_append by metis

lemma env_match_self [simp]: "env_match n (n @ eq_sign # v)"
  by (auto simp: env_match_iff)

lemma env_find_replace:
  assumes "valid_name n" and "valid_name m"
  shows "env_find m (env_replace n (n @ eq_sign # v) es) = (if m = n then Some v else env_find m es)"
proof (induction es)
  case Nil
  show ?case using env_match_unique [OF assms, of "n @ eq_sign # v"] by simp
next
  case (Cons e es)
  then show ?case
    using env_match_unique [OF assms, of e] env_match_unique [OF assms, of "n @ eq_sign # v"]
    by (cases "env_match n e") auto
qed

lemma env_find_filter:
  assumes "valid_name n" and "valid_name m"
  shows "env_find m (filter (\<lambda>e. \<not> env_match n e) es) = (if m = n then None else env_find m es)"
proof (induction es)
  case (Cons e es)
  then show ?case using env_match_unique [OF assms, of e] by (cases "env_match n e") auto
qed simp

text \<open>The two updates of a valid name, as total functions.\<close>

definition put_var :: "string \<Rightarrow> string \<Rightarrow> env \<Rightarrow> env" where
  "put_var n v env = env_insert n (n @ eq_sign # v) env"

definition del_var :: "string \<Rightarrow> env \<Rightarrow> env" where
  "del_var n env = map_option (filter (\<lambda>e. \<not> env_match n e)) env"

interpretation ev: environment valid_name env_get put_var del_var
  by unfold_locales
    (auto simp: env_get_def put_var_def del_var_def env_insert_def env_find_replace env_find_filter
      split: option.splits)

lemma env_set_overwrite: "valid_name n \<Longrightarrow> env_set n v True env = Inr (put_var n v env)"
  by (simp add: env_set_def put_var_def)

lemma env_unset_valid: "valid_name n \<Longrightarrow> env_unset n env = Inr (del_var n env)"
  by (simp add: env_unset_def del_var_def)

lemma env_put_assign: "valid_name n \<Longrightarrow> env_put (n @ eq_sign # v) env = Inr (put_var n v env)"
  by (auto simp: env_put_def put_var_def valid_name_def)

lemma env_match_mono: "env_match n e \<Longrightarrow> prefix n e"
  by (auto simp: env_match_iff)

lemma env_get_clear [simp]: "env_get n (env_clear env) = None"
  by (simp add: env_get_def env_clear_def)

end
