(* ===== verification/Env_Store_Facts.thy ===== *)
theory Env_Store_Facts
  imports Env_Store
begin

text \<open>
  The invariant of \<^verbatim>\<open>env.c\<close> (the strings the library owns are live, owned once and never
  shared between entries), and the simulation: from a state that satisfies it, no operation touches
  freed memory, and each does to the list of strings what \<open>Environ\<close> says, or fails for lack of
  memory and leaves it alone.
\<close>

section \<open>The owned strings\<close>

definition owned :: "nat list \<Rightarrow> nat set" where
  "owned xs = set xs - {0}"

definition owned_once :: "nat list \<Rightarrow> bool" where
  "owned_once xs \<longleftrightarrow> distinct (filter (\<lambda>x. x \<noteq> 0) xs)"

lemma owned_Nil [simp]: "owned [] = {}" and owned_zero [simp]: "0 \<notin> owned xs"
  by (simp_all add: owned_def)

lemma owned_Cons [simp]: "owned (x # xs) = (if x = 0 then owned xs else insert x (owned xs))"
  by (auto simp: owned_def)

lemma owned_append [simp]: "owned (xs @ ys) = owned xs \<union> owned ys"
  by (auto simp: owned_def)

lemma owned_once_Nil [simp]: "owned_once []"
  by (simp add: owned_once_def)

lemma owned_once_Cons [simp]:
  "owned_once (x # xs) \<longleftrightarrow> (x = 0 \<or> x \<notin> owned xs) \<and> owned_once xs"
  by (auto simp: owned_once_def owned_def)

lemma owned_once_snoc [simp]:
  "owned_once (xs @ [n]) \<longleftrightarrow> owned_once xs \<and> (n = 0 \<or> n \<notin> owned xs)"
  by (auto simp: owned_once_def owned_def)

lemma rm_slots_spec:
  assumes "rm_slots xs old new = (ys, n, found)" and "owned_once xs" and "new \<notin> owned xs"
  shows "owned_once ys \<and> (found \<longleftrightarrow> old \<in> set xs) \<and>
    owned ys \<subseteq> (owned xs - {old}) \<union> (if new = 0 then {} else {new}) \<and>
    (\<not> found \<longrightarrow> n = 0 \<or> n = new \<and> n \<notin> owned ys)"
  using assms
proof (induction xs old new arbitrary: ys n found rule: rm_slots.induct)
  case (1 old new)
  then show ?case by auto
next
  case (2 x xs old new)
  show ?case
  proof (cases "x = old")
    case True
    with 2 show ?thesis by (auto split: if_splits)
  next
    case False
    obtain zs m b where r0: "rm_slots xs old 0 = (zs, m, b)" by (cases "rm_slots xs old 0") auto
    obtain zs' m' b' where r1: "rm_slots xs old new = (zs', m', b')"
      by (cases "rm_slots xs old new") auto
    show ?thesis
    proof (cases "x = 0 \<and> new \<noteq> 0")
      case True
      with 2(1) [OF False True r0] 2(3-5) False r0 show ?thesis by auto
    next
      case F: False
      with 2(2) [OF False F r1] 2(3-5) False r1 show ?thesis by (auto split: if_splits)
    qed
  qed
qed

lemma rm_slots_removes:
  assumes "rm_slots xs old 0 = (ys, n, found)" and "owned_once xs"
  shows "owned ys = owned xs - {old} \<and> n = 0"
  using assms
proof (induction xs arbitrary: ys n found)
  case (Cons x xs)
  obtain zs m b where r: "rm_slots xs old 0 = (zs, m, b)" by (cases "rm_slots xs old 0") auto
  have IH: "owned zs = owned xs - {old}" "m = 0" using Cons.IH [OF r] Cons.prems(2) by simp_all
  show ?case
  proof (cases "x = old")
    case True
    with Cons.prems show ?thesis by (auto simp: owned_def)
  next
    case False
    then have "ys = x # zs" "n = m" using Cons.prems(1) r by simp_all
    with IH False show ?thesis by (simp add: insert_Diff_if)
  qed
qed simp

section \<open>The invariant\<close>

definition es_list :: "envst \<Rightarrow> nat list" where
  "es_list st = (if es_environ st = 0 then [] else case es_vec st (es_environ st) of None \<Rightarrow> [] | Some es \<Rightarrow> es)"

text \<open>An owned string stands in one entry at most.\<close>

definition unshared :: "nat list \<Rightarrow> nat list \<Rightarrow> bool" where
  "unshared own es \<longleftrightarrow> (\<forall>i < length es. \<forall>j < length es. i \<noteq> j \<longrightarrow> es ! i = es ! j \<longrightarrow> es ! i \<notin> owned own)"

definition es_ok :: "envst \<Rightarrow> bool" where
  "es_ok st \<longleftrightarrow>
     0 < es_next st \<and> es_str st 0 = None \<and> es_vec st 0 = None \<and>
     (\<forall>p. es_str st p \<noteq> None \<or> es_vec st p \<noteq> None \<longrightarrow> p < es_next st) \<and>
     (es_environ st \<noteq> 0 \<longrightarrow> es_vec st (es_environ st) \<noteq> None) \<and>
     (es_oldenv st \<noteq> 0 \<longrightarrow> es_vec st (es_oldenv st) \<noteq> None) \<and>
     (\<forall>p \<in> set (es_list st). es_str st p \<noteq> None) \<and>
     (\<forall>p \<in> owned (es_alloced st). es_str st p \<noteq> None) \<and>
     owned_once (es_alloced st) \<and> unshared (es_alloced st) (es_list st)"

text \<open>The list of strings behind \<^verbatim>\<open>__environ\<close>.\<close>

definition es_abs :: "envst \<Rightarrow> env" where
  "es_abs st = (if es_environ st = 0 then None else Some (map (\<lambda>p. the (es_str st p)) (es_list st)))"

lemma es_entries_ok: "es_ok st \<Longrightarrow> es_entries st = Ret (es_list st)"
  by (auto simp: es_ok_def es_entries_def es_list_def)

lemma es_scan_spec:
  assumes "\<forall>p \<in> set ps. h p \<noteq> None"
  shows "es_scan h P ps i =
    Ret (if \<exists>p \<in> set ps. P (the (h p))
         then Some (i + length (takeWhile (\<lambda>p. \<not> P (the (h p))) ps)) else None)"
  using assms by (induction ps arbitrary: i) auto

lemma env_rm_add_removes:
  assumes "owned_once (es_alloced st)" and "env_rm_add oom old 0 st = Ret st'"
  shows "owned (es_alloced st') = owned (es_alloced st) - {old}"
proof -
  obtain ys n found where r: "rm_slots (es_alloced st) old 0 = (ys, n, found)"
    by (cases "rm_slots (es_alloced st) old 0") auto
  have "es_alloced st' = ys"
  proof -
    have n: "n = 0" using rm_slots_removes [OF r assms(1)] by simp
    show ?thesis using assms(2) unfolding env_rm_add_def r prod.case n
      by (cases found; cases "old = 0"; cases "es_str st old") (auto simp: es_free_def)
  qed
  with rm_slots_removes [OF r assms(1)] show ?thesis by simp
qed

text \<open>What giving up a string does.\<close>

lemma env_rm_add_spec:
  assumes once: "owned_once (es_alloced st)" and live: "\<forall>p \<in> owned (es_alloced st). es_str st p \<noteq> None"
    and fresh: "new \<notin> owned (es_alloced st)" and pos: "0 < es_next st"
  obtains st' where "env_rm_add oom old new st = Ret st'"
    and "es_str st' = (if old \<in> owned (es_alloced st) then (es_str st)(old := None) else es_str st)"
    and "es_vec st' = es_vec st" and "es_environ st' = es_environ st" and "es_oldenv st' = es_oldenv st"
    and "es_next st \<le> es_next st'" and "owned_once (es_alloced st')"
    and "owned (es_alloced st') \<subseteq> owned (es_alloced st) - {old} \<union> (if new = 0 then {} else {new})"
proof -
  obtain ys n found where r: "rm_slots (es_alloced st) old new = (ys, n, found)"
    by (cases "rm_slots (es_alloced st) old new") auto
  note spec = rm_slots_spec [OF r once fresh]
  show thesis
  proof (cases found)
    case True
    with spec have "old = 0 \<or> old \<in> owned (es_alloced st)" by (auto simp: owned_def)
    with live have "old = 0 \<or> es_str st old \<noteq> None" by auto
    with True spec \<open>old = 0 \<or> old \<in> owned (es_alloced st)\<close> show thesis
      by (intro that [of "if old = 0 then st\<lparr>es_alloced := ys\<rparr>
            else st\<lparr>es_alloced := ys, es_str := (es_str st)(old := None)\<rparr>"])
        (auto simp: env_rm_add_def r es_free_def)
  next
    case False
    with spec have out: "old \<notin> owned (es_alloced st)" by (auto simp: owned_def)
    show thesis
    proof (cases "n = 0 \<or> oom (es_next st)")
      case True
      with False spec out show thesis
        by (intro that [of "if n = 0 then st\<lparr>es_alloced := ys\<rparr>
            else st\<lparr>es_alloced := ys, es_next := Suc (es_next st)\<rparr>"])
          (auto simp: env_rm_add_def r es_alloc_def)
    next
      case F: False
      with False spec out pos show thesis
        by (intro that [of "st\<lparr>es_alloced := ys @ [n], es_next := Suc (es_next st)\<rparr>"])
          (auto simp: env_rm_add_def r es_alloc_def)
    qed
  qed
qed

definition once_in :: "nat \<Rightarrow> nat list \<Rightarrow> bool" where
  "once_in p es \<longleftrightarrow> (\<forall>i < length es. \<forall>j < length es. es ! i = p \<longrightarrow> es ! j = p \<longrightarrow> i = j)"

lemma unshared_mono:
  assumes "unshared own es" and "owned own' \<subseteq> owned own \<union> (if p = 0 then {} else {p})"
    and "p = 0 \<or> once_in p es"
  shows "unshared own' es"
  using assms unfolding unshared_def once_in_def by (cases "p = 0") (simp_all, blast+)

lemma env_rm_add_ok:
  assumes ok: "es_ok st"
    and old: "old \<in> owned (es_alloced st) \<Longrightarrow> old \<notin> set (es_list st) \<and> old \<noteq> new"
    and new: "new = 0 \<or> new \<notin> owned (es_alloced st) \<and> es_str st new \<noteq> None \<and> once_in new (es_list st)"
  obtains st' where "env_rm_add oom old new st = Ret st'" and "es_ok st'" and "es_abs st' = es_abs st"
    and "es_list st' = es_list st" and "es_environ st' = es_environ st"
    and "\<And>p. p \<notin> owned (es_alloced st) \<or> p \<noteq> old \<Longrightarrow> es_str st' p = es_str st p"
    and "owned (es_alloced st') \<subseteq> owned (es_alloced st) - {old} \<union> (if new = 0 then {} else {new})"
proof -
  have fresh: "new \<notin> owned (es_alloced st)" using new by auto
  have a: "owned_once (es_alloced st)" "\<forall>p \<in> owned (es_alloced st). es_str st p \<noteq> None" "0 < es_next st"
    using ok by (auto simp: es_ok_def)
  obtain st' where st': "env_rm_add oom old new st = Ret st'"
    and str: "es_str st' = (if old \<in> owned (es_alloced st) then (es_str st)(old := None) else es_str st)"
    and same: "es_vec st' = es_vec st" "es_environ st' = es_environ st" "es_oldenv st' = es_oldenv st"
    and nxt: "es_next st \<le> es_next st'" and once: "owned_once (es_alloced st')"
    and own: "owned (es_alloced st') \<subseteq> owned (es_alloced st) - {old} \<union> (if new = 0 then {} else {new})"
    by (rule env_rm_add_spec [OF a(1,2) fresh a(3), of oom old])
  have l: "es_list st' = es_list st" by (simp add: es_list_def same)
  have entries: "es_str st' p = es_str st p" if "p \<in> set (es_list st)" for p
    using that old by (auto simp: str)
  then have abs: "es_abs st' = es_abs st" by (auto simp: es_abs_def l same)
  have ns: "unshared (es_alloced st') (es_list st')"
    using unshared_mono [of "es_alloced st" "es_list st" "es_alloced st'" new] ok new own l
    by (auto simp: es_ok_def)
  have live: "es_str st' p \<noteq> None" if "p \<in> owned (es_alloced st')" for p
    using that own old new a(2) by (auto simp: str split: if_splits)
  have "es_str st' p = None" if "es_str st p = None" for p
    using that by (simp add: str)
  then have bound: "\<forall>p. es_str st' p \<noteq> None \<or> es_vec st' p \<noteq> None \<longrightarrow> p < es_next st'"
    using ok nxt unfolding es_ok_def same by (meson less_le_trans)
  have "es_ok st'"
    using ok bound live ns once nxt entries \<open>\<And>p. es_str st p = None \<Longrightarrow> es_str st' p = None\<close>
    unfolding es_ok_def same l by auto
  with st' abs l same own show thesis by (intro that) (auto simp: str)
qed

section \<open>Assignments\<close>

lemma env_replace_list:
  "env_replace n x es =
    (if \<exists>e \<in> set es. env_match n e then es[length (takeWhile (\<lambda>e. \<not> env_match n e) es) := x] else es @ [x])"
  by (induction es) auto

lemma takeWhile_stops: "\<exists>x \<in> set xs. \<not> P x \<Longrightarrow> length (takeWhile P xs) < length xs"
  by (induction xs) auto

lemma takeWhile_map_length:
  "length (takeWhile P (map f xs)) = length (takeWhile (\<lambda>x. P (f x)) xs)"
  by (induction xs) auto

lemma strneq_assign: "strneq (n @ eq_sign # v) e (Suc (length n)) \<longleftrightarrow> env_match n e"
proof -
  have "strneq (n @ eq_sign # v) e (Suc (length n)) \<longleftrightarrow> take (Suc (length n)) e = n @ [eq_sign]"
    by (auto simp: strneq_def)
  also have "\<dots> \<longleftrightarrow> prefix (n @ [eq_sign]) e"
    using strneq_prefix [of "Suc (length n)" "n @ [eq_sign]" e] by (simp add: strneq_def)
  also have "\<dots> \<longleftrightarrow> env_match n e" by (auto simp: env_match_iff prefix_def)
  finally show ?thesis .
qed

lemma es_abs_list: "es_environ st \<noteq> 0 \<Longrightarrow> es_abs st = Some (map (\<lambda>p. the (es_str st p)) (es_list st))"
  by (simp add: es_abs_def)

text \<open>The entry that is replaced.\<close>

lemma es_replace_ok:
  assumes ok: "es_ok st" and s: "es_str st s \<noteq> None" "s \<notin> owned (es_alloced st)"
    and i: "i < length (es_list st)" and r: "r = 0 \<or> r = s \<and> s \<notin> set (es_list st)"
  obtains st' where "env_rm_add oom (es_list st ! i) r
      (st\<lparr>es_vec := (es_vec st)(es_environ st \<mapsto> (es_list st)[i := s])\<rparr>) = Ret st'"
    and "es_ok st'" and "es_abs st' = Some ((map (\<lambda>p. the (es_str st p)) (es_list st))[i := the (es_str st s)])"
proof -
  let ?es = "es_list st"
  let ?st = "st\<lparr>es_vec := (es_vec st)(es_environ st \<mapsto> ?es[i := s])\<rparr>"
  have env: "es_environ st \<noteq> 0" using i by (cases "es_environ st = 0") (simp_all add: es_list_def)
  have l: "es_list ?st = ?es[i := s]" using env by (simp add: es_list_def)
  have uns: "unshared (es_alloced st) ?es" using ok by (simp add: es_ok_def)
  have "unshared (es_alloced ?st) (?es[i := s])"
    unfolding unshared_def
  proof (intro allI impI)
    fix j k assume jk: "j < length (?es[i := s])" "k < length (?es[i := s])" "j \<noteq> k"
      and eq: "?es[i := s] ! j = ?es[i := s] ! k"
    then show "?es[i := s] ! j \<notin> owned (es_alloced ?st)"
      using uns s(2) by (cases "j = i \<or> k = i") (auto simp: unshared_def)
  qed
  moreover have "\<forall>p \<in> set (?es[i := s]). es_str st p \<noteq> None"
    using ok s(1) set_update_subset_insert [of ?es i s] by (auto simp: es_ok_def)
  moreover have "es_environ st < es_next st" using ok env by (auto simp: es_ok_def)
  ultimately have ok': "es_ok ?st" using ok env unfolding es_ok_def l by auto
  have old: "?es ! i \<notin> set (?es[i := s]) \<and> ?es ! i \<noteq> r" if own: "?es ! i \<in> owned (es_alloced ?st)"
  proof -
    have "?es ! i \<noteq> s" using own s(2) by auto
    moreover have "?es[i := s] ! j \<noteq> ?es ! i" if "j < length ?es" for j
      using uns own i that \<open>?es ! i \<noteq> s\<close> by (cases "j = i") (auto simp: unshared_def)
    moreover have "?es ! i \<noteq> 0" using own by (auto simp: owned_def)
    ultimately show ?thesis using r by (auto simp: in_set_conv_nth)
  qed
  have new: "r = 0 \<or> r \<notin> owned (es_alloced ?st) \<and> es_str ?st r \<noteq> None \<and> once_in r (es_list ?st)"
    using r s i unfolding l by (auto simp: once_in_def nth_list_update in_set_conv_nth split: if_splits)
  obtain st' where "env_rm_add oom (?es ! i) r ?st = Ret st'" "es_ok st'" "es_abs st' = es_abs ?st"
    by (rule env_rm_add_ok [OF ok' _ new, of "?es ! i" oom]) (use old in \<open>auto simp: l\<close>)
  moreover have "es_abs ?st = Some ((map (\<lambda>p. the (es_str st p)) ?es)[i := the (es_str st s)])"
    using env by (simp add: es_abs_def l map_update)
  ultimately show thesis by (intro that) auto
qed

lemma es_grow_ok:
  assumes ok: "es_ok st" and s: "es_str st s \<noteq> None" "s \<notin> owned (es_alloced st)"
    and r: "r = 0 \<or> r = s \<and> s \<notin> set (es_list st)"
  shows "\<exists>res st'. es_grow oom s r (es_list st) st = Ret (res, st') \<and> es_ok st' \<and>
    (res = None \<and> es_abs st' = Some (map (\<lambda>p. the (es_str st p)) (es_list st @ [s])) \<or>
     res = Some ENOMEM \<and> es_abs st' = es_abs st)"
proof (cases "oom (es_next st)")
  case True
  let ?st = "st\<lparr>es_next := Suc (es_next st)\<rparr>"
  let ?st' = "if r = 0 then ?st else ?st\<lparr>es_str := (es_str st)(s := None)\<rparr>"
  have "es_grow oom s r (es_list st) st = Ret (Some ENOMEM, ?st')"
    using True r s by (auto simp: es_grow_def es_alloc_def es_free_def)
  moreover have l: "es_list ?st' = es_list st" by (simp add: es_list_def)
  moreover have "es_abs ?st' = es_abs st" using r unfolding es_abs_def l by auto
  moreover have "es_ok ?st'"
    using ok r s(2) unfolding es_ok_def l by (auto intro: less_SucI)
  ultimately show ?thesis by blast
next
  case False
  let ?a = "es_next st" and ?old = "es_oldenv st"
  let ?vec = "((es_vec st)(?old := None))(?a \<mapsto> es_list st @ [s])"
  let ?st3 = "st\<lparr>es_next := Suc ?a, es_vec := ?vec, es_environ := ?a, es_oldenv := ?a\<rparr>"
  have a: "0 < ?a" "es_vec st ?a = None" "es_str st ?a = None" "es_vec st 0 = None"
    using ok by (auto simp: es_ok_def)
  then have old: "?old = 0 \<or> es_vec st ?old \<noteq> None" using ok by (auto simp: es_ok_def)
  have v0: "(es_vec st)(0 := None) = es_vec st" using a(4) by auto
  have st3: "es_grow oom s r (es_list st) st =
      (if r = 0 then Ret (None, ?st3) else run_bind (env_rm_add oom 0 r ?st3) (\<lambda>st4. Ret (None, st4)))"
    using False a old v0 by (auto simp: es_grow_def es_alloc_def es_free_vec_def)
  have l: "es_list ?st3 = es_list st @ [s]" using a by (simp add: es_list_def)
  have "unshared (es_alloced st) (es_list st @ [s])"
    using ok s(2) by (auto simp: es_ok_def unshared_def nth_append less_Suc_eq)
  then have ok3: "es_ok ?st3"
    using ok a s(1) unfolding es_ok_def l by (auto intro: less_SucI)
  have abs3: "es_abs ?st3 = Some (map (\<lambda>p. the (es_str st p)) (es_list st @ [s]))"
    using a(1) unfolding es_abs_def l by simp
  show ?thesis
  proof (cases "r = 0")
    case True
    with st3 ok3 abs3 show ?thesis by auto
  next
    case F: False
    have new: "r = 0 \<or> r \<notin> owned (es_alloced ?st3) \<and> es_str ?st3 r \<noteq> None \<and> once_in r (es_list ?st3)"
      using r s F unfolding l by (auto simp: once_in_def nth_append in_set_conv_nth)
    obtain st' where "env_rm_add oom 0 r ?st3 = Ret st'" "es_ok st'" "es_abs st' = es_abs ?st3"
      by (rule env_rm_add_ok [OF ok3 _ new, of 0 oom]) auto
    with st3 abs3 F show ?thesis by auto
  qed
qed

text \<open>The outcome of a call: what \<open>Environ\<close> says, or no memory and nothing changed.\<close>

definition es_does :: "(errno option \<times> envst) run \<Rightarrow> envst \<Rightarrow> errno + env \<Rightarrow> bool" where
  "es_does m st spec \<longleftrightarrow>
     (\<exists>res st'. m = Ret (res, st') \<and> es_ok st' \<and>
        (res = Some ENOMEM \<and> es_abs st' = es_abs st \<or>
         (case spec of Inl e \<Rightarrow> res = Some e \<and> es_abs st' = es_abs st
          | Inr env \<Rightarrow> res = None \<and> es_abs st' = env)))"

lemma es_putenv_at_does:
  assumes ok: "es_ok st" and x: "es_str st s = Some (n @ eq_sign # v)" and s: "s \<notin> owned (es_alloced st)"
    and r: "r = 0 \<or> r = s \<and> s \<notin> set (es_list st)"
  shows "es_does (es_putenv_at oom s (length n) r st) st (Inr (put_var n v (es_abs st)))"
proof -
  let ?es = "es_list st" and ?f = "\<lambda>p. the (es_str st p)"
  let ?m = "\<exists>p \<in> set ?es. env_match n (?f p)"
  let ?i = "length (takeWhile (\<lambda>p. \<not> env_match n (?f p)) ?es)"
  have live: "es_str st s \<noteq> None" using x by simp
  have "\<forall>p \<in> set ?es. es_str st p \<noteq> None" using ok by (simp add: es_ok_def)
  note scan = es_scan_spec [OF this, of "\<lambda>e. strneq (n @ eq_sign # v) e (Suc (length n))" 0]
  have put: "es_putenv_at oom s (length n) r st =
      (if ?m then run_bind (env_rm_add oom (?es ! ?i) r (st\<lparr>es_vec := (es_vec st)(es_environ st \<mapsto> ?es[?i := s])\<rparr>))
         (\<lambda>st'. Ret (None, st'))
       else es_grow oom s r ?es st)"
    using scan by (simp add: es_putenv_at_def x es_entries_ok [OF ok] strneq_assign)
  have ins: "put_var n v (es_abs st) =
      Some (if ?m then (map ?f ?es)[?i := n @ eq_sign # v] else map ?f (?es @ [s]))"
    using x by (auto simp: put_var_def env_insert_def env_replace_list es_abs_def es_list_def takeWhile_map_length)
  show ?thesis
  proof (cases ?m)
    case True
    then have i: "?i < length ?es"
  by (intro takeWhile_stops) auto
    obtain st' where "env_rm_add oom (?es ! ?i) r
          (st\<lparr>es_vec := (es_vec st)(es_environ st \<mapsto> ?es[?i := s])\<rparr>) = Ret st'" "es_ok st'"
        "es_abs st' = Some ((map ?f ?es)[?i := ?f s])"
      by (rule es_replace_ok [OF ok live s i r])
    with True put ins x show ?thesis by (auto simp: es_does_def)
  next
    case False
    with es_grow_ok [OF ok live s r, of oom] put ins show ?thesis by (auto simp: es_does_def)
  qed
qed

lemma valid_name_iff: "valid_name n \<longleftrightarrow> env_name n \<noteq> [] \<and> env_name n = n"
proof -
  have "env_name n = n \<longleftrightarrow> eq_sign \<notin> set n"
    unfolding env_name_def by (auto simp: takeWhile_eq_all_conv)
  moreover have "env_name n = n \<Longrightarrow> env_name n = [] \<longleftrightarrow> n = []" by simp
  ultimately show ?thesis by (auto simp: valid_name_def)
qed

lemma es_getenv_ok:
  assumes ok: "es_ok st"
  shows "es_getenv name st = Ret (env_get name (es_abs st))"
proof (cases "valid_name name")
  case True
  then have v: "env_name name \<noteq> []" "env_name name = name" by (auto simp: valid_name_iff)
  let ?f = "\<lambda>p. the (es_str st p)"
  have live: "\<forall>p \<in> set (es_list st). es_str st p \<noteq> None" using ok by (simp add: es_ok_def)
  have find: "env_find name (map ?f es) =
      map_option (\<lambda>i. drop (Suc (length name)) (?f (es ! i)))
        (if \<exists>p \<in> set es. env_match name (?f p)
         then Some (length (takeWhile (\<lambda>p. \<not> env_match name (?f p)) es)) else None)" for es
    by (induction es) auto
  have "env_get name (es_abs st) = env_find name (map ?f (es_list st))"
    using True by (simp add: env_get_def es_abs_def es_list_def)
  then show ?thesis
    using v es_scan_spec [OF live, of "env_match name" 0]
    by (simp add: es_getenv_def es_entries_ok [OF ok] find)
qed (auto simp: es_getenv_def env_get_def valid_name_iff)

lemma es_setenv_does:
  assumes ok: "es_ok st"
  shows "es_does (es_setenv oom var val ow st) st (env_set var val ow (es_abs st))"
proof (cases "valid_name var")
  case False
  with ok show ?thesis by (auto simp: es_does_def es_setenv_def env_set_def valid_name_iff)
next
  case valid: True
  then have v: "env_name var \<noteq> []" "env_name var = var" by (auto simp: valid_name_iff)
  show ?thesis
  proof (cases "\<not> ow \<and> env_get var (es_abs st) \<noteq> None")
    case True
    with ok valid v show ?thesis
      by (auto simp: es_does_def es_setenv_def env_set_def es_getenv_ok [OF ok])
  next
    case False
    then have "(if ow then Ret None else es_getenv var st) = Ret None"
      using es_getenv_ok [OF ok] by auto
    then have set: "es_setenv oom var val ow st =
        (case es_alloc oom st of (s, st1) \<Rightarrow>
          if s = 0 then Ret (Some ENOMEM, st1)
          else es_putenv_at oom s (length var) s
                 (st1\<lparr>es_str := (es_str st1)(s \<mapsto> var @ eq_sign # val)\<rparr>))"
      using v by (simp add: es_setenv_def)
    let ?s = "es_next st"
    let ?st1 = "st\<lparr>es_next := Suc ?s\<rparr>"
    let ?st2 = "?st1\<lparr>es_str := (es_str st)(?s \<mapsto> var @ eq_sign # val)\<rparr>"
    have fresh: "es_str st ?s = None" "es_vec st ?s = None" "0 < ?s" using ok by (auto simp: es_ok_def)
    have l: "es_list ?st1 = es_list st" "es_list ?st2 = es_list st" by (simp_all add: es_list_def)
    have out: "?s \<notin> set (es_list st)" "?s \<notin> owned (es_alloced st)"
      using ok fresh(1) by (auto simp: es_ok_def)
    have abs: "es_abs ?st1 = es_abs st" "es_abs ?st2 = es_abs st"
      using out(1) unfolding es_abs_def l by auto
    have ok1: "es_ok ?st1" and ok2: "es_ok ?st2"
      using ok fresh out unfolding es_ok_def l by (auto intro: less_SucI)
    have spec: "env_set var val ow (es_abs st) = Inr (put_var var val (es_abs st))"
      using valid False by (auto simp: env_set_def put_var_def)
    show ?thesis
    proof (cases "oom ?s")
      case True
      with set ok1 abs(1) show ?thesis by (simp add: es_does_def es_alloc_def)
    next
      case F: False
      have "es_does (es_putenv_at oom ?s (length var) ?s ?st2) ?st2 (Inr (put_var var val (es_abs ?st2)))"
        by (rule es_putenv_at_does [OF ok2]) (use out l in auto)
      with F set abs spec fresh(3) show ?thesis by (simp add: es_does_def es_alloc_def)
    qed
  qed
qed

section \<open>Removals\<close>

text \<open>
  From \<open>st\<close> to \<open>st'\<close> only owned strings of \<open>ps\<close> with a text in \<open>Q\<close> were freed.
\<close>

definition gave_up :: "(string \<Rightarrow> bool) \<Rightarrow> nat list \<Rightarrow> envst \<Rightarrow> envst \<Rightarrow> bool" where
  "gave_up Q ps st st' \<longleftrightarrow>
     es_vec st' = es_vec st \<and> es_environ st' = es_environ st \<and> es_oldenv st' = es_oldenv st \<and>
     es_next st \<le> es_next st' \<and> owned_once (es_alloced st') \<and>
     owned (es_alloced st') \<subseteq> owned (es_alloced st) \<and>
     (\<forall>p \<in> owned (es_alloced st'). es_str st' p \<noteq> None) \<and>
     (\<forall>p. es_str st' p = es_str st p \<or>
        es_str st' p = None \<and> p \<in> owned (es_alloced st) \<and> p \<in> set ps \<and> Q (the (es_str st p)))"

definition es_live :: "envst \<Rightarrow> bool" where
  "es_live st \<longleftrightarrow> 0 < es_next st \<and> owned_once (es_alloced st) \<and>
     (\<forall>p \<in> owned (es_alloced st). es_str st p \<noteq> None)"

lemma es_ok_live: "es_ok st \<Longrightarrow> es_live st"
  by (simp add: es_ok_def es_live_def)

lemma gave_up_refl: "es_live st \<Longrightarrow> gave_up Q ps st st"
  by (simp add: gave_up_def es_live_def)

lemma gave_up_str:
  "gave_up Q ps st st' \<Longrightarrow> es_str st' p = es_str st p \<or>
    es_str st' p = None \<and> p \<in> owned (es_alloced st) \<and> p \<in> set ps \<and> Q (the (es_str st p))"
  unfolding gave_up_def by blast

lemma gave_up_skip: "gave_up Q ps st st' \<Longrightarrow> gave_up Q (p # ps) st st'"
  unfolding gave_up_def by auto

lemma env_rm_add_gives_up:
  assumes "es_live st"
  obtains st1 where "env_rm_add oom p 0 st = Ret st1" and "es_live st1"
    and "es_str st1 = (if p \<in> owned (es_alloced st) then (es_str st)(p := None) else es_str st)"
    and "owned (es_alloced st1) = owned (es_alloced st) - {p}"
    and "\<And>Q ps st'. gave_up Q ps st1 st' \<Longrightarrow> Q (the (es_str st p)) \<Longrightarrow> gave_up Q (p # ps) st st'"
proof -
  have a: "owned_once (es_alloced st)" "\<forall>p \<in> owned (es_alloced st). es_str st p \<noteq> None"
    "0 \<notin> owned (es_alloced st)" "0 < es_next st"
    using assms by (auto simp: es_live_def)
  obtain st1 where rm: "env_rm_add oom p 0 st = Ret st1"
    and str: "es_str st1 = (if p \<in> owned (es_alloced st) then (es_str st)(p := None) else es_str st)"
    and same: "es_vec st1 = es_vec st" "es_environ st1 = es_environ st" "es_oldenv st1 = es_oldenv st"
    and nxt: "es_next st \<le> es_next st1" and once: "owned_once (es_alloced st1)"
    and "owned (es_alloced st1) \<subseteq> owned (es_alloced st) - {p} \<union> (if (0::nat) = 0 then {} else {0})"
    by (rule env_rm_add_spec [OF a, of oom p])
  have own: "owned (es_alloced st1) = owned (es_alloced st) - {p}"
    using env_rm_add_removes [OF a(1) rm] .
  have live: "es_live st1" using a nxt once own str by (auto simp: es_live_def)
  have "gave_up Q (p # ps) st st'" if g: "gave_up Q ps st1 st'" and q: "Q (the (es_str st p))" for Q ps st'
  proof -
    have "es_str st' q = es_str st q \<or>
        es_str st' q = None \<and> q \<in> owned (es_alloced st) \<and> q \<in> set (p # ps) \<and> Q (the (es_str st q))" for q
    proof (cases "q = p \<and> p \<in> owned (es_alloced st)")
      case True
      then have "es_str st1 p = None" using str by simp
      with gave_up_str [OF g, of p] have "es_str st' p = None" by auto
      with True q show ?thesis by auto
    next
      case False
      then have "es_str st1 q = es_str st q" by (auto simp: str)
      with gave_up_str [OF g, of q] own show ?thesis by auto
    qed
    with g same nxt own show ?thesis unfolding gave_up_def by auto
  qed
  with rm live str own show thesis by (intro that) auto
qed

lemma es_rm_all_spec:
  assumes "es_live st"
  shows "\<exists>st'. es_rm_all oom ps st = Ret st' \<and> gave_up (\<lambda>_. True) ps st st'"
  using assms
proof (induction ps arbitrary: st)
  case (Cons p ps)
  obtain st1 where rm: "env_rm_add oom p 0 st = Ret st1" and "es_live st1"
    and g: "\<And>st'. gave_up (\<lambda>_. True) ps st1 st' \<Longrightarrow> gave_up (\<lambda>_. True) (p # ps) st st'"
    using env_rm_add_gives_up [OF Cons.prems, of oom p] by metis
  with Cons.IH [of st1] show ?case by auto
qed (simp add: gave_up_refl)

lemma unshared_Cons:
  assumes "unshared own (p # ps)"
  shows "unshared own ps" and "p \<in> owned own \<Longrightarrow> p \<notin> set ps"
proof -
  show "unshared own ps" using assms unfolding unshared_def by fastforce
  show "p \<notin> set ps" if "p \<in> owned own"
  proof
    assume "p \<in> set ps"
    then obtain j where "j < length ps" "ps ! j = p" by (auto simp: in_set_conv_nth)
    with assms that show False
      unfolding unshared_def by (metis Suc_less_eq length_Cons nth_Cons_0 nth_Cons_Suc old.nat.distinct(1) zero_less_Suc)
  qed
qed

lemma unshared_subset: "unshared own es \<Longrightarrow> owned own' \<subseteq> owned own \<Longrightarrow> unshared own' es"
  unfolding unshared_def by blast

text \<open>The next entries are still there after one was given up.\<close>

lemma rest_live:
  assumes "unshared (es_alloced st) (p # ps)" and "\<forall>q \<in> set (p # ps). es_str st q \<noteq> None"
    and "es_str st1 = (if p \<in> owned (es_alloced st) then (es_str st)(p := None) else es_str st)"
    and "owned (es_alloced st1) = owned (es_alloced st) - {p}"
  shows "unshared (es_alloced st1) ps" and "\<forall>q \<in> set ps. es_str st1 q = es_str st q"
proof -
  note u = unshared_Cons [OF assms(1)]
  show "unshared (es_alloced st1) ps" by (rule unshared_subset [OF u(1)]) (use assms(4) in auto)
  show "\<forall>q \<in> set ps. es_str st1 q = es_str st q" using u(2) assms(3) by auto
qed

lemma es_filter_spec:
  assumes "es_live st" and "unshared (es_alloced st) ps" and "\<forall>q \<in> set ps. es_str st q \<noteq> None"
  shows "\<exists>st'. es_filter oom name ps st = Ret (filter (\<lambda>p. \<not> env_match name (the (es_str st p))) ps, st') \<and>
    gave_up (env_match name) ps st st'"
  using assms
proof (induction ps arbitrary: st)
  case (Cons p ps)
  obtain x where x: "es_str st p = Some x" using Cons.prems(3) by auto
  show ?case
  proof (cases "env_match name x")
    case True
    obtain st1 where rm: "env_rm_add oom p 0 st = Ret st1" "es_live st1"
      and str: "es_str st1 = (if p \<in> owned (es_alloced st) then (es_str st)(p := None) else es_str st)"
        "owned (es_alloced st1) = owned (es_alloced st) - {p}"
      and g: "\<And>st'. gave_up (env_match name) ps st1 st' \<Longrightarrow> gave_up (env_match name) (p # ps) st st'"
      using env_rm_add_gives_up [OF Cons.prems(1), of oom p] True x by (metis option.sel)
    note rest = rest_live [OF Cons.prems(2,3) str]
    have "filter (\<lambda>p. \<not> env_match name (the (es_str st1 p))) ps =
        filter (\<lambda>p. \<not> env_match name (the (es_str st p))) ps"
      using rest(2) by (intro filter_cong) auto
    with Cons.IH [OF rm(2) rest(1)] rest(2) Cons.prems(3) rm(1) g x True show ?thesis by auto
  next
    case False
    from Cons.IH [OF Cons.prems(1) unshared_Cons(1) [OF Cons.prems(2)]] Cons.prems(3)
    obtain st' where "es_filter oom name ps st = Ret (filter (\<lambda>p. \<not> env_match name (the (es_str st p))) ps, st')"
      and "gave_up (env_match name) ps st st'" by auto
    with gave_up_skip [of _ ps st st' p] x False show ?thesis by auto
  qed
qed (simp add: gave_up_refl)

lemma gave_up_ok:
  assumes ok: "es_ok st" and g: "gave_up Q ps st st'" and kept: "\<forall>p \<in> set (es_list st'). es_str st' p \<noteq> None"
    and uns: "unshared (es_alloced st') (es_list st')"
  shows "es_ok st'"
proof -
  have none: "es_str st' p = None" if "es_str st p = None" for p
    using gave_up_str [OF g, of p] that by auto
  have same: "es_vec st' = es_vec st" "es_environ st' = es_environ st" "es_oldenv st' = es_oldenv st"
    "es_next st \<le> es_next st'" using g by (auto simp: gave_up_def)
  have "\<forall>p. es_str st' p \<noteq> None \<or> es_vec st' p \<noteq> None \<longrightarrow> p < es_next st'"
    using ok none same(4) unfolding es_ok_def same(1) by (meson less_le_trans)
  then show ?thesis
    using ok g kept uns none same(4) unfolding es_ok_def gave_up_def same(1-3) by auto
qed

lemma es_unsetenv_does:
  assumes ok: "es_ok st"
  shows "es_does (es_unsetenv oom name st) st (env_unset name (es_abs st))"
proof (cases "valid_name name \<and> es_environ st \<noteq> 0")
  case False
  with ok show ?thesis
    by (auto simp: es_does_def es_unsetenv_def env_unset_def valid_name_iff es_abs_def)
next
  case True
  then have v: "env_name name \<noteq> []" "env_name name = name" and env: "es_environ st \<noteq> 0"
    by (auto simp: valid_name_iff)
  let ?qs = "filter (\<lambda>p. \<not> env_match name (the (es_str st p))) (es_list st)"
  have uns: "unshared (es_alloced st) (es_list st)" and live: "\<forall>p \<in> set (es_list st). es_str st p \<noteq> None"
    using ok by (auto simp: es_ok_def)
  obtain st' where f: "es_filter oom name (es_list st) st = Ret (?qs, st')"
    and g: "gave_up (env_match name) (es_list st) st st'"
    using es_filter_spec [OF es_ok_live [OF ok] uns live] by blast
  let ?st = "st'\<lparr>es_vec := (es_vec st')(es_environ st' \<mapsto> ?qs)\<rparr>"
  have same: "es_environ st' = es_environ st" "es_vec st' = es_vec st" using g by (auto simp: gave_up_def)
  have l: "es_list ?st = ?qs" using env by (simp add: es_list_def same)
  have kept: "es_str st' p = es_str st p" if "p \<in> set ?qs" for p
    using gave_up_str [OF g, of p] that by auto
  have "unshared (es_alloced st) ?qs"
  proof -
    have "unshared own (filter P es)" if "unshared own es" for own P es
      using that
    proof (induction es)
      case (Cons p es)
      note u = unshared_Cons [OF Cons.prems]
      have "unshared own (p # qs)" if "unshared own qs" "set qs \<subseteq> set es" for qs
        using that u(2) unfolding unshared_def
        by (auto simp: nth_Cons split: nat.splits) (metis nth_mem subsetD)+
      with Cons.IH [OF u(1)] show ?case by auto
    qed simp
    with uns show ?thesis by blast
  qed
  then have u': "unshared (es_alloced ?st) (es_list ?st)"
    unfolding l by (rule unshared_subset) (use g in \<open>simp add: gave_up_def\<close>)
  have ok0: "es_ok (st\<lparr>es_vec := (es_vec st)(es_environ st \<mapsto> ?qs)\<rparr>)"
  proof -
    have "es_list (st\<lparr>es_vec := (es_vec st)(es_environ st \<mapsto> ?qs)\<rparr>) = ?qs" using env by (simp add: es_list_def)
    with ok env live \<open>unshared (es_alloced st) ?qs\<close> show ?thesis unfolding es_ok_def by auto
  qed
  have g0: "gave_up (env_match name) (es_list st) (st\<lparr>es_vec := (es_vec st)(es_environ st \<mapsto> ?qs)\<rparr>) ?st"
    using g same unfolding gave_up_def by simp
  have "es_ok ?st"
    by (rule gave_up_ok [OF ok0 g0 _ u']) (use kept live in \<open>auto simp: l\<close>)
  moreover have "map (\<lambda>p. the (es_str st' p)) ?qs = map (\<lambda>p. the (es_str st p)) ?qs"
    using kept by auto
  then have "es_abs ?st = map_option (filter (\<lambda>e. \<not> env_match name e)) (es_abs st)"
    using env unfolding es_abs_def l by (simp add: same filter_map o_def)
  moreover have "es_unsetenv oom name st = Ret (None, ?st)"
    using v env f by (simp add: es_unsetenv_def es_entries_ok [OF ok])
  ultimately show ?thesis using True by (auto simp: es_does_def env_unset_def)
qed

lemma es_clearenv_does:
  assumes ok: "es_ok st"
  shows "es_does (es_clearenv oom st) st (Inr (env_clear (es_abs st)))"
proof -
  let ?st = "st\<lparr>es_environ := 0\<rparr>"
  have ok0: "es_ok ?st" using ok by (auto simp: es_ok_def es_list_def unshared_def)
  obtain st' where r: "es_rm_all oom (es_list st) ?st = Ret st'" and g: "gave_up (\<lambda>_. True) (es_list st) ?st st'"
    using es_rm_all_spec [OF es_ok_live [OF ok0]] by blast
  have env: "es_environ st' = 0" using g by (simp add: gave_up_def)
  then have l: "es_list st' = []" by (simp add: es_list_def)
  have "es_ok st'" by (rule gave_up_ok [OF ok0 g]) (simp_all add: l unshared_def)
  then show ?thesis
    using r env by (auto simp: es_does_def es_clearenv_def es_entries_ok [OF ok] env_clear_def es_abs_def)
qed

lemma es_putenv_does:
  assumes ok: "es_ok st" and s: "es_str st s = Some x" "s \<notin> owned (es_alloced st)"
  shows "es_does (es_putenv oom s st) st (env_put x (es_abs st))"
proof (cases "env_name x = [] \<or> env_name x = x")
  case True
  with es_unsetenv_does [OF ok, of oom x] s show ?thesis by (auto simp: es_putenv_def env_put_def)
next
  case False
  have "env_name x @ dropWhile (\<lambda>c. c \<noteq> eq_sign) x = x" by (simp add: env_name_def)
  moreover have "dropWhile (\<lambda>c. c \<noteq> eq_sign) x \<noteq> []"
    using False calculation by (metis append_Nil2)
  ultimately obtain v where xv: "x = env_name x @ eq_sign # v"
    by (metis (mono_tags, lifting) hd_dropWhile list.collapse)
  have val: "valid_name (env_name x)" using False by (simp add: valid_name_def)
  have "es_does (es_putenv_at oom s (length (env_name x)) 0 st) st (Inr (put_var (env_name x) v (es_abs st)))"
    by (rule es_putenv_at_does [OF ok]) (use s xv in auto)
  moreover have "env_put x (es_abs st) = Inr (put_var (env_name x) v (es_abs st))"
    using env_put_assign [OF val, of v] xv by simp
  ultimately show ?thesis using False s(1) by (simp add: es_putenv_def)
qed

section \<open>Calls\<close>

datatype env_call = CGet string | CSet string string bool | CUnset string | CPut nat | CClear

text \<open>One call on the heap and on the list of strings; the result of \<^verbatim>\<open>getenv\<close> is dropped.\<close>

fun es_call :: "(nat \<Rightarrow> bool) \<Rightarrow> env_call \<Rightarrow> envst \<Rightarrow> (errno option \<times> envst) run" where
  "es_call oom (CGet n) st = run_bind (es_getenv n st) (\<lambda>_. Ret (None, st))"
| "es_call oom (CSet n v ow) st = es_setenv oom n v ow st"
| "es_call oom (CUnset n) st = es_unsetenv oom n st"
| "es_call oom (CPut s) st = es_putenv oom s st"
| "es_call oom CClear st = es_clearenv oom st"

fun env_says :: "env_call \<Rightarrow> envst \<Rightarrow> errno + env" where
  "env_says (CGet n) st = Inr (es_abs st)"
| "env_says (CSet n v ow) st = env_set n v ow (es_abs st)"
| "env_says (CUnset n) st = env_unset n (es_abs st)"
| "env_says (CPut s) st = env_put (the (es_str st s)) (es_abs st)"
| "env_says CClear st = Inr (env_clear (es_abs st))"

text \<open>\<^verbatim>\<open>putenv\<close> takes a string of the caller: it is live, and not one of the library's.\<close>

fun call_ok :: "env_call \<Rightarrow> envst \<Rightarrow> bool" where
  "call_ok (CPut s) st \<longleftrightarrow> es_str st s \<noteq> None \<and> s \<notin> owned (es_alloced st)"
| "call_ok c st \<longleftrightarrow> True"

lemma es_call_does:
  assumes ok: "es_ok st" and c: "call_ok c st"
  shows "es_does (es_call oom c st) st (env_says c st)"
proof (cases c)
  case (CGet n)
  with ok show ?thesis by (auto simp: es_does_def es_getenv_ok)
next
  case (CPut s)
  with c obtain x where "es_str st s = Some x" "s \<notin> owned (es_alloced st)" by auto
  with CPut es_putenv_does [OF ok this, of oom] show ?thesis by simp
qed (use es_setenv_does [OF ok] es_unsetenv_does [OF ok] es_clearenv_does [OF ok] in auto)

text \<open>The strings a caller puts stay the caller's.\<close>

lemma put_var_other: "valid_name n \<Longrightarrow> m \<noteq> n \<Longrightarrow> env_get m (put_var n v e) = env_get m e"
  by (rule ev.get_put_other)

definition assigns :: "nat \<Rightarrow> string \<Rightarrow> envst \<Rightarrow> bool" where
  "assigns s n st \<longleftrightarrow> (\<exists>v. es_str st s = Some (n @ eq_sign # v)) \<and> valid_name n"

lemma assigns_name: "assigns s n st \<Longrightarrow> env_name (the (es_str st s)) = n"
  by (auto simp: assigns_def)

lemma es_scan_dead:
  assumes "i < length ps" and "h (ps ! i) = None"
    and "\<forall>j < i. h (ps ! j) = None \<or> \<not> P (the (h (ps ! j)))"
  shows "es_scan h P ps k = Undef"
  using assms
proof (induction ps arbitrary: i k)
  case (Cons p ps)
  show ?case
  proof (cases i)
    case 0
    with Cons.prems show ?thesis by simp
  next
    case (Suc m)
    have "h p = None \<or> \<not> P (the (h p))" using Cons.prems(3) Suc by fastforce
    moreover have "es_scan h P ps (Suc k) = Undef"
    proof (rule Cons.IH)
      show "\<forall>j < m. h (ps ! j) = None \<or> \<not> P (the (h (ps ! j)))"
        using Cons.prems(3) Suc by (metis Suc_mono nth_Cons_Suc)
    qed (use Cons.prems Suc in auto)
    ultimately show ?thesis by (auto split: option.splits)
  qed
qed simp

definition foreign :: "string \<Rightarrow> bool" where
  "foreign x \<longleftrightarrow> \<not> strneq x ''IAMROOT'' 7"

lemma es_rm_foreign_spec:
  assumes "es_live st" and "unshared (es_alloced st) ps" and "\<forall>q \<in> set ps. es_str st q \<noteq> None"
  shows "\<exists>st'. es_rm_foreign oom ps st = Ret st' \<and> gave_up foreign ps st st' \<and>
    (\<forall>q \<in> set ps. q \<in> owned (es_alloced st) \<longrightarrow> foreign (the (es_str st q)) \<longrightarrow> es_str st' q = None)"
  using assms
proof (induction ps arbitrary: st)
  case (Cons p ps)
  obtain x where x: "es_str st p = Some x" using Cons.prems(3) by auto
  show ?case
  proof (cases "foreign x")
    case True
    obtain st1 where rm: "env_rm_add oom p 0 st = Ret st1" "es_live st1"
      and str: "es_str st1 = (if p \<in> owned (es_alloced st) then (es_str st)(p := None) else es_str st)"
        "owned (es_alloced st1) = owned (es_alloced st) - {p}"
      and g: "\<And>st'. gave_up foreign ps st1 st' \<Longrightarrow> gave_up foreign (p # ps) st st'"
      using env_rm_add_gives_up [OF Cons.prems(1), of oom p] True x by (metis option.sel)
    note rest = rest_live [OF Cons.prems(2,3) str]
    obtain st' where st': "es_rm_foreign oom ps st1 = Ret st'" "gave_up foreign ps st1 st'"
      and dead: "\<forall>q \<in> set ps. q \<in> owned (es_alloced st1) \<longrightarrow> foreign (the (es_str st1 q)) \<longrightarrow> es_str st' q = None"
      using Cons.IH [OF rm(2) rest(1)] rest(2) Cons.prems(3) by auto
    have "es_str st' p = None" if "p \<in> owned (es_alloced st)"
      using gave_up_str [OF st'(2), of p] that str(1) by auto
    moreover have "es_str st' q = None"
      if "q \<in> set ps" "q \<noteq> p" "q \<in> owned (es_alloced st)" "foreign (the (es_str st q))" for q
      using that dead rest(2) str(2) by auto
    moreover have "\<not> strneq x ''IAMROOT'' 7" using True by (simp add: foreign_def)
    ultimately show ?thesis
      using rm(1) st'(1) g [OF st'(2)] x by (intro exI [of _ st']) auto
  next
    case False
    obtain st' where "es_rm_foreign oom ps st = Ret st'" "gave_up foreign ps st st'"
      "\<forall>q \<in> set ps. q \<in> owned (es_alloced st) \<longrightarrow> foreign (the (es_str st q)) \<longrightarrow> es_str st' q = None"
      using Cons.IH [OF Cons.prems(1) unshared_Cons(1) [OF Cons.prems(2)]] Cons.prems(3) by auto
    moreover have "strneq x ''IAMROOT'' 7" using False by (simp add: foreign_def)
    ultimately show ?thesis
      using gave_up_skip [of foreign ps st st' p] x False by (intro exI [of _ st']) auto
  qed
qed (simp add: gave_up_refl)

section \<open>Resetting the environment\<close>

text \<open>The strings of the callers are left alone by an assignment.\<close>

definition frame :: "envst \<Rightarrow> envst \<Rightarrow> bool" where
  "frame st st' \<longleftrightarrow> owned (es_alloced st') \<subseteq> owned (es_alloced st) \<and>
     (\<forall>q. q \<notin> owned (es_alloced st) \<longrightarrow> es_str st' q = es_str st q)"

lemma frame_gave_up: "gave_up Q ps st st' \<Longrightarrow> frame st st'"
  using gave_up_str unfolding frame_def gave_up_def by blast

lemma env_rm_add_frame:
  assumes "es_live st" and "env_rm_add oom p 0 st = Ret st'"
  shows "frame st st'"
proof -
  obtain st1 where "env_rm_add oom p 0 st = Ret st1" "es_live st1"
    and g: "\<And>st'. gave_up (\<lambda>_. True) [] st1 st' \<Longrightarrow> gave_up (\<lambda>_. True) [p] st st'"
    using env_rm_add_gives_up [OF assms(1), of oom p] by metis
  then have "st' = st1" "es_live st1" using assms(2) by simp_all
  with g [OF gave_up_refl] show ?thesis by (auto intro: frame_gave_up)
qed

lemma es_grow_frame:
  assumes "es_grow oom s 0 es st = Ret (res, st')"
  shows "frame st st'"
  using assms
  by (auto simp: es_grow_def es_alloc_def es_free_def es_free_vec_def frame_def Let_def split: if_splits)

lemma es_putenv_frame:
  assumes ok: "es_ok st" and s: "assigns s n st" and r: "es_putenv oom s st = Ret (res, st')"
  shows "frame st st'"
proof -
  obtain v where x: "es_str st s = Some (n @ eq_sign # v)" and n: "valid_name n"
    using s by (auto simp: assigns_def)
  then have "env_name (n @ eq_sign # v) = n" "n \<noteq> []" by (auto simp: valid_name_def)
  with x r have "es_putenv_at oom s (length n) 0 st = Ret (res, st')" by (simp add: es_putenv_def)
  then consider i where "run_bind (env_rm_add oom (es_list st ! i) 0
        (st\<lparr>es_vec := (es_vec st)(es_environ st \<mapsto> (es_list st)[i := s])\<rparr>)) (\<lambda>st'. Ret (None, st')) = Ret (res, st')"
    | "es_grow oom s 0 (es_list st) st = Ret (res, st')"
    using x by (auto simp: es_putenv_at_def es_entries_ok [OF ok] run_bind_Ret_iff [of "es_scan _ _ _ _"]
        split: option.splits)
  then show ?thesis
  proof cases
    case 1
    let ?st = "st\<lparr>es_vec := (es_vec st)(es_environ st \<mapsto> (es_list st)[i := s])\<rparr>"
    have "es_live ?st" using es_ok_live [OF ok] by (simp add: es_live_def)
    moreover have "env_rm_add oom (es_list st ! i) 0 ?st = Ret st'"
      using 1 by (auto simp: run_bind_Ret_iff)
    ultimately have "frame ?st st'" by (rule env_rm_add_frame)
    then show ?thesis by (simp add: frame_def)
  qed (rule es_grow_frame)
qed

lemma frame_assigns:
  "frame st st' \<Longrightarrow> assigns s n st \<Longrightarrow> s \<notin> owned (es_alloced st) \<Longrightarrow>
    assigns s n st' \<and> s \<notin> owned (es_alloced st')"
  by (auto simp: frame_def assigns_def)

text \<open>A run of assignments of the caller's strings.\<close>

lemma es_put_all_spec:
  assumes "es_ok st" and "\<forall>s \<in> set ps. (\<exists>n. n \<noteq> m \<and> assigns s n st) \<and> s \<notin> owned (es_alloced st)"
  shows "\<exists>st'. es_put_all oom ps st = Ret st' \<and> es_ok st' \<and> env_get m (es_abs st') = env_get m (es_abs st)"
  using assms
proof (induction ps arbitrary: st)
  case (Cons s ps)
  obtain n v where n: "n \<noteq> m" "assigns s n st" and x: "es_str st s = Some (n @ eq_sign # v)" "valid_name n"
    and own: "s \<notin> owned (es_alloced st)"
    using Cons.prems(2) by (auto simp: assigns_def)
  have "es_does (es_putenv oom s st) st (Inr (put_var n v (es_abs st)))"
    using es_putenv_does [OF Cons.prems(1) x(1) own, of oom] env_put_assign [OF x(2)] by simp
  then obtain res st1 where put: "es_putenv oom s st = Ret (res, st1)" and ok1: "es_ok st1"
    and "es_abs st1 = es_abs st \<or> es_abs st1 = put_var n v (es_abs st)"
    by (auto simp: es_does_def)
  then have get: "env_get m (es_abs st1) = env_get m (es_abs st)"
    using n(1) put_var_other [OF x(2)] by auto
  have fr: "frame st st1" by (rule es_putenv_frame [OF Cons.prems(1) n(2) put])
  have "\<forall>s \<in> set ps. (\<exists>n. n \<noteq> m \<and> assigns s n st1) \<and> s \<notin> owned (es_alloced st1)"
  proof
    fix t assume "t \<in> set ps"
    then obtain k where "k \<noteq> m" "assigns t k st" "t \<notin> owned (es_alloced st)" using Cons.prems(2) by auto
    with frame_assigns [OF fr this(2,3)] show "(\<exists>n. n \<noteq> m \<and> assigns t n st1) \<and> t \<notin> owned (es_alloced st1)"
      by blast
  qed
  from Cons.IH [OF ok1 this] put get show ?case by auto
qed simp

section \<open>Properties\<close>

definition es_demo :: envst where
  "es_demo = \<lparr>es_str = [1 \<mapsto> ''PATH=/bin'', 2 \<mapsto> ''HOME=/'', 5 \<mapsto> ''PWD=/''], es_vec = [3 \<mapsto> [1, 2]], es_environ = 3,
     es_oldenv = 0, es_alloced = [2], es_next = 6\<rparr>"

lemma es_demo_ok: "es_ok es_demo"
  unfolding es_ok_def
  by (auto simp: es_demo_def es_list_def unshared_def owned_def owned_once_def less_Suc_eq split: if_splits)

text \<open>
  C3: \<^verbatim>\<open>env.c\<close> manages its memory well: from a state that satisfies the invariant, each
  of \<^verbatim>\<open>getenv\<close>, \<^verbatim>\<open>setenv\<close>, \<^verbatim>\<open>unsetenv\<close>, \<^verbatim>\<open>putenv\<close> (of a live string
  the library does not own) and \<^verbatim>\<open>clearenv\<close> returns without reading or freeing a string that
  was freed, keeps the invariant, and changes the list of \<^verbatim>\<open>NAME=VALUE\<close> strings as the
  functions of \<open>Environ\<close> say, or fails with \<^verbatim>\<open>ENOMEM\<close> and leaves it as it was, wherever
  the allocator fails. (When it may fail is left open: the second case is possible for every call that
  asks for memory.)
\<close>

theorem env_refines:
  assumes "es_ok st" and "call_ok c st"
  shows "\<exists>res st'. es_call oom c st = Ret (res, st') \<and> es_ok st' \<and>
    (res = Some ENOMEM \<and> es_abs st' = es_abs st \<or>
     (case env_says c st of Inl e \<Rightarrow> res = Some e \<and> es_abs st' = es_abs st
      | Inr env \<Rightarrow> res = None \<and> es_abs st' = env))"
  using es_call_does [OF assms, of oom] unfolding es_does_def .

theorem env_refines_witness:
  "\<exists>res st'. es_call (\<lambda>n. n = 7) (CSet ''HOME'' ''/root'' True) es_demo = Ret (res, st') \<and> es_ok st' \<and>
    (res = Some ENOMEM \<and> es_abs st' = es_abs es_demo \<or>
     (case env_says (CSet ''HOME'' ''/root'' True) es_demo of
        Inl e \<Rightarrow> res = Some e \<and> es_abs st' = es_abs es_demo
      | Inr env \<Rightarrow> res = None \<and> es_abs st' = env))"
  by (rule env_refines [OF es_demo_ok]) simp

text \<open>
  What \<^verbatim>\<open>setenv\<close> stores is what \<^verbatim>\<open>getenv\<close> then finds, and every other variable
  keeps its value.
\<close>

theorem setenv_getenv:
  assumes "es_ok st" and "valid_name n" and "es_setenv oom n v True st = Ret (None, st')"
  shows "es_getenv m st' = (if m = n then Ret (Some v) else es_getenv m st)"
proof -
  from es_setenv_does [OF assms(1), of oom n v True] assms(3) env_set_overwrite [OF assms(2)]
  have "es_ok st'" "es_abs st' = put_var n v (es_abs st)" by (auto simp: es_does_def)
  then show ?thesis using assms(1,2) by (simp add: es_getenv_ok ev.get_put)
qed

theorem setenv_getenv_witness:
  "\<exists>st'. es_setenv (\<lambda>_. False) ''HOME'' ''/root'' True es_demo = Ret (None, st') \<and>
     es_getenv ''HOME'' st' = Ret (Some ''/root'') \<and> es_getenv ''PATH'' st' = es_getenv ''PATH'' es_demo"
proof -
  have v: "valid_name ''HOME''" by (simp add: valid_name_def eq_sign_def)
  obtain st' where st': "es_setenv (\<lambda>_. False) ''HOME'' ''/root'' True es_demo = Ret (None, st')"
    by (simp add: es_setenv_def es_alloc_def es_putenv_at_def es_entries_def es_demo_def env_name_def
        eq_sign_def strneq_def env_rm_add_def es_free_def)
  from setenv_getenv [OF es_demo_ok v this, of "''HOME''"]
    setenv_getenv [OF es_demo_ok v this, of "''PATH''"] st' show ?thesis by auto
qed

text \<open>
  C40: \<^verbatim>\<open>_resetenv\<close> frees the strings that \<^verbatim>\<open>setenv\<close> allocated for variables other
  than \<^verbatim>\<open>IAMROOT*\<close> and leaves the entries in \<^verbatim>\<open>__environ\<close>: the first assignment of
  \<^verbatim>\<open>envp\<close> that is compared with such an entry reads freed memory.
\<close>

theorem resetenv_use_after_free:
  assumes "es_ok st" and "i < length (es_list st)" and "es_list st ! i \<in> owned (es_alloced st)"
    and "foreign (the (es_str st (es_list st ! i)))"
    and "assigns s n st" and "\<forall>j < i. \<not> env_match n (the (es_str st (es_list st ! j)))"
  shows "es_resetenv oom (Some (s # ss)) st = Undef"
proof -
  let ?es = "es_list st"
  have uns: "unshared (es_alloced st) ?es" and live: "\<forall>p \<in> set ?es. es_str st p \<noteq> None"
    using assms(1) by (auto simp: es_ok_def)
  obtain st' where rm: "es_rm_foreign oom ?es st = Ret st'" and g: "gave_up foreign ?es st st'"
    and dead: "\<forall>q \<in> set ?es. q \<in> owned (es_alloced st) \<longrightarrow> foreign (the (es_str st q)) \<longrightarrow> es_str st' q = None"
    using es_rm_foreign_spec [OF es_ok_live [OF assms(1)] uns live] by blast
  have ent: "es_entries st' = Ret ?es"
  proof -
    have "es_environ st' = es_environ st" "es_vec st' = es_vec st" using g by (auto simp: gave_up_def)
    then have "es_entries st' = es_entries st" unfolding es_entries_def by simp
    then show ?thesis using es_entries_ok [OF assms(1)] by simp
  qed
  have put: "es_putenv oom s st' = Undef"
  proof (cases "es_str st' s")
    case (Some x)
    then have "es_str st s = Some x" using gave_up_str [OF g, of s] by force
    then obtain v where x: "x = n @ eq_sign # v" and n: "valid_name n"
      using assms(5) by (auto simp: assigns_def)
    have "es_scan (es_str st') (\<lambda>e. strneq x e (Suc (length n))) ?es 0 = Undef"
    proof (rule es_scan_dead [OF assms(2)])
      show "es_str st' (?es ! i) = None" using dead assms(2-4) by simp
      show "\<forall>j < i. es_str st' (?es ! j) = None \<or> \<not> strneq x (the (es_str st' (?es ! j))) (Suc (length n))"
      proof (intro allI impI)
        fix j assume "j < i"
        then show "es_str st' (?es ! j) = None \<or> \<not> strneq x (the (es_str st' (?es ! j))) (Suc (length n))"
          using assms(6) gave_up_str [OF g, of "?es ! j"] unfolding x strneq_assign by auto
      qed
    qed
    moreover have "env_name x = n" "n \<noteq> []" "n \<noteq> x" using n x by (auto simp: valid_name_def)
    ultimately show ?thesis using Some ent by (simp add: es_putenv_def es_putenv_at_def)
  qed (simp add: es_putenv_def)
  then show ?thesis using rm by (simp add: es_resetenv_def es_entries_ok [OF assms(1)])
qed

theorem resetenv_use_after_free_witness:
  "es_resetenv (\<lambda>_. False) (Some [5]) es_demo = Undef"
proof (rule resetenv_use_after_free [where i = 1 and n = "''PWD''"])
  show "es_ok es_demo" by (rule es_demo_ok)
  show "assigns 5 ''PWD'' es_demo" by (simp add: assigns_def es_demo_def valid_name_def eq_sign_def)
qed (simp_all add: es_demo_def es_list_def owned_def foreign_def strneq_def env_match_def)

text \<open>
  \<^verbatim>\<open>_resetenv\<close> does not reset: when no foreign string is owned by the library, it puts
  the assignments of \<^verbatim>\<open>envp\<close> and leaves every variable that \<^verbatim>\<open>envp\<close> does not name at
  the value it had, although the caller of \<^verbatim>\<open>execve\<close> left it out of the environment of the
  new program.
\<close>

theorem resetenv_keeps_others:
  assumes "es_ok st"
    and "\<forall>p \<in> set (es_list st). foreign (the (es_str st p)) \<longrightarrow> p \<notin> owned (es_alloced st)"
    and "\<forall>s \<in> set ps. (\<exists>n. n \<noteq> m \<and> assigns s n st) \<and> s \<notin> owned (es_alloced st)"
  shows "\<exists>st'. es_resetenv oom (Some ps) st = Ret st' \<and> es_ok st' \<and> es_getenv m st' = es_getenv m st"
proof -
  let ?es = "es_list st"
  have uns: "unshared (es_alloced st) ?es" and live: "\<forall>p \<in> set ?es. es_str st p \<noteq> None"
    using assms(1) by (auto simp: es_ok_def)
  obtain st' where rm: "es_rm_foreign oom ?es st = Ret st'" and g: "gave_up foreign ?es st st'"
    using es_rm_foreign_spec [OF es_ok_live [OF assms(1)] uns live] by blast
  have l: "es_list st' = ?es" "es_environ st' = es_environ st"
    using g by (simp_all add: es_list_def gave_up_def)
  have same: "es_str st' p = es_str st p" if "p \<in> set ?es" for p
    using gave_up_str [OF g, of p] assms(2) that by auto
  have "es_ok st'"
  proof (rule gave_up_ok [OF assms(1) g])
    show "\<forall>p \<in> set (es_list st'). es_str st' p \<noteq> None" using live same by (simp add: l)
    show "unshared (es_alloced st') (es_list st')"
      unfolding l by (rule unshared_subset [OF uns]) (use g in \<open>simp add: gave_up_def\<close>)
  qed
  moreover have abs: "es_abs st' = es_abs st" unfolding es_abs_def l using same by auto
  moreover have "\<forall>s \<in> set ps. (\<exists>n. n \<noteq> m \<and> assigns s n st') \<and> s \<notin> owned (es_alloced st')"
  proof
    fix s assume "s \<in> set ps"
    then obtain n where n: "n \<noteq> m" "assigns s n st" "s \<notin> owned (es_alloced st)" using assms(3) by auto
    with frame_assigns [OF frame_gave_up [OF g] n(2,3)]
    show "(\<exists>n. n \<noteq> m \<and> assigns s n st') \<and> s \<notin> owned (es_alloced st')" by blast
  qed
  ultimately obtain st2 where "es_put_all oom ps st' = Ret st2" "es_ok st2"
    "env_get m (es_abs st2) = env_get m (es_abs st)"
    using es_put_all_spec by metis
  then show ?thesis
    using rm assms(1) by (auto simp: es_resetenv_def es_entries_ok es_getenv_ok)
qed

theorem resetenv_keeps_others_witness:
  "\<exists>st'. es_resetenv (\<lambda>_. False) (Some [5]) (es_demo\<lparr>es_alloced := []\<rparr>) = Ret st' \<and> es_ok st' \<and>
     es_getenv ''HOME'' st' = es_getenv ''HOME'' (es_demo\<lparr>es_alloced := []\<rparr>)"
proof (rule resetenv_keeps_others [where m = "''HOME''"])
  show "es_ok (es_demo\<lparr>es_alloced := []\<rparr>)"
    using es_demo_ok by (auto simp: es_ok_def es_list_def unshared_def es_demo_def split: if_splits)
  have "assigns 5 ''PWD'' (es_demo\<lparr>es_alloced := []\<rparr>)"
    by (simp add: assigns_def es_demo_def valid_name_def eq_sign_def)
  then show "\<forall>s \<in> set [5]. (\<exists>n. n \<noteq> ''HOME'' \<and> assigns s n (es_demo\<lparr>es_alloced := []\<rparr>)) \<and>
      s \<notin> owned (es_alloced (es_demo\<lparr>es_alloced := []\<rparr>))"
    by (intro ballI conjI exI [of _ "''PWD''"]) (simp_all add: owned_def)
qed simp

end
