(* ===== verification/Numbers.thy ===== *)
theory Numbers
  imports Prelude
begin

text \<open>
  The conversions of the C library between numbers and text that the sources use: the
  \<^verbatim>\<open>%u\<close> and \<^verbatim>\<open>%o\<close> of \<^verbatim>\<open>_snprintf\<close>, \<^verbatim>\<open>strtoul\<close>, \<^verbatim>\<open>strtol\<close>, and their round trip.
\<close>

section \<open>Printing\<close>

definition digit :: "nat \<Rightarrow> char" where "digit d = char_of (48 + d)"

fun show_base :: "nat \<Rightarrow> nat \<Rightarrow> string" where
  "show_base b n =
     (if n < b \<or> b < 2 then [digit n] else show_base b (n div b) @ [digit (n mod b)])"

declare show_base.simps [simp del]

definition show_dec :: "nat \<Rightarrow> string" where "show_dec n = show_base 10 n"
definition show_oct :: "nat \<Rightarrow> string" where "show_oct n = show_base 8 n"

section \<open>Reading\<close>

definition digit_val :: "char \<Rightarrow> nat option" where
  "digit_val c =
     (let k = of_char c :: nat in
      if 48 \<le> k \<and> k < 58 then Some (k - 48)
      else if 97 \<le> k \<and> k < 123 then Some (k - 87)
      else if 65 \<le> k \<and> k < 91 then Some (k - 55)
      else None)"

definition is_digit :: "nat \<Rightarrow> char \<Rightarrow> bool" where
  "is_digit b c \<longleftrightarrow> (case digit_val c of None \<Rightarrow> False | Some d \<Rightarrow> d < b)"

fun read_digits :: "nat \<Rightarrow> string \<Rightarrow> nat \<Rightarrow> nat" where
  "read_digits b [] acc = acc"
| "read_digits b (c # cs) acc =
     (if is_digit b c then read_digits b cs (acc * b + the (digit_val c)) else acc)"

definition is_space :: "char \<Rightarrow> bool" where
  "is_space c \<longleftrightarrow> (let k = of_char c :: nat in k = 32 \<or> 9 \<le> k \<and> k \<le> 13)"

definition is_x :: "char \<Rightarrow> bool" where "is_x c \<longleftrightarrow> c = CHR ''x'' \<or> c = CHR ''X''"

text \<open>The base that base 0 stands for, and the text behind the prefix.\<close>

fun read_prefix :: "nat \<Rightarrow> string \<Rightarrow> nat \<times> string" where
  "read_prefix b (z # x # d # s) =
     (if (b = 0 \<or> b = 16) \<and> z = CHR ''0'' \<and> is_x x \<and> is_digit 16 d then (16, d # s)
      else (if b = 0 then (if z = CHR ''0'' then 8 else 10) else b, z # x # d # s))"
| "read_prefix b s =
     (if b = 0 then (if starts_with s (CHR ''0'') then 8 else 10) else b, s)"

text \<open>The sign and the magnitude that \<^verbatim>\<open>strtoul\<close> and \<^verbatim>\<open>strtol\<close> read.\<close>

definition parse_number :: "string \<Rightarrow> nat \<Rightarrow> bool \<times> nat" where
  "parse_number s base =
     (let s1 = dropWhile is_space s;
          neg = starts_with s1 (CHR ''-'');
          s2 = (if neg \<or> starts_with s1 (CHR ''+'') then tl s1 else s1)
      in case read_prefix base s2 of (b, s3) \<Rightarrow> (neg, read_digits b s3 0))"

text \<open>\<^verbatim>\<open>strtoul\<close> with 64 bits: the value and whether \<^verbatim>\<open>errno\<close> was set (out of range).\<close>

definition ULONG_MAX :: nat where "ULONG_MAX = 2 ^ 64 - 1"

definition strtoul :: "string \<Rightarrow> nat \<Rightarrow> 64 word \<times> bool" where
  "strtoul s base =
     (case parse_number s base of (neg, v) \<Rightarrow>
        if ULONG_MAX < v then (of_nat ULONG_MAX, True)
        else (if neg then - of_nat v else of_nat v, False))"

text \<open>\<^verbatim>\<open>strtol\<close> stops at the largest and the smallest signed number.\<close>

definition strtol :: "string \<Rightarrow> nat \<Rightarrow> 64 word" where
  "strtol s base =
     (case parse_number s base of (neg, v) \<Rightarrow>
        if neg then (if 2 ^ 63 < v then of_nat (2 ^ 63) else - of_nat v)
        else (if 2 ^ 63 - 1 < v then of_nat (2 ^ 63 - 1) else of_nat v))"

text \<open>\<^verbatim>\<open>strtoul\<close> in base 10 with the text behind the number, which is all of it without a digit.\<close>

definition strtoul_end :: "string \<Rightarrow> 64 word \<times> string" where
  "strtoul_end s =
     (let s1 = dropWhile is_space s;
          s2 = (if starts_with s1 (CHR ''-'') \<or> starts_with s1 (CHR ''+'') then tl s1 else s1)
      in if takeWhile (is_digit 10) s2 = [] then (0, s)
         else (fst (strtoul s 10), dropWhile (is_digit 10) s2))"

text \<open>A \<^verbatim>\<open>char\<close> is signed.\<close>

definition schar :: "char \<Rightarrow> int" where
  "schar c = (let k = of_char c :: int in if k < 128 then k else k - 256)"

section \<open>Formats\<close>

text \<open>The \<^verbatim>\<open>%i\<close> of \<^verbatim>\<open>_snprintf\<close>.\<close>

definition show_int :: "int \<Rightarrow> string" where
  "show_int i = (if i < 0 then CHR ''-'' # show_dec (nat (- i)) else show_dec (nat i))"

text \<open>
  Pieces of \<^verbatim>\<open>sscanf\<close>: a literal text and \<^verbatim>\<open>%i\<close>, each with the text that is left. The
  number is cut to an \<^verbatim>\<open>int\<close>.
\<close>

fun scan_text :: "string \<Rightarrow> string \<Rightarrow> string option" where
  "scan_text [] s = Some s"
| "scan_text (c # cs) [] = None"
| "scan_text (c # cs) (d # s) = (if c = d then scan_text cs s else None)"

definition scan_int :: "string \<Rightarrow> (int \<times> string) option" where
  "scan_int s =
     (let s1 = dropWhile is_space s;
          neg = starts_with s1 (CHR ''-'');
          s2 = (if neg \<or> starts_with s1 (CHR ''+'') then tl s1 else s1)
      in case read_prefix 0 s2 of (b, s3) \<Rightarrow>
        if takeWhile (is_digit b) s3 = [] then None
        else let v = int (read_digits b s3 0)
             in Some (sint (word_of_int (if neg then - v else v) :: 32 word), dropWhile (is_digit b) s3))"

text \<open>\<^verbatim>\<open>toupper\<close> and \<^verbatim>\<open>tolower\<close> in the C locale.\<close>

definition to_upper :: "char \<Rightarrow> char" where
  "to_upper c = (let k = of_char c :: nat in if 97 \<le> k \<and> k < 123 then char_of (k - 32) else c)"

definition to_lower :: "char \<Rightarrow> char" where
  "to_lower c = (let k = of_char c :: nat in if 65 \<le> k \<and> k < 91 then char_of (k + 32) else c)"

section \<open>Round trip\<close>

lemma digit_val_digit [simp]: "d < 10 \<Longrightarrow> digit_val (digit d) = Some d"
  by (simp add: digit_val_def digit_def Let_def)

lemma is_digit_digit: "d < b \<Longrightarrow> b \<le> 10 \<Longrightarrow> is_digit b (digit d)"
  by (simp add: is_digit_def)

lemma show_base_digits: "2 \<le> b \<Longrightarrow> b \<le> 10 \<Longrightarrow> list_all (is_digit b) (show_base b n)"
proof (induction b n rule: show_base.induct)
  case (1 b n)
  then show ?case
    by (subst show_base.simps) (auto simp: is_digit_digit)
qed

lemma show_base_nonempty [simp]: "show_base b n \<noteq> []"
  by (subst show_base.simps) simp

lemma read_digits_append:
  "list_all (is_digit b) xs \<Longrightarrow> read_digits b (xs @ ys) acc = read_digits b ys (read_digits b xs acc)"
  by (induction xs arbitrary: acc) auto

lemma read_show_base: "2 \<le> b \<Longrightarrow> b \<le> 10 \<Longrightarrow> read_digits b (show_base b n) 0 = n"
proof (induction b n rule: show_base.induct)
  case (1 b n)
  show ?case
  proof (cases "n < b")
    case True
    with 1(2,3) show ?thesis by (subst show_base.simps) (simp add: is_digit_digit)
  next
    case False
    with 1 have IH: "read_digits b (show_base b (n div b)) 0 = n div b" by simp
    have "n mod b < b" "n mod b < 10" using 1(2,3) by (auto intro: order.strict_trans2 [OF mod_less_divisor])
    with False 1(2,3) IH show_base_digits [OF 1(2,3), of "n div b"] show ?thesis
      by (subst show_base.simps) (simp add: read_digits_append is_digit_digit mult.commute)
  qed
qed

text \<open>A number is printed without a leading zero, a sign or a space.\<close>

lemma show_base_hd: "2 \<le> b \<Longrightarrow> b \<le> 10 \<Longrightarrow> 0 < n \<Longrightarrow> \<exists>d t. 0 < d \<and> d < b \<and> show_base b n = digit d # t"
proof (induction b n rule: show_base.induct)
  case (1 b n)
  show ?case
  proof (cases "n < b")
    case True
    with 1(4) show ?thesis by (subst show_base.simps) auto
  next
    case False
    with 1(2,3) have "0 < n div b" by (simp add: div_greater_zero_iff)
    with 1 False obtain d t where "0 < d" "d < b" "show_base b (n div b) = digit d # t" by force
    with False 1(2) show ?thesis by (subst show_base.simps) auto
  qed
qed

lemma digit_neq:
  assumes "0 < d" and "d < 10"
  shows "digit d \<noteq> CHR ''0''" "digit d \<noteq> CHR ''-''" "digit d \<noteq> CHR ''+''" "\<not> is_space (digit d)"
proof -
  have "d \<in> {1, 2, 3, 4, 5, 6, 7, 8, 9}" using assms by auto
  then show "digit d \<noteq> CHR ''0''" "digit d \<noteq> CHR ''-''" "digit d \<noteq> CHR ''+''" "\<not> is_space (digit d)"
    by (auto simp: digit_def char_of_def is_space_def Let_def)
qed

lemma read_prefix_nonzero:
  "b \<noteq> 16 \<Longrightarrow> \<not> starts_with s (CHR ''0'') \<Longrightarrow> read_prefix b s = (if b = 0 then 10 else b, s)"
  by (cases "(b, s)" rule: read_prefix.cases) auto

lemma parse_show:
  assumes "b = 10 \<and> base \<in> {0, 10} \<or> b = 8 \<and> base = 8"
  shows "parse_number (show_base b n) base = (False, n)"
proof (cases "n = 0")
  case True
  have "digit 0 = CHR ''0''" by code_simp
  then have "show_base b 0 = ''0''" using assms by (auto simp: show_base.simps)
  moreover have "parse_number ''0'' 0 = (False, 0)" "parse_number ''0'' 10 = (False, 0)"
      "parse_number ''0'' 8 = (False, 0)"
    by code_simp+
  ultimately show ?thesis using True assms by auto
next
  case False
  have b: "2 \<le> b" "b \<le> 10" using assms by auto
  obtain d t where d: "0 < d" "d < b" and s: "show_base b n = digit d # t"
    using show_base_hd [OF b] False by blast
  from d b have nd: "digit d \<noteq> CHR ''0''" "digit d \<noteq> CHR ''-''" "digit d \<noteq> CHR ''+''" "\<not> is_space (digit d)"
    using digit_neq [of d] by auto
  have "read_prefix base (show_base b n) = (b, show_base b n)"
    using assms s nd(1) read_prefix_nonzero [of base "show_base b n"] by auto
  moreover have "dropWhile is_space (show_base b n) = show_base b n" using s nd by simp
  ultimately show ?thesis
    using read_show_base [OF b, of n] s nd unfolding parse_number_def by simp
qed

lemma strtoul_show:
  "n \<le> ULONG_MAX \<Longrightarrow> b = 10 \<and> base \<in> {0, 10} \<or> b = 8 \<and> base = 8 \<Longrightarrow>
    strtoul (show_base b n) base = (of_nat n, False)"
  by (simp add: strtoul_def parse_show)

lemma strtol_show:
  "n < 2 ^ 63 \<Longrightarrow> b = 10 \<and> base \<in> {0, 10} \<or> b = 8 \<and> base = 8 \<Longrightarrow>
    strtol (show_base b n) base = of_nat n"
  by (simp add: strtol_def parse_show)

lemma length_show_base:
  assumes "2 \<le> b" and "n < b ^ k" and "0 < k"
  shows "length (show_base b n) \<le> k"
  using assms
proof (induction b n arbitrary: k rule: show_base.induct)
  case (1 b n)
  show ?case
  proof (cases "n < b")
    case True
    with 1(4) show ?thesis by (subst show_base.simps) simp
  next
    case False
    obtain j where j: "k = Suc j" "0 < j"
    proof -
      have "k \<noteq> 1" using 1(3) False by auto
      then show thesis using that [of "k - 1"] 1(4) by auto
    qed
    have "n div b < b ^ j" using 1(2,3) j by (simp add: less_mult_imp_div_less mult.commute)
    with 1 False j have "length (show_base b (n div b)) \<le> j" by simp
    with False j 1(2) show ?thesis by (subst show_base.simps) simp
  qed
qed

end
