(* ===== verification/Root_Dir.thy ===== *)
theory Root_Dir
  imports Environ
begin

text \<open>
  The root directory of \<^verbatim>\<open>iamroot.c\<close>, kept in the environment variable
  \<^verbatim>\<open>IAMROOT_ROOT\<close>: entering and leaving it, putting paths below it and taking it off, and
  the path of a file descriptor. The operating system's answers are parameters.
\<close>

section \<open>The root directory\<close>

definition ROOT_VAR :: string where "ROOT_VAR = ''IAMROOT_ROOT''"

definition getroot :: "env \<Rightarrow> string option" where
  "getroot env = env_get ROOT_VAR env"

definition getrootdir :: "env \<Rightarrow> string" where
  "getrootdir env = (case getroot env of None \<Rightarrow> ''/'' | Some r \<Rightarrow> r)"

definition setrootdir :: "string option \<Rightarrow> env \<Rightarrow> errno + env" where
  "setrootdir path env =
     (case path of None \<Rightarrow> env_unset ROOT_VAR env | Some p \<Rightarrow> env_set ROOT_VAR p True env)"

definition inchroot :: "env \<Rightarrow> bool" where
  "inchroot env \<longleftrightarrow> getrootdir env \<noteq> ''/''"

text \<open>
  \<^verbatim>\<open>__chrootdir (NULL)\<close>: leave the chroot when the working directory is not below it;
  \<open>cwd\<close> is what \<^verbatim>\<open>next_getcwd\<close> answers.
\<close>

definition chrootdir :: "errno + string \<Rightarrow> env \<Rightarrow> errno + env" where
  "chrootdir cwd env =
     (case cwd of Inl e \<Rightarrow> Inl e
      | Inr d \<Rightarrow> if strleq d (getrootdir env) then Inr env else setrootdir None env)"

definition skiprootdir :: "env \<Rightarrow> string \<Rightarrow> string option" where
  "skiprootdir env path =
     (if path = [] then None
      else let root = getrootdir env in
        if root = ''/'' then Some path
        else let ret = (if strneq root path (strlen_max root) then drop (strlen_max root) path else path)
             in Some (if ret = [] then ''/'' else ret))"

text \<open>
  \<^verbatim>\<open>__striprootdir\<close> moves at most \<^verbatim>\<open>PATH_MAX\<close> bytes of the path in place: what is beyond
  them keeps its position.
\<close>

definition move_down :: "nat \<Rightarrow> string \<Rightarrow> string" where
  "move_down len path =
     (if length path \<le> PATH_MAX then drop len path
      else take (Suc (PATH_MAX - len)) (drop len path) @ drop (Suc (PATH_MAX - len)) path)"

definition striprootdir :: "env \<Rightarrow> string \<Rightarrow> string option" where
  "striprootdir env path =
     (if path = [] then None
      else let root = getrootdir env in
        if root = ''/'' then Some path
        else let size = strlen_max path; len = strlen_max root;
                 ret = (if strneq root path len then move_down len path else path)
             in Some (if ret = [] then strncpy_buf ''/'' size else ret))"

text \<open>The name of the executable, below the root directory.\<close>

definition getexe :: "string option \<Rightarrow> env \<Rightarrow> string option" where
  "getexe execfn env =
     (case execfn of None \<Rightarrow> None
      | Some exec \<Rightarrow>
          let len = (case getroot env of None \<Rightarrow> 0 | Some r \<Rightarrow> strlen_max r)
          in if strlen_max exec < len then None else Some (drop len exec))"

text \<open>\<^verbatim>\<open>__execve\<close> takes the root directory off the path it hands on.\<close>

definition execve_path :: "env \<Rightarrow> string \<Rightarrow> string" where
  "execve_path env path =
     (let root = getrootdir env in
      if root = ''/'' then path
      else if strneq path root (strlen_max root) then drop (strlen_max root) path else path)"

definition basename :: "string \<Rightarrow> string" where
  "basename path = rev (takeWhile (\<lambda>c. c \<noteq> slash) (rev path))"

section \<open>File descriptors\<close>

definition AT_FDCWD :: int where "AT_FDCWD = -100"

text \<open>\<^verbatim>\<open>__procfdname\<close>: the digits are written from the last to the first.\<close>

fun dec_digits :: "nat \<Rightarrow> string \<Rightarrow> string" where
  "dec_digits fd acc =
     (if fd = 0 then acc else dec_digits (fd div 10) (char_of (48 + fd mod 10) # acc))"

declare dec_digits.simps [simp del]

definition procfdname :: "32 word \<Rightarrow> string" where
  "procfdname fd = ''/proc/self/fd/'' @ (if fd = 0 then ''0'' else dec_digits (unat fd) [])"

text \<open>The size of the buffer \<^verbatim>\<open>tmp\<close> of \<^verbatim>\<open>__fgetpath\<close>.\<close>

definition procfd_size :: nat where "procfd_size = 15 + 3 * 4 + 2"

definition fgetpath :: "(string \<Rightarrow> nat \<Rightarrow> errno + string) \<Rightarrow> int \<Rightarrow> nat \<Rightarrow> errno + string" where
  "fgetpath rlink fd bufsiz =
     (if fd = AT_FDCWD then Inr ''.'' else rlink (procfdname (word_of_int fd)) bufsiz)"

text \<open>\<^verbatim>\<open>fpath\<close> writes a terminator behind what it read: beyond the buffer when that is full.\<close>

definition fpath :: "(string \<Rightarrow> nat \<Rightarrow> errno + string) \<Rightarrow> int \<Rightarrow> nat \<Rightarrow> string run" where
  "fpath rlink fd bufsiz =
     (if fd < 0 \<and> fd \<noteq> AT_FDCWD then Err EINVAL
      else case fgetpath rlink fd bufsiz of
          Inl e \<Rightarrow> Err e
        | Inr v \<Rightarrow> if bufsiz \<le> length v then Undef else Ret v)"

section \<open>Facts\<close>

lemma valid_ROOT_VAR [simp]: "valid_name ROOT_VAR"
  by (simp add: valid_name_def ROOT_VAR_def eq_sign_def)

lemma setrootdir_Some: "setrootdir (Some p) env = Inr (put_var ROOT_VAR p env)"
  by (simp add: setrootdir_def env_set_overwrite)

lemma setrootdir_None: "setrootdir None env = Inr (del_var ROOT_VAR env)"
  by (simp add: setrootdir_def env_unset_valid)

lemma getrootdir_put [simp]: "getrootdir (put_var ROOT_VAR p env) = p"
  by (simp add: getrootdir_def getroot_def)

lemma getrootdir_del [simp]: "getrootdir (del_var ROOT_VAR env) = ''/''"
  by (simp add: getrootdir_def getroot_def)

lemma getrootdir_other:
  "valid_name n \<Longrightarrow> n \<noteq> ROOT_VAR \<Longrightarrow> getrootdir (put_var n v env) = getrootdir env"
  by (simp add: getrootdir_def getroot_def)

lemma inchroot_put [simp]: "inchroot (put_var ROOT_VAR p env) \<longleftrightarrow> p \<noteq> ''/''"
  by (simp add: inchroot_def)

lemma not_inchroot_del [simp]: "\<not> inchroot (del_var ROOT_VAR env)"
  by (simp add: inchroot_def)

text \<open>Taking the root directory off a path below it.\<close>

lemma striprootdir_below:
  assumes "getrootdir env = root" and "root \<noteq> ''/''" and "length (root @ p) \<le> PATH_MAX" and "root @ p \<noteq> []"
  shows "striprootdir env (root @ p) = Some (if p = [] then strncpy_buf ''/'' (length root) else p)"
  using assms by (auto simp: striprootdir_def Let_def strneq_prefix_left move_down_def)

lemma striprootdir_outside:
  assumes "getrootdir env = root" and "root \<noteq> ''/''" and "\<not> prefix root path" and "path \<noteq> []"
    and "length root \<le> PATH_MAX"
  shows "striprootdir env path = Some path"
  using assms by (auto simp: striprootdir_def Let_def strneq_prefix_left)

lemma skiprootdir_below:
  assumes "getrootdir env = root" and "root \<noteq> ''/''" and "length root \<le> PATH_MAX" and "root @ p \<noteq> []"
  shows "skiprootdir env (root @ p) = Some (if p = [] then ''/'' else p)"
  using assms by (auto simp: skiprootdir_def Let_def strneq_prefix_left)

text \<open>After \<^verbatim>\<open>__chrootdir\<close> the working directory is below the root directory.\<close>

lemma chrootdir_cases:
  assumes "chrootdir (Inr d) env = Inr env'"
  shows "env' = env \<and> strleq d (getrootdir env) \<or> env' = del_var ROOT_VAR env \<and> \<not> strleq d (getrootdir env)"
  using assms by (auto simp: chrootdir_def setrootdir_None split: if_splits)

section \<open>Digits\<close>

lemma dec_digits_length: "0 < n \<Longrightarrow> fd < 10 ^ n \<Longrightarrow> length (dec_digits fd acc) \<le> n + length acc"
proof (induction n arbitrary: fd acc)
  case (Suc n)
  show ?case
  proof (cases "fd = 0")
    case False
    show ?thesis
    proof (cases "n = 0")
      case True
      with Suc.prems have "fd div 10 = 0" by simp
      with False True show ?thesis by (simp add: dec_digits.simps [of fd] dec_digits.simps [of 0])
    next
      case F: False
      have "fd div 10 < 10 ^ n" using Suc.prems by (simp add: less_mult_imp_div_less mult.commute)
      with Suc.IH [of "fd div 10" "char_of (48 + fd mod 10) # acc"] F False show ?thesis
        by (simp add: dec_digits.simps [of fd])
    qed
  qed (simp add: dec_digits.simps)
qed simp

text \<open>The buffer of \<^verbatim>\<open>__fgetpath\<close> holds every name with its terminator.\<close>

lemma procfdname_length: "length (procfdname fd) < procfd_size"
proof -
  have "unat fd < 2 ^ LENGTH(32)" by (rule unsigned_less)
  then have "unat fd < 10 ^ 10" by simp
  then have "length (dec_digits (unat fd) []) \<le> 10" using dec_digits_length [of 10 "unat fd" "[]"] by simp
  then show ?thesis by (simp add: procfdname_def procfd_size_def)
qed

end
