(* ===== verification/Path_Res.thy ===== *)
theory Path_Res
  imports Realpath Root_Dir
begin

unbundle bit_operations_syntax

text \<open>
  \<^verbatim>\<open>path_resolution.c\<close>: from a path of the program to a path of the host. The regular
  expressions (\<^verbatim>\<open>jimregexp.c\<close>) are parameters: a compiled expression is the function that
  \<^verbatim>\<open>jim_regexec\<close> computes. The system calls are the fields of \<open>host\<close>.
\<close>

section \<open>Parameters and state\<close>

record host =
  h_readlink :: "string \<Rightarrow> nat \<Rightarrow> errno + string"
  h_pathattr :: "string \<Rightarrow> nat \<Rightarrow> errno + string"
  h_getcwd :: "nat \<Rightarrow> errno + string"

type_synonym regex = "string \<Rightarrow> int"

record lib =
  l_env :: env
  l_ignore :: "regex option"
  l_warning :: "regex option"

section \<open>The constructor and the destructor\<close>

definition REG_NOMATCH :: int where "REG_NOMATCH = 1"

definition default_ignore :: string where
  "default_ignore = ''^(/proc/|/sys/|/dev/|/var/run/|/run/)''"

definition default_warning_ignore :: string where
  "default_warning_ignore = ''^/var/log/dnf'' @ [CHR 0x5C] @ ''.rpm'' @ [CHR 0x5C] @ ''.log$''"

definition path_resolution_init :: "(string \<Rightarrow> regex option) \<Rightarrow> lib \<Rightarrow> lib" where
  "path_resolution_init regcomp lib =
     (let warn = (\<lambda>lib. case regcomp (case env_get ''IAMROOT_PATH_RESOLUTION_WARNING_IGNORE'' (l_env lib) of
                       None \<Rightarrow> default_warning_ignore | Some x \<Rightarrow> x) of
                     None \<Rightarrow> lib | Some re \<Rightarrow> lib\<lparr>l_warning := Some re\<rparr>)
      in if l_ignore lib \<noteq> None then warn lib
         else case regcomp (case env_get ''IAMROOT_PATH_RESOLUTION_IGNORE'' (l_env lib) of
                       None \<Rightarrow> default_ignore | Some x \<Rightarrow> x) of
                None \<Rightarrow> lib | Some re \<Rightarrow> warn (lib\<lparr>l_ignore := Some re\<rparr>))"

definition path_resolution_fini :: "lib \<Rightarrow> lib" where
  "path_resolution_fini lib =
     lib\<lparr>l_env := (case env_unset ROOT_VAR (l_env lib) of Inl e \<Rightarrow> l_env lib | Inr env \<Rightarrow> env),
         l_warning := None, l_ignore := None\<rparr>"

definition ignore :: "regex option \<Rightarrow> string \<Rightarrow> bool" where
  "ignore re path = (case re of None \<Rightarrow> False | Some m \<Rightarrow> path \<noteq> [] \<and> m path = 0)"

definition warning_ignore :: "regex option \<Rightarrow> string \<Rightarrow> bool" where
  "warning_ignore re path = (case re of None \<Rightarrow> False | Some m \<Rightarrow> m path = 0)"

section \<open>Sanitizing\<close>

fun strip_front :: "string \<Rightarrow> string" where
  "strip_front (a # b # c # d # s) =
     (if a = CHR ''.'' \<and> b = slash \<and> c \<noteq> slash then strip_front (c # d # s) else a # b # c # d # s)"
| "strip_front s = s"

function strip_dot :: "string \<Rightarrow> string" where
  "strip_dot s =
     (if 2 < length s \<and> drop (length s - 2) s = ''/.'' then strip_dot (take (length s - 2) s) else s)"
  by auto
termination by (relation "measure length") auto

function strip_tail :: "string \<Rightarrow> string" where
  "strip_tail s = (if 1 < length s \<and> last s = slash then strip_tail (butlast s) else s)"
  by auto
termination by (relation "measure length") auto

declare strip_dot.simps [simp del] strip_tail.simps [simp del]

definition path_sanitize :: "string \<Rightarrow> string" where
  "path_sanitize path =
     (if path = [] then path
      else let s = strip_tail (strip_dot (strip_front path)) in if s = [] then ''.'' else s)"

section \<open>Flags\<close>

definition AT_SYMLINK_NOFOLLOW :: "32 word" where "AT_SYMLINK_NOFOLLOW = 0x100"
definition AT_SYMLINK_FOLLOW :: "32 word" where "AT_SYMLINK_FOLLOW = 0x400"
definition PR_NOMAGICLINKS :: "32 word" where "PR_NOMAGICLINKS = 0x01"
definition PR_NOIGNORE :: "32 word" where "PR_NOIGNORE = 0x02"
definition PR_NOWALKALONG :: "32 word" where "PR_NOWALKALONG = 0x04"

definition follow_symlink :: "32 word \<Rightarrow> bool" where
  "follow_symlink f \<longleftrightarrow> f AND AT_SYMLINK_FOLLOW \<noteq> 0 \<or> f AND AT_SYMLINK_NOFOLLOW = 0"

definition allow_magic_links :: "32 word \<Rightarrow> bool" where
  "allow_magic_links f \<longleftrightarrow> f AND PR_NOMAGICLINKS = 0"

definition allow_ignore :: "32 word \<Rightarrow> bool" where
  "allow_ignore f \<longleftrightarrow> f AND PR_NOIGNORE = 0"

definition allow_walk_along :: "32 word \<Rightarrow> bool" where
  "allow_walk_along f \<longleftrightarrow> f AND PR_NOWALKALONG = 0"

section \<open>Resolution\<close>

text \<open>The path is copied as is.\<close>

definition copy_checked :: "string \<Rightarrow> nat \<Rightarrow> string run" where
  "copy_checked path bufsiz =
     (let buf = strncpy_buf path bufsiz
      in if length buf \<noteq> strlen_max path then Err ENAMETOOLONG else Ret buf)"

text \<open>
  The path put below the root directory or the directory of \<open>dfd\<close>: \<open>Inl\<close> ends the
  resolution with a result and the text left in the buffer, \<open>Inr\<close> goes on with the buffer and
  \<^verbatim>\<open>is_atrootfd\<close>.
\<close>

definition print_path :: "string \<Rightarrow> nat \<Rightarrow> bool \<Rightarrow> (string run \<times> string) + string \<times> bool" where
  "print_path text bufsiz atroot =
     (case snprintf text bufsiz of
        Inl e \<Rightarrow> Inl (Err (if e = ENOSPC then ENAMETOOLONG else e), strncpy_buf text bufsiz)
      | Inr buf \<Rightarrow> Inr (buf, atroot))"

definition place_path ::
    "host \<Rightarrow> string \<Rightarrow> int \<Rightarrow> string \<Rightarrow> nat \<Rightarrow> (string run \<times> string) + string \<times> bool" where
  "place_path h root dfd path bufsiz =
     (if starts_with path slash then
        print_path (root @ (if root \<noteq> [] \<and> strleq path root then drop (strlen_max root) path else path))
          bufsiz False
      else if dfd \<noteq> AT_FDCWD then
        (case fpath (h_readlink h) dfd PATH_MAX of
           Ret dirbuf \<Rightarrow>
             if \<not> starts_with dirbuf slash then Inl (copy_checked path bufsiz, strncpy_buf path bufsiz)
             else print_path (dirbuf @ slash # path) bufsiz (root = dirbuf)
         | Err e \<Rightarrow> Inl (Err e, []) | Undef \<Rightarrow> Inl (Undef, []) | Diverge \<Rightarrow> Inl (Diverge, []))
      else Inr (strncpy_buf path bufsiz, False))"

text \<open>
  \<^verbatim>\<open>__realpathat\<close> on the buffer: what it returns replaces the buffer, a failure leaves it
  and its \<^verbatim>\<open>errno\<close>.
\<close>

definition walk_buf ::
    "host \<Rightarrow> env \<Rightarrow> bool \<Rightarrow> bool \<Rightarrow> nat \<Rightarrow> string \<times> errno \<Rightarrow> (string \<times> errno) run" where
  "walk_buf h env doit follow bufsiz be =
     (case be of (buf, e) \<Rightarrow>
        if \<not> doit then Ret (buf, e)
        else case realpathat (h_pathattr h) (h_readlink h) (h_getcwd h) (getrootdir env) follow e buf of
            Ret r \<Rightarrow> Ret (strncpy_buf r bufsiz, e)
          | Err e' \<Rightarrow> Ret (buf, e')
          | Undef \<Rightarrow> Undef
          | Diverge \<Rightarrow> Diverge)"

definition resolve_buf ::
    "host \<Rightarrow> lib \<Rightarrow> string \<Rightarrow> bool \<Rightarrow> nat \<Rightarrow> 32 word \<Rightarrow> 32 word \<Rightarrow> errno \<Rightarrow> string \<Rightarrow> string run" where
  "resolve_buf h lib root atroot bufsiz atflags prflags e buf =
     run_bind (walk_buf h (l_env lib) (follow_symlink atflags) (follow_symlink atflags) bufsiz
                 (path_sanitize buf, e)) (\<lambda>(b1, e1).
       let b2 = (if root \<noteq> [] \<and> atroot \<and> \<not> strleq b1 root then strncpy_buf root bufsiz else b1);
           b3 = (if strleq b2 root \<and> allow_ignore prflags \<and> ignore (l_ignore lib) (drop (strlen_max root) b2)
                 then (case striprootdir (l_env lib) b2 of None \<Rightarrow> b2 | Some b \<Rightarrow> b) else b2)
       in run_bind (walk_buf h (l_env lib) (allow_walk_along prflags) (follow_symlink atflags) bufsiz (b3, e1))
            (\<lambda>(b4, _). Ret b4))"

definition path_resolution2 ::
    "host \<Rightarrow> lib \<Rightarrow> errno \<Rightarrow> int \<Rightarrow> string option \<Rightarrow> nat \<Rightarrow> 32 word \<Rightarrow> 32 word \<Rightarrow> string run" where
  "path_resolution2 h lib e dfd pathp bufsiz atflags prflags =
     (case pathp of None \<Rightarrow> Err EINVAL
      | Some path \<Rightarrow>
        if strnlen path PATH_MAX = PATH_MAX then Err ENAMETOOLONG
        else if allow_magic_links prflags \<and> path = ''/proc/1/root'' then
          (if length (strncpy_buf ''/'' bufsiz) \<noteq> 1 then Err ENAMETOOLONG
           else Ret (strncpy_buf ''/'' bufsiz))
        else if allow_magic_links prflags \<and> strneq path ''/dev/fd/'' 8 then copy_checked path bufsiz
        else if allow_ignore prflags \<and> ignore (l_ignore lib) path then copy_checked path bufsiz
        else
          let root = (if getrootdir (l_env lib) = ''/'' then [] else getrootdir (l_env lib))
          in case place_path h root dfd path bufsiz of
               Inl (r, _) \<Rightarrow> r
             | Inr (buf, atroot) \<Rightarrow> resolve_buf h lib root atroot bufsiz atflags prflags e buf)"

definition path_resolution ::
    "host \<Rightarrow> lib \<Rightarrow> errno \<Rightarrow> int \<Rightarrow> string option \<Rightarrow> nat \<Rightarrow> 32 word \<Rightarrow> string run" where
  "path_resolution h lib e dfd pathp bufsiz atflags = path_resolution2 h lib e dfd pathp bufsiz atflags 0"

section \<open>Callers of the same file and of \<^verbatim>\<open>realpath.c\<close>\<close>

definition path_ignored :: "host \<Rightarrow> lib \<Rightarrow> int \<Rightarrow> string \<Rightarrow> bool run" where
  "path_ignored h lib dfd path =
     (if dfd \<noteq> AT_FDCWD then
        run_bind (fpath (h_readlink h) dfd PATH_MAX) (\<lambda>buf. Ret (ignore (l_ignore lib) buf))
      else Ret (ignore (l_ignore lib) path))"

text \<open>What a failed resolution leaves in the (static, emptied) buffer of \<^verbatim>\<open>__getpath\<close>.\<close>

definition left_in_buf :: "host \<Rightarrow> lib \<Rightarrow> int \<Rightarrow> string \<Rightarrow> string" where
  "left_in_buf h lib dfd path =
     (if PATH_MAX \<le> length path then []
      else case place_path h (if getrootdir (l_env lib) = ''/'' then [] else getrootdir (l_env lib))
                  dfd path PATH_MAX of
          Inl (_, left) \<Rightarrow> left | Inr _ \<Rightarrow> [])"

text \<open>
  \<^verbatim>\<open>__getpath\<close>: \<open>None\<close> is \<^verbatim>\<open>NULL\<close>. A failed resolution (\<^verbatim>\<open>-1\<close>) is not
  \<^verbatim>\<open>0\<close>, so the buffer is returned as the resolution left it.
\<close>

definition getpath :: "host \<Rightarrow> lib \<Rightarrow> errno \<Rightarrow> int \<Rightarrow> string \<Rightarrow> 32 word \<Rightarrow> string option run" where
  "getpath h lib e dfd path atflags =
     (case path_ignored h lib dfd path of
        Ret True \<Rightarrow>
          run_bind (if path = [] then fpath (h_readlink h) dfd PATH_MAX else Ret path) (\<lambda>p.
            if follow_symlink atflags
            then (case next_realpath (h_readlink h) (h_getcwd h) e p of
                    Ret r \<Rightarrow> Ret (Some r) | Err _ \<Rightarrow> Ret None | Undef \<Rightarrow> Undef | Diverge \<Rightarrow> Diverge)
            else Ret (Some (strncpy_buf p PATH_MAX)))
      | Undef \<Rightarrow> Undef
      | Diverge \<Rightarrow> Diverge
      | _ \<Rightarrow>
          (case path_resolution h lib e dfd (Some path) PATH_MAX atflags of
             Ret r \<Rightarrow> Ret (if r = [] then None else Some r)
           | Err _ \<Rightarrow> Ret (Some (left_in_buf h lib dfd path))
           | Undef \<Rightarrow> Undef
           | Diverge \<Rightarrow> Diverge))"

definition realpath :: "host \<Rightarrow> lib \<Rightarrow> errno \<Rightarrow> string \<Rightarrow> string run" where
  "realpath h lib e path =
     run_bind (path_resolution h lib e AT_FDCWD (Some path) PATH_MAX 0) (\<lambda>buf.
       run_bind (next_realpath (h_readlink h) (h_getcwd h) e buf) (\<lambda>ret.
         let root = getrootdir (l_env lib)
         in if root = ''/'' then Ret ret
            else if \<not> strleq ret root then Ret ret
            else Ret (drop (strlen_max root) ret)))"

end
