(* ===== verification/Search.thy ===== *)
theory Search
  imports Path_Res
begin

text \<open>
  The helpers of \<^verbatim>\<open>iamroot.c\<close> that walk a list: the two searches of a file along a
  \<^verbatim>\<open>PATH\<close>, the iterations over a separated string and over a directory, and the overflow-checked
  \<^verbatim>\<open>reallocarr\<close>. The access checks and the callbacks are parameters.
\<close>

section \<open>Searching a file along a path\<close>

definition colon :: char where "colon = CHR '':''"

text \<open>The name tried for one element: no slash in front of the file for an empty element.\<close>

definition candidate :: "string \<Rightarrow> string \<Rightarrow> string" where
  "candidate dir file = (if dir = [] then file else dir @ slash # file)"

text \<open>
  The loop over the elements. \<open>l\<close> is the length an element must not reach, \<open>seen\<close> is
  \<^verbatim>\<open>seen_eacces\<close>, \<open>cur\<close> the current \<^verbatim>\<open>errno\<close>.
\<close>

fun search :: "(string \<Rightarrow> errno option) \<Rightarrow> nat \<Rightarrow> string \<Rightarrow> string list \<Rightarrow> bool \<Rightarrow> errno \<Rightarrow> errno + string" where
  "search access l file [] seen cur = Inl (if seen then EACCES else cur)"
| "search access l file (d # ds) seen cur =
     (if l \<le> length d then search access l file ds seen cur
      else case access (candidate d file) of
          None \<Rightarrow> Inr (candidate d file)
        | Some e \<Rightarrow>
            if e = EACCES then search access l file ds True e
            else if e = ENOENT \<or> e = ENOTDIR then search access l file ds seen e
            else Inl e)"

definition search_path :: "(string \<Rightarrow> errno option) \<Rightarrow> string \<Rightarrow> string option \<Rightarrow> errno + string" where
  "search_path access file path =
     (if file = [] then Inl ENOENT
      else case path of None \<Rightarrow> Inl ENOENT
      | Some p \<Rightarrow>
          if NAME_MAX < strnlen file (NAME_MAX + 1) then Inl ENAMETOOLONG
          else search access (Suc (strnlen p (PATH_MAX - 1))) file (split_at colon p) False ENOENT)"

text \<open>\<^verbatim>\<open>__host_path_access\<close> checks on the host and copies the name.\<close>

definition host_path_access ::
    "(string \<Rightarrow> errno option) \<Rightarrow> string \<Rightarrow> string option \<Rightarrow> nat \<Rightarrow> errno + string" where
  "host_path_access access file path bufsiz =
     map_sum id (\<lambda>b. strncpy_buf b bufsiz) (search_path access file path)"

text \<open>
  \<^verbatim>\<open>__path_access\<close> checks through the library (\<^verbatim>\<open>__faccessat\<close>) and resolves the name.
\<close>

definition path_access ::
    "(string \<Rightarrow> errno option) \<Rightarrow> host \<Rightarrow> lib \<Rightarrow> string \<Rightarrow> string option \<Rightarrow> nat \<Rightarrow> string run" where
  "path_access access h lib file path bufsiz =
     run_bind (of_sum (search_path access file path)) (\<lambda>b.
       path_resolution h lib E_OK AT_FDCWD (Some b) bufsiz AT_SYMLINK_NOFOLLOW)"

text \<open>
  \<^verbatim>\<open>__faccessat\<close>: with \<^verbatim>\<open>AT_SYMLINK_NOFOLLOW\<close> a status call decides. The flags handed on
  are the ones written in the source: \<^verbatim>\<open>AT_EACCESS\<close> goes to the status call, and the access
  call gets what is left of \<^verbatim>\<open>AT_SYMLINK_NOFOLLOW\<close>, which is nothing.
\<close>

definition AT_EACCESS :: "32 word" where "AT_EACCESS = 0x200"

definition faccessat_nofollow ::
    "(32 word \<Rightarrow> errno option) \<Rightarrow> (32 word \<Rightarrow> errno option) \<Rightarrow> 32 word \<Rightarrow> errno option" where
  "faccessat_nofollow fstatat faccessat atflags =
     (if atflags AND AT_SYMLINK_NOFOLLOW \<noteq> 0 then fstatat (atflags AND AT_EACCESS)
      else faccessat (atflags AND AT_SYMLINK_NOFOLLOW))"

section \<open>Iterating\<close>

text \<open>The callback takes a token and its user state, and answers a number and a state.\<close>

fun iter_tokens :: "(string \<Rightarrow> 'u \<Rightarrow> int \<times> 'u) \<Rightarrow> string list \<Rightarrow> 'u \<Rightarrow> int \<times> 'u" where
  "iter_tokens cb [] u = (0, u)"
| "iter_tokens cb (t # ts) u =
     (case cb t u of (r, u') \<Rightarrow> if r \<noteq> 0 then (r, u') else iter_tokens cb ts u')"

definition tokens :: "char \<Rightarrow> string \<Rightarrow> string list" where
  "tokens c s = filter (\<lambda>t. t \<noteq> []) (split_at c (take PATH_MAX s))"

definition strtok :: "char \<Rightarrow> string option \<Rightarrow> (string \<Rightarrow> 'u \<Rightarrow> int \<times> 'u) \<Rightarrow> 'u \<Rightarrow> int \<times> 'u" where
  "strtok c str cb u = (case str of None \<Rightarrow> (-1, u) | Some s \<Rightarrow> iter_tokens cb (tokens c s) u)"

definition path_iterate :: "string option \<Rightarrow> (string \<Rightarrow> 'u \<Rightarrow> int \<times> 'u) \<Rightarrow> 'u \<Rightarrow> int \<times> 'u" where
  "path_iterate path cb u = strtok colon path cb u"

definition group_iterate :: "string option \<Rightarrow> (string \<Rightarrow> 'u \<Rightarrow> int \<times> 'u) \<Rightarrow> 'u \<Rightarrow> int \<times> 'u" where
  "group_iterate path cb u = strtok (CHR '' '') path cb u"

text \<open>The entries of a directory, from the last to the first; counts the callbacks that answer zero.\<close>

fun iter_names :: "(string \<Rightarrow> string \<Rightarrow> 'u \<Rightarrow> int \<times> 'u) \<Rightarrow> string \<Rightarrow> string list \<Rightarrow> 'u \<Rightarrow> int \<times> 'u" where
  "iter_names cb path [] u = (0, u)"
| "iter_names cb path (n # ns) u =
     (if n = ''.'' \<or> n = ''..'' then iter_names cb path ns u
      else case cb path n u of (r, u') \<Rightarrow>
        (case iter_names cb path ns u' of (k, u'') \<Rightarrow> (if r = 0 then k + 1 else k, u'')))"

definition dir_iterate ::
    "(string \<Rightarrow> errno + string list) \<Rightarrow> string \<Rightarrow> (string \<Rightarrow> string \<Rightarrow> 'u \<Rightarrow> int \<times> 'u) \<Rightarrow> 'u \<Rightarrow> int \<times> 'u" where
  "dir_iterate scandir path cb u =
     (case scandir path of Inl e \<Rightarrow> (-1, u) | Inr names \<Rightarrow> iter_names cb path (rev names) u)"

section \<open>\<^verbatim>\<open>reallocarr\<close>\<close>

datatype realloc_call = RFree | ROverflow | RAlloc "64 word"

definition SQRT_SIZE_MAX :: "64 word" where "SQRT_SIZE_MAX = push_bit 32 1"

definition reallocarr :: "64 word \<Rightarrow> 64 word \<Rightarrow> realloc_call" where
  "reallocarr number sz =
     (if number = 0 \<or> sz = 0 then RFree
      else if SQRT_SIZE_MAX \<le> (number OR sz) \<and> (- 1) div sz < number then ROverflow
      else RAlloc (number * sz))"

section \<open>Facts\<close>

text \<open>A search finds the first element, of those short enough, that can be accessed.\<close>

definition passable :: "errno option \<Rightarrow> bool" where
  "passable r \<longleftrightarrow> r \<in> {Some EACCES, Some ENOENT, Some ENOTDIR}"

lemma search_found:
  "search access l file ds seen cur = Inr b \<Longrightarrow>
     \<exists>as d bs. ds = as @ d # bs \<and> b = candidate d file \<and> length d < l \<and> access b = None \<and>
       (\<forall>a \<in> set as. length a < l \<longrightarrow> passable (access (candidate a file)))"
proof (induction ds arbitrary: seen cur)
  case (Cons d ds)
  show ?case
  proof (cases "l \<le> length d \<or> passable (access (candidate d file))")
    case True
    then obtain seen' cur' where s: "search access l file ds seen' cur' = Inr b"
      using Cons.prems by (auto simp: passable_def split: if_splits option.splits)
    then obtain as d' bs where "ds = as @ d' # bs" "b = candidate d' file" "length d' < l" "access b = None"
      "\<forall>a \<in> set as. length a < l \<longrightarrow> passable (access (candidate a file))" using Cons.IH by blast
    with True show ?thesis
      by (intro exI [of _ "d # as"] exI [of _ d'] exI [of _ bs]) auto
  next
    case False
    then have "access (candidate d file) = None" and "b = candidate d file"
      using Cons.prems by (auto simp: passable_def split: option.splits if_splits)
    with False show ?thesis by (intro exI [of _ "[]"] exI [of _ d] exI [of _ ds]) auto
  qed
qed simp

lemma search_complete:
  assumes "\<forall>a \<in> set as. length a < l \<longrightarrow> passable (access (candidate a file))"
    and "length d < l" and "access (candidate d file) = None"
  shows "search access l file (as @ d # bs) seen cur = Inr (candidate d file)"
  using assms by (induction as arbitrary: seen cur) (auto simp: passable_def)

lemma element_short:
  assumes "length p < PATH_MAX" and "d \<in> set (split_at colon p)"
  shows "length d < Suc (strnlen p (PATH_MAX - 1))"
proof -
  have "length d \<le> length p"
    using assms(2)
  proof (induction p arbitrary: d)
    case (Cons x p)
    obtain y ys where "split_at colon p = y # ys" by (cases "split_at colon p") auto
    with Cons show ?case by (auto split: if_splits) fastforce+
  qed simp
  with assms(1) show ?thesis by (simp add: strnlen_def)
qed

lemma tokens_nonempty: "t \<in> set (tokens c s) \<Longrightarrow> t \<noteq> [] \<and> c \<notin> set t"
  by (auto simp: tokens_def split_at_no_sep)

text \<open>An iteration stops at the first callback that does not answer zero.\<close>

lemma iter_tokens_append:
  "iter_tokens cb (xs @ ys) u =
     (case iter_tokens cb xs u of (r, u') \<Rightarrow> if r \<noteq> 0 then (r, u') else iter_tokens cb ys u')"
  by (induction xs arbitrary: u) (auto split: prod.splits)

section \<open>Properties\<close>

text \<open>
  \<^verbatim>\<open>__host_path_access\<close> and \<^verbatim>\<open>__path_access\<close> take the first element of the path
  that gives access to the file: every element before it was refused with \<^verbatim>\<open>EACCES\<close>,
  \<^verbatim>\<open>ENOENT\<close> or \<^verbatim>\<open>ENOTDIR\<close>. Any other error ends the search.
\<close>

theorem search_path_first:
  assumes "file \<noteq> []" and "length file \<le> NAME_MAX" and "length p < PATH_MAX"
  shows "search_path access file (Some p) = Inr b \<longleftrightarrow>
    (\<exists>as d bs. split_at colon p = as @ d # bs \<and> b = candidate d file \<and> access b = None \<and>
       (\<forall>a \<in> set as. passable (access (candidate a file))))"
proof -
  let ?l = "Suc (strnlen p (PATH_MAX - 1))"
  have s: "search_path access file (Some p) = search access ?l file (split_at colon p) False ENOENT"
    using assms(1,2) by (simp add: search_path_def strnlen_def NAME_MAX_def)
  have short: "length a < ?l" if "a \<in> set (split_at colon p)" for a
    by (rule element_short [OF assms(3) that])
  show ?thesis
  proof
    assume "search_path access file (Some p) = Inr b"
    then obtain as d bs where "split_at colon p = as @ d # bs" "b = candidate d file" "access b = None"
      "\<forall>a \<in> set as. length a < ?l \<longrightarrow> passable (access (candidate a file))"
      using search_found unfolding s by blast
    with short show "\<exists>as d bs. split_at colon p = as @ d # bs \<and> b = candidate d file \<and> access b = None \<and>
       (\<forall>a \<in> set as. passable (access (candidate a file)))" by auto
  next
    assume "\<exists>as d bs. split_at colon p = as @ d # bs \<and> b = candidate d file \<and> access b = None \<and>
       (\<forall>a \<in> set as. passable (access (candidate a file)))"
    then obtain as d bs where sp: "split_at colon p = as @ d # bs" and "b = candidate d file"
      "access b = None" "\<forall>a \<in> set as. passable (access (candidate a file))" by blast
    then have "search access ?l file (as @ d # bs) False ENOENT = Inr (candidate d file)"
      by (intro search_complete) (use short in auto)
    with sp \<open>b = candidate d file\<close> show "search_path access file (Some p) = Inr b" unfolding s by simp
  qed
qed

theorem search_path_first_witness:
  "search_path (\<lambda>f. if f = ''/usr/bin/sh'' then None else Some ENOENT) ''sh'' (Some ''/bin:/usr/bin:/sbin'')
     = Inr ''/usr/bin/sh''"
proof -
  let ?a = "\<lambda>f. if f = ''/usr/bin/sh'' then None else Some ENOENT"
  have "split_at colon ''/bin:/usr/bin:/sbin'' = [''/bin''] @ ''/usr/bin'' # [''/sbin'']" by code_simp
  moreover have "candidate ''/usr/bin'' ''sh'' = ''/usr/bin/sh''" "passable (?a (candidate ''/bin'' ''sh''))"
    by (simp_all add: candidate_def passable_def slash_def)
  ultimately have "\<exists>as d bs. split_at colon ''/bin:/usr/bin:/sbin'' = as @ d # bs \<and>
      ''/usr/bin/sh'' = candidate d ''sh'' \<and> ?a ''/usr/bin/sh'' = None \<and> (\<forall>a \<in> set as. passable (?a (candidate a ''sh'')))"
    by (intro exI [of _ "[''/bin'']"] exI [of _ "''/usr/bin''"] exI [of _ "[''/sbin'']"]) simp
  then show ?thesis
    using search_path_first [of "''sh''" "''/bin:/usr/bin:/sbin''" ?a "''/usr/bin/sh''"]
    by (simp add: NAME_MAX_def PATH_MAX_def)
qed

text \<open>
  \<^verbatim>\<open>reallocarr\<close> never asks for less memory than the array needs: it calls
  \<^verbatim>\<open>realloc\<close> with the exact product, and reports \<^verbatim>\<open>EOVERFLOW\<close> exactly when the
  product of two positive numbers does not fit 64 bits.
\<close>

theorem reallocarr_exact:
  "case reallocarr number sz of
     RFree \<Rightarrow> number = 0 \<or> sz = 0
   | ROverflow \<Rightarrow> 2 ^ 64 \<le> unat number * unat sz
   | RAlloc m \<Rightarrow> unat m = unat number * unat sz \<and> 0 < unat m"
proof (cases "number = 0 \<or> sz = 0")
  case True
  then show ?thesis by (simp add: reallocarr_def)
next
  case False
  then have pos: "0 < unat number" "0 < unat sz" by (simp_all add: unat_gt_0)
  have max: "unat (- 1 :: 64 word) = 2 ^ 64 - 1"
    by (simp add: unsigned_minus_1_eq_mask mask_eq_exp_minus_1)
  have div: "unat ((- 1) div sz) = (2 ^ 64 - 1) div unat sz" by (simp add: unat_div max)
  have over: "(- 1) div sz < number \<longleftrightarrow> 2 ^ 64 \<le> unat number * unat sz"
  proof -
    have "(- 1) div sz < number \<longleftrightarrow> (2 ^ 64 - 1) div unat sz < unat number"
      by (simp add: word_less_nat_alt div)
    also have "\<dots> \<longleftrightarrow> (2 ^ 64 - 1 :: nat) < unat number * unat sz"
      using pos(2) by (rule div_less_iff_less_mult)
    finally show ?thesis by auto
  qed
  have fit: "unat (number * sz) = unat number * unat sz" if "unat number * unat sz < 2 ^ 64"
    using that by (simp add: unat_word_ariths)
  show ?thesis
  proof (cases "SQRT_SIZE_MAX \<le> (number OR sz)")
    case True
    show ?thesis
    proof (cases "2 ^ 64 \<le> unat number * unat sz")
      case True
      then show ?thesis using \<open>SQRT_SIZE_MAX \<le> (number OR sz)\<close> False over by (simp add: reallocarr_def)
    next
      case F: False
      then show ?thesis using False over fit pos by (simp add: reallocarr_def)
    qed
  next
    case small: False
    have "number \<le> (number OR sz)" "sz \<le> (number OR sz)"
      by (simp_all add: le_word_or2 le_word_or1)
    then have "number < SQRT_SIZE_MAX" "sz < SQRT_SIZE_MAX" using small by auto
    then have "unat number < 2 ^ 32" "unat sz < 2 ^ 32"
      by (simp_all add: word_less_nat_alt SQRT_SIZE_MAX_def)
    then have "unat number * unat sz < 2 ^ 32 * 2 ^ 32" by (rule mult_strict_mono) auto
    then have "unat number * unat sz < 2 ^ 64" by simp
    then show ?thesis using False small fit pos by (simp add: reallocarr_def)
  qed
qed

end
