(* ===== verification/Ident.thy ===== *)
theory Ident
  imports Environ Numbers Search
begin

unbundle bit_operations_syntax

text \<open>
  The identity of the process, faked in the environment variables \<^verbatim>\<open>IAMROOT_UID\<close>,
  \<^verbatim>\<open>IAMROOT_EUID\<close> and so on (\<^verbatim>\<open>getuid.c\<close>, \<^verbatim>\<open>setuid.c\<close> and their relatives),
  the group list (\<^verbatim>\<open>getgroups.c\<close>, \<^verbatim>\<open>setgroups.c\<close>) and the file mode creation mask
  (\<^verbatim>\<open>umask.c\<close>). A setter answers \<^verbatim>\<open>errno\<close> or the new environment.
\<close>

section \<open>Reading and writing one number\<close>

definition read_id :: "string \<Rightarrow> env \<Rightarrow> 32 word" where
  "read_id name env =
     (case strtoul (case env_get name env of None \<Rightarrow> ''0'' | Some s \<Rightarrow> s) 0 of
        (ul, err) \<Rightarrow> if err then 0 else ucast ul)"

definition put_id :: "string \<Rightarrow> 32 word \<Rightarrow> env \<Rightarrow> errno + env" where
  "put_id name i env =
     (case snprintf (show_dec (unat i)) BUFSIZ of
        Inl e \<Rightarrow> Inl e | Inr buf \<Rightarrow> env_set name buf True env)"

definition write_id :: "string \<Rightarrow> 32 word \<Rightarrow> env \<Rightarrow> errno + env" where
  "write_id name i env = (if i = - 1 then Inl EINVAL else put_id name i env)"

section \<open>The calls\<close>

definition getuid :: "env \<Rightarrow> 32 word" where "getuid env = read_id ''IAMROOT_UID'' env"
definition geteuid :: "env \<Rightarrow> 32 word" where "geteuid env = read_id ''IAMROOT_EUID'' env"
definition getgid :: "env \<Rightarrow> 32 word" where "getgid env = read_id ''IAMROOT_GID'' env"
definition getegid :: "env \<Rightarrow> 32 word" where "getegid env = read_id ''IAMROOT_EGID'' env"

definition setuid :: "32 word \<Rightarrow> env \<Rightarrow> errno + env" where "setuid i env = write_id ''IAMROOT_UID'' i env"
definition seteuid :: "32 word \<Rightarrow> env \<Rightarrow> errno + env" where "seteuid i env = write_id ''IAMROOT_EUID'' i env"
definition setgid :: "32 word \<Rightarrow> env \<Rightarrow> errno + env" where "setgid i env = write_id ''IAMROOT_GID'' i env"
definition setegid :: "32 word \<Rightarrow> env \<Rightarrow> errno + env" where "setegid i env = write_id ''IAMROOT_EGID'' i env"
definition setfsuid :: "32 word \<Rightarrow> env \<Rightarrow> errno + env" where "setfsuid i env = write_id ''IAMROOT_FSUID'' i env"
definition setfsgid :: "32 word \<Rightarrow> env \<Rightarrow> errno + env" where "setfsgid i env = write_id ''IAMROOT_FSGID'' i env"

text \<open>
  \<^verbatim>\<open>setreuid\<close> and \<^verbatim>\<open>setregid\<close>: the effective number first; \<open>-1\<close> leaves a number alone.
  A failure of the second keeps the first: the environment is part of the answer.
\<close>

definition set_pair ::
    "(32 word \<Rightarrow> env \<Rightarrow> errno + env) \<Rightarrow> (32 word \<Rightarrow> env \<Rightarrow> errno + env) \<Rightarrow> 32 word \<Rightarrow> 32 word \<Rightarrow> env
     \<Rightarrow> errno option \<times> env" where
  "set_pair setr sete r e env =
     (case (if e = - 1 then Inr env else sete e env) of
        Inl x \<Rightarrow> (Some x, env)
      | Inr env1 \<Rightarrow>
          (case (if r = - 1 then Inr env1 else setr r env1) of
             Inl x \<Rightarrow> (Some x, env1) | Inr env2 \<Rightarrow> (None, env2)))"

definition setreuid :: "32 word \<Rightarrow> 32 word \<Rightarrow> env \<Rightarrow> errno option \<times> env" where
  "setreuid r e env = set_pair setuid seteuid r e env"

definition setregid :: "32 word \<Rightarrow> 32 word \<Rightarrow> env \<Rightarrow> errno option \<times> env" where
  "setregid r e env = set_pair setgid setegid r e env"

definition set_saved :: "string \<Rightarrow> 32 word \<Rightarrow> errno option \<times> env \<Rightarrow> errno option \<times> env" where
  "set_saved name s re =
     (case re of
        (Some x, env) \<Rightarrow> (Some x, env)
      | (None, env) \<Rightarrow>
          if s = - 1 then (None, env)
          else (case put_id name s env of Inl x \<Rightarrow> (Some x, env) | Inr env' \<Rightarrow> (None, env')))"

definition setresuid :: "32 word \<Rightarrow> 32 word \<Rightarrow> 32 word \<Rightarrow> env \<Rightarrow> errno option \<times> env" where
  "setresuid r e s env = set_saved ''IAMROOT_SUID'' s (setreuid r e env)"

definition setresgid :: "32 word \<Rightarrow> 32 word \<Rightarrow> 32 word \<Rightarrow> env \<Rightarrow> errno option \<times> env" where
  "setresgid r e s env = set_saved ''IAMROOT_SGID'' s (setregid r e env)"

text \<open>
  \<^verbatim>\<open>getresuid\<close>: each pointer may be null. The saved number goes through \<^verbatim>\<open>strtoul\<close> the
  same way. A real or effective number of \<open>-1\<close> is an error.
\<close>

definition getres ::
    "32 word \<Rightarrow> 32 word \<Rightarrow> 32 word \<Rightarrow> bool \<Rightarrow> bool \<Rightarrow> bool \<Rightarrow> (32 word option \<times> 32 word option \<times> 32 word option) option" where
  "getres rid eid sid r e s =
     (if r \<and> rid = - 1 \<or> e \<and> eid = - 1 then None
      else Some (if r then Some rid else None, if e then Some eid else None, if s then Some sid else None))"

definition getresuid ::
    "env \<Rightarrow> bool \<Rightarrow> bool \<Rightarrow> bool \<Rightarrow> (32 word option \<times> 32 word option \<times> 32 word option) option" where
  "getresuid env r e s = getres (getuid env) (geteuid env) (read_id ''IAMROOT_SUID'' env) r e s"

definition getresgid ::
    "env \<Rightarrow> bool \<Rightarrow> bool \<Rightarrow> bool \<Rightarrow> (32 word option \<times> 32 word option \<times> 32 word option) option" where
  "getresgid env r e s = getres (getgid env) (getegid env) (read_id ''IAMROOT_SGID'' env) r e s"

section \<open>Groups\<close>

definition NGROUPS_MAX :: nat where "NGROUPS_MAX = 65536"
definition GROUPS_VAR :: string where "GROUPS_VAR = ''IAMROOT_GROUPS''"

text \<open>
  The callback of \<^verbatim>\<open>getgroups\<close>: its state is \<^verbatim>\<open>errno\<close>, the count and what was written to
  the list.
\<close>

record groups_st =
  g_errno :: errno
  g_size :: int
  g_list :: "32 word list"

definition id_callback :: "int \<Rightarrow> bool \<Rightarrow> string \<Rightarrow> groups_st \<Rightarrow> int \<times> groups_st" where
  "id_callback listsize has_list tok st =
     (case strtoul tok 0 of (ul, err) \<Rightarrow>
        if err then (-1, st\<lparr>g_errno := ERANGE\<rparr>)
        else if 0 < listsize \<and> \<not> g_size st < listsize then (-1, st\<lparr>g_errno := EINVAL\<rparr>)
        else (0, st\<lparr>g_size := g_size st + 1,
                    g_list := (if has_list \<and> g_size st < listsize then g_list st @ [ucast ul] else g_list st)\<rparr>))"

definition getgroups :: "env \<Rightarrow> int \<Rightarrow> bool \<Rightarrow> errno + int \<times> 32 word list" where
  "getgroups env listsize has_list =
     (if listsize \<noteq> 0 \<and> \<not> has_list then Inl EINVAL
      else case group_iterate (Some (case env_get GROUPS_VAR env of None \<Rightarrow> ''0'' | Some v \<Rightarrow> v))
                  (id_callback listsize has_list) \<lparr>g_errno = E_OK, g_size = 0, g_list = []\<rparr> of
          (r, st) \<Rightarrow> if r = -1 then Inl (g_errno st) else Inr (g_size st, g_list st))"

fun groups_text :: "32 word list \<Rightarrow> string \<Rightarrow> errno + string" where
  "groups_text [] buf = Inr buf"
| "groups_text (g # gs) buf =
     (case snprintf ((if buf = [] then [] else '' '') @ show_dec (unat g)) (BUFSIZ - length buf) of
        Inl e \<Rightarrow> Inl e
      | Inr s \<Rightarrow> groups_text gs (buf @ s))"

definition setgroups :: "32 word list \<Rightarrow> env \<Rightarrow> errno + env" where
  "setgroups gs env =
     (if NGROUPS_MAX < length gs then Inl EINVAL
      else if gs = [] then env_unset GROUPS_VAR env
      else case groups_text gs [] of
          Inl e \<Rightarrow> Inl e | Inr buf \<Rightarrow> env_set GROUPS_VAR buf True env)"

text \<open>\<open>grouplist\<close> is \<^verbatim>\<open>getgrouplist\<close> with room for \<^verbatim>\<open>NGROUPS_MAX\<close> numbers.\<close>

definition initgroups :: "(string \<Rightarrow> 32 word \<Rightarrow> 32 word list option) \<Rightarrow> string \<Rightarrow> 32 word \<Rightarrow> env \<Rightarrow> errno option + env" where
  "initgroups grouplist user gid env =
     (case grouplist user gid of None \<Rightarrow> Inl None
      | Some gs \<Rightarrow> map_sum Some id (setgroups gs env))"

section \<open>The creation mask\<close>

definition UMASK_VAR :: string where "UMASK_VAR = ''IAMROOT_UMASK''"

definition getumask :: "env \<Rightarrow> 32 word" where
  "getumask env =
     ucast (strtol (case env_get UMASK_VAR env of None \<Rightarrow> ''022'' | Some s \<Rightarrow> s) 8)"

definition setumask :: "32 word \<Rightarrow> env \<Rightarrow> errno + env" where
  "setumask m env =
     (case snprintf (show_oct (unat m)) 4 of
        Inl e \<Rightarrow> Inl e | Inr buf \<Rightarrow> env_set UMASK_VAR buf True env)"

text \<open>
  \<^verbatim>\<open>umask\<close>: the answer, the mask given to the host (the owner may always read and write), and
  the environment; a failure to store the mask is not seen.
\<close>

definition umask :: "32 word \<Rightarrow> env \<Rightarrow> 32 word \<times> 32 word \<times> env" where
  "umask m env =
     (getumask env, m AND NOT 0x180,
      case setumask m env of Inl _ \<Rightarrow> env | Inr env' \<Rightarrow> env')"

end
