(* ===== verification/Bytes.thy ===== *)
theory Bytes
  imports Prelude "HOL-Library.Word"
begin

unbundle bit_operations_syntax

text \<open>
  Integers in memory: reading a word of a host of either byte order from its bytes, the
  \<^verbatim>\<open>__bswap_*__\<close> functions of \<^verbatim>\<open>dso.c\<close>, and the law that ties them: swapping what one byte
  order reads gives what the other reads.
\<close>

type_synonym byte = "8 word"

primrec le_word :: "byte list \<Rightarrow> 'a::len word" where
  "le_word [] = 0"
| "le_word (b # bs) = ucast b OR push_bit 8 (le_word bs)"

text \<open>\<open>big\<close> tells the byte order of the host.\<close>

definition load :: "bool \<Rightarrow> byte list \<Rightarrow> 'a::len word" where
  "load big bs = le_word (if big then rev bs else bs)"

definition bswap16 :: "16 word \<Rightarrow> 16 word" where
  "bswap16 x = push_bit 8 x OR drop_bit 8 x"

definition bswap32 :: "32 word \<Rightarrow> 32 word" where
  "bswap32 x =
     drop_bit 24 x OR (drop_bit 8 x AND 0xff00) OR (push_bit 8 x AND 0xff0000) OR push_bit 24 x"

definition bswap64 :: "64 word \<Rightarrow> 64 word" where
  "bswap64 x =
     push_bit 32 (ucast (bswap32 (ucast x))) OR ucast (bswap32 (ucast (drop_bit 32 x)))"

section \<open>Bits of a word read from bytes\<close>

lemma bit_byte_high: "8 \<le> n \<Longrightarrow> \<not> bit (b :: byte) n"
  using bit_imp_le_length [of b n] by auto

lemma bit_le_word:
  "bit (le_word bs :: 'a::len word) n \<longleftrightarrow>
     n < LENGTH('a) \<and> n div 8 < length bs \<and> bit (bs ! (n div 8)) (n mod 8)"
proof (induction bs arbitrary: n)
  case (Cons b bs)
  show ?case
  proof (cases "n < 8")
    case True
    then show ?thesis by (simp add: bit_simps)
  next
    case False
    then obtain k where k: "n = 8 + k" using le_Suc_ex by (metis not_less)
    have *: "bit b (8 + k) = False" by (simp add: bit_byte_high)
    have d: "(8 + k) div 8 = Suc (k div 8)" by simp
    show ?thesis
      unfolding k by (auto simp: bit_simps * d Cons.IH simp del: div_add_self1 div_add_self2)
  qed
qed simp

lemma bit_masks:
  "bit (0xff00 :: int) n \<longleftrightarrow> 8 \<le> n \<and> n < 16" "bit (0xff0000 :: int) n \<longleftrightarrow> 16 \<le> n \<and> n < 24"
proof -
  have "(0xff00 :: int) = push_bit 8 (mask 8)" "(0xff0000 :: int) = push_bit 16 (mask 8)"
    by (simp_all add: mask_eq_exp_minus_1 push_bit_eq_mult)
  then show "bit (0xff00 :: int) n \<longleftrightarrow> 8 \<le> n \<and> n < 16" "bit (0xff0000 :: int) n \<longleftrightarrow> 16 \<le> n \<and> n < 24"
    by (auto simp only: bit_simps) auto
qed

section \<open>Swapping\<close>

lemma bswap16_le_word:
  assumes "length bs = 2" shows "bswap16 (le_word bs) = le_word (rev bs)"
proof -
  obtain a b where bs: "bs = [a, b]" using assms by (auto simp: length_Suc_conv numeral_2_eq_2)
  show ?thesis
    unfolding bs by (rule bit_word_eqI) (auto simp: bswap16_def bit_simps dest: bit_imp_le_length)
qed

lemma bit_bswap32:
  assumes "n < 32"
  shows "bit (bswap32 x) n \<longleftrightarrow> bit x (8 * (3 - n div 8) + n mod 8)"
proof -
  have high: "\<not> bit x (k + m)" if "32 \<le> m" for k m using bit_imp_le_length [of x "k + m"] that by auto
  define k where "k = n mod 8"
  have k: "k < 8" by (simp add: k_def)
  from assms have "n div 8 < 4" by simp
  then consider "n div 8 = 0" | "n div 8 = 1" | "n div 8 = 2" | "n div 8 = 3" by linarith
  then have "n = k \<and> 8 * (3 - n div 8) + n mod 8 = k + 24 \<or> n = k + 8 \<and> 8 * (3 - n div 8) + n mod 8 = k + 16
    \<or> n = k + 16 \<and> 8 * (3 - n div 8) + n mod 8 = k + 8 \<or> n = k + 24 \<and> 8 * (3 - n div 8) + n mod 8 = k"
    using div_mult_mod_eq [of n 8] by cases (auto simp: k_def)
  then show ?thesis
    using k by (elim disjE conjE)
      (simp_all only: bswap32_def, auto simp: bit_simps bit_masks high add.commute [of _ k])
qed

lemma bswap32_le_word: "length bs = 4 \<Longrightarrow> bswap32 (le_word bs) = le_word (rev bs)"
  by (rule bit_word_eqI) (auto simp: bit_bswap32 bit_le_word rev_nth div_less_iff_less_mult)

lemma add_32_div_mod [simp]: "(n + 32) div 8 = 4 + n div (8 :: nat)" "(n + 32) mod 8 = n mod (8 :: nat)"
proof -
  have "n + 32 = n + 4 * 8" by simp
  then show "(n + 32) div 8 = 4 + n div (8 :: nat)" "(n + 32) mod 8 = n mod (8 :: nat)"
    by (simp_all only: div_mult_self1 mod_mult_self1)
qed

lemma bswap64_le_word:
  assumes "length bs = 8"
  shows "bswap64 (le_word bs) = le_word (rev bs)"
proof -
  have 1: "ucast (le_word bs :: 64 word) = (le_word (take 4 bs) :: 32 word)"
    using assms by (intro bit_word_eqI) (auto simp: bit_simps bit_le_word div_less_iff_less_mult)
  have 2: "ucast (drop_bit 32 (le_word bs :: 64 word)) = (le_word (drop 4 bs) :: 32 word)"
    using assms
    by (intro bit_word_eqI) (auto simp: bit_simps bit_le_word div_less_iff_less_mult add.commute [of 32])
  have 3: "push_bit 32 (ucast (le_word (rev (take 4 bs)) :: 32 word)) OR ucast (le_word (rev (drop 4 bs)) :: 32 word)
     = (le_word (rev bs) :: 64 word)" (is "?l = ?r")
  proof (rule bit_word_eqI)
    fix n assume n: "n < LENGTH(64)"
    show "bit ?l n = bit ?r n"
    proof (cases "n < 32")
      case False
      then obtain k where "n = k + 32" by (metis not_less le_Suc_ex add.commute)
      with n assms show ?thesis
        by (auto simp: bit_simps bit_le_word rev_nth div_less_iff_less_mult)
    qed (use assms in \<open>auto simp: bit_simps bit_le_word rev_nth div_less_iff_less_mult\<close>)
  qed
  show ?thesis unfolding bswap64_def 1 2 using assms by (simp add: bswap32_le_word 3)
qed

text \<open>The law: what a host of one byte order reads and swaps is what the other order reads.\<close>

lemma bswap_load:
  "length bs = 2 \<Longrightarrow> bswap16 (load big bs) = load (\<not> big) bs"
  "length bs = 4 \<Longrightarrow> bswap32 (load big bs) = load (\<not> big) bs"
  "length bs = 8 \<Longrightarrow> bswap64 (load big bs) = load (\<not> big) bs"
  by (simp_all add: load_def bswap16_le_word bswap32_le_word bswap64_le_word)

lemma ucast_load: "LENGTH('a) \<le> LENGTH('b) \<Longrightarrow> length bs * 8 \<le> LENGTH('a) \<Longrightarrow>
    ucast (load big bs :: 'a::len word) = (load big bs :: 'b::len word)"
  by (rule bit_word_eqI) (auto simp: load_def bit_simps bit_le_word less_mult_imp_div_less div_less_iff_less_mult)

end
