(* ===== verification/Elf.thy ===== *)
theory Elf
  imports Bytes
begin

text \<open>
  The ELF reader of \<^verbatim>\<open>dso.c\<close>: headers, program headers, section headers and dynamic entries
  converted to the byte order of the host (\<open>big\<close>), the interpreter of a program, the
  iteration over dynamic entries, and \<^verbatim>\<open>__elf_has_interp\<close> on a mapped file. The file is a
  parameter: a descriptor whose reads answer bytes or an error. The fields of a 32-bit file are kept
  in the records of a 64-bit one, extended with zeros as every use of them does.
\<close>

section \<open>Byte order\<close>

definition ELFMAG :: "byte list" where "ELFMAG = [0x7f, 0x45, 0x4c, 0x46]"
definition EI_CLASS :: nat where "EI_CLASS = 4"
definition EI_DATA :: nat where "EI_DATA = 5"
definition ELFCLASS32 :: byte where "ELFCLASS32 = 1"
definition ELFCLASS64 :: byte where "ELFCLASS64 = 2"

definition elf_swap :: "bool \<Rightarrow> byte list \<Rightarrow> bool" where
  "elf_swap big ident \<longleftrightarrow> (if big then 2 else 1) \<noteq> ident ! EI_DATA"

definition elf_half :: "bool \<Rightarrow> byte list \<Rightarrow> 16 word \<Rightarrow> 16 word" where
  "elf_half big ident v = (if \<not> elf_swap big ident then v else bswap16 v)"

definition elf_word :: "bool \<Rightarrow> byte list \<Rightarrow> 32 word \<Rightarrow> 32 word" where
  "elf_word big ident v = (if \<not> elf_swap big ident then v else bswap32 v)"

definition elf_xword :: "bool \<Rightarrow> byte list \<Rightarrow> 64 word \<Rightarrow> 64 word" where
  "elf_xword big ident v = (if \<not> elf_swap big ident then v else bswap64 v)"

section \<open>The structures\<close>

record ehdr =
  e_ident :: "byte list"
  e_type :: "16 word"
  e_machine :: "16 word"
  e_version :: "32 word"
  e_entry :: "64 word"
  e_phoff :: "64 word"
  e_shoff :: "64 word"
  e_flags :: "32 word"
  e_ehsize :: "16 word"
  e_phentsize :: "16 word"
  e_phnum :: "16 word"
  e_shentsize :: "16 word"
  e_shnum :: "16 word"
  e_shstrndx :: "16 word"

record phdr =
  p_type :: "32 word"
  p_flags :: "32 word"
  p_offset :: "64 word"
  p_vaddr :: "64 word"
  p_paddr :: "64 word"
  p_filesz :: "64 word"
  p_memsz :: "64 word"
  p_align :: "64 word"

record shdr =
  sh_name :: "32 word"
  sh_type :: "32 word"
  sh_flags :: "64 word"
  sh_addr :: "64 word"
  sh_offset :: "64 word"
  sh_size :: "64 word"
  sh_link :: "32 word"
  sh_info :: "32 word"
  sh_addralign :: "64 word"
  sh_entsize :: "64 word"

text \<open>A dynamic entry: the tag as an \<^verbatim>\<open>int\<close>, its number, and the bytes of the number in memory.\<close>

record dyn =
  d_tag :: "32 word"
  d_val :: "64 word"
  d_data :: "byte list"

text \<open>\<open>n\<close> bytes at an offset of a structure, read as a word of the host.\<close>

definition at :: "bool \<Rightarrow> byte list \<Rightarrow> nat \<Rightarrow> nat \<Rightarrow> 'a::len word" where
  "at big bs off n = load big (take n (drop off bs))"

section \<open>The header\<close>

text \<open>\<^verbatim>\<open>e_shentsize\<close> is converted from \<^verbatim>\<open>e_phentsize\<close>, which already is.\<close>

definition ehdr32_of :: "bool \<Rightarrow> byte list \<Rightarrow> ehdr" where
  "ehdr32_of big bs =
     (let id = take 16 bs; half = elf_half big id; word = elf_word big id;
          phentsize = half (at big bs 42 2)
      in \<lparr>e_ident = id, e_type = half (at big bs 16 2), e_machine = half (at big bs 18 2),
          e_version = word (at big bs 20 4), e_entry = ucast (word (at big bs 24 4)),
          e_phoff = ucast (word (at big bs 28 4)), e_shoff = ucast (word (at big bs 32 4)),
          e_flags = word (at big bs 36 4), e_ehsize = half (at big bs 40 2), e_phentsize = phentsize,
          e_phnum = half (at big bs 44 2), e_shentsize = half phentsize,
          e_shnum = half (at big bs 48 2), e_shstrndx = half (at big bs 50 2)\<rparr>)"

definition ehdr64_of :: "bool \<Rightarrow> byte list \<Rightarrow> ehdr" where
  "ehdr64_of big bs =
     (let id = take 16 bs; half = elf_half big id; word = elf_word big id; xword = elf_xword big id;
          phentsize = half (at big bs 54 2)
      in \<lparr>e_ident = id, e_type = half (at big bs 16 2), e_machine = half (at big bs 18 2),
          e_version = word (at big bs 20 4), e_entry = xword (at big bs 24 8),
          e_phoff = xword (at big bs 32 8), e_shoff = xword (at big bs 40 8),
          e_flags = word (at big bs 48 4), e_ehsize = half (at big bs 52 2), e_phentsize = phentsize,
          e_phnum = half (at big bs 56 2), e_shentsize = half phentsize,
          e_shnum = half (at big bs 60 2), e_shstrndx = half (at big bs 62 2)\<rparr>)"

text \<open>\<open>rd\<close> is \<^verbatim>\<open>read\<close> of the 64 bytes of the larger structure.\<close>

definition elf_ehdr :: "bool \<Rightarrow> (nat \<Rightarrow> errno + byte list) \<Rightarrow> errno + ehdr" where
  "elf_ehdr big rd =
     (case rd 64 of
        Inl e \<Rightarrow> Inl e
      | Inr bs \<Rightarrow>
          if length bs < 64 then Inl EIO
          else if take 4 bs \<noteq> ELFMAG then Inl ENOEXEC
          else if bs ! EI_CLASS = ELFCLASS32 then Inr (ehdr32_of big bs)
          else if bs ! EI_CLASS = ELFCLASS64 then Inr (ehdr64_of big bs)
          else Inl ENOEXEC)"

text \<open>A descriptor; \<^verbatim>\<open>lseek\<close> to the start answers an error or nothing.\<close>

record elf_fd =
  f_num :: int
  f_seek :: "errno option"
  f_read :: "nat \<Rightarrow> errno + byte list"
  f_pread :: "nat \<Rightarrow> 64 word \<Rightarrow> errno + byte list"

definition felf_header :: "bool \<Rightarrow> elf_fd \<Rightarrow> errno + ehdr" where
  "felf_header big f =
     (if f_num f < 0 then Inl EINVAL
      else case f_seek f of Some e \<Rightarrow> Inl e | None \<Rightarrow> elf_ehdr big (f_read f))"

section \<open>Program headers, section headers, dynamic entries\<close>

text \<open>A read of exactly \<open>n\<close> bytes.\<close>

definition pread_all :: "(nat \<Rightarrow> 64 word \<Rightarrow> errno + byte list) \<Rightarrow> nat \<Rightarrow> 64 word \<Rightarrow> errno + byte list" where
  "pread_all pread n off =
     (case pread n off of Inl e \<Rightarrow> Inl e | Inr bs \<Rightarrow> if length bs < n then Inl EIO else Inr bs)"

definition phdr32_of :: "bool \<Rightarrow> byte list \<Rightarrow> byte list \<Rightarrow> phdr" where
  "phdr32_of big ident bs =
     (let word = elf_word big ident in
      \<lparr>p_type = word (at big bs 0 4), p_flags = word (at big bs 24 4),
       p_offset = ucast (word (at big bs 4 4)), p_vaddr = ucast (word (at big bs 8 4)),
       p_paddr = ucast (word (at big bs 12 4)), p_filesz = ucast (word (at big bs 16 4)),
       p_memsz = ucast (word (at big bs 20 4)), p_align = ucast (word (at big bs 28 4))\<rparr>)"

definition phdr64_of :: "bool \<Rightarrow> byte list \<Rightarrow> byte list \<Rightarrow> phdr" where
  "phdr64_of big ident bs =
     (let word = elf_word big ident; xword = elf_xword big ident in
      \<lparr>p_type = word (at big bs 0 4), p_flags = word (at big bs 4 4),
       p_offset = xword (at big bs 8 8), p_vaddr = xword (at big bs 16 8),
       p_paddr = xword (at big bs 24 8), p_filesz = xword (at big bs 32 8),
       p_memsz = xword (at big bs 40 8), p_align = xword (at big bs 48 8)\<rparr>)"

definition elf32_phdr where
  "elf32_phdr big ident pread off = map_sum id (phdr32_of big ident) (pread_all pread 32 off)"

definition elf64_phdr where
  "elf64_phdr big ident pread off = map_sum id (phdr64_of big ident) (pread_all pread 56 off)"

text \<open>The 32-bit section header leaves \<^verbatim>\<open>sh_info\<close> as it was read.\<close>

definition shdr32_of :: "bool \<Rightarrow> byte list \<Rightarrow> byte list \<Rightarrow> shdr" where
  "shdr32_of big ident bs =
     (let word = elf_word big ident in
      \<lparr>sh_name = word (at big bs 0 4), sh_type = word (at big bs 4 4),
       sh_flags = ucast (word (at big bs 8 4)), sh_addr = ucast (word (at big bs 12 4)),
       sh_offset = ucast (word (at big bs 16 4)), sh_size = ucast (word (at big bs 20 4)),
       sh_link = word (at big bs 24 4), sh_info = at big bs 28 4,
       sh_addralign = ucast (word (at big bs 32 4)), sh_entsize = ucast (word (at big bs 36 4))\<rparr>)"

definition shdr64_of :: "bool \<Rightarrow> byte list \<Rightarrow> byte list \<Rightarrow> shdr" where
  "shdr64_of big ident bs =
     (let word = elf_word big ident; xword = elf_xword big ident in
      \<lparr>sh_name = word (at big bs 0 4), sh_type = word (at big bs 4 4),
       sh_flags = xword (at big bs 8 8), sh_addr = xword (at big bs 16 8),
       sh_offset = xword (at big bs 24 8), sh_size = xword (at big bs 32 8),
       sh_link = word (at big bs 40 4), sh_info = word (at big bs 44 4),
       sh_addralign = xword (at big bs 48 8), sh_entsize = xword (at big bs 56 8)\<rparr>)"

definition elf32_shdr where
  "elf32_shdr big ident pread off = map_sum id (shdr32_of big ident) (pread_all pread 40 off)"

definition elf64_shdr where
  "elf64_shdr big ident pread off = map_sum id (shdr64_of big ident) (pread_all pread 64 off)"

text \<open>The entries of a dynamic table: \<open>conv\<close> converts an entry, swapped or not.\<close>

definition chunks :: "nat \<Rightarrow> byte list \<Rightarrow> byte list list" where
  "chunks n bs = map (\<lambda>i. take n (drop (i * n) bs)) [0..<length bs div n]"

definition dyn32_of :: "bool \<Rightarrow> bool \<Rightarrow> byte list \<Rightarrow> dyn" where
  "dyn32_of big sw bs =
     (let tag = at big bs 0 4; val = at big bs 4 4; raw = take 4 (drop 4 bs) in
      \<lparr>d_tag = (if sw then bswap32 tag else tag), d_val = ucast (if sw then bswap32 val else val),
       d_data = (if sw then rev raw else raw)\<rparr>)"

definition dyn64_of :: "bool \<Rightarrow> bool \<Rightarrow> byte list \<Rightarrow> dyn" where
  "dyn64_of big sw bs =
     (let tag = at big bs 0 8; val = at big bs 8 8; raw = take 8 (drop 8 bs) in
      \<lparr>d_tag = ucast (if sw then bswap64 tag else tag), d_val = (if sw then bswap64 val else val),
       d_data = (if sw then rev raw else raw)\<rparr>)"

text \<open>Only the first entry of the table is swapped.\<close>

fun dyn_table :: "(bool \<Rightarrow> byte list \<Rightarrow> dyn) \<Rightarrow> bool \<Rightarrow> byte list list \<Rightarrow> dyn list" where
  "dyn_table conv sw [] = []"
| "dyn_table conv sw (c # cs) = conv sw c # map (conv False) cs"

definition elf32_dyn where
  "elf32_dyn big ident pread dynsiz off =
     map_sum id (\<lambda>bs. dyn_table (dyn32_of big) (elf_swap big ident) (chunks 8 bs)) (pread_all pread dynsiz off)"

definition elf64_dyn where
  "elf64_dyn big ident pread dynsiz off =
     map_sum id (\<lambda>bs. dyn_table (dyn64_of big) (elf_swap big ident) (chunks 16 bs)) (pread_all pread dynsiz off)"

section \<open>The interpreter\<close>

definition PT_DYNAMIC :: "32 word" where "PT_DYNAMIC = 2"
definition PT_INTERP :: "32 word" where "PT_INTERP = 3"

text \<open>The loop over \<open>n\<close> program headers of \<open>sz\<close> bytes.\<close>

fun interp_walk ::
    "(64 word \<Rightarrow> errno + phdr) \<Rightarrow> 64 word \<Rightarrow> (nat \<Rightarrow> 64 word \<Rightarrow> errno + byte list) \<Rightarrow> nat \<Rightarrow> nat \<Rightarrow> 64 word
     \<Rightarrow> errno + byte list" where
  "interp_walk ph sz pread bufsiz 0 off = Inl ENOEXEC"
| "interp_walk ph sz pread bufsiz (Suc n) off =
     (case ph off of
        Inl e \<Rightarrow> Inl e
      | Inr p \<Rightarrow>
          if p_type p \<noteq> PT_INTERP then interp_walk ph sz pread bufsiz n (off + sz)
          else if bufsiz < unat (p_filesz p) then Inl EIO
          else pread_all pread (unat (p_filesz p)) (p_offset p))"

definition elf_interp32 where
  "elf_interp32 big f h bufsiz =
     interp_walk (elf32_phdr big (e_ident h) (f_pread f)) 32 (f_pread f) bufsiz (unat (e_phnum h)) (e_phoff h)"

definition elf_interp64 where
  "elf_interp64 big f h bufsiz =
     interp_walk (elf64_phdr big (e_ident h) (f_pread f)) 56 (f_pread f) bufsiz (unat (e_phnum h)) (e_phoff h)"

definition felf_interp :: "bool \<Rightarrow> elf_fd \<Rightarrow> nat \<Rightarrow> errno + byte list" where
  "felf_interp big f bufsiz =
     (case felf_header big f of
        Inl e \<Rightarrow> Inl e
      | Inr h \<Rightarrow>
          if e_ident h ! EI_CLASS = ELFCLASS32 then elf_interp32 big f h bufsiz
          else if e_ident h ! EI_CLASS = ELFCLASS64 then elf_interp64 big f h bufsiz
          else Inl ENOEXEC)"

text \<open>\<open>opn\<close> is \<^verbatim>\<open>next_open\<close>.\<close>

definition elf_interp :: "bool \<Rightarrow> (string \<Rightarrow> errno + elf_fd) \<Rightarrow> string \<Rightarrow> nat \<Rightarrow> errno + byte list" where
  "elf_interp big opn path bufsiz = (case opn path of Inl e \<Rightarrow> Inl e | Inr f \<Rightarrow> felf_interp big f bufsiz)"

section \<open>Iterating over dynamic entries\<close>

definition SHT_STRTAB :: "32 word" where "SHT_STRTAB = 3"

text \<open>Offset and size of the first string table, zeros when there is none.\<close>

fun find_strtab :: "(64 word \<Rightarrow> errno + shdr) \<Rightarrow> 64 word \<Rightarrow> nat \<Rightarrow> 64 word \<Rightarrow> errno + 64 word \<times> 64 word" where
  "find_strtab sh sz 0 off = Inr (0, 0)"
| "find_strtab sh sz (Suc n) off =
     (case sh off of
        Inl e \<Rightarrow> Inl e
      | Inr s \<Rightarrow> if sh_type s \<noteq> SHT_STRTAB then find_strtab sh sz n (off + sz) else Inr (sh_offset s, sh_size s))"

definition is_string_tag :: "32 word \<Rightarrow> bool" where
  "is_string_tag t \<longleftrightarrow> t = 1 \<or> t = 14 \<or> t = 15 \<or> t = 29"

text \<open>The label \<^verbatim>\<open>exit\<close>: \<^verbatim>\<open>errno\<close> counts when \<^verbatim>\<open>ret\<close> is \<open>-1\<close>.\<close>

definition leave :: "int \<Rightarrow> errno \<Rightarrow> 'u \<Rightarrow> (errno + int) \<times> 'u" where
  "leave ret e u = (if ret = -1 then Inl e else Inr ret, u)"

text \<open>
  The loop over the entries of one table: \<open>Inl\<close> jumps to \<^verbatim>\<open>exit\<close>, \<open>Inr\<close> falls through
  with the value of \<^verbatim>\<open>ret\<close>. A callback that does not answer zero ends this loop only.
\<close>

fun dyn_loop ::
    "(nat \<Rightarrow> 64 word \<Rightarrow> errno + byte list) \<Rightarrow> 32 word \<Rightarrow> 64 word \<Rightarrow> 64 word
     \<Rightarrow> (byte list \<Rightarrow> 'u \<Rightarrow> int \<times> 'u) \<Rightarrow> dyn list \<Rightarrow> int \<Rightarrow> 'u \<Rightarrow> ((errno + int) \<times> 'u) + (int \<times> 'u)" where
  "dyn_loop pread tag off siz cb [] ret u = Inr (ret, u)"
| "dyn_loop pread tag off siz cb (d # ds) ret u =
     (if d_tag d \<noteq> tag then dyn_loop pread tag off siz cb ds ret u
      else if \<not> is_string_tag tag then
        (case cb (d_data d) u of (r, u') \<Rightarrow>
           if r \<noteq> 0 then Inr (r, u') else dyn_loop pread tag off siz cb ds r u')
      else
        let n = min (unat (siz - d_val d)) BUFSIZ in
        (case pread n (off + d_val d) of
           Inl e \<Rightarrow> Inl (leave ret e u)
         | Inr bs \<Rightarrow>
             if length bs < n then Inl (Inl EIO, u)
             else (case cb bs u of (r, u') \<Rightarrow>
               if r \<noteq> 0 then Inr (r, u') else dyn_loop pread tag off siz cb ds r u')))"

fun dyn_walk ::
    "(64 word \<Rightarrow> errno + phdr) \<Rightarrow> 64 word \<Rightarrow> (nat \<Rightarrow> 64 word \<Rightarrow> errno + dyn list) \<Rightarrow> nat
     \<Rightarrow> (dyn list \<Rightarrow> int \<Rightarrow> 'u \<Rightarrow> ((errno + int) \<times> 'u) + (int \<times> 'u)) \<Rightarrow> nat \<Rightarrow> 64 word \<Rightarrow> int \<Rightarrow> 'u
     \<Rightarrow> (errno + int) \<times> 'u" where
  "dyn_walk ph sz table tablesiz loop 0 off ret u = (Inr 0, u)"
| "dyn_walk ph sz table tablesiz loop (Suc n) off ret u =
     (case ph off of
        Inl e \<Rightarrow> leave ret e u
      | Inr p \<Rightarrow>
          if p_type p \<noteq> PT_DYNAMIC then dyn_walk ph sz table tablesiz loop n (off + sz) ret u
          else if tablesiz < unat (p_filesz p) then (Inl EIO, u)
          else (case table (unat (p_filesz p)) (p_offset p) of
              Inl e \<Rightarrow> leave ret e u
            | Inr ds \<Rightarrow>
                (case loop ds ret u of
                   Inl res \<Rightarrow> res
                 | Inr (ret', u') \<Rightarrow> dyn_walk ph sz table tablesiz loop n (off + sz) ret' u')))"

text \<open>\<open>e\<close> is the \<^verbatim>\<open>errno\<close> of the caller, which is what a file without string table fails with.\<close>

definition elf_iterate_ehdr32 where
  "elf_iterate_ehdr32 big e f h tag cb u =
     (case find_strtab (elf32_shdr big (e_ident h) (f_pread f)) 40 (unat (e_shnum h)) (e_shoff h) of
        Inl e' \<Rightarrow> (Inl e', u)
      | Inr (off, siz) \<Rightarrow>
          if off = 0 then (Inl e, u)
          else dyn_walk (elf32_phdr big (e_ident h) (f_pread f)) 32 (elf32_dyn big (e_ident h) (f_pread f))
                 (1024 * 8) (dyn_loop (f_pread f) tag off siz cb) (unat (e_phnum h)) (e_phoff h) (-1) u)"

definition elf_iterate_ehdr64 where
  "elf_iterate_ehdr64 big e f h tag cb u =
     (case find_strtab (elf64_shdr big (e_ident h) (f_pread f)) 64 (unat (e_shnum h)) (e_shoff h) of
        Inl e' \<Rightarrow> (Inl e', u)
      | Inr (off, siz) \<Rightarrow>
          if off = 0 then (Inl e, u)
          else dyn_walk (elf64_phdr big (e_ident h) (f_pread f)) 56 (elf64_dyn big (e_ident h) (f_pread f))
                 (1024 * 16) (dyn_loop (f_pread f) tag off siz cb) (unat (e_phnum h)) (e_phoff h) (-1) u)"

definition ET_EXEC :: "16 word" where "ET_EXEC = 2"
definition ET_DYN :: "16 word" where "ET_DYN = 3"

definition elf_iterate_shared_object where
  "elf_iterate_shared_object big e f tag cb u =
     (case f_seek f of
        Some e' \<Rightarrow> (Inl e', u)
      | None \<Rightarrow>
          (case elf_ehdr big (f_read f) of
             Inl e' \<Rightarrow> (Inl e', u)
           | Inr h \<Rightarrow>
               if e_type h \<noteq> ET_EXEC \<and> e_type h \<noteq> ET_DYN then (Inl ENOEXEC, u)
               else if e_ident h ! EI_CLASS = ELFCLASS32 then elf_iterate_ehdr32 big e f h tag cb u
               else if e_ident h ! EI_CLASS = ELFCLASS64 then elf_iterate_ehdr64 big e f h tag cb u
               else (Inl ENOEXEC, u)))"

section \<open>A mapped file\<close>

definition elf_header :: "bool \<Rightarrow> byte list \<Rightarrow> nat \<Rightarrow> errno + ehdr" where
  "elf_header big mem addrsiz =
     (if addrsiz < 64 then Inl ERANGE
      else if take 4 mem \<noteq> ELFMAG then Inl ENOEXEC
      else if mem ! EI_CLASS = ELFCLASS32 then Inr (ehdr32_of big mem)
      else if mem ! EI_CLASS = ELFCLASS64 then Inr (ehdr64_of big mem)
      else Inl ENOTSUP)"

text \<open>
  The bound is checked with the sum of the offset and the size, which wraps; a read that the check lets
  through outside of the mapping is undefined.
\<close>

definition mapped :: "byte list \<Rightarrow> nat \<Rightarrow> nat \<Rightarrow> 64 word \<Rightarrow> byte list run" where
  "mapped mem addrsiz n off =
     (if addrsiz < unat (off + of_nat n) then Err ERANGE
      else if unat off + n \<le> length mem then Ret (take n (drop (unat off) mem))
      else Undef)"

definition elf32_program_header where
  "elf32_program_header big mem addrsiz ident off =
     run_bind (mapped mem addrsiz 32 off) (\<lambda>bs. Ret (phdr32_of big ident bs))"

definition elf64_program_header where
  "elf64_program_header big mem addrsiz ident off =
     run_bind (mapped mem addrsiz 56 off) (\<lambda>bs. Ret (phdr64_of big ident bs))"

text \<open>The callback gets the offset and the size of the segment, and answers \<^verbatim>\<open>errno\<close> or a number.\<close>

fun pt_walk ::
    "(64 word \<Rightarrow> phdr run) \<Rightarrow> 64 word \<Rightarrow> nat \<Rightarrow> 32 word \<Rightarrow> (64 word \<Rightarrow> 64 word \<Rightarrow> errno + int) \<Rightarrow> nat \<Rightarrow> 64 word
     \<Rightarrow> int run" where
  "pt_walk ph sz addrsiz ty cb 0 off = Err ENOENT"
| "pt_walk ph sz addrsiz ty cb (Suc n) off =
     run_bind (ph off) (\<lambda>p.
       if p_type p \<noteq> ty then pt_walk ph sz addrsiz ty cb n (off + sz)
       else if addrsiz < unat (p_offset p) then Err ERANGE
       else case cb (p_offset p) (p_filesz p) of
           Inl e \<Rightarrow> Err e
         | Inr r \<Rightarrow> if r = 0 then Ret r else pt_walk ph sz addrsiz ty cb n (off + sz))"

definition elf32_iterate_for_pt where
  "elf32_iterate_for_pt big mem addrsiz h ty cb =
     pt_walk (elf32_program_header big mem addrsiz (e_ident h)) 32 addrsiz ty cb (unat (e_phnum h)) (e_phoff h)"

definition elf64_iterate_for_pt where
  "elf64_iterate_for_pt big mem addrsiz h ty cb =
     pt_walk (elf64_program_header big mem addrsiz (e_ident h)) 56 addrsiz ty cb (unat (e_phnum h)) (e_phoff h)"

text \<open>\<open>fsize\<close> is the size \<^verbatim>\<open>next_fstat\<close> answers, \<open>mmap\<close> the mapping of so many bytes.\<close>

definition elf_iterate_shared_object_for_pt ::
    "bool \<Rightarrow> errno + nat \<Rightarrow> (nat \<Rightarrow> errno + byte list) \<Rightarrow> 32 word \<Rightarrow> (64 word \<Rightarrow> 64 word \<Rightarrow> errno + int) \<Rightarrow> int run" where
  "elf_iterate_shared_object_for_pt big fsize mmap ty cb =
     run_bind (of_sum fsize) (\<lambda>addrsiz.
       if addrsiz = 0 then Err ERANGE
       else run_bind (of_sum (mmap addrsiz)) (\<lambda>mem.
         run_bind (of_sum (elf_header big mem addrsiz)) (\<lambda>h.
           if e_type h \<noteq> ET_EXEC \<and> e_type h \<noteq> ET_DYN then Err ENOEXEC
           else if e_ident h ! EI_CLASS = ELFCLASS32 then elf32_iterate_for_pt big mem addrsiz h ty cb
           else if e_ident h ! EI_CLASS = ELFCLASS64 then elf64_iterate_for_pt big mem addrsiz h ty cb
           else Err ENOTSUP)))"

definition elf_has_interp :: "bool \<Rightarrow> errno + nat \<Rightarrow> (nat \<Rightarrow> errno + byte list) \<Rightarrow> bool run" where
  "elf_has_interp big fsize mmap =
     (case elf_iterate_shared_object_for_pt big fsize mmap PT_INTERP (\<lambda>_ _. Inr 0) of
        Err e \<Rightarrow> if e \<noteq> ENOENT then Err e else Ret False
      | Ret _ \<Rightarrow> Ret True
      | Undef \<Rightarrow> Undef
      | Diverge \<Rightarrow> Diverge)"

end
