(* ===== verification/Machine.thy ===== *)
theory Machine
  imports Elf Environ Numbers
begin

text \<open>
  What a program is built for (\<^verbatim>\<open>dso.c\<close>): the tests on the machine, class, byte order and
  system of an ELF header and on the name of its dynamic loader (\<open>ldso\<close>, with its number
  \<open>abi\<close>), and what is chosen from them: the names of environment variables, the library path of a
  multiarch system, the \<^verbatim>\<open>libiamroot.so\<close> to preload and the default library path. No caller
  passes a null header, so the header is a value. The constants are those of glibc's
  \<^verbatim>\<open>elf.h\<close>; \<open>PREFIX\<close> is a parameter.
\<close>

section \<open>The dynamic loader and the header\<close>

definition is_linux_ldso :: "string \<Rightarrow> bool" where "is_linux_ldso ldso \<longleftrightarrow> strneq ldso ''linux'' 5"
definition is_musl_ldso :: "string \<Rightarrow> bool" where "is_musl_ldso ldso \<longleftrightarrow> strneq ldso ''musl'' 4"
definition is_elf_ldso :: "string \<Rightarrow> bool" where "is_elf_ldso ldso \<longleftrightarrow> ldso = ''elf''"

definition is_32_bits :: "ehdr \<Rightarrow> bool" where "is_32_bits h \<longleftrightarrow> e_ident h ! EI_CLASS = ELFCLASS32"
definition is_64_bits :: "ehdr \<Rightarrow> bool" where "is_64_bits h \<longleftrightarrow> e_ident h ! EI_CLASS = ELFCLASS64"
definition is_x86 :: "ehdr \<Rightarrow> bool" where "is_x86 h \<longleftrightarrow> e_machine h = 3"
definition is_x86_64 :: "ehdr \<Rightarrow> bool" where "is_x86_64 h \<longleftrightarrow> e_machine h = 62"

definition is_arm :: "ehdr \<Rightarrow> bool" where
  "is_arm h \<longleftrightarrow> e_machine h = 40 \<and> and (e_flags h) 0x200 \<noteq> 0"

definition is_armhf :: "ehdr \<Rightarrow> bool" where
  "is_armhf h \<longleftrightarrow> e_machine h = 40 \<and> and (e_flags h) 0x400 \<noteq> 0"

definition is_aarch64 :: "ehdr \<Rightarrow> bool" where
  "is_aarch64 h \<longleftrightarrow> e_machine h = 183 \<and> e_ident h ! EI_DATA = 1"

definition is_aarch64_be :: "ehdr \<Rightarrow> bool" where
  "is_aarch64_be h \<longleftrightarrow> e_machine h = 183 \<and> e_ident h ! EI_DATA = 2"

definition is_riscv :: "ehdr \<Rightarrow> bool" where "is_riscv h \<longleftrightarrow> e_machine h = 243"

definition is_mipsle :: "ehdr \<Rightarrow> bool" where
  "is_mipsle h \<longleftrightarrow> e_machine h = 8 \<and> e_ident h ! EI_DATA = 1"

definition is_powerpc :: "ehdr \<Rightarrow> bool" where
  "is_powerpc h \<longleftrightarrow> e_machine h = 20 \<and> e_ident h ! EI_DATA = 2"

definition is_powerpc64 :: "ehdr \<Rightarrow> bool" where
  "is_powerpc64 h \<longleftrightarrow> e_machine h = 21 \<and> e_ident h ! EI_DATA = 2"

definition is_powerpc64le :: "ehdr \<Rightarrow> bool" where
  "is_powerpc64le h \<longleftrightarrow> e_machine h = 21 \<and> e_ident h ! EI_DATA = 1"

definition is_s390 :: "ehdr \<Rightarrow> bool" where "is_s390 h \<longleftrightarrow> e_machine h = 22"

definition EI_OSABI :: nat where "EI_OSABI = 7"

definition is_linux :: "ehdr \<Rightarrow> bool" where "is_linux h \<longleftrightarrow> e_ident h ! EI_OSABI = 3"

definition is_gnu_linux :: "ehdr \<Rightarrow> string \<Rightarrow> bool" where
  "is_gnu_linux h ldso \<longleftrightarrow> is_linux_ldso ldso \<or> is_linux h"

definition is_gnu_linux_ext :: "ehdr \<Rightarrow> string \<Rightarrow> int \<Rightarrow> bool" where
  "is_gnu_linux_ext h ldso abi \<longleftrightarrow>
     is_gnu_linux h ldso
     \<or> is_mipsle h \<and> ldso = [] \<and> abi = 1 \<and> is_32_bits h
     \<or> is_mipsle h \<and> ldso = [] \<and> abi = 1 \<and> is_64_bits h
     \<or> is_powerpc h \<and> ldso = [] \<and> abi = 1
     \<or> is_powerpc64 h \<and> ldso = [] \<and> abi = 2
     \<or> is_powerpc64le h \<and> ldso = [] \<and> abi = 2
     \<or> is_s390 h \<and> ldso = [] \<and> abi = 1"

definition is_musl :: "string \<Rightarrow> bool" where "is_musl ldso \<longleftrightarrow> is_musl_ldso ldso"

definition is_freebsd :: "ehdr \<Rightarrow> string \<Rightarrow> int \<Rightarrow> bool" where
  "is_freebsd h ldso abi \<longleftrightarrow> e_ident h ! EI_OSABI = 9 \<or> is_elf_ldso ldso \<and> abi = 1"

definition is_netbsd :: "ehdr \<Rightarrow> string \<Rightarrow> int \<Rightarrow> bool" where
  "is_netbsd h ldso abi \<longleftrightarrow> e_ident h ! EI_OSABI = 2 \<or> is_elf_ldso ldso \<and> abi = -1"

definition is_openbsd :: "ehdr \<Rightarrow> bool" where "is_openbsd h \<longleftrightarrow> e_ident h ! EI_OSABI = 12"

section \<open>Names\<close>

definition machine :: "ehdr \<Rightarrow> string \<Rightarrow> string option" where
  "machine h ldso =
     (if is_x86 h then (if is_gnu_linux h ldso \<or> is_musl ldso then Some ''i686'' else Some ''i386'')
      else if is_x86_64 h then Some ''x86_64''
      else if is_arm h then Some ''arm''
      else if is_armhf h then Some ''armhf''
      else if is_aarch64 h then Some ''aarch64''
      else if is_aarch64_be h then Some ''aarch64_be''
      else if is_riscv h then (if is_gnu_linux h ldso \<or> is_musl ldso then Some ''riscv64'' else Some ''riscv'')
      else if is_mipsle h \<and> is_32_bits h then Some ''mipsle''
      else if is_mipsle h \<and> is_64_bits h then Some ''mips64le''
      else if is_powerpc h then Some ''powerpc''
      else if is_powerpc64 h then Some ''powerpc64''
      else if is_powerpc64le h then Some ''powerpc64le''
      else if is_s390 h then Some ''s390x''
      else None)"

definition getmultiarch :: "env \<Rightarrow> bool" where
  "getmultiarch env \<longleftrightarrow>
     (ucast (strtol (case env_get ''IAMROOT_MULTIARCH'' env of None \<Rightarrow> ''0'' | Some s \<Rightarrow> s) 0) :: 32 word) \<noteq> 0"

definition multiarch :: "env \<Rightarrow> ehdr \<Rightarrow> string \<Rightarrow> int \<Rightarrow> string option" where
  "multiarch env h ldso abi =
     (if \<not> is_gnu_linux_ext h ldso abi \<or> \<not> getmultiarch env then None
      else if is_x86 h then Some ''/lib/i386-linux-gnu:/usr/lib/i386-linux-gnu:/lib:/usr/lib''
      else if is_x86_64 h then Some ''/lib/x86_64-linux-gnu:/usr/lib/x86_64-linux-gnu:/lib:/usr/lib''
      else if is_arm h then Some ''/lib/arm-linux-gnueabi:/usr/lib/arm-linux-gnueabi:/lib:/usr/lib''
      else if is_armhf h then Some ''/lib/arm-linux-gnueabihf:/usr/lib/arm-linux-gnueabihf:/lib:/usr/lib''
      else if is_aarch64 h then Some ''/lib/aarch64-linux-gnu:/usr/lib/aarch64-linux-gnu:/lib:/usr/lib''
      else if is_riscv h \<and> is_64_bits h
        then Some ''/lib/riscv64-linux-gnu:/usr/lib/riscv64-linux-gnu:/lib:/usr/lib''
      else if is_mipsle h \<and> is_32_bits h
        then Some ''/usr/lib/mipsel-linux-gnu:/lib/mipsel-linux-gnu:/usr/lib:/lib''
      else if is_mipsle h \<and> is_64_bits h
        then Some ''/usr/lib/mips64el-linux-gnuabi64:/lib/mips64el-linux-gnuabi64:/usr/lib:/lib''
      else if is_powerpc h then Some ''/usr/lib/powerpc-linux-gnu:/lib/powerpc-linux-gnu:/usr/lib:/lib''
      else if is_powerpc64 h then Some ''/usr/lib/powerpc64le-linux-gnu:/lib/powerpc64-linux-gnu:/usr/lib:/lib''
      else if is_powerpc64le h
        then Some ''/usr/lib/powerpc64le-linux-gnu:/lib/powerpc64le-linux-gnu:/usr/lib:/lib''
      else if is_s390 h then Some ''/usr/lib/s390x-linux-gnu:/lib/s390x-linux-gnu:/usr/lib:/lib''
      else None)"

definition env_sanitize :: "string \<Rightarrow> bool \<Rightarrow> string" where
  "env_sanitize name upper =
     map (\<lambda>c. if c = CHR ''-'' then CHR ''_'' else if upper then to_upper c else to_lower c) name"

definition underscore :: "string list \<Rightarrow> string" where "underscore = join_with (CHR ''_'')"

definition getvariable :: "ehdr \<Rightarrow> string \<Rightarrow> int \<Rightarrow> string \<Rightarrow> nat \<Rightarrow> errno + string" where
  "getvariable h ldso abi name bufsiz =
     map_sum id (\<lambda>buf. env_sanitize buf True)
       (snprintf (underscore
          (case machine h ldso of
             Some m \<Rightarrow>
               if ldso \<noteq> [] \<and> abi \<noteq> -1 then [name, m, ldso, show_int abi]
               else if ldso \<noteq> [] \<and> abi = -1 then [name, m, ldso]
               else if abi \<noteq> -1 then [name, m, show_int abi]
               else [name, m]
           | None \<Rightarrow>
               if ldso \<noteq> [] \<and> abi \<noteq> -1 then [name, ldso, show_int abi]
               else if ldso \<noteq> [] \<and> abi = -1 then [name, ldso]
               else if abi \<noteq> -1 then [name, show_int abi]
               else [name])) bufsiz)"

section \<open>The library to preload\<close>

text \<open>\<open>acc file path\<close> is \<^verbatim>\<open>__host_path_access\<close> into the room that is left in the buffer.\<close>

definition libiamroot_file :: "ehdr \<Rightarrow> string \<Rightarrow> int \<Rightarrow> string \<Rightarrow> string" where
  "libiamroot_file h ldso abi m =
     (if ldso = [] \<and> abi = -1 then m @ ''/libiamroot.so''
      else if ldso = [] \<and> abi \<noteq> -1 then m @ ''/libiamroot.so.'' @ show_int abi
      else if ldso \<noteq> [] \<and> abi = -1 then m @ ''/libiamroot.elf_so''
      else m @ ''/libiamroot-'' @ ldso @ ''.so.'' @ show_int abi)"

definition libiamroot_access ::
    "(string \<Rightarrow> string \<Rightarrow> errno + string) \<Rightarrow> ehdr \<Rightarrow> string \<Rightarrow> int \<Rightarrow> string \<Rightarrow> errno + string" where
  "libiamroot_access acc h ldso abi path =
     (case machine h ldso of
        None \<Rightarrow> acc ''libiamroot.so'' path
      | Some m \<Rightarrow>
          (case snprintf (libiamroot_file h ldso abi m) (PATH_MAX - 1) of
             Inl e \<Rightarrow> Inl e
           | Inr file \<Rightarrow>
               (case acc file path of Inr b \<Rightarrow> Inr b | Inl _ \<Rightarrow> acc ''libiamroot.so'' path)))"

text \<open>The path by architecture and system, below \<^verbatim>\<open>PREFIX/lib/iamroot\<close>.\<close>

definition linux_lib :: "ehdr \<Rightarrow> string \<Rightarrow> int \<Rightarrow> string option" where
  "linux_lib h ldso abi =
     (if \<not> is_gnu_linux h ldso then None
      else if is_x86 h \<or> ldso = ''linux'' \<and> abi = 2 then Some ''i686/libiamroot-linux.so.2''
      else if is_x86_64 h \<or> ldso = ''linux-x86-64'' \<and> abi = 2 then Some ''x86_64/libiamroot-linux-x86-64.so.2''
      else if is_arm h \<or> ldso = ''linux'' \<and> abi = 3 then Some ''arm/libiamroot-linux.so.3''
      else if is_armhf h \<or> ldso = ''linux-armhf'' \<and> abi = 3 then Some ''armhf/libiamroot-linux-armhf.so.3''
      else if is_aarch64 h \<or> ldso = ''linux-aarch64'' \<and> abi = 1
        then Some ''aarch64/libiamroot-linux-aarch64.so.1''
      else if is_aarch64_be h \<or> ldso = ''linux-aarch64_be'' \<and> abi = 1
        then Some ''aarch64_be/libiamroot-linux-aarch64_be.so.1''
      else if is_riscv h \<and> is_64_bits h \<or> ldso = ''linux-riscv64-lp64d'' \<and> abi = 1
        then Some ''riscv64/libiamroot-linux-riscv64-lp64d.so.1''
      else None)"

definition plain_lib :: "ehdr \<Rightarrow> string \<Rightarrow> int \<Rightarrow> string option" where
  "plain_lib h ldso abi =
     (if is_mipsle h \<and> ldso = [] \<and> abi = 1 \<and> is_32_bits h then Some ''mipsle/libiamroot.so.1''
      else if is_mipsle h \<and> ldso = [] \<and> abi = 1 \<and> is_64_bits h then Some ''mips64le/libiamroot.so.1''
      else if is_powerpc h \<and> ldso = [] \<and> abi = 1 then Some ''powerpc/libiamroot.so.1''
      else if is_powerpc64 h \<and> ldso = [] \<and> abi = 2 then Some ''powerpc64/libiamroot.so.2''
      else if is_powerpc64le h \<and> ldso = [] \<and> abi = 2 then Some ''powerpc64le/libiamroot.so.2''
      else if is_s390 h \<and> ldso = [] \<and> abi = 1 then Some ''s390x/libiamroot.so.1''
      else None)"

definition musl_lib :: "ehdr \<Rightarrow> string \<Rightarrow> int \<Rightarrow> string option" where
  "musl_lib h ldso abi =
     (if \<not> is_musl ldso then None
      else if is_x86 h \<or> ldso = ''musl-i386'' \<and> abi = 1 then Some ''i686/libiamroot-musl-i386.so.1''
      else if is_x86_64 h \<or> ldso = ''musl-x86_64'' \<and> abi = 1 then Some ''x86_64/libiamroot-musl-x86_64.so.1''
      else if is_arm h \<or> ldso = ''musl-arm'' \<and> abi = 1 then Some ''arm/libiamroot-musl-arm.so.1''
      else if is_armhf h \<or> ldso = ''musl-armhf'' \<and> abi = 1 then Some ''armhf/libiamroot-musl-armhf.so.1''
      else if is_aarch64 h \<or> ldso = ''musl-aarch64'' \<and> abi = 1
        then Some ''aarch64/libiamroot-musl-aarch64.so.1''
      else if is_aarch64 h \<or> ldso = ''musl-aarch64_be'' \<and> abi = 1
        then Some ''aarch64_be/libiamroot-musl-aarch64_be.so.1''
      else if is_riscv h \<and> is_64_bits h \<or> ldso = ''musl-riscv64'' \<and> abi = 1
        then Some ''riscv64/libiamroot-musl-riscv64.so.1''
      else if is_mipsle h \<and> is_32_bits h \<and> ldso = ''musl-mipsel'' \<and> abi = 1
        then Some ''mipsle/libiamroot-musl-mipsel.so.1''
      else if is_mipsle h \<and> is_64_bits h \<and> ldso = ''musl-mips64el'' \<and> abi = 1
        then Some ''mips64le/libiamroot-musl-mips64el.so.1''
      else if is_powerpc h \<and> ldso = ''musl-powerpc'' \<and> abi = 1
        then Some ''powerpc/libiamroot-musl-powerpc.so.1''
      else if is_powerpc64 h \<and> ldso = ''musl-powerpc64'' \<and> abi = 1
        then Some ''powerpc64/libiamroot-musl-powerpc64.so.1''
      else if is_powerpc64le h \<and> ldso = ''musl-powerpc64le'' \<and> abi = 1
        then Some ''powerpc64le/libiamroot-musl-powerpc64le.so.1''
      else if is_s390 h \<and> ldso = ''musl-s390x'' \<and> abi = 1
        then Some ''s390x/libiamroot-musl-s390x.so.1''
      else None)"

definition bsd_lib :: "ehdr \<Rightarrow> string \<Rightarrow> int \<Rightarrow> string option" where
  "bsd_lib h ldso abi =
     (if is_freebsd h ldso abi \<and> is_x86_64 h then Some ''amd64/libiamroot-elf.so.1''
      else if is_freebsd h ldso abi \<and> is_aarch64 h then Some ''arm64/libiamroot-elf.so.1''
      else if is_netbsd h ldso abi \<and> is_x86_64 h then Some ''amd64/libiamroot.elf_so''
      else if is_netbsd h ldso abi \<and> is_aarch64 h then Some ''arm64/libiamroot.elf_so''
      else None)"

definition builtin_lib :: "string \<Rightarrow> ehdr \<Rightarrow> string \<Rightarrow> int \<Rightarrow> string" where
  "builtin_lib pre h ldso abi =
     pre @ ''/lib/iamroot/'' @
     (case linux_lib h ldso abi of Some l \<Rightarrow> l
      | None \<Rightarrow> (case plain_lib h ldso abi of Some l \<Rightarrow> l
      | None \<Rightarrow> (case musl_lib h ldso abi of Some l \<Rightarrow> l
      | None \<Rightarrow> (case bsd_lib h ldso abi of Some l \<Rightarrow> l
      | None \<Rightarrow> ''libiamroot.so''))))"

text \<open>
  \<^verbatim>\<open>__getlibiamroot\<close>: \<open>room\<close> is what is left of the buffer, \<open>executable\<close> is
  \<^verbatim>\<open>next_faccessat\<close> with \<^verbatim>\<open>X_OK\<close>. The answer is the text behind the offset.
\<close>

definition found :: "errno + string \<Rightarrow> string option" where
  "found r = (case r of Inl _ \<Rightarrow> None | Inr b \<Rightarrow> if b = [] then None else Some b)"

definition getlibiamroot ::
    "string \<Rightarrow> (string \<Rightarrow> string \<Rightarrow> errno + string) \<Rightarrow> (string \<Rightarrow> bool) \<Rightarrow> env \<Rightarrow> ehdr \<Rightarrow> string \<Rightarrow> int \<Rightarrow> nat
     \<Rightarrow> errno + string" where
  "getlibiamroot pre acc executable env h ldso abi room =
     (case getvariable h ldso abi ''IAMROOT_LIB'' PATH_MAX of
        Inl e \<Rightarrow> Inl e
      | Inr var \<Rightarrow>
        let lib = (case env_get var env of
            Some l \<Rightarrow> l
          | None \<Rightarrow>
            (case (case env_get ''IAMROOT_ORIGIN'' env of None \<Rightarrow> None
                   | Some origin \<Rightarrow> found (libiamroot_access acc h ldso abi origin)) of
               Some l \<Rightarrow> l
             | None \<Rightarrow>
               (case found (libiamroot_access acc h ldso abi (pre @ ''/lib/iamroot'')) of
                  Some l \<Rightarrow> l
                | None \<Rightarrow>
                  if executable (builtin_lib pre h ldso abi) then builtin_lib pre h ldso abi
                  else (case env_get ''IAMROOT_LIB'' env of
                      Some l \<Rightarrow> l | None \<Rightarrow> pre @ ''/lib/iamroot/libiamroot.so''))))
        in Inr (strncpy_buf lib room))"

section \<open>The default library path\<close>

definition getdeflib :: "env \<Rightarrow> ehdr \<Rightarrow> string \<Rightarrow> int \<Rightarrow> errno + string" where
  "getdeflib env h ldso abi =
     (case multiarch env h ldso abi of
        Some r \<Rightarrow> Inr r
      | None \<Rightarrow>
        (case getvariable h ldso abi ''IAMROOT_DEFLIB'' NAME_MAX of
           Inl e \<Rightarrow> Inl e
         | Inr var \<Rightarrow>
           (case env_get var env of
              Some r \<Rightarrow> Inr r
            | None \<Rightarrow>
              (case env_get ''IAMROOT_DEFLIB'' env of
                 Some r \<Rightarrow> Inr r
               | None \<Rightarrow>
                 if is_gnu_linux h ldso then
                   (if is_64_bits h then Inr ''/lib64:/usr/lib64'' else Inr ''/lib:/usr/lib'')
                 else if is_netbsd h ldso abi then Inr ''/lib:/usr/pkg/lib:/usr/lib''
                 else Inr ''/lib:/usr/local/lib:/usr/lib''))))"

definition getinhibit_rpath :: "env \<Rightarrow> string" where
  "getinhibit_rpath env = (case env_get ''IAMROOT_INHIBIT_RPATH'' env of None \<Rightarrow> [] | Some s \<Rightarrow> s)"

end
