(* ===== verification/Dso_Info.thy ===== *)
theory Dso_Info
  imports Machine Ident
begin

text \<open>
  What \<^verbatim>\<open>dso.c\<close> learns from a shared object: the libraries it needs, its paths and flags, the
  name and number of its dynamic loader, the default library path, and the library path of an
  executable. Files, the search of a library along a path and the executable's name are fields of
  \<open>dso\<close>. The strings of a file are taken up to their terminator.
\<close>

section \<open>Parameters\<close>

text \<open>
  \<open>w_errno\<close> is what \<^verbatim>\<open>errno\<close> holds when a reader of dynamic entries starts,
  \<open>w_access\<close> is \<^verbatim>\<open>__path_access\<close> with \<^verbatim>\<open>F_OK\<close>.
\<close>

record dso =
  w_big :: bool
  w_errno :: errno
  w_open :: "string \<Rightarrow> errno + elf_fd"
  w_access :: "string \<Rightarrow> string option \<Rightarrow> nat \<Rightarrow> string run"
  w_execfn :: "string option"

definition c_string :: "byte list \<Rightarrow> string" where
  "c_string bs = map (\<lambda>b. char_of (unat b)) (takeWhile (\<lambda>b. b \<noteq> 0) bs)"

section \<open>Lists of paths\<close>

definition path_strncat :: "string \<Rightarrow> string option \<Rightarrow> nat \<Rightarrow> errno + string" where
  "path_strncat dst src dstsiz =
     (case src of
        None \<Rightarrow> Inl EINVAL
      | Some s \<Rightarrow>
          if dstsiz - length dst - 1 < (if dst \<noteq> [] then length s + 1 else length s) then Inl ENOSPC
          else Inr (dst @ (if dst \<noteq> [] \<and> s \<noteq> [] then [colon] else []) @ s))"

section \<open>Dynamic entries\<close>

definition DT_NEEDED :: "32 word" where "DT_NEEDED = 1"
definition DT_RPATH :: "32 word" where "DT_RPATH = 15"
definition DT_RUNPATH :: "32 word" where "DT_RUNPATH = 29"
definition DT_FLAGS_1 :: "32 word" where "DT_FLAGS_1 = 0x6ffffffb"

text \<open>The flags are the first four bytes of the number.\<close>

definition flags_callback :: "bool \<Rightarrow> byte list \<Rightarrow> 32 word \<Rightarrow> int \<times> 32 word" where
  "flags_callback big data f = (0, load big (take 4 data))"

definition path_callback :: "byte list \<Rightarrow> string \<Rightarrow> int \<times> string" where
  "path_callback data p =
     (case path_strncat p (Some (c_string data)) PATH_MAX of Inl _ \<Rightarrow> (-1, p) | Inr p' \<Rightarrow> (0, p'))"

definition felf_path :: "dso \<Rightarrow> elf_fd \<Rightarrow> 32 word \<Rightarrow> errno + string" where
  "felf_path w f tag =
     (case elf_iterate_shared_object (w_big w) (w_errno w) f tag path_callback [] of
        (Inl e, _) \<Rightarrow> Inl e | (Inr _, p) \<Rightarrow> Inr p)"

definition felf_needed :: "dso \<Rightarrow> elf_fd \<Rightarrow> errno + string" where "felf_needed w f = felf_path w f DT_NEEDED"
definition felf_rpath :: "dso \<Rightarrow> elf_fd \<Rightarrow> errno + string" where "felf_rpath w f = felf_path w f DT_RPATH"
definition felf_runpath :: "dso \<Rightarrow> elf_fd \<Rightarrow> errno + string" where "felf_runpath w f = felf_path w f DT_RUNPATH"

definition elf_needed :: "dso \<Rightarrow> string \<Rightarrow> errno + string" where
  "elf_needed w path = (case w_open w path of Inl e \<Rightarrow> Inl e | Inr f \<Rightarrow> felf_needed w f)"

definition felf_flags_1 :: "dso \<Rightarrow> elf_fd \<Rightarrow> errno + 32 word" where
  "felf_flags_1 w f =
     (case elf_iterate_shared_object (w_big w) (w_errno w) f DT_FLAGS_1 (flags_callback (w_big w)) 0 of
        (Inl e, _) \<Rightarrow> Inl e | (Inr _, u) \<Rightarrow> Inr u)"

definition DF_1_NODEFLIB :: "32 word" where "DF_1_NODEFLIB = 0x800"

definition nodeflib :: "32 word \<Rightarrow> bool" where "nodeflib flags \<longleftrightarrow> and flags DF_1_NODEFLIB \<noteq> 0"

text \<open>The count of dollars: no text starts with a name both in braces and without.\<close>

fun count_tokens :: "string \<Rightarrow> nat \<Rightarrow> nat" where
  "count_tokens [] n = n"
| "count_tokens (c # s) n =
     (if c \<noteq> CHR ''$'' then count_tokens s n
      else if strneq (c # s) ''$ORIGIN'' 7 \<and> strneq (c # s) ''${ORIGIN}'' 9 then 1
      else if strneq (c # s) ''$LIB'' 4 \<and> strneq (c # s) ''${LIB}'' 6 then 1
      else if strneq (c # s) ''$PLATFORM'' 9 \<and> strneq (c # s) ''${PLATFORM}'' 11 then 1
      else count_tokens s (n + 1))"

definition variable_has_dynamic_string_tokens :: "string \<Rightarrow> nat" where
  "variable_has_dynamic_string_tokens value = count_tokens value 0"

section \<open>The dynamic loader\<close>

definition scan_ldso :: "string \<Rightarrow> string \<Rightarrow> int option" where
  "scan_ldso lit name = (case scan_text lit name of None \<Rightarrow> None | Some r \<Rightarrow> map_option fst (scan_int r))"

text \<open>A class of \<^verbatim>\<open>sscanf\<close>: at least one character other than \<open>c\<close>, at most \<open>n\<close>.\<close>

definition scan_until :: "char \<Rightarrow> nat \<Rightarrow> string \<Rightarrow> (string \<times> string) option" where
  "scan_until c n s =
     (let t = takeWhile (\<lambda>x. x \<noteq> c) (take n s) in if t = [] then None else Some (t, drop (length t) s))"

definition ld_ldso_abi :: "string \<Rightarrow> errno + string \<times> int" where
  "ld_ldso_abi path =
     (let name = basename path in
      if name = ''ld.so'' then Inr ([], -1)
      else case scan_ldso ''ld.so.'' name of
        Some abi \<Rightarrow> Inr ([], abi)
      | None \<Rightarrow>
        (case scan_ldso ''ld64.so.'' name of
           Some abi \<Rightarrow> Inr ([], abi)
         | None \<Rightarrow>
           (case Option.bind (scan_text ''ld.'' name) (scan_until (CHR ''_'') NAME_MAX) of
              Some (ldso, _) \<Rightarrow> Inr (ldso, -1)
            | None \<Rightarrow>
              (case Option.bind (scan_text ''ld-'' name) (scan_until (CHR ''.'') NAME_MAX) of
                 Some (ldso, r) \<Rightarrow>
                   (case scan_ldso ''.so.'' r of Some abi \<Rightarrow> Inr (ldso, abi) | None \<Rightarrow> Inl ENOTSUP)
               | None \<Rightarrow> Inl ENOTSUP))))"

definition felf_interp_ldso_abi :: "dso \<Rightarrow> elf_fd \<Rightarrow> nat \<Rightarrow> errno + ehdr \<times> string \<times> string \<times> int" where
  "felf_interp_ldso_abi w f interpsiz =
     (case felf_header (w_big w) f of
        Inl e \<Rightarrow> Inl e
      | Inr h \<Rightarrow>
        (case felf_interp (w_big w) f interpsiz of
           Inl e \<Rightarrow> Inl e
         | Inr [] \<Rightarrow> Inl E_OK
         | Inr (b # bs) \<Rightarrow>
           (case ld_ldso_abi (c_string (b # bs)) of
              Inl e \<Rightarrow> Inl e | Inr (ldso, abi) \<Rightarrow> Inr (h, c_string (b # bs), ldso, abi))))"

definition elf_interp_ldso_abi :: "dso \<Rightarrow> string \<Rightarrow> nat \<Rightarrow> errno + ehdr \<times> string \<times> string \<times> int" where
  "elf_interp_ldso_abi w path interpsiz =
     (case w_open w path of Inl e \<Rightarrow> Inl e | Inr f \<Rightarrow> felf_interp_ldso_abi w f interpsiz)"

section \<open>The default library path of a shared object\<close>

definition has_needed :: "dso \<Rightarrow> elf_fd \<Rightarrow> string \<Rightarrow> errno + int" where
  "has_needed w f filename =
     map_sum id (\<lambda>needed. fst (path_iterate (Some needed) (\<lambda>tok u. (if strleq tok filename then 1 else 0, u)) ()))
       (felf_needed w f)"

definition getld_linux_so_callback :: "string \<Rightarrow> string \<Rightarrow> int \<times> string" where
  "getld_linux_so_callback needed interp =
     (if \<not> strneq needed ''ld-linux'' 8 then (0, interp) else (1, strncpy_buf needed NAME_MAX))"

definition getld_linux_so :: "dso \<Rightarrow> elf_fd \<Rightarrow> string run" where
  "getld_linux_so w f =
     run_bind (of_sum (has_needed w f ''libc.so.6'')) (\<lambda>err.
       if err = 0 then Err ENOENT
       else run_bind (of_sum (felf_needed w f)) (\<lambda>needed.
         run_bind (w_access w ''libc.so.6'' (Some ''/lib:/lib64'') PATH_MAX) (\<lambda>_.
           case path_iterate (Some needed) getld_linux_so_callback [] of
             (r, interp) \<Rightarrow> if r = 0 then Err ENOENT else Ret interp)))"

text \<open>The three places where the dynamic loader is looked for: an attempt that fails with the awaited error goes on.\<close>

definition or_else :: "errno \<Rightarrow> string run \<Rightarrow> (errno + string) \<Rightarrow> (errno + string) run" where
  "or_else e next r =
     (case r of
        Inr s \<Rightarrow> Ret (Inr s)
      | Inl e' \<Rightarrow>
          if e' \<noteq> e then Ret (Inl e')
          else (case next of
              Ret s \<Rightarrow> Ret (Inr s)
            | Err e'' \<Rightarrow> if e'' \<noteq> ENOENT then Err e'' else Ret (Inl ENOENT)
            | Undef \<Rightarrow> Undef
            | Diverge \<Rightarrow> Diverge))"

definition EFAULT :: errno where "EFAULT = EOTHER 14"

definition felf_deflib :: "dso \<Rightarrow> env \<Rightarrow> elf_fd \<Rightarrow> nat \<Rightarrow> string run" where
  "felf_deflib w env f room =
     run_bind (of_sum (felf_header (w_big w) f)) (\<lambda>h.
       run_bind (or_else ENOEXEC (getld_linux_so w f)
                  (map_sum id c_string (felf_interp (w_big w) f NAME_MAX))) (\<lambda>r1.
         run_bind (or_else ENOENT
                    (case w_execfn w of
                       None \<Rightarrow> Err EFAULT
                     | Some path \<Rightarrow> of_sum (map_sum id c_string (elf_interp (w_big w) (w_open w) path NAME_MAX)))
                    r1) (\<lambda>r2.
           run_bind (case r2 of
                Inl _ \<Rightarrow> Ret ([], 0)
              | Inr s \<Rightarrow> if s = [] then Ret ([], 0) else of_sum (ld_ldso_abi s)) (\<lambda>(ldso, abi).
             run_bind (of_sum (getdeflib env h ldso abi)) (\<lambda>deflib. Ret (strncpy_buf deflib room))))))"

section \<open>The library path\<close>

text \<open>What the program made of \<^verbatim>\<open>LD_LIBRARY_PATH\<close>, given the value it started with.\<close>

definition getld_library_path :: "env \<Rightarrow> nat \<Rightarrow> string" where
  "getld_library_path env room =
     (case env_get ''LD_LIBRARY_PATH'' env of
        None \<Rightarrow> []
      | Some now \<Rightarrow>
        (case env_get ''ld_library_path'' env of
           None \<Rightarrow> strncpy_buf now room
         | Some before \<Rightarrow>
             if now = before then []
             else if \<not> sublist before now then strncpy_buf now room
             else if prefix before now then
               (let len = strlen_max before;
                    s = (if starts_with (drop len now) colon then drop 1 now else now)
                in strncpy_buf (drop len s) room)
             else strncpy_buf now room))"

text \<open>An error of the user or grp numbers counts as secure.\<close>

definition secure_execution_mode :: "env \<Rightarrow> bool" where
  "secure_execution_mode env =
     (case (getresuid env True True True, getresgid env True True True) of
        (Some (ruid, euid, _), Some (rgid, egid, _)) \<Rightarrow> ruid \<noteq> euid \<or> rgid \<noteq> egid
      | _ \<Rightarrow> True)"

definition fld_lib_path :: "dso \<Rightarrow> env \<Rightarrow> elf_fd \<Rightarrow> nat \<Rightarrow> string run" where
  "fld_lib_path w env f room =
     run_bind (of_sum (felf_flags_1 w f)) (\<lambda>flags.
       run_bind (if nodeflib flags then Ret []
                 else run_bind (felf_deflib w env f PATH_MAX) (\<lambda>tmp. of_sum (path_strncat [] (Some tmp) room))) (\<lambda>b1.
         run_bind (of_sum (felf_runpath w f)) (\<lambda>runpath.
           run_bind (if runpath = [] then Ret b1 else of_sum (path_strncat b1 (Some runpath) room)) (\<lambda>b2.
             run_bind (if secure_execution_mode env then Ret b2
                       else of_sum (path_strncat b2 (Some (getld_library_path env PATH_MAX)) room)) (\<lambda>b3.
               if runpath \<noteq> [] then Ret b3
               else run_bind (of_sum (felf_rpath w f)) (\<lambda>rpath. of_sum (path_strncat b3 (Some rpath) room)))))))"

definition ld_lib_path :: "dso \<Rightarrow> env \<Rightarrow> string \<Rightarrow> nat \<Rightarrow> string run" where
  "ld_lib_path w env path room =
     run_bind (of_sum (w_open w path)) (\<lambda>f. fld_lib_path w env f room)"

text \<open>The state of the callback is the list, and \<^verbatim>\<open>errno\<close> when it fails.\<close>

definition ldso_library_path_callback :: "string \<Rightarrow> nat \<Rightarrow> string \<Rightarrow> string \<times> errno \<Rightarrow> int \<times> string \<times> errno" where
  "ldso_library_path_callback root room path st =
     (case st of (p, e) \<Rightarrow>
        case snprintf (root @ path) PATH_MAX of
          Inl e' \<Rightarrow> (-1, p, e')
        | Inr buf \<Rightarrow>
            (case path_strncat p (Some buf) room of Inl e' \<Rightarrow> (-1, p, e') | Inr p' \<Rightarrow> (0, p', e)))"

definition ld_library_path :: "dso \<Rightarrow> env \<Rightarrow> string \<Rightarrow> nat \<Rightarrow> string run" where
  "ld_library_path w env path room =
     run_bind (ld_lib_path w env path PATH_MAX) (\<lambda>lib_path.
       case path_iterate (Some lib_path) (ldso_library_path_callback (getrootdir env) room) ([], E_OK) of
         (r, p, e) \<Rightarrow> if r = -1 then Err e else Ret p)"

definition inhibit_rpath :: "env \<Rightarrow> nat \<Rightarrow> string" where
  "inhibit_rpath env room = strncpy_buf (getinhibit_rpath env) room"

section \<open>The context of a shared object\<close>

record so_context =
  c_rpath :: "string option"
  c_ld_library_path :: "string option"
  c_runpath :: "string option"
  c_deflib :: "string option"
  c_flags_1 :: "32 word"

definition nonempty :: "string \<Rightarrow> string option" where
  "nonempty s = (if s = [] then None else Some s)"

definition felf_so_context :: "dso \<Rightarrow> env \<Rightarrow> elf_fd \<Rightarrow> nat \<Rightarrow> so_context run" where
  "felf_so_context w env f room =
     (if f_num f < 0 then Err EINVAL
      else run_bind (of_sum (felf_runpath w f)) (\<lambda>runpath.
        run_bind (if runpath = [] then of_sum (felf_rpath w f) else Ret []) (\<lambda>rpath.
          let off = (if runpath = [] then 0 else length runpath + 1) + (if rpath = [] then 0 else length rpath + 1);
              llp = (if secure_execution_mode env then [] else getld_library_path env (room - off));
              off' = off + (if llp = [] then 0 else length llp + 1)
          in run_bind (felf_deflib w env f (room - off')) (\<lambda>deflib.
               run_bind (of_sum (felf_flags_1 w f)) (\<lambda>flags.
                 Ret \<lparr>c_rpath = nonempty rpath, c_ld_library_path = nonempty llp, c_runpath = nonempty runpath,
                      c_deflib = nonempty deflib, c_flags_1 = flags\<rparr>)))))"

definition elf_so_context :: "dso \<Rightarrow> env \<Rightarrow> string \<Rightarrow> nat \<Rightarrow> so_context run" where
  "elf_so_context w env path room =
     run_bind (of_sum (w_open w path)) (\<lambda>f. felf_so_context w env f room)"

end
