(* ===== verification/Ld_Cache.thy ===== *)
theory Ld_Cache
  imports Dso_Info
begin

text \<open>
  \<^verbatim>\<open>ldso-cache.c\<close>: the lookup of a library in \<^verbatim>\<open>/etc/ld.so.cache\<close>. The mapped file is a
  parameter; what the code reads behind its end is undefined. The extensions of the format are not
  used by the code.
\<close>

section \<open>The lookup\<close>

text \<open>\<^verbatim>\<open>ld.so-1.7.0\<close> and \<^verbatim>\<open>glibc-ld.so.cache1.1\<close>.\<close>

definition CACHEMAGIC :: "byte list" where
  "CACHEMAGIC = [0x6c, 0x64, 0x2e, 0x73, 0x6f, 0x2d, 0x31, 0x2e, 0x37, 0x2e, 0x30]"

definition CACHEMAGIC_VERSION_NEW :: "byte list" where
  "CACHEMAGIC_VERSION_NEW =
     [0x67, 0x6c, 0x69, 0x62, 0x63, 0x2d, 0x6c, 0x64, 0x2e, 0x73, 0x6f, 0x2e, 0x63, 0x61, 0x63, 0x68, 0x65,
      0x31, 0x2e, 0x31]"

definition get32 :: "bool \<Rightarrow> byte list \<Rightarrow> nat \<Rightarrow> nat run" where
  "get32 big mem off =
     (if off + 4 \<le> length mem then Ret (unat (at big mem off 4 :: 32 word)) else Undef)"

definition get_string :: "byte list \<Rightarrow> nat \<Rightarrow> string run" where
  "get_string mem off = (if 0 \<in> set (drop off mem) then Ret (c_string (drop off mem)) else Undef)"

text \<open>The start of the new format: behind the entries of the old one when the file has it.\<close>

definition cache_new :: "bool \<Rightarrow> byte list \<Rightarrow> nat run" where
  "cache_new big mem =
     (if take 11 mem = CACHEMAGIC then run_bind (get32 big mem 12) (\<lambda>nlibs. Ret (16 + 12 * nlibs)) else Ret 0)"

text \<open>The path of an entry: its \<^verbatim>\<open>value\<close> is an offset from the start of the new format.\<close>

definition entry_path :: "bool \<Rightarrow> byte list \<Rightarrow> nat \<Rightarrow> nat \<Rightarrow> string run" where
  "entry_path big mem base i =
     run_bind (get32 big mem (base + 48 + 24 * i + 8)) (\<lambda>value. get_string mem (base + value))"

fun cache_loop :: "(nat \<Rightarrow> string run) \<Rightarrow> string \<Rightarrow> string \<Rightarrow> nat \<Rightarrow> nat \<Rightarrow> nat \<Rightarrow> string run" where
  "cache_loop path root soname bufsiz i 0 = Err ENOENT"
| "cache_loop path root soname bufsiz i (Suc n) =
     run_bind (path i) (\<lambda>p.
       if soname = basename p then of_sum (snprintf (root @ p) bufsiz)
       else cache_loop path root soname bufsiz (Suc i) n)"

text \<open>\<open>file\<close> is the content of the cache, or the error of \<^verbatim>\<open>open\<close>, \<^verbatim>\<open>fstat\<close> or \<^verbatim>\<open>mmap\<close>.\<close>

definition ldso_cache :: "bool \<Rightarrow> errno + byte list \<Rightarrow> env \<Rightarrow> string \<Rightarrow> nat \<Rightarrow> string run" where
  "ldso_cache big cache env soname bufsiz =
     run_bind (of_sum cache) (\<lambda>mem.
       run_bind (cache_new big mem) (\<lambda>base.
         if length mem < base then Undef
         else if take 20 (drop base mem) \<noteq> CACHEMAGIC_VERSION_NEW then Err EINVAL
         else run_bind (get32 big mem (base + 20)) (\<lambda>nlibs.
           cache_loop (entry_path big mem base) (if getrootdir env = ''/'' then [] else getrootdir env)
             soname bufsiz 0 nlibs)))"

section \<open>A complete cache\<close>

lemma cache_loop_find:
  "(\<And>k. k < n \<Longrightarrow> path (i + k) = Ret (f k)) \<Longrightarrow>
    cache_loop path root soname bufsiz i n =
      (case find (\<lambda>p. basename p = soname) (map f [0..<n]) of
         None \<Rightarrow> Err ENOENT | Some p \<Rightarrow> of_sum (snprintf (root @ p) bufsiz))"
proof (induction n arbitrary: i f)
  case (Suc n)
  have 0: "path i = Ret (f 0)" using Suc.prems [of 0] by simp
  have "path (Suc i + k) = Ret (f (Suc k))" if "k < n" for k
    using Suc.prems [of "Suc k"] that by simp
  from Suc.IH [OF this] show ?case
    by (cases "soname = basename (f 0)") (auto simp: 0 map_upt_Suc simp del: upt_Suc)
qed simp

text \<open>
  A cache of the new format that starts at \<open>base\<close>: its entries lie in the file and their paths end
  there.
\<close>

definition cache_count :: "bool \<Rightarrow> byte list \<Rightarrow> nat \<Rightarrow> nat" where
  "cache_count big mem base = unat (at big mem (base + 20) 4 :: 32 word)"

definition cache_value :: "bool \<Rightarrow> byte list \<Rightarrow> nat \<Rightarrow> nat \<Rightarrow> nat" where
  "cache_value big mem base i = unat (at big mem (base + 48 + 24 * i + 8) 4 :: 32 word)"

definition cache_paths :: "bool \<Rightarrow> byte list \<Rightarrow> nat \<Rightarrow> string list" where
  "cache_paths big mem base =
     map (\<lambda>i. c_string (drop (base + cache_value big mem base i) mem)) [0..<cache_count big mem base]"

definition good_cache :: "bool \<Rightarrow> byte list \<Rightarrow> nat \<Rightarrow> bool" where
  "good_cache big mem base \<longleftrightarrow>
     take 20 (drop base mem) = CACHEMAGIC_VERSION_NEW
     \<and> base + 48 + 24 * cache_count big mem base \<le> length mem
     \<and> (\<forall>i < cache_count big mem base. 0 \<in> set (drop (base + cache_value big mem base i) mem))"

lemma good_cache_lookup:
  assumes "good_cache big mem base" and "cache_new big mem = Ret base"
  shows "ldso_cache big (Inr mem) env soname bufsiz =
    (case find (\<lambda>p. basename p = soname) (cache_paths big mem base) of
       None \<Rightarrow> Err ENOENT
     | Some p \<Rightarrow> of_sum (snprintf ((if getrootdir env = ''/'' then [] else getrootdir env) @ p) bufsiz))"
proof -
  define n where "n = cache_count big mem base"
  have len: "base + 48 + 24 * n \<le> length mem" using assms(1) by (simp add: good_cache_def n_def)
  have e: "entry_path big mem base k = Ret (c_string (drop (base + cache_value big mem base k) mem))" if "k < n" for k
  proof -
    have "base + 48 + 24 * k + 8 + 4 \<le> length mem" using len that by linarith
    then show ?thesis
      using assms(1) that by (simp add: entry_path_def get32_def get_string_def cache_value_def good_cache_def n_def)
  qed
  have "cache_loop (entry_path big mem base) root soname bufsiz 0 n =
      (case find (\<lambda>p. basename p = soname) (cache_paths big mem base) of
         None \<Rightarrow> Err ENOENT | Some p \<Rightarrow> of_sum (snprintf (root @ p) bufsiz))" for root
    unfolding cache_paths_def n_def [symmetric] by (rule cache_loop_find) (simp add: e)
  moreover have "get32 big mem (base + 20) = Ret n" using len by (simp add: get32_def n_def cache_count_def)
  moreover have "take 20 (drop base mem) = CACHEMAGIC_VERSION_NEW" using assms(1) by (simp add: good_cache_def)
  ultimately show ?thesis using assms(2) len by (simp add: ldso_cache_def)
qed

lemma old_magic_new: "take 20 mem = CACHEMAGIC_VERSION_NEW \<Longrightarrow> take 11 mem \<noteq> CACHEMAGIC"
proof
  assume "take 20 mem = CACHEMAGIC_VERSION_NEW" and "take 11 mem = CACHEMAGIC"
  then have "hd (take 20 mem) \<noteq> hd (take 11 mem)" by (simp add: CACHEMAGIC_def CACHEMAGIC_VERSION_NEW_def)
  then show False by (cases mem) auto
qed

text \<open>
  The lookup in a complete cache, of the new format alone, answers the path of the first entry
  with the file name that is asked for, put below the root directory; without such an entry it fails
  with \<^verbatim>\<open>ENOENT\<close>.
\<close>

theorem ldso_cache_first:
  assumes "good_cache big mem 0"
  shows "ldso_cache big (Inr mem) env soname bufsiz =
    (case find (\<lambda>p. basename p = soname) (cache_paths big mem 0) of
       None \<Rightarrow> Err ENOENT
     | Some p \<Rightarrow> of_sum (snprintf ((if getrootdir env = ''/'' then [] else getrootdir env) @ p) bufsiz))"
proof (rule good_cache_lookup [OF assms])
  show "cache_new big mem = Ret 0"
    using assms old_magic_new [of mem] by (simp add: cache_new_def good_cache_def)
qed

definition sample_cache :: "byte list" where
  "sample_cache = CACHEMAGIC_VERSION_NEW @ [2, 0, 0, 0] @ replicate 24 0
     @ [1, 0, 0, 0, 0, 0, 0, 0, 96, 0, 0, 0] @ replicate 12 0
     @ [1, 0, 0, 0, 0, 0, 0, 0, 99, 0, 0, 0] @ replicate 12 0
     @ [0x2f, 0x61, 0, 0x2f, 0x62, 0]"

lemma sample_cache_values:
  "cache_count False sample_cache 0 = 2" "cache_value False sample_cache 0 0 = 96"
  "cache_value False sample_cache 0 1 = 99" "length sample_cache = 102"
  by (simp_all add: cache_count_def cache_value_def at_def load_def sample_cache_def CACHEMAGIC_VERSION_NEW_def)

lemma sample_cache_good: "good_cache False sample_cache 0"
proof -
  have "take 20 sample_cache = CACHEMAGIC_VERSION_NEW"
    by (simp add: sample_cache_def CACHEMAGIC_VERSION_NEW_def)
  moreover have "drop 96 sample_cache = [0x2f, 0x61, 0, 0x2f, 0x62, 0]" "drop 99 sample_cache = [0x2f, 0x62, 0]"
    by (simp_all add: sample_cache_def CACHEMAGIC_VERSION_NEW_def)
  moreover have "i = 0 \<or> i = 1" if "i < 2" for i :: nat using that by auto
  ultimately show ?thesis
    unfolding good_cache_def using sample_cache_values by fastforce
qed

theorem ldso_cache_first_witness:
  "ldso_cache False (Inr sample_cache) (Some [''IAMROOT_ROOT=/r'']) ''b'' 4096 = Ret ''/r/b''"
proof -
  have "drop 96 sample_cache = [0x2f, 0x61, 0, 0x2f, 0x62, 0]" "drop 99 sample_cache = [0x2f, 0x62, 0]"
    by (simp_all add: sample_cache_def CACHEMAGIC_VERSION_NEW_def)
  moreover have "[0..<2] = [0, Suc 0]" by (simp add: upt_rec)
  ultimately have p: "cache_paths False sample_cache 0 = [''/a'', ''/b'']"
    using sample_cache_values by (simp add: cache_paths_def c_string_def) code_simp
  have "getrootdir (Some [''IAMROOT_ROOT=/r'']) = ''/r''" "basename ''/a'' = ''a''" "basename ''/b'' = ''b''"
    by code_simp+
  with ldso_cache_first [OF sample_cache_good, of "Some [''IAMROOT_ROOT=/r'']" "''b''" 4096] show ?thesis
    by (simp add: p snprintf_def)
qed

section \<open>A flaw\<close>

text \<open>
  The new format is aligned to eight bytes behind the old one, which the code does not do: with an odd
  number of old entries the four bytes of padding are taken for its magic number.
\<close>

lemma ldso_cache_odd:
  assumes "take 11 mem = CACHEMAGIC" and "get32 big mem 12 = Ret n" and "odd n"
    and "take 20 (drop (16 + 12 * n + 4) mem) = CACHEMAGIC_VERSION_NEW"
    and "take 4 (drop (16 + 12 * n) mem) = replicate 4 0"
  shows "ldso_cache big (Inr mem) env soname bufsiz = Err EINVAL"
proof -
  have "length (take 4 (drop (16 + 12 * n) mem)) = 4" using assms(5) by simp
  then have "\<not> length mem < 16 + 12 * n" by auto
  moreover have "take 4 (take 20 (drop (16 + 12 * n) mem)) \<noteq> take 4 CACHEMAGIC_VERSION_NEW"
  proof -
    have "replicate 4 (0 :: byte) = [0, 0, 0, 0]" by (simp add: replicate_eqI numeral_Bit0)
    then show ?thesis unfolding take_take using assms(5) by (simp add: CACHEMAGIC_VERSION_NEW_def)
  qed
  then have "take 20 (drop (16 + 12 * n) mem) \<noteq> CACHEMAGIC_VERSION_NEW" by metis
  ultimately show ?thesis using assms(1,2) by (simp add: ldso_cache_def cache_new_def)
qed

end
