(* ===== verification/Dso_Search.thy ===== *)
theory Dso_Search
  imports Ld_Cache
begin

text \<open>
  How \<^verbatim>\<open>dso.c\<close> finds shared objects: the list of libraries to preload, the search of
  \<^verbatim>\<open>ld-linux.so(8)\<close>, opening the libraries a library needs, and the trace of
  \<^verbatim>\<open>ldd\<close>. The recursions of the code have a bound: \<open>Diverge\<close> when it is used up.
\<close>

section \<open>\<^verbatim>\<open>LD_PRELOAD\<close>\<close>

definition setld_preload :: "string option \<Rightarrow> bool \<Rightarrow> env \<Rightarrow> errno + env" where
  "setld_preload preload overwrite env =
     (case preload of
        None \<Rightarrow> Inl EINVAL
      | Some so \<Rightarrow>
          if so = [] then Inl EINVAL
          else (case env_get ''LD_PRELOAD'' env of
              None \<Rightarrow> env_set ''LD_PRELOAD'' so overwrite env
            | Some now \<Rightarrow>
                (case snprintf (so @ colon # now) PATH_MAX of
                   Inl e \<Rightarrow> Inl e | Inr buf \<Rightarrow> env_set ''LD_PRELOAD'' buf overwrite env)))"

section \<open>Names of libraries\<close>

record dso_re =
  re_ldso :: "regex option"
  re_lib :: "regex option"

definition ldso_regex :: string where
  "ldso_regex = ''^ld(64|-[[:alnum:]._-]+)?'' @ [CHR 0x5C] @ ''.so('' @ [CHR 0x5C] @ ''.[[:digit:]]+)?$''"

definition lib_regex :: string where
  "lib_regex = ''^lib[[:alnum:]+._-]+'' @ [CHR 0x5C] @ ''.so('' @ [CHR 0x5C] @ ''.[[:alnum:]_-]+)*$''"

definition dso_init :: "(string \<Rightarrow> regex option) \<Rightarrow> dso_re \<Rightarrow> dso_re" where
  "dso_init regcomp re =
     (let lib = (\<lambda>re. if re_lib re \<noteq> None then re
                   else case regcomp lib_regex of None \<Rightarrow> re | Some m \<Rightarrow> re\<lparr>re_lib := Some m\<rparr>)
      in if re_ldso re \<noteq> None then lib re
         else case regcomp ldso_regex of None \<Rightarrow> re | Some m \<Rightarrow> lib (re\<lparr>re_ldso := Some m\<rparr>))"

definition dso_fini :: "dso_re \<Rightarrow> dso_re" where
  "dso_fini re = re\<lparr>re_lib := None, re_ldso := None\<rparr>"

definition is_ldso :: "dso_re \<Rightarrow> string \<Rightarrow> bool" where
  "is_ldso re path = (case re_ldso re of None \<Rightarrow> False | Some m \<Rightarrow> m path = 0)"

definition is_lib :: "dso_re \<Rightarrow> string \<Rightarrow> bool" where
  "is_lib re path = (case re_lib re of None \<Rightarrow> False | Some m \<Rightarrow> m path = 0)"

section \<open>Membership\<close>

definition is_in_path :: "string \<Rightarrow> string \<Rightarrow> int" where
  "is_in_path pathname path =
     fst (path_iterate (Some path) (\<lambda>p u. (if strneq p pathname PATH_MAX then 1 else 0, u)) ())"

definition is_in_preload :: "string \<Rightarrow> string \<Rightarrow> int" where
  "is_in_preload path preload =
     fst (path_iterate (Some preload) (\<lambda>p u. (if strneq (basename p) (basename path) PATH_MAX then 1 else 0, u)) ())"

definition is_preloading_so :: "env \<Rightarrow> string \<Rightarrow> int" where
  "is_preloading_so env so =
     (case env_get ''LD_PRELOAD'' env of None \<Rightarrow> 0 | Some p \<Rightarrow> is_in_preload so p)"

text \<open>The answer of the second test counts only when it is an error, which it never is.\<close>

definition preload_so :: "string \<Rightarrow> env \<Rightarrow> errno + int \<times> env" where
  "preload_so so env =
     (if is_preloading_so env ''libiamroot.so'' = 1 then Inr (1, env)
      else map_sum id (\<lambda>env'. (0, env')) (setld_preload (Some so) True env))"

section \<open>The libraries to preload\<close>

text \<open>Iterating over tokens with a callback that may not return.\<close>

fun iter_run :: "(string \<Rightarrow> 'u \<Rightarrow> (int \<times> 'u) run) \<Rightarrow> string list \<Rightarrow> 'u \<Rightarrow> (int \<times> 'u) run" where
  "iter_run cb [] u = Ret (0, u)"
| "iter_run cb (t # ts) u =
     run_bind (cb t u) (\<lambda>(r, u'). if r \<noteq> 0 then Ret (r, u') else iter_run cb ts u')"

definition path_iterate_run :: "string \<Rightarrow> (string \<Rightarrow> 'u \<Rightarrow> (int \<times> 'u) run) \<Rightarrow> 'u \<Rightarrow> (int \<times> 'u) run" where
  "path_iterate_run path cb u = iter_run cb (tokens colon path) u"

text \<open>
  The state is the list of objects, and \<^verbatim>\<open>errno\<close> when a call fails. \<open>preload\<close> is the recursive
  call.
\<close>

definition preload_needed_callback ::
    "(string \<Rightarrow> string \<times> errno \<Rightarrow> (int \<times> string \<times> errno) run) \<Rightarrow> dso \<Rightarrow> dso_re \<Rightarrow> string option
     \<Rightarrow> string \<Rightarrow> string \<times> errno \<Rightarrow> (int \<times> string \<times> errno) run" where
  "preload_needed_callback preload w re deflib needed st =
     (if starts_with needed slash then Ret (0, st)
      else case w_access w needed deflib PATH_MAX of
          Err e \<Rightarrow> Ret (-1, fst st, e)
        | Undef \<Rightarrow> Undef
        | Diverge \<Rightarrow> Diverge
        | Ret b \<Rightarrow>
            if \<not> is_lib re (basename b) then Ret (0, st)
            else if is_in_path b (fst st) \<noteq> 0 then Ret (0, st)
            else preload b st)"

fun ldso_preload_needed ::
    "nat \<Rightarrow> dso \<Rightarrow> dso_re \<Rightarrow> string option \<Rightarrow> nat \<Rightarrow> string \<Rightarrow> string \<times> errno \<Rightarrow> (int \<times> string \<times> errno) run" where
  "ldso_preload_needed 0 w re deflib room path st = Diverge"
| "ldso_preload_needed (Suc k) w re deflib room path st =
     (case path_strncat (fst st) (Some path) room of
        Inl e \<Rightarrow> Ret (-1, fst st, e)
      | Inr buf \<Rightarrow>
          (case elf_needed w path of
             Inl e \<Rightarrow> Ret (-1, buf, e)
           | Inr needed \<Rightarrow>
               path_iterate_run needed
                 (preload_needed_callback (ldso_preload_needed k w re deflib room) w re deflib) (buf, snd st)))"

definition ldso_preload_executable ::
    "nat \<Rightarrow> dso \<Rightarrow> dso_re \<Rightarrow> string option \<Rightarrow> nat \<Rightarrow> string \<Rightarrow> string \<times> errno \<Rightarrow> (int \<times> string \<times> errno) run" where
  "ldso_preload_executable k w re deflib room path st =
     (case elf_needed w path of
        Inl e \<Rightarrow> Ret (-1, fst st, e)
      | Inr needed \<Rightarrow>
          path_iterate_run needed
            (preload_needed_callback (ldso_preload_needed k w re deflib room) w re deflib) st)"

text \<open>\<open>lib\<close> is the answer of \<^verbatim>\<open>__getlibiamroot\<close>.\<close>

definition ld_preload :: "nat \<Rightarrow> dso \<Rightarrow> dso_re \<Rightarrow> env \<Rightarrow> errno + string \<Rightarrow> string \<Rightarrow> nat \<Rightarrow> string run" where
  "ld_preload k w re env lib path room =
     run_bind (of_sum lib) (\<lambda>buf.
       run_bind (ld_lib_path w env path PATH_MAX) (\<lambda>lib_path.
         run_bind (ldso_preload_executable k w re (Some lib_path) room path (buf, E_OK)) (\<lambda>(r, buf', e).
           if r = -1 then Err e else Ret buf')))"

section \<open>The search for a shared object\<close>

text \<open>The places in their order: only \<^verbatim>\<open>ENOENT\<close> goes on to the next.\<close>

fun try_places :: "string run list \<Rightarrow> string run" where
  "try_places [] = Err ENOENT"
| "try_places (r # rs) =
     (case r of
        Err e \<Rightarrow> if e \<noteq> ENOENT then Err e else try_places rs
      | Ret b \<Rightarrow> if b \<noteq> [] then Ret b else try_places rs
      | Undef \<Rightarrow> Undef
      | Diverge \<Rightarrow> Diverge)"

text \<open>\<open>acc\<close> searches along a path, \<open>cached\<close> is the answer of \<^verbatim>\<open>__ldso_cache\<close>.\<close>

definition ldso_access ::
    "(string option \<Rightarrow> string run) \<Rightarrow> string run \<Rightarrow> bool \<Rightarrow> string \<Rightarrow> string option \<Rightarrow> string option \<Rightarrow> string option
     \<Rightarrow> string option \<Rightarrow> string option \<Rightarrow> 32 word \<Rightarrow> nat \<Rightarrow> string run" where
  "ldso_access acc cached secure path exec_rpath rpath llp runpath deflib flags bufsiz =
     (if slash \<in> set path then Ret (strncpy_buf path bufsiz)
      else try_places
        ((if runpath = None then [acc rpath, acc exec_rpath] else [])
         @ (if llp \<noteq> None \<and> \<not> secure then [acc llp] else [])
         @ (if runpath \<noteq> None then [acc runpath] else [])
         @ [cached]
         @ (if \<not> nodeflib flags \<and> deflib \<noteq> None then [acc deflib] else [])))"

text \<open>\<open>acc\<close> has the mode that is asked for; \<open>cache\<close> looks a name up.\<close>

definition dl_access ::
    "dso \<Rightarrow> env \<Rightarrow> (string \<Rightarrow> string option \<Rightarrow> nat \<Rightarrow> string run) \<Rightarrow> (string \<Rightarrow> nat \<Rightarrow> string run) \<Rightarrow> string \<Rightarrow> nat
     \<Rightarrow> string run" where
  "dl_access w env acc cache path bufsiz =
     (if slash \<in> set path then Err EINVAL
      else case w_execfn w of
          None \<Rightarrow> Err (w_errno w)
        | Some execfn \<Rightarrow>
            run_bind (elf_so_context w env execfn PATH_MAX) (\<lambda>c.
              ldso_access (\<lambda>p. acc path p bufsiz) (cache path bufsiz) (secure_execution_mode env) path
                (c_rpath c) None (c_ld_library_path c) None (c_deflib c) (c_flags_1 c) bufsiz))"

section \<open>Opening what a library needs\<close>

text \<open>The dynamic linker: the path of a descriptor, whether an object is open, and opening one.\<close>

record 'd linker =
  d_path :: "elf_fd \<Rightarrow> string run"
  d_opened :: "'d \<Rightarrow> string \<Rightarrow> int"
  d_open :: "string \<Rightarrow> 'd \<Rightarrow> bool \<times> 'd"

definition ld_open_needed_callback ::
    "(string \<Rightarrow> 'd \<Rightarrow> (int \<times> 'd) run) \<Rightarrow> 'd linker \<Rightarrow> (string \<Rightarrow> string run) \<Rightarrow> string \<Rightarrow> 'd \<Rightarrow> (int \<times> 'd) run" where
  "ld_open_needed_callback open_needed l find_so needed d =
     (case find_so needed of
        Err e \<Rightarrow> Ret (-1, d)
      | Undef \<Rightarrow> Undef
      | Diverge \<Rightarrow> Diverge
      | Ret buf \<Rightarrow>
          run_bind (open_needed buf d) (\<lambda>(r, d').
            if r = -1 then Ret (-1, d')
            else case d_open l buf d' of (ok, d'') \<Rightarrow> Ret (if ok then 0 else -1, d'')))"

definition search_needed :: "dso \<Rightarrow> (string \<Rightarrow> nat \<Rightarrow> string run) \<Rightarrow> env \<Rightarrow> so_context \<Rightarrow> string \<Rightarrow> string run" where
  "search_needed w cache env c needed =
     ldso_access (\<lambda>p. w_access w needed p PATH_MAX) (cache needed PATH_MAX) (secure_execution_mode env) needed
       None (c_rpath c) (c_ld_library_path c) (c_runpath c) (c_deflib c) (c_flags_1 c) PATH_MAX"

fun ld_open_needed ::
    "nat \<Rightarrow> dso \<Rightarrow> (string \<Rightarrow> nat \<Rightarrow> string run) \<Rightarrow> env \<Rightarrow> 'd linker \<Rightarrow> string \<Rightarrow> 'd \<Rightarrow> (int \<times> 'd) run" where
  "ld_open_needed 0 w cache env l path d = Diverge"
| "ld_open_needed (Suc k) w cache env l path d =
     (case w_open w path of
        Inl e \<Rightarrow> Ret (-1, d)
      | Inr f \<Rightarrow>
          (case d_path l f of
             Err e \<Rightarrow> Ret (-1, d)
           | Undef \<Rightarrow> Undef
           | Diverge \<Rightarrow> Diverge
           | Ret tmp \<Rightarrow>
               if d_opened l d tmp \<noteq> 0 then Ret (d_opened l d tmp, d)
               else (case felf_so_context w env f PATH_MAX of
                   Err e \<Rightarrow> Ret (-1, d)
                 | Undef \<Rightarrow> Undef
                 | Diverge \<Rightarrow> Diverge
                 | Ret c \<Rightarrow>
                     (case felf_needed w f of
                        Inl e \<Rightarrow> Ret (-1, d)
                      | Inr needed \<Rightarrow>
                          path_iterate_run needed
                            (ld_open_needed_callback (ld_open_needed k w cache env l) l (search_needed w cache env c))
                            d))))"

section \<open>The trace of loaded objects\<close>

datatype trace_line =
    TNotFound string
  | TFound string "string option"
  | TStatic
  | TVdso
  | TInterp string

definition root_basepath :: "env \<Rightarrow> string \<Rightarrow> string option" where
  "root_basepath env path =
     (let root = getrootdir env in
      if root = ''/'' then None
      else if \<not> strneq root path (strlen_max root) then None
      else Some (drop (strlen_max root) path))"

text \<open>The state is the list of objects and the lines that were printed.\<close>

definition trace_callback ::
    "(string \<Rightarrow> string \<times> trace_line list \<Rightarrow> (int \<times> string \<times> trace_line list) run) \<Rightarrow> dso_re \<Rightarrow> env
     \<Rightarrow> (string \<Rightarrow> string run) \<Rightarrow> string \<Rightarrow> string \<times> trace_line list \<Rightarrow> (int \<times> string \<times> trace_line list) run" where
  "trace_callback trace re env find_so so st =
     (case find_so so of
        Undef \<Rightarrow> Undef
      | Diverge \<Rightarrow> Diverge
      | Err e \<Rightarrow> Ret (0, fst st, snd st @ [TNotFound so])
      | Ret buf \<Rightarrow>
          let st1 = (fst st, if buf = [] then snd st @ [TNotFound so] else snd st) in
          if \<not> is_lib re (basename buf) then Ret (0, st1)
          else if is_in_path buf (fst st) \<noteq> 0 then Ret (0, st1)
          else run_bind (trace buf st1) (\<lambda>(r, st2).
            Ret (r, fst st2, snd st2 @ [TFound so (root_basepath env buf)])))"

fun trace_needed ::
    "nat \<Rightarrow> dso \<Rightarrow> dso_re \<Rightarrow> env \<Rightarrow> (string \<Rightarrow> string run) \<Rightarrow> nat \<Rightarrow> string \<Rightarrow> string \<times> trace_line list
     \<Rightarrow> (int \<times> string \<times> trace_line list) run" where
  "trace_needed 0 w re env find_so room path st = Diverge"
| "trace_needed (Suc k) w re env find_so room path st =
     (case elf_needed w path of
        Inl e \<Rightarrow> Ret (-1, st)
      | Inr needed \<Rightarrow>
          run_bind (path_iterate_run needed (trace_callback (trace_needed k w re env find_so room) re env find_so) st)
            (\<lambda>(r, st').
               if r = -1 then Ret (-1, st')
               else case path_strncat (fst st') (Some path) room of
                   Inl e \<Rightarrow> Ret (-1, st') | Inr buf \<Rightarrow> Ret (0, buf, snd st')))"

definition trace_search :: "dso \<Rightarrow> (string \<Rightarrow> nat \<Rightarrow> string run) \<Rightarrow> env \<Rightarrow> so_context \<Rightarrow> string \<Rightarrow> string run" where
  "trace_search w cache env c so =
     ldso_access (\<lambda>p. w_access w so p PATH_MAX) (cache so PATH_MAX) (secure_execution_mode env) so
       (c_rpath c) None (c_ld_library_path c) (c_runpath c) (c_deflib c) (c_flags_1 c) PATH_MAX"

text \<open>The answer: the value the function returns and the lines.\<close>

definition trace_executable ::
    "nat \<Rightarrow> dso \<Rightarrow> dso_re \<Rightarrow> (string \<Rightarrow> nat \<Rightarrow> string run) \<Rightarrow> env \<Rightarrow> elf_fd \<Rightarrow> (int \<times> trace_line list) run" where
  "trace_executable k w re cache env f =
     (case felf_so_context w env f PATH_MAX of
        Err e \<Rightarrow> Ret (-1, [])
      | Undef \<Rightarrow> Undef
      | Diverge \<Rightarrow> Diverge
      | Ret c \<Rightarrow>
          (case felf_interp (w_big w) f NAME_MAX of
             Inl e \<Rightarrow> if e \<noteq> ENOEXEC then Ret (-1, []) else Ret (0, [TStatic])
           | Inr bs \<Rightarrow>
               (case ld_ldso_abi (c_string bs) of
                  Inl e \<Rightarrow> Ret (-1, [])
                | Inr (ldso, _) \<Rightarrow>
                    let out = (if is_linux_ldso ldso then [TVdso] else []) in
                    (case felf_needed w f of
                       Inl e \<Rightarrow> Ret (-1, out @ [TInterp (c_string bs)])
                     | Inr needed \<Rightarrow>
                         run_bind (path_iterate_run needed
                             (trace_callback (trace_needed k w re env (trace_search w cache env c) PATH_MAX) re env
                               (trace_search w cache env c)) ([], out))
                           (\<lambda>(r, st). Ret (r, snd st @ [TInterp (c_string bs)]))))))"

end
