(* ===== verification/Script.thy ===== *)
theory Script
  imports Prelude
begin

text \<open>
  \<^verbatim>\<open>interpreter-script.c\<close>: the line of an interpreter script. The text that is read and the
  buffer are character lists in which NUL characters stand for themselves; what is read of the file and its size
  are parameters.
\<close>

section \<open>Parameters\<close>

text \<open>\<open>p_size\<close> is the size that \<^verbatim>\<open>fstat\<close> answers, \<open>p_read n\<close> the first \<open>n\<close> characters.\<close>

record program =
  p_size :: "errno + nat"
  p_read :: "nat \<Rightarrow> errno + string"


definition is_blank :: "char \<Rightarrow> bool" where
  "is_blank c \<longleftrightarrow> c = CHR '' '' \<or> c = CHR 0x09"

text \<open>The characters of a word: neither the end of the text, nor of the line, nor a blank.\<close>

definition in_word :: "char \<Rightarrow> bool" where
  "in_word c \<longleftrightarrow> c \<noteq> CHR 0x0A \<and> \<not> is_blank c"

definition c_text :: "string \<Rightarrow> string" where
  "c_text s = takeWhile (\<lambda>c. c \<noteq> NUL) s"

section \<open>The line\<close>

text \<open>
  The two words are copied to the front of the buffer, each with a terminator; the size counts the
  characters in front of the last terminator. \<open>t\<close> is the text behind \<^verbatim>\<open>#!\<close>. The copy never passes the cursor it
  reads from, which started two characters behind.
\<close>

definition script_line :: "string \<Rightarrow> nat \<times> string" where
  "script_line t =
     (let s = dropWhile is_blank t;
          interp = takeWhile in_word s;
          r = dropWhile in_word s
      in if r \<noteq> [] \<and> is_blank (hd r) then
           let opt = takeWhile in_word (dropWhile is_blank r)
           in (length interp + 1 + length opt, interp @ NUL # opt @ [NUL])
         else (length interp, interp @ [NUL]))"

definition BSHELL :: string where "BSHELL = ''/bin/sh''"

text \<open>
  An empty file is run by the shell; its name is printed with the size of the whole buffer, not of what is left
  of it. When it does not fit that size the answer is the \<open>0\<close> of \<^verbatim>\<open>fstat\<close>.
\<close>

definition interpreter_script_hashbang ::
    "(string \<Rightarrow> errno + program) \<Rightarrow> string \<Rightarrow> nat \<Rightarrow> nat \<Rightarrow> (nat \<times> string) run" where
  "interpreter_script_hashbang opn path bufsiz offset =
     (case opn path of
        Inl e \<Rightarrow> Err e
      | Inr f \<Rightarrow>
        (case p_size f of
           Inl e \<Rightarrow> Err e
         | Inr n \<Rightarrow>
             if n = 0 then
               (if bufsiz < offset + min (length BSHELL + 1) bufsiz then Undef
                else case snprintf BSHELL bufsiz of
                    Inl e \<Rightarrow> Ret (0, strncpy_buf BSHELL bufsiz @ [NUL])
                  | Inr s \<Rightarrow> Ret (length s, s @ [NUL]))
             else if bufsiz \<le> offset then Undef
             else case p_read f (bufsiz - offset - 1) of
                 Inl e \<Rightarrow> Err e
               | Inr bs \<Rightarrow>
                   if take 2 bs \<noteq> ''#!'' then Err ENOEXEC else Ret (script_line (c_text (drop 2 bs)))))"

text \<open>
  \<^verbatim>\<open>__interpreter_script\<close>: the first entries of \<^verbatim>\<open>interparg\<close>. A line without an
  interpreter is an error that does not set \<^verbatim>\<open>errno\<close>: \<open>e\<close> is its value before.
\<close>

definition interpreter_script ::
    "(string \<Rightarrow> errno + program) \<Rightarrow> errno \<Rightarrow> string \<Rightarrow> nat \<Rightarrow> nat \<Rightarrow> string list run" where
  "interpreter_script opn e path bufsiz offset =
     run_bind (interpreter_script_hashbang opn path bufsiz offset) (\<lambda>(siz, mem).
       if siz < 1 then Err e
       else
         let interp = c_text mem; len = length interp in
         Ret (interp #
              (if len < siz \<and> c_text (drop (len + 1) mem) \<noteq> [] then [c_text (drop (len + 1) mem)] else []) @
              [path]))"

section \<open>The words of the line\<close>

lemma c_text_append_NUL [simp]: "NUL \<notin> set s \<Longrightarrow> c_text (s @ NUL # t) = s"
  unfolding c_text_def by (subst takeWhile_append2) auto

lemma NUL_notin_c_text [simp]: "NUL \<notin> set (c_text s)"
  by (auto simp: c_text_def dest: set_takeWhileD)

lemma NUL_notin_takeWhile: "NUL \<notin> set s \<Longrightarrow> NUL \<notin> set (takeWhile P s)"
  by (auto dest: set_takeWhileD)

lemma NUL_notin_dropWhile: "NUL \<notin> set s \<Longrightarrow> NUL \<notin> set (dropWhile P s)"
  by (auto dest: set_dropWhileD)

text \<open>The words of a script line, as \<^verbatim>\<open>execve(2)\<close> has them: the interpreter and an optional argument.\<close>

definition line_words :: "string \<Rightarrow> string list" where
  "line_words t =
     (let s = dropWhile is_blank (takeWhile (\<lambda>c. c \<noteq> CHR 0x0A) t);
          opt = takeWhile in_word (dropWhile is_blank (dropWhile in_word s))
      in takeWhile in_word s # (if opt = [] then [] else [opt]))"

end
