(* ===== verification/Ldso.thy ===== *)
theory Ldso
  imports Dso_Search Script
begin

text \<open>
  \<^verbatim>\<open>__ldso\<close> and its neighbours in \<^verbatim>\<open>dso.c\<close>: how the dynamic loader of a program is run. The
  argument vector \<^verbatim>\<open>interparg\<close> is an array of a fixed length whose free entries are \<open>None\<close>
  (\<^verbatim>\<open>NULL\<close>); an access outside of it is \<open>Undef\<close>.
\<close>

section \<open>Steps on the environment\<close>

text \<open>A step may fail after it changed the environment of the process: both are part of the answer.\<close>

type_synonym 'a eff = "env \<Rightarrow> ((errno + 'a) \<times> env) run"

definition eff_ret :: "'a \<Rightarrow> 'a eff" where "eff_ret x env = Ret (Inr x, env)"
definition eff_fail :: "errno \<Rightarrow> 'a eff" where "eff_fail e env = Ret (Inl e, env)"

definition eff_bind :: "'a eff \<Rightarrow> ('a \<Rightarrow> 'b eff) \<Rightarrow> 'b eff" where
  "eff_bind m f env =
     run_bind (m env) (\<lambda>(r, env'). case r of Inl e \<Rightarrow> Ret (Inl e, env') | Inr x \<Rightarrow> f x env')"

text \<open>A step that reads the environment, and one that changes it.\<close>

definition eff_get :: "(env \<Rightarrow> 'a run) \<Rightarrow> 'a eff" where
  "eff_get g env =
     (case g env of Ret x \<Rightarrow> Ret (Inr x, env) | Err e \<Rightarrow> Ret (Inl e, env) | Undef \<Rightarrow> Undef | Diverge \<Rightarrow> Diverge)"

definition eff_env :: "(env \<Rightarrow> errno + env) \<Rightarrow> unit eff" where
  "eff_env g env = (case g env of Inl e \<Rightarrow> Ret (Inl e, env) | Inr env' \<Rightarrow> Ret (Inr (), env'))"

section \<open>Parameters\<close>

text \<open>
  What the execution of programs needs: the host, the state of the library (its environment is the one that is
  passed along), \<^verbatim>\<open>errno\<close>, the readers of \<^verbatim>\<open>dso.c\<close>, the levels of recursion allowed, the
  installation prefix and version, \<open>x_find file path\<close> for \<^verbatim>\<open>__host_path_access\<close> with
  \<^verbatim>\<open>F_OK\<close>, \<open>x_access\<close> and \<open>x_exec\<close> for \<^verbatim>\<open>next_faccessat\<close> with
  \<^verbatim>\<open>F_OK\<close> and \<^verbatim>\<open>X_OK\<close>, and \<open>x_prog\<close> for \<^verbatim>\<open>next_open\<close>.
\<close>

record loader =
  x_host :: host
  x_lib :: lib
  x_errno :: errno
  x_dso :: dso
  x_re :: dso_re
  x_fuel :: nat
  x_prefix :: string
  x_version :: string
  x_find :: "string \<Rightarrow> string \<Rightarrow> errno + string"
  x_access :: "string \<Rightarrow> errno option"
  x_exec :: "string \<Rightarrow> bool"
  x_prog :: "string \<Rightarrow> errno + program"

definition resolve :: "loader \<Rightarrow> env \<Rightarrow> int \<Rightarrow> string \<Rightarrow> nat \<Rightarrow> 32 word \<Rightarrow> string run" where
  "resolve x env dfd path bufsiz atflags =
     path_resolution (x_host x) ((x_lib x)\<lparr>l_env := env\<rparr>) (x_errno x) dfd (Some path) bufsiz atflags"

section \<open>Options of the dynamic loader\<close>

text \<open>The version in the name of the file \<^verbatim>\<open>ld-<major>.<minor>.so\<close>.\<close>

definition ld_linux_version :: "loader \<Rightarrow> env \<Rightarrow> string \<Rightarrow> (int \<times> int) run" where
  "ld_linux_version x env path =
     run_bind (resolve x env AT_FDCWD path PATH_MAX AT_SYMLINK_FOLLOW) (\<lambda>buf.
       case Option.bind (scan_text ''ld-'' (basename buf)) scan_int of
         None \<Rightarrow> Err ENOTSUP
       | Some (major, r) \<Rightarrow>
           (case Option.bind (scan_text ''.'' r) scan_int of
              None \<Rightarrow> Err ENOTSUP | Some (minor, _) \<Rightarrow> Ret (major, minor)))"

text \<open>A loader without a version in its name is taken for a recent one.\<close>

definition since :: "int \<Rightarrow> (int \<times> int) run \<Rightarrow> bool run" where
  "since minor v =
     (case v of
        Ret (maj, mnr) \<Rightarrow> Ret (2 < maj \<or> maj = 2 \<and> minor \<le> mnr)
      | Err e \<Rightarrow> if e \<noteq> ENOTSUP then Err e else Ret True
      | Undef \<Rightarrow> Undef
      | Diverge \<Rightarrow> Diverge)"

definition ld_linux_has_inhibit_cache_option :: "loader \<Rightarrow> env \<Rightarrow> string \<Rightarrow> bool run" where
  "ld_linux_has_inhibit_cache_option x env path = since 16 (ld_linux_version x env path)"

definition ld_linux_has_argv0_option :: "loader \<Rightarrow> env \<Rightarrow> string \<Rightarrow> bool run" where
  "ld_linux_has_argv0_option x env path = since 33 (ld_linux_version x env path)"

definition ld_linux_has_preload_option :: "loader \<Rightarrow> env \<Rightarrow> string \<Rightarrow> bool run" where
  "ld_linux_has_preload_option x env path = since 30 (ld_linux_version x env path)"

record support =
  has_shift :: nat
  has_argv0 :: bool
  has_preload :: bool
  has_library_path :: bool
  has_inhibit_rpath :: bool
  has_inhibit_cache :: bool

definition no_support :: support where
  "no_support = \<lparr>has_shift = 0, has_argv0 = False, has_preload = False, has_library_path = False,
     has_inhibit_rpath = False, has_inhibit_cache = False\<rparr>"

definition ldso_support :: "loader \<Rightarrow> env \<Rightarrow> ehdr \<Rightarrow> string \<Rightarrow> int \<Rightarrow> string \<Rightarrow> support run" where
  "ldso_support x env h ldso abi pt_interp =
     run_bind
       (if is_gnu_linux_ext h ldso abi then
          run_bind (ld_linux_has_inhibit_cache_option x env pt_interp) (\<lambda>cache.
            run_bind (ld_linux_has_argv0_option x env pt_interp) (\<lambda>argv0.
              run_bind (ld_linux_has_preload_option x env pt_interp) (\<lambda>preload.
                Ret \<lparr>has_shift = 1, has_argv0 = argv0, has_preload = preload, has_library_path = True,
                  has_inhibit_rpath = True, has_inhibit_cache = cache\<rparr>)))
        else Ret no_support) (\<lambda>s.
     let s1 = (if is_musl ldso
               then s\<lparr>has_shift := 1, has_argv0 := True, has_preload := True, has_library_path := True\<rparr> else s);
         s2 = (if is_freebsd h ldso abi then s1\<lparr>has_shift := 1\<rparr> else s1)
     in Ret (if is_netbsd h ldso abi \<or> is_openbsd h then s2\<lparr>has_shift := 0\<rparr> else s2))"

section \<open>The argument vector\<close>

type_synonym args = "string option list"

fun put_args :: "nat \<Rightarrow> args \<Rightarrow> args \<Rightarrow> args run" where
  "put_args i [] a = Ret a"
| "put_args i (s # ss) a = (if i < length a then put_args (Suc i) ss (a[i := s]) else Undef)"

text \<open>The entries before the first \<^verbatim>\<open>NULL\<close>; without one the code reads beyond the array.\<close>

definition count_args :: "args \<Rightarrow> nat run" where
  "count_args a =
     (let n = length (takeWhile (\<lambda>s. s \<noteq> None) a) in if n = length a then Undef else Ret n)"

text \<open>The loop that moves the entries \<open>n\<close> to \<open>1\<close> up by \<open>shift\<close>.\<close>

fun shift_args :: "nat \<Rightarrow> nat \<Rightarrow> args \<Rightarrow> args run" where
  "shift_args shift 0 a = Ret a"
| "shift_args shift (Suc n) a =
     (if Suc n + shift < length a then shift_args shift n (a[Suc n + shift := a ! Suc n]) else Undef)"

definition ldso_shift :: "support \<Rightarrow> string \<Rightarrow> string \<Rightarrow> string \<Rightarrow> nat" where
  "ldso_shift s preload libpath rpath =
     has_shift s + (if has_argv0 s then 2 else 0)
       + (if has_preload s \<and> preload \<noteq> [] then 2 else 0)
       + (if has_library_path s \<and> libpath \<noteq> [] then 2 else 0)
       + (if has_inhibit_rpath s \<and> rpath \<noteq> [] then 2 else 0)
       + (if has_inhibit_cache s then 1 else 0)"

text \<open>The entries that are written in front of the path of the program.\<close>

definition ldso_slots :: "support \<Rightarrow> string \<Rightarrow> string \<Rightarrow> string \<Rightarrow> string \<Rightarrow> string option \<Rightarrow> args" where
  "ldso_slots s preload libpath rpath interp argv0 =
     (if ldso_shift s preload libpath rpath = 0 then []
      else Some interp #
        (if has_preload s \<and> preload \<noteq> [] then [Some ''--preload'', Some preload] else [])
        @ (if has_library_path s \<and> libpath \<noteq> [] then [Some ''--library-path'', Some libpath] else [])
        @ (if has_inhibit_rpath s \<and> rpath \<noteq> [] then [Some ''--inhibit-rpath'', Some rpath] else [])
        @ (if has_inhibit_cache s then [Some ''--inhibit-cache''] else [])
        @ (if has_argv0 s then [Some ''--argv0'', argv0] else []))"

text \<open>Where the loader has no option, a variable of the environment. \<^verbatim>\<open>setenv\<close> does not take a null value.\<close>

definition ldso_setenv :: "support \<Rightarrow> string \<Rightarrow> string \<Rightarrow> string \<Rightarrow> string option \<Rightarrow> unit eff" where
  "ldso_setenv s preload libpath rpath argv0 =
     (let shift = (0 < ldso_shift s preload libpath rpath) in
      eff_bind (if preload \<noteq> [] \<and> \<not> (shift \<and> has_preload s)
                then eff_env (env_set ''LD_PRELOAD'' preload True) else eff_ret ()) (\<lambda>_.
      eff_bind (if libpath \<noteq> [] \<and> \<not> (shift \<and> has_library_path s)
                then eff_env (env_set ''LD_LIBRARY_PATH'' libpath True) else eff_ret ()) (\<lambda>_.
      if shift \<and> has_argv0 s then eff_ret ()
      else case argv0 of None \<Rightarrow> (\<lambda>_. Undef) | Some a \<Rightarrow> eff_env (env_set ''argv0'' a True))))"

definition ldso_args :: "support \<Rightarrow> string \<Rightarrow> string \<Rightarrow> string \<Rightarrow> string \<Rightarrow> string \<Rightarrow> args \<Rightarrow> args eff" where
  "ldso_args s preload libpath rpath interp path a =
     (let argv0 = a ! 0;
          slots = ldso_slots s preload libpath rpath interp argv0
      in eff_bind (eff_get (\<lambda>_. if a = [] then Undef else count_args a)) (\<lambda>n.
         eff_bind (eff_get (\<lambda>_. shift_args (ldso_shift s preload libpath rpath) n a)) (\<lambda>a1.
         eff_bind (eff_get (\<lambda>_. put_args 0 slots a1)) (\<lambda>a2.
         eff_bind (ldso_setenv s preload libpath rpath argv0) (\<lambda>_.
         eff_get (\<lambda>_. run_bind (put_args (length slots) [Some path] a2)
           (\<lambda>a3. put_args (length slots + n) [None] a3)))))))"

section \<open>\<^verbatim>\<open>__ldso\<close>\<close>

text \<open>
  The texts are laid out one behind the other from \<open>off\<close> on. No room left for one is \<open>Undef\<close>: the
  copy is given a size of \<open>-1\<close>.
\<close>

definition after :: "nat \<Rightarrow> string \<Rightarrow> nat" where
  "after off s = (if s = [] then off else off + length s + 1)"

definition with_room :: "nat \<Rightarrow> nat \<Rightarrow> (nat \<Rightarrow> 'a run) \<Rightarrow> 'a run" where
  "with_room bufsiz off f = (if bufsiz \<le> off then Undef else f (bufsiz - off))"

definition getlib :: "loader \<Rightarrow> env \<Rightarrow> ehdr \<Rightarrow> string \<Rightarrow> int \<Rightarrow> nat \<Rightarrow> errno + string" where
  "getlib x env h ldso abi room = getlibiamroot (x_prefix x) (x_find x) (x_exec x) env h ldso abi room"

definition ldso :: "loader \<Rightarrow> string \<Rightarrow> args \<Rightarrow> nat \<Rightarrow> nat \<Rightarrow> args eff" where
  "ldso x path a bufsiz off =
     eff_bind (eff_get (\<lambda>_. of_sum (elf_interp_ldso_abi (x_dso x) path NAME_MAX))) (\<lambda>(h, pt_interp, ldso, abi).
     eff_bind (eff_get (\<lambda>env. ldso_support x env h ldso abi pt_interp)) (\<lambda>s.
     eff_bind (eff_get (\<lambda>env. with_room bufsiz off (\<lambda>room.
         ld_preload (x_fuel x) (x_dso x) (x_re x) env (getlib x env h ldso abi room) path room))) (\<lambda>preload.
     let off1 = after off preload in
     eff_bind (eff_get (\<lambda>env. with_room bufsiz off1 (ld_library_path (x_dso x) env path))) (\<lambda>libpath.
     let off2 = after off1 libpath in
     eff_bind (eff_get (\<lambda>env. if has_inhibit_rpath s then with_room bufsiz off2 (\<lambda>room. Ret (inhibit_rpath env room))
                              else Ret [])) (\<lambda>rpath.
     let off3 = after off2 rpath in
     eff_bind (eff_env (env_unset ''LD_PRELOAD'')) (\<lambda>_.
     eff_bind (eff_env (env_unset ''LD_LIBRARY_PATH'')) (\<lambda>_.
     eff_bind (eff_get (\<lambda>env. resolve x env AT_FDCWD pt_interp (bufsiz - off3) 0)) (\<lambda>interp.
       ldso_args s preload libpath rpath interp path a))))))))"

section \<open>Running the loader without the kernel\<close>

text \<open>The end of the process, or an answer of \<^verbatim>\<open>-1\<close>.\<close>

definition ldso_verify :: "loader \<Rightarrow> env \<Rightarrow> string \<Rightarrow> unit run" where
  "ldso_verify x env path =
     run_bind (resolve x env AT_FDCWD path PATH_MAX 0) (\<lambda>buf.
       run_bind (of_sum (elf_interp (w_big (x_dso x)) (w_open (x_dso x)) buf NAME_MAX)) (\<lambda>_. Ret ()))"

definition getld_trace_loaded_objects :: "env \<Rightarrow> int" where
  "getld_trace_loaded_objects env =
     sint (ucast (strtol (case env_get ''LD_TRACE_LOADED_OBJECTS'' env of None \<Rightarrow> ''0'' | Some s \<Rightarrow> s) 0) :: 32 word)"

definition trace_exec :: "loader \<Rightarrow> (string \<Rightarrow> nat \<Rightarrow> string run) \<Rightarrow> env \<Rightarrow> string \<Rightarrow> (int \<times> trace_line list) run" where
  "trace_exec x cache env path =
     (case resolve x env AT_FDCWD path PATH_MAX 0 of
        Err e \<Rightarrow> Ret (-1, [])
      | Undef \<Rightarrow> Undef
      | Diverge \<Rightarrow> Diverge
      | Ret buf \<Rightarrow>
          (case w_open (x_dso x) buf of
             Inl e \<Rightarrow> Ret (-1, [])
           | Inr f \<Rightarrow> trace_executable (x_fuel x) (x_dso x) (x_re x) cache env f))"

text \<open>
  \<^verbatim>\<open>__ldso_execve\<close>: \<open>Ret\<close> is a call of \<^verbatim>\<open>_exit\<close> with its number.
  \<^verbatim>\<open>--verify\<close> without a program reads the terminator of the vector as a path:
  \<^verbatim>\<open>path_resolution\<close> refuses the null pointer. The \<^verbatim>\<open>errno\<close> of a failed trace is that of
  one of its calls, \<open>e\<close>.
\<close>

definition ldso_execve :: "loader \<Rightarrow> (string \<Rightarrow> nat \<Rightarrow> string run) \<Rightarrow> errno \<Rightarrow> string list \<Rightarrow> env \<Rightarrow> int run" where
  "ldso_execve x cache e argv env =
     (case argv of
        [] \<Rightarrow> Undef
      | [_] \<Rightarrow> Err EAGAIN
      | _ # arg1 # rest \<Rightarrow>
          if arg1 = ''--verify'' then
            (case (case rest of [] \<Rightarrow> Err EINVAL | arg2 # _ \<Rightarrow> ldso_verify x env arg2) of
               Ret _ \<Rightarrow> Ret 0
             | Err e' \<Rightarrow> Ret (if e' = ENOEXEC then 2 else 1)
             | Undef \<Rightarrow> Undef
             | Diverge \<Rightarrow> Diverge)
          else if getld_trace_loaded_objects env = -1 then Err e
          else if getld_trace_loaded_objects env = 0 then Err EAGAIN
          else run_bind (trace_exec x cache env arg1) (\<lambda>(r, _). if r = -1 then Err e else Ret 0))"

definition ldso_execveat :: "int run" where "ldso_execveat = Err ENOSYS"
definition ldso_posix_spawn :: "int run" where "ldso_posix_spawn = Err ENOSYS"

section \<open>Preloading the library outside of a chroot\<close>

definition preload_libiamroot :: "loader \<Rightarrow> int eff" where
  "preload_libiamroot x =
     eff_bind (eff_get (\<lambda>_. case w_execfn (x_dso x) of None \<Rightarrow> Err (x_errno x) | Some p \<Rightarrow> Ret p)) (\<lambda>execfn.
     eff_bind (eff_get (\<lambda>_. case interpreter_script_hashbang (x_prog x) execfn NAME_MAX 0 of
                   Err e \<Rightarrow> if e \<noteq> ENOEXEC then Err e else Ret execfn
                 | Ret (siz, mem) \<Rightarrow> Ret (if 0 < siz then c_text mem else execfn)
                 | Undef \<Rightarrow> Undef
                 | Diverge \<Rightarrow> Diverge)) (\<lambda>path.
     eff_bind (eff_get (\<lambda>_. of_sum (elf_interp_ldso_abi (x_dso x) path NAME_MAX))) (\<lambda>(h, _, ldso, abi).
     eff_bind (eff_get (\<lambda>env. of_sum (getlib x env h ldso abi PATH_MAX))) (\<lambda>buf env.
       case preload_so buf env of Inl e \<Rightarrow> Ret (Inl e, env) | Inr (r, env') \<Rightarrow> Ret (Inr r, env')))))"

end
