(* ===== verification/Attrs.thy ===== *)
theory Attrs
  imports Path_Res
begin

unbundle bit_operations_syntax

text \<open>
  Faked permissions and owners: the macros of \<^verbatim>\<open>iamroot.h\<close> that keep the mode, the owner and
  the grp a program asked for in extended attributes, the calls that change them
  (\<^verbatim>\<open>chmod.c\<close>, \<^verbatim>\<open>chown.c\<close>, their variants), the calls that create files
  (\<^verbatim>\<open>open.c\<close>, \<^verbatim>\<open>creat.c\<close>, \<^verbatim>\<open>mkdirat.c\<close>, \<^verbatim>\<open>mknodat.c\<close>) and the status calls that show them
  (\<^verbatim>\<open>fstatat.c\<close>, \<^verbatim>\<open>lstat.c\<close>, \<^verbatim>\<open>fstat.c\<close>, \<^verbatim>\<open>statx.c\<close>). The kernel is a state
  \<open>'w\<close> with host calls that may be missing (\<^verbatim>\<open>dlsym\<close> found no symbol).
\<close>

section \<open>Host calls\<close>

type_synonym ('a, 'r, 'w) hostcall = "('a \<Rightarrow> 'w \<Rightarrow> (errno + 'r) \<times> 'w) option"

text \<open>The pattern of every \<^verbatim>\<open>next_*\<close> function.\<close>

definition next_call :: "('a, 'r, 'w) hostcall \<Rightarrow> 'a \<Rightarrow> 'w \<Rightarrow> (errno + 'r) \<times> 'w" where
  "next_call dl a w = (case dl of None \<Rightarrow> (Inl ENOSYS, w) | Some f \<Rightarrow> f a w)"

text \<open>The pattern of the wrappers: resolve, give up on an error, go on with the resolved path.\<close>

definition with_path ::
    "string run \<Rightarrow> (string \<Rightarrow> 'w \<Rightarrow> (errno + 'r) \<times> 'w) \<Rightarrow> 'w \<Rightarrow> ((errno + 'r) \<times> 'w) run" where
  "with_path res f w =
     (case res of Ret buf \<Rightarrow> Ret (f buf w) | Err e \<Rightarrow> Ret (Inl e, w) | Undef \<Rightarrow> Undef | Diverge \<Rightarrow> Diverge)"

section \<open>The attributes\<close>

text \<open>
  \<open>xa_get\<close> is a read that returned exactly the four bytes; the errors of the writes are ignored by
  the macros, so the writes only give a new state.
\<close>

record 'w xattrs =
  xa_get :: "string \<Rightarrow> string \<Rightarrow> 'w \<Rightarrow> 32 word option"
  xa_set :: "string \<Rightarrow> string \<Rightarrow> 32 word \<Rightarrow> 'w \<Rightarrow> 'w"
  xa_remove :: "string \<Rightarrow> string \<Rightarrow> 'w \<Rightarrow> 'w"

definition MODE_ATTR :: string where "MODE_ATTR = ''user.iamroot.mode''"
definition UID_ATTR :: string where "UID_ATTR = ''user.iamroot.uid''"
definition GID_ATTR :: string where "GID_ATTR = ''user.iamroot.gid''"

definition get_attr :: "'w xattrs \<Rightarrow> string \<Rightarrow> string \<Rightarrow> 'w \<Rightarrow> 32 word" where
  "get_attr xa name path w = (case xa_get xa path name w of None \<Rightarrow> - 1 | Some v \<Rightarrow> v)"

definition set_attr :: "'w xattrs \<Rightarrow> string \<Rightarrow> string \<Rightarrow> 32 word \<Rightarrow> 32 word \<Rightarrow> 'w \<Rightarrow> 'w" where
  "set_attr xa name path old new w =
     (if old = new then xa_remove xa path name w else xa_set xa path name old w)"

section \<open>Modes\<close>

definition S_IFMT :: "32 word" where "S_IFMT = 0xF000"
definition S_ISUID :: "32 word" where "S_ISUID = 0x800"
definition S_ISGID :: "32 word" where "S_ISGID = 0x400"

text \<open>\<^verbatim>\<open>__warn_and_set_user_mode\<close>: the owner keeps \<open>user\<close>; no set-id bit reaches the host.\<close>

definition set_user_mode :: "32 word \<Rightarrow> 32 word \<Rightarrow> 32 word" where
  "set_user_mode m user =
     (let m1 = (if m AND user \<noteq> user then m OR user else m);
          m2 = (if m1 AND S_ISUID \<noteq> 0 then m1 AND NOT S_ISUID else m1)
      in if m2 AND S_ISGID \<noteq> 0 then m2 AND NOT S_ISGID else m2)"

definition user_mode :: "bool \<Rightarrow> 32 word \<Rightarrow> 32 word" where
  "user_mode isdir m = set_user_mode m (if isdir then 0x1C0 else 0x180)"

section \<open>Changing the mode\<close>

definition ignore_eperm :: "errno + int \<Rightarrow> errno + int" where
  "ignore_eperm r = (if r = Inl EPERM then Inr 0 else r)"

definition change_mode ::
    "'w xattrs \<Rightarrow> (string \<Rightarrow> 'w \<Rightarrow> bool) \<Rightarrow> (32 word \<Rightarrow> 'w \<Rightarrow> (errno + int) \<times> 'w) \<Rightarrow> 32 word \<Rightarrow> string \<Rightarrow> 'w
     \<Rightarrow> (errno + int) \<times> 'w" where
  "change_mode xa isdir next oldmode buf w =
     (let mode = user_mode (isdir buf w) oldmode in
      case next mode w of (r, w') \<Rightarrow>
        (ignore_eperm r, set_attr xa MODE_ATTR buf oldmode mode w'))"

definition chmod where
  "chmod xa isdir dl h lib e path mode w =
     with_path (path_resolution h lib e AT_FDCWD (Some path) PATH_MAX 0)
       (\<lambda>buf. change_mode xa isdir (\<lambda>m. next_call dl (buf, m)) mode buf) w"

definition lchmod where
  "lchmod xa isdir dl h lib e path mode w =
     with_path (path_resolution h lib e AT_FDCWD (Some path) PATH_MAX AT_SYMLINK_NOFOLLOW)
       (\<lambda>buf. change_mode xa isdir (\<lambda>m. next_call dl (buf, m)) mode buf) w"

definition fchmodat where
  "fchmodat xa isdir dl h lib e dfd path mode atflags w =
     with_path (path_resolution h lib e dfd (Some path) PATH_MAX atflags)
       (\<lambda>buf. change_mode xa isdir (\<lambda>m. next_call dl (dfd, buf, m, atflags)) mode buf) w"

definition fchmod where
  "fchmod xa isdirfd dl h fd mode w =
     with_path (fpath (h_readlink h) fd PATH_MAX)
       (\<lambda>buf. change_mode xa (\<lambda>_. isdirfd fd) (\<lambda>m. next_call dl (fd, m)) mode buf) w"

section \<open>Changing the owner\<close>

definition change_owner ::
    "'w xattrs \<Rightarrow> (32 word \<times> 32 word \<Rightarrow> 'w \<Rightarrow> (errno + int) \<times> 'w) \<Rightarrow> 32 word \<Rightarrow> 32 word \<Rightarrow> string \<Rightarrow> 'w
     \<Rightarrow> (errno + int) \<times> 'w" where
  "change_owner xa next oldowner oldgroup buf w =
     (let own = (if get_attr xa UID_ATTR buf w = - 1 then oldowner else get_attr xa UID_ATTR buf w);
          grp = (if get_attr xa GID_ATTR buf w = - 1 then oldgroup else get_attr xa GID_ATTR buf w)
      in case next (own, grp) w of (r, w') \<Rightarrow>
        (ignore_eperm r, set_attr xa GID_ATTR buf oldgroup grp (set_attr xa UID_ATTR buf oldowner own w')))"

definition chown where
  "chown xa dl h lib e path own grp w =
     with_path (path_resolution h lib e AT_FDCWD (Some path) PATH_MAX 0)
       (\<lambda>buf. change_owner xa (\<lambda>og. next_call dl (buf, og)) own grp buf) w"

definition lchown where
  "lchown xa dl h lib e path own grp w =
     with_path (path_resolution2 h lib e AT_FDCWD (Some path) PATH_MAX AT_SYMLINK_NOFOLLOW PR_NOWALKALONG)
       (\<lambda>buf. change_owner xa (\<lambda>og. next_call dl (buf, og)) own grp buf) w"

definition fchownat where
  "fchownat xa dl h lib e dfd path own grp atflags w =
     with_path (path_resolution h lib e dfd (Some path) PATH_MAX atflags)
       (\<lambda>buf. change_owner xa (\<lambda>og. next_call dl (dfd, buf, og, atflags)) own grp buf) w"

definition fchown where
  "fchown xa dl h fd own grp w =
     with_path (fpath (h_readlink h) fd PATH_MAX)
       (\<lambda>buf. change_owner xa (\<lambda>og. next_call dl (fd, og)) own grp buf) w"

section \<open>Status\<close>

record stat =
  st_mode :: "32 word"
  st_uid :: "32 word"
  st_gid :: "32 word"

definition fake_mode :: "'w xattrs \<Rightarrow> string \<Rightarrow> 'w \<Rightarrow> stat \<Rightarrow> stat" where
  "fake_mode xa path w st =
     (let m = get_attr xa MODE_ATTR path w in
      if m \<noteq> - 1 then st\<lparr>st_mode := (st_mode st AND S_IFMT) OR m\<rparr> else st)"

definition fake_uid :: "'w xattrs \<Rightarrow> string \<Rightarrow> 'w \<Rightarrow> stat \<Rightarrow> stat" where
  "fake_uid xa path w st =
     (let u = get_attr xa UID_ATTR path w in st\<lparr>st_uid := (if u \<noteq> - 1 then u else 0)\<rparr>)"

definition fake_gid :: "'w xattrs \<Rightarrow> string \<Rightarrow> 'w \<Rightarrow> stat \<Rightarrow> stat" where
  "fake_gid xa path w st =
     (let g = get_attr xa GID_ATTR path w in st\<lparr>st_gid := (if g \<noteq> - 1 then g else 0)\<rparr>)"

definition fake_stat :: "'w xattrs \<Rightarrow> string \<Rightarrow> 'w \<Rightarrow> stat \<Rightarrow> stat" where
  "fake_stat xa path w st = fake_gid xa path w (fake_uid xa path w (fake_mode xa path w st))"

text \<open>A status call on a resolved path; reading attributes does not change the state.\<close>

definition stat_path ::
    "'w xattrs \<Rightarrow> ('w \<Rightarrow> (errno + stat) \<times> 'w) \<Rightarrow> string \<Rightarrow> 'w \<Rightarrow> (errno + stat) \<times> 'w" where
  "stat_path xa next buf w = (case next w of (r, w') \<Rightarrow> (map_sum id (fake_stat xa buf w') r, w'))"

text \<open>\<^verbatim>\<open>next_fstatat\<close> falls back on \<^verbatim>\<open>__fxstatat\<close>.\<close>

definition next_fstatat where
  "next_fstatat dl fxdl a w = (case dl of None \<Rightarrow> next_call fxdl a w | Some f \<Rightarrow> f a w)"

definition fstatat where
  "fstatat xa dl fxdl h lib e dfd path atflags w =
     with_path (path_resolution h lib e dfd (Some path) PATH_MAX atflags)
       (\<lambda>buf. stat_path xa (next_fstatat dl fxdl (dfd, buf, atflags)) buf) w"

definition stat_call where
  "stat_call xa dl fxdl h lib e path w = fstatat xa dl fxdl h lib e AT_FDCWD path 0 w"

definition statx where
  "statx xa dl h lib e dfd path atflags w =
     with_path (path_resolution h lib e dfd (Some path) PATH_MAX atflags)
       (\<lambda>buf. stat_path xa (next_call dl (dfd, buf, atflags)) buf) w"

definition lstat where
  "lstat xa dl h lib e path w =
     with_path (path_resolution2 h lib e AT_FDCWD (Some path) PATH_MAX AT_SYMLINK_NOFOLLOW PR_NOWALKALONG)
       (\<lambda>buf. stat_path xa (next_call dl buf) buf) w"

text \<open>\<^verbatim>\<open>fstat\<close> reads the attributes through the descriptor: \<open>xfd fd\<close> names its attributes.\<close>

definition fstat where
  "fstat xa xfd dl fxdl fd w =
     stat_path xa (\<lambda>w. case dl of None \<Rightarrow> next_call fxdl fd w | Some f \<Rightarrow> f fd w) (xfd fd) w"

section \<open>Creating files\<close>

definition O_CREAT :: "32 word" where "O_CREAT = 0x40"
definition O_NOFOLLOW :: "32 word" where "O_NOFOLLOW = 0x20000"
definition O_TMPFILE :: "32 word" where "O_TMPFILE = 0x410000"

definition needs_mode :: "32 word \<Rightarrow> bool" where
  "needs_mode oflags \<longleftrightarrow> oflags AND O_CREAT \<noteq> 0 \<or> oflags AND O_TMPFILE \<noteq> 0"

text \<open>
  The common end of \<^verbatim>\<open>open\<close> and \<^verbatim>\<open>openat\<close>: the mode attribute is written whatever the flags
  and the result are.
\<close>

definition open_path ::
    "'w xattrs \<Rightarrow> (string \<Rightarrow> 'w \<Rightarrow> bool) \<Rightarrow> (32 word \<Rightarrow> 'w \<Rightarrow> (errno + int) \<times> 'w) \<Rightarrow> 32 word \<Rightarrow> 32 word \<Rightarrow> string \<Rightarrow> 'w
     \<Rightarrow> (errno + int) \<times> 'w" where
  "open_path xa isdir next oflags arg buf w =
     (let oldmode = (if needs_mode oflags then arg else 0);
          mode = (if oflags AND O_CREAT \<noteq> 0 then user_mode (isdir buf w) oldmode else oldmode)
      in case next mode w of (r, w') \<Rightarrow> (r, set_attr xa MODE_ATTR buf oldmode mode w'))"

definition open_flags :: "32 word \<Rightarrow> 32 word" where
  "open_flags oflags = (if oflags AND O_NOFOLLOW \<noteq> 0 then AT_SYMLINK_NOFOLLOW else 0)"

definition open_call where
  "open_call xa isdir dl h lib e path oflags arg w =
     with_path (path_resolution h lib e AT_FDCWD (Some path) PATH_MAX (open_flags oflags))
       (\<lambda>buf. open_path xa isdir (\<lambda>m. next_call dl (buf, oflags, m)) oflags arg buf) w"

definition openat where
  "openat xa isdir dl h lib e dfd path oflags arg w =
     with_path (path_resolution h lib e dfd (Some path) PATH_MAX (open_flags oflags))
       (\<lambda>buf. open_path xa isdir (\<lambda>m. next_call dl (dfd, buf, oflags, m)) oflags arg buf) w"

text \<open>Creating without ignoring \<^verbatim>\<open>EPERM\<close>: \<^verbatim>\<open>creat\<close> and \<^verbatim>\<open>mkdirat\<close>.\<close>

definition create_path ::
    "'w xattrs \<Rightarrow> (string \<Rightarrow> 'w \<Rightarrow> bool) \<Rightarrow> (32 word \<Rightarrow> 'w \<Rightarrow> (errno + int) \<times> 'w) \<Rightarrow> 32 word \<Rightarrow> string \<Rightarrow> 'w
     \<Rightarrow> (errno + int) \<times> 'w" where
  "create_path xa isdir next oldmode buf w =
     (let mode = user_mode (isdir buf w) oldmode in
      case next mode w of (r, w') \<Rightarrow> (r, set_attr xa MODE_ATTR buf oldmode mode w'))"

definition creat where
  "creat xa isdir dl h lib e path mode w =
     with_path (path_resolution h lib e AT_FDCWD (Some path) PATH_MAX 0)
       (\<lambda>buf. create_path xa isdir (\<lambda>m. next_call dl (buf, m)) mode buf) w"

definition mkdirat where
  "mkdirat xa isdir dl h lib e dfd path mode w =
     with_path (path_resolution h lib e dfd (Some path) PATH_MAX 0)
       (\<lambda>buf. create_path xa isdir (\<lambda>m. next_call dl (dfd, buf, m)) mode buf) w"

definition mkdir where
  "mkdir xa isdir dl h lib e path mode w = mkdirat xa isdir dl h lib e AT_FDCWD path mode w"

text \<open>\<^verbatim>\<open>mknodat\<close> makes a regular file: \<^verbatim>\<open>O_CREAT|O_WRONLY|O_TRUNC\<close>, then \<^verbatim>\<open>close\<close>.\<close>

definition mknodat where
  "mknodat xa isdir dl close h lib e dfd path mode w =
     (case openat xa isdir dl h lib e dfd path 0x241 mode w of
        Ret (Inr fd, w') \<Rightarrow> Ret (Inr 0, close fd w')
      | Ret (Inl x, w') \<Rightarrow> Ret (Inl x, w')
      | Err x \<Rightarrow> Err x | Undef \<Rightarrow> Undef | Diverge \<Rightarrow> Diverge)"

definition mknod where
  "mknod xa isdir dl close h lib e path mode w = mknodat xa isdir dl close h lib e AT_FDCWD path mode w"

end
