(* ===== verification/Exec.thy ===== *)
theory Exec
  imports Ldso Attrs
begin

text \<open>
  \<^verbatim>\<open>execve.c\<close>, \<^verbatim>\<open>execveat.c\<close>, \<^verbatim>\<open>posix_spawn.c\<close> and what they use of
  \<^verbatim>\<open>iamroot.c\<close>: a program is run by its dynamic loader, a script by the loader of its
  interpreter, any other by \<^verbatim>\<open>exec.sh\<close>. The result is the call that is made of the host, or the end
  of the process, or an error; the environment of the process is passed along.
\<close>

section \<open>Parameters\<close>

text \<open>
  An open file: the mode that \<^verbatim>\<open>fstat\<close> (of the library) answers, what \<^verbatim>\<open>read\<close> gives, and
  the size and the mapping that the check of the interpreter uses.
\<close>

record exec_file =
  e_mode :: "errno + 32 word"
  e_read :: "nat \<Rightarrow> errno + byte list"
  e_size :: "errno + nat"
  e_mmap :: "nat \<Rightarrow> errno + byte list"

text \<open>
  \<open>y_mode\<close> is the mode of \<^verbatim>\<open>next_fstatat\<close>, \<open>y_ignore\<close> the expression of
  \<^verbatim>\<open>execve.c\<close>, \<open>y_cache\<close> the lookup in the library cache.
\<close>

record runner = loader +
  y_mode :: "string \<Rightarrow> errno + 32 word"
  y_open :: "string \<Rightarrow> errno + exec_file"
  y_ignore :: "regex option"
  y_cache :: "string \<Rightarrow> nat \<Rightarrow> string run"

abbreviation (input) the_loader :: "runner \<Rightarrow> loader" where "the_loader y \<equiv> loader.truncate y"

section \<open>The constructor and the destructor\<close>

definition default_exec_ignore :: string where "default_exec_ignore = ''mountpoint''"

definition execve_init :: "(string \<Rightarrow> regex option) \<Rightarrow> env \<Rightarrow> regex option \<Rightarrow> regex option" where
  "execve_init regcomp env re =
     (if re \<noteq> None then re
      else regcomp (case env_get ''IAMROOT_EXEC_IGNORE'' env of None \<Rightarrow> default_exec_ignore | Some s \<Rightarrow> s))"

definition execve_fini :: "regex option \<Rightarrow> regex option" where "execve_fini re = None"

definition exec_ignored :: "regex option \<Rightarrow> string \<Rightarrow> bool" where
  "exec_ignored re path = (case re of None \<Rightarrow> False | Some m \<Rightarrow> m path = 0)"

section \<open>Which files can be run\<close>

definition S_IXUSR :: "32 word" where "S_IXUSR = 0x40"
definition SCRIPTMAG :: "byte list" where "SCRIPTMAG = [0x23, 0x21]"

definition fcan_exec :: "bool \<Rightarrow> exec_file \<Rightarrow> bool run" where
  "fcan_exec big f =
     run_bind (of_sum (e_mode f)) (\<lambda>mode.
       if mode AND S_IXUSR = 0 then Err ENOEXEC
       else run_bind (of_sum (e_read f 4)) (\<lambda>magic.
         if magic \<noteq> [] \<and> length magic < 4 then Err EIO
         else if magic = [] then Ret True
         else if take 2 magic = SCRIPTMAG then Ret True
         else if magic = ELFMAG then elf_has_interp big (e_size f) (e_mmap f)
         else Err ENOTSUP))"

definition is_suid :: "runner \<Rightarrow> string \<Rightarrow> bool run" where
  "is_suid y path = run_bind (of_sum (y_mode y path)) (\<lambda>mode. Ret (mode AND S_ISUID \<noteq> 0))"

definition can_exec :: "runner \<Rightarrow> string \<Rightarrow> bool run" where
  "can_exec y path =
     run_bind (is_suid y path) (\<lambda>suid.
       if suid then Ret False
       else run_bind (of_sum (y_open y path)) (\<lambda>f. fcan_exec (w_big (x_dso y)) f))"

section \<open>\<^verbatim>\<open>exec.sh\<close>\<close>

definition getexec :: "string \<Rightarrow> env \<Rightarrow> string" where
  "getexec pre env = (case env_get ''IAMROOT_EXEC'' env of None \<Rightarrow> pre @ ''/lib/iamroot/exec.sh'' | Some s \<Rightarrow> s)"

definition or_empty :: "string option \<Rightarrow> string" where
  "or_empty s = (case s of None \<Rightarrow> [] | Some v \<Rightarrow> v)"

definition exec_sh_file :: "runner \<Rightarrow> nat \<Rightarrow> env \<Rightarrow> string run" where
  "exec_sh_file y bufsiz env =
     (case Option.bind (env_get ''IAMROOT_ORIGIN'' env) (\<lambda>origin. found (x_find y ''exec.sh'' origin)) of
        Some s \<Rightarrow> Ret s
      | None \<Rightarrow>
          let s = strncpy_buf (getexec (x_prefix y) env) bufsiz
          in (case x_access y s of None \<Rightarrow> Ret s | Some e \<Rightarrow> Err e))"

text \<open>The first entries of \<^verbatim>\<open>interparg\<close>, and what the script finds in its environment;
  \<^verbatim>\<open>setenv\<close> does not take a null value.\<close>

definition exec_sh :: "runner \<Rightarrow> string \<Rightarrow> string option \<Rightarrow> nat \<Rightarrow> string list eff" where
  "exec_sh y path argv0 bufsiz =
     eff_bind (eff_get (exec_sh_file y bufsiz)) (\<lambda>script.
     eff_bind (eff_env (env_set ''IAMROOT_VERSION'' (x_version y) True)) (\<lambda>_.
     eff_bind (case argv0 of None \<Rightarrow> (\<lambda>_. Undef) | Some a \<Rightarrow> eff_env (env_set ''_argv0'' a True)) (\<lambda>_.
     eff_bind (eff_env (\<lambda>env. env_set ''_preload'' (or_empty (env_get ''LD_PRELOAD'' env)) True env)) (\<lambda>_.
     eff_bind (eff_env (\<lambda>env. env_set ''_library_path'' (or_empty (env_get ''LD_LIBRARY_PATH'' env)) True env)) (\<lambda>_.
     eff_bind (eff_env (env_unset ''LD_PRELOAD'')) (\<lambda>_.
     eff_bind (eff_env (env_unset ''LD_LIBRARY_PATH'')) (\<lambda>_.
       eff_ret [script, path])))))))"

section \<open>The call\<close>

text \<open>
  \<open>Kernel path argv envp\<close> is the call of the host, with the descriptor, flags and attributes the caller
  gave; \<open>Exit\<close> ends the process.
\<close>

datatype exec_call =
    Kernel string "string list" env
  | Exit int

text \<open>\<^verbatim>\<open>_POSIX_ARG_MAX\<close>, a number of bytes, bounds the number of arguments.\<close>

definition ARGS_MAX :: nat where "ARGS_MAX = 4096"

definition eff_catch :: "'a eff \<Rightarrow> (errno \<Rightarrow> 'a eff) \<Rightarrow> 'a eff" where
  "eff_catch m f env =
     run_bind (m env) (\<lambda>(r, env'). case r of Inl e \<Rightarrow> f e env' | Inr x \<Rightarrow> Ret (Inr x, env'))"

text \<open>The new vector: the entries of \<^verbatim>\<open>interparg\<close>, then the arguments but the first.\<close>

definition exec_argv :: "string list \<Rightarrow> string list \<Rightarrow> exec_call eff" where
  "exec_argv ip argv env =
     (let nargv = ip @ tl argv
      in if nargv = [] \<or> argv = [] then Undef
         else if Suc (length nargv) < ARGS_MAX then Ret (Inr (Kernel (hd nargv) nargv env), env)
         else Ret (Inl E2BIG, env))"

definition exec_script :: "runner \<Rightarrow> string \<Rightarrow> string list \<Rightarrow> exec_call eff" where
  "exec_script y path argv =
     eff_bind (exec_sh y path (case argv of [] \<Rightarrow> None | a # _ \<Rightarrow> Some a) (2 * PATH_MAX)) (\<lambda>ip. exec_argv ip argv)"

section \<open>\<^verbatim>\<open>execve\<close>\<close>

definition INTERPARG :: nat where "INTERPARG = 15"

definition interparg :: "string list \<Rightarrow> args" where
  "interparg ws = map Some ws @ replicate (INTERPARG - length ws) None"

definition strings_of :: "args \<Rightarrow> string list run" where
  "strings_of a = run_bind (count_args a) (\<lambda>n. Ret (map the (take n a)))"

text \<open>
  The script part: the vector, the program whose loader is to be run, and the offset behind it. The
  interpreter takes the place of the program, and the path as it was given follows it.
\<close>

definition through_script ::
    "runner \<Rightarrow> string \<Rightarrow> string \<Rightarrow> string \<Rightarrow> nat \<Rightarrow> nat \<Rightarrow> (string list \<times> string \<times> nat) eff" where
  "through_script y path argv0 program bufsiz off =
     eff_get (\<lambda>env.
       case interpreter_script (x_prog y) (x_errno y) program bufsiz off of
         Err e \<Rightarrow> if e \<noteq> ENOEXEC then Err e else Ret ([argv0], program, off)
       | Undef \<Rightarrow> Undef
       | Diverge \<Rightarrow> Diverge
       | Ret ws \<Rightarrow>
           let off1 = fold (\<lambda>w n. n + length w + 1) (butlast ws) off in
           run_bind (resolve (the_loader y) env AT_FDCWD (hd ws) (bufsiz - off1) 0) (\<lambda>interp.
             Ret (butlast ws @ [path], interp, off1 + length interp + 1)))"

text \<open>The dynamic loader itself: inside of the process, or as it is, with the environment it was given.\<close>

definition run_loader :: "(env \<Rightarrow> int run) \<Rightarrow> string \<Rightarrow> string list \<Rightarrow> bool \<Rightarrow> exec_call eff" where
  "run_loader internal buf argv null_envp =
     eff_catch (eff_bind (eff_get internal) (\<lambda>n. eff_ret (Exit n))) (\<lambda>e.
       if e \<noteq> EAGAIN then eff_fail e
       else (\<lambda>env. Ret (Inr (Kernel buf argv (if null_envp then None else env)), env)))"

definition run_ldso :: "runner \<Rightarrow> string \<Rightarrow> string list \<Rightarrow> string list \<times> string \<times> nat \<Rightarrow> nat \<Rightarrow> exec_call eff" where
  "run_ldso y path argv s bufsiz =
     (case s of (ws, program, off) \<Rightarrow>
        eff_bind
          (eff_catch (eff_bind (ldso (the_loader y) program (interparg ws) bufsiz off) (\<lambda>a. eff_ret (Some a)))
             (\<lambda>e. if e \<noteq> ENOEXEC then eff_fail e else eff_ret None))
          (\<lambda>r. case r of
              None \<Rightarrow> exec_script y path argv
            | Some a \<Rightarrow> eff_bind (eff_get (\<lambda>_. strings_of a)) (\<lambda>ip. exec_argv ip argv)))"

text \<open>
  The common text of the three calls: \<open>res\<close> resolves the path, \<open>internal\<close> is the loader inside of the
  process. The trace reads the entry behind the first argument.
\<close>

definition exec_with ::
    "runner \<Rightarrow> (env \<Rightarrow> nat \<Rightarrow> string run) \<Rightarrow> (env \<Rightarrow> int run) \<Rightarrow> string \<Rightarrow> string list \<Rightarrow> bool \<Rightarrow> exec_call eff" where
  "exec_with y res internal path argv null_envp =
     (if exec_ignored (y_ignore y) path then exec_script y path argv
      else let bufsiz = 2 * PATH_MAX in
        eff_bind (eff_get (\<lambda>env. res env bufsiz)) (\<lambda>program.
        case argv of [] \<Rightarrow> (\<lambda>_. Undef) | argv0 # _ \<Rightarrow>
        eff_bind (eff_get (\<lambda>_. can_exec y program)) (\<lambda>ok.
          if \<not> ok then exec_script y path argv
          else eff_bind (eff_get (\<lambda>env. Ret (inchroot env))) (\<lambda>inside.
            if \<not> inside then
              eff_bind (eff_catch (preload_libiamroot (the_loader y)) (\<lambda>_. eff_ret 0)) (\<lambda>_ env.
                Ret (Inr (Kernel path argv env), env))
            else eff_bind (through_script y path argv0 program bufsiz (length program + 1)) (\<lambda>s.
              if is_ldso (x_re y) (basename path) then run_loader internal program argv null_envp
              else run_ldso y path argv s bufsiz)))))"

text \<open>
  The third argument of \<^verbatim>\<open>execve\<close>: null, the environment of the process itself, or another vector.
  The last is put into the environment, variable by variable: \<^verbatim>\<open>_resetenv\<close> as it acts on the values
  when no string of a variable other than \<^verbatim>\<open>IAMROOT*\<close> was allocated by \<^verbatim>\<open>setenv\<close> of the library
  (\<open>resetenv_keeps_others\<close>). With such a string the source frees it and reads it again; that is in the
  model of the allocations only (\<open>Env_Store_Facts\<close>), and outside of this one.
\<close>

datatype envp = Null | Environ | Vector "string list"

fun put_all :: "string list \<Rightarrow> env \<Rightarrow> env" where
  "put_all [] env = env"
| "put_all (s # ss) env = put_all ss (case env_put s env of Inl e \<Rightarrow> env | Inr env' \<Rightarrow> env')"

definition reset_env :: "envp \<Rightarrow> env \<Rightarrow> env" where
  "reset_env p env = (case p of Vector ss \<Rightarrow> put_all ss env | _ \<Rightarrow> env)"

definition execve :: "runner \<Rightarrow> string \<Rightarrow> string list \<Rightarrow> envp \<Rightarrow> exec_call eff" where
  "execve y path argv p env =
     exec_with y (\<lambda>env n. resolve (the_loader y) env AT_FDCWD path n 0)
       (ldso_execve (the_loader y) (y_cache y) (x_errno y) argv) path argv (p = Null) (reset_env p env)"

definition execveat :: "runner \<Rightarrow> int \<Rightarrow> string \<Rightarrow> string list \<Rightarrow> envp \<Rightarrow> 32 word \<Rightarrow> exec_call eff" where
  "execveat y dfd path argv p atflags env =
     exec_with y (\<lambda>env n. resolve (the_loader y) env dfd path n atflags)
       (\<lambda>_. ldso_execveat) path argv (p = Null) (reset_env p env)"

definition posix_spawn :: "runner \<Rightarrow> string \<Rightarrow> string list \<Rightarrow> envp \<Rightarrow> exec_call eff" where
  "posix_spawn y path argv p env =
     exec_with y (\<lambda>env n. resolve (the_loader y) env AT_FDCWD path n 0)
       (\<lambda>_. ldso_posix_spawn) path argv (p = Null) (reset_env p env)"

end
