(* ===== verification/Exec_Path.thy ===== *)
theory Exec_Path
  imports Exec
begin

text \<open>
  The other calls that run a program: \<^verbatim>\<open>execvpe.c\<close>, \<^verbatim>\<open>execvp.c\<close>,
  \<^verbatim>\<open>posix_spawnp.c\<close> search it along \<^verbatim>\<open>PATH\<close>; \<^verbatim>\<open>execv.c\<close>,
  \<^verbatim>\<open>execl.c\<close>, \<^verbatim>\<open>execle.c\<close>, \<^verbatim>\<open>execlp.c\<close> and \<^verbatim>\<open>exect.c\<close> forward;
  \<^verbatim>\<open>fexecve.c\<close> calls the kernel. The host answers a call with an error, or not at all.
\<close>

type_synonym kernel = "string \<Rightarrow> string list \<Rightarrow> env \<Rightarrow> errno option"

definition attempt :: "kernel \<Rightarrow> exec_call eff \<Rightarrow> exec_call eff" where
  "attempt kern m =
     eff_bind m (\<lambda>c env. case c of
         Exit n \<Rightarrow> Ret (Inr c, env)
       | Kernel path argv ev \<Rightarrow>
           (case kern path argv ev of None \<Rightarrow> Ret (Inr c, env) | Some e \<Rightarrow> Ret (Inl e, env)))"

section \<open>Along \<^verbatim>\<open>PATH\<close>\<close>

text \<open>\<open>try b cur\<close> runs the candidate \<open>b\<close>; \<open>cur\<close> is \<^verbatim>\<open>errno\<close> before, an error is \<^verbatim>\<open>errno\<close> after.\<close>

fun exec_search ::
    "(string \<Rightarrow> errno \<Rightarrow> 'a eff) \<Rightarrow> nat \<Rightarrow> string \<Rightarrow> string list \<Rightarrow> bool \<Rightarrow> errno \<Rightarrow> 'a eff" where
  "exec_search try l name [] seen cur = eff_fail (if seen then EACCES else cur)"
| "exec_search try l name (d # ds) seen cur =
     (if l \<le> length d then exec_search try l name ds seen cur
      else eff_catch (try (candidate d name) cur) (\<lambda>e.
        if e = EACCES then exec_search try l name ds True e
        else if e = ENOENT \<or> e = ENOTDIR then exec_search try l name ds seen e
        else eff_fail e))"

definition DEFPATH :: string where "DEFPATH = ''/usr/bin:/bin''"

definition along_path :: "(string \<Rightarrow> errno \<Rightarrow> 'a eff) \<Rightarrow> (string \<Rightarrow> 'a eff) \<Rightarrow> string \<Rightarrow> 'a eff" where
  "along_path try direct name env =
     (if name = [] then eff_fail ENOENT env
      else if slash \<in> set name then direct name env
      else let path = (case env_get ''PATH'' env of None \<Rightarrow> DEFPATH | Some p \<Rightarrow> p) in
        if NAME_MAX < strnlen name (NAME_MAX + 1) then eff_fail ENAMETOOLONG env
        else exec_search try (Suc (strnlen path (PATH_MAX - 1))) name (split_at colon path) False ENOENT env)"

text \<open>\<^verbatim>\<open>__execve\<close> takes the root directory off first.\<close>

definition execve_below :: "runner \<Rightarrow> kernel \<Rightarrow> string list \<Rightarrow> envp \<Rightarrow> string \<Rightarrow> exec_call eff" where
  "execve_below y kern argv p path env = attempt kern (execve y (execve_path env path) argv p) env"

definition execvpe :: "runner \<Rightarrow> kernel \<Rightarrow> string \<Rightarrow> string list \<Rightarrow> envp \<Rightarrow> exec_call eff" where
  "execvpe y kern name argv p =
     along_path (\<lambda>b _. execve_below y kern argv p b) (execve_below y kern argv p) name"

definition execvp :: "runner \<Rightarrow> kernel \<Rightarrow> string \<Rightarrow> string list \<Rightarrow> exec_call eff" where
  "execvp y kern name argv =
     along_path (\<lambda>b _. execve_below y kern argv Environ b) (execve_below y kern argv Environ) name"

text \<open>
  \<^verbatim>\<open>posix_spawn\<close> of the host answers an error number and leaves \<^verbatim>\<open>errno\<close> alone, which is what
  the search looks at. The call with a slash hands the answer on.
\<close>

definition spawn_try :: "runner \<Rightarrow> kernel \<Rightarrow> string list \<Rightarrow> envp \<Rightarrow> string \<Rightarrow> errno \<Rightarrow> exec_call eff" where
  "spawn_try y kern argv p b cur =
     attempt (\<lambda>path av ev. map_option (\<lambda>_. cur) (kern path av ev)) (posix_spawn y b argv p)"

definition posix_spawnp :: "runner \<Rightarrow> kernel \<Rightarrow> string \<Rightarrow> string list \<Rightarrow> envp \<Rightarrow> exec_call eff" where
  "posix_spawnp y kern name argv p =
     along_path (spawn_try y kern argv p) (\<lambda>b. attempt kern (posix_spawn y b argv p)) name"

section \<open>Forwarding\<close>

definition execv :: "runner \<Rightarrow> kernel \<Rightarrow> string \<Rightarrow> string list \<Rightarrow> exec_call eff" where
  "execv y kern path argv = execvpe y kern path argv Environ"

definition execl :: "runner \<Rightarrow> kernel \<Rightarrow> string \<Rightarrow> string list \<Rightarrow> exec_call eff" where
  "execl y kern path args =
     (if length args < ARGS_MAX then attempt kern (execve y path args Environ) else eff_fail E2BIG)"

definition execle :: "runner \<Rightarrow> kernel \<Rightarrow> string \<Rightarrow> string list \<Rightarrow> envp \<Rightarrow> exec_call eff" where
  "execle y kern path args p =
     (if length args < ARGS_MAX then attempt kern (execve y path args p) else eff_fail E2BIG)"

definition execlp :: "runner \<Rightarrow> kernel \<Rightarrow> string \<Rightarrow> string list \<Rightarrow> exec_call eff" where
  "execlp y kern name args =
     (if length args < ARGS_MAX then execvpe y kern name args Environ else eff_fail E2BIG)"

definition exect :: "runner \<Rightarrow> kernel \<Rightarrow> string \<Rightarrow> string list \<Rightarrow> envp \<Rightarrow> exec_call eff" where
  "exect y kern path argv p = attempt kern (execve y path argv p)"

section \<open>\<^verbatim>\<open>fexecve\<close>\<close>

text \<open>
  The wrapper of the C library answers \<open>-1\<close>, which is taken for the negated error number of a raw
  system call: it is not \<^verbatim>\<open>-ENOSYS\<close>, so the second half of the function is never reached, and
  \<^verbatim>\<open>__syscall_ret\<close> makes the error number \<open>1\<close> of it.
\<close>

definition syscall_ret :: "int \<Rightarrow> errno + int" where
  "syscall_ret r = (if -4096 < r \<and> r < 0 then Inl (if r = -1 then EPERM else EOTHER (nat (- r))) else Inr r)"

definition fexecve :: "(int \<Rightarrow> string list \<Rightarrow> envp \<Rightarrow> errno option) \<Rightarrow> (string \<Rightarrow> errno option) \<Rightarrow> int \<Rightarrow> string list \<Rightarrow> envp
    \<Rightarrow> errno + int" where
  "fexecve sys fallback fd argv p =
     (let r = (case sys fd argv p of None \<Rightarrow> 0 | Some _ \<Rightarrow> -1)
      in if r \<noteq> -38 then syscall_ret r
         else (case fallback (procfdname (word_of_int fd)) of
             None \<Rightarrow> Inr 0 | Some e \<Rightarrow> Inl (if e = ENOENT then EBADF else e)))"

text \<open>A call that fails is always reported as \<^verbatim>\<open>EPERM\<close>.\<close>

lemma fexecve_error: "sys fd argv p = Some e \<Longrightarrow> fexecve sys fallback fd argv p = Inl EPERM"
  by (simp add: fexecve_def syscall_ret_def)

end
