(* ===== verification/Env_Type.thy ===== *)
theory Env_Type
  imports Ident Exec_Path
begin

text \<open>
  The type of the environment: every entry is \<^verbatim>\<open>NAME=VALUE\<close> with a name that is not empty, and no
  name stands for two entries. All the calls that change it keep it so, and it is such an environment
  that a program is started with.
\<close>

section \<open>Entries\<close>

definition assignment :: "string \<Rightarrow> bool" where
  "assignment s \<longleftrightarrow> env_name s \<noteq> [] \<and> env_name s \<noteq> s"

definition env_typed :: "env \<Rightarrow> bool" where
  "env_typed env = (case env of None \<Rightarrow> True | Some es \<Rightarrow> list_all assignment es \<and> distinct (map env_name es))"

lemma env_typed_None [simp]: "env_typed None"
  by (simp add: env_typed_def)

lemma assignment_assign [simp]: "valid_name n \<Longrightarrow> assignment (n @ eq_sign # v)"
  by (auto simp: assignment_def valid_name_def)

lemma assignment_valid: "assignment s \<Longrightarrow> valid_name (env_name s)"
  by (simp add: assignment_def valid_name_def)

lemma assignment_split:
  assumes "assignment s"
  obtains v where "s = env_name s @ eq_sign # v"
proof -
  have s: "s = env_name s @ dropWhile (\<lambda>c. c \<noteq> eq_sign) s" by (simp add: env_name_def)
  with assms have "dropWhile (\<lambda>c. c \<noteq> eq_sign) s \<noteq> []" by (metis append_Nil2 assignment_def)
  then have "dropWhile (\<lambda>c. c \<noteq> eq_sign) s = eq_sign # tl (dropWhile (\<lambda>c. c \<noteq> eq_sign) s)"
    by (metis (mono_tags, lifting) hd_dropWhile list.exhaust_sel)
  with s show thesis using that by metis
qed

lemma assignment_match: "valid_name n \<Longrightarrow> assignment s \<Longrightarrow> env_match n s \<longleftrightarrow> env_name s = n"
  by (metis assignment_split env_match_iff env_name_append)

lemma names_replace:
  assumes "valid_name n" and "assignment s" and "env_name s = n" and "list_all assignment es"
  shows "list_all assignment (env_replace n s es)"
    and "set (map env_name (env_replace n s es)) = insert n (set (map env_name es))"
    and "distinct (map env_name es) \<Longrightarrow> distinct (map env_name (env_replace n s es))"
  using assms by (induction es) (auto simp: assignment_match)

lemma env_insert_typed:
  "valid_name n \<Longrightarrow> assignment s \<Longrightarrow> env_name s = n \<Longrightarrow> env_typed env \<Longrightarrow> env_typed (env_insert n s env)"
  by (auto simp: env_typed_def env_insert_def names_replace split: option.splits)

section \<open>Calls\<close>

named_theorems typed_intros

lemma env_set_typed [typed_intros]: "env_set n v ow env = Inr env' \<Longrightarrow> env_typed env \<Longrightarrow> env_typed env'"
  by (auto simp: env_set_def intro: env_insert_typed split: if_splits)

lemma env_unset_typed [typed_intros]: "env_unset n env = Inr env' \<Longrightarrow> env_typed env \<Longrightarrow> env_typed env'"
  by (auto simp: env_unset_def env_typed_def list_all_iff distinct_map_filter split: if_splits option.splits)

lemma env_put_typed [typed_intros]: "env_put s env = Inr env' \<Longrightarrow> env_typed env \<Longrightarrow> env_typed env'"
  by (auto simp: env_put_def assignment_def valid_name_def intro: env_unset_typed env_insert_typed split: if_splits)

lemma write_id_typed [typed_intros]: "write_id n i env = Inr env' \<Longrightarrow> env_typed env \<Longrightarrow> env_typed env'"
  by (auto simp: write_id_def put_id_def intro: typed_intros split: if_splits sum.splits)

lemma put_id_typed [typed_intros]: "put_id n i env = Inr env' \<Longrightarrow> env_typed env \<Longrightarrow> env_typed env'"
  by (auto simp: put_id_def intro: typed_intros split: sum.splits)

lemma set_pair_typed:
  assumes "env_typed env" and "\<And>i e e'. setr i e = Inr e' \<Longrightarrow> env_typed e \<Longrightarrow> env_typed e'"
    and "\<And>i e e'. sete i e = Inr e' \<Longrightarrow> env_typed e \<Longrightarrow> env_typed e'"
  shows "env_typed (snd (set_pair setr sete r e env))"
  using assms by (auto simp: set_pair_def split: sum.splits if_splits)

lemma set_saved_typed: "env_typed (snd re) \<Longrightarrow> env_typed (snd (set_saved n s re))"
  by (cases re) (auto simp: set_saved_def intro: typed_intros split: option.splits sum.splits)

lemma setroot_typed [typed_intros]: "setrootdir p env = Inr env' \<Longrightarrow> env_typed env \<Longrightarrow> env_typed env'"
  by (auto simp: setrootdir_def intro: typed_intros split: option.splits)

lemma chrootdir_typed [typed_intros]: "chrootdir d env = Inr env' \<Longrightarrow> env_typed env \<Longrightarrow> env_typed env'"
  by (auto simp: chrootdir_def intro: typed_intros split: sum.splits if_splits)

lemma setgroups_typed [typed_intros]: "setgroups gs env = Inr env' \<Longrightarrow> env_typed env \<Longrightarrow> env_typed env'"
  by (auto simp: setgroups_def intro: typed_intros split: sum.splits if_splits)

lemma map_sum_Inr: "map_sum f g s = Inr y \<longleftrightarrow> (\<exists>x. s = Inr x \<and> y = g x)"
  by (cases s) auto

lemma preload_so_typed [typed_intros]: "preload_so so env = Inr (r, env') \<Longrightarrow> env_typed env \<Longrightarrow> env_typed env'"
  by (auto simp: preload_so_def setld_preload_def map_sum_Inr intro: typed_intros split: sum.splits if_splits option.splits)

text \<open>The calls of a program that change the environment; a call that fails may have changed a part.\<close>

datatype var_call =
    Setenv string string bool
  | Unsetenv string
  | Putenv string
  | Clearenv
  | Set_root "string option"
  | Leave_root "errno + string"
  | Setuid "32 word" | Seteuid "32 word" | Setgid "32 word" | Setegid "32 word" | Setfsuid "32 word" | Setfsgid "32 word"
  | Setreuid "32 word" "32 word"
  | Setregid "32 word" "32 word"
  | Setresuid "32 word" "32 word" "32 word"
  | Setresgid "32 word" "32 word" "32 word"
  | Setgroups "32 word list"
  | Initgroups "string \<Rightarrow> 32 word \<Rightarrow> 32 word list option" string "32 word"
  | Umask "32 word"

definition or_same :: "env \<Rightarrow> 'e + env \<Rightarrow> env" where
  "or_same env r = (case r of Inl e \<Rightarrow> env | Inr env' \<Rightarrow> env')"

definition do_var_call :: "var_call \<Rightarrow> env \<Rightarrow> env" where
  "do_var_call c env =
     (case c of
        Setenv n v ow \<Rightarrow> or_same env (env_set n v ow env)
      | Unsetenv n \<Rightarrow> or_same env (env_unset n env)
      | Putenv s \<Rightarrow> or_same env (env_put s env)
      | Clearenv \<Rightarrow> env_clear env
      | Set_root p \<Rightarrow> or_same env (setrootdir p env)
      | Leave_root d \<Rightarrow> or_same env (chrootdir d env)
      | Setuid i \<Rightarrow> or_same env (setuid i env)
      | Seteuid i \<Rightarrow> or_same env (seteuid i env)
      | Setgid i \<Rightarrow> or_same env (setgid i env)
      | Setegid i \<Rightarrow> or_same env (setegid i env)
      | Setfsuid i \<Rightarrow> or_same env (setfsuid i env)
      | Setfsgid i \<Rightarrow> or_same env (setfsgid i env)
      | Setreuid r e \<Rightarrow> snd (setreuid r e env)
      | Setregid r e \<Rightarrow> snd (setregid r e env)
      | Setresuid r e s \<Rightarrow> snd (setresuid r e s env)
      | Setresgid r e s \<Rightarrow> snd (setresgid r e s env)
      | Setgroups gs \<Rightarrow> or_same env (setgroups gs env)
      | Initgroups gl user g \<Rightarrow> or_same env (initgroups gl user g env)
      | Umask m \<Rightarrow> snd (snd (umask m env)))"

lemma or_same_typed: "env_typed env \<Longrightarrow> (\<And>env'. r = Inr env' \<Longrightarrow> env_typed env') \<Longrightarrow> env_typed (or_same env r)"
  by (cases r) (auto simp: or_same_def)

lemmas id_calls = setuid_def seteuid_def setgid_def setegid_def setfsuid_def setfsgid_def

lemma setreuid_typed: "env_typed env \<Longrightarrow> env_typed (snd (setreuid r e env))"
  unfolding setreuid_def by (rule set_pair_typed) (auto simp: id_calls intro: typed_intros)

lemma setregid_typed: "env_typed env \<Longrightarrow> env_typed (snd (setregid r e env))"
  unfolding setregid_def by (rule set_pair_typed) (auto simp: id_calls intro: typed_intros)

lemma initgroups_typed [typed_intros]:
  "initgroups gl user g env = Inr env' \<Longrightarrow> env_typed env \<Longrightarrow> env_typed env'"
  by (auto simp: initgroups_def map_sum_Inr intro: typed_intros split: option.splits)

lemma umask_typed: "env_typed env \<Longrightarrow> env_typed (snd (snd (umask m env)))"
  by (auto simp: umask_def setumask_def intro: typed_intros split: sum.splits)

lemma var_call_typed: "env_typed env \<Longrightarrow> env_typed (do_var_call c env)"
  by (cases c)
    (auto simp: do_var_call_def id_calls env_clear_def setresuid_def setresgid_def
      intro: or_same_typed typed_intros setreuid_typed setregid_typed set_saved_typed umask_typed)

section \<open>Starting a program\<close>

text \<open>A step that keeps the environment well typed and answers what \<open>Q\<close> says.\<close>

definition eff_typed :: "('a \<Rightarrow> bool) \<Rightarrow> 'a eff \<Rightarrow> bool" where
  "eff_typed Q m \<longleftrightarrow>
     (\<forall>env r env'. env_typed env \<longrightarrow> m env = Ret (r, env') \<longrightarrow>
        env_typed env' \<and> (case r of Inl e \<Rightarrow> True | Inr x \<Rightarrow> Q x))"

abbreviation any :: "'a \<Rightarrow> bool" where "any x \<equiv> True"

named_theorems eff_intros

lemma typed_ret [eff_intros]: "Q x \<Longrightarrow> eff_typed Q (eff_ret x)"
  by (simp add: eff_typed_def eff_ret_def)

lemma typed_fail [eff_intros]: "eff_typed Q (eff_fail e)"
  by (simp add: eff_typed_def eff_fail_def)

lemma typed_undef [eff_intros]: "eff_typed Q (\<lambda>_. Undef)"
  by (simp add: eff_typed_def)

lemma typed_get [eff_intros]: "eff_typed any (eff_get g)"
  by (auto simp: eff_typed_def eff_get_def split: run.splits)

lemma typed_env [eff_intros]:
  "(\<And>env env'. g env = Inr env' \<Longrightarrow> env_typed env \<Longrightarrow> env_typed env') \<Longrightarrow> eff_typed any (eff_env g)"
  by (auto simp: eff_typed_def eff_env_def split: sum.splits)

lemma typed_bind [eff_intros]:
  assumes "eff_typed any m" and "\<And>x. eff_typed Q (f x)"
  shows "eff_typed Q (eff_bind m f)"
  unfolding eff_typed_def
proof (intro allI impI)
  fix env r env'
  assume env: "env_typed env" and b: "eff_bind m f env = Ret (r, env')"
  then obtain r1 env1 where m: "m env = Ret (r1, env1)"
    by (cases "m env") (auto simp: eff_bind_def)
  have t: "env_typed env1" using assms(1) env m by (auto simp: eff_typed_def)
  show "env_typed env' \<and> (case r of Inl e \<Rightarrow> True | Inr x \<Rightarrow> Q x)"
  proof (cases r1)
    case (Inl e)
    with b m t show ?thesis by (auto simp: eff_bind_def)
  next
    case (Inr x)
    with b m have "f x env1 = Ret (r, env')" by (simp add: eff_bind_def)
    with assms(2) [of x] t show ?thesis by (auto simp: eff_typed_def)
  qed
qed

lemma typed_catch [eff_intros]:
  assumes "eff_typed Q m" and "\<And>e. eff_typed Q (f e)"
  shows "eff_typed Q (eff_catch m f)"
  unfolding eff_typed_def
proof (intro allI impI)
  fix env r env'
  assume env: "env_typed env" and b: "eff_catch m f env = Ret (r, env')"
  then obtain r1 env1 where m: "m env = Ret (r1, env1)"
    by (cases "m env") (auto simp: eff_catch_def)
  have t: "env_typed env1 \<and> (case r1 of Inl e \<Rightarrow> True | Inr x \<Rightarrow> Q x)"
    using assms(1) env m by (auto simp: eff_typed_def)
  show "env_typed env' \<and> (case r of Inl e \<Rightarrow> True | Inr x \<Rightarrow> Q x)"
  proof (cases r1)
    case (Inr x)
    with b m t show ?thesis by (auto simp: eff_catch_def)
  next
    case (Inl e)
    with b m have "f e env1 = Ret (r, env')" by (simp add: eff_catch_def)
    with assms(2) [of e] t show ?thesis by (auto simp: eff_typed_def)
  qed
qed

definition call_typed :: "exec_call \<Rightarrow> bool" where
  "call_typed c = (case c of Kernel path argv ev \<Rightarrow> env_typed ev | Exit n \<Rightarrow> True)"

lemma typed_exec_argv [eff_intros]: "eff_typed call_typed (exec_argv ip argv)"
  by (auto simp: eff_typed_def exec_argv_def call_typed_def Let_def)

lemma typed_kernel [eff_intros]: "eff_typed call_typed (\<lambda>env. Ret (Inr (Kernel path argv env), env))"
  by (auto simp: eff_typed_def call_typed_def)

lemma typed_kernel_null [eff_intros]:
  "eff_typed call_typed (\<lambda>env. Ret (Inr (Kernel path argv (if b then None else env)), env))"
  by (auto simp: eff_typed_def call_typed_def)

lemma typed_exec_sh [eff_intros]: "eff_typed any (exec_sh y path a n)"
  unfolding exec_sh_def by (auto intro!: eff_intros intro: typed_intros split: option.splits)

lemma typed_exec_script [eff_intros]: "eff_typed call_typed (exec_script y path argv)"
  unfolding exec_script_def by (intro eff_intros)

lemma typed_ldso_setenv [eff_intros]: "eff_typed any (ldso_setenv s preload libpath rpath a)"
  unfolding ldso_setenv_def Let_def by (auto intro!: eff_intros intro: typed_intros split: option.splits)

lemma typed_ldso_args [eff_intros]: "eff_typed any (ldso_args s preload libpath rpath interp path a)"
  unfolding ldso_args_def Let_def by (intro eff_intros)

lemma typed_ldso [eff_intros]: "eff_typed any (ldso x path a bufsiz off)"
  unfolding ldso_def Let_def by (auto intro!: eff_intros intro: typed_intros split: prod.splits)

lemma typed_preload [eff_intros]: "eff_typed any (preload_libiamroot x)"
  unfolding preload_libiamroot_def
  by (auto intro!: eff_intros split: prod.splits)
    (auto simp: eff_typed_def intro: typed_intros split: sum.splits)

lemma typed_run_loader [eff_intros]: "eff_typed call_typed (run_loader internal buf argv nl)"
  unfolding run_loader_def by (auto intro!: eff_intros simp: call_typed_def)

lemma typed_run_ldso [eff_intros]: "eff_typed call_typed (run_ldso y path argv s bufsiz)"
  unfolding run_ldso_def by (auto intro!: eff_intros split: prod.splits option.splits)

lemma typed_through [eff_intros]: "eff_typed any (through_script y path a program bufsiz off)"
  unfolding through_script_def by (rule typed_get)

lemma typed_exec_with: "eff_typed call_typed (exec_with y res internal path argv nl)"
  unfolding exec_with_def Let_def by (auto intro!: eff_intros split: list.splits)

lemma put_all_typed: "env_typed env \<Longrightarrow> env_typed (put_all ss env)"
  by (induction ss arbitrary: env) (auto intro: typed_intros split: sum.splits)

lemma reset_env_typed: "env_typed env \<Longrightarrow> env_typed (reset_env p env)"
  by (auto simp: reset_env_def put_all_typed split: envp.splits)

section \<open>The property\<close>

definition exec_typed :: "((errno + exec_call) \<times> env) run \<Rightarrow> bool" where
  "exec_typed r =
     (case r of
        Ret (Inr c, env) \<Rightarrow> env_typed env \<and> call_typed c
      | Ret (Inl e, env) \<Rightarrow> env_typed env
      | _ \<Rightarrow> True)"

lemma exec_typed_with: "env_typed env \<Longrightarrow> exec_typed (exec_with y res internal path argv nl (reset_env p env))"
  using typed_exec_with [of y res internal path argv nl] reset_env_typed [of env p]
  by (auto simp: exec_typed_def eff_typed_def split: run.splits prod.splits sum.splits)

text \<open>
  C8: The environment is well typed after every sequence of the calls that change it, failed ones
  included, and it is well typed after the calls that run a program and when the program starts: every
  entry has a name, and no name has two entries. This is about the list of strings: that the memory behind
  it is well used is the matter of \<open>Env_Store_Facts\<close>, and does not hold for the replacement of the
  whole environment by \<^verbatim>\<open>_resetenv\<close> (\<open>reset_env\<close>), which the calls that run a program
  with another environment make.
\<close>

theorem environment_well_typed:
  assumes "env_typed env"
  shows "let env' = fold do_var_call cs env
    in env_typed env' \<and> exec_typed (execve y path argv p env')
       \<and> exec_typed (execveat y dfd path argv p atflags env') \<and> exec_typed (posix_spawn y path argv p env')"
proof -
  have "env_typed (fold do_var_call cs env)"
    using assms by (induction cs arbitrary: env) (auto simp: var_call_typed)
  then show ?thesis
    by (simp add: Let_def execve_def execveat_def posix_spawn_def exec_typed_with)
qed

theorem environment_well_typed_witness:
  "env_typed (Some [''A=1'', ''B=''])
   \<and> env_typed (fold do_var_call [Setuid 5, Setreuid 7 (- 1), Putenv ''A=2'', Unsetenv ''B''] (Some [''A=1'', ''B='']))
   \<and> fold do_var_call [Setuid 5, Setreuid 7 (- 1), Putenv ''A=2'', Unsetenv ''B''] (Some [''A=1'', ''B=''])
       = Some [''A=2'', ''IAMROOT_UID=7'']"
proof (intro conjI)
  show t: "env_typed (Some [''A=1'', ''B=''])"
    by code_simp
  show "env_typed (fold do_var_call [Setuid 5, Setreuid 7 (- 1), Putenv ''A=2'', Unsetenv ''B''] (Some [''A=1'', ''B='']))"
    using environment_well_typed [OF t] unfolding Let_def by blast
  show "fold do_var_call [Setuid 5, Setreuid 7 (- 1), Putenv ''A=2'', Unsetenv ''B''] (Some [''A=1'', ''B=''])
       = Some [''A=2'', ''IAMROOT_UID=7'']"
    by code_simp
qed

end
