(* ===== verification/Path_Res_Facts.thy ===== *)
theory Path_Res_Facts
  imports Path_Res Realpath_Facts
begin

text \<open>
  What \<^verbatim>\<open>path_resolution\<close> computes: sanitizing keeps the components of a path, a
  resolution without links is lexical normalisation below the root directory, and what follows for
  containment in the chroot.
\<close>

section \<open>Components\<close>

lemma norm_comps_append: "norm_comps st (xs @ ys) = norm_comps (norm_comps st xs) ys"
  by (induction st xs rule: norm_comps.induct) auto

lemma norm_comps_good: "list_all good cs \<Longrightarrow> norm_comps st cs = st @ cs"
  by (induction st cs rule: norm_comps.induct) (auto simp: good_def)

lemma norm_comps_names:
  "''..'' \<notin> set cs \<Longrightarrow> norm_comps st cs = st @ filter (\<lambda>c. c \<noteq> [] \<and> c \<noteq> ''.'') cs"
  by (induction st cs rule: norm_comps.induct) auto

lemma norm_comps_set: "list_all good st \<Longrightarrow> \<forall>c \<in> set cs. slash \<notin> set c \<Longrightarrow> list_all good (norm_comps st cs)"
proof (induction st cs rule: norm_comps.induct)
  case (2 st c cs)
  have "list_all good (butlast st)" using 2(4) by (auto simp: list_all_iff dest: in_set_butlastD)
  moreover have "good c" if "c \<noteq> []" "c \<noteq> ''.''" "c \<noteq> ''..''" using that 2(5) by (simp add: good_def)
  ultimately show ?case using 2 by simp
qed simp

lemma norm_comps_ups: "norm_comps st (replicate k ''..'') = take (length st - k) st"
proof (induction k arbitrary: st)
  case (Suc k)
  have "norm_comps st (replicate (Suc k) ''..'') = norm_comps (butlast st) (replicate k ''..'')" by simp
  also have "\<dots> = take (length st - Suc k) (butlast st)" using Suc by simp
  also have "\<dots> = take (length st - Suc k) st" by (simp add: butlast_conv_take take_take)
  finally show ?case .
qed simp

text \<open>A canonical path is its own normal form.\<close>

lemma lexical_canonical:
  assumes "canonical r"
  shows "lexical r = r"
proof -
  obtain root cs where root: "root \<in> {[slash], [slash, slash]}" and cs: "list_all good cs"
    and r: "r = root @ join_with slash cs" using assms by (auto simp: canonical_def)
  have items: "\<forall>x \<in> set cs. x \<noteq> [] \<and> slash \<notin> set x" using cs by (auto simp: list_all_iff good_def)
  have ns: "\<not> starts_with (join_with slash cs) slash"
    using join_ends [of cs] items by (cases "cs = []") auto
  have "norm_comps [] (split_at slash (join_with slash cs)) = cs"
    using items cs by (cases "cs = []") (auto simp: split_join_with norm_comps_good)
  then have "norm_comps [] (split_at slash r) = cs" using root r by auto
  with root r ns show ?thesis unfolding lexical_def by (cases "join_with slash cs") auto
qed

section \<open>Sanitizing\<close>

lemma strip_dot_cases:
  "strip_dot s = s \<or> (\<exists>x. s = x @ ''/.'' \<and> x \<noteq> [] \<and> strip_dot s = strip_dot x)"
proof (cases "2 < length s \<and> drop (length s - 2) s = ''/.''")
  case True
  then have "s = take (length s - 2) s @ ''/.''" by (metis append_take_drop_id)
  moreover have "take (length s - 2) s \<noteq> []" using True by auto
  moreover have "strip_dot s = strip_dot (take (length s - 2) s)" using True by (simp add: strip_dot.simps [of s])
  ultimately show ?thesis by blast
next
  case False
  then have "strip_dot s = s" using strip_dot.simps [of s] by metis
  then show ?thesis ..
qed

lemma strip_tail_cases:
  "strip_tail s = s \<or> (\<exists>x. s = x @ [slash] \<and> x \<noteq> [] \<and> strip_tail s = strip_tail x)"
proof (cases "1 < length s \<and> last s = slash")
  case True
  then have "s = butlast s @ [slash]" "butlast s \<noteq> []"
    by (metis append_butlast_last_id list.size(3) not_one_less_zero) (cases s; use True in auto)
  moreover have "strip_tail s = strip_tail (butlast s)" using True by (simp add: strip_tail.simps [of s])
  ultimately show ?thesis by blast
next
  case False
  then have "strip_tail s = s" using strip_tail.simps [of s] by metis
  then show ?thesis ..
qed

text \<open>What stripping the end of a path keeps.\<close>

definition strips :: "string \<Rightarrow> string \<Rightarrow> bool" where
  "strips s t \<longleftrightarrow> prefix t s \<and> (s \<noteq> [] \<longrightarrow> t \<noteq> []) \<and>
     (\<forall>st. norm_comps st (split_at slash t) = norm_comps st (split_at slash s))"

lemma strips_refl: "strips s s"
  by (simp add: strips_def)

lemma strips_trans: "strips s t \<Longrightarrow> strips t u \<Longrightarrow> strips s u"
  by (auto simp: strips_def)

lemma strips_dot: "x \<noteq> [] \<Longrightarrow> strips (x @ ''/.'') x"
  using split_at_append [of slash x "''.''"]
  by (auto simp: strips_def norm_comps_append slash_def)

lemma strips_slash: "x \<noteq> [] \<Longrightarrow> strips (x @ [slash]) x"
  using split_at_append [of slash x "[]"] by (auto simp: strips_def norm_comps_append)

lemma strip_dot_strips: "strips s (strip_dot s)"
proof (induction "length s" arbitrary: s rule: less_induct)
  case less
  show ?case
    using strip_dot_cases [of s]
  proof
    assume "\<exists>x. s = x @ ''/.'' \<and> x \<noteq> [] \<and> strip_dot s = strip_dot x"
    then obtain x where x: "s = x @ ''/.''" "x \<noteq> []" "strip_dot s = strip_dot x" by blast
    with strips_trans [OF strips_dot less(1) [of x]] show ?thesis by simp
  qed (simp add: strips_refl)
qed

lemma strip_tail_strips: "strips s (strip_tail s)"
proof (induction "length s" arbitrary: s rule: less_induct)
  case less
  show ?case
    using strip_tail_cases [of s]
  proof
    assume "\<exists>x. s = x @ [slash] \<and> x \<noteq> [] \<and> strip_tail s = strip_tail x"
    then obtain x where x: "s = x @ [slash]" "x \<noteq> []" "strip_tail s = strip_tail x" by blast
    with strips_trans [OF strips_slash less(1) [of x]] show ?thesis by simp
  qed (simp add: strips_refl)
qed

lemma strip_front_absolute: "starts_with s slash \<Longrightarrow> strip_front s = s"
  by (cases s rule: strip_front.cases) (auto simp: slash_def)

lemma path_sanitize_strips:
  assumes "starts_with s slash"
  shows "strips s (path_sanitize s) \<and> starts_with (path_sanitize s) slash"
proof -
  let ?t = "strip_tail (strip_dot s)"
  have st: "strips s ?t" by (rule strips_trans [OF strip_dot_strips strip_tail_strips])
  have "s \<noteq> []" using assms by auto
  with st have "?t \<noteq> []" by (simp add: strips_def)
  moreover have "starts_with ?t slash"
    using st assms \<open>?t \<noteq> []\<close> by (cases ?t; cases s) (auto simp: strips_def)
  ultimately show ?thesis
    using st assms \<open>s \<noteq> []\<close> by (simp add: path_sanitize_def strip_front_absolute)
qed

lemma strips_lexical:
  assumes "strips s t" and "\<not> starts_with (tl s) slash" and "starts_with s slash"
  shows "lexical t = slash # join_with slash (norm_comps [] (split_at slash s))"
proof -
  have "\<not> starts_with (tl t) slash"
  proof
    assume "starts_with (tl t) slash"
    then obtain c u where "t = c # slash # u" by (cases t) (auto simp: starts_with_iff)
    with assms show False by (auto simp: strips_def prefix_def)
  qed
  with assms(1) show ?thesis by (simp add: lexical_def strips_def)
qed

section \<open>Resolution without links\<close>

text \<open>No file is a link or carries the attribute.\<close>

definition plain_host :: "host \<Rightarrow> bool" where
  "plain_host h \<longleftrightarrow> (\<forall>f n. isl (h_pathattr h f n) \<and> h_readlink h f n \<in> {Inl EINVAL, Inl ENOENT})"

lemma never_link_fits: "never_link look \<Longrightarrow> lookup_fits look"
  unfolding lookup_fits_def
proof (intro allI impI)
  fix f p e v assume "never_link look"
  then obtain e' where "look f p e = NotLink e'" unfolding never_link_def by blast
  then show "(look f p e = Attr v \<longrightarrow> length v < p) \<and> (look f p e = Link v \<longrightarrow> length v \<le> p) \<and> look f p e \<noteq> Bad"
    by simp
qed

lemma length_lexical:
  assumes "starts_with f slash" and "length f < PATH_MAX"
  shows "length (lexical f) < PATH_MAX"
proof -
  have nl: "never_link (\<lambda>_ _ _. NotLink E_OK)" by (simp add: never_link_def)
  show ?thesis by (rule rp_walk_safe(2) [OF never_link_fits [OF nl] rp_walk_lexical [OF nl assms]])
qed

text \<open>The normal form of a path is not longer than the path.\<close>

lemma length_norm_comps:
  "sum_list (map (\<lambda>c. Suc (length c)) (norm_comps st cs)) \<le>
     sum_list (map (\<lambda>c. Suc (length c)) st) + sum_list (map (\<lambda>c. Suc (length c)) cs)"
proof (induction st cs rule: norm_comps.induct)
  case (2 st c cs)
  let ?s = "\<lambda>xs. sum_list (map (\<lambda>c. Suc (length (c :: string))) xs)"
  have b: "?s (butlast st) \<le> ?s st" by (cases st rule: rev_cases) auto
  consider "c = [] \<or> c = ''.''" | "c = ''..''" | "\<not> (c = [] \<or> c = ''.'')" "c \<noteq> ''..''" by blast
  then show ?case
  proof cases
    case 1
    with 2(1) show ?thesis by simp
  next
    case u: 2
    with 2(2) b show ?thesis by simp
  next
    case 3
    with 2(3) show ?thesis by simp
  qed
qed simp

lemma length_join: "cs \<noteq> [] \<Longrightarrow> Suc (length (join_with c cs)) = sum_list (map (\<lambda>x. Suc (length x)) cs)"
  by (induction c cs rule: join_with.induct) auto

lemma length_lexical_le:
  assumes "starts_with f slash"
  shows "length (lexical f) \<le> length f"
proof -
  obtain q where f: "f = slash # q" using assms by (auto simp: starts_with_iff)
  have plain: "length (join_with slash (norm_comps [] (split_at slash g))) \<le> length g" for g
  proof -
    let ?ns = "norm_comps [] (split_at slash g)"
    have "sum_list (map (\<lambda>x. Suc (length x)) ?ns) \<le> sum_list (map (\<lambda>x. Suc (length x)) (split_at slash g))"
      using length_norm_comps [of "[]" "split_at slash g"] by simp
    also have "\<dots> = Suc (length g)" using length_join [of "split_at slash g" slash] by simp
    finally show ?thesis using length_join [of ?ns slash] by (cases "?ns = []") auto
  qed
  show ?thesis
  proof (cases "starts_with q slash \<and> \<not> starts_with (tl q) slash")
    case True
    then obtain g where q: "q = slash # g" by (auto simp: starts_with_iff)
    with True f plain [of g] show ?thesis by (simp add: lexical_def)
  next
    case False
    with f plain [of q] show ?thesis by (auto simp: lexical_def)
  qed
qed

lemma walk_plain:
  assumes h: "plain_host h" and abs: "starts_with buf slash" and len: "length buf < PATH_MAX"
    and siz: "length buf < bufsiz"
  shows "walk_buf h env doit follow bufsiz (buf, e) = Ret (if doit then lexical buf else buf, e)"
proof -
  let ?look = "rpat_lookup (h_pathattr h) (h_readlink h) follow e"
  let ?pre = "if getrootdir env = ''/'' then [] else getrootdir env"
  have nl: "never_link ?look"
    unfolding never_link_def
  proof (intro allI)
    fix f p e'
    obtain x where x: "h_pathattr h f p = Inl x" and r: "h_readlink h f p = Inl EINVAL \<or> h_readlink h f p = Inl ENOENT"
      using h by (fastforce simp: plain_host_def isl_def)
    from r show "\<exists>e''. ?look f p e' = NotLink e''"
      by (rule disjE) (simp_all add: x rpat_lookup_def rpat_readlink_def)
  qed
  have w: "rp_walk ?look pre (h_getcwd h) e buf = Ret (lexical buf)" for pre
    by (rule rp_walk_lexical [OF nl abs len])
  have "length (lexical buf) < bufsiz" using length_lexical_le [OF abs] siz by simp
  with w [of ?pre] show ?thesis by (simp add: walk_buf_def realpathat_def)
qed

lemma lexical_is_canonical:
  assumes "starts_with f slash"
  shows "canonical (lexical f)"
proof -
  have "list_all good (norm_comps [] (split_at slash f))"
    by (rule norm_comps_set) (auto simp: split_at_no_sep)
  then show ?thesis
    unfolding lexical_def by (intro canonicalI [OF _ _ refl]) auto
qed

lemma lexical_lexical: "starts_with f slash \<Longrightarrow> lexical (lexical f) = lexical f"
  by (rule lexical_canonical [OF lexical_is_canonical])

lemma lexical_starts: "starts_with (lexical f) slash"
  by (simp add: lexical_def)

section \<open>Paths that are left to the host\<close>

text \<open>The root directory as \<^verbatim>\<open>path_resolution2\<close> uses it, and an absolute path put below it.\<close>

definition root_text :: "lib \<Rightarrow> string" where
  "root_text lib = (if getrootdir (l_env lib) = ''/'' then [] else getrootdir (l_env lib))"

definition placed :: "string \<Rightarrow> string \<Rightarrow> string" where
  "placed root path = (if root \<noteq> [] \<and> prefix root path then path else root @ path)"

text \<open>The second test of the expression: on a resolved path, without the root directory.\<close>

definition left_alone :: "lib \<Rightarrow> 32 word \<Rightarrow> string \<Rightarrow> string \<Rightarrow> bool" where
  "left_alone lib prflags root t \<longleftrightarrow>
     prefix root t \<and> allow_ignore prflags \<and> ignore (l_ignore lib) (drop (length root) t)"

lemma striprootdir_left_alone:
  assumes "left_alone lib prflags (root_text lib) t" and "length t \<le> PATH_MAX"
  shows "striprootdir (l_env lib) t = Some (drop (length (root_text lib)) t)"
proof -
  obtain p where p: "t = root_text lib @ p" "p \<noteq> []"
    using assms(1) by (auto simp: left_alone_def ignore_def prefix_def split: option.splits)
  show ?thesis
  proof (cases "getrootdir (l_env lib) = ''/''")
    case True
    with p show ?thesis by (simp add: root_text_def striprootdir_def)
  next
    case False
    with p assms(2) striprootdir_below [OF refl False, of p] show ?thesis by (simp add: root_text_def)
  qed
qed

text \<open>
  The end of a resolution without links: the second test, then the second walk. \<open>shown\<close> is the
  absolute path that the first walk leaves in the buffer.
\<close>

lemma resolve_shown:
  assumes h: "plain_host h" and lr: "length (root_text lib) \<le> PATH_MAX"
    and w1: "walk_buf h (l_env lib) (follow_symlink atflags) (follow_symlink atflags) bufsiz (path_sanitize buf, e) = Ret (shown, e)"
    and sh: "starts_with shown slash" "length shown < PATH_MAX" "length shown < bufsiz"
    and rest: "left_alone lib prflags (root_text lib) shown \<Longrightarrow> starts_with (drop (length (root_text lib)) shown) slash"
  shows "resolve_buf h lib (root_text lib) False bufsiz atflags prflags e buf =
    Ret (let t = (if left_alone lib prflags (root_text lib) shown then drop (length (root_text lib)) shown else shown)
         in if allow_walk_along prflags then lexical t else t)"
proof -
  let ?root = "root_text lib"
  let ?t = "if left_alone lib prflags ?root shown then drop (length ?root) shown else shown"
  have t: "starts_with ?t slash" "length ?t < PATH_MAX" "length ?t < bufsiz" using rest sh by auto
  have b3: "(if strleq shown ?root \<and> allow_ignore prflags \<and> ignore (l_ignore lib) (drop (strlen_max ?root) shown)
      then (case striprootdir (l_env lib) shown of None \<Rightarrow> shown | Some b \<Rightarrow> b) else shown) = ?t"
    using striprootdir_left_alone [of lib prflags shown] sh(2) lr
    by (auto simp: left_alone_def strleq_prefix)
  have "resolve_buf h lib ?root False bufsiz atflags prflags e buf =
      run_bind (walk_buf h (l_env lib) (allow_walk_along prflags) (follow_symlink atflags) bufsiz (?t, e)) (\<lambda>(b4, _). Ret b4)"
    unfolding resolve_buf_def w1 by (simp only: run_bind.simps prod.case Let_def simp_thms if_False b3)
  then show ?thesis unfolding walk_plain [OF h t] by (simp add: Let_def)
qed

text \<open>For a path that is put below the root directory already.\<close>

lemma resolve_plain:
  assumes h: "plain_host h" and lr: "length (root_text lib) \<le> PATH_MAX"
    and abs: "starts_with buf slash" and len: "length buf < PATH_MAX" and siz: "length buf < bufsiz"
    and shown: "shown = (if follow_symlink atflags then lexical (path_sanitize buf) else path_sanitize buf)"
    and rest: "left_alone lib prflags (root_text lib) shown \<Longrightarrow> starts_with (drop (length (root_text lib)) shown) slash"
  shows "resolve_buf h lib (root_text lib) False bufsiz atflags prflags e buf =
    Ret (let t = (if left_alone lib prflags (root_text lib) shown then drop (length (root_text lib)) shown else shown)
         in if allow_walk_along prflags then lexical t else t)"
proof -
  let ?s = "path_sanitize buf"
  have s: "strips buf ?s" "starts_with ?s slash" using path_sanitize_strips [OF abs] by blast+
  then have ls: "length ?s < PATH_MAX" "length ?s < bufsiz"
    using len siz by (auto simp: strips_def dest: prefix_length_le)
  have sh: "starts_with shown slash" "length shown \<le> length ?s"
    using s(2) lexical_starts length_lexical_le [OF s(2)] by (simp_all add: shown)
  have "walk_buf h (l_env lib) (follow_symlink atflags) (follow_symlink atflags) bufsiz (?s, e) = Ret (shown, e)"
    using walk_plain [OF h s(2) ls] by (simp add: shown)
  then show ?thesis by (rule resolve_shown [OF h lr _ sh(1) _ _ rest]) (use sh(2) ls in auto)
qed

section \<open>In a chroot\<close>

definition root_path :: "string list \<Rightarrow> string" where
  "root_path rs = slash # join_with slash rs"

text \<open>
  A path that \<^verbatim>\<open>path_resolution\<close> neither treats as magic nor leaves to the host: the
  expression of \<^verbatim>\<open>IAMROOT_PATH_RESOLUTION_IGNORE\<close> matches neither the path itself nor what it
  is tested on a second time, below the root directory: the path sanitized, or in its normal form
  when links are followed.
\<close>

definition ordinary :: "lib \<Rightarrow> 32 word \<Rightarrow> string \<Rightarrow> bool" where
  "ordinary lib prflags path \<longleftrightarrow>
     (allow_magic_links prflags \<longrightarrow> path \<noteq> ''/proc/1/root'' \<and> \<not> strneq path ''/dev/fd/'' 8) \<and>
     \<not> (allow_ignore prflags \<and> ignore (l_ignore lib) path) \<and>
     \<not> left_alone lib prflags (root_text lib) (path_sanitize (placed (root_text lib) path)) \<and>
     \<not> left_alone lib prflags (root_text lib) (lexical (path_sanitize (placed (root_text lib) path)))"

lemma resolution_start:
  assumes "allow_magic_links prflags \<longrightarrow> path \<noteq> ''/proc/1/root'' \<and> \<not> strneq path ''/dev/fd/'' 8"
    and "\<not> (allow_ignore prflags \<and> ignore (l_ignore lib) path)" and "length path < PATH_MAX"
    and "place_path h (root_text lib) dfd path bufsiz = Inr (buf, atroot)"
  shows "path_resolution2 h lib e dfd (Some path) bufsiz atflags prflags =
    resolve_buf h lib (root_text lib) atroot bufsiz atflags prflags e buf"
  using assms by (auto simp: path_resolution2_def root_text_def strnlen_def)

lemma resolution_placed:
  assumes "ordinary lib prflags path" and "length path < PATH_MAX"
    and "place_path h (root_text lib) dfd path bufsiz = Inr (buf, atroot)"
  shows "path_resolution2 h lib e dfd (Some path) bufsiz atflags prflags =
    resolve_buf h lib (root_text lib) atroot bufsiz atflags prflags e buf"
  by (rule resolution_start) (use assms in \<open>auto simp: ordinary_def\<close>)

lemma place_placed:
  assumes "starts_with path slash" and "length root \<le> PATH_MAX" and "length (placed root path) < bufsiz"
  shows "place_path h root dfd path bufsiz = Inr (placed root path, False)"
proof -
  have "root @ (if root \<noteq> [] \<and> strleq path root then drop (strlen_max root) path else path) = placed root path"
    using assms(2) by (auto simp: placed_def strleq_prefix prefix_def)
  with assms show ?thesis by (simp add: place_path_def print_path_def snprintf_def)
qed

lemma starts_placed:
  "starts_with path slash \<Longrightarrow> root = [] \<or> starts_with root slash \<Longrightarrow> starts_with (placed root path) slash"
  by (auto simp: placed_def starts_with_iff)

lemma length_placed: "length (placed root path) \<le> length (root @ path)"
  by (simp add: placed_def)

text \<open>Without links an ordinary absolute path is normalised, or sanitized when it is not walked.\<close>

lemma resolution_ordinary:
  assumes "plain_host h" and "ordinary lib prflags path" and "starts_with path slash"
    and "root_text lib = [] \<or> starts_with (root_text lib) slash" and "length (root_text lib) \<le> PATH_MAX"
    and "length path < PATH_MAX"
    and "length (placed (root_text lib) path) < PATH_MAX" and "length (placed (root_text lib) path) < bufsiz"
  shows "path_resolution2 h lib e dfd (Some path) bufsiz atflags prflags =
    Ret (let s = path_sanitize (placed (root_text lib) path)
         in if follow_symlink atflags \<or> allow_walk_along prflags then lexical s else s)"
proof -
  let ?buf = "placed (root_text lib) path"
  have abs: "starts_with ?buf slash" by (rule starts_placed [OF assms(3,4)])
  have s: "starts_with (path_sanitize ?buf) slash" using path_sanitize_strips [OF abs] by blast
  have "\<not> left_alone lib prflags (root_text lib)
      (if follow_symlink atflags then lexical (path_sanitize ?buf) else path_sanitize ?buf)"
    using assms(2) by (simp add: ordinary_def)
  then have "resolve_buf h lib (root_text lib) False bufsiz atflags prflags e ?buf =
      Ret (if follow_symlink atflags \<or> allow_walk_along prflags then lexical (path_sanitize ?buf) else path_sanitize ?buf)"
    using resolve_plain [OF assms(1,5) abs assms(7,8) refl, of prflags atflags e] lexical_lexical [OF s]
    by (auto simp: Let_def)
  then show ?thesis
    using resolution_placed [OF assms(2,6) place_placed [OF assms(3,5,8)], of h e dfd atflags] by (simp add: Let_def)
qed

lemma root_path_ends:
  assumes "list_all good rs" and "rs \<noteq> []"
  shows "\<not> starts_with (tl (root_path rs @ p)) slash" and "root_path rs \<noteq> ''/''" and "root_path rs \<noteq> []"
proof -
  have "\<forall>x \<in> set rs. x \<noteq> [] \<and> slash \<notin> set x" using assms(1) by (auto simp: list_all_iff good_def)
  from join_ends [OF assms(2) this]
  show "\<not> starts_with (tl (root_path rs @ p)) slash" "root_path rs \<noteq> ''/''" "root_path rs \<noteq> []"
    by (cases "join_with slash rs"; simp add: root_path_def slash_def)+
qed

lemma split_root_path:
  assumes "list_all good rs" and "rs \<noteq> []" and "starts_with p slash"
  shows "norm_comps [] (split_at slash (root_path rs @ p)) = norm_comps rs (split_at slash p)"
proof -
  obtain q where p: "p = slash # q" using assms(3) by (auto simp: starts_with_iff)
  have "split_at slash (root_path rs @ p) = [] # split_at slash (join_with slash rs @ slash # q)"
    by (simp add: root_path_def p)
  also have "\<dots> = [] # rs @ split_at slash q"
    using assms(1,2) by (auto simp: split_at_append split_join_with list_all_iff good_def)
  finally show ?thesis
    using assms(1) by (simp add: p norm_comps_append norm_comps_good)
qed

lemma root_text_chroot:
  assumes "getrootdir (l_env lib) = root_path rs" and "list_all good rs" and "rs \<noteq> []"
  shows "root_text lib = root_path rs"
  using root_path_ends(2) [OF assms(2,3)] assms(1) by (simp add: root_text_def)

lemma root_path_starts: "starts_with (root_path rs) slash"
  by (simp add: root_path_def)

lemma lexical_placed:
  assumes "list_all good rs" and "rs \<noteq> []" and "starts_with path slash"
  shows "lexical (path_sanitize (placed (root_path rs) path)) =
    root_path (norm_comps [] (split_at slash (placed (root_path rs) path)))"
proof -
  let ?buf = "placed (root_path rs) path"
  have abs: "starts_with ?buf slash" by (rule starts_placed [OF assms(3)]) (simp add: root_path_starts)
  have "\<not> starts_with (tl ?buf) slash"
    using root_path_ends(1) [OF assms(1,2)] by (auto simp: placed_def prefix_def)
  with strips_lexical [OF _ _ abs, of "path_sanitize ?buf"] path_sanitize_strips [OF abs] show ?thesis
    by (simp add: root_path_def)
qed

lemma norm_placed:
  assumes "list_all good rs" and "rs \<noteq> []" and "starts_with path slash" and "\<not> prefix (root_path rs) path"
  shows "norm_comps [] (split_at slash (placed (root_path rs) path)) = norm_comps rs (split_at slash path)"
  using split_root_path [OF assms(1-3)] assms(4) by (simp add: placed_def)

lemma resolution_chroot:
  assumes "plain_host h" and "ordinary lib prflags path" and "follow_symlink atflags \<or> allow_walk_along prflags"
    and "getrootdir (l_env lib) = root_path rs" and "list_all good rs" and "rs \<noteq> []"
    and "starts_with path slash" and "\<not> prefix (root_path rs) path"
    and "length (root_path rs @ path) < PATH_MAX" and "length (root_path rs @ path) < bufsiz"
  shows "path_resolution2 h lib e dfd (Some path) bufsiz atflags prflags =
    Ret (root_path (norm_comps rs (split_at slash path)))"
  using resolution_ordinary [OF assms(1,2,7), of bufsiz e dfd atflags] assms(3,9,10)
    lexical_placed [OF assms(5-7)] norm_placed [OF assms(5-8)] length_placed [of "root_path rs" path]
  by (auto simp: root_text_chroot [OF assms(4-6)] root_path_starts Let_def)

text \<open>
  The reference: what a path of the program stands for when no file is a link, for every path.
\<close>

definition reference_path :: "lib \<Rightarrow> string list \<Rightarrow> 32 word \<Rightarrow> 32 word \<Rightarrow> string \<Rightarrow> string" where
  "reference_path lib rs atflags prflags path =
     (if allow_magic_links prflags \<and> path = ''/proc/1/root'' then ''/''
      else if allow_magic_links prflags \<and> prefix ''/dev/fd/'' path then path
      else if allow_ignore prflags \<and> ignore (l_ignore lib) path then path
      else
        let text = placed (root_path rs) path;
            target = root_path (norm_comps [] (split_at slash text));
            shown = (if follow_symlink atflags then target else path_sanitize text);
            inside = drop (length (root_path rs)) shown
        in if left_alone lib prflags (root_path rs) shown
           then (if allow_walk_along prflags then lexical inside else inside)
           else if follow_symlink atflags \<or> allow_walk_along prflags then target else path_sanitize text)"

text \<open>The expression says something about absolute paths only, as the default one does.\<close>

definition absolute_only :: "regex option \<Rightarrow> bool" where
  "absolute_only re \<longleftrightarrow> (\<forall>s. ignore re s \<longrightarrow> starts_with s slash)"

lemma strneq_dev_fd: "strneq path ''/dev/fd/'' 8 \<longleftrightarrow> prefix ''/dev/fd/'' path"
  by (rule strneq_prefix) simp

text \<open>
  C1: In a chroot, on a host without links, \<^verbatim>\<open>path_resolution\<close> of an absolute path is the
  reference. A path that is magic or that the expression of ignored paths matches is the host's, as it
  is. Any other path is put below the root directory, unless it starts with the text of the root
  directory, and its components are applied one by one to the names in front of them, as names or as
  \<^verbatim>\<open>..\<close>; when the expression matches the result without the root directory, it is the path of
  the host without the root directory. The expression only matches absolute paths, the path and the
  root directory together are shorter than \<^verbatim>\<open>PATH_MAX\<close>.
\<close>

theorem path_resolution_chroot:
  assumes "plain_host h" and "absolute_only (l_ignore lib)"
    and "getrootdir (l_env lib) = root_path rs" and "list_all good rs" and "rs \<noteq> []"
    and "starts_with path slash" and "length (root_path rs @ path) < PATH_MAX" and "PATH_MAX \<le> bufsiz"
  shows "path_resolution2 h lib e dfd (Some path) bufsiz atflags prflags =
    Ret (reference_path lib rs atflags prflags path)"
proof -
  have len: "length path < PATH_MAX" "length path < bufsiz" "length (root_path rs) \<le> PATH_MAX"
    using assms(7,8) by auto
  have slash1: "1 < bufsiz" using assms(8) by (simp add: PATH_MAX_def)
  note rt = root_text_chroot [OF assms(3-5)]
  show ?thesis
  proof (cases "allow_magic_links prflags \<and> (path = ''/proc/1/root'' \<or> prefix ''/dev/fd/'' path) \<or>
      allow_ignore prflags \<and> ignore (l_ignore lib) path")
    case True
    with len slash1 show ?thesis
      by (auto simp: path_resolution2_def reference_path_def strneq_dev_fd strnlen_def copy_checked_def)
  next
    case False
    let ?buf = "placed (root_path rs) path"
    have abs: "starts_with ?buf slash" by (rule starts_placed [OF assms(6)]) (simp add: root_path_starts)
    have lb: "length ?buf < PATH_MAX" "length ?buf < bufsiz"
      using length_placed [of "root_path rs" path] assms(7,8) by simp_all
    note lex = lexical_placed [OF assms(4-6)]
    let ?shown = "if follow_symlink atflags then lexical (path_sanitize ?buf) else path_sanitize ?buf"
    have "resolve_buf h lib (root_path rs) False bufsiz atflags prflags e ?buf =
        Ret (let t = (if left_alone lib prflags (root_path rs) ?shown then drop (length (root_path rs)) ?shown else ?shown)
             in if allow_walk_along prflags then lexical t else t)"
      by (rule resolve_plain [where lib = lib, unfolded rt, OF assms(1) len(3) abs lb refl])
        (use assms(2) in \<open>simp add: left_alone_def absolute_only_def\<close>)
    also have "\<dots> = Ret (reference_path lib rs atflags prflags path)"
      using False lexical_lexical [of "path_sanitize ?buf"] path_sanitize_strips [OF abs]
      by (auto simp: reference_path_def lex [symmetric] Let_def)
    finally show ?thesis
      using resolution_start [of prflags path lib h dfd bufsiz ?buf False e atflags] False len
        place_placed [OF assms(6) len(3) lb(2), of h dfd]
      by (auto simp: rt strneq_dev_fd)
  qed
qed

definition bare_host :: host where
  "bare_host = \<lparr>h_readlink = (\<lambda>f n. Inl EINVAL), h_pathattr = (\<lambda>f n. Inl ENODATA), h_getcwd = (\<lambda>n. Inr ''/'')\<rparr>"

text \<open>
  A process in a chroot after the constructor: the default expressions, as the functions that
  \<open>Jim_Builtin\<close> shows them to be.
\<close>

definition host_dirs :: "string list" where
  "host_dirs = [''/proc/'', ''/sys/'', ''/dev/'', ''/var/run/'', ''/run/'']"

definition dnf_log :: string where "dnf_log = ''/var/log/dnf.rpm.log''"

definition default_match :: regex where
  "default_match s = (if list_ex (\<lambda>d. prefix d s) host_dirs then 0 else REG_NOMATCH)"

definition default_warning_match :: regex where
  "default_warning_match s = (if s = dnf_log then 0 else REG_NOMATCH)"

definition chroot_lib :: "string \<Rightarrow> lib" where
  "chroot_lib r =
     \<lparr>l_env = Some [''IAMROOT_ROOT='' @ r], l_ignore = Some default_match, l_warning = Some default_warning_match\<rparr>"

lemma default_absolute: "absolute_only (Some default_match)"
  by (auto simp: absolute_only_def ignore_def default_match_def host_dirs_def REG_NOMATCH_def prefix_def slash_def)

lemma bare_plain: "plain_host bare_host"
  by (simp add: plain_host_def bare_host_def)

lemma root_r: "getrootdir (l_env (chroot_lib ''/r'')) = root_path [''r'']"
  by code_simp

lemma chroot_lib_absolute: "absolute_only (l_ignore (chroot_lib r))"
  by (simp add: chroot_lib_def default_absolute)

theorem path_resolution_chroot_witness:
  "list_all (\<lambda>(path, t). path_resolution2 bare_host (chroot_lib ''/r'') E_OK AT_FDCWD (Some path) 4096 0 0 = Ret t)
     [(''/a/./b/../c/'', ''/r/a/c''), (''/dev/null'', ''/dev/null''), (''/etc/../dev/null'', ''/dev/null''),
      (''/r2/./x'', ''/r2/x''), (''/../etc'', ''/etc''), (''/proc/1/root'', ''/'')]"
proof -
  have "path_resolution2 bare_host (chroot_lib ''/r'') E_OK AT_FDCWD (Some (slash # p)) 4096 0 0 =
      Ret (reference_path (chroot_lib ''/r'') [''r''] 0 0 (slash # p))" if "length p < 4000" for p
    by (rule path_resolution_chroot [OF bare_plain chroot_lib_absolute root_r])
      (use that in \<open>simp_all add: good_def slash_def root_path_def PATH_MAX_def\<close>)
  note r = this [unfolded slash_def]
  have "list_all (\<lambda>(path, t). reference_path (chroot_lib ''/r'') [''r''] 0 0 path = t)
     [(''/a/./b/../c/'', ''/r/a/c''), (''/dev/null'', ''/dev/null''), (''/etc/../dev/null'', ''/dev/null''),
      (''/r2/./x'', ''/r2/x''), (''/../etc'', ''/etc''), (''/proc/1/root'', ''/'')]" by code_simp
  then show ?thesis by (simp add: r)
qed

lemma names_below:
  assumes "list_all good rs" and "rs \<noteq> []" and "starts_with path slash" and "''..'' \<notin> set (split_at slash path)"
    and "prefix (root_path rs) path \<Longrightarrow> path = root_path rs \<or> starts_with (drop (length (root_path rs)) path) slash"
  shows "\<exists>names. list_all good names \<and> norm_comps [] (split_at slash (placed (root_path rs) path)) = rs @ names"
proof -
  have below: "\<exists>names. list_all good names \<and> norm_comps [] (split_at slash (root_path rs @ p)) = rs @ names"
    if p: "starts_with p slash" "''..'' \<notin> set (split_at slash p)" for p
  proof -
    let ?names = "filter (\<lambda>c. c \<noteq> [] \<and> c \<noteq> ''.'') (split_at slash p)"
    have "list_all good ?names"
      using p(2) split_at_no_sep [of _ slash p] by (auto simp: list_all_iff good_def)
    moreover have "norm_comps [] (split_at slash (root_path rs @ p)) = rs @ ?names"
      using split_root_path [OF assms(1,2) p(1)] norm_comps_names [OF p(2), of rs] by simp
    ultimately show ?thesis by blast
  qed
  show ?thesis
  proof (cases "prefix (root_path rs) path")
    case True
    then obtain p where p: "path = root_path rs @ p" by (auto simp: prefix_def)
    have items: "\<forall>x \<in> set rs. slash \<notin> set x" using assms(1) by (simp add: list_all_iff good_def)
    show ?thesis
    proof (cases "p = []")
      case True
      have "norm_comps [] (split_at slash (root_path rs)) = rs"
        using assms(1,2) items by (simp add: root_path_def split_join_with norm_comps_good)
      with True p \<open>prefix _ path\<close> show ?thesis
        using root_path_ends(3) [OF assms(1,2)] by (intro exI [of _ "[]"]) (simp add: placed_def)
    next
      case False
      with assms(5) [OF True] p have "starts_with p slash" by simp
      then obtain q where q: "p = slash # q" by (auto simp: starts_with_iff)
      have "''..'' \<notin> set (split_at slash p)"
        using assms(4) assms(2) items by (auto simp: p q root_path_def split_at_append split_join_with)
      with below [of p] \<open>starts_with p slash\<close> p \<open>prefix _ path\<close> root_path_ends(3) [OF assms(1,2)]
      show ?thesis by (simp add: placed_def)
    qed
  next
    case False
    with below [OF assms(3,4)] show ?thesis by (simp add: placed_def)
  qed
qed

text \<open>
  C16: A path without \<^verbatim>\<open>..\<close> stays in the chroot. On a host without links, and for an
  absolute path that is not magic, that the expression of ignored paths does not match, neither as it is
  nor resolved, and that does not start with the text of the root directory in the middle of a name,
  what \<^verbatim>\<open>path_resolution\<close> returns is the root directory or a path below it. The path is resolved to its
  end (no \<^verbatim>\<open>AT_SYMLINK_NOFOLLOW\<close>, which keeps the last component as it is, or with the walk along it),
  and the path and the root directory together are shorter than \<^verbatim>\<open>PATH_MAX\<close>.
\<close>

theorem path_resolution_contained:
  assumes "plain_host h" and "ordinary lib prflags path" and "follow_symlink atflags \<or> allow_walk_along prflags"
    and "getrootdir (l_env lib) = root_path rs" and "list_all good rs" and "rs \<noteq> []"
    and "starts_with path slash"
    and "prefix (root_path rs) path \<Longrightarrow> path = root_path rs \<or> starts_with (drop (length (root_path rs)) path) slash"
    and "length (root_path rs @ path) < PATH_MAX" and "PATH_MAX \<le> bufsiz"
    and "''..'' \<notin> set (split_at slash path)"
  shows "\<exists>names. list_all good names \<and>
    path_resolution2 h lib e dfd (Some path) bufsiz atflags prflags = Ret (root_path (rs @ names))"
proof -
  have "path_resolution2 h lib e dfd (Some path) bufsiz atflags prflags =
      Ret (root_path (norm_comps [] (split_at slash (placed (root_path rs) path))))"
    using resolution_ordinary [OF assms(1,2,7), of bufsiz e dfd atflags] assms(3,9,10)
      lexical_placed [OF assms(5-7)] length_placed [of "root_path rs" path]
    by (auto simp: root_text_chroot [OF assms(4-6)] root_path_starts Let_def)
  with names_below [OF assms(5-7,11,8)] show ?thesis by auto
qed

theorem path_resolution_contained_witness:
  "\<exists>names. list_all good names \<and>
    path_resolution2 bare_host (chroot_lib ''/r'') E_OK AT_FDCWD (Some ''/a/./c/'') 4096 0 0 =
      Ret (root_path ([''r''] @ names))"
  by (rule path_resolution_contained [OF bare_plain _ _ root_r]) code_simp+

lemma good_not_dots:
  assumes "good r" and "prefix r (''..'' @ u)" and "u = [] \<or> starts_with u slash"
  shows False
proof -
  obtain v where v: "''..'' @ u = r @ v" using assms(2) by (auto simp: prefix_def)
  show False
  proof (cases r)
    case Nil
    with assms(1) show False by (simp add: good_def)
  next
    case (Cons a r')
    show False
    proof (cases r')
      case Nil
      with Cons v assms(1) show False by (simp add: good_def)
    next
      case C: (Cons b r'')
      show False
      proof (cases r'')
        case Nil
        with Cons C v assms(1) show False by (auto simp: good_def)
      next
        case (Cons c r3)
        with \<open>r = a # r'\<close> C v have "u = c # r3 @ v" by simp
        with assms(1,3) \<open>r = a # r'\<close> C Cons show False by (simp add: good_def)
      qed
    qed
  qed
qed

lemma prefix_join: "prefix r (join_with c (r # rs))"
  by (cases rs) auto

text \<open>
  C35: Enough \<^verbatim>\<open>..\<close> components leave the chroot: where the kernel stops at the root
  directory of the process, \<^verbatim>\<open>path_resolution\<close> of \<^verbatim>\<open>/../etc\<close> in \<^verbatim>\<open>/r\<close> is
  the file \<^verbatim>\<open>/etc\<close> of the host. No file of the host is a link; the path is neither magic nor matched by
  the expression of ignored paths, as it is or resolved; it is resolved to its end; and the path and the
  root directory together are shorter than \<^verbatim>\<open>PATH_MAX\<close>.
\<close>

theorem path_resolution_escapes:
  assumes "plain_host h" and "ordinary lib prflags path" and "follow_symlink atflags \<or> allow_walk_along prflags"
    and "getrootdir (l_env lib) = root_path rs" and "list_all good rs" and "rs \<noteq> []"
    and "path = root_path (replicate k ''..'' @ names)" and "length rs \<le> k"
    and "list_all good names" and "length (root_path rs @ path) < PATH_MAX" and "PATH_MAX \<le> bufsiz"
  shows "path_resolution2 h lib e dfd (Some path) bufsiz atflags prflags = Ret (root_path names)"
proof -
  let ?cs = "replicate k ''..'' @ names"
  obtain r rs' where rs: "rs = r # rs'" "good r" using assms(5,6) by (cases rs) auto
  obtain m where m: "k = Suc m" using assms(8) rs by (cases k) auto
  have "\<not> prefix (root_path rs) path"
  proof
    assume "prefix (root_path rs) path"
    then have "prefix (join_with slash rs) (join_with slash ?cs)" by (simp add: assms(7) root_path_def)
    then have "prefix r (join_with slash ?cs)" using prefix_join [of r slash rs'] rs(1) prefix_order.trans by blast
    moreover obtain u where "join_with slash ?cs = ''..'' @ u" "u = [] \<or> starts_with u slash"
      using m by (cases "replicate m ''..'' @ names") auto
    ultimately show False using good_not_dots [OF rs(2)] by auto
  qed
  moreover have "norm_comps rs (split_at slash path) = names"
  proof -
    have "?cs \<noteq> []" using m by simp
    moreover have "\<forall>x \<in> set ?cs. slash \<notin> set x" using shaped_items [OF assms(9), of k] by blast
    ultimately have "split_at slash (join_with slash ?cs) = ?cs" by (rule split_join_with)
    then show ?thesis
      using assms(7-9) by (simp add: root_path_def norm_comps_append norm_comps_ups norm_comps_good)
  qed
  moreover have "starts_with path slash" by (simp add: assms(7) root_path_def)
  ultimately show ?thesis using resolution_chroot [OF assms(1-6) _ _ assms(10) less_le_trans [OF assms(10,11)]] by simp
qed

theorem path_resolution_escapes_witness:
  "path_resolution2 bare_host (chroot_lib ''/r'') E_OK AT_FDCWD (Some ''/../etc'') 4096 0 0 = Ret (root_path [''etc''])"
  by (rule path_resolution_escapes [where k = 1, OF bare_plain _ _ root_r]) code_simp+

text \<open>
  An absolute path of which the root directory is a prefix as a string is taken for a path of
  the host, whether or not the prefix ends at a component: in \<^verbatim>\<open>/r\<close> the path
  \<^verbatim>\<open>/r2/x\<close> is not put below the root directory.
\<close>

theorem path_resolution_root_prefix:
  assumes "plain_host h" and "ordinary lib prflags path" and "follow_symlink atflags \<or> allow_walk_along prflags"
    and "getrootdir (l_env lib) = root_path rs" and "list_all good rs" and "rs \<noteq> []"
    and "prefix (root_path rs) path" and "length (root_path rs @ path) < PATH_MAX" and "PATH_MAX \<le> bufsiz"
  shows "path_resolution2 h lib e dfd (Some path) bufsiz atflags prflags =
    Ret (root_path (norm_comps [] (split_at slash path)))"
proof -
  have abs: "starts_with path slash" using assms(7) by (auto simp: prefix_def root_path_def)
  have "placed (root_path rs) path = path" using assms(7) by (simp add: placed_def root_path_def)
  then show ?thesis
    using resolution_ordinary [OF assms(1,2) abs, of bufsiz e dfd atflags] assms(3,8,9) lexical_placed [OF assms(5,6) abs]
    by (auto simp: root_text_chroot [OF assms(4-6)] root_path_starts Let_def)
qed

theorem path_resolution_root_prefix_witness:
  "path_resolution2 bare_host (chroot_lib ''/r'') E_OK AT_FDCWD (Some ''/r2/x'') 4096 0 0 =
     Ret (root_path (norm_comps [] (split_at slash ''/r2/x''))) \<and>
   root_path (norm_comps [] (split_at slash ''/r2/x'')) = ''/r2/x''"
proof
  show "path_resolution2 bare_host (chroot_lib ''/r'') E_OK AT_FDCWD (Some ''/r2/x'') 4096 0 0 =
     Ret (root_path (norm_comps [] (split_at slash ''/r2/x'')))"
    by (rule path_resolution_root_prefix [OF bare_plain _ _ root_r]) code_simp+
qed code_simp

end
