(* ===== verification/Path_Rel.thy ===== *)
theory Path_Rel
  imports Path_Res_Facts
begin

text \<open>
  Relative names: on a host without links the walker keeps the leading \<^verbatim>\<open>..\<close> components and
  applies them to the working directory at the end, which is lexical normalisation below the working
  directory.
\<close>

section \<open>Paths of the root directory\<close>

lemma join_with_append:
  "xs \<noteq> [] \<Longrightarrow> ys \<noteq> [] \<Longrightarrow> join_with c (xs @ ys) = join_with c xs @ c # join_with c ys"
proof (induction c xs rule: join_with.induct)
  case (2 c x)
  then show ?case by (cases ys) auto
qed auto

lemma root_path_append:
  assumes "rs \<noteq> []"
  shows "root_path (rs @ names) = root_path rs @ (if names = [] then [] else root_path names)"
  using assms by (simp add: root_path_def join_with_append)

lemma root_path_snoc: "root_path (ns @ [b]) = (if ns = [] then [slash] else root_path ns @ [slash]) @ b"
  by (auto simp: root_path_def join_with_snoc)

lemma canonical_root_path: "list_all good rs \<Longrightarrow> canonical (root_path rs)"
  by (rule canonicalI [of "[slash]" rs]) (simp_all add: root_path_def)

section \<open>The loop on a relative name\<close>

text \<open>
  The names that a state stands for in the directory \<open>ds\<close>: the directory without its last
  \<^verbatim>\<open>nup\<close> names, then the names of the output.
\<close>

definition rel_names :: "string list \<Rightarrow> nat \<Rightarrow> string list \<Rightarrow> string list" where
  "rel_names ds n cs = take (length ds - n) ds @ cs"

lemma rel_names_comp:
  "good c \<Longrightarrow> norm_comps (rel_names ds n cs) [c] = rel_names ds n (cs @ [c])"
  "norm_comps (rel_names ds n []) [''..''] = rel_names ds (Suc n) []"
  "norm_comps (rel_names ds n (cs @ [d])) [''..''] = rel_names ds n cs"
proof -
  show "norm_comps (rel_names ds n []) [''..''] = rel_names ds (Suc n) []"
    by (cases "length ds \<le> n") (simp_all add: rel_names_def butlast_take Suc_diff_Suc)
  show "norm_comps (rel_names ds n (cs @ [d])) [''..''] = rel_names ds n cs"
    using butlast_snoc [of "take (length ds - n) ds @ cs" d] by (simp add: rel_names_def)
qed (simp add: rel_names_def good_def)

definition rel_inv :: "string list \<Rightarrow> rpst \<Rightarrow> bool" where
  "rel_inv cs s \<longleftrightarrow> shaped [] (rp_nup s) cs (rp_out s) \<and> (rp_check s \<longrightarrow> cs \<noteq> []) \<and>
     \<not> starts_with (rp_rest s) slash \<and> budget s < PATH_MAX"

definition rel_measure :: "rpst \<Rightarrow> nat" where
  "rel_measure s = 2 * length (rp_rest s) + (if rp_check s then 1 else 0)"

lemma strip_slashes_ns: "\<not> starts_with (strip_slashes x) slash"
  by (induction x) (auto simp: strip_slashes_def)

lemma rel_room:
  assumes "rel_inv cs s" and "rp_comp s \<noteq> [] \<or> rp_check s"
  shows "\<not> rp_toolong s"
proof -
  have "rp_rest s \<noteq> [] \<or> rp_check s" using assms(2) comp_rest by auto
  then have "length (rp_full s) < PATH_MAX" "length (rp_rest s) + length (rp_hid s) < PATH_MAX"
    using assms(1) length_comp_after [of s] by (auto simp: rel_inv_def budget_def length_rp_full)
  then show ?thesis by (simp add: rp_toolong_def)
qed

text \<open>The step for an initial \<^verbatim>\<open>..\<close>.\<close>

lemma rel_dotdot:
  assumes inv: "rel_inv [] s" and dd: "rp_comp s = ''..''"
  shows "rp_step look pre s = Inl (rp_dotdot s) \<and> rel_inv [] (rp_dotdot s) \<and> budget (rp_dotdot s) \<le> budget s \<and>
    rp_rest (rp_dotdot s) = strip_slashes (rp_after s) \<and> rp_nup (rp_dotdot s) = Suc (rp_nup s) \<and>
    rel_measure (rp_dotdot s) < rel_measure s"
proof -
  have nc: "\<not> rp_check s" and sh: "shaped [] (rp_nup s) [] (rp_out s)" and ns: "\<not> starts_with (rp_rest s) slash"
    using inv by (auto simp: rel_inv_def)
  have q: "length (rp_out s) \<le> 3 * rp_nup s" using sh length_join_dots [of "rp_nup s"] by (simp add: shaped_def)
  have tl: "\<not> rp_toolong s" by (rule rel_room [OF inv]) (simp add: dd)
  have st: "rp_step look pre s = Inl (rp_dotdot s)" using ns dd tl q by (simp add: rp_step_def)
  have full: "rp_full s = join_with slash (replicate (Suc (rp_nup s)) ''..'')"
    using rp_full_shaped [OF sh] dd by (simp add: replicate_append_same)
  have la: "length (strip_slashes (rp_after s)) \<le> length (rp_after s)" by (rule length_strip_slashes)
  have "rp_rest s \<noteq> []" using dd comp_rest by fastforce
  then have b: "budget (rp_dotdot s) \<le> budget s"
    using la after_shorter [of s] length_comp_after [of s] length_rp_full [of s] nc dd
    by (cases "rp_after s = []") (auto simp: budget_def rp_dotdot_def strip_slashes_def)
  have "rel_measure (rp_dotdot s) < rel_measure s"
    using comp_shortens [of s] dd nc by (simp add: rel_measure_def rp_dotdot_def)
  moreover have "rel_inv [] (rp_dotdot s)"
    using inv b nc full strip_slashes_ns by (auto simp: rel_inv_def rp_dotdot_def shaped_def)
  ultimately show ?thesis using st b by (simp add: rp_dotdot_def)
qed

text \<open>A state after \<^verbatim>\<open>skip_readlink\<close>.\<close>

lemma rel_skip:
  assumes inv: "rel_inv cs s" and nd: "rp_comp s \<noteq> ''.''" and go: "rp_comp s \<noteq> [] \<or> rp_check s"
    and up: "rp_comp s = ''..'' \<Longrightarrow> cs \<noteq> []"
  shows "\<exists>cs'. rel_inv cs' (rp_skip e s) \<and> budget (rp_skip e s) \<le> budget s \<and> rel_measure (rp_skip e s) < rel_measure s \<and>
    rel_names ds (rp_nup s) cs' = norm_comps (rel_names ds (rp_nup s) cs) [rp_comp s]"
proof -
  have sh: "shaped [] (rp_nup s) cs (rp_out s)" and ns: "\<not> starts_with (rp_rest s) slash"
    and ck: "rp_check s \<Longrightarrow> cs \<noteq> []" using inv by (auto simp: rel_inv_def)
  have sa: "length (strip_slashes (rp_after s)) \<le> length (rp_after s)" by (rule length_strip_slashes)
  have m: "rel_measure (rp_skip e s) < rel_measure s"
    using comp_shortens [of s] go rest_empty [OF ns]
    by (cases "rp_comp s = []") (auto simp: rel_measure_def rp_skip_simps rp_after_def strip_slashes_def)
  have bud: "budget (rp_skip e s) \<le> budget s"
  proof (cases "rp_comp s = ''..''")
    case True
    then show ?thesis
      using sa length_comp_after [of s] length_rp_pop [of "rp_out s"] by (auto simp: budget_def rp_skip_simps)
  next
    case False
    then show ?thesis
      using sa after_shorter [of s] length_comp_after [of s] length_rp_full [of s] go
      by (cases "rp_comp s = []"; cases "rp_after s = []")
         (auto simp: budget_def rp_skip_simps strip_slashes_def rest_empty [OF ns])
  qed
  have inv': "rel_inv cs' (rp_skip e s)"
    if "shaped [] (rp_nup s) cs' (rp_out (rp_skip e s))" and "rp_check (rp_skip e s) \<Longrightarrow> cs' \<noteq> []" for cs'
    using that inv bud strip_slashes_ns by (auto simp: rel_inv_def rp_skip_simps(1,4))
  consider (up) "rp_comp s = ''..''" | (none) "rp_comp s = []" | (name) "good (rp_comp s)"
    using nd by (auto simp: good_def)
  then show ?thesis
  proof cases
    case up
    with assms(4) obtain cs' d where cs: "cs = cs' @ [d]" by (cases cs rule: rev_cases) auto
    have "shaped [] (rp_nup s) cs' (rp_out (rp_skip e s))"
      using sh rp_pop_shaped [of "[]" "rp_nup s" cs' d "rp_out s"] up by (auto simp: cs shaped_def rp_skip_simps)
    from inv' [OF this] bud m up show ?thesis
      using rel_names_comp(3) [of ds "rp_nup s" cs' d] by (auto simp: cs rp_skip_simps)
  next
    case none
    have "shaped [] (rp_nup s) cs (rp_out (rp_skip e s))" using sh none by (simp add: rp_skip_simps)
    moreover have "rp_check s" using go none by simp
    ultimately have "rel_inv cs (rp_skip e s)" using inv' ck by blast
    with bud m none show ?thesis by (intro exI [of _ cs]) simp
  next
    case name
    then have "shaped [] (rp_nup s) (cs @ [rp_comp s]) (rp_out (rp_skip e s))"
      using rp_full_shaped [OF sh] sh by (auto simp: rp_skip_simps shaped_def good_def)
    from inv' [OF this] bud m rel_names_comp(1) [OF name, of ds "rp_nup s" cs] show ?thesis
      by (intro exI [of _ "cs @ [rp_comp s]"]) simp
  qed
qed

lemma rel_step:
  assumes nl: "never_link look" and inv: "rel_inv cs s" and go: "rp_comp s \<noteq> [] \<or> rp_check s"
  obtains t cs' where "rp_step look pre s = Inl t" and "rel_inv cs' t" and "budget t \<le> budget s"
    and "rel_measure t < rel_measure s" and "rp_rest t = strip_slashes (rp_after s)"
    and "rel_names ds (rp_nup t) cs' = norm_comps (rel_names ds (rp_nup s) cs) [rp_comp s]"
proof -
  have ns: "\<not> starts_with (rp_rest s) slash" using inv by (simp add: rel_inv_def)
  have tl: "\<not> rp_toolong s" by (rule rel_room [OF inv go])
  obtain e0 where e0: "look (rp_full s) (rp_room s) (rp_errno s) = NotLink e0"
    using nl unfolding never_link_def by blast
  show thesis
  proof (cases "rp_comp s = ''.''")
    case True
    let ?t = "rp_continue (s\<lparr>rp_rest := rp_after s\<rparr>)"
    have sa: "length (strip_slashes (rp_after s)) \<le> length (rp_after s)" by (rule length_strip_slashes)
    have b: "budget ?t \<le> budget s" using sa length_comp_after [of s] True by (auto simp: budget_def rp_sep_def)
    have "rel_inv cs ?t" using inv b strip_slashes_ns by (auto simp: rel_inv_def)
    moreover have "rp_step look pre s = Inl ?t" using ns True by (simp add: rp_step_def)
    moreover have "rel_measure ?t < rel_measure s"
      using sa length_comp_after [of s] True by (simp add: rel_measure_def)
    ultimately show thesis using that [of ?t cs] True b by simp
  next
    case nd: False
    show thesis
    proof (cases "rp_comp s = ''..'' \<and> cs = []")
      case True
      with inv have "rel_inv [] s" by simp
      from rel_dotdot [OF this, of look pre] True show thesis
        using that [of "rp_dotdot s" "[]"] rel_names_comp(2) [of ds "rp_nup s"] by auto
    next
      case False
      have q: "3 * rp_nup s < length (rp_out s)" if up: "rp_comp s = ''..''"
      proof -
        obtain cs' d where cs: "cs = cs' @ [d]" using up False by (cases cs rule: rev_cases) auto
        with inv have "good d" by (auto simp: rel_inv_def shaped_def)
        from length_shaped_join [OF this, of "rp_nup s" cs'] inv cs show ?thesis by (simp add: rel_inv_def shaped_def)
      qed
      have "rp_step look pre s = Inl (rp_skip (if rp_comp s = ''..'' \<and> \<not> rp_check s then rp_errno s else e0) s)"
        using ns nd tl go e0 q by (auto simp: rp_step_def)
      then obtain e where st: "rp_step look pre s = Inl (rp_skip e s)" by blast
      obtain cs' where "rel_inv cs' (rp_skip e s)" "budget (rp_skip e s) \<le> budget s"
          "rel_measure (rp_skip e s) < rel_measure s"
          "rel_names ds (rp_nup s) cs' = norm_comps (rel_names ds (rp_nup s) cs) [rp_comp s]"
        using rel_skip [OF inv nd go] False by blast
      with that [OF st] show thesis by (simp add: rp_skip_simps)
    qed
  qed
qed

lemma rel_loop:
  assumes "never_link look" and "rel_inv cs s"
  shows "\<exists>t cs'. iterate (rp_step look pre) s = Some (Ret t) \<and> shaped [] (rp_nup t) cs' (rp_out t) \<and>
    rel_names ds (rp_nup t) cs' = norm_comps (rel_names ds (rp_nup s) cs) (split_at slash (rp_rest s)) \<and>
    length (rp_out t) \<le> budget s"
  using assms(2)
proof (induction "rel_measure s" arbitrary: s cs rule: less_induct)
  case less
  show ?case
  proof (cases "rp_comp s = [] \<and> \<not> rp_check s")
    case True
    have ns: "\<not> starts_with (rp_rest s) slash" using less.prems by (simp add: rel_inv_def)
    with True have "rp_rest s = []" using rest_empty by blast
    moreover have "rp_step look pre s = Inr (Ret s)" using True ns by (simp add: rp_step_def)
    ultimately show ?thesis using less.prems
      by (intro exI [of _ s] exI [of _ cs]) (simp add: iterate_unfold [of _ s] rel_inv_def budget_def)
  next
    case False
    then obtain t cs' where st: "rp_step look pre s = Inl t" and inv: "rel_inv cs' t" and b: "budget t \<le> budget s"
      and dec: "rel_measure t < rel_measure s" and rest: "rp_rest t = strip_slashes (rp_after s)"
      and names: "rel_names ds (rp_nup t) cs' = norm_comps (rel_names ds (rp_nup s) cs) [rp_comp s]"
      using rel_step [OF assms(1) less.prems] by blast
    from less.hyps [OF dec inv] b st show ?thesis
      unfolding norm_comp_step [of _ s] names rest by (auto simp: iterate_unfold [of _ s] intro: le_trans)
  qed
qed

section \<open>The working directory\<close>

lemma rp_cancel_cwd:
  assumes "list_all good ds"
  shows "fst (rp_cancel n (root_path ds) p q) = root_path (take (length ds - n) ds)"
  using assms
proof (induction n arbitrary: ds p)
  case (Suc n)
  let ?c1 = "rev (dropWhile (\<lambda>c. c \<noteq> slash) (rev (root_path ds)))"
  let ?c2 = "if ?c1 = [] then take 1 (root_path ds) else ?c1"
  let ?c3 = "if 1 < length ?c2 then butlast ?c2 else ?c2"
  have "?c3 = root_path (butlast ds)"
  proof (cases ds rule: rev_cases)
    case Nil
    then show ?thesis by (simp add: root_path_def)
  next
    case (snoc ds' d)
    have d: "slash \<notin> set d" using Suc.prems by (simp add: snoc good_def)
    have "?c1 = (if ds' = [] then [slash] else root_path ds' @ [slash])"
    proof (cases "ds' = []")
      case True
      then have "root_path ds = [] @ slash # d" by (simp add: snoc root_path_def)
      then show ?thesis using True dropWhile_rev_comp [OF d, of "[]"] by (simp only: append_Nil if_True simp_thms)
    next
      case False
      then have "root_path ds = root_path ds' @ slash # d" by (simp add: snoc root_path_snoc)
      then show ?thesis using False dropWhile_rev_comp [OF d, of "root_path ds'"] by (simp only: if_False)
    qed
    then show ?thesis by (auto simp: snoc root_path_def)
  qed
  then have "fst (rp_cancel (Suc n) (root_path ds) p q) =
      fst (rp_cancel n (root_path (butlast ds)) (if p + 2 < q then Suc (p + 2) else p + 2) q)"
    by (simp only: rp_cancel.simps Let_def)
  also have "\<dots> = root_path (take (length (butlast ds) - n) (butlast ds))"
    by (rule Suc.IH) (use Suc.prems in \<open>auto simp: list_all_iff dest: in_set_butlastD\<close>)
  also have "take (length (butlast ds) - n) (butlast ds) = take (length ds - Suc n) ds"
    by (simp add: butlast_conv_take take_take min_def)
  finally show ?case .
qed simp

lemma rp_cancel_snd:
  "p + 3 * n \<le> q \<Longrightarrow> snd (rp_cancel n c p q) = p + 3 * n"
  "0 < n \<Longrightarrow> p + 3 * n = Suc q \<Longrightarrow> snd (rp_cancel n c p q) = q"
proof -
  show "p + 3 * n \<le> q \<Longrightarrow> snd (rp_cancel n c p q) = p + 3 * n" for p c
    by (induction n arbitrary: p c) (auto simp: Let_def)
  show "0 < n \<Longrightarrow> p + 3 * n = Suc q \<Longrightarrow> snd (rp_cancel n c p q) = q"
  proof (induction n arbitrary: p c)
    case (Suc n)
    then show ?case by (cases "n = 0") (auto simp: Let_def)
  qed simp
qed

lemma rp_cancel_rest:
  assumes "list_all good cs"
  shows "drop (snd (rp_cancel n c 0 (length (join_with slash (replicate n ''..'' @ cs)))))
    (join_with slash (replicate n ''..'' @ cs)) = join_with slash cs"
proof (cases "n = 0")
  case False
  let ?dots = "join_with slash (replicate n ''..'')"
  have ld: "length ?dots = 3 * n - 1" by (rule length_join_dots)
  show ?thesis
  proof (cases "cs = []")
    case True
    with rp_cancel_snd(2) [of n 0 "length ?dots" c] ld False show ?thesis by simp
  next
    case F: False
    have j: "join_with slash (replicate n ''..'' @ cs) = (?dots @ [slash]) @ join_with slash cs"
      using False F join_with_append [of "replicate n ''..''" cs slash] by simp
    have l3: "length (?dots @ [slash]) = 3 * n" using ld False by simp
    then have "3 * n \<le> length (join_with slash (replicate n ''..'' @ cs))" unfolding j by simp
    then have "snd (rp_cancel n c 0 (length (join_with slash (replicate n ''..'' @ cs)))) = length (?dots @ [slash])"
      using rp_cancel_snd(1) [of 0 n _ c] unfolding l3 by simp
    then show ?thesis unfolding j by (simp only:) (rule append_eq_conv_conj [THEN iffD1, THEN conjunct2, symmetric], simp)
  qed
qed simp

lemma rp_finish_relative:
  assumes sh: "shaped [] (rp_nup s) cs (rp_out s)" and cwd: "getcwd (Suc PATH_MAX) = Inr (root_path ds)"
    and ds: "list_all good ds" and len: "length (root_path ds) + length (rp_out s) + 2 < PATH_MAX"
  shows "rp_finish getcwd s = Ret (root_path (rel_names ds (rp_nup s) cs))"
proof -
  let ?c = "rp_cancel (rp_nup s) (root_path ds) 0 (length (rp_out s))"
  let ?d = "take (length ds - rp_nup s) ds"
  have out: "rp_out s = join_with slash (replicate (rp_nup s) ''..'' @ cs)" and cs: "list_all good cs"
    using sh by (auto simp: shaped_def)
  have c1: "fst ?c = root_path ?d" by (rule rp_cancel_cwd [OF ds])
  have c2: "drop (snd ?c) (rp_out s) = join_with slash cs"
    using rp_cancel_rest [OF cs, of "rp_nup s" "root_path ds"] out by simp
  have le: "snd ?c \<le> length (rp_out s)" by (rule shaped_cancel [OF sh])
  have ns: "\<not> starts_with (rp_out s) slash"
    using join_ends [OF _ shaped_items [OF cs, of "rp_nup s"]] out
    by (cases "replicate (rp_nup s) ''..'' @ cs = []") auto
  have items: "\<forall>x \<in> set cs. x \<noteq> [] \<and> slash \<notin> set x" using cs by (auto simp: list_all_iff good_def)
  have je: "join_with slash cs = [] \<longleftrightarrow> cs = []" using join_ends [OF _ items] by (cases "cs = []") auto
  have gd: "list_all good ?d" using ds by (auto simp: list_all_iff dest: in_set_takeD)
  have last: "last (root_path ?d) = slash \<longleftrightarrow> ?d = []"
  proof (cases "?d = []")
    case False
    have "\<forall>x \<in> set ?d. x \<noteq> [] \<and> slash \<notin> set x" using gd by (auto simp: list_all_iff good_def)
    from join_ends [OF False this] show ?thesis using False by (simp add: root_path_def)
  next
    case True
    then have "root_path ?d = [slash]" by (simp only: root_path_def join_with.simps)
    with True show ?thesis by simp
  qed
  let ?c' = "if join_with slash cs \<noteq> [] \<and> last (root_path ?d) \<noteq> slash then root_path ?d @ [slash] else root_path ?d"
  have r: "?c' @ join_with slash cs = root_path (rel_names ds (rp_nup s) cs)"
  proof (cases "cs = []")
    case True
    then show ?thesis by (simp add: rel_names_def)
  next
    case False
    then show ?thesis
      unfolding rel_names_def last je using join_with_append [of ?d cs slash] by (auto simp: root_path_def)
  qed
  have "length (root_path ?d) \<le> length (root_path ds)"
    using root_path_append [of ?d "drop (length ds - rp_nup s) ds"]
    by (cases "?d = []") (auto simp: root_path_def)
  moreover have "length (join_with slash cs) \<le> length (rp_out s)" using c2 by (metis length_drop diff_le_self)
  ultimately have "\<not> PATH_MAX \<le> length ?c' + length (join_with slash cs) + 1" using len by simp
  moreover obtain c0 p0 where cp: "?c = (c0, p0)" by fastforce
  ultimately show ?thesis
    using ns le r c1 c2 unfolding cp fst_conv snd_conv
    by (simp only: rp_finish_def Let_def cwd cp prod.case sum.case if_False not_less simp_thms if_cancel)
      (simp only: not_le [symmetric] simp_thms if_False)
qed

lemma rp_walk_relative:
  assumes nl: "never_link look" and name: "name \<noteq> []" "\<not> starts_with name slash"
    and cwd: "getcwd (Suc PATH_MAX) = Inr (root_path ds)" and ds: "list_all good ds"
    and len: "length (root_path ds) + length name + 2 < PATH_MAX"
  shows "rp_walk look pre getcwd e name = Ret (root_path (norm_comps ds (split_at slash name)))"
proof -
  let ?s = "rp_init name e"
  have b: "budget ?s = length name" by (simp add: budget_def rp_init_def rp_sep_def)
  then have "rel_inv [] ?s" using name len by (simp add: rel_inv_def rp_init_def shaped_def)
  from rel_loop [OF nl this, of pre ds] obtain t cs where it: "iterate (rp_step look pre) ?s = Some (Ret t)"
    and sh: "shaped [] (rp_nup t) cs (rp_out t)" and lt: "length (rp_out t) \<le> length name"
    and names: "rel_names ds (rp_nup t) cs = norm_comps (rel_names ds 0 []) (split_at slash name)"
    unfolding b by (auto simp: rp_init_def)
  have "rp_finish getcwd t = Ret (root_path (rel_names ds (rp_nup t) cs))"
    by (rule rp_finish_relative [where s = t and ds = ds and getcwd = getcwd, OF sh cwd ds]) (use len lt in simp)
  with it names name len show ?thesis by (simp add: rp_walk_def Let_def strnlen_def rel_names_def)
qed

section \<open>Resolving a relative name\<close>

lemma strip_front_relative:
  assumes "s \<noteq> []" and "\<not> starts_with s slash"
  shows "strip_front s \<noteq> [] \<and> \<not> starts_with (strip_front s) slash \<and> length (strip_front s) \<le> length s \<and>
    (\<forall>st. norm_comps st (split_at slash (strip_front s)) = norm_comps st (split_at slash s))"
  using assms
proof (induction s rule: strip_front.induct)
  case (1 a b c d s)
  show ?case
  proof (cases "a = CHR ''.'' \<and> b = slash \<and> c \<noteq> slash")
    case True
    have "split_at slash (a # b # c # d # s) = ''.'' # split_at slash (c # d # s)"
      using split_at_append_sep [of slash "''.''" "c # d # s"] True by (simp add: slash_def)
    with 1(1) [OF True] True show ?thesis by auto
  next
    case False
    then have "strip_front (a # b # c # d # s) = a # b # c # d # s" by (simp only: strip_front.simps if_False)
    with 1(2,3) show ?thesis by (simp only: order_refl simp_thms)
  qed
qed simp_all

lemma path_sanitize_relative:
  assumes "s \<noteq> []" and "\<not> starts_with s slash"
  shows "path_sanitize s \<noteq> [] \<and> \<not> starts_with (path_sanitize s) slash \<and> length (path_sanitize s) \<le> length s \<and>
    (\<forall>st. norm_comps st (split_at slash (path_sanitize s)) = norm_comps st (split_at slash s))"
proof -
  let ?f = "strip_front s" and ?t = "strip_tail (strip_dot (strip_front s))"
  note f = strip_front_relative [OF assms]
  have st: "strips ?f ?t" by (rule strips_trans [OF strip_dot_strips strip_tail_strips])
  with f have ne: "?t \<noteq> []" by (simp add: strips_def)
  with assms(1) have t: "path_sanitize s = ?t" by (simp add: path_sanitize_def)
  have "\<not> starts_with ?t slash" using st f ne by (cases ?t; cases ?f) (auto simp: strips_def)
  moreover have "length ?t \<le> length s" using st f by (auto simp: strips_def dest: prefix_length_le)
  ultimately show ?thesis using st f ne unfolding t by (simp add: strips_def)
qed

lemma plain_never_link: "plain_host h \<Longrightarrow> never_link (rpat_lookup (h_pathattr h) (h_readlink h) follow e)"
  unfolding never_link_def
proof (intro allI)
  fix f p e'
  assume h: "plain_host h"
  obtain x where x: "h_pathattr h f p = Inl x" and r: "h_readlink h f p = Inl EINVAL \<or> h_readlink h f p = Inl ENOENT"
    using h by (fastforce simp: plain_host_def isl_def)
  from r show "\<exists>e''. rpat_lookup (h_pathattr h) (h_readlink h) follow e f p e' = NotLink e''"
    by (rule disjE) (simp_all add: x rpat_lookup_def rpat_readlink_def)
qed

text \<open>
  A relative name, followed: below the working directory, or the path of the host without the root
  directory when the expression matches that.
\<close>

lemma resolution_relative:
  assumes h: "plain_host h" and ign: "absolute_only (l_ignore lib)" and lr: "length (root_text lib) \<le> PATH_MAX"
    and name: "path \<noteq> []" "\<not> starts_with path slash" and plain: "\<not> (allow_ignore prflags \<and> ignore (l_ignore lib) path)"
    and cwd: "h_getcwd h (Suc PATH_MAX) = Inr (root_path ds)" and ds: "list_all good ds"
    and len: "length (root_path ds) + length path + 2 < PATH_MAX" and siz: "PATH_MAX \<le> bufsiz"
    and follow: "follow_symlink atflags"
  shows "path_resolution2 h lib e AT_FDCWD (Some path) bufsiz atflags prflags =
    Ret (let shown = root_path (norm_comps ds (split_at slash path));
             t = (if left_alone lib prflags (root_text lib) shown then drop (length (root_text lib)) shown else shown)
         in if allow_walk_along prflags then lexical t else t)"
proof -
  let ?s = "path_sanitize path" and ?shown = "root_path (norm_comps ds (split_at slash path))"
  note s = path_sanitize_relative [OF name]
  let ?look = "rpat_lookup (h_pathattr h) (h_readlink h) True e"
  have nl: "never_link ?look" by (rule plain_never_link [OF h])
  have w: "rp_walk ?look pre (h_getcwd h) e ?s = Ret ?shown" for pre
    using rp_walk_relative [where look = ?look and name = ?s and getcwd = "h_getcwd h" and ds = ds and pre = pre and e = e,
        OF nl _ _ cwd ds] s len by simp
  have lt: "length ?shown < PATH_MAX" by (rule rp_walk_safe(2) [OF never_link_fits [OF nl] w])
  have w1: "walk_buf h (l_env lib) (follow_symlink atflags) (follow_symlink atflags) bufsiz (?s, e) = Ret (?shown, e)"
    using follow w lt siz by (simp add: walk_buf_def realpathat_def)
  have place: "place_path h (root_text lib) AT_FDCWD path bufsiz = Inr (path, False)"
    using name len siz by (simp add: place_path_def)
  have magic: "path \<noteq> ''/proc/1/root'' \<and> \<not> strneq path ''/dev/fd/'' 8"
    using name by (cases path) (auto simp: slash_def strneq_def)
  have "path_resolution2 h lib e AT_FDCWD (Some path) bufsiz atflags prflags =
      resolve_buf h lib (root_text lib) False bufsiz atflags prflags e path"
    by (rule resolution_start) (use magic plain len place in auto)
  also have "\<dots> = Ret (let t = (if left_alone lib prflags (root_text lib) ?shown then drop (length (root_text lib)) ?shown else ?shown)
      in if allow_walk_along prflags then lexical t else t)"
    by (rule resolve_shown [OF h lr w1]) (use root_path_starts lt siz ign in \<open>auto simp: left_alone_def absolute_only_def\<close>)
  finally show ?thesis by (simp add: Let_def)
qed

end
