(* ===== verification/Chroot.thy ===== *)
theory Chroot
  imports Path_Res
begin

text \<open>
  The calls that move the process: \<^verbatim>\<open>chroot.c\<close>, \<^verbatim>\<open>chdir.c\<close>, \<^verbatim>\<open>fchdir.c\<close>, and the
  calls that show where it is: \<^verbatim>\<open>getcwd.c\<close>, \<^verbatim>\<open>getwd.c\<close>,
  \<^verbatim>\<open>get_current_dir_name.c\<close>, \<^verbatim>\<open>readlinkat.c\<close>. The kernel's part is a parameter: a
  state \<open>'w\<close>, what the host answers in it, and the two system calls that change it. A call
  returns \<open>None\<close> for \<open>0\<close> and \<open>Some e\<close> for \<open>-1\<close> with \<^verbatim>\<open>errno\<close>.
\<close>

record 'w sys =
  s_host :: "'w \<Rightarrow> host"
  s_chdir :: "string \<Rightarrow> 'w \<Rightarrow> errno option \<times> 'w"
  s_fchdir :: "int \<Rightarrow> 'w \<Rightarrow> errno option \<times> 'w"

type_synonym 'w proc = "lib \<times> 'w"

definition chroot :: "'w sys \<Rightarrow> errno \<Rightarrow> string \<Rightarrow> 'w proc \<Rightarrow> (errno option \<times> 'w proc) run" where
  "chroot sys e path p =
     (case p of (lib, w) \<Rightarrow>
        case path_resolution (s_host sys w) lib e AT_FDCWD (Some path) PATH_MAX 0 of
          Ret buf \<Rightarrow>
            (case setrootdir (Some buf) (l_env lib) of
               Inl e' \<Rightarrow> Ret (Some e', p)
             | Inr env \<Rightarrow> Ret (None, (lib\<lparr>l_env := env\<rparr>, w)))
        | Err e' \<Rightarrow> Ret (Some e', p)
        | Undef \<Rightarrow> Undef
        | Diverge \<Rightarrow> Diverge)"

text \<open>The end of \<^verbatim>\<open>chdir\<close> and \<^verbatim>\<open>fchdir\<close>: \<^verbatim>\<open>__chrootdir (NULL)\<close>.\<close>

definition after_chdir :: "'w sys \<Rightarrow> lib \<Rightarrow> errno option \<times> 'w \<Rightarrow> errno option \<times> 'w proc" where
  "after_chdir sys lib rw =
     (case rw of
        (Some e, w) \<Rightarrow> (Some e, (lib, w))
      | (None, w) \<Rightarrow>
          (case chrootdir (h_getcwd (s_host sys w) PATH_MAX) (l_env lib) of
             Inl e \<Rightarrow> (Some e, (lib, w))
           | Inr env \<Rightarrow> (None, (lib\<lparr>l_env := env\<rparr>, w))))"

definition chdir :: "'w sys \<Rightarrow> errno \<Rightarrow> string \<Rightarrow> 'w proc \<Rightarrow> (errno option \<times> 'w proc) run" where
  "chdir sys e path p =
     (case p of (lib, w) \<Rightarrow>
        case path_resolution (s_host sys w) lib e AT_FDCWD (Some path) PATH_MAX 0 of
          Ret buf \<Rightarrow> Ret (after_chdir sys lib (s_chdir sys buf w))
        | Err e' \<Rightarrow> Ret (Some e', p)
        | Undef \<Rightarrow> Undef
        | Diverge \<Rightarrow> Diverge)"

definition fchdir :: "'w sys \<Rightarrow> int \<Rightarrow> 'w proc \<Rightarrow> (errno option \<times> 'w proc) run" where
  "fchdir sys fd p =
     (case p of (lib, w) \<Rightarrow>
        case fpath (h_readlink (s_host sys w)) fd PATH_MAX of
          Ret buf \<Rightarrow> Ret (after_chdir sys lib (s_fchdir sys fd w))
        | Err e' \<Rightarrow> Ret (Some e', p)
        | Undef \<Rightarrow> Undef
        | Diverge \<Rightarrow> Diverge)"

text \<open>\<^verbatim>\<open>getcwd\<close>; \<^verbatim>\<open>getwd\<close> and \<^verbatim>\<open>get_current_dir_name\<close> differ in the host call only.\<close>

definition strip_answer :: "lib \<Rightarrow> errno + string \<Rightarrow> errno + string" where
  "strip_answer lib ans =
     (case ans of Inl e \<Rightarrow> Inl e
      | Inr d \<Rightarrow> (case striprootdir (l_env lib) d of None \<Rightarrow> Inl EINVAL | Some s \<Rightarrow> Inr s))"

definition getcwd :: "'w sys \<Rightarrow> nat \<Rightarrow> 'w proc \<Rightarrow> errno + string" where
  "getcwd sys n p = strip_answer (fst p) (h_getcwd (s_host sys (snd p)) n)"

definition getwd :: "errno + string \<Rightarrow> lib \<Rightarrow> errno + string" where
  "getwd next lib = strip_answer lib next"

definition get_current_dir_name :: "errno + string \<Rightarrow> lib \<Rightarrow> errno + string" where
  "get_current_dir_name next lib = strip_answer lib next"

text \<open>
  \<^verbatim>\<open>readlinkat\<close>: \<open>rlink dfd path size\<close> is \<^verbatim>\<open>next_readlinkat\<close>, \<open>execfn\<close> the name of
  the executable. The root directory is taken off a text below it.
\<close>

definition readlink_strip :: "env \<Rightarrow> string \<Rightarrow> string" where
  "readlink_strip env v =
     (let root = getrootdir env in
      if strneq root ''/'' (length v) then v
      else if \<not> strleq v root then v
      else let t = drop (strlen_max root) v in if t = [] then ''/'' else t)"

definition readlinkat ::
    "(int \<Rightarrow> string \<Rightarrow> nat \<Rightarrow> errno + string) \<Rightarrow> string option \<Rightarrow> host \<Rightarrow> lib \<Rightarrow> errno \<Rightarrow> int \<Rightarrow> string
     \<Rightarrow> nat \<Rightarrow> string run" where
  "readlinkat rlink execfn h lib e dfd path bufsiz =
     run_bind (path_resolution2 h lib e dfd (Some path) PATH_MAX AT_SYMLINK_NOFOLLOW PR_NOWALKALONG) (\<lambda>tmp.
       case (if tmp = ''/proc/self/exe'' then getexe execfn (l_env lib) else None) of
         Some exe \<Rightarrow> Ret (take bufsiz (take PATH_MAX exe))
       | None \<Rightarrow> (case rlink dfd tmp PATH_MAX of
             Inl e' \<Rightarrow> Err e'
           | Inr v \<Rightarrow> Ret (take bufsiz (readlink_strip (l_env lib) v))))"

definition readlink ::
    "(int \<Rightarrow> string \<Rightarrow> nat \<Rightarrow> errno + string) \<Rightarrow> string option \<Rightarrow> host \<Rightarrow> lib \<Rightarrow> errno \<Rightarrow> string \<Rightarrow> nat
     \<Rightarrow> string run" where
  "readlink rlink execfn h lib e path bufsiz = readlinkat rlink execfn h lib e AT_FDCWD path bufsiz"

section \<open>The process as a state machine\<close>

datatype move = Chroot string | Chdir string | Fchdir int

definition do_move :: "'w sys \<Rightarrow> errno \<Rightarrow> move \<Rightarrow> 'w proc \<Rightarrow> (errno option \<times> 'w proc) run" where
  "do_move sys e m p =
     (case m of Chroot s \<Rightarrow> chroot sys e s p | Chdir s \<Rightarrow> chdir sys e s p | Fchdir fd \<Rightarrow> fchdir sys fd p)"

inductive move_step :: "'w sys \<Rightarrow> 'w proc \<Rightarrow> move \<Rightarrow> errno option \<Rightarrow> 'w proc \<Rightarrow> bool" for sys where
  move: "do_move sys e m p = Ret (res, p') \<Longrightarrow> move_step sys p m res p'"

inductive_cases move_stepE: "move_step sys p m res p'"
inductive_simps move_step_simps: "move_step sys p m res p'"

text \<open>The states a process reaches from \<open>p\<close> by moves that \<open>ok\<close> admits in the state they start from.\<close>

inductive reaches :: "'w sys \<Rightarrow> ('w proc \<Rightarrow> move \<Rightarrow> bool) \<Rightarrow> 'w proc \<Rightarrow> 'w proc \<Rightarrow> bool" for sys ok p where
  start: "reaches sys ok p p"
| step: "reaches sys ok p q \<Longrightarrow> ok q m \<Longrightarrow> move_step sys q m res r \<Longrightarrow> reaches sys ok p r"

end
