(* ===== verification/Chroot_Facts.thy ===== *)
theory Chroot_Facts
  imports Chroot Path_Rel
begin

text \<open>
  The working directory against the root directory: a move leaves the chroot when the text of the
  working directory does not start with the root directory, the path that was asked for is the path
  \<^verbatim>\<open>getcwd\<close> then shows, and the root directory stays canonical.
\<close>

lemma after_chdir_None:
  assumes "after_chdir sys lib rw = (None, (lib', w'))"
  obtains d where "h_getcwd (s_host sys w') PATH_MAX = Inr d" and "rw = (None, w')"
    and "chrootdir (Inr d) (l_env lib) = Inr (l_env lib')" and "lib' = lib\<lparr>l_env := l_env lib'\<rparr>"
  using assms by (cases rw) (auto simp: after_chdir_def chrootdir_def split: option.splits sum.splits if_splits)

lemma after_chdir_chroot:
  assumes "after_chdir sys lib rw = (res, (lib', w'))"
  shows "lib' = lib \<and> (res = None \<longrightarrow>
      (\<exists>d. h_getcwd (s_host sys w') PATH_MAX = Inr d \<and> strleq d (getrootdir (l_env lib)))) \<or>
    res = None \<and> lib' = lib\<lparr>l_env := del_var ROOT_VAR (l_env lib)\<rparr> \<and>
      (\<exists>d. h_getcwd (s_host sys w') PATH_MAX = Inr d \<and> \<not> strleq d (getrootdir (l_env lib)))"
  using assms
  by (cases rw) (auto simp: after_chdir_def chrootdir_def setrootdir_None split: option.splits sum.splits if_splits)

text \<open>A resolution without links of an ordinary absolute path is canonical.\<close>

lemma resolution_absolute:
  assumes h: "plain_host h" and o: "ordinary lib prflags path" and w: "follow_symlink atflags \<or> allow_walk_along prflags"
    and root: "canonical (getrootdir (l_env lib))" and abs: "starts_with path slash"
    and len: "length (getrootdir (l_env lib) @ path) < PATH_MAX" and siz: "PATH_MAX \<le> bufsiz"
  shows "\<exists>r. path_resolution2 h lib e dfd (Some path) bufsiz atflags prflags = Ret r \<and> canonical r \<and> length r < PATH_MAX"
proof -
  let ?buf = "placed (root_text lib) path"
  have r: "root_text lib = [] \<or> starts_with (root_text lib) slash"
    using root by (auto simp: root_text_def canonical_def)
  have b: "starts_with ?buf slash" by (rule starts_placed [OF abs r])
  have l: "length ?buf < PATH_MAX" "length (root_text lib) \<le> PATH_MAX"
    using len length_placed [of "root_text lib" path] by (auto simp: root_text_def split: if_splits)
  have "path_resolution2 h lib e dfd (Some path) bufsiz atflags prflags = Ret (lexical (path_sanitize ?buf))"
    using resolution_ordinary [OF h o abs r l(2) _ l(1), of bufsiz e dfd atflags] w len siz l by auto
  then show ?thesis
    using lexical_is_canonical length_lexical path_sanitize_strips [OF b] l(1)
    by (auto simp: strips_def dest: prefix_length_le)
qed

text \<open>
  C29: What \<^verbatim>\<open>chdir\<close> and \<^verbatim>\<open>fchdir\<close> do to the chroot, whatever they return: either the
  state of the library is unchanged, and after a success the text of the working directory starts with
  the text of the root directory; or the call has succeeded, the text of the working directory does not
  start with it, and the process has left the chroot: \<^verbatim>\<open>IAMROOT_ROOT\<close> is removed. (A working
  directory \<^verbatim>\<open>/r2\<close> starts with the text of \<^verbatim>\<open>/r\<close>: see the lemma below.)
\<close>

theorem chdir_confines:
  assumes "move_step sys (lib, w) m res (lib', w')" and "case m of Chroot s \<Rightarrow> False | _ \<Rightarrow> True"
  shows "lib' = lib \<and> (res = None \<longrightarrow>
      (\<exists>d. h_getcwd (s_host sys w') PATH_MAX = Inr d \<and> strleq d (getrootdir (l_env lib)))) \<or>
    res = None \<and> lib' = lib\<lparr>l_env := del_var ROOT_VAR (l_env lib)\<rparr> \<and>
      (\<exists>d. h_getcwd (s_host sys w') PATH_MAX = Inr d \<and> \<not> strleq d (getrootdir (l_env lib)))"
proof -
  have "(\<exists>rw. after_chdir sys lib rw = (res, (lib', w'))) \<or> (res \<noteq> None \<and> lib' = lib)"
    using assms
    by (auto simp: move_step_simps do_move_def chdir_def fchdir_def split: move.splits run.splits) (metis surj_pair)+
  then show ?thesis
  proof
    assume "\<exists>rw. after_chdir sys lib rw = (res, (lib', w'))"
    then obtain rw where "after_chdir sys lib rw = (res, (lib', w'))" by blast
    from after_chdir_chroot [OF this] show ?thesis .
  qed auto
qed

text \<open>A kernel whose state is the working directory, on a host without links.\<close>

definition cwd_sys :: "string sys" where
  "cwd_sys = \<lparr>s_host = (\<lambda>w. \<lparr>h_readlink = (\<lambda>f n. Inl EINVAL), h_pathattr = (\<lambda>f n. Inl ENODATA),
      h_getcwd = (\<lambda>n. if length w < n then Inr w else Inl ERANGE)\<rparr>),
    s_chdir = (\<lambda>d w. (None, d)), s_fchdir = (\<lambda>fd w. (Some EBADF, w))\<rparr>"

lemma cwd_plain: "plain_host (s_host cwd_sys w)"
  by (simp add: plain_host_def cwd_sys_def)

lemma cwd_chdir:
  assumes "path_resolution (s_host cwd_sys w) lib E_OK AT_FDCWD (Some path) PATH_MAX 0 = Ret d"
    and "length d < PATH_MAX" and "chrootdir (Inr d) (l_env lib) = Inr (l_env lib)"
  shows "move_step cwd_sys (lib, w) (Chdir path) None (lib, d)"
proof (rule move_step.intros [where e = E_OK])
  show "do_move cwd_sys E_OK (Chdir path) (lib, w) = Ret (None, (lib, d))"
    using assms by (simp add: do_move_def chdir_def after_chdir_def) (simp add: cwd_sys_def)
qed

lemma cwd_chdir_demo: "move_step cwd_sys (chroot_lib ''/r'', ''/'') (Chdir ''/a/b'') None (chroot_lib ''/r'', ''/r/a/b'')"
  by (rule cwd_chdir) code_simp+

theorem chdir_confines_witness:
  "\<exists>d. h_getcwd (s_host cwd_sys ''/r/a/b'') PATH_MAX = Inr d \<and>
    strleq d (getrootdir (l_env (chroot_lib ''/r'')))"
proof -
  have "strleq ''/r/a/b'' (getrootdir (l_env (chroot_lib ''/r'')))" by code_simp
  then show ?thesis using chdir_confines [OF cwd_chdir_demo] by (auto simp: cwd_sys_def split: if_splits)
qed

text \<open>
  The comparison is one of texts: in \<^verbatim>\<open>/r\<close> a \<^verbatim>\<open>chdir\<close> to \<^verbatim>\<open>/r2\<close> goes to the
  directory \<^verbatim>\<open>/r2\<close> of the host, the process stays in the chroot, and \<^verbatim>\<open>getcwd\<close>
  answers the relative name \<^verbatim>\<open>2\<close>.
\<close>

lemma chdir_sibling:
  "move_step cwd_sys (chroot_lib ''/r'', ''/'') (Chdir ''/r2'') None (chroot_lib ''/r'', ''/r2'')"
  "getcwd cwd_sys PATH_MAX (chroot_lib ''/r'', ''/r2'') = Inr ''2''"
proof -
  show "move_step cwd_sys (chroot_lib ''/r'', ''/'') (Chdir ''/r2'') None (chroot_lib ''/r'', ''/r2'')"
    by (rule cwd_chdir) code_simp+
  have "striprootdir (l_env (chroot_lib ''/r'')) ''/r2'' = Some ''2''" by code_simp
  then show "getcwd cwd_sys PATH_MAX (chroot_lib ''/r'', ''/r2'') = Inr ''2''"
    by (simp add: getcwd_def strip_answer_def) (simp add: cwd_sys_def PATH_MAX_def)
qed

text \<open>
  C28: In a chroot a \<^verbatim>\<open>chdir\<close> to an absolute path makes \<^verbatim>\<open>getcwd\<close> answer that path,
  normalised, as it is seen from the root directory: the program never sees the root directory itself.
  For a path without \<^verbatim>\<open>..\<close> that does not start with the text of the root directory, that is
  neither magic nor left to the host, on a host without links; and for a kernel that, after it has moved
  to the directory below the root directory that the path names, answers that directory.
\<close>

theorem chdir_getcwd:
  assumes "plain_host (s_host sys w)" and "ordinary lib 0 path"
    and "getrootdir (l_env lib) = root_path rs" and "list_all good rs" and "rs \<noteq> []"
    and "starts_with path slash" and "\<not> prefix (root_path rs) path" and "''..'' \<notin> set (split_at slash path)"
    and "length (root_path rs @ path) < PATH_MAX"
    and kernel: "\<And>names. list_all good names \<Longrightarrow> s_chdir sys (root_path (rs @ names)) w = (None, w') \<Longrightarrow>
      h_getcwd (s_host sys w') PATH_MAX = Inr (root_path (rs @ names))"
    and moved: "chdir sys e path (lib, w) = Ret (None, (lib', w'))"
  shows "lib' = lib \<and> getcwd sys PATH_MAX (lib', w') =
    Inr (root_path (filter (\<lambda>c. c \<noteq> [] \<and> c \<noteq> ''.'') (split_at slash path)))"
proof -
  let ?names = "filter (\<lambda>c. c \<noteq> [] \<and> c \<noteq> ''.'') (split_at slash path)"
  let ?d = "root_path (rs @ ?names)"
  have follow: "follow_symlink 0" by code_simp
  have res: "path_resolution (s_host sys w) lib e AT_FDCWD (Some path) PATH_MAX 0 = Ret ?d"
    unfolding path_resolution_def
    using resolution_chroot [OF assms(1-2) _ assms(3-7,9,9), of 0 e AT_FDCWD] follow
      norm_comps_names [OF assms(8), of rs] by simp
  have good: "list_all good ?names"
    using assms(8) split_at_no_sep [of _ slash path] by (auto simp: list_all_iff good_def)
  obtain r where after: "after_chdir sys lib (r, w') = (None, (lib', w'))" and mv: "s_chdir sys ?d w = (r, w')"
  proof -
    have "after_chdir sys lib (s_chdir sys ?d w) = (None, (lib', w'))"
      using moved by (simp add: chdir_def res)
    moreover obtain r v where "s_chdir sys ?d w = (r, v)" by fastforce
    moreover have "v = w'" using calculation
      by (auto simp: after_chdir_def split: option.splits sum.splits)
    ultimately show thesis using that by simp
  qed
  obtain d where d: "h_getcwd (s_host sys w') PATH_MAX = Inr d" and rn: "r = None"
    and c: "chrootdir (Inr d) (l_env lib) = Inr (l_env lib')" and l: "lib' = lib\<lparr>l_env := l_env lib'\<rparr>"
    by (rule after_chdir_None [OF after]) auto
  from kernel [OF good] mv rn d have dd: "d = ?d" by simp
  note below = root_path_append [OF assms(5), of ?names]
  note root = root_path_ends [OF assms(4,5)]
  have len: "length ?d < PATH_MAX"
    using resolution_absolute [OF assms(1,2) _ _ assms(6), of 0 PATH_MAX e AT_FDCWD] follow
      canonical_root_path [OF assms(4)] assms(3,9) res unfolding path_resolution_def by simp
  then have lr: "length (root_path rs) < PATH_MAX" by (simp add: below)
  have "strleq ?d (root_path rs)" using lr by (simp add: below)
  with c dd assms(3) have "l_env lib' = l_env lib" by (simp add: chrootdir_def)
  with l have lib: "lib' = lib" by simp
  have "2 \<le> length (root_path rs)"
    using root(2,3) by (cases "root_path rs"; cases "tl (root_path rs)") (auto simp: root_path_def slash_def)
  then have one: "strncpy_buf ''/'' (length (root_path rs)) = ''/''"
    by (cases "length (root_path rs) - 1") (auto simp: strncpy_buf_def)
  let ?q = "if ?names = [] then [] else root_path ?names"
  have "striprootdir (l_env lib) (root_path rs @ ?q) =
      Some (if ?q = [] then strncpy_buf ''/'' (length (root_path rs)) else ?q)"
    by (rule striprootdir_below [OF assms(3) root(2)]) (use len root(3) in \<open>simp_all add: below\<close>)
  moreover have "root_path [] = ''/''" "root_path ns \<noteq> []" for ns by (simp_all add: root_path_def slash_def)
  ultimately have "striprootdir (l_env lib) ?d = Some (root_path ?names)"
    unfolding below one by (cases "?names = []") simp_all
  then show ?thesis using d dd lib by (simp add: getcwd_def strip_answer_def)
qed

theorem chdir_getcwd_witness:
  "getcwd cwd_sys PATH_MAX (chroot_lib ''/r'', ''/r/a/b'') =
     Inr (root_path (filter (\<lambda>c. c \<noteq> [] \<and> c \<noteq> ''.'') (split_at slash ''/a/b'')))"
proof -
  have res: "path_resolution (s_host cwd_sys ''/'') (chroot_lib ''/r'') E_OK AT_FDCWD (Some ''/a/b'') PATH_MAX 0 = Ret ''/r/a/b''"
    by code_simp
  have ch: "chdir cwd_sys E_OK ''/a/b'' (chroot_lib ''/r'', ''/'') = Ret (None, (chroot_lib ''/r'', ''/r/a/b''))"
  proof -
    have "chrootdir (Inr ''/r/a/b'') (l_env (chroot_lib ''/r'')) = Inr (l_env (chroot_lib ''/r''))" by code_simp
    with res show ?thesis by (simp add: chdir_def after_chdir_def) (simp add: cwd_sys_def PATH_MAX_def)
  qed
  have o: "ordinary (chroot_lib ''/r'') 0 ''/a/b''" by code_simp
  show ?thesis
    by (rule chdir_getcwd [OF cwd_plain o root_r _ _ _ _ _ _ _ ch, THEN conjunct2])
      (simp_all add: cwd_sys_def good_def slash_def root_path_def PATH_MAX_def)
qed

section \<open>Reachable states\<close>

text \<open>The root directory is canonical and fits a path buffer; the expression is about absolute paths.\<close>

definition root_ok :: "lib \<Rightarrow> bool" where
  "root_ok lib \<longleftrightarrow> absolute_only (l_ignore lib) \<and> canonical (getrootdir (l_env lib)) \<and>
     length (getrootdir (l_env lib)) < PATH_MAX"

lemma canonical_slash: "canonical ''/''"
  using canonical_root_path [of "[]"] by (simp add: root_path_def slash_def)

lemma after_chdir_root_ok:
  assumes "after_chdir sys lib rw = (res, (lib', w'))" and "root_ok lib"
  shows "root_ok lib'"
  using after_chdir_chroot [OF assms(1)] assms(2) by (auto simp: root_ok_def canonical_slash PATH_MAX_def)

lemma root_ok_text:
  assumes "root_ok lib"
  shows "length (root_text lib) \<le> PATH_MAX" and "root_text lib = [] \<or> starts_with (root_text lib) slash"
  using assms by (auto simp: root_ok_def root_text_def canonical_def)

lemma canonical_starts: "canonical r \<Longrightarrow> starts_with r slash"
  by (auto simp: canonical_def)

text \<open>An absolute path is resolved to a canonical one, or is too long.\<close>

lemma resolution_total:
  assumes h: "plain_host h" and ok: "root_ok lib" and abs: "starts_with path slash"
    and dev: "\<not> prefix ''/dev/fd/'' path" and ign: "\<not> ignore (l_ignore lib) path"
  shows "path_resolution h lib e dfd (Some path) PATH_MAX 0 = Err ENAMETOOLONG \<or>
    (\<exists>r. path_resolution h lib e dfd (Some path) PATH_MAX 0 = Ret r \<and> canonical r \<and> length r < PATH_MAX)"
proof (cases "path = ''/proc/1/root''")
  case True
  have "length ''/'' < PATH_MAX" by (simp add: PATH_MAX_def)
  moreover have "allow_magic_links 0" by code_simp
  ultimately show ?thesis
    using canonical_slash by (simp add: True path_resolution_def path_resolution2_def strnlen_def PATH_MAX_def)
next
  case nr: False
  show ?thesis
  proof (cases "length path < PATH_MAX")
    case len: True
    let ?buf = "placed (root_text lib) path"
    note rt = root_ok_text [OF ok]
    have b: "starts_with ?buf slash" by (rule starts_placed [OF abs rt(2)])
    have joined: "root_text lib @ (if root_text lib \<noteq> [] \<and> strleq path (root_text lib) then drop (strlen_max (root_text lib)) path else path) = ?buf"
      using rt(1) by (auto simp: placed_def strleq_prefix prefix_def)
    have place: "place_path h (root_text lib) dfd path PATH_MAX =
        (if length ?buf < PATH_MAX then Inr (?buf, False) else Inl (Err ENAMETOOLONG, strncpy_buf ?buf PATH_MAX))"
      unfolding place_path_def joined by (simp add: abs print_path_def snprintf_def)
    have m: "allow_magic_links 0 \<longrightarrow> path \<noteq> ''/proc/1/root'' \<and> \<not> strneq path ''/dev/fd/'' 8"
      using nr dev by (simp add: strneq_dev_fd)
    show ?thesis
    proof (cases "length ?buf < PATH_MAX")
      case l: True
      let ?s = "path_sanitize ?buf"
      have s: "starts_with ?s slash" "length ?s < PATH_MAX"
        using path_sanitize_strips [OF b] l by (auto simp: strips_def dest: prefix_length_le)
      let ?t = "if left_alone lib 0 (root_text lib) (lexical ?s) then drop (length (root_text lib)) (lexical ?s) else lexical ?s"
      have fl: "follow_symlink 0" "allow_walk_along 0" by code_simp+
      have a: "left_alone lib 0 (root_text lib) (lexical ?s) \<Longrightarrow> starts_with (drop (length (root_text lib)) (lexical ?s)) slash"
        using ok by (simp add: left_alone_def absolute_only_def root_ok_def)
      have t: "starts_with ?t slash" "length ?t < PATH_MAX"
        using a lexical_starts length_lexical_le [OF s(1)] s(2) by auto
      have "path_resolution h lib e dfd (Some path) PATH_MAX 0 =
          resolve_buf h lib (root_text lib) False PATH_MAX 0 0 e ?buf"
        unfolding path_resolution_def by (rule resolution_start [OF m _ len]) (use place l ign in simp_all)
      also have "\<dots> = Ret (lexical ?t)"
        using resolve_plain [OF h rt(1) b l l refl, of 0 0 e] a fl by (simp add: Let_def)
      finally show ?thesis using lexical_is_canonical [OF t(1)] length_lexical [OF t] by simp
    next
      case False
      then have "place_path h (root_text lib) dfd path PATH_MAX = Inl (Err ENAMETOOLONG, strncpy_buf ?buf PATH_MAX)"
        using place by simp
      then show ?thesis using m ign len
        by (auto simp: path_resolution_def path_resolution2_def strnlen_def root_text_def)
    qed
  qed (simp add: path_resolution_def path_resolution2_def strnlen_def)
qed

text \<open>A relative name too, when the working directory is known and leaves room for it.\<close>

lemma relative_total:
  assumes h: "plain_host h" and ok: "root_ok lib" and name: "path \<noteq> []" "\<not> starts_with path slash"
    and cwd: "h_getcwd h (Suc PATH_MAX) = Inr (root_path ds)" and ds: "list_all good ds"
    and len: "length (root_path ds) + length path + 2 < PATH_MAX"
  shows "\<exists>r. path_resolution h lib e AT_FDCWD (Some path) PATH_MAX 0 = Ret r \<and> canonical r \<and> length r < PATH_MAX"
proof -
  let ?shown = "root_path (norm_comps ds (split_at slash path))"
  let ?t = "if left_alone lib 0 (root_text lib) ?shown then drop (length (root_text lib)) ?shown else ?shown"
  have ign: "absolute_only (l_ignore lib)" using ok by (simp add: root_ok_def)
  then have plain: "\<not> (allow_ignore 0 \<and> ignore (l_ignore lib) path)" using name by (auto simp: absolute_only_def)
  have fl: "follow_symlink 0" "allow_walk_along 0" by code_simp+
  have nl: "never_link (\<lambda>_ _ _. NotLink E_OK)" by (simp add: never_link_def)
  have "rp_walk (\<lambda>_ _ _. NotLink E_OK) [] (\<lambda>n. h_getcwd h (Suc PATH_MAX)) E_OK path = Ret ?shown"
    by (rule rp_walk_relative [where ds = ds, OF nl name _ ds len]) (rule cwd)
  then have "length ?shown < PATH_MAX" by (rule rp_walk_safe(2) [OF never_link_fits [OF nl]])
  then have t: "starts_with ?t slash" "length ?t < PATH_MAX"
    using ign root_path_starts by (auto simp: left_alone_def absolute_only_def)
  have "path_resolution h lib e AT_FDCWD (Some path) PATH_MAX 0 = Ret (lexical ?t)"
    unfolding path_resolution_def
    using resolution_relative [OF h ign root_ok_text(1) [OF ok] name plain cwd ds len order_refl fl(1)] fl(2)
    by (simp add: Let_def)
  then show ?thesis using lexical_is_canonical [OF t(1)] length_lexical [OF t] by simp
qed

text \<open>
  The moves from a state that keep the root directory canonical: every move but a \<^verbatim>\<open>chroot\<close> to
  the empty path, to a path that is not canonical and that is left to the host as it is, or to a relative
  path that does not fit a buffer together with the working directory.
\<close>

definition plain_move :: "'w sys \<Rightarrow> 'w proc \<Rightarrow> move \<Rightarrow> bool" where
  "plain_move sys p m \<longleftrightarrow> (case m of
       Chroot s \<Rightarrow>
         if starts_with s slash
         then canonical s \<and> length s < PATH_MAX \<or> \<not> prefix ''/dev/fd/'' s \<and> \<not> ignore (l_ignore (fst p)) s
         else s \<noteq> [] \<and> (\<exists>ds. h_getcwd (s_host sys (snd p)) (Suc PATH_MAX) = Inr (root_path ds) \<and> list_all good ds \<and>
                length (root_path ds) + length s + 2 < PATH_MAX)
     | _ \<Rightarrow> True)"

lemma canonical_ignored:
  assumes "canonical s" and "length s < PATH_MAX" and "prefix ''/dev/fd/'' s \<or> ignore (l_ignore lib) s"
  shows "path_resolution h lib e dfd (Some s) PATH_MAX 0 \<in> {Ret s, Ret ''/''}"
proof -
  have "allow_magic_links 0" "allow_ignore 0" by code_simp+
  moreover have "1 < PATH_MAX" by (simp add: PATH_MAX_def)
  ultimately show ?thesis
    using assms by (auto simp: path_resolution_def path_resolution2_def strnlen_def strneq_dev_fd copy_checked_def)
qed

lemma chroot_root_ok:
  assumes h: "plain_host (s_host sys w)" and ok: "root_ok lib" and m: "plain_move sys (lib, w) (Chroot s)"
    and ch: "chroot sys e s (lib, w) = Ret (res, (lib', w'))"
  shows "root_ok lib'"
proof -
  let ?r = "path_resolution (s_host sys w) lib e AT_FDCWD (Some s) PATH_MAX 0"
  have "?r = Err ENAMETOOLONG \<or> (\<exists>r. ?r = Ret r \<and> canonical r \<and> length r < PATH_MAX)"
  proof (cases "starts_with s slash")
    case abs: True
    show ?thesis
    proof (cases "prefix ''/dev/fd/'' s \<or> ignore (l_ignore lib) s")
      case True
      with abs m have c: "canonical s" "length s < PATH_MAX" by (auto simp: plain_move_def)
      from canonical_ignored [OF c True, of "s_host sys w" e AT_FDCWD] c canonical_slash show ?thesis
        by (auto simp: PATH_MAX_def)
    next
      case False
      then show ?thesis using resolution_total [OF h ok abs] by simp
    qed
  next
    case rel: False
    with m obtain ds where "s \<noteq> []" and ds: "h_getcwd (s_host sys w) (Suc PATH_MAX) = Inr (root_path ds)"
        "list_all good ds" "length (root_path ds) + length s + 2 < PATH_MAX"
      by (auto simp: plain_move_def)
    from relative_total [OF h ok this(1) rel ds] show ?thesis by blast
  qed
  with ok ch show ?thesis by (auto simp: chroot_def setrootdir_Some root_ok_def)
qed

lemma move_root_ok:
  assumes "\<And>w. plain_host (s_host sys w)" and "root_ok lib" and "plain_move sys (lib, w) m"
    and "move_step sys (lib, w) m res (lib', w')"
  shows "root_ok lib'"
proof -
  from assms(4) obtain e where 1: "do_move sys e m (lib, w) = Ret (res, (lib', w'))" by (rule move_stepE)
  show ?thesis
  proof (cases m)
    case (Chroot s)
    with chroot_root_ok [OF assms(1,2), where s = s and e = e and lib' = lib' and res = res] assms(3) 1 show ?thesis by (simp add: do_move_def)
  next
    case (Chdir s)
    with 1 assms(2) show ?thesis
      by (auto simp: do_move_def chdir_def split: run.splits intro: after_chdir_root_ok)
  next
    case (Fchdir fd)
    with 1 assms(2) show ?thesis
      by (auto simp: do_move_def fchdir_def split: run.splits intro: after_chdir_root_ok)
  qed
qed

text \<open>
  C4: On a host without links, \<^verbatim>\<open>IAMROOT_ROOT\<close> stays a canonical absolute path of less than
  \<^verbatim>\<open>PATH_MAX\<close> bytes through every sequence of \<^verbatim>\<open>chdir\<close>, \<^verbatim>\<open>fchdir\<close> and
  \<^verbatim>\<open>chroot\<close>, however these fail. Three kinds of \<^verbatim>\<open>chroot\<close> are excepted, because they do
  store another root directory: the empty path, a path that is not canonical and that is handed on as it is
  (one that the expression of ignored paths matches, or below \<^verbatim>\<open>/dev/fd\<close>), and a relative path for
  which the working directory is unknown, not canonical or too long.
\<close>

theorem root_stays_canonical:
  assumes "reaches sys (plain_move sys) (lib, w) (lib', w')" and "\<And>w. plain_host (s_host sys w)" and "root_ok lib"
  shows "root_ok lib'"
proof -
  have "root_ok (fst q)" if "reaches sys (plain_move sys) (lib, w) q" for q
    using that
  proof (induction rule: reaches.induct)
    case start
    show ?case using assms(3) by simp
  next
    case (step q m res r)
    with move_root_ok [OF assms(2), of "fst q" "snd q" m res "fst r" "snd r"] show ?case by simp
  qed
  from this [OF assms(1)] show ?thesis by simp
qed

lemma chroot_lib_ok: "root_ok (chroot_lib ''/r'')"
  using canonical_root_path [of "[''r'']"] root_r chroot_lib_absolute
  by (simp add: root_ok_def good_def slash_def root_path_def PATH_MAX_def)

text \<open>A \<^verbatim>\<open>chdir\<close> to \<^verbatim>\<open>/a/b\<close> and a \<^verbatim>\<open>chroot\<close> to \<^verbatim>\<open>../c\<close>.\<close>

lemma cwd_chroot_demo:
  "\<exists>lib'. move_step cwd_sys (chroot_lib ''/r'', ''/r/a/b'') (Chroot ''../c'') None (lib', ''/r/a/b'') \<and>
    getrootdir (l_env lib') = ''/r/a/c''"
proof -
  have "path_resolution (s_host cwd_sys ''/r/a/b'') (chroot_lib ''/r'') E_OK AT_FDCWD (Some ''../c'') PATH_MAX 0 = Ret ''/r/a/c''"
    by code_simp
  then have "do_move cwd_sys E_OK (Chroot ''../c'') (chroot_lib ''/r'', ''/r/a/b'') =
      Ret (None, ((chroot_lib ''/r'')\<lparr>l_env := put_var ROOT_VAR ''/r/a/c'' (l_env (chroot_lib ''/r''))\<rparr>, ''/r/a/b''))"
    by (simp add: do_move_def chroot_def setrootdir_Some)
  then show ?thesis
    by (intro exI [of _ "(chroot_lib ''/r'')\<lparr>l_env := put_var ROOT_VAR ''/r/a/c'' (l_env (chroot_lib ''/r''))\<rparr>"])
      (auto intro: move_step.intros)
qed

theorem root_stays_canonical_witness:
  "\<exists>lib'. getrootdir (l_env lib') = ''/r/a/c'' \<and> root_ok lib'"
proof -
  obtain lib' where st: "move_step cwd_sys (chroot_lib ''/r'', ''/r/a/b'') (Chroot ''../c'') None (lib', ''/r/a/b'')"
    and r: "getrootdir (l_env lib') = ''/r/a/c''" using cwd_chroot_demo by blast
  have cwd: "h_getcwd (s_host cwd_sys ''/r/a/b'') (Suc PATH_MAX) = Inr (root_path [''r'', ''a'', ''b''])" by code_simp
  have "plain_move cwd_sys (chroot_lib ''/r'', ''/r/a/b'') (Chroot ''../c'')"
    using cwd by (auto simp: plain_move_def good_def slash_def root_path_def PATH_MAX_def intro!: exI [of _ "[''r'', ''a'', ''b'']"])
  moreover have "plain_move cwd_sys (chroot_lib ''/r'', ''/'') (Chdir ''/a/b'')" by (simp add: plain_move_def)
  ultimately have "reaches cwd_sys (plain_move cwd_sys) (chroot_lib ''/r'', ''/'') (lib', ''/r/a/b'')"
    using reaches.step [OF reaches.step [OF reaches.start _ cwd_chdir_demo] _ st] by blast
  from root_stays_canonical [OF this cwd_plain chroot_lib_ok] r show ?thesis by blast
qed

text \<open>
  The excepted calls: what they make of \<^verbatim>\<open>IAMROOT_ROOT\<close>. \<^verbatim>\<open>chroot\<close> looks at no file,
  so the empty path, for which the kernel has \<^verbatim>\<open>ENOENT\<close>, is accepted too.
\<close>

definition root_after :: "string \<Rightarrow> string option" where
  "root_after s =
     (case chroot cwd_sys E_OK s (chroot_lib ''/r'', ''/'') of
        Ret (None, (lib, _)) \<Rightarrow> Some (getrootdir (l_env lib)) | _ \<Rightarrow> None)"

lemma root_not_canonical:
  "root_after ''/dev/../a/'' = Some ''/dev/../a/''" "root_after ''/dev/fd/../3'' = Some ''/dev/fd/../3''"
  "root_after [] = Some []" "root_after ''/a/../b/'' = Some ''/r/b''"
  by code_simp+

text \<open>
  \<^verbatim>\<open>realpath\<close> in a chroot answers the path as it is seen from the root directory, except
  for the root directory itself, for which it answers the empty string.
\<close>

theorem realpath_chroot:
  assumes "plain_host h" and "\<And>f n. h_readlink h f n = Inl EINVAL" and "ordinary lib 0 path"
    and "getrootdir (l_env lib) = root_path rs" and "list_all good rs" and "rs \<noteq> []"
    and "starts_with path slash" and "\<not> prefix (root_path rs) path" and "''..'' \<notin> set (split_at slash path)"
    and "length (root_path rs @ path) < PATH_MAX"
  shows "realpath h lib e path =
    Ret (let names = filter (\<lambda>c. c \<noteq> [] \<and> c \<noteq> ''.'') (split_at slash path)
         in if names = [] then [] else root_path names)"
proof -
  let ?names = "filter (\<lambda>c. c \<noteq> [] \<and> c \<noteq> ''.'') (split_at slash path)"
  let ?d = "root_path (rs @ ?names)"
  have follow: "follow_symlink 0" by code_simp
  have res: "path_resolution h lib e AT_FDCWD (Some path) PATH_MAX 0 = Ret ?d"
    unfolding path_resolution_def
    using resolution_chroot [OF assms(1,3) _ assms(4-8,10,10), of 0 e AT_FDCWD] follow
      norm_comps_names [OF assms(9), of rs] by simp
  have good: "list_all good (rs @ ?names)"
    using assms(5,9) split_at_no_sep [of _ slash path] by (auto simp: list_all_iff good_def)
  have "canonical (root_path rs)" "length (root_path rs) < PATH_MAX"
    using canonical_root_path [OF assms(5)] assms(10) by simp_all
  then have len: "length ?d < PATH_MAX"
    using resolution_absolute [OF assms(1,3) _ _ assms(7), of 0 PATH_MAX e AT_FDCWD] follow assms(4,10) res
    unfolding path_resolution_def by simp
  have nl: "never_link (next_lookup (h_readlink h) e)"
    using assms(2) by (simp add: never_link_def next_lookup_def)
  have "next_realpath (h_readlink h) (h_getcwd h) e ?d = Ret ?d"
    unfolding next_realpath_def
    using rp_walk_lexical [OF nl _ len] lexical_canonical [OF canonical_root_path [OF good]]
    by (simp add: root_path_def)
  then show ?thesis
    using res root_path_ends [OF assms(5,6)] assms(4) \<open>length (root_path rs) < PATH_MAX\<close>
    by (simp add: realpath_def Let_def root_path_append [OF assms(6)])
qed

theorem realpath_chroot_witness:
  "realpath bare_host (chroot_lib ''/r'') E_OK ''/'' = Ret []"
proof -
  have o: "ordinary (chroot_lib ''/r'') 0 ''/''" by code_simp
  have "h_readlink bare_host f n = Inl EINVAL" for f n by (simp add: bare_host_def)
  from realpath_chroot [OF bare_plain this o root_r, of E_OK] show ?thesis
    by (simp add: good_def slash_def root_path_def PATH_MAX_def)
qed

end
