(* ===== verification/Ident_Facts.thy ===== *)
theory Ident_Facts
  imports Ident
begin

text \<open>
  The numbers of the process are a store: what a setter takes a getter answers, and the stores do
  not disturb one another. The laws are a locale, interpreted on each pair of calls; the calls on
  two numbers at once are proved in a locale that extends it.
\<close>

section \<open>One number\<close>

lemma unat_ULONG: "unat (i :: 32 word) \<le> ULONG_MAX"
proof -
  have "unat i < 2 ^ LENGTH(32)" by (rule unsigned_less)
  then show ?thesis by (simp add: ULONG_MAX_def)
qed

lemma ucast_up_down [simp]: "ucast (ucast (i :: 32 word) :: 64 word) = i"
  by transfer simp

lemma ucast_of_unat: "ucast (of_nat (unat (i :: 32 word)) :: 64 word) = i"
  by (simp add: of_nat_unat)

lemma show_dec_short: "length (show_dec (unat (i :: 32 word))) \<le> 10"
proof -
  have "unat i < 2 ^ LENGTH(32)" by (rule unsigned_less)
  then have "unat i < 10 ^ 10" by simp
  then show ?thesis unfolding show_dec_def by (intro length_show_base) auto
qed

lemma strtoul_show_id: "strtoul (show_dec (unat (i :: 32 word))) 0 = (of_nat (unat i), False)"
  unfolding show_dec_def by (rule strtoul_show [OF unat_ULONG]) simp

lemma read_put_same: "valid_name n \<Longrightarrow> read_id n (put_var n (show_dec (unat i)) env) = i"
  by (simp add: read_id_def strtoul_show_id ucast_of_unat)

lemma read_put_other: "valid_name n \<Longrightarrow> m \<noteq> n \<Longrightarrow> read_id m (put_var n v env) = read_id m env"
  by (simp add: read_id_def)

lemma put_id_eq: "valid_name n \<Longrightarrow> put_id n i env = Inr (put_var n (show_dec (unat i)) env)"
  using show_dec_short [of i] by (simp add: put_id_def snprintf_def BUFSIZ_def env_set_overwrite)

lemma write_id_eq:
  "valid_name n \<Longrightarrow> write_id n i env = (if i = - 1 then Inl EINVAL else Inr (put_var n (show_dec (unat i)) env))"
  by (simp add: write_id_def put_id_eq)

lemma id_names [simp]:
  "valid_name ''IAMROOT_UID''" "valid_name ''IAMROOT_EUID''" "valid_name ''IAMROOT_SUID''"
  "valid_name ''IAMROOT_GID''" "valid_name ''IAMROOT_EGID''" "valid_name ''IAMROOT_SGID''"
  "valid_name GROUPS_VAR" "valid_name UMASK_VAR"
  by (simp_all add: valid_name_def eq_sign_def GROUPS_VAR_def UMASK_VAR_def)

section \<open>The contract of a stored number\<close>

text \<open>A number of the process, as its getter and its setter show it.\<close>

locale id_store =
  fixes get_id :: "'e \<Rightarrow> 32 word" and set_id :: "32 word \<Rightarrow> 'e \<Rightarrow> errno + 'e"
  assumes get_set: "set_id i env = Inr env' \<Longrightarrow> get_id env' = i"
    and set_invalid: "set_id i env = Inl x \<longleftrightarrow> i = - 1 \<and> x = EINVAL"
begin

lemma set_total: "i \<noteq> - 1 \<Longrightarrow> \<exists>env'. set_id i env = Inr env' \<and> get_id env' = i"
  using set_invalid [of i env] get_set by (cases "set_id i env") auto

end

text \<open>A real and an effective number that do not disturb each other.\<close>

locale id_pair = r: id_store get_r set_r + e: id_store get_e set_e
  for get_r :: "env \<Rightarrow> 32 word" and set_r and get_e :: "env \<Rightarrow> 32 word" and set_e +
  assumes set_r_keeps_e: "set_r i env = Inr env' \<Longrightarrow> get_e env' = get_e env"
    and set_e_keeps_r: "set_e i env = Inr env' \<Longrightarrow> get_r env' = get_r env"
begin

lemma set_pair_get:
  "\<exists>env'. set_pair set_r set_e i j env = (None, env') \<and>
     get_r env' = (if i = - 1 then get_r env else i) \<and> get_e env' = (if j = - 1 then get_e env else j)"
proof -
  obtain env1 where s1: "(if j = - 1 then Inr env else set_e j env) = Inr env1"
    and e1: "get_e env1 = (if j = - 1 then get_e env else j)" and r1: "get_r env1 = get_r env"
    using e.set_total [of j env] set_e_keeps_r by (cases "j = - 1") auto
  obtain env2 where s2: "(if i = - 1 then Inr env1 else set_r i env1) = Inr env2"
    and r2: "get_r env2 = (if i = - 1 then get_r env1 else i)" and e2: "get_e env2 = get_e env1"
    using r.set_total [of i env1] set_r_keeps_e by (cases "i = - 1") auto
  have "set_pair set_r set_e i j env = (None, env2)" unfolding set_pair_def s1 sum.case s2 ..
  with e1 r1 r2 e2 show ?thesis by simp
qed

end

lemmas id_defs = getuid_def geteuid_def getgid_def getegid_def setuid_def seteuid_def setgid_def setegid_def

interpretation uids: id_pair getuid setuid geteuid seteuid
  by unfold_locales (auto simp: id_defs write_id_eq read_put_same read_put_other split: if_splits)

interpretation gids: id_pair getgid setgid getegid setegid
  by unfold_locales (auto simp: id_defs write_id_eq read_put_same read_put_other split: if_splits)

section \<open>Groups\<close>

lemma groups_text_acc:
  "groups_text gs buf = Inr t \<Longrightarrow> buf \<noteq> [] \<Longrightarrow>
    t = join_with (CHR '' '') (buf # map (\<lambda>g. show_dec (unat g)) gs)"
proof (induction gs arbitrary: buf)
  case (Cons g gs)
  let ?s = "show_dec (unat g)"
  have "groups_text gs (buf @ CHR '' '' # ?s) = Inr t"
    using Cons.prems by (auto simp: snprintf_def split: if_splits)
  from Cons.IH [OF this] show ?case by (cases gs) auto
qed simp

lemma groups_text_join:
  assumes "groups_text gs [] = Inr t" and "gs \<noteq> []"
  shows "t = join_with (CHR '' '') (map (\<lambda>g. show_dec (unat g)) gs)"
proof (cases gs)
  case (Cons g gs')
  have "groups_text gs' (show_dec (unat g)) = Inr t"
    using assms(1) Cons by (auto simp: snprintf_def split: if_splits)
  from groups_text_acc [OF this] Cons show ?thesis by (simp add: show_dec_def)
qed (use assms in simp)

lemma show_dec_no_space: "CHR '' '' \<notin> set (show_dec n)"
proof
  assume "CHR '' '' \<in> set (show_dec n)"
  moreover have "list_all (is_digit 10) (show_dec n)" unfolding show_dec_def by (rule show_base_digits) auto
  ultimately have "is_digit 10 (CHR '' '')" by (auto simp: list_all_iff)
  moreover have "\<not> is_digit 10 (CHR '' '')" by code_simp
  ultimately show False by simp
qed

lemma id_callback_show:
  "id_callback listsize has_list (show_dec (unat g)) st =
    (if 0 < listsize \<and> \<not> g_size st < listsize then (-1, st\<lparr>g_errno := EINVAL\<rparr>)
     else (0, st\<lparr>g_size := g_size st + 1,
                 g_list := (if has_list \<and> g_size st < listsize then g_list st @ [g] else g_list st)\<rparr>))"
  by (simp add: id_callback_def strtoul_show_id)

lemma iter_groups:
  assumes "listsize = 0 \<or> g_size st + int (length gs) \<le> listsize" and "0 \<le> g_size st"
  shows "iter_tokens (id_callback listsize has_list) (map (\<lambda>g. show_dec (unat g)) gs) st =
    (0, st\<lparr>g_size := g_size st + int (length gs),
           g_list := g_list st @ (if has_list \<and> listsize \<noteq> 0 then gs else [])\<rparr>)"
  using assms
proof (induction gs arbitrary: st)
  case (Cons g gs)
  let ?st = "st\<lparr>g_size := g_size st + 1,
      g_list := (if has_list \<and> g_size st < listsize then g_list st @ [g] else g_list st)\<rparr>"
  have "id_callback listsize has_list (show_dec (unat g)) st = (0, ?st)"
    unfolding id_callback_show using Cons.prems by auto
  moreover have "iter_tokens (id_callback listsize has_list) (map (\<lambda>g. show_dec (unat g)) gs) ?st =
      (0, ?st\<lparr>g_size := g_size ?st + int (length gs),
           g_list := g_list ?st @ (if has_list \<and> listsize \<noteq> 0 then gs else [])\<rparr>)"
    by (rule Cons.IH) (use Cons.prems in auto)
  ultimately show ?case using Cons.prems by auto
qed simp

lemma tokens_groups:
  assumes "groups_text gs [] = Inr t" and "gs \<noteq> []" and "length t \<le> PATH_MAX"
  shows "tokens (CHR '' '') t = map (\<lambda>g. show_dec (unat g)) gs"
proof -
  have "split_at (CHR '' '') t = map (\<lambda>g. show_dec (unat g)) gs"
    unfolding groups_text_join [OF assms(1,2)]
    by (rule split_join_with) (use assms(2) show_dec_no_space in auto)
  then show ?thesis using assms(3) by (auto simp: tokens_def show_dec_def)
qed

section \<open>Properties\<close>

text \<open>
  The faked identity is a faithful store: \<^verbatim>\<open>setreuid\<close> always succeeds, and
  \<^verbatim>\<open>getuid\<close> and \<^verbatim>\<open>geteuid\<close> then answer the numbers that were set, every 32-bit number
  but \<open>-1\<close>, and the previous ones where \<open>-1\<close> was given.
\<close>

theorem setreuid_getuid:
  "\<exists>env'. setreuid r e env = (None, env') \<and> getuid env' = (if r = - 1 then getuid env else r) \<and>
     geteuid env' = (if e = - 1 then geteuid env else e)"
  unfolding setreuid_def by (rule uids.set_pair_get)

text \<open>
  What \<^verbatim>\<open>setgroups\<close> stores is what \<^verbatim>\<open>getgroups\<close> lists, when the text of the
  numbers fits the \<^verbatim>\<open>PATH_MAX\<close> bytes that the iteration reads.
\<close>

theorem setgroups_getgroups:
  assumes "gs \<noteq> []" and "groups_text gs [] = Inr t" and "length t \<le> PATH_MAX"
    and "setgroups gs env = Inr env'" and "n = 0 \<or> int (length gs) \<le> n"
  shows "getgroups env' n (n \<noteq> 0) = Inr (int (length gs), if n = 0 then [] else gs)"
proof -
  have "env' = put_var GROUPS_VAR t env"
    using assms(1,2,4) env_set_overwrite [of GROUPS_VAR t env] by (simp add: setgroups_def split: if_splits)
  then have "env_get GROUPS_VAR env' = Some t" by simp
  then show ?thesis
    using iter_groups [of n "\<lparr>g_errno = E_OK, g_size = 0, g_list = []\<rparr>" gs "n \<noteq> 0"] assms(5)
    by (simp add: getgroups_def group_iterate_def strtok_def tokens_groups [OF assms(2,1,3)])
qed

theorem setgroups_getgroups_witness:
  "getgroups (Some [''IAMROOT_GROUPS=0 10 998'']) 0 False = Inr (3, [])"
proof -
  have "setgroups [0, 10, 998] None = Inr (Some [''IAMROOT_GROUPS=0 10 998''])" by code_simp
  moreover have "groups_text [0, 10, 998] [] = Inr ''0 10 998''" by code_simp
  ultimately show ?thesis
    using setgroups_getgroups [of "[0, 10, 998]" "''0 10 998''" None _ 0] by (simp add: PATH_MAX_def)
qed

text \<open>
  An empty group list is not kept: after \<^verbatim>\<open>setgroups (0, ..)\<close> the process is in the
  group \<open>0\<close> again.
\<close>

lemma setgroups_empty:
  "\<exists>env'. setgroups [] env = Inr env' \<and> getgroups env' 0 False = Inr (1, []) \<and> getgroups env' 1 True = Inr (1, [0])"
proof -
  let ?env = "del_var GROUPS_VAR env"
  have "setgroups [] env = Inr ?env" by (simp add: setgroups_def env_unset_valid)
  moreover have get: "env_get GROUPS_VAR ?env = None" by simp
  have t: "tokens (CHR '' '') ''0'' = [''0'']" "strtoul ''0'' 0 = (0, False)" by code_simp+
  have "getgroups ?env 0 False = Inr (1, [])" "getgroups ?env 1 True = Inr (1, [0])"
    by (simp_all add: getgroups_def get group_iterate_def strtok_def t id_callback_def)
  ultimately show ?thesis by blast
qed

text \<open>
  \<^verbatim>\<open>umask\<close> answers the mask that was set before, for masks of the nine permission bits,
  and never takes the owner's right to read and write away on the host.
\<close>

theorem umask_umask:
  assumes "unat m < 512" and "umask m env = (old, host, env')"
  shows "fst (umask m' env') = m \<and> host AND 0x180 = 0"
proof -
  have "length (show_oct (unat m)) \<le> 3"
    unfolding show_oct_def using assms(1) by (intro length_show_base) auto
  then have "setumask m env = Inr (put_var UMASK_VAR (show_oct (unat m)) env)"
    by (simp add: setumask_def snprintf_def env_set_overwrite)
  with assms(2) have e: "env' = put_var UMASK_VAR (show_oct (unat m)) env" and h: "host = m AND NOT 0x180"
    by (auto simp: umask_def)
  have "strtol (show_oct (unat m)) 8 = of_nat (unat m)"
    unfolding show_oct_def using assms(1) by (intro strtol_show) simp_all
  then have "getumask env' = m" by (simp add: getumask_def e ucast_of_unat)
  moreover have "host AND 0x180 = 0"
    unfolding h by (simp add: and.assoc)
  ultimately show ?thesis by (simp add: umask_def)
qed

theorem umask_umask_witness:
  "fst (umask 0 (Some [''IAMROOT_UMASK=777''])) = 511"
proof -
  have "umask 511 None = (18, 127, Some [''IAMROOT_UMASK=777''])" by code_simp
  from umask_umask [OF _ this, of 0] show ?thesis by simp
qed

end
