(* ===== verification/Attrs_Facts.thy ===== *)
theory Attrs_Facts
  imports Attrs Path_Res_Facts
begin

text \<open>
  What a program sees of the modes and owners it sets, and what reaches the host. The laws of
  extended attributes are a hypothesis on the parameter.
\<close>

section \<open>Extended attributes that work\<close>

definition xattr_ok :: "'w xattrs \<Rightarrow> bool" where
  "xattr_ok xa \<longleftrightarrow>
     (\<forall>p n v w q m. xa_get xa q m (xa_set xa p n v w) = (if q = p \<and> m = n then Some v else xa_get xa q m w)) \<and>
     (\<forall>p n w q m. xa_get xa q m (xa_remove xa p n w) = (if q = p \<and> m = n then None else xa_get xa q m w))"

lemma get_after_set_attr:
  assumes "xattr_ok xa"
  shows "xa_get xa q m (set_attr xa n p old new w) =
    (if q = p \<and> m = n then (if old = new then None else Some old) else xa_get xa q m w)"
  using assms by (simp add: set_attr_def xattr_ok_def)

lemma get_attr_set_attr:
  assumes "xattr_ok xa"
  shows "get_attr xa n p (set_attr xa n p old new w) = (if old = new then - 1 else old)"
  using get_after_set_attr [OF assms, of p n n p old new w] by (simp add: get_attr_def)

section \<open>Modes on the host\<close>

text \<open>The mode that reaches the host, bit by bit.\<close>

lemma set_user_mode_eq:
  assumes "user AND (S_ISUID OR S_ISGID) = 0"
  shows "set_user_mode m user = (m OR user) AND NOT (S_ISUID OR S_ISGID)"
proof -
  have a: "(if m AND user \<noteq> user then m OR user else m) = m OR user"
  proof (cases "m AND user = user")
    case True
    then have "m OR user = m OR (m AND user)" by simp
    also have "\<dots> = m" by (auto simp: bit_eq_iff bit_simps)
    finally show ?thesis using True by simp
  qed simp
  have b: "(if x AND s \<noteq> 0 then x AND NOT s else x) = x AND NOT s" for x s :: "32 word"
  proof (cases "x AND s = 0")
    case True
    have "(x AND s) OR (x AND NOT s) = x" by (auto simp: bit_eq_iff bit_simps)
    with True show ?thesis by simp
  qed simp
  show ?thesis unfolding set_user_mode_def Let_def a b by (auto simp: bit_eq_iff bit_simps)
qed

lemma user_mode_eq: "user_mode d m = (m OR (if d then 0x1C0 else 0x180)) AND NOT (S_ISUID OR S_ISGID)"
  unfolding user_mode_def by (rule set_user_mode_eq) (simp add: S_ISUID_def S_ISGID_def)

section \<open>Properties\<close>

text \<open>
  The mode that reaches the host is the one that was asked for, with the owner's right to read
  and write (and to search, for a directory) added and the set-user-id and set-group-id bits taken
  off; all other bits are kept.
\<close>

theorem host_mode:
  "user_mode d m = (m OR (if d then 0x1C0 else 0x180)) AND NOT (S_ISUID OR S_ISGID)"
  by (rule user_mode_eq)

text \<open>
  C33: A program sees the mode it set: after a \<^verbatim>\<open>chmod\<close> that succeeded, on a host that applied
  the mode it was given, the status calls show the file type and exactly the permission bits that
  were asked for, set-id bits included. For attributes that the host keeps as they are written.
\<close>

theorem chmod_stat:
  assumes "xattr_ok xa" and "mode AND S_IFMT = 0"
    and "path_resolution h lib e AT_FDCWD (Some path) PATH_MAX 0 = Ret buf"
    and "chmod xa isdir dl h lib e path mode w = Ret (Inr r, w')"
    and "st_mode st AND NOT S_IFMT = user_mode (isdir buf w) mode"
  shows "st_mode (fake_stat xa buf w' st) = (st_mode st AND S_IFMT) OR mode"
proof -
  let ?m = "user_mode (isdir buf w) mode"
  obtain w1 where w': "w' = set_attr xa MODE_ATTR buf mode ?m w1"
    using assms(3,4) by (auto simp: chmod_def with_path_def change_mode_def Let_def split: prod.splits)
  have a: "get_attr xa MODE_ATTR buf w' = (if mode = ?m then - 1 else mode)"
    unfolding w' by (rule get_attr_set_attr [OF assms(1)])
  have "mode \<noteq> - 1" using assms(2) by (auto simp: S_IFMT_def)
  moreover have "(st_mode st AND S_IFMT) OR (st_mode st AND NOT S_IFMT) = st_mode st"
    by (auto simp: bit_eq_iff bit_simps)
  then have "(st_mode st AND S_IFMT) OR ?m = st_mode st" unfolding assms(5) .
  ultimately show ?thesis
    using a by (cases "mode = ?m") (simp_all add: fake_stat_def fake_gid_def fake_uid_def fake_mode_def Let_def)
qed

text \<open>A host whose state is the attributes of its files.\<close>

definition map_xattrs :: "(string \<times> string \<Rightarrow> 32 word option) xattrs" where
  "map_xattrs = \<lparr>xa_get = (\<lambda>p n w. w (p, n)), xa_set = (\<lambda>p n v w. w((p, n) := Some v)),
     xa_remove = (\<lambda>p n w. w((p, n) := None))\<rparr>"

lemma map_xattrs_ok: "xattr_ok map_xattrs"
  by (auto simp: xattr_ok_def map_xattrs_def)

lemma res_f: "path_resolution bare_host (chroot_lib ''/r'') E_OK AT_FDCWD (Some ''/f'') PATH_MAX 0 = Ret ''/r/f''"
  by code_simp

theorem chmod_stat_witness:
  "\<exists>w'. chmod map_xattrs (\<lambda>_ _. False) (Some (\<lambda>_ w. (Inr 0, w))) bare_host (chroot_lib ''/r'') E_OK ''/f'' 0x809
      (\<lambda>_. None) = Ret (Inr 0, w') \<and>
    st_mode (fake_stat map_xattrs ''/r/f'' w' \<lparr>st_mode = 0x8189, st_uid = 7, st_gid = 7\<rparr>) = 0x8809"
proof -
  let ?w' = "set_attr map_xattrs MODE_ATTR ''/r/f'' 0x809 (user_mode False 0x809) (\<lambda>_. None)"
  have c: "chmod map_xattrs (\<lambda>_ _. False) (Some (\<lambda>_ w. (Inr 0, w))) bare_host (chroot_lib ''/r'') E_OK ''/f'' 0x809
      (\<lambda>_. None) = Ret (Inr 0, ?w')"
    by (simp add: chmod_def with_path_def res_f change_mode_def next_call_def Let_def ignore_eperm_def)
  have "st_mode (fake_stat map_xattrs ''/r/f'' ?w' \<lparr>st_mode = 0x8189, st_uid = 7, st_gid = 7\<rparr>) = (0x8189 AND S_IFMT) OR 0x809"
    by (rule chmod_stat [OF map_xattrs_ok _ res_f c, of "\<lparr>st_mode = 0x8189, st_uid = 7, st_gid = 7\<rparr>", simplified]) code_simp+
  with c show ?thesis by (auto simp: S_IFMT_def)
qed

text \<open>
  Opening a file forgets the mode the program gave it: without \<^verbatim>\<open>O_CREAT\<close> and
  \<^verbatim>\<open>O_TMPFILE\<close> the two modes that \<^verbatim>\<open>open\<close> compares are both \<open>0\<close>, and the attribute of
  the file is removed, even when the call fails.
\<close>

theorem open_forgets_mode:
  assumes "xattr_ok xa" and "\<not> needs_mode oflags"
    and "path_resolution h lib e AT_FDCWD (Some path) PATH_MAX (open_flags oflags) = Ret buf"
    and "open_call xa isdir dl h lib e path oflags arg w = Ret (r, w')"
  shows "xa_get xa buf MODE_ATTR w' = None"
proof -
  have "oflags AND O_CREAT = 0" using assms(2) by (simp add: needs_mode_def)
  then obtain w1 where "w' = set_attr xa MODE_ATTR buf 0 0 w1"
    using assms(2-4) by (auto simp: open_call_def with_path_def open_path_def Let_def split: prod.splits)
  then show ?thesis using get_after_set_attr [OF assms(1), of buf MODE_ATTR MODE_ATTR buf 0 0 w1] by simp
qed

theorem open_forgets_mode_witness:
  "\<exists>r w'. open_call map_xattrs (\<lambda>_ _. False) None bare_host (chroot_lib ''/r'') E_OK ''/f'' 0 0
      (\<lambda>_. Some 0x809) = Ret (r, w') \<and> xa_get map_xattrs ''/r/f'' MODE_ATTR w' = None"
proof -
  have f: "open_flags 0 = 0" "\<not> needs_mode 0" by code_simp+
  have o: "\<exists>r w'. open_call map_xattrs (\<lambda>_ _. False) None bare_host (chroot_lib ''/r'') E_OK ''/f'' 0 0
      (\<lambda>_. Some 0x809) = Ret (r, w')"
    by (simp add: open_call_def with_path_def f res_f open_path_def split: prod.splits)
  have "xa_get map_xattrs ''/r/f'' MODE_ATTR w' = None"
    if "open_call map_xattrs (\<lambda>_ _. False) None bare_host (chroot_lib ''/r'') E_OK ''/f'' 0 0
      (\<lambda>_. Some 0x809) = Ret (r, w')" for r w'
    by (rule open_forgets_mode [OF map_xattrs_ok f(2) _ that]) (simp add: f res_f)
  with o show ?thesis by blast
qed

text \<open>
  \<^verbatim>\<open>chown\<close> does not keep the owner a program sets: for a file without recorded owner and
  group the numbers given and the numbers passed to the host are the same, no attribute is written,
  and the status calls go on to show \<open>0\<close>, whatever the host made of the call.
\<close>

theorem chown_not_kept:
  assumes "xattr_ok xa"
    and "\<And>a w r w1 q n. dl = Some f \<Longrightarrow> f a w = (r, w1) \<Longrightarrow> xa_get xa q n w1 = xa_get xa q n w"
    and "path_resolution h lib e AT_FDCWD (Some path) PATH_MAX 0 = Ret buf"
    and "xa_get xa buf UID_ATTR w = None" and "xa_get xa buf GID_ATTR w = None"
    and "chown xa dl h lib e path u g w = Ret (r, w')" and "dl = Some f"
  shows "xa_get xa buf UID_ATTR w' = None \<and> xa_get xa buf GID_ATTR w' = None \<and>
    st_uid (fake_stat xa buf w' st) = 0 \<and> st_gid (fake_stat xa buf w' st) = 0"
proof -
  have a: "get_attr xa UID_ATTR buf w = - 1" "get_attr xa GID_ATTR buf w = - 1"
    using assms(4,5) by (simp_all add: get_attr_def)
  obtain r1 w1 where n: "f (buf, (u, g)) w = (r1, w1)" by fastforce
  have w': "w' = set_attr xa GID_ATTR buf g g (set_attr xa UID_ATTR buf u u w1)"
    using assms(3,6,7) n by (simp add: chown_def with_path_def change_owner_def a Let_def next_call_def)
  have "UID_ATTR \<noteq> GID_ATTR" by (simp add: UID_ATTR_def GID_ATTR_def)
  then have "xa_get xa buf UID_ATTR w' = None" "xa_get xa buf GID_ATTR w' = None"
    unfolding w' by (simp_all add: get_after_set_attr [OF assms(1)])
  then show ?thesis
    by (simp add: fake_stat_def fake_gid_def fake_uid_def get_attr_def Let_def)
qed

theorem chown_not_kept_witness:
  "\<exists>r w'. chown map_xattrs (Some (\<lambda>_ w. (Inl EPERM, w))) bare_host (chroot_lib ''/r'') E_OK ''/f'' 1000 1000
      (\<lambda>_. None) = Ret (r, w') \<and>
    st_uid (fake_stat map_xattrs ''/r/f'' w' \<lparr>st_mode = 0x81A4, st_uid = 7, st_gid = 7\<rparr>) = 0"
proof -
  have "\<exists>r w'. chown map_xattrs (Some (\<lambda>_ w. (Inl EPERM, w))) bare_host (chroot_lib ''/r'') E_OK ''/f'' 1000 1000
      (\<lambda>_. None) = Ret (r, w')"
    by (simp add: chown_def with_path_def res_f split: prod.splits)
  then obtain r w' where c: "chown map_xattrs (Some (\<lambda>_ w. (Inl EPERM, w))) bare_host (chroot_lib ''/r'') E_OK ''/f''
      1000 1000 (\<lambda>_. None) = Ret (r, w')" by blast
  have "st_uid (fake_stat map_xattrs ''/r/f'' w' \<lparr>st_mode = 0x81A4, st_uid = 7, st_gid = 7\<rparr>) = 0"
    by (rule chown_not_kept [OF map_xattrs_ok _ res_f _ _ c refl, THEN conjunct2, THEN conjunct2, THEN conjunct1])
      (auto simp: map_xattrs_def)
  with c show ?thesis by blast
qed

end
