(* ===== verification/Files.thy ===== *)
theory Files
  imports Attrs
begin

text \<open>
  The calls that take the path of a file, resolve it and hand the result to the host: names and
  links, times, directories and streams, file systems, the status calls of the large file interface.
  Every host call is a parameter that may be missing; a result of \<open>-1\<close> or \<^verbatim>\<open>NULL\<close> is
  \<open>Inl\<close>. What a call writes to the caller's buffers is part of its result.
\<close>

section \<open>Two resolutions\<close>

definition link_path :: "host \<Rightarrow> lib \<Rightarrow> errno \<Rightarrow> int \<Rightarrow> string \<Rightarrow> 32 word \<Rightarrow> string run" where
  "link_path h lib e dfd path atflags = path_resolution2 h lib e dfd (Some path) PATH_MAX atflags PR_NOWALKALONG"

text \<open>The second path is resolved when the first one was.\<close>

definition with_paths ::
    "string run \<Rightarrow> string run \<Rightarrow> (string \<Rightarrow> string \<Rightarrow> 'w \<Rightarrow> (errno + 'r) \<times> 'w) \<Rightarrow> 'w
     \<Rightarrow> ((errno + 'r) \<times> 'w) run" where
  "with_paths r1 r2 f w =
     (case r1 of Ret b1 \<Rightarrow> with_path r2 (f b1) w | Err e \<Rightarrow> Ret (Inl e, w) | Undef \<Rightarrow> Undef | Diverge \<Rightarrow> Diverge)"

section \<open>Access\<close>

definition access_call where
  "access_call dl h lib e path amode w =
     with_path (path_resolution h lib e AT_FDCWD (Some path) PATH_MAX 0) (\<lambda>buf. next_call dl (buf, amode)) w"

definition euidaccess where
  "euidaccess dl h lib e path amode w =
     with_path (path_resolution h lib e AT_FDCWD (Some path) PATH_MAX 0) (\<lambda>buf. next_call dl (buf, amode)) w"

text \<open>The flags do not reach the resolution: a final link is always followed.\<close>

definition faccessat where
  "faccessat dl h lib e dfd path amode atflags w =
     with_path (path_resolution h lib e dfd (Some path) PATH_MAX 0)
       (\<lambda>buf. next_call dl (dfd, buf, amode, atflags)) w"

section \<open>Removing names\<close>

definition unlinkat where
  "unlinkat dl h lib e dfd path atflags w =
     with_path (link_path h lib e dfd path (atflags OR AT_SYMLINK_NOFOLLOW))
       (\<lambda>buf. next_call dl (dfd, buf, atflags)) w"

definition unlink where
  "unlink dl h lib e path w = unlinkat dl h lib e AT_FDCWD path 0 w"

definition rmdir where
  "rmdir dl h lib e path w =
     with_path (link_path h lib e AT_FDCWD path AT_SYMLINK_NOFOLLOW) (\<lambda>buf. next_call dl buf) w"

definition remove_call where
  "remove_call dl h lib e path w =
     with_path (path_resolution h lib e AT_FDCWD (Some path) PATH_MAX AT_SYMLINK_NOFOLLOW)
       (\<lambda>buf. next_call dl buf) w"

section \<open>Names and links\<close>

definition renameat where
  "renameat dl h lib e odfd opath ndfd npath w =
     with_paths (link_path h lib e odfd opath AT_SYMLINK_NOFOLLOW)
       (link_path h lib e ndfd npath AT_SYMLINK_NOFOLLOW)
       (\<lambda>obuf nbuf. next_call dl (odfd, obuf, ndfd, nbuf)) w"

definition rename_call where
  "rename_call dl h lib e opath npath w = renameat dl h lib e AT_FDCWD opath AT_FDCWD npath w"

definition renameat2 where
  "renameat2 dl h lib e odfd opath ndfd npath rflags w =
     with_paths (path_resolution h lib e odfd (Some opath) PATH_MAX AT_SYMLINK_NOFOLLOW)
       (path_resolution h lib e ndfd (Some npath) PATH_MAX AT_SYMLINK_NOFOLLOW)
       (\<lambda>obuf nbuf. next_call dl (odfd, obuf, ndfd, nbuf, rflags)) w"

definition linkat where
  "linkat dl h lib e odfd opath ndfd npath atflags w =
     with_paths (path_resolution h lib e odfd (Some opath) PATH_MAX atflags)
       (path_resolution h lib e ndfd (Some npath) PATH_MAX 0)
       (\<lambda>obuf nbuf. next_call dl (odfd, obuf, ndfd, nbuf, atflags)) w"

definition link_call where
  "link_call dl h lib e opath npath w = linkat dl h lib e AT_FDCWD opath AT_FDCWD npath 0 w"

text \<open>The text of a symbolic link is not changed: it is below the root directory only when it is read.\<close>

definition symlinkat where
  "symlinkat dl h lib e txt dfd path w =
     with_path (path_resolution h lib e dfd (Some path) PATH_MAX AT_SYMLINK_NOFOLLOW)
       (\<lambda>buf. next_call dl (txt, dfd, buf)) w"

definition symlink where
  "symlink dl h lib e txt path w = symlinkat dl h lib e txt AT_FDCWD path w"

section \<open>Special files\<close>

definition mkfifoat where
  "mkfifoat xa isdir dl h lib e dfd path mode w =
     with_path (path_resolution h lib e dfd (Some path) PATH_MAX 0)
       (\<lambda>buf. create_path xa isdir (\<lambda>m. next_call dl (dfd, buf, m)) mode buf) w"

definition mkfifo where
  "mkfifo xa isdir dl h lib e path mode w = mkfifoat xa isdir dl h lib e AT_FDCWD path mode w"

definition xmknodat where
  "xmknodat xa isdir dl close h lib e dfd path mode w =
     (case openat xa isdir dl h lib e dfd path 0x241 mode w of
        Ret (Inr fd, w') \<Rightarrow> Ret (Inr (0::int), close (fd::int) w')
      | Ret (Inl x, w') \<Rightarrow> Ret (Inl x, w')
      | Err x \<Rightarrow> Err x | Undef \<Rightarrow> Undef | Diverge \<Rightarrow> Diverge)"

definition xmknod where
  "xmknod xa isdir dl close h lib e path mode w = xmknodat xa isdir dl close h lib e AT_FDCWD path mode w"

section \<open>Size and times\<close>

definition truncate_call where
  "truncate_call dl h lib e path len w =
     with_path (path_resolution h lib e AT_FDCWD (Some path) PATH_MAX 0) (\<lambda>buf. next_call dl (buf, len)) w"

definition truncate64 where
  "truncate64 dl h lib e path len w =
     with_path (path_resolution h lib e AT_FDCWD (Some path) PATH_MAX 0) (\<lambda>buf. next_call dl (buf, len)) w"

text \<open>A time is its seconds and its fraction; \<open>None\<close> is a null pointer, for the current time.\<close>

type_synonym tspec = "64 word \<times> 64 word"

definition utimensat where
  "utimensat dl h lib e dfd path (tms :: (tspec \<times> tspec) option) (atflags :: 32 word) w =
     with_path (path_resolution h lib e dfd (Some path) PATH_MAX AT_SYMLINK_NOFOLLOW)
       (\<lambda>buf. next_call dl (dfd, buf, tms, atflags)) w"

definition utimes where
  "utimes dl h lib e path (tms :: (tspec \<times> tspec) option) w =
     with_path (path_resolution h lib e AT_FDCWD (Some path) PATH_MAX AT_SYMLINK_NOFOLLOW)
       (\<lambda>buf. next_call dl (buf, tms)) w"

definition utime where
  "utime dl h lib e path tms w =
     utimensat dl h lib e AT_FDCWD path (map_option (\<lambda>(actime, modtime). ((actime, 0), (modtime, 0))) tms) 0 w"

definition usec_nsec :: "tspec \<Rightarrow> tspec" where
  "usec_nsec t = (fst t, snd t * 1000)"

definition lutimes where
  "lutimes dl h lib e path tms w =
     utimensat dl h lib e AT_FDCWD path (map_option (\<lambda>(a, m). (usec_nsec a, usec_nsec m)) tms)
       AT_SYMLINK_NOFOLLOW w"

definition futimesat where
  "futimesat dl h lib e dfd path tms w =
     (if (case tms of None \<Rightarrow> False | Some (a, m) \<Rightarrow> 1000000 \<le>s snd a \<or> 1000000 \<le>s snd m)
      then Ret (Inl EINVAL, w)
      else utimensat dl h lib e dfd path (map_option (\<lambda>(a, m). (usec_nsec a, usec_nsec m)) tms) 0 w)"

section \<open>File systems, directories and streams\<close>

definition statfs where
  "statfs dl h lib e path w =
     with_path (path_resolution h lib e AT_FDCWD (Some path) PATH_MAX 0) (\<lambda>buf. next_call dl buf) w"

definition statfs64 where
  "statfs64 dl h lib e path w =
     with_path (path_resolution h lib e AT_FDCWD (Some path) PATH_MAX 0) (\<lambda>buf. next_call dl buf) w"

definition statvfs where
  "statvfs dl h lib e path w =
     with_path (path_resolution h lib e AT_FDCWD (Some path) PATH_MAX 0) (\<lambda>buf. next_call dl buf) w"

definition statvfs64 where
  "statvfs64 dl h lib e path w =
     with_path (path_resolution h lib e AT_FDCWD (Some path) PATH_MAX 0) (\<lambda>buf. next_call dl buf) w"

definition opendir where
  "opendir dl h lib e path w =
     with_path (path_resolution h lib e AT_FDCWD (Some path) PATH_MAX 0) (\<lambda>buf. next_call dl buf) w"

definition scandir where
  "scandir dl h lib e path cbs w =
     with_path (path_resolution h lib e AT_FDCWD (Some path) PATH_MAX 0) (\<lambda>buf. next_call dl (buf, cbs)) w"

definition scandir64 where
  "scandir64 dl h lib e path cbs w =
     with_path (path_resolution h lib e AT_FDCWD (Some path) PATH_MAX 0) (\<lambda>buf. next_call dl (buf, cbs)) w"

definition scandirat where
  "scandirat dl h lib e dfd path cbs w =
     with_path (path_resolution h lib e dfd (Some path) PATH_MAX 0) (\<lambda>buf. next_call dl (dfd, buf, cbs)) w"

definition fopen where
  "fopen dl h lib e path smode w =
     with_path (path_resolution h lib e AT_FDCWD (Some path) PATH_MAX 0) (\<lambda>buf. next_call dl (buf, smode)) w"

definition freopen where
  "freopen dl h lib e path smode stream w =
     with_path (path_resolution h lib e AT_FDCWD (Some path) PATH_MAX 0)
       (\<lambda>buf. next_call dl (buf, smode, stream)) w"

text \<open>\<^verbatim>\<open>__setfd\<close> does nothing on Linux, so \<^verbatim>\<open>open\<close> and \<^verbatim>\<open>__open_2\<close> differ in the mode only.\<close>

definition open_2 where
  "open_2 dl h lib e path oflags w =
     with_path (path_resolution h lib e AT_FDCWD (Some path) PATH_MAX (open_flags oflags))
       (\<lambda>buf. next_call dl (buf, oflags)) w"

definition openat_2 where
  "openat_2 dl h lib e dfd path oflags w =
     with_path (path_resolution h lib e dfd (Some path) PATH_MAX (open_flags oflags))
       (\<lambda>buf. next_call dl (dfd, buf, oflags)) w"

section \<open>Keys, handles, watches and records of logins\<close>

definition ftok where
  "ftok dl h lib e path proj w =
     with_path (path_resolution h lib e AT_FDCWD (Some path) PATH_MAX 0) (\<lambda>buf. next_call dl (buf, proj)) w"

definition name_to_handle_at where
  "name_to_handle_at dl h lib e dfd path atflags w =
     with_path (path_resolution h lib e dfd (Some path) PATH_MAX
         (if atflags AND AT_SYMLINK_FOLLOW = 0 then atflags OR AT_SYMLINK_NOFOLLOW else atflags))
       (\<lambda>buf. next_call dl (dfd, buf, atflags)) w"

text \<open>The two calls that resolve a path and give the host the path they were given.\<close>

definition inotify_add_watch where
  "inotify_add_watch dl h lib e fd path msk w =
     with_path (path_resolution h lib e AT_FDCWD (Some path) PATH_MAX 0) (\<lambda>buf. next_call dl (fd, path, msk)) w"

definition fanotify_mark where
  "fanotify_mark dl h lib e fd fflags msk dfd path w =
     with_path (path_resolution h lib e AT_FDCWD path PATH_MAX 0)
       (\<lambda>buf. next_call dl (fd, fflags, msk, dfd, path)) w"

definition utmpname where
  "utmpname dl h lib e path w =
     with_path (path_resolution h lib e AT_FDCWD (Some path) PATH_MAX 0) (\<lambda>buf. next_call dl buf) w"

definition utmpxname where
  "utmpxname dl h lib e path w =
     with_path (path_resolution h lib e AT_FDCWD (Some path) PATH_MAX 0) (\<lambda>buf. next_call dl buf) w"

text \<open>These have no result, and a missing host call is not an error.\<close>

definition updwtmp where
  "updwtmp dl h lib e path ut w =
     (case path_resolution h lib e AT_FDCWD (Some path) PATH_MAX 0 of
        Ret buf \<Rightarrow> Ret (case dl of None \<Rightarrow> w | Some f \<Rightarrow> f (buf, ut) w)
      | Err _ \<Rightarrow> Ret w | Undef \<Rightarrow> Undef | Diverge \<Rightarrow> Diverge)"

definition updwtmpx where
  "updwtmpx dl h lib e path ut w =
     (case path_resolution h lib e AT_FDCWD (Some path) PATH_MAX 0 of
        Ret buf \<Rightarrow> Ret (case dl of None \<Rightarrow> w | Some f \<Rightarrow> f (buf, ut) w)
      | Err _ \<Rightarrow> Ret w | Undef \<Rightarrow> Undef | Diverge \<Rightarrow> Diverge)"

section \<open>Status of the large file and versioned interfaces\<close>

definition fxstatat where
  "fxstatat xa dl h lib e ver dfd path atflags w =
     with_path (path_resolution h lib e dfd (Some path) PATH_MAX atflags)
       (\<lambda>buf. stat_path xa (next_call dl (ver, dfd, buf, atflags)) buf) w"

definition xstat where
  "xstat xa dl h lib e ver path w = fxstatat xa dl h lib e ver AT_FDCWD path 0 w"

definition lxstat where
  "lxstat xa dl h lib e ver path w = fxstatat xa dl h lib e ver AT_FDCWD path AT_SYMLINK_NOFOLLOW w"

definition fxstat where
  "fxstat xa xfd dl ver fd w = stat_path xa (next_call dl (ver, fd)) (xfd fd) w"

definition fxstatat64 where
  "fxstatat64 xa dl h lib e ver dfd path atflags w =
     with_path (path_resolution h lib e dfd (Some path) PATH_MAX atflags)
       (\<lambda>buf. stat_path xa (next_call dl (ver, dfd, buf, atflags)) buf) w"

definition xstat64 where
  "xstat64 xa dl h lib e ver path w = fxstatat64 xa dl h lib e ver AT_FDCWD path 0 w"

definition lxstat64 where
  "lxstat64 xa dl h lib e ver path w = fxstatat64 xa dl h lib e ver AT_FDCWD path AT_SYMLINK_NOFOLLOW w"

definition fxstat64 where
  "fxstat64 xa xfd dl ver fd w = stat_path xa (next_call dl (ver, fd)) (xfd fd) w"

definition fstatat64 where
  "fstatat64 xa dl fxdl h lib e dfd path atflags w =
     with_path (path_resolution h lib e dfd (Some path) PATH_MAX atflags)
       (\<lambda>buf. stat_path xa (next_fstatat dl fxdl (dfd, buf, atflags)) buf) w"

definition stat64 where
  "stat64 xa dl fxdl h lib e path w = fstatat64 xa dl fxdl h lib e AT_FDCWD path 0 w"

text \<open>The number \<open>0\<close> that \<^verbatim>\<open>lstat64\<close> writes first is the one the macros write again.\<close>

definition lstat64 where
  "lstat64 xa dl h lib e path w =
     with_path (link_path h lib e AT_FDCWD path AT_SYMLINK_NOFOLLOW)
       (\<lambda>buf. stat_path xa (next_call dl buf) buf) w"

definition fstat64 where
  "fstat64 xa xfd dl fxdl fd w =
     stat_path xa (\<lambda>w. case dl of None \<Rightarrow> next_call fxdl fd w | Some f \<Rightarrow> f fd w) (xfd fd) w"

text \<open>On machines with times of 32 bits.\<close>

definition fstatat64_time64 where
  "fstatat64_time64 xa dl h lib e dfd path atflags w =
     with_path (path_resolution h lib e dfd (Some path) PATH_MAX atflags)
       (\<lambda>buf. stat_path xa (next_call dl (dfd, buf, atflags)) buf) w"

definition stat64_time64 where
  "stat64_time64 xa dl h lib e path w = fstatat64_time64 xa dl h lib e AT_FDCWD path 0 w"

definition lstat64_time64 where
  "lstat64_time64 xa dl h lib e path w =
     with_path (link_path h lib e AT_FDCWD path AT_SYMLINK_NOFOLLOW)
       (\<lambda>buf. stat_path xa (next_call dl buf) buf) w"

definition fstat64_time64 where
  "fstat64_time64 xa xfd dl fd w = stat_path xa (next_call dl fd) (xfd fd) w"

end
