(* ===== verification/Files_Facts.thy ===== *)
theory Files_Facts
  imports Files Path_Res_Facts
begin

text \<open>
  The calls on files as one interface: what the program asks of the library is what the library
  asks of the host, with every path below the root directory, but for the two calls that hand on the
  path of the program.
\<close>

section \<open>The calls of the program and of the host\<close>

datatype file_call =
    Access string int
  | Euidaccess string int
  | Faccessat int string int "32 word"
  | Unlinkat int string "32 word"
  | Rmdir string
  | Remove string
  | Renameat int string int string
  | Renameat2 int string int string "32 word"
  | Linkat int string int string "32 word"
  | Symlinkat string int string
  | Truncate string "64 word"
  | Utimensat int string "(tspec \<times> tspec) option" "32 word"
  | Utimes string "(tspec \<times> tspec) option"
  | Statfs string
  | Statvfs string
  | Opendir string
  | Scandirat int string nat
  | Fopen string string
  | Freopen string string int
  | Open_2 string "32 word"
  | Openat_2 int string "32 word"
  | Ftok string int
  | Name_to_handle_at int string "32 word"
  | Inotify_add_watch int string "32 word"
  | Fanotify_mark int "32 word" "64 word" int string
  | Utmpname string

text \<open>The paths of a call, and the call without them.\<close>

fun call_paths :: "file_call \<Rightarrow> string list" where
  "call_paths (Access p m) = [p]"
| "call_paths (Euidaccess p m) = [p]"
| "call_paths (Faccessat d p m f) = [p]"
| "call_paths (Unlinkat d p f) = [p]"
| "call_paths (Rmdir p) = [p]"
| "call_paths (Remove p) = [p]"
| "call_paths (Renameat d p d' p') = [p, p']"
| "call_paths (Renameat2 d p d' p' f) = [p, p']"
| "call_paths (Linkat d p d' p' f) = [p, p']"
| "call_paths (Symlinkat t d p) = [p]"
| "call_paths (Truncate p n) = [p]"
| "call_paths (Utimensat d p t f) = [p]"
| "call_paths (Utimes p t) = [p]"
| "call_paths (Statfs p) = [p]"
| "call_paths (Statvfs p) = [p]"
| "call_paths (Opendir p) = [p]"
| "call_paths (Scandirat d p c) = [p]"
| "call_paths (Fopen p m) = [p]"
| "call_paths (Freopen p m s) = [p]"
| "call_paths (Open_2 p f) = [p]"
| "call_paths (Openat_2 d p f) = [p]"
| "call_paths (Ftok p i) = [p]"
| "call_paths (Name_to_handle_at d p f) = [p]"
| "call_paths (Inotify_add_watch fd p m) = [p]"
| "call_paths (Fanotify_mark fd f m d p) = [p]"
| "call_paths (Utmpname p) = [p]"

text \<open>A call with other paths in the place of its own.\<close>

fun set_paths :: "file_call \<Rightarrow> string list \<Rightarrow> file_call" where
  "set_paths (Access p m) ps = Access (ps ! 0) m"
| "set_paths (Euidaccess p m) ps = Euidaccess (ps ! 0) m"
| "set_paths (Faccessat d p m f) ps = Faccessat d (ps ! 0) m f"
| "set_paths (Unlinkat d p f) ps = Unlinkat d (ps ! 0) f"
| "set_paths (Rmdir p) ps = Rmdir (ps ! 0)"
| "set_paths (Remove p) ps = Remove (ps ! 0)"
| "set_paths (Renameat d p d' p') ps = Renameat d (ps ! 0) d' (ps ! 1)"
| "set_paths (Renameat2 d p d' p' f) ps = Renameat2 d (ps ! 0) d' (ps ! 1) f"
| "set_paths (Linkat d p d' p' f) ps = Linkat d (ps ! 0) d' (ps ! 1) f"
| "set_paths (Symlinkat t d p) ps = Symlinkat t d (ps ! 0)"
| "set_paths (Truncate p n) ps = Truncate (ps ! 0) n"
| "set_paths (Utimensat d p t f) ps = Utimensat d (ps ! 0) t f"
| "set_paths (Utimes p t) ps = Utimes (ps ! 0) t"
| "set_paths (Statfs p) ps = Statfs (ps ! 0)"
| "set_paths (Statvfs p) ps = Statvfs (ps ! 0)"
| "set_paths (Opendir p) ps = Opendir (ps ! 0)"
| "set_paths (Scandirat d p c) ps = Scandirat d (ps ! 0) c"
| "set_paths (Fopen p m) ps = Fopen (ps ! 0) m"
| "set_paths (Freopen p m s) ps = Freopen (ps ! 0) m s"
| "set_paths (Open_2 p f) ps = Open_2 (ps ! 0) f"
| "set_paths (Openat_2 d p f) ps = Openat_2 d (ps ! 0) f"
| "set_paths (Ftok p i) ps = Ftok (ps ! 0) i"
| "set_paths (Name_to_handle_at d p f) ps = Name_to_handle_at d (ps ! 0) f"
| "set_paths (Inotify_add_watch fd p m) ps = Inotify_add_watch fd (ps ! 0) m"
| "set_paths (Fanotify_mark fd f m d p) ps = Fanotify_mark fd f m d (ps ! 0)"
| "set_paths (Utmpname p) ps = Utmpname (ps ! 0)"

text \<open>
  The library between the program and a host \<open>sys\<close>: each call is the wrapper of that name, whose
  next call is the host's.
\<close>

fun do_file_call ::
    "(file_call \<Rightarrow> 'w \<Rightarrow> (errno + int) \<times> 'w) \<Rightarrow> host \<Rightarrow> lib \<Rightarrow> errno \<Rightarrow> file_call \<Rightarrow> 'w
     \<Rightarrow> ((errno + int) \<times> 'w) run" where
  "do_file_call sys h lib e (Access p m) = access_call (Some (\<lambda>(b, m). sys (Access b m))) h lib e p m"
| "do_file_call sys h lib e (Euidaccess p m) = euidaccess (Some (\<lambda>(b, m). sys (Euidaccess b m))) h lib e p m"
| "do_file_call sys h lib e (Faccessat d p m f) =
     faccessat (Some (\<lambda>(d, b, m, f). sys (Faccessat d b m f))) h lib e d p m f"
| "do_file_call sys h lib e (Unlinkat d p f) = unlinkat (Some (\<lambda>(d, b, f). sys (Unlinkat d b f))) h lib e d p f"
| "do_file_call sys h lib e (Rmdir p) = rmdir (Some (\<lambda>b. sys (Rmdir b))) h lib e p"
| "do_file_call sys h lib e (Remove p) = remove_call (Some (\<lambda>b. sys (Remove b))) h lib e p"
| "do_file_call sys h lib e (Renameat d p d' p') =
     renameat (Some (\<lambda>(d, b, d', b'). sys (Renameat d b d' b'))) h lib e d p d' p'"
| "do_file_call sys h lib e (Renameat2 d p d' p' f) =
     renameat2 (Some (\<lambda>(d, b, d', b', f). sys (Renameat2 d b d' b' f))) h lib e d p d' p' f"
| "do_file_call sys h lib e (Linkat d p d' p' f) =
     linkat (Some (\<lambda>(d, b, d', b', f). sys (Linkat d b d' b' f))) h lib e d p d' p' f"
| "do_file_call sys h lib e (Symlinkat t d p) = symlinkat (Some (\<lambda>(t, d, b). sys (Symlinkat t d b))) h lib e t d p"
| "do_file_call sys h lib e (Truncate p n) = truncate_call (Some (\<lambda>(b, n). sys (Truncate b n))) h lib e p n"
| "do_file_call sys h lib e (Utimensat d p t f) =
     utimensat (Some (\<lambda>(d, b, t, f). sys (Utimensat d b t f))) h lib e d p t f"
| "do_file_call sys h lib e (Utimes p t) = utimes (Some (\<lambda>(b, t). sys (Utimes b t))) h lib e p t"
| "do_file_call sys h lib e (Statfs p) = statfs (Some (\<lambda>b. sys (Statfs b))) h lib e p"
| "do_file_call sys h lib e (Statvfs p) = statvfs (Some (\<lambda>b. sys (Statvfs b))) h lib e p"
| "do_file_call sys h lib e (Opendir p) = opendir (Some (\<lambda>b. sys (Opendir b))) h lib e p"
| "do_file_call sys h lib e (Scandirat d p c) = scandirat (Some (\<lambda>(d, b, c). sys (Scandirat d b c))) h lib e d p c"
| "do_file_call sys h lib e (Fopen p m) = fopen (Some (\<lambda>(b, m). sys (Fopen b m))) h lib e p m"
| "do_file_call sys h lib e (Freopen p m s) = freopen (Some (\<lambda>(b, m, s). sys (Freopen b m s))) h lib e p m s"
| "do_file_call sys h lib e (Open_2 p f) = open_2 (Some (\<lambda>(b, f). sys (Open_2 b f))) h lib e p f"
| "do_file_call sys h lib e (Openat_2 d p f) = openat_2 (Some (\<lambda>(d, b, f). sys (Openat_2 d b f))) h lib e d p f"
| "do_file_call sys h lib e (Ftok p i) = ftok (Some (\<lambda>(b, i). sys (Ftok b i))) h lib e p i"
| "do_file_call sys h lib e (Name_to_handle_at d p f) =
     name_to_handle_at (Some (\<lambda>(d, b, f). sys (Name_to_handle_at d b f))) h lib e d p f"
| "do_file_call sys h lib e (Inotify_add_watch fd p m) =
     inotify_add_watch (Some (\<lambda>(fd, b, m). sys (Inotify_add_watch fd b m))) h lib e fd p m"
| "do_file_call sys h lib e (Fanotify_mark fd f m d p) =
     fanotify_mark (Some (\<lambda>(fd, f, m, d, b). sys (Fanotify_mark fd f m d (the b)))) h lib e fd f m d (Some p)"
| "do_file_call sys h lib e (Utmpname p) = utmpname (Some (\<lambda>b. sys (Utmpname b))) h lib e p"

text \<open>The calls that give the host the path of the program.\<close>

definition hands_on :: "file_call \<Rightarrow> bool" where
  "hands_on c \<longleftrightarrow> (case c of Inotify_add_watch _ _ _ \<Rightarrow> True | Fanotify_mark _ _ _ _ _ \<Rightarrow> True | _ \<Rightarrow> False)"

section \<open>A resolution keeps the names\<close>

text \<open>The names a path of the host goes through.\<close>

definition host_names :: "string \<Rightarrow> string list" where
  "host_names t = norm_comps [] (split_at slash t)"

text \<open>\<open>t\<close> is the file that \<open>p\<close> names in a chroot to the directory of the names \<open>rs\<close>.\<close>

definition seen_in :: "string list \<Rightarrow> string \<Rightarrow> string \<Rightarrow> bool" where
  "seen_in rs p t \<longleftrightarrow> starts_with t slash \<and> host_names t = norm_comps rs (split_at slash p)"

text \<open>
  The paths of the properties: absolute, neither magic nor left to the host by the expression of ignored
  paths (\<open>ordinary\<close>), without the text of the root directory at their front, and short enough.
\<close>

definition usual_path :: "lib \<Rightarrow> string list \<Rightarrow> string \<Rightarrow> bool" where
  "usual_path lib rs p \<longleftrightarrow> ordinary lib 0 p \<and> starts_with p slash \<and> \<not> prefix (root_path rs) p \<and>
     length (root_path rs @ p) < PATH_MAX"

lemma host_names_root_path: "list_all good ns \<Longrightarrow> host_names (root_path ns) = ns"
  by (cases "ns = []")
    (auto simp: host_names_def root_path_def list_all_iff good_def split_join_with norm_comps_good)

lemma good_norm_comps: "list_all good rs \<Longrightarrow> list_all good (norm_comps rs (split_at slash p))"
  by (rule norm_comps_set) (auto simp: split_at_no_sep)

lemma ordinary_nowalk: "ordinary lib 0 p \<Longrightarrow> ordinary lib PR_NOWALKALONG p"
  by (auto simp: ordinary_def left_alone_def allow_ignore_def allow_magic_links_def PR_NOIGNORE_def PR_NOWALKALONG_def
      PR_NOMAGICLINKS_def)

lemma resolve_seen:
  assumes "plain_host h" and "usual_path lib rs p"
    and "getrootdir (l_env lib) = root_path rs" and "list_all good rs" and "rs \<noteq> []"
  obtains t where "path_resolution h lib e dfd (Some p) PATH_MAX atflags = Ret t" and "seen_in rs p t"
proof
  show "path_resolution h lib e dfd (Some p) PATH_MAX atflags = Ret (root_path (norm_comps rs (split_at slash p)))"
    using assms resolution_chroot [of h lib 0 p atflags rs PATH_MAX e dfd]
    by (simp add: path_resolution_def usual_path_def allow_walk_along_def)
  show "seen_in rs p (root_path (norm_comps rs (split_at slash p)))"
    by (simp add: seen_in_def root_path_def [of "norm_comps rs (split_at slash p)"]
        host_names_root_path [OF good_norm_comps [OF assms(4)], unfolded root_path_def])
qed

text \<open>Without a walk the path is only sanitized.\<close>

lemma link_path_seen:
  assumes "plain_host h" and "usual_path lib rs p"
    and "getrootdir (l_env lib) = root_path rs" and "list_all good rs" and "rs \<noteq> []"
  obtains t where "link_path h lib e dfd p atflags = Ret t" and "seen_in rs p t"
proof (cases "follow_symlink atflags")
  case True
  let ?t = "root_path (norm_comps rs (split_at slash p))"
  have "link_path h lib e dfd p atflags = Ret ?t"
    unfolding link_path_def
    by (rule resolution_chroot) (use assms True ordinary_nowalk in \<open>auto simp: usual_path_def\<close>)
  moreover have "seen_in rs p ?t"
    by (simp add: seen_in_def root_path_def [of "norm_comps rs (split_at slash p)"]
        host_names_root_path [OF good_norm_comps [OF assms(4)], unfolded root_path_def])
  ultimately show ?thesis by (rule that)
next
  case False
  let ?buf = "root_path rs @ p"
  have p: "starts_with p slash" "\<not> prefix (root_path rs) p" "length ?buf < PATH_MAX"
    and o: "ordinary lib PR_NOWALKALONG p"
    using assms(2) ordinary_nowalk by (auto simp: usual_path_def)
  note rt = root_text_chroot [OF assms(3-5)]
  have buf: "placed (root_text lib) p = ?buf" using p(2) by (simp add: rt placed_def)
  have abs: "starts_with ?buf slash" by (simp add: root_path_def)
  have st: "strips ?buf (path_sanitize ?buf)" "starts_with (path_sanitize ?buf) slash"
    using path_sanitize_strips [OF abs] by auto
  have nw: "\<not> allow_walk_along PR_NOWALKALONG" by (simp add: allow_walk_along_def PR_NOWALKALONG_def)
  have r: "link_path h lib e dfd p atflags = Ret (path_sanitize ?buf)"
    unfolding link_path_def
    using resolution_ordinary [OF assms(1) o p(1), of PATH_MAX e dfd atflags] p(3) False nw
    by (simp add: rt placed_def p(2) root_path_starts)
  have "host_names (path_sanitize ?buf) = norm_comps rs (split_at slash p)"
    using st(1) split_root_path [OF assms(4,5) p(1)] by (simp add: host_names_def strips_def)
  with r st(2) that show ?thesis by (simp add: seen_in_def)
qed

text \<open>The resolutions the wrappers use.\<close>

definition resolution_of :: "host \<Rightarrow> lib \<Rightarrow> string \<Rightarrow> string run \<Rightarrow> bool" where
  "resolution_of h lib p r \<longleftrightarrow>
     (\<exists>e d a. r = path_resolution h lib e d (Some p) PATH_MAX a \<or> r = link_path h lib e d p a)"

lemma resolution_ofI:
  "resolution_of h lib p (path_resolution h lib e d (Some p) PATH_MAX a)"
  "resolution_of h lib p (link_path h lib e d p a)"
  by (auto simp: resolution_of_def)

lemma resolution_seen:
  assumes "resolution_of h lib p r" and "plain_host h" and "usual_path lib rs p"
    and "getrootdir (l_env lib) = root_path rs" and "list_all good rs" and "rs \<noteq> []"
  obtains t where "r = Ret t" and "seen_in rs p t"
proof -
  from assms(1) obtain e d a
    where "r = path_resolution h lib e d (Some p) PATH_MAX a \<or> r = link_path h lib e d p a"
    by (auto simp: resolution_of_def)
  then show ?thesis
    using resolve_seen [OF assms(2-6), of e d a thesis] link_path_seen [OF assms(2-6), of e d a thesis] that
    by metis
qed

lemma forward_path:
  assumes "resolution_of h lib p r" and "plain_host h" and "list_all (usual_path lib rs) [p]"
    and "getrootdir (l_env lib) = root_path rs" and "list_all good rs" and "rs \<noteq> []"
    and "\<And>t. f t w = F [t]"
  shows "\<exists>ps. list_all2 (seen_in rs) [p] ps \<and> with_path r f w = Ret (F ps)"
proof -
  obtain t where "r = Ret t" and "seen_in rs p t"
    by (rule resolution_seen [OF assms(1,2) _ assms(4-6)]) (use assms(3) in auto)
  then show ?thesis using assms(7) by (intro exI [of _ "[t]"]) (simp add: with_path_def)
qed

lemma hand_on_path:
  assumes "resolution_of h lib p r" and "plain_host h" and "list_all (usual_path lib rs) [p]"
    and "getrootdir (l_env lib) = root_path rs" and "list_all good rs" and "rs \<noteq> []"
    and "\<And>t. f t w = F [p]"
  shows "\<exists>ps. list_all2 (=) [p] ps \<and> with_path r f w = Ret (F ps)"
proof -
  obtain t where "r = Ret t"
    by (rule resolution_seen [OF assms(1,2) _ assms(4-6)]) (use assms(3) in auto)
  then show ?thesis using assms(7) by (intro exI [of _ "[p]"]) (simp add: with_path_def)
qed

lemma forward_paths:
  assumes "resolution_of h lib p r" and "resolution_of h lib p' r'" and "plain_host h"
    and "list_all (usual_path lib rs) [p, p']"
    and "getrootdir (l_env lib) = root_path rs" and "list_all good rs" and "rs \<noteq> []"
    and "\<And>t t'. f t t' w = F [t, t']"
  shows "\<exists>ps. list_all2 (seen_in rs) [p, p'] ps \<and> with_paths r r' f w = Ret (F ps)"
proof -
  obtain t where t: "r = Ret t" "seen_in rs p t"
    by (rule resolution_seen [OF assms(1,3) _ assms(5-7)]) (use assms(4) in auto)
  obtain t' where "r' = Ret t'" "seen_in rs p' t'"
    by (rule resolution_seen [OF assms(2,3) _ assms(5-7)]) (use assms(4) in auto)
  with t assms(8) show ?thesis by (intro exI [of _ "[t, t']"]) (simp add: with_path_def with_paths_def)
qed

lemmas file_call_defs = access_call_def euidaccess_def faccessat_def unlinkat_def rmdir_def remove_call_def
  renameat_def renameat2_def linkat_def symlinkat_def truncate_call_def utimensat_def utimes_def statfs_def
  statvfs_def opendir_def scandirat_def fopen_def freopen_def open_2_def openat_2_def ftok_def
  name_to_handle_at_def inotify_add_watch_def fanotify_mark_def utmpname_def

section \<open>Properties\<close>

text \<open>
  C7: In a chroot the library forwards every call of \<open>file_call\<close> as the same call of the host:
  the result is the host's, every other argument is unchanged, and every path is replaced by one
  that goes through the names of the root directory and the names of the path; except for
  \<^verbatim>\<open>inotify_add_watch\<close> and \<^verbatim>\<open>fanotify_mark\<close>, whose path is the program's. For
  absolute paths that are neither magic nor left to the host by the expression of ignored paths and that
  do not start with the text of the root directory, on a host without links.
\<close>

theorem file_calls_forwarded:
  assumes "plain_host h" and "list_all (usual_path lib rs) (call_paths c)"
    and "getrootdir (l_env lib) = root_path rs" and "list_all good rs" and "rs \<noteq> []"
  shows "\<exists>ps. list_all2 (if hands_on c then (=) else seen_in rs) (call_paths c) ps \<and>
    do_file_call sys h lib e c w = Ret (sys (set_paths c ps) w)"
  using assms(2)
  by (cases c; simp only: call_paths.simps do_file_call.simps file_call_defs hands_on_def file_call.case if_True if_False)
    (rule forward_path [OF resolution_ofI(1) assms(1) _ assms(3-5)]
       forward_path [OF resolution_ofI(2) assms(1) _ assms(3-5)]
       hand_on_path [OF resolution_ofI(1) assms(1) _ assms(3-5)]
       forward_paths [OF resolution_ofI(1) resolution_ofI(1) assms(1) _ assms(3-5)]
       forward_paths [OF resolution_ofI(2) resolution_ofI(2) assms(1) _ assms(3-5)];
     simp add: next_call_def)+

theorem file_calls_forwarded_witness:
  "\<exists>ps. list_all2 (seen_in [''r'']) [''/a/../b'', ''/c''] ps \<and>
     do_file_call (\<lambda>c w. (Inr 0, c # w)) bare_host (chroot_lib ''/r'') E_OK (Renameat 3 ''/a/../b'' 4 ''/c'') [] =
       Ret (Inr 0, [Renameat 3 (ps ! 0) 4 (ps ! 1)])"
proof -
  have "list_all (usual_path (chroot_lib ''/r'') [''r'']) (call_paths (Renameat 3 ''/a/../b'' 4 ''/c''))" by code_simp
  from file_calls_forwarded [OF bare_plain this root_r, of "\<lambda>c w. (Inr 0, c # w)" E_OK "[]"]
  show ?thesis by (simp add: good_def slash_def hands_on_def)
qed

end
