(* ===== verification/Xattrs.thy ===== *)
theory Xattrs
  imports Files
begin

text \<open>
  The extended attributes of the program (\<^verbatim>\<open>getxattr.c\<close>, \<^verbatim>\<open>setxattr.c\<close>, \<^verbatim>\<open>removexattr.c\<close>,
  \<^verbatim>\<open>listxattr.c\<close> and their variants for links and descriptors): every name gets the prefix
  \<^verbatim>\<open>user.iamroot.\<close>, so that attributes of any name space can be written, and the prefix is
  taken off again in a listing. A listing is the text of the names with their terminators.
\<close>

section \<open>Names\<close>

definition XATTRS_PREFIX :: string where "XATTRS_PREFIX = ''user.iamroot.''"
definition XATTR_NAME_MAX :: nat where "XATTR_NAME_MAX = 255"
definition XATTR_LIST_MAX :: nat where "XATTR_LIST_MAX = 65536"

text \<open>The name the host is given; \<open>xbufsiz\<close> is the size of \<^verbatim>\<open>xbuf\<close>.\<close>

definition xattr_name :: "nat \<Rightarrow> string \<Rightarrow> errno + string" where
  "xattr_name xbufsiz name =
     (if strneq name XATTRS_PREFIX (length XATTRS_PREFIX) then Inr name
      else snprintf (XATTRS_PREFIX @ name) xbufsiz)"

definition with_name ::
    "nat \<Rightarrow> string \<Rightarrow> (string \<Rightarrow> 'w \<Rightarrow> (errno + 'r) \<times> 'w) \<Rightarrow> 'w \<Rightarrow> (errno + 'r) \<times> 'w" where
  "with_name xbufsiz name f w = (case xattr_name xbufsiz name of Inl e \<Rightarrow> (Inl e, w) | Inr n \<Rightarrow> f n w)"

section \<open>Reading\<close>

definition getxattr where
  "getxattr dl h lib e path name siz w =
     with_path (path_resolution h lib e AT_FDCWD (Some path) PATH_MAX 0)
       (\<lambda>buf. with_name (XATTR_NAME_MAX + 1) name (\<lambda>n. next_call dl (buf, n, siz))) w"

definition lgetxattr where
  "lgetxattr dl h lib e path name siz w =
     with_path (link_path h lib e AT_FDCWD path AT_SYMLINK_NOFOLLOW)
       (\<lambda>buf. with_name (XATTR_NAME_MAX + 1) name (\<lambda>n. next_call dl (buf, n, siz))) w"

definition fgetxattr where
  "fgetxattr dl h fd name siz w =
     with_path (fpath (h_readlink h) fd PATH_MAX)
       (\<lambda>buf. with_name (XATTR_NAME_MAX + 1) name (\<lambda>n. next_call dl (fd, n, siz))) w"

section \<open>Writing\<close>

definition setxattr where
  "setxattr dl h lib e path name val xflags w =
     with_path (path_resolution h lib e AT_FDCWD (Some path) PATH_MAX 0)
       (\<lambda>buf. with_name (XATTR_NAME_MAX + 1) name (\<lambda>n. next_call dl (buf, n, val, xflags))) w"

definition lsetxattr where
  "lsetxattr dl h lib e path name val xflags w =
     with_path (link_path h lib e AT_FDCWD path AT_SYMLINK_NOFOLLOW)
       (\<lambda>buf. with_name (XATTR_LIST_MAX + 1) name (\<lambda>n. next_call dl (buf, n, val, xflags))) w"

definition fsetxattr where
  "fsetxattr dl h fd name val xflags w =
     with_path (fpath (h_readlink h) fd PATH_MAX)
       (\<lambda>buf. with_name (XATTR_NAME_MAX + 1) name (\<lambda>n. next_call dl (fd, n, val, xflags))) w"

section \<open>Removing\<close>

definition removexattr where
  "removexattr dl h lib e path name w =
     with_path (path_resolution h lib e AT_FDCWD (Some path) PATH_MAX 0)
       (\<lambda>buf. with_name (XATTR_NAME_MAX + 1) name (\<lambda>n. next_call dl (buf, n))) w"

definition lremovexattr where
  "lremovexattr dl h lib e path name w =
     with_path (link_path h lib e AT_FDCWD path AT_SYMLINK_NOFOLLOW)
       (\<lambda>buf. with_name (XATTR_LIST_MAX + 1) name (\<lambda>n. next_call dl (buf, n))) w"

definition fremovexattr where
  "fremovexattr dl h fd name w =
     with_path (fpath (h_readlink h) fd PATH_MAX)
       (\<lambda>buf. with_name (XATTR_NAME_MAX + 1) name (\<lambda>n. next_call dl (fd, n))) w"

section \<open>Listing\<close>

text \<open>
  The loop over the names: \<open>rest\<close> is what is left of \<^verbatim>\<open>xbuf\<close>, \<open>out\<close> what is counted of the
  caller's list, of which \<open>room\<close> are the bytes there are (\<open>None\<close> is a null pointer). The
  copy of a name includes its terminator, also when the name is the bare prefix and not counted.
\<close>

definition strip_name :: "string \<Rightarrow> string" where
  "strip_name s = (if strneq s XATTRS_PREFIX (length XATTRS_PREFIX) then drop (length XATTRS_PREFIX) s else s)"

function strip_list :: "nat option \<Rightarrow> string \<Rightarrow> string \<Rightarrow> string run" where
  "strip_list room out rest =
     (let s = takeWhile (\<lambda>c. c \<noteq> NUL) rest; t = strip_name s in
      if s = [] then Ret out
      else if (case room of None \<Rightarrow> False | Some n \<Rightarrow> n < length out + length t + 1) then Undef
      else let out' = (if t = [] then out else out @ t @ [NUL]); rest' = drop (length s + 1) rest
           in if rest' = [] then Ret out' else strip_list room out' rest')"
  by auto
termination by (relation "measure (\<lambda>(_, _, rest). length rest)") auto

declare strip_list.simps [simp del]

text \<open>\<open>next\<close> fills at most the bytes it is given; the size the caller gave is not looked at.\<close>

definition list_names ::
    "string run \<Rightarrow> nat option \<Rightarrow> (string \<Rightarrow> 'w \<Rightarrow> (errno + string) \<times> 'w) \<Rightarrow> 'w
     \<Rightarrow> ((errno + string) \<times> 'w) run" where
  "list_names res room next w =
     run_bind (with_path res next w) (\<lambda>(r, w').
       case r of Inl e \<Rightarrow> Ret (Inl e, w')
       | Inr v \<Rightarrow> run_bind (strip_list room [] v) (\<lambda>out. Ret (Inr out, w')))"

definition listxattr where
  "listxattr dl h lib e path room w =
     list_names (path_resolution h lib e AT_FDCWD (Some path) PATH_MAX 0) room
       (\<lambda>buf. next_call dl (buf, XATTR_NAME_MAX)) w"

definition llistxattr where
  "llistxattr dl h lib e path room w =
     list_names (link_path h lib e AT_FDCWD path AT_SYMLINK_NOFOLLOW) room
       (\<lambda>buf. next_call dl (buf, XATTR_LIST_MAX)) w"

definition flistxattr where
  "flistxattr dl h fd room w =
     list_names (fpath (h_readlink h) fd PATH_MAX) room (\<lambda>buf. next_call dl (fd, XATTR_LIST_MAX)) w"

end
