(* ===== verification/Xattrs_Facts.thy ===== *)
theory Xattrs_Facts
  imports Xattrs Attrs_Facts
begin

text \<open>
  What the program sees of extended attributes: a name space of its own, kept by the host under
  names with the prefix, and a listing without the prefix.
\<close>

section \<open>Names\<close>

lemma XATTRS_PREFIX_ne [simp]: "XATTRS_PREFIX \<noteq> []" "\<not> prefix XATTRS_PREFIX []"
  by (simp_all add: XATTRS_PREFIX_def)

lemma xattr_name_plain:
  "\<not> prefix XATTRS_PREFIX n \<Longrightarrow>
    xattr_name k n = (if length (XATTRS_PREFIX @ n) < k then Inr (XATTRS_PREFIX @ n) else Inl ENOSPC)"
  by (simp add: xattr_name_def strneq_prefix snprintf_def)

lemma xattr_name_own: "prefix XATTRS_PREFIX n \<Longrightarrow> xattr_name k n = Inr n"
  by (simp add: xattr_name_def strneq_prefix)

lemma xattr_name_prefix: "xattr_name k n = Inr x \<Longrightarrow> prefix XATTRS_PREFIX x"
  by (cases "prefix XATTRS_PREFIX n") (auto simp: xattr_name_plain xattr_name_own split: if_splits)

lemma strip_name_eq: "strip_name s = (if prefix XATTRS_PREFIX s then drop (length XATTRS_PREFIX) s else s)"
  by (simp add: strip_name_def strneq_prefix)

lemma strip_name_prefixed [simp]: "strip_name (XATTRS_PREFIX @ n) = n"
  by (simp add: strip_name_eq)

lemma strip_name_Nil: "strip_name s = [] \<longleftrightarrow> s = [] \<or> s = XATTRS_PREFIX"
  by (auto simp: strip_name_eq prefix_def)

section \<open>Attributes of one file as a store\<close>

text \<open>
  \<open>look\<close> is the value of an attribute, \<open>put\<close> writes one; \<open>ok\<close> says which names and values are
  meant. The host has this contract for its names, the wrapped calls have it for the names of the
  program.
\<close>

locale attr_store =
  fixes look :: "string \<Rightarrow> 'w \<Rightarrow> string option"
    and put :: "string \<Rightarrow> string \<Rightarrow> 'w \<Rightarrow> (errno + int) \<times> 'w"
    and name_ok :: "string \<Rightarrow> bool" and val_ok :: "string \<Rightarrow> bool"
  assumes look_put: "put n v w = (Inr r, w') \<Longrightarrow> name_ok n \<Longrightarrow> val_ok v \<Longrightarrow> name_ok m \<Longrightarrow>
      look m w' = (if m = n then Some v else look m w)"
begin

lemma look_put_same: "put n v w = (Inr r, w') \<Longrightarrow> name_ok n \<Longrightarrow> val_ok v \<Longrightarrow> look n w' = Some v"
  by (simp add: look_put)

text \<open>Writing to two names in either order shows the same.\<close>

lemma look_put_commute:
  assumes "put n v w = (Inr r1, w1)" and "put m u w1 = (Inr r2, w2)"
    and "put m u w = (Inr r3, w3)" and "put n v w3 = (Inr r4, w4)"
    and "name_ok n" and "name_ok m" and "name_ok k" and "val_ok v" and "val_ok u" and "n \<noteq> m"
  shows "look k w2 = look k w4"
  using look_put [OF assms(1) assms(5,8,7)] look_put [OF assms(2) assms(6,9,7)]
    look_put [OF assms(3) assms(6,9,7)] look_put [OF assms(4) assms(5,8,7)] assms(10) by auto

end

text \<open>What a read of the host or of the program shows.\<close>

definition shown :: "(errno + string) \<times> 'w \<Rightarrow> string option" where
  "shown r = (case fst r of Inl e \<Rightarrow> None | Inr v \<Rightarrow> Some v)"

definition shown_run :: "((errno + string) \<times> 'w) run \<Rightarrow> string option" where
  "shown_run r = (case r of Ret x \<Rightarrow> shown x | _ \<Rightarrow> None)"

definition run_result :: "'w \<Rightarrow> ((errno + int) \<times> 'w) run \<Rightarrow> (errno + int) \<times> 'w" where
  "run_result w r = (case r of Ret x \<Rightarrow> x | _ \<Rightarrow> (Inl EIO, w))"

text \<open>The host's contract for the file the path resolves to.\<close>

locale host_attrs = host: attr_store
    "\<lambda>n w. shown (hget (buf, n, siz) w)" "\<lambda>n v w. hset (buf, n, v, xflags) w" "\<lambda>_. True" "\<lambda>v. length v \<le> siz"
  for hget :: "string \<times> string \<times> nat \<Rightarrow> 'w \<Rightarrow> (errno + string) \<times> 'w"
    and hset :: "string \<times> string \<times> string \<times> int \<Rightarrow> 'w \<Rightarrow> (errno + int) \<times> 'w"
    and buf :: string and siz :: nat and xflags :: int +
  fixes h :: host and lib :: lib and e :: errno and path :: string
  assumes resolved: "path_resolution h lib e AT_FDCWD (Some path) PATH_MAX 0 = Ret buf"
begin

lemma getxattr_shown:
  "\<not> prefix XATTRS_PREFIX n \<Longrightarrow> shown_run (getxattr (Some hget) h lib e path n siz w) =
     (if length (XATTRS_PREFIX @ n) \<le> XATTR_NAME_MAX then shown (hget (buf, XATTRS_PREFIX @ n, siz) w) else None)"
  by (auto simp: getxattr_def with_path_def resolved with_name_def xattr_name_plain next_call_def
      shown_run_def shown_def less_Suc_eq_le)

lemma setxattr_result:
  "\<not> prefix XATTRS_PREFIX n \<Longrightarrow> run_result w (setxattr (Some hset) h lib e path n v xflags w) =
     (if length (XATTRS_PREFIX @ n) \<le> XATTR_NAME_MAX then hset (buf, XATTRS_PREFIX @ n, v, xflags) w
      else (Inl ENOSPC, w))"
  by (auto simp: setxattr_def with_path_def resolved with_name_def xattr_name_plain next_call_def
      run_result_def less_Suc_eq_le)

text \<open>Every write reaches the host under a name with the prefix.\<close>

lemma setxattr_prefixed:
  assumes "setxattr (Some hset) h lib e path n v xflags w = Ret (Inr r, w')"
  obtains x where "hset (buf, x, v, xflags) w = (Inr r, w')" and "prefix XATTRS_PREFIX x"
  using assms xattr_name_prefix
  by (auto simp: setxattr_def with_path_def resolved with_name_def next_call_def split: sum.splits)

end

sublocale host_attrs \<subseteq> wrapped: attr_store
  "\<lambda>n w. shown_run (getxattr (Some hget) h lib e path n siz w)"
  "\<lambda>n v w. run_result w (setxattr (Some hset) h lib e path n v xflags w)"
  "\<lambda>n. \<not> prefix XATTRS_PREFIX n" "\<lambda>v. length v \<le> siz"
proof unfold_locales
  fix n v w r w' m
  assume put: "run_result w (setxattr (Some hset) h lib e path n v xflags w) = (Inr r, w')"
    and n: "\<not> prefix XATTRS_PREFIX n" and v: "length v \<le> siz" and m: "\<not> prefix XATTRS_PREFIX m"
  from put have s: "hset (buf, XATTRS_PREFIX @ n, v, xflags) w = (Inr r, w')" "length (XATTRS_PREFIX @ n) \<le> XATTR_NAME_MAX"
    by (simp_all add: setxattr_result [OF n] split: if_splits)
  have "shown (hget (buf, XATTRS_PREFIX @ m, siz) w') =
      (if m = n then Some v else shown (hget (buf, XATTRS_PREFIX @ m, siz) w))"
    using host.look_put [OF s(1) _ v, of "XATTRS_PREFIX @ m"] by simp
  with s(2) show "shown_run (getxattr (Some hget) h lib e path m siz w') =
      (if m = n then Some v else shown_run (getxattr (Some hget) h lib e path m siz w))"
    by (cases "m = n") (simp_all add: getxattr_shown [OF m] getxattr_shown [OF n])
qed

context host_attrs
begin

lemmas wrapped_look_put = wrapped.look_put

end

section \<open>Listings\<close>

definition names_text :: "string list \<Rightarrow> string" where
  "names_text ns = concat (map (\<lambda>n. n @ [NUL]) ns)"

lemma names_text_simps [simp]:
  "names_text [] = []" "names_text (n # ns) = n @ NUL # names_text ns"
  by (simp_all add: names_text_def)

lemma names_text_append: "names_text (ns @ ms) = names_text ns @ names_text ms"
  by (simp add: names_text_def)

lemma takeWhile_name: "NUL \<notin> set s \<Longrightarrow> takeWhile (\<lambda>c. c \<noteq> NUL) (s @ NUL # t) = s"
  by (induction s) auto

definition name_ok :: "string \<Rightarrow> bool" where
  "name_ok n \<longleftrightarrow> n \<noteq> [] \<and> NUL \<notin> set n \<and> n \<noteq> XATTRS_PREFIX"

lemma strip_list_step:
  assumes "name_ok n"
  shows "strip_list room out (n @ NUL # rest) =
    (if (\<exists>k. room = Some k \<and> k < length out + length (strip_name n) + 1) then Undef
     else if rest = [] then Ret (out @ strip_name n @ [NUL])
     else strip_list room (out @ strip_name n @ [NUL]) rest)"
  using assms by (subst strip_list.simps)
    (auto simp: name_ok_def takeWhile_name strip_name_Nil Let_def split: option.splits)

lemma strip_list_names:
  assumes "list_all name_ok ns" and "\<forall>k. room = Some k \<longrightarrow> length out \<le> k"
  shows "strip_list room out (names_text ns) =
    (if (\<exists>k. room = Some k \<and> k < length out + length (names_text (map strip_name ns))) then Undef
     else Ret (out @ names_text (map strip_name ns)))"
  using assms
proof (induction ns arbitrary: out)
  case Nil
  then show ?case by (subst strip_list.simps) auto
next
  case (Cons n ns)
  show ?case
  proof (cases "\<exists>k. room = Some k \<and> k < length out + length (strip_name n) + 1")
    case True
    with Cons.prems show ?thesis by (auto simp: strip_list_step)
  next
    case False
    let ?out = "out @ strip_name n @ [NUL]"
    have "strip_list room ?out (names_text ns) =
      (if (\<exists>k. room = Some k \<and> k < length ?out + length (names_text (map strip_name ns))) then Undef
       else Ret (?out @ names_text (map strip_name ns)))"
      by (rule Cons.IH) (use Cons.prems False in auto)
    with False Cons.prems show ?thesis
      by (cases ns) (auto simp: strip_list_step)
  qed
qed

section \<open>A host that keeps attributes\<close>

type_synonym attr_map = "string \<times> string \<Rightarrow> string option"

definition map_hget :: "string \<times> string \<times> nat \<Rightarrow> attr_map \<Rightarrow> (errno + string) \<times> attr_map" where
  "map_hget a w = (case a of (p, n, k) \<Rightarrow>
     case w (p, n) of None \<Rightarrow> (Inl ENODATA, w)
     | Some v \<Rightarrow> if k < length v then (Inl ERANGE, w) else (Inr v, w))"

definition map_hset :: "string \<times> string \<times> string \<times> int \<Rightarrow> attr_map \<Rightarrow> (errno + int) \<times> attr_map" where
  "map_hset a w = (case a of (p, n, v, _) \<Rightarrow> (Inr 0, w((p, n) := Some v)))"

lemma map_host:
  "map_hset (b, n, v, fl) w = (Inr r, w') \<Longrightarrow> length v \<le> k \<Longrightarrow>
    shown (map_hget (b, m, k) w') = (if m = n then Some v else shown (map_hget (b, m, k) w))"
  by (cases "m = n") (auto simp: map_hset_def map_hget_def shown_def split: option.splits)

interpretation mem: host_attrs map_hget map_hset "''/r/f''" 16 0 bare_host "chroot_lib ''/r''" E_OK "''/f''"
  by unfold_locales (use map_host res_f in auto)

section \<open>Properties\<close>

text \<open>
  C9: Extended attributes are a store of the program: when the host keeps what is written to it,
  a \<^verbatim>\<open>setxattr\<close> that succeeded is what \<^verbatim>\<open>getxattr\<close> shows for that name, every other name
  shows what it did, and no attribute of the host outside of \<^verbatim>\<open>user.iamroot.\<close> is changed,
  whatever name space the program wrote to. For names that do not start with \<^verbatim>\<open>user.iamroot.\<close>
  themselves, as such a name is the same attribute with and without the prefix, and by path.
\<close>

theorem xattr_store:
  fixes xflags r :: int
  assumes host: "\<And>n v w r w' m. hset (buf, n, v, xflags) w = (Inr r, w') \<Longrightarrow> length v \<le> siz \<Longrightarrow>
      shown (hget (buf, m, siz) w') = (if m = n then Some v else shown (hget (buf, m, siz) w))"
    and res: "path_resolution h lib e AT_FDCWD (Some path) PATH_MAX 0 = Ret buf"
    and put: "setxattr (Some hset) h lib e path n v xflags w = Ret (Inr r, w')" and v: "length v \<le> siz"
    and names: "\<not> prefix XATTRS_PREFIX n" "\<not> prefix XATTRS_PREFIX m"
  shows "shown_run (getxattr (Some hget) h lib e path m siz w') =
      (if m = n then Some v else shown_run (getxattr (Some hget) h lib e path m siz w)) \<and>
    shown (hget (buf, m, siz) w') = shown (hget (buf, m, siz) w)"
proof -
  have hl: "host_attrs hget hset buf siz xflags h lib e path"
    by unfold_locales (use host res in auto)
  obtain x where "hset (buf, x, v, xflags) w = (Inr r, w')" and "prefix XATTRS_PREFIX x"
    using host_attrs.setxattr_prefixed [OF hl put] .
  with host v names(2) have "shown (hget (buf, m, siz) w') = shown (hget (buf, m, siz) w)" by fastforce
  moreover have "run_result w (setxattr (Some hset) h lib e path n v xflags w) = (Inr r, w')"
    using put by (simp add: run_result_def)
  ultimately show ?thesis using host_attrs.wrapped_look_put [OF hl _ names(1) v names(2)] by simp
qed

theorem xattr_store_witness:
  "shown_run (getxattr (Some map_hget) bare_host (chroot_lib ''/r'') E_OK ''/f'' ''security.ima'' 16
     ((\<lambda>_. None)((''/r/f'', ''user.iamroot.security.ima'') := Some ''sig''))) = Some ''sig''"
proof -
  have "setxattr (Some map_hset) bare_host (chroot_lib ''/r'') E_OK ''/f'' ''security.ima'' ''sig'' 0 (\<lambda>_. None) =
      Ret (Inr 0, (\<lambda>_. None)((''/r/f'', ''user.iamroot.security.ima'') := Some ''sig''))"
    by (simp add: setxattr_def with_path_def res_f with_name_def xattr_name_plain next_call_def map_hset_def
        XATTRS_PREFIX_def XATTR_NAME_MAX_def)
  from xattr_store [where siz = 16 and hget = map_hget and m = "''security.ima''", OF map_host res_f this]
  show ?thesis by (simp add: XATTRS_PREFIX_def)
qed

text \<open>
  A listing is exactly the names of the host without the prefix, and it is written to the
  caller's list whatever size that has: the call is in bounds just when the list has room for it.
\<close>

theorem listxattr_exact:
  assumes "path_resolution h lib e AT_FDCWD (Some path) PATH_MAX 0 = Ret buf"
    and "dl (buf, XATTR_NAME_MAX) w = (Inr (names_text ns), w')"
    and "list_all name_ok ns"
  shows "listxattr (Some dl) h lib e path room w =
    (case room of
       None \<Rightarrow> Ret (Inr (names_text (map strip_name ns)), w')
     | Some k \<Rightarrow> if length (names_text (map strip_name ns)) \<le> k
                 then Ret (Inr (names_text (map strip_name ns)), w') else Undef)"
  using assms strip_list_names [OF assms(3), of room "[]"]
  by (auto simp: listxattr_def list_names_def with_path_def next_call_def split: option.splits)

theorem listxattr_exact_witness:
  "listxattr (Some (\<lambda>_ w. (Inr (names_text [''user.iamroot.security.ima'', ''user.x'']), w))) bare_host
     (chroot_lib ''/r'') E_OK ''/f'' (Some 8) () = Undef"
proof -
  let ?ns = "[''user.iamroot.security.ima'', ''user.x'']"
  have "list_all name_ok ?ns" by code_simp
  from listxattr_exact [OF res_f _ this, of "\<lambda>_ w. (Inr (names_text ?ns), w)" "()" "()" "Some 8"]
  show ?thesis by (simp add: strip_name_def strneq_def XATTRS_PREFIX_def)
qed

end
