(* ===== verification/Sockets.thy ===== *)
theory Sockets
  imports Attrs
begin

text \<open>
  The socket calls with an address (\<^verbatim>\<open>bind.c\<close>, \<^verbatim>\<open>connect.c\<close>, \<^verbatim>\<open>accept.c\<close>,
  \<^verbatim>\<open>accept4.c\<close>, \<^verbatim>\<open>getpeername.c\<close>, \<^verbatim>\<open>getsockname.c\<close>): the path of a Unix socket
  is resolved into the 108 bytes of an address, with a directory for the paths that do not fit.
\<close>

section \<open>Addresses\<close>

definition AF_UNIX :: nat where "AF_UNIX = 1"
definition SUN_PATH_SIZE :: nat where "SUN_PATH_SIZE = 108"

text \<open>\<open>sa_path\<close> are the bytes of \<^verbatim>\<open>sun_path\<close> in front of the first null byte.\<close>

record sockaddr =
  sa_family :: nat
  sa_path :: string

text \<open>\<^verbatim>\<open>SUN_LEN\<close>: the family and the path without its terminator.\<close>

definition sun_len :: "string \<Rightarrow> nat" where
  "sun_len path = 2 + length path"

definition un_addr :: "string \<Rightarrow> sockaddr" where
  "un_addr path = \<lparr>sa_family = AF_UNIX, sa_path = path\<rparr>"

text \<open>The calls that are handed on: no address, another family, or a path that is empty.\<close>

definition not_unix :: "sockaddr option \<Rightarrow> bool" where
  "not_unix addr = (case addr of None \<Rightarrow> True | Some a \<Rightarrow> sa_family a \<noteq> AF_UNIX \<or> sa_path a = [])"

text \<open>The path in the buffer, or below the directory of the variable when it does not fit.\<close>

definition unix_path :: "host \<Rightarrow> lib \<Rightarrow> errno \<Rightarrow> string \<Rightarrow> string run" where
  "unix_path h lib e path =
     (case path_resolution h lib e AT_FDCWD (Some path) SUN_PATH_SIZE 0 of
        Err x \<Rightarrow>
          if x = ENAMETOOLONG then
            (case env_get ''IAMROOT_PATH_RESOLUTION_AF_UNIX'' (l_env lib) of
               None \<Rightarrow> Err x
             | Some dir \<Rightarrow> of_sum (snprintf (dir @ slash # basename path) SUN_PATH_SIZE))
          else Err x
      | r \<Rightarrow> r)"

section \<open>Addresses that go in\<close>

definition send_addr ::
    "(int \<times> sockaddr option \<times> nat \<Rightarrow> 'w \<Rightarrow> (errno + int) \<times> 'w) \<Rightarrow> host \<Rightarrow> lib \<Rightarrow> errno \<Rightarrow> int \<Rightarrow>
     sockaddr option \<Rightarrow> nat \<Rightarrow> 'w \<Rightarrow> ((errno + int) \<times> 'w) run" where
  "send_addr next h lib e fd addr addrlen w =
     (if not_unix addr then Ret (next (fd, addr, addrlen) w)
      else with_path (unix_path h lib e (sa_path (the addr)))
             (\<lambda>buf. next (fd, Some (un_addr buf), sun_len buf)) w)"

definition bind where
  "bind dl h lib e fd addr addrlen w = send_addr (next_call dl) h lib e fd addr addrlen w"

definition connect where
  "connect dl h lib e fd addr addrlen w = send_addr (next_call dl) h lib e fd addr addrlen w"

section \<open>Addresses that come out\<close>

text \<open>
  A host call returns its number, the address it wrote and the length it wrote; the result of a
  wrapper is the number, what is in the caller's address, and what is in the caller's length
  (\<open>None\<close> when that is a null pointer).
\<close>

type_synonym addr_out = "int \<times> sockaddr option \<times> nat option"

text \<open>
  The host writes to the buffer of the wrapper, of which only the length is copied, and only for
  the result \<open>0\<close>.
\<close>

definition recv_unix ::
    "(int \<times> sockaddr option \<times> nat option \<Rightarrow> 'w \<Rightarrow> (errno + addr_out) \<times> 'w) \<Rightarrow> int \<Rightarrow> sockaddr \<Rightarrow> nat option
     \<Rightarrow> string \<Rightarrow> 'w \<Rightarrow> (errno + addr_out) \<times> 'w" where
  "recv_unix next fd a addrlen buf w =
     (case next (fd, Some (un_addr buf), Some (sun_len buf)) w of
        (Inl x, w') \<Rightarrow> (Inl x, w')
      | (Inr (r, _, buflen), w') \<Rightarrow>
          (Inr (r, Some a, if r = 0 \<and> addrlen \<noteq> None then buflen else addrlen), w'))"

definition recv_addr ::
    "(int \<times> sockaddr option \<times> nat option \<Rightarrow> 'w \<Rightarrow> (errno + addr_out) \<times> 'w) \<Rightarrow> host \<Rightarrow> lib \<Rightarrow> errno \<Rightarrow> int \<Rightarrow>
     sockaddr option \<Rightarrow> nat option \<Rightarrow> 'w \<Rightarrow> ((errno + addr_out) \<times> 'w) run" where
  "recv_addr next h lib e fd addr addrlen w =
     (if not_unix addr then Ret (next (fd, addr, addrlen) w)
      else with_path (unix_path h lib e (sa_path (the addr))) (recv_unix next fd (the addr) addrlen) w)"

definition accept where
  "accept dl h lib e fd addr addrlen w = recv_addr (next_call dl) h lib e fd addr addrlen w"

definition accept4 where
  "accept4 dl h lib e fd addr addrlen (oflags :: 32 word) w =
     recv_addr (\<lambda>(s, a, n). next_call dl (s, a, n, oflags)) h lib e fd addr addrlen w"

definition getsockname where
  "getsockname dl h lib e fd addr addrlen w = recv_addr (next_call dl) h lib e fd addr addrlen w"

text \<open>The test of \<^verbatim>\<open>getpeername\<close> has lost its negations: a null pointer is read.\<close>

definition getpeername where
  "getpeername dl fd addr addrlen w =
     (case addr of None \<Rightarrow> Undef | Some a \<Rightarrow> Ret (next_call dl (fd :: int, Some (a :: sockaddr), addrlen :: nat option) w))"

end
