(* ===== verification/Sockets_Facts.thy ===== *)
theory Sockets_Facts
  imports Sockets Files_Facts
begin

text \<open>
  The address of a Unix socket in a chroot: the path below the root directory when it fits, a path
  of the directory for the long ones, or an error.
\<close>

lemma place_absolute_long:
  assumes "starts_with path slash" and "\<not> prefix root path" and "length root \<le> PATH_MAX"
    and "bufsiz \<le> length (root @ path)"
  shows "place_path h root dfd path bufsiz = Inl (Err ENAMETOOLONG, strncpy_buf (root @ path) bufsiz)"
  using assms by (auto simp: place_path_def print_path_def snprintf_def strleq_prefix)

lemma resolution_long:
  assumes "usual_path lib rs p" and "getrootdir (l_env lib) = root_path rs" and "list_all good rs" and "rs \<noteq> []"
    and "bufsiz \<le> length (root_path rs @ p)"
  shows "path_resolution h lib e dfd (Some p) bufsiz a = Err ENAMETOOLONG"
proof -
  have p: "starts_with p slash" "\<not> prefix (root_path rs) p" "length (root_path rs @ p) < PATH_MAX"
    and o: "ordinary lib 0 p" using assms(1) by (auto simp: usual_path_def)
  have "place_path h (root_path rs) dfd p bufsiz = Inl (Err ENAMETOOLONG, strncpy_buf (root_path rs @ p) bufsiz)"
    by (rule place_absolute_long) (use p assms(5) in auto)
  then show ?thesis
    using o p(3) assms(2) root_path_ends [OF assms(3,4)]
    by (auto simp: path_resolution_def path_resolution2_def ordinary_def strnlen_def)
qed

lemma resolution_fits:
  assumes "plain_host h" and "usual_path lib rs p"
    and "getrootdir (l_env lib) = root_path rs" and "list_all good rs" and "rs \<noteq> []"
    and "length (root_path rs @ p) < bufsiz"
  shows "path_resolution h lib e dfd (Some p) bufsiz a = Ret (root_path (norm_comps rs (split_at slash p)))"
  using assms resolution_chroot [of h lib 0 p a rs bufsiz e dfd]
  by (simp add: path_resolution_def usual_path_def allow_walk_along_def)

text \<open>The path that is put into the address.\<close>

definition unix_target :: "lib \<Rightarrow> string list \<Rightarrow> string \<Rightarrow> errno + string" where
  "unix_target lib rs p =
     (if length (root_path rs @ p) < SUN_PATH_SIZE then Inr (root_path (norm_comps rs (split_at slash p)))
      else case env_get ''IAMROOT_PATH_RESOLUTION_AF_UNIX'' (l_env lib) of
             None \<Rightarrow> Inl ENAMETOOLONG
           | Some dir \<Rightarrow>
               if length (dir @ slash # basename p) < SUN_PATH_SIZE then Inr (dir @ slash # basename p)
               else Inl ENOSPC)"

lemma unix_path_target:
  assumes "plain_host h" and "usual_path lib rs p"
    and "getrootdir (l_env lib) = root_path rs" and "list_all good rs" and "rs \<noteq> []"
  shows "unix_path h lib e p = of_sum (unix_target lib rs p)"
  using resolution_fits [OF assms, of SUN_PATH_SIZE e AT_FDCWD 0]
    resolution_long [OF assms(2-5), of SUN_PATH_SIZE h e AT_FDCWD 0]
  by (cases "length (root_path rs @ p) < SUN_PATH_SIZE")
    (auto simp: unix_path_def unix_target_def snprintf_def split: option.splits)

lemma unix_target_fits:
  assumes "unix_target lib rs p = Inr t" and "list_all good rs" and "rs \<noteq> []" and "starts_with p slash"
  shows "length t < SUN_PATH_SIZE"
proof (cases "length (root_path rs @ p) < SUN_PATH_SIZE")
  case True
  have "lexical (root_path rs @ p) = root_path (norm_comps rs (split_at slash p))"
    using strips_lexical [OF strips_refl root_path_ends(1) [OF assms(2,3)], of p] split_root_path [OF assms(2-4)]
    by (simp add: root_path_def)
  with assms(1) True length_lexical_le [of "root_path rs @ p"] show ?thesis
    by (auto simp: unix_target_def root_path_def)
next
  case False
  with assms(1) show ?thesis by (auto simp: unix_target_def split: option.splits if_splits)
qed

text \<open>
  C23: \<^verbatim>\<open>bind\<close> and \<^verbatim>\<open>connect\<close> in a chroot: the host is given a Unix address with the
  path below the root directory when that fits the address, with the last name of the path in the
  directory of \<^verbatim>\<open>IAMROOT_PATH_RESOLUTION_AF_UNIX\<close> otherwise, and never more than the 108
  bytes of an address; without the directory, or when that does not fit, the host is not called and
  the error says so. For an absolute path that is neither magic nor left to the host by the expression of
  ignored paths (by default a socket below \<^verbatim>\<open>/run\<close> or \<^verbatim>\<open>/dev\<close> is the host's) and that does
  not start with the text of the root directory, on a host without links: a link can lead to a path that is
  cut off, see the last lemma.
\<close>

theorem unix_address:
  assumes "plain_host h" and "usual_path lib rs p"
    and "getrootdir (l_env lib) = root_path rs" and "list_all good rs" and "rs \<noteq> []"
  shows "bind (Some f) h lib e fd (Some (un_addr p)) n w =
      (case unix_target lib rs p of
         Inl x \<Rightarrow> Ret (Inl x, w)
       | Inr t \<Rightarrow> Ret (f (fd, Some (un_addr t), sun_len t) w)) \<and>
    connect (Some f) h lib e fd (Some (un_addr p)) n w = bind (Some f) h lib e fd (Some (un_addr p)) n w \<and>
    (\<forall>t. unix_target lib rs p = Inr t \<longrightarrow> length t < SUN_PATH_SIZE)"
proof -
  have "p \<noteq> []" and p: "starts_with p slash" using assms(2) by (auto simp: usual_path_def)
  then have "\<not> not_unix (Some (un_addr p))" by (simp add: not_unix_def un_addr_def)
  then have "bind (Some f) h lib e fd (Some (un_addr p)) n w =
      (case unix_target lib rs p of Inl x \<Rightarrow> Ret (Inl x, w) | Inr t \<Rightarrow> Ret (f (fd, Some (un_addr t), sun_len t) w))"
    by (auto simp: bind_def send_addr_def unix_path_target [OF assms] with_path_def next_call_def un_addr_def
        split: sum.splits)
  then show ?thesis using unix_target_fits [OF _ assms(4,5) p] by (simp add: bind_def connect_def)
qed

definition socket_lib :: lib where
  "socket_lib = \<lparr>l_env = Some [''IAMROOT_ROOT=/r'', ''IAMROOT_PATH_RESOLUTION_AF_UNIX=/tmp''],
     l_ignore = Some default_match, l_warning = Some default_warning_match\<rparr>"

definition long_socket :: string where
  "long_socket = ''/var/'' @ replicate 110 (CHR ''a'') @ ''/sock''"

theorem unix_address_witness:
  "bind (Some (\<lambda>a w. (Inr 0, [a]))) bare_host socket_lib E_OK 3 (Some (un_addr long_socket)) 110 [] =
     Ret (Inr 0, [(3, Some (un_addr ''/tmp/sock''), 11)])"
proof -
  have u: "usual_path socket_lib [''r''] long_socket" by code_simp
  have r: "getrootdir (l_env socket_lib) = root_path [''r'']" by code_simp
  have t: "unix_target socket_lib [''r''] long_socket = Inr ''/tmp/sock''" by code_simp
  from unix_address [OF bare_plain u r, of "\<lambda>a w. (Inr 0, [a])" E_OK 3 110 "[]"] t show ?thesis
    by (simp add: good_def slash_def sun_len_def)
qed

text \<open>
  The calls that ask for an address do not deliver it: when the caller's buffer holds the address
  of a Unix socket, as a buffer that is used again does, it keeps that address.
\<close>

lemma accept_keeps_address:
  assumes "sa_family a = AF_UNIX" and "sa_path a \<noteq> []"
    and "accept dl h lib e fd (Some a) addrlen w = Ret (Inr (r, addr', addrlen'), w')"
  shows "addr' = Some a \<and> (r \<noteq> 0 \<longrightarrow> addrlen' = addrlen)"
  using assms
  by (auto simp: accept_def recv_addr_def not_unix_def with_path_def recv_unix_def split: run.splits prod.splits sum.splits)

text \<open>A link can lead to a path that does not fit: the address is cut off without an error.\<close>

lemma unix_path_truncated:
  "unix_path (bare_host\<lparr>h_readlink := (\<lambda>f n. if f = ''/r/s'' then Inr (''/'' @ replicate 120 (CHR ''a'')) else Inl EINVAL)\<rparr>)
     (chroot_lib ''/r'') E_OK ''/s'' = Ret (''/r/'' @ replicate 104 (CHR ''a''))"
  by code_simp

text \<open>An address that is left to the host is handed on as it is.\<close>

lemma unix_path_ignored:
  "unix_path bare_host (chroot_lib ''/r'') E_OK ''/run/dbus/../x'' = Ret ''/run/dbus/../x''"
  by code_simp

end
