(* ===== verification/Names.thy ===== *)
theory Names
  imports Chroot Files
begin

text \<open>
  The calls that are not a resolution and a call of the host: names the host answers
  (\<^verbatim>\<open>ttyname.c\<close>, \<^verbatim>\<open>ptsname.c\<close>, \<^verbatim>\<open>ctermid.c\<close>, \<^verbatim>\<open>tempnam.c\<close>,
  \<^verbatim>\<open>canonicalize_file_name.c\<close>, \<^verbatim>\<open>dladdr.c\<close>, \<^verbatim>\<open>dl_iterate_phdr.c\<close>), names the host
  makes up (\<^verbatim>\<open>mktemp.c\<close>, \<^verbatim>\<open>mkostemps.c\<close> and their variants), message catalogues
  (\<^verbatim>\<open>catopen.c\<close>), descriptors (\<^verbatim>\<open>close.c\<close>, \<^verbatim>\<open>dup.c\<close>), and the calls that only root
  may make, which do nothing (\<^verbatim>\<open>mount.c\<close>, \<^verbatim>\<open>swapon.c\<close>, \<^verbatim>\<open>acct.c\<close>, \<^verbatim>\<open>unshare.c\<close>).
\<close>

section \<open>Names the host answers\<close>

definition answer :: "lib \<Rightarrow> (errno + string) \<times> 'w \<Rightarrow> (errno + string) \<times> 'w" where
  "answer lib rw = (strip_answer lib (fst rw), snd rw)"

definition ttyname where
  "ttyname dl lib (fd :: int) w = answer lib (next_call dl fd w)"

definition ptsname where
  "ptsname dl lib (fd :: int) w = answer lib (next_call dl fd w)"

definition ctermid where
  "ctermid dl lib u w = answer lib (next_call dl u w)"

definition canonicalize_file_name where
  "canonicalize_file_name dl h lib e path w =
     with_path (path_resolution h lib e AT_FDCWD (Some path) PATH_MAX 0)
       (\<lambda>buf w. answer lib (next_call dl buf w)) w"

definition tempnam where
  "tempnam dl h lib e path pfx w =
     with_path (path_resolution h lib e AT_FDCWD (Some (case path of None \<Rightarrow> ''/tmp'' | Some p \<Rightarrow> p)) PATH_MAX 0)
       (\<lambda>buf w. answer lib (next_call dl (buf, pfx :: string option) w)) w"

text \<open>
  A host call returns a number and what the buffer then holds. \<^verbatim>\<open>ttyname_r\<close> looks at the
  buffer for the number \<open>0\<close>, \<^verbatim>\<open>ptsname_r\<close> for every number but \<open>-1\<close>.
\<close>

definition strip_buffer :: "lib \<Rightarrow> int \<times> string \<Rightarrow> int \<times> string" where
  "strip_buffer lib rb =
     (case striprootdir (l_env lib) (snd rb) of None \<Rightarrow> (-1, snd rb) | Some s \<Rightarrow> (fst rb, s))"

definition ttyname_r where
  "ttyname_r dl lib (fd :: int) buf (bufsiz :: nat) w =
     (case dl of None \<Rightarrow> ((-1, buf), w)
      | Some f \<Rightarrow> (case f (fd, buf, bufsiz) w of (rb, w') \<Rightarrow>
          (if fst rb \<noteq> 0 then rb else strip_buffer lib rb, w')))"

definition ptsname_r where
  "ptsname_r dl lib (fd :: int) buf (bufsiz :: nat) w =
     (case dl of None \<Rightarrow> ((-1, buf), w)
      | Some f \<Rightarrow> (case f (fd, buf, bufsiz) w of (rb, w') \<Rightarrow>
          (if fst rb = -1 then rb else strip_buffer lib rb, w')))"

section \<open>Names of loaded objects\<close>

text \<open>The number of the call and the name it found; the root directory is skipped, not removed.\<close>

definition skip_fname :: "lib \<Rightarrow> int \<times> string option \<Rightarrow> int \<times> string option" where
  "skip_fname lib ri =
     (if fst ri = 0 then ri
      else (fst ri, case snd ri of None \<Rightarrow> None | Some s \<Rightarrow> skiprootdir (l_env lib) s))"

definition dladdr where
  "dladdr dl lib (addr :: nat) w =
     (case dl of None \<Rightarrow> ((-1, None), w) | Some f \<Rightarrow> (case f addr w of (ri, w') \<Rightarrow> (skip_fname lib ri, w')))"

definition dladdr1 where
  "dladdr1 dl lib (addr :: nat) (dflags :: int) w =
     (case dl of None \<Rightarrow> ((-1, None), w)
      | Some f \<Rightarrow> (case f (addr, dflags) w of (ri, w') \<Rightarrow> (skip_fname lib ri, w')))"

text \<open>
  The name the program's function is given is a copy that ends with the call. \<open>walk\<close> is the
  host's iteration with a function for each object.
\<close>

definition phdr_name :: "lib \<Rightarrow> string \<Rightarrow> string" where
  "phdr_name lib name =
     (let buf = strncpy_buf name PATH_MAX
      in case striprootdir (l_env lib) buf of None \<Rightarrow> buf | Some s \<Rightarrow> s)"

definition dl_iterate_phdr_callback where
  "dl_iterate_phdr_callback lib cb name d = cb (phdr_name lib name) d"

definition dl_iterate_phdr where
  "dl_iterate_phdr walk lib cb d =
     (case walk of None \<Rightarrow> (-1 :: int, d) | Some it \<Rightarrow> it (dl_iterate_phdr_callback lib cb) d)"

section \<open>Names the host makes up\<close>

text \<open>
  The last name of the caller's template is replaced by as many bytes of the end of the host's
  path; a host's path that is shorter is read in front of its start.
\<close>

definition copy_back :: "string \<Rightarrow> string \<Rightarrow> string run" where
  "copy_back path buf =
     (let len = length (basename path)
      in if length buf < len then Undef
         else Ret (take (length path - len) path @ drop (length buf - len) buf))"

definition with_template ::
    "string run \<Rightarrow> string \<Rightarrow> (string \<Rightarrow> 'w \<Rightarrow> (errno + 'r \<times> string) \<times> 'w) \<Rightarrow> 'w
     \<Rightarrow> ((errno + 'r \<times> string) \<times> 'w) run" where
  "with_template res path next w =
     run_bind (with_path res next w) (\<lambda>(r, w').
       case r of Inl e \<Rightarrow> Ret (Inl e, w')
       | Inr (fd, buf) \<Rightarrow> run_bind (copy_back path buf) (\<lambda>path'. Ret (Inr (fd, path'), w')))"

definition mkostempsat where
  "mkostempsat dl h lib e dfd path (sufflen :: int) (oflags :: 32 word) w =
     with_template (path_resolution h lib e dfd (Some path) PATH_MAX 0) path
       (\<lambda>buf. next_call dl (dfd, buf, sufflen, oflags)) w"

definition mkostemps where
  "mkostemps dl h lib e path (sufflen :: int) (oflags :: 32 word) w =
     with_template (path_resolution h lib e AT_FDCWD (Some path) PATH_MAX 0) path
       (\<lambda>buf. next_call dl (buf, sufflen, oflags)) w"

definition mkostemp where
  "mkostemp dl h lib e path oflags w = mkostemps dl h lib e path 0 oflags w"

definition mkstemps where
  "mkstemps dl h lib e path sufflen w = mkostemps dl h lib e path sufflen 0 w"

definition mkstemp where
  "mkstemp dl h lib e path w = mkostemps dl h lib e path 0 0 w"

text \<open>
  \<^verbatim>\<open>mktemp\<close> and \<^verbatim>\<open>mkdtemp\<close> return a pointer: \<^verbatim>\<open>NULL\<close>, the caller's template with
  its new text, or the buffer of the wrapper when the host's text is empty. What the host returned is
  read before it is compared with \<^verbatim>\<open>NULL\<close>.
\<close>

datatype template = Null errno | Template string | Dangling

definition made_up :: "string run \<Rightarrow> string \<Rightarrow> (string \<Rightarrow> 'w \<Rightarrow> (errno + string) \<times> 'w) \<Rightarrow> 'w \<Rightarrow> (template \<times> 'w) run" where
  "made_up res path next w =
     (case res of
        Ret buf \<Rightarrow>
          (case next buf w of
             (Inl e, w') \<Rightarrow> Undef
           | (Inr s, w') \<Rightarrow>
               if s = [] then Ret (Dangling, w')
               else run_bind (copy_back path s) (\<lambda>path'. Ret (Template path', w')))
      | Err e \<Rightarrow> Ret (Null e, w) | Undef \<Rightarrow> Undef | Diverge \<Rightarrow> Diverge)"

definition mktemp where
  "mktemp dl h lib e path w =
     made_up (path_resolution h lib e AT_FDCWD (Some path) PATH_MAX 0) path (next_call dl) w"

definition mkdtemp where
  "mkdtemp dl h lib e path w =
     made_up (path_resolution h lib e AT_FDCWD (Some path) PATH_MAX 0) path (next_call dl) w"

section \<open>Descriptors and streams\<close>

text \<open>The path of the descriptor is for the log only, but it is read, and \<^verbatim>\<open>fpath\<close> is out of bounds for a long one.\<close>

definition with_fd_name :: "host \<Rightarrow> int \<Rightarrow> ('w \<Rightarrow> (errno + int) \<times> 'w) \<Rightarrow> 'w \<Rightarrow> ((errno + int) \<times> 'w) run" where
  "with_fd_name h fd next w =
     (case fpath (h_readlink h) fd PATH_MAX of Undef \<Rightarrow> Undef | Diverge \<Rightarrow> Diverge | _ \<Rightarrow> Ret (next w))"

definition close_call where
  "close_call dl h fd w = with_fd_name h fd (next_call dl fd) w"

definition dup_call where
  "dup_call dl h fd w = with_fd_name h fd (next_call dl fd) w"

definition dup2 where
  "dup2 dl h fd (newfd :: int) w = with_fd_name h fd (next_call dl (fd, newfd)) w"

definition dup3 where
  "dup3 dl h fd (newfd :: int) (oflags :: 32 word) w = with_fd_name h fd (next_call dl (fd, newfd, oflags)) w"

definition fdopen where
  "fdopen dl (fd :: int) (smode :: string) w = next_call dl (fd, smode) w"

definition fclose where
  "fclose dl stream w = next_call dl stream w"

section \<open>What only root may do\<close>

definition kill_call where
  "kill_call dl (pid :: int) (sig :: int) w = (case next_call dl (pid, sig) w of (r, w') \<Rightarrow> (ignore_eperm r, w'))"

text \<open>The calls that are not forwarded.\<close>

definition not_forwarded :: "'w \<Rightarrow> (errno + int) \<times> 'w" where
  "not_forwarded w = (Inr 0, w)"

definition acct where "acct (path :: string option) w = not_forwarded w"
definition swapon where "swapon (path :: string) (swapflags :: int) w = not_forwarded w"
definition swapoff where "swapoff (path :: string) w = not_forwarded w"
definition mount where "mount (source :: string) (target :: string) (fstype :: string) (mountflags :: 64 word) w = not_forwarded w"
definition umount where "umount (target :: string) w = not_forwarded w"
definition umount2 where "umount2 (target :: string) (uflags :: int) w = not_forwarded w"
definition unshare where "unshare (uflags :: int) w = not_forwarded w"

section \<open>Message catalogues\<close>

text \<open>A substitution of an element of \<^verbatim>\<open>NLSPATH\<close>.\<close>

definition cat_subst :: "string \<Rightarrow> string \<Rightarrow> char \<Rightarrow> string option" where
  "cat_subst name lang c =
     (if c = CHR ''N'' then Some name
      else if c = CHR ''L'' then Some lang
      else if c = CHR ''l'' then Some (takeWhile (\<lambda>c. c \<notin> {CHR ''_'', CHR ''.'', CHR ''@''}) lang)
      else if c = CHR ''t'' then
        Some (takeWhile (\<lambda>c. c \<notin> {CHR ''.'', CHR ''@''}) (tl (dropWhile (\<lambda>c. c \<noteq> CHR ''_'') lang)))
      else if c = CHR ''c'' then Some ''UTF-8''
      else if c = CHR ''%'' then Some ''%''
      else None)"

definition colon_sep :: char where "colon_sep = CHR '':''"

text \<open>
  One element: what is in the buffer, and where the reading stopped, which is in front of the
  separator when the element is not understood or does not fit.
\<close>

fun cat_expand :: "string \<Rightarrow> string \<Rightarrow> string \<Rightarrow> string \<Rightarrow> string \<times> string" where
  "cat_expand name lang buf [] = (buf, [])"
| "cat_expand name lang buf [c] =
     (if c = colon_sep then (buf, [c])
      else if c = CHR ''%'' then (buf, [])
      else if PATH_MAX - length buf \<le> 1 then (buf, [c])
      else (buf @ [c], []))"
| "cat_expand name lang buf (c # d # p) =
     (if c = colon_sep then (buf, c # d # p)
      else if c = CHR ''%'' then
        (if d = colon_sep then (buf, d # p)
         else case cat_subst name lang d of
             None \<Rightarrow> (buf, d # p)
           | Some v \<Rightarrow> if PATH_MAX - length buf \<le> length v then (buf, d # p) else cat_expand name lang (buf @ v) p)
      else if PATH_MAX - length buf \<le> 1 then (buf, c # d # p)
      else cat_expand name lang (buf @ [c]) (d # p))"

lemma cat_expand_suffix: "suffix (snd (cat_expand name lang buf p)) p"
  by (induction name lang buf p rule: cat_expand.induct)
    (auto split: option.splits intro: suffix_ConsI dest: suffix_ConsD)

definition at_end :: "string \<Rightarrow> bool" where
  "at_end q \<longleftrightarrow> q = [] \<or> hd q = colon_sep"

lemma cat_expand_less:
  assumes "cat_expand name lang buf p = (b, q)" and "\<not> at_end q"
  shows "length (dropWhile (\<lambda>c. c \<noteq> colon_sep) q) < length p"
proof -
  have "suffix q p" using cat_expand_suffix [of name lang buf p] assms(1) by simp
  then have "length q \<le> length p" by (rule suffix_length_le)
  moreover obtain c q' where "q = c # q'" "c \<noteq> colon_sep" using assms(2) by (cases q) (auto simp: at_end_def)
  moreover have "length (dropWhile (\<lambda>c. c \<noteq> colon_sep) q') \<le> length q'" by (rule length_dropWhile_le)
  ultimately show ?thesis by simp
qed

lemma cat_expand_tl:
  assumes "cat_expand name lang buf p = (b, q)" and "p \<noteq> []"
  shows "length (tl (dropWhile (\<lambda>c. c \<noteq> colon_sep) q)) < length p"
proof -
  have "suffix q p" using cat_expand_suffix [of name lang buf p] assms(1) by simp
  then have "length q \<le> length p" by (rule suffix_length_le)
  moreover have "length (dropWhile (\<lambda>c. c \<noteq> colon_sep) q) \<le> length q" by (rule length_dropWhile_le)
  ultimately show ?thesis using assms(2) by (cases "dropWhile (\<lambda>c. c \<noteq> colon_sep) q"; cases p) auto
qed

function cat_loop ::
    "(string \<Rightarrow> 'w \<Rightarrow> ((errno + 'r) \<times> 'w) run) \<Rightarrow> string \<Rightarrow> string \<Rightarrow> string \<Rightarrow> 'w \<Rightarrow> ((errno + 'r) \<times> 'w) run" where
  "cat_loop open_cat name lang p w =
     (if p = [] then Ret (Inl ENOENT, w)
      else case cat_expand name lang [] p of (buf, q) \<Rightarrow>
        let z = dropWhile (\<lambda>c. c \<noteq> colon_sep) q in
        if z = [] \<and> (\<not> at_end q \<or> buf = []) then Ret (Inl ENOENT, w)
        else if \<not> at_end q then cat_loop open_cat name lang z w
        else (case open_cat (if buf = [] then name else buf) w of
            Ret (Inr c, w') \<Rightarrow> Ret (Inr c, w')
          | Ret (Inl e, w') \<Rightarrow> cat_loop open_cat name lang (tl z) w'
          | Err e \<Rightarrow> Err e | Undef \<Rightarrow> Undef | Diverge \<Rightarrow> Diverge))"
  by pat_completeness auto
termination
proof (relation "measure (\<lambda>(_, _, _, p, _). length p)", goal_cases)
  case (2 open_cat name lang p w buf q z)
  then have "cat_expand name lang [] p = (buf, q)" by simp
  from cat_expand_less [OF this] 2 show ?case by simp
next
  case (3 open_cat name lang p w buf q z)
  then have "cat_expand name lang [] p = (buf, q)" by simp
  from cat_expand_tl [OF this] 3 show ?case by simp
qed simp

declare cat_loop.simps [simp del]

definition catopen_path where
  "catopen_path dl h lib e oflag path w =
     with_path (path_resolution h lib e AT_FDCWD (Some path) PATH_MAX 0) (\<lambda>buf. next_call dl (buf, oflag)) w"

text \<open>\<open>messages\<close> is the name of the locale for messages, of \<^verbatim>\<open>nl_langinfo\<close>.\<close>

definition catopen where
  "catopen dl h lib e messages name (oflag :: int) w =
     (if slash \<in> set name then catopen_path dl h lib e oflag name w
      else case env_get ''NLSPATH'' (l_env lib) of
          None \<Rightarrow> Ret (Inl ENOENT, w)
        | Some path \<Rightarrow>
            let lang = (case (if oflag \<noteq> 0 then messages else env_get ''LANG'' (l_env lib)) of
                          None \<Rightarrow> [] | Some l \<Rightarrow> l)
            in cat_loop (catopen_path dl h lib e oflag) name lang path w)"

end
