(* ===== verification/Names_Facts.thy ===== *)
theory Names_Facts
  imports Names Files_Facts Path_Rel
begin

text \<open>
  The names the host makes up name the same files for the program, and what goes wrong when the host
  does not answer.
\<close>

lemma basename_append: "slash \<notin> set b \<Longrightarrow> basename (d @ slash # b) = b"
  by (simp add: basename_def takeWhile_append)

lemma norm_comps_snoc: "good b \<Longrightarrow> norm_comps rs (split_at slash (d @ slash # b)) = norm_comps rs (split_at slash d) @ [b]"
  by (auto simp: split_at_append norm_comps_append split_at_whole good_def)

lemma copy_back_name:
  assumes "slash \<notin> set b" and "length b' = length b"
  shows "copy_back (d @ slash # b) (t @ b') = Ret (d @ slash # b')"
  using assms by (simp add: copy_back_def basename_append)

text \<open>
  C30: The name that \<^verbatim>\<open>mkostemps\<close> writes to the template names the file that the host made:
  when the host replaced the last name of the path by another of the same length, the template has
  that name in the program's directory, and resolving it gives the host's path. For a template and a
  name that are absolute paths, neither magic nor left to the host by the expression of ignored paths,
  that do not start with the text of the root directory, on a host without links.
\<close>

theorem mkostemps_names_file:
  assumes "plain_host h" and "usual_path lib rs (d @ slash # b)" and "usual_path lib rs (d @ slash # b')"
    and "getrootdir (l_env lib) = root_path rs" and "list_all good rs" and "rs \<noteq> []"
    and "good b" and "good b'" and "length b' = length b"
    and host: "\<And>t. f (t @ b, sufflen, oflags) w = (Inr (fd, t @ b'), w')"
  shows "\<exists>t. path_resolution h lib e AT_FDCWD (Some (d @ slash # b)) PATH_MAX 0 = Ret (t @ b) \<and>
    mkostemps (Some f) h lib e (d @ slash # b) sufflen oflags w = Ret (Inr (fd, d @ slash # b'), w') \<and>
    path_resolution h lib e AT_FDCWD (Some (d @ slash # b')) PATH_MAX 0 = Ret (t @ b')"
proof -
  let ?ns = "norm_comps rs (split_at slash d)"
  let ?t = "if ?ns = [] then [slash] else root_path ?ns @ [slash]"
  have r: "path_resolution h lib e AT_FDCWD (Some (d @ slash # x)) PATH_MAX 0 = Ret (?t @ x)"
    if "usual_path lib rs (d @ slash # x)" and "good x" for x
    using resolution_chroot [of h lib 0 "d @ slash # x" 0 rs PATH_MAX e AT_FDCWD] assms(1,4,5,6) that
      norm_comps_snoc [OF that(2), of rs d] root_path_snoc [of ?ns x]
    by (simp add: path_resolution_def usual_path_def allow_walk_along_def)
  have m: "mkostemps (Some f) h lib e (d @ slash # b) sufflen oflags w = Ret (Inr (fd, d @ slash # b'), w')"
    using assms(7,9) host [of ?t] copy_back_name [of b b' d ?t]
    unfolding mkostemps_def with_template_def r [OF assms(2,7)] by (simp add: with_path_def next_call_def good_def)
  show ?thesis by (intro exI [of _ ?t] conjI r m) (use assms in auto)
qed

theorem mkostemps_names_file_witness:
  "\<exists>t. path_resolution bare_host (chroot_lib ''/r'') E_OK AT_FDCWD (Some ''/tmp/../t/fXXXXXX'') PATH_MAX 0 = Ret (t @ ''fXXXXXX'') \<and>
     mkostemps (Some (\<lambda>(p, _, _) w. (Inr (3::int, take (length p - 6) p @ ''a1b2c3''), w))) bare_host (chroot_lib ''/r'')
       E_OK ''/tmp/../t/fXXXXXX'' 0 0 () = Ret (Inr (3, ''/tmp/../t/fa1b2c3''), ()) \<and>
     path_resolution bare_host (chroot_lib ''/r'') E_OK AT_FDCWD (Some ''/tmp/../t/fa1b2c3'') PATH_MAX 0 = Ret (t @ ''fa1b2c3'')"
proof -
  have u: "usual_path (chroot_lib ''/r'') [''r''] (''/tmp/../t'' @ slash # ''fXXXXXX'')"
    "usual_path (chroot_lib ''/r'') [''r''] (''/tmp/../t'' @ slash # ''fa1b2c3'')" by code_simp+
  show ?thesis
    using mkostemps_names_file [OF bare_plain u root_r, of "\<lambda>(p, _, _) w. (Inr (3, take (length p - 6) p @ ''a1b2c3''), w)"
        0 0 "()" 3 "()" E_OK]
    by (simp add: good_def slash_def)
qed

text \<open>When the host makes nothing, \<^verbatim>\<open>mktemp\<close> and \<^verbatim>\<open>mkdtemp\<close> read the null pointer it returns.\<close>

lemma mkdtemp_null:
  assumes "path_resolution h lib e AT_FDCWD (Some path) PATH_MAX 0 = Ret buf" and "f buf w = (Inl x, w')"
  shows "mkdtemp (Some f) h lib e path w = Undef"
  using assms by (simp add: mkdtemp_def made_up_def next_call_def)

text \<open>A host that answers \<^verbatim>\<open>ptsname_r\<close> with an error number leaves the buffer alone: the number is lost when that is empty.\<close>

lemma ptsname_r_error:
  assumes "0 < n" and "f (fd, [], siz) w = ((n, []), w')"
  shows "ptsname_r (Some f) lib fd [] siz w = ((-1, []), w')"
  using assms by (simp add: ptsname_r_def strip_buffer_def striprootdir_def)

end
