(* ===== verification/Elf_Facts.thy ===== *)
theory Elf_Facts
  imports Elf
begin

unbundle bit_operations_syntax

text \<open>
  What the ELF reader answers: every converted field is the field in the byte order of the file, so the
  host does not matter; the interpreter is that of the first segment of its kind; the mapped
  reader finds out whether there is one.
\<close>

section \<open>Conversion\<close>

definition valid_data :: "byte list \<Rightarrow> bool" where
  "valid_data ident \<longleftrightarrow> ident ! EI_DATA = 1 \<or> ident ! EI_DATA = 2"

definition file_big :: "byte list \<Rightarrow> bool" where "file_big ident \<longleftrightarrow> ident ! EI_DATA = 2"

lemma elf_swap_iff: "valid_data ident \<Longrightarrow> elf_swap big ident \<longleftrightarrow> big \<noteq> file_big ident"
  by (auto simp: elf_swap_def valid_data_def file_big_def)

lemma length_slice [simp]: "off + n \<le> length bs \<Longrightarrow> length (take n (drop off bs)) = n"
  by simp

text \<open>A field in the order of the file.\<close>

named_theorems elf_conv

lemma elf_half_at [elf_conv]:
  "valid_data ident \<Longrightarrow> off + 2 \<le> length bs \<Longrightarrow> elf_half big ident (at big bs off 2) = at (file_big ident) bs off 2"
  by (auto simp: elf_half_def elf_swap_iff at_def bswap_load)

lemma elf_word_at [elf_conv]:
  "valid_data ident \<Longrightarrow> off + 4 \<le> length bs \<Longrightarrow> elf_word big ident (at big bs off 4) = at (file_big ident) bs off 4"
  by (auto simp: elf_word_def elf_swap_iff at_def bswap_load)

lemma elf_xword_at [elf_conv]:
  "valid_data ident \<Longrightarrow> off + 8 \<le> length bs \<Longrightarrow> elf_xword big ident (at big bs off 8) = at (file_big ident) bs off 8"
  by (auto simp: elf_xword_def elf_swap_iff at_def bswap_load)

lemma valid_native: "valid_data ident \<Longrightarrow> \<not> elf_swap (file_big ident) ident"
  by (simp add: elf_swap_iff)

lemma at_native:
  assumes "valid_data ident"
  shows "elf_half (file_big ident) ident v = v" "elf_word (file_big ident) ident w = w"
    "elf_xword (file_big ident) ident x = x"
  using assms by (simp_all add: elf_half_def elf_word_def elf_xword_def valid_native)

text \<open>Program headers do not depend on the host.\<close>

lemma phdr32_host:
  "valid_data ident \<Longrightarrow> 32 \<le> length bs \<Longrightarrow> phdr32_of big ident bs = phdr32_of (file_big ident) ident bs"
  by (simp add: phdr32_of_def Let_def elf_conv at_native)

lemma phdr64_host:
  "valid_data ident \<Longrightarrow> 56 \<le> length bs \<Longrightarrow> phdr64_of big ident bs = phdr64_of (file_big ident) ident bs"
  by (simp add: phdr64_of_def Let_def elf_conv at_native)

lemma shdr64_host:
  "valid_data ident \<Longrightarrow> 64 \<le> length bs \<Longrightarrow> shdr64_of big ident bs = shdr64_of (file_big ident) ident bs"
  by (simp add: shdr64_of_def Let_def elf_conv at_native)

text \<open>The 32-bit section header does up to \<^verbatim>\<open>sh_info\<close>, the headers up to \<^verbatim>\<open>e_shentsize\<close>.\<close>

lemma shdr32_host:
  "valid_data ident \<Longrightarrow> 40 \<le> length bs \<Longrightarrow>
    (shdr32_of big ident bs)\<lparr>sh_info := x\<rparr> = (shdr32_of (file_big ident) ident bs)\<lparr>sh_info := x\<rparr>"
  by (simp add: shdr32_of_def Let_def elf_conv at_native)

lemma take_EI_DATA [simp]: "take 16 bs ! EI_DATA = bs ! EI_DATA" "take 16 bs ! EI_CLASS = bs ! EI_CLASS"
  by (simp_all add: EI_DATA_def EI_CLASS_def)

lemma valid_data_take [simp]: "valid_data (take 16 bs) = valid_data bs" "file_big (take 16 bs) = file_big bs"
  by (simp_all add: valid_data_def file_big_def)

lemma elf_ident_take:
  "elf_half big (take 16 bs) = elf_half big bs" "elf_word big (take 16 bs) = elf_word big bs"
  "elf_xword big (take 16 bs) = elf_xword big bs"
  by (simp_all add: fun_eq_iff elf_half_def elf_word_def elf_xword_def elf_swap_def)

lemma ehdr_host:
  assumes "valid_data bs" and "64 \<le> length bs"
  shows "(ehdr32_of big bs)\<lparr>e_shentsize := x\<rparr> = (ehdr32_of (file_big bs) bs)\<lparr>e_shentsize := x\<rparr>"
    and "(ehdr64_of big bs)\<lparr>e_shentsize := x\<rparr> = (ehdr64_of (file_big bs) bs)\<lparr>e_shentsize := x\<rparr>"
  using assms by (simp_all add: ehdr32_of_def ehdr64_of_def Let_def elf_ident_take elf_conv at_native)

text \<open>The fields that the readers go on with.\<close>

lemma ehdr_used:
  assumes "valid_data bs" and "64 \<le> length bs"
  shows "e_phoff (ehdr32_of big bs) = ucast (at (file_big bs) bs 28 4 :: 32 word)"
    and "e_phnum (ehdr32_of big bs) = at (file_big bs) bs 44 2"
    and "e_phoff (ehdr64_of big bs) = at (file_big bs) bs 32 8"
    and "e_phnum (ehdr64_of big bs) = at (file_big bs) bs 56 2"
    and "e_type (ehdr32_of big bs) = at (file_big bs) bs 16 2"
    and "e_type (ehdr64_of big bs) = at (file_big bs) bs 16 2"
  using assms by (simp_all add: ehdr32_of_def ehdr64_of_def Let_def elf_ident_take elf_conv)

lemma ehdr_ident [simp]: "e_ident (ehdr32_of big bs) = take 16 bs" "e_ident (ehdr64_of big bs) = take 16 bs"
  by (simp_all add: ehdr32_of_def ehdr64_of_def Let_def)

section \<open>A file\<close>

text \<open>\<^verbatim>\<open>pread\<close> of a regular file: a negative offset is refused.\<close>

definition file_pread :: "byte list \<Rightarrow> nat \<Rightarrow> 64 word \<Rightarrow> errno + byte list" where
  "file_pread bs n off = (if 2 ^ 63 \<le> unat off then Inl EINVAL else Inr (take n (drop (unat off) bs)))"

definition file_fd :: "byte list \<Rightarrow> elf_fd" where
  "file_fd bs = \<lparr>f_num = 3, f_seek = None, f_read = (\<lambda>n. Inr (take n bs)), f_pread = file_pread bs\<rparr>"

lemma f_pread_file [simp]: "f_pread (file_fd bs) = file_pread bs"
  by (simp add: file_fd_def)

text \<open>The table of program headers, read in the order of the file.\<close>

definition wide :: "byte list \<Rightarrow> bool" where "wide bs \<longleftrightarrow> bs ! EI_CLASS = ELFCLASS64"

definition phsize :: "byte list \<Rightarrow> nat" where "phsize bs = (if wide bs then 56 else 32)"

definition phoff :: "byte list \<Rightarrow> 64 word" where
  "phoff bs = (if wide bs then at (file_big bs) bs 32 8 else ucast (at (file_big bs) bs 28 4 :: 32 word))"

definition phnum :: "byte list \<Rightarrow> nat" where
  "phnum bs = (if wide bs then unat (at (file_big bs) bs 56 2 :: 16 word) else unat (at (file_big bs) bs 44 2 :: 16 word))"

definition phdr_at :: "byte list \<Rightarrow> nat \<Rightarrow> phdr" where
  "phdr_at bs i =
     (if wide bs then phdr64_of else phdr32_of) (file_big bs) bs (drop (unat (phoff bs) + i * phsize bs) bs)"

definition phdrs :: "byte list \<Rightarrow> phdr list" where "phdrs bs = map (phdr_at bs) [0..<phnum bs]"

text \<open>A file with a header that the reader takes and a complete table.\<close>

definition elf_file :: "byte list \<Rightarrow> bool" where
  "elf_file bs \<longleftrightarrow> 64 \<le> length bs \<and> length bs < 2 ^ 63 \<and> take 4 bs = ELFMAG \<and> valid_data bs
     \<and> (bs ! EI_CLASS = ELFCLASS32 \<or> bs ! EI_CLASS = ELFCLASS64)
     \<and> unat (phoff bs) + phnum bs * phsize bs \<le> length bs"

lemma at_take [simp]: "off + n \<le> m \<Longrightarrow> at big (take m bs) off n = at big bs off n"
  by (simp add: at_def drop_take min_def)

lemma phdr_of_take [simp]:
  "phdr32_of big ident (take 32 bs) = phdr32_of big ident bs"
  "phdr64_of big ident (take 56 bs) = phdr64_of big ident bs"
  by (simp_all add: phdr32_of_def phdr64_of_def Let_def)

lemma phdr_of_ident [simp]:
  "phdr32_of big (take 16 ident) bs = phdr32_of big ident bs"
  "phdr64_of big (take 16 ident) bs = phdr64_of big ident bs"
  by (simp_all add: phdr32_of_def phdr64_of_def Let_def elf_ident_take)

lemma of_nat_mult_unat: "of_nat i * (56 :: 64 word) = of_nat (i * 56)" "of_nat i * (32 :: 64 word) = of_nat (i * 32)"
  by simp_all

lemma unat_off:
  assumes "unat (off :: 64 word) + k < 2 ^ 63"
  shows "unat (off + of_nat k) = unat off + k"
proof -
  have k: "unat (of_nat k :: 64 word) = k" using assms by (simp add: unat_of_nat)
  have "unat off + unat (of_nat k :: 64 word) < 2 ^ LENGTH(64)" using assms unfolding k by simp
  then have "unat (off + of_nat k) = unat off + unat (of_nat k :: 64 word)" by (simp only: unat_add_lem)
  then show ?thesis unfolding k .
qed

lemma pread_all_file:
  "unat off + n \<le> length bs \<Longrightarrow> length bs < 2 ^ 63 \<Longrightarrow>
    pread_all (file_pread bs) n off = Inr (take n (drop (unat off) bs))"
  by (simp add: pread_all_def file_pread_def)

text \<open>The reader sees the entries of the table.\<close>

lemma table_entry:
  assumes "elf_file bs" and "i < phnum bs"
  shows "unat (phoff bs) + i * phsize bs + phsize bs \<le> length bs"
    and "unat (phoff bs + of_nat (i * phsize bs)) = unat (phoff bs) + i * phsize bs"
proof -
  have "i * phsize bs + phsize bs \<le> phnum bs * phsize bs"
    using mult_le_mono1 [of "Suc i" "phnum bs" "phsize bs"] assms(2) by simp
  then show 1: "unat (phoff bs) + i * phsize bs + phsize bs \<le> length bs"
    using assms(1) unfolding elf_file_def by linarith
  with assms(1) have "unat (phoff bs) + i * phsize bs < 2 ^ 63" unfolding elf_file_def by linarith
  then show "unat (phoff bs + of_nat (i * phsize bs)) = unat (phoff bs) + i * phsize bs" by (rule unat_off)
qed

lemma phdr_file:
  assumes "elf_file bs" and "i < phnum bs"
  shows "wide bs \<Longrightarrow> elf64_phdr big (take 16 bs) (file_pread bs) (phoff bs + of_nat i * 56) = Inr (phdr_at bs i)"
    and "\<not> wide bs \<Longrightarrow> elf32_phdr big (take 16 bs) (file_pread bs) (phoff bs + of_nat i * 32) = Inr (phdr_at bs i)"
proof -
  note e = table_entry [OF assms]
  have v: "valid_data bs" "length bs < 2 ^ 63" using assms(1) by (simp_all add: elf_file_def)
  { assume w: "wide bs"
    have "pread_all (file_pread bs) 56 (phoff bs + of_nat (i * 56)) = Inr (take 56 (drop (unat (phoff bs) + i * 56) bs))"
      using e w v by (subst pread_all_file) (simp_all add: phsize_def del: of_nat_mult)
    then show "elf64_phdr big (take 16 bs) (file_pread bs) (phoff bs + of_nat i * 56) = Inr (phdr_at bs i)"
      using e w v by (simp add: elf64_phdr_def phdr_at_def phsize_def phdr64_host [of bs "drop (unat (phoff bs) + i * 56) bs" big]) }
  { assume w: "\<not> wide bs"
    have "pread_all (file_pread bs) 32 (phoff bs + of_nat (i * 32)) = Inr (take 32 (drop (unat (phoff bs) + i * 32) bs))"
      using e w v by (subst pread_all_file) (simp_all add: phsize_def del: of_nat_mult)
    then show "elf32_phdr big (take 16 bs) (file_pread bs) (phoff bs + of_nat i * 32) = Inr (phdr_at bs i)"
      using e w v by (simp add: elf32_phdr_def phdr_at_def phsize_def phdr32_host [of bs "drop (unat (phoff bs) + i * 32) bs" big]) }
qed

section \<open>The first segment of a kind\<close>

definition is_interp :: "phdr \<Rightarrow> bool" where "is_interp p \<longleftrightarrow> p_type p = PT_INTERP"

lemma interp_walk_find:
  "(\<And>i. i < n \<Longrightarrow> ph (off + of_nat i * sz) = Inr (f i)) \<Longrightarrow>
    interp_walk ph sz pread bufsiz n off =
      (case find is_interp (map f [0..<n]) of
         None \<Rightarrow> Inl ENOEXEC
       | Some p \<Rightarrow> if bufsiz < unat (p_filesz p) then Inl EIO
                  else pread_all pread (unat (p_filesz p)) (p_offset p))"
proof (induction n arbitrary: off f)
  case (Suc n)
  have 0: "ph off = Inr (f 0)" using Suc.prems [of 0] by simp
  have "ph ((off + sz) + of_nat i * sz) = Inr (f (Suc i))" if "i < n" for i
    using Suc.prems [of "Suc i"] that by (simp add: algebra_simps)
  from Suc.IH [OF this] show ?case
    by (simp add: 0 map_upt_Suc is_interp_def del: upt_Suc)
qed simp

lemma pt_walk_find:
  "(\<And>i. i < n \<Longrightarrow> ph (off + of_nat i * sz) = Ret (f i)) \<Longrightarrow>
    pt_walk ph sz len PT_INTERP (\<lambda>_ _. Inr 0) n off =
      (case find is_interp (map f [0..<n]) of
         None \<Rightarrow> Err ENOENT | Some p \<Rightarrow> if len < unat (p_offset p) then Err ERANGE else Ret 0)"
proof (induction n arbitrary: off f)
  case (Suc n)
  have 0: "ph off = Ret (f 0)" using Suc.prems [of 0] by simp
  have "ph ((off + sz) + of_nat i * sz) = Ret (f (Suc i))" if "i < n" for i
    using Suc.prems [of "Suc i"] that by (simp add: algebra_simps)
  from Suc.IH [OF this] show ?case
    by (simp add: 0 map_upt_Suc is_interp_def del: upt_Suc)
qed simp

lemma mapped_file:
  "unat off + n \<le> length bs \<Longrightarrow> length bs < 2 ^ 63 \<Longrightarrow>
    mapped bs (length bs) n off = Ret (take n (drop (unat off) bs))"
  using unat_off [of off n] by (simp add: mapped_def)

lemma phdr_mapped:
  assumes "elf_file bs" and "i < phnum bs"
  shows "wide bs \<Longrightarrow> elf64_program_header big bs (length bs) (take 16 bs) (phoff bs + of_nat i * 56) = Ret (phdr_at bs i)"
    and "\<not> wide bs \<Longrightarrow> elf32_program_header big bs (length bs) (take 16 bs) (phoff bs + of_nat i * 32) = Ret (phdr_at bs i)"
proof -
  note e = table_entry [OF assms]
  have v: "valid_data bs" "length bs < 2 ^ 63" using assms(1) by (simp_all add: elf_file_def)
  { assume w: "wide bs"
    have "mapped bs (length bs) 56 (phoff bs + of_nat (i * 56)) = Ret (take 56 (drop (unat (phoff bs) + i * 56) bs))"
      using e w v by (subst mapped_file) (simp_all add: phsize_def del: of_nat_mult)
    then show "elf64_program_header big bs (length bs) (take 16 bs) (phoff bs + of_nat i * 56) = Ret (phdr_at bs i)"
      using e w v by (simp add: elf64_program_header_def phdr_at_def phsize_def
          phdr64_host [of bs "drop (unat (phoff bs) + i * 56) bs" big]) }
  { assume w: "\<not> wide bs"
    have "mapped bs (length bs) 32 (phoff bs + of_nat (i * 32)) = Ret (take 32 (drop (unat (phoff bs) + i * 32) bs))"
      using e w v by (subst mapped_file) (simp_all add: phsize_def del: of_nat_mult)
    then show "elf32_program_header big bs (length bs) (take 16 bs) (phoff bs + of_nat i * 32) = Ret (phdr_at bs i)"
      using e w v by (simp add: elf32_program_header_def phdr_at_def phsize_def
          phdr32_host [of bs "drop (unat (phoff bs) + i * 32) bs" big]) }
qed

text \<open>The header of such a file is taken on both sides.\<close>

lemma class_ne [simp]: "ELFCLASS32 \<noteq> ELFCLASS64" "ELFCLASS64 \<noteq> ELFCLASS32"
  by (simp_all add: ELFCLASS32_def ELFCLASS64_def)

definition header :: "bool \<Rightarrow> byte list \<Rightarrow> ehdr" where
  "header big bs = (if wide bs then ehdr64_of big (take 64 bs) else ehdr32_of big (take 64 bs))"

lemma ehdr_of_take: "ehdr32_of big (take 64 bs) = ehdr32_of big bs" "ehdr64_of big (take 64 bs) = ehdr64_of big bs"
  by (simp_all add: ehdr32_of_def ehdr64_of_def Let_def)

lemma felf_header_file: "elf_file bs \<Longrightarrow> felf_header big (file_fd bs) = Inr (header big bs)"
  by (auto simp: felf_header_def file_fd_def elf_ehdr_def elf_file_def header_def wide_def EI_CLASS_def min_def)

lemma elf_header_file: "elf_file bs \<Longrightarrow> elf_header big bs (length bs) = Inr (header big bs)"
  by (auto simp: elf_header_def elf_file_def header_def wide_def ehdr_of_take)

lemma header_fields:
  assumes "elf_file bs"
  shows "e_ident (header big bs) = take 16 bs" "e_phoff (header big bs) = phoff bs"
    "unat (e_phnum (header big bs)) = phnum bs" "e_type (header big bs) = at (file_big bs) bs 16 2"
  using assms by (auto simp: header_def ehdr_of_take elf_file_def ehdr_used phoff_def phnum_def)

lemma interp_walk_file:
  assumes "elf_file bs"
  shows "interp_walk (if wide bs then elf64_phdr big (take 16 bs) (file_pread bs)
        else elf32_phdr big (take 16 bs) (file_pread bs))
      (if wide bs then 56 else 32) (file_pread bs) bufsiz (phnum bs) (phoff bs) =
      (case find is_interp (phdrs bs) of
         None \<Rightarrow> Inl ENOEXEC
       | Some p \<Rightarrow> if bufsiz < unat (p_filesz p) then Inl EIO
                  else pread_all (file_pread bs) (unat (p_filesz p)) (p_offset p))"
  unfolding phdrs_def by (rule interp_walk_find) (simp add: phdr_file [OF assms])

lemma pt_walk_file:
  assumes "elf_file bs"
  shows "pt_walk (if wide bs then elf64_program_header big bs (length bs) (take 16 bs)
        else elf32_program_header big bs (length bs) (take 16 bs))
      (if wide bs then 56 else 32) (length bs) PT_INTERP (\<lambda>_ _. Inr 0) (phnum bs) (phoff bs) =
      (case find is_interp (phdrs bs) of
         None \<Rightarrow> Err ENOENT | Some p \<Rightarrow> if length bs < unat (p_offset p) then Err ERANGE else Ret 0)"
  unfolding phdrs_def by (rule pt_walk_find) (simp add: phdr_mapped [OF assms])

lemma class_file:
  "elf_file bs \<Longrightarrow> take 16 bs ! EI_CLASS = (if wide bs then ELFCLASS64 else ELFCLASS32)"
  by (auto simp: elf_file_def wide_def)

lemma felf_interp_of_file:
  assumes "elf_file bs"
  shows "felf_interp big (file_fd bs) bufsiz =
      (case find is_interp (phdrs bs) of
         None \<Rightarrow> Inl ENOEXEC
       | Some p \<Rightarrow>
           let n = unat (p_filesz p); off = unat (p_offset p) in
           if bufsiz < n then Inl EIO
           else if 2 ^ 63 \<le> off then Inl EINVAL
           else if length bs - off < n then Inl EIO
           else Inr (take n (drop off bs)))"
proof -
  note h = felf_header_file [OF assms] header_fields [OF assms] class_file [OF assms]
  have "felf_interp big (file_fd bs) bufsiz =
      interp_walk (if wide bs then elf64_phdr big (take 16 bs) (file_pread bs)
          else elf32_phdr big (take 16 bs) (file_pread bs))
        (if wide bs then 56 else 32) (file_pread bs) bufsiz (phnum bs) (phoff bs)"
    by (cases "wide bs") (simp_all add: felf_interp_def h elf_interp32_def elf_interp64_def
        del: take_EI_DATA)
  then show ?thesis
    unfolding interp_walk_file [OF assms]
    by (auto simp: pread_all_def file_pread_def Let_def split: option.split)
qed

text \<open>
  C15: The interpreter of a program: on a host of either byte order, for a file of either class and byte
  order, \<^verbatim>\<open>__felf_interp\<close> returns the bytes of the first segment of type \<^verbatim>\<open>PT_INTERP\<close>
  of the table as the file's own byte order gives it, or the error of the case (none, too long for the
  buffer, outside of the file). For a file that has the whole of its table of program headers.
\<close>

theorem felf_interp_file:
  assumes "elf_file bs"
  shows "felf_interp big (file_fd bs) bufsiz =
      (case find is_interp (phdrs bs) of
         None \<Rightarrow> Inl ENOEXEC
       | Some p \<Rightarrow>
           let n = unat (p_filesz p); off = unat (p_offset p) in
           if bufsiz < n then Inl EIO
           else if 2 ^ 63 \<le> off then Inl EINVAL
           else if length bs - off < n then Inl EIO
           else Inr (take n (drop off bs)))"
  by (rule felf_interp_of_file [OF assms])

text \<open>A 64-bit little-endian file with one program header, for the segment \<open>/ld.so\<close>.\<close>

definition tiny :: "byte list" where
  "tiny = [0x7f, 0x45, 0x4c, 0x46, 2, 1, 1, 0, 0, 0, 0, 0, 0, 0, 0, 0, 3, 0, 62, 0, 1, 0, 0, 0,
     0, 0, 0, 0, 0, 0, 0, 0, 64, 0, 0, 0, 0, 0, 0, 0, 0, 0, 0, 0, 0, 0, 0, 0,
     0, 0, 0, 0, 64, 0, 56, 0, 1, 0, 0, 0, 0, 0, 0, 0,
     3, 0, 0, 0, 4, 0, 0, 0, 120, 0, 0, 0, 0, 0, 0, 0, 0, 0, 0, 0, 0, 0, 0, 0, 0, 0, 0, 0, 0, 0, 0, 0,
     7, 0, 0, 0, 0, 0, 0, 0, 7, 0, 0, 0, 0, 0, 0, 0, 1, 0, 0, 0, 0, 0, 0, 0,
     0x2f, 0x6c, 0x64, 0x2e, 0x73, 0x6f, 0]"

lemma tiny_bytes:
  "length tiny = 127" "take 4 tiny = ELFMAG" "tiny ! EI_DATA = 1" "tiny ! EI_CLASS = ELFCLASS64"
  by (simp_all add: tiny_def ELFMAG_def EI_DATA_def EI_CLASS_def ELFCLASS64_def)

lemma tiny_order: "\<not> file_big tiny" "wide tiny" "phsize tiny = 56"
  by (simp_all add: file_big_def wide_def phsize_def tiny_bytes)

lemma tiny_fields: "phoff tiny = 64" "phnum tiny = 1" "at False tiny 16 2 = (3 :: 16 word)"
  by (simp_all add: phoff_def phnum_def tiny_order at_def load_def) (simp_all add: tiny_def)

lemma tiny_file: "elf_file tiny"
  by (simp add: elf_file_def tiny_bytes tiny_order tiny_fields valid_data_def)

lemma tiny_phdrs: "find is_interp (phdrs tiny) = Some \<lparr>p_type = 3, p_flags = 4, p_offset = 120, p_vaddr = 0,
    p_paddr = 0, p_filesz = 7, p_memsz = 7, p_align = 1\<rparr>"
  by (simp add: phdrs_def tiny_order tiny_fields phdr_at_def phdr64_of_def Let_def elf_word_def elf_xword_def
      elf_swap_def tiny_bytes at_def load_def is_interp_def PT_INTERP_def) (simp add: tiny_def)

theorem felf_interp_file_witness: "felf_interp True (file_fd tiny) 4096 = Inr [0x2f, 0x6c, 0x64, 0x2e, 0x73, 0x6f, 0]"
  unfolding felf_interp_file [OF tiny_file] tiny_phdrs by (simp add: Let_def) (simp add: tiny_def)

text \<open>
  \<^verbatim>\<open>__elf_has_interp\<close> answers whether a program or shared object of either class and byte
  order has a segment of type \<^verbatim>\<open>PT_INTERP\<close>, on a host of either byte order; one that starts
  beyond the end of the file is an error.
\<close>

theorem elf_has_interp_file:
  assumes "elf_file bs" and "at (file_big bs) bs 16 2 \<in> {ET_EXEC, ET_DYN}"
  shows "elf_has_interp big (Inr (length bs)) (\<lambda>n. Inr (take n bs)) =
      (case find is_interp (phdrs bs) of
         None \<Rightarrow> Ret False
       | Some p \<Rightarrow> if length bs < unat (p_offset p) then Err ERANGE else Ret True)"
proof -
  note h = elf_header_file [OF assms(1)] header_fields [OF assms(1)] class_file [OF assms(1)]
  have "bs \<noteq> []" using assms(1) by (auto simp: elf_file_def)
  then have "elf_iterate_shared_object_for_pt big (Inr (length bs)) (\<lambda>n. Inr (take n bs)) PT_INTERP (\<lambda>_ _. Inr 0) =
      pt_walk (if wide bs then elf64_program_header big bs (length bs) (take 16 bs)
          else elf32_program_header big bs (length bs) (take 16 bs))
        (if wide bs then 56 else 32) (length bs) PT_INTERP (\<lambda>_ _. Inr 0) (phnum bs) (phoff bs)"
    using assms(2) by (cases "wide bs") (auto simp: elf_iterate_shared_object_for_pt_def h
        elf32_iterate_for_pt_def elf64_iterate_for_pt_def simp del: take_EI_DATA)
  then show ?thesis
    unfolding elf_has_interp_def pt_walk_file [OF assms(1)] by (auto split: option.split)
qed

theorem elf_has_interp_file_witness:
  "elf_has_interp True (Inr (length tiny)) (\<lambda>n. Inr (take n tiny)) = Ret True"
proof -
  have "at (file_big tiny) tiny 16 2 \<in> {ET_EXEC, ET_DYN}"
    by (simp add: tiny_order tiny_fields ET_DYN_def)
  from elf_has_interp_file [OF tiny_file this, of True] show ?thesis
    unfolding tiny_phdrs by (simp add: tiny_def)
qed

section \<open>Flaws\<close>

text \<open>
  The bound on a program header is checked on a sum that wraps: a 64-bit header whose table starts
  less than 56 bytes below the largest offset passes the check, and is read outside of the mapping.
\<close>

lemma elf_has_interp_wraps:
  assumes "64 \<le> length bs" and "take 4 bs = ELFMAG" and "wide bs" and "valid_data bs"
    and "at (file_big bs) bs 16 2 \<in> {ET_EXEC, ET_DYN}" and "0 < phnum bs"
    and "length bs < unat (phoff bs)" and "unat (phoff bs + 56) \<le> length bs"
  shows "elf_has_interp big (Inr (length bs)) (\<lambda>n. Inr (take n bs)) = Undef"
proof -
  have w: "bs ! EI_CLASS = ELFCLASS64" using assms(3) by (simp add: wide_def)
  have h: "elf_header big bs (length bs) = Inr (ehdr64_of big bs)"
    using assms(1,2) w by (simp add: elf_header_def)
  have f: "e_phoff (ehdr64_of big bs) = phoff bs" "unat (e_phnum (ehdr64_of big bs)) = phnum bs"
      "e_type (ehdr64_of big bs) = at (file_big bs) bs 16 2"
    using assms(1,3,4) by (simp_all add: ehdr_used phoff_def phnum_def)
  obtain n where n: "phnum bs = Suc n" using assms(6) by (cases "phnum bs") auto
  have "elf64_program_header big bs (length bs) (take 16 bs) (phoff bs) = Undef"
    using assms(7,8) by (simp add: elf64_program_header_def mapped_def)
  then have "elf64_iterate_for_pt big bs (length bs) (ehdr64_of big bs) PT_INTERP (\<lambda>_ _. Inr 0) = Undef"
    by (simp add: elf64_iterate_for_pt_def f n)
  moreover have "bs \<noteq> []" using assms(1) by auto
  ultimately show ?thesis
    using assms(5) by (auto simp: elf_has_interp_def elf_iterate_shared_object_for_pt_def h f w)
qed

text \<open>
  Only the first dynamic entry is converted: on a host of the other byte order, an entry behind it is
  found by the swapped tag.
\<close>

lemma dyn_table_first:
  assumes "d_tag (conv True c) \<noteq> tag" and "\<forall>c' \<in> set cs. d_tag (conv False c') \<noteq> tag"
  shows "dyn_loop pread tag off siz cb (dyn_table conv True (c # cs)) ret u = Inr (ret, u)"
proof -
  have "dyn_loop pread tag off siz cb ds ret u = Inr (ret, u)" if "\<forall>d \<in> set ds. d_tag d \<noteq> tag" for ds
    using that by (induction ds) auto
  then show ?thesis using assms by simp
qed

end
