(* ===== verification/Dso_Facts.thy ===== *)
theory Dso_Facts
  imports Dso_Search Elf_Facts Path_Res_Facts
begin

text \<open>
  What the search for shared objects guarantees: the list of libraries to preload is complete and
  its computation ends; where the search stops too early; and that opening what a library needs
  does not end on a cycle.
\<close>

section \<open>Lists of objects\<close>

definition objects :: "string \<Rightarrow> string list" where
  "objects buf = filter (\<lambda>t. t \<noteq> []) (split_at colon buf)"

lemma tokens_objects: "length buf \<le> PATH_MAX \<Longrightarrow> tokens colon buf = objects buf"
  by (simp add: tokens_def objects_def)

lemma objects_Nil [simp]: "objects [] = []"
  by (simp add: objects_def)

lemma objects_strncat:
  assumes "path_strncat buf (Some p) room = Inr buf'" and "p \<noteq> []" and "colon \<notin> set p"
  shows "objects buf' = objects buf @ [p]" and "length buf < length buf'" and "length buf < room \<Longrightarrow> length buf' < room"
  using assms by (auto simp: path_strncat_def objects_def split_at_append split_at_whole split: if_splits)

lemma length_objects: "t \<in> set (objects buf) \<Longrightarrow> length t \<le> length buf"
proof -
  have "t \<in> set (split_at c buf) \<Longrightarrow> length t \<le> length buf" for c
    by (induction buf arbitrary: t) (auto split: list.splits if_splits intro: le_SucI)
  then show "t \<in> set (objects buf) \<Longrightarrow> length t \<le> length buf" by (auto simp: objects_def)
qed

lemma iter_tokens_test:
  "fst (iter_tokens (\<lambda>p u. (if P p then 1 else 0, u)) ts u) = (if \<exists>t \<in> set ts. P t then 1 else (0 :: int))"
  by (induction ts) auto

lemma is_in_path_iff:
  assumes "length buf \<le> PATH_MAX" and "length p < PATH_MAX"
  shows "is_in_path p buf \<noteq> 0 \<longleftrightarrow> p \<in> set (objects buf)"
proof -
  have "strneq t p PATH_MAX \<longleftrightarrow> t = p" if "t \<in> set (objects buf)" for t
    using length_objects [OF that] assms by (simp add: strneq_def)
  then show ?thesis
    using assms(1) by (auto simp: is_in_path_def path_iterate_def strtok_def tokens_objects iter_tokens_test)
qed

text \<open>The macro \<^verbatim>\<open>__strlen\<close> caps the list: an object behind its first 4096 bytes is not seen.\<close>

lemma is_in_path_capped:
  "''/b'' \<in> set (objects (replicate PATH_MAX (CHR ''a'') @ colon # ''/b''))"
  "is_in_path ''/b'' (replicate PATH_MAX (CHR ''a'') @ colon # ''/b'') = 0"
proof -
  have n: "colon \<notin> set (replicate PATH_MAX (CHR ''a''))" by (simp add: colon_def)
  have m: "4096 \<le> PATH_MAX" "PATH_MAX \<noteq> 0" by (simp_all add: PATH_MAX_def)
  show "''/b'' \<in> set (objects (replicate PATH_MAX (CHR ''a'') @ colon # ''/b''))"
    by (simp add: objects_def split_at_append_sep [OF n]) (simp add: colon_def)
  have "\<not> strneq (replicate PATH_MAX (CHR ''a'')) ''/b'' PATH_MAX" 
    using m length_replicate [of PATH_MAX "CHR ''a''"] by (auto simp: strneq_def simp del: length_replicate)
  then show "is_in_path ''/b'' (replicate PATH_MAX (CHR ''a'') @ colon # ''/b'') = 0"
    using m by (simp add: is_in_path_def path_iterate_def strtok_def tokens_def split_at_whole [OF n])
qed

section \<open>The libraries to preload\<close>

text \<open>What an object stands for needing, and the objects that a name leads to.\<close>

definition leads_to :: "dso \<Rightarrow> dso_re \<Rightarrow> string option \<Rightarrow> string \<Rightarrow> string set" where
  "leads_to w re deflib t =
     {b. \<not> starts_with t slash \<and> w_access w t deflib PATH_MAX = Ret b \<and> is_lib re (basename b)}"

definition needs :: "dso \<Rightarrow> dso_re \<Rightarrow> string option \<Rightarrow> string \<Rightarrow> string set" where
  "needs w re deflib x =
     (case elf_needed w x of Inl _ \<Rightarrow> {} | Inr needed \<Rightarrow> (\<Union>t \<in> set (tokens colon needed). leads_to w re deflib t))"

text \<open>A search along the path that answers, with paths that can be listed.\<close>

definition good_access :: "dso \<Rightarrow> string option \<Rightarrow> bool" where
  "good_access w deflib \<longleftrightarrow>
     (\<forall>t. (\<exists>e. w_access w t deflib PATH_MAX = Err e)
        \<or> (\<exists>b. w_access w t deflib PATH_MAX = Ret b \<and> b \<noteq> [] \<and> colon \<notin> set b \<and> length b < PATH_MAX))"

text \<open>The list \<open>L'\<close> adds to \<open>L\<close> objects all of whose needs it has.\<close>

definition grows :: "(string \<Rightarrow> string set) \<Rightarrow> string list \<Rightarrow> string list \<Rightarrow> bool" where
  "grows T L L' \<longleftrightarrow>
     set L \<subseteq> set L' \<and> (distinct L \<longrightarrow> distinct L') \<and> (\<forall>x \<in> set L' - set L. T x \<subseteq> set L')"

lemma grows_refl [simp]: "grows T L L"
  by (simp add: grows_def)

lemma grows_trans: "grows T L M \<Longrightarrow> grows T M N \<Longrightarrow> grows T L N"
  unfolding grows_def by blast

lemma grows_snoc: "grows T (L @ [x]) M \<Longrightarrow> x \<notin> set L \<Longrightarrow> T x \<subseteq> set M \<Longrightarrow> grows T L M"
  unfolding grows_def by auto

text \<open>What a call that succeeds has done: the objects \<open>B\<close> and all that they need are listed.\<close>

definition listed ::
    "dso \<Rightarrow> dso_re \<Rightarrow> string option \<Rightarrow> nat \<Rightarrow> string \<times> errno \<Rightarrow> string \<times> errno \<Rightarrow> string set \<Rightarrow> bool" where
  "listed w re deflib room st st' B \<longleftrightarrow>
     grows (needs w re deflib) (objects (fst st)) (objects (fst st')) \<and> B \<subseteq> set (objects (fst st'))
     \<and> length (fst st) \<le> length (fst st') \<and> (length (fst st) < room \<longrightarrow> length (fst st') < room)"

lemma listed_refl [simp]: "listed w re deflib room st st {}"
  by (simp add: listed_def)

lemma listed_trans:
  assumes "listed w re deflib room st st1 A" and "listed w re deflib room st1 st2 B"
  shows "listed w re deflib room st st2 (A \<union> B)"
proof -
  have "grows (needs w re deflib) (objects (fst st)) (objects (fst st2))"
    using assms unfolding listed_def by (meson grows_trans)
  moreover have "set (objects (fst st1)) \<subseteq> set (objects (fst st2))"
    using assms(2) by (simp add: listed_def grows_def)
  ultimately show ?thesis using assms unfolding listed_def by auto
qed

text \<open>
  A recursive call that ends; when it succeeds the list has grown in its room, and if it is no longer
  than what the comparison sees, it has what the call was for.
\<close>

definition lister ::
    "dso \<Rightarrow> dso_re \<Rightarrow> string option \<Rightarrow> nat \<Rightarrow> nat \<Rightarrow> (string \<Rightarrow> string \<times> errno \<Rightarrow> (int \<times> string \<times> errno) run) \<Rightarrow> bool" where
  "lister w re deflib room k f \<longleftrightarrow>
     (\<forall>b st. b \<noteq> [] \<and> colon \<notin> set b \<and> length b < PATH_MAX \<and> length (fst st) < room \<and> room < length (fst st) + k \<longrightarrow>
        (\<exists>r st'. f b st = Ret (r, st') \<and> (r = 0 \<longrightarrow> length (fst st) \<le> length (fst st') \<and> length (fst st') < room \<and>
          (length (fst st') \<le> PATH_MAX \<and> b \<notin> set (objects (fst st)) \<longrightarrow> listed w re deflib room st st' {b}))))"

lemma callback_lists:
  assumes "lister w re deflib room k f" and "good_access w deflib"
    and "length (fst st) < room" and "room < length (fst st) + k"
  shows "\<exists>r st'. preload_needed_callback f w re deflib t st = Ret (r, st')
    \<and> (r = 0 \<longrightarrow> length (fst st) \<le> length (fst st') \<and> length (fst st') < room \<and>
        (length (fst st') \<le> PATH_MAX \<longrightarrow> listed w re deflib room st st' (leads_to w re deflib t)))"
proof (cases "\<exists>b. w_access w t deflib PATH_MAX = Ret b \<and> \<not> starts_with t slash \<and> is_lib re (basename b)")
  case False
  have "(\<exists>e. w_access w t deflib PATH_MAX = Err e) \<or> (\<exists>b. w_access w t deflib PATH_MAX = Ret b)"
    using assms(2) unfolding good_access_def by blast
  moreover have "leads_to w re deflib t = {}" using False by (auto simp: leads_to_def)
  ultimately show ?thesis using False assms(3) by (cases st) (auto simp: preload_needed_callback_def)
next
  case True
  then obtain b where b: "w_access w t deflib PATH_MAX = Ret b" "\<not> starts_with t slash" "is_lib re (basename b)"
    by blast
  have "(\<exists>e. w_access w t deflib PATH_MAX = Err e)
      \<or> (\<exists>b. w_access w t deflib PATH_MAX = Ret b \<and> b \<noteq> [] \<and> colon \<notin> set b \<and> length b < PATH_MAX)"
    using assms(2) unfolding good_access_def by blast
  then have g: "b \<noteq> []" "colon \<notin> set b" "length b < PATH_MAX" using b(1) by auto
  have l: "leads_to w re deflib t = {b}" using b by (auto simp: leads_to_def)
  have m: "is_in_path b (fst st) \<noteq> 0 \<longleftrightarrow> b \<in> set (objects (fst st))" if "length (fst st) \<le> PATH_MAX"
    using that g(3) by (rule is_in_path_iff)
  show ?thesis
  proof (cases "is_in_path b (fst st) = 0")
    case False
    have "listed w re deflib room st st {b}" if "length (fst st) \<le> PATH_MAX"
      using m [OF that] False by (simp add: listed_def)
    then show ?thesis using b False assms(3) by (auto simp: preload_needed_callback_def l)
  next
    case True
    obtain r st' where f: "f b st = Ret (r, st')" and f0: "r = 0 \<longrightarrow> length (fst st) \<le> length (fst st') \<and> length (fst st') < room \<and>
          (length (fst st') \<le> PATH_MAX \<and> b \<notin> set (objects (fst st)) \<longrightarrow> listed w re deflib room st st' {b})"
      using assms(1) [unfolded lister_def, rule_format, of b st] assms(3,4) g by blast
    moreover have "preload_needed_callback f w re deflib t st = f b st"
      using True b by (simp add: preload_needed_callback_def)
    moreover have "b \<notin> set (objects (fst st))" if "length (fst st) \<le> PATH_MAX" using m [OF that] True by simp
    ultimately show ?thesis unfolding l by (metis order_trans)
  qed
qed

lemma iter_lists:
  assumes "lister w re deflib room k f" and "good_access w deflib"
    and "length (fst st) < room" and "room < length (fst st) + k"
  shows "\<exists>r st'. iter_run (preload_needed_callback f w re deflib) ts st = Ret (r, st')
    \<and> (r = 0 \<longrightarrow> length (fst st) \<le> length (fst st') \<and> length (fst st') < room \<and>
        (length (fst st') \<le> PATH_MAX \<longrightarrow> listed w re deflib room st st' (\<Union>t \<in> set ts. leads_to w re deflib t)))"
  using assms(3,4)
proof (induction ts arbitrary: st)
  case (Cons t ts)
  obtain r st1 where c: "preload_needed_callback f w re deflib t st = Ret (r, st1)"
      "r = 0 \<longrightarrow> length (fst st) \<le> length (fst st1) \<and> length (fst st1) < room \<and>
        (length (fst st1) \<le> PATH_MAX \<longrightarrow> listed w re deflib room st st1 (leads_to w re deflib t))"
    using callback_lists [OF assms(1,2) Cons.prems] by blast
  show ?case
  proof (cases "r = 0")
    case False
    with c show ?thesis by simp
  next
    case True
    with c have st1: "length (fst st) \<le> length (fst st1)" "length (fst st1) < room" "room < length (fst st1) + k"
        "length (fst st1) \<le> PATH_MAX \<Longrightarrow> listed w re deflib room st st1 (leads_to w re deflib t)"
      using Cons.prems by auto
    from Cons.IH [OF st1(2,3)] obtain r2 st2 where
      it: "iter_run (preload_needed_callback f w re deflib) ts st1 = Ret (r2, st2)" and
      r2: "r2 = 0 \<longrightarrow> length (fst st1) \<le> length (fst st2) \<and> length (fst st2) < room \<and>
        (length (fst st2) \<le> PATH_MAX \<longrightarrow> listed w re deflib room st1 st2 (\<Union>t \<in> set ts. leads_to w re deflib t))" by blast
    have "listed w re deflib room st st2 (\<Union>t \<in> set (t # ts). leads_to w re deflib t)"
      if "r2 = 0" "length (fst st2) \<le> PATH_MAX"
      using listed_trans [OF st1(4), of st2 "\<Union>t \<in> set ts. leads_to w re deflib t"] r2 that by simp
    with c(1) True it r2 st1(1) show ?thesis by auto
  qed
qed simp

lemma preload_lister:
  assumes "good_access w deflib"
  shows "lister w re deflib room k (ldso_preload_needed k w re deflib room)"
proof (induction k)
  case 0
  then show ?case by (simp add: lister_def)
next
  case (Suc k)
  show ?case unfolding lister_def
  proof (intro allI impI, elim conjE)
    fix b and st :: "string \<times> errno"
    assume b: "b \<noteq> []" "colon \<notin> set b" "length b < PATH_MAX" and st: "length (fst st) < room"
        "room < length (fst st) + Suc k"
    show "\<exists>r st'. ldso_preload_needed (Suc k) w re deflib room b st = Ret (r, st') \<and>
        (r = 0 \<longrightarrow> length (fst st) \<le> length (fst st') \<and> length (fst st') < room \<and>
          (length (fst st') \<le> PATH_MAX \<and> b \<notin> set (objects (fst st)) \<longrightarrow> listed w re deflib room st st' {b}))"
    proof (cases "path_strncat (fst st) (Some b) room")
      case (Inr buf)
      note o = objects_strncat [OF Inr b(1,2)]
      show ?thesis
      proof (cases "elf_needed w b")
        case n: (Inr needed)
        have "length (fst (buf, snd st)) < room" "room < length (fst (buf, snd st)) + k" using o st by auto
        from iter_lists [OF Suc.IH assms this, of "tokens colon needed"] obtain r st' where
          it: "iter_run (preload_needed_callback (ldso_preload_needed k w re deflib room) w re deflib)
            (tokens colon needed) (buf, snd st) = Ret (r, st')" and
          li: "r = 0 \<longrightarrow> length buf \<le> length (fst st') \<and> length (fst st') < room \<and>
            (length (fst st') \<le> PATH_MAX \<longrightarrow> listed w re deflib room (buf, snd st) st' (needs w re deflib b))"
          by (auto simp: needs_def n)
        have "listed w re deflib room st st' {b}"
          if "r = 0" "length (fst st') \<le> PATH_MAX" "b \<notin> set (objects (fst st))"
        proof -
          have L: "listed w re deflib room (buf, snd st) st' (needs w re deflib b)" using li that by simp
          then have "grows (needs w re deflib) (objects (fst st)) (objects (fst st'))"
            using o(1) that(3) by (intro grows_snoc [of _ "objects (fst st)" b]) (auto simp: listed_def)
          then show ?thesis using L o st unfolding listed_def by (auto simp: grows_def)
        qed
        then show ?thesis using Inr n it li o(2) by (auto simp: path_iterate_run_def)
      qed (use Inr in simp)
    qed simp
  qed
qed

text \<open>
  C5: The list of libraries to preload is computed in bounded time and is complete: with as many levels
  of recursion as there is room for characters, \<^verbatim>\<open>__ldso_preload_executable\<close> answers, whatever the
  room. When it answers 0 and the list is no longer than \<^verbatim>\<open>PATH_MAX\<close> bytes (its callers have room for
  twice as many, and the test whether an object is listed sees the first \<^verbatim>\<open>PATH_MAX\<close> bytes only), the
  list has every library the program needs, and with a library it added every library that one needs; no
  object is listed twice when none was before.
\<close>

theorem preload_complete:
  assumes "good_access w deflib" and "length (fst st) < room" and "room < length (fst st) + k"
  shows "\<exists>r st'. ldso_preload_executable k w re deflib room path st = Ret (r, st')
    \<and> (r = 0 \<and> length (fst st') \<le> PATH_MAX \<longrightarrow>
         needs w re deflib path \<subseteq> set (objects (fst st'))
       \<and> set (objects (fst st)) \<subseteq> set (objects (fst st'))
       \<and> (\<forall>x \<in> set (objects (fst st')) - set (objects (fst st)). needs w re deflib x \<subseteq> set (objects (fst st')))
       \<and> (distinct (objects (fst st)) \<longrightarrow> distinct (objects (fst st'))))"
proof (cases "elf_needed w path")
  case (Inr needed)
  then have n: "needs w re deflib path = (\<Union>t \<in> set (tokens colon needed). leads_to w re deflib t)"
    by (simp add: needs_def)
  from iter_lists [OF preload_lister [OF assms(1)] assms, where re = re and ts = "tokens colon needed"]
  obtain r st' where
    it: "ldso_preload_executable k w re deflib room path st = Ret (r, st')" and
    li: "r = 0 \<and> length (fst st') \<le> PATH_MAX \<longrightarrow> listed w re deflib room st st' (needs w re deflib path)"
    by (auto simp: ldso_preload_executable_def path_iterate_run_def Inr n)
  show ?thesis using it li unfolding listed_def grows_def by blast
qed (simp add: ldso_preload_executable_def)

text \<open>A library that needs \<open>liba\<close>, on a system where every path leads to it.\<close>

definition lib_file :: "byte list" where
  "lib_file = [0x7f, 0x45, 0x4c, 0x46, 2, 1, 1, 0, 0, 0, 0, 0, 0, 0, 0, 0, 3, 0, 62, 0, 1, 0, 0, 0,
     0, 0, 0, 0, 0, 0, 0, 0, 64, 0, 0, 0, 0, 0, 0, 0, 120, 0, 0, 0, 0, 0, 0, 0,
     0, 0, 0, 0, 64, 0, 56, 0, 1, 0, 64, 0, 1, 0, 0, 0,
     2, 0, 0, 0, 4, 0, 0, 0, 184, 0, 0, 0, 0, 0, 0, 0, 0, 0, 0, 0, 0, 0, 0, 0, 0, 0, 0, 0, 0, 0, 0, 0,
     16, 0, 0, 0, 0, 0, 0, 0, 16, 0, 0, 0, 0, 0, 0, 0, 8, 0, 0, 0, 0, 0, 0, 0,
     0, 0, 0, 0, 3, 0, 0, 0, 0, 0, 0, 0, 0, 0, 0, 0, 0, 0, 0, 0, 0, 0, 0, 0, 200, 0, 0, 0, 0, 0, 0, 0,
     6, 0, 0, 0, 0, 0, 0, 0, 0, 0, 0, 0, 0, 0, 0, 0, 1, 0, 0, 0, 0, 0, 0, 0, 0, 0, 0, 0, 0, 0, 0, 0,
     1, 0, 0, 0, 0, 0, 0, 0, 1, 0, 0, 0, 0, 0, 0, 0,
     0, 0x6c, 0x69, 0x62, 0x61, 0]"

definition lib_hdr :: ehdr where
  "lib_hdr = \<lparr>e_ident = [0x7f, 0x45, 0x4c, 0x46, 2, 1, 1, 0, 0, 0, 0, 0, 0, 0, 0, 0], e_type = 3, e_machine = 62, e_version = 1, e_entry = 0, e_phoff = 64, e_shoff = 120, e_flags = 0, e_ehsize = 64, e_phentsize = 56, e_phnum = 1, e_shentsize = 56, e_shnum = 1, e_shstrndx = 0\<rparr>"

lemma lib_length: "length lib_file = 206" by (simp add: lib_file_def)

lemma lib_header: "elf_ehdr False (f_read (file_fd lib_file)) = Inr lib_hdr"
  by (simp add: elf_ehdr_def file_fd_def lib_length min_def)
    (simp add: lib_file_def ELFMAG_def EI_CLASS_def ELFCLASS32_def ELFCLASS64_def ehdr64_of_def Let_def elf_half_def elf_word_def elf_xword_def elf_swap_def EI_DATA_def at_def load_def lib_hdr_def)

lemma lib_at_64: "drop 64 lib_file = [2, 0, 0, 0, 4, 0, 0, 0, 184, 0, 0, 0, 0, 0, 0, 0, 0, 0, 0, 0, 0, 0, 0, 0, 0, 0, 0, 0, 0, 0, 0, 0,
     16, 0, 0, 0, 0, 0, 0, 0, 16, 0, 0, 0, 0, 0, 0, 0, 8, 0, 0, 0, 0, 0, 0, 0] @ drop 120 lib_file"
  by (simp add: lib_file_def)

lemma lib_at_120: "drop 120 lib_file = [0, 0, 0, 0, 3, 0, 0, 0, 0, 0, 0, 0, 0, 0, 0, 0, 0, 0, 0, 0, 0, 0, 0, 0, 200, 0, 0, 0, 0, 0, 0, 0,
     6, 0, 0, 0, 0, 0, 0, 0, 0, 0, 0, 0, 0, 0, 0, 0, 1, 0, 0, 0, 0, 0, 0, 0, 0, 0, 0, 0, 0, 0, 0, 0] @ drop 184 lib_file"
  by (simp add: lib_file_def)

lemma lib_at_184: "drop 184 lib_file = [1, 0, 0, 0, 0, 0, 0, 0, 1, 0, 0, 0, 0, 0, 0, 0,
     0, 0x6c, 0x69, 0x62, 0x61, 0]" "drop 201 lib_file = [ 0x6c, 0x69, 0x62, 0x61, 0]"
  by (simp_all add: lib_file_def)

lemma lib_section: "elf64_shdr False (e_ident lib_hdr) (file_pread lib_file) 120 = Inr \<lparr>sh_name = 0, sh_type = 3, sh_flags = 0, sh_addr = 0, sh_offset = 200, sh_size = 6, sh_link = 0, sh_info = 0, sh_addralign = 1, sh_entsize = 0\<rparr>"
  by (simp add: elf64_shdr_def pread_all_def file_pread_def lib_at_120 shdr64_of_def Let_def elf_word_def elf_xword_def elf_swap_def EI_DATA_def at_def load_def lib_hdr_def)

lemma lib_segment: "elf64_phdr False (e_ident lib_hdr) (file_pread lib_file) 64 = Inr \<lparr>p_type = 2, p_flags = 4, p_offset = 184, p_vaddr = 0, p_paddr = 0, p_filesz = 16, p_memsz = 16, p_align = 8\<rparr>"
  by (simp add: elf64_phdr_def pread_all_def file_pread_def lib_at_64 phdr64_of_def Let_def elf_word_def elf_xword_def elf_swap_def EI_DATA_def at_def load_def lib_hdr_def)

lemma lib_dynamic: "elf64_dyn False (e_ident lib_hdr) (file_pread lib_file) 16 184 = Inr [\<lparr>d_tag = 1, d_val = 1, d_data = [1, 0, 0, 0, 0, 0, 0, 0]\<rparr>]"
  by (simp add: elf64_dyn_def pread_all_def file_pread_def lib_at_184 chunks_def dyn64_of_def Let_def  elf_swap_def EI_DATA_def at_def load_def lib_hdr_def)

lemma lib_needed: "elf_iterate_shared_object False E_OK (file_fd lib_file) DT_NEEDED path_callback [] = (Inr 0, ''liba'')"
proof -
  have t: "path_callback [0x6c, 0x69, 0x62, 0x61, 0] [] = (0, ''liba'')" by code_simp
  have l: "unat (6 - 1 :: 64 word) = 5" by simp
  have c: "e_ident lib_hdr ! EI_CLASS = 2" "e_shoff lib_hdr = 120" "e_phoff lib_hdr = 64" "unat (e_phnum lib_hdr) = 1" "unat (e_shnum lib_hdr) = 1" "e_type lib_hdr = 3"
    by (simp_all add: lib_hdr_def EI_CLASS_def)
  have pr: "file_pread lib_file 5 201 = Inr [ 0x6c, 0x69, 0x62, 0x61, 0]"  by (simp add: file_pread_def lib_at_184)
  have s: "f_seek (file_fd lib_file) = None" by (simp add: file_fd_def)
  show ?thesis unfolding elf_iterate_shared_object_def s option.case lib_header sum.case
    by (simp add: c ET_EXEC_def ET_DYN_def ELFCLASS32_def ELFCLASS64_def elf_iterate_ehdr64_def lib_section SHT_STRTAB_def
       lib_segment PT_DYNAMIC_def lib_dynamic DT_NEEDED_def is_string_tag_def BUFSIZ_def pr t)
qed

definition sample_dso :: dso where
  "sample_dso = \<lparr>w_big = False, w_errno = E_OK, w_open = (\<lambda>_. Inr (file_fd lib_file)),
     w_access = (\<lambda>t _ _. if t = ''liba'' then Ret ''/liba'' else Err ENOENT), w_execfn = None\<rparr>"

definition sample_re :: dso_re where
  "sample_re = \<lparr>re_ldso = None, re_lib = Some (\<lambda>_. 0)\<rparr>"

lemma sample_needed: "elf_needed sample_dso x = Inr ''liba''"
  by (simp add: elf_needed_def felf_needed_def felf_path_def sample_dso_def lib_needed)

lemma sample_preload:
  "ldso_preload_executable (Suc (Suc k)) sample_dso sample_re d 8 x ([], E_OK) = Ret (0, ''/liba'', E_OK)"
proof -
  have t: "tokens colon ''liba'' = [''liba'']" "starts_with ''liba'' slash = False"
      "path_strncat [] (Some ''/liba'') 8 = Inr ''/liba''" "is_in_path ''/liba'' [] = 0"
      "is_in_path ''/liba'' ''/liba'' = 1"
    by code_simp+
  have a: "w_access sample_dso ''liba'' d PATH_MAX = Ret ''/liba''" "is_lib sample_re n" for n
    by (simp_all add: sample_dso_def sample_re_def is_lib_def)
  show ?thesis
    by (simp add: ldso_preload_executable_def sample_needed path_iterate_run_def t preload_needed_callback_def a slash_def)
qed

theorem preload_complete_witness:
  "needs sample_dso sample_re (Some ''/lib'') ''/liba'' \<subseteq> {''/liba''}"
proof -
  have g: "good_access sample_dso (Some ''/lib'')"
    by (auto simp: good_access_def sample_dso_def colon_def slash_def PATH_MAX_def)
  have o: "objects ''/liba'' = [''/liba'']" by code_simp
  have l: "length (fst ([], E_OK)) < (8 :: nat)" "(8 :: nat) < length (fst ([], E_OK)) + Suc (Suc 7)" by simp_all
  from preload_complete [OF g l, of sample_re "''/p''"] show ?thesis
    unfolding sample_preload by (auto simp: o PATH_MAX_def)
qed

section \<open>Where the search stops\<close>

text \<open>
  The search for a library gives up where \<^verbatim>\<open>ld.so\<close> goes on: when the last directory of
  \<^verbatim>\<open>LD_LIBRARY_PATH\<close> is no directory, and the library is in none of the others, the search ends
  with \<^verbatim>\<open>ENOTDIR\<close> although the default path has the library.
\<close>

theorem ldso_access_enotdir:
  assumes "so \<noteq> []" and "slash \<notin> set so" and "length so \<le> NAME_MAX" and "length llp < PATH_MAX"
    and "\<forall>d \<in> set (butlast (split_at colon llp)). access (candidate d so) = Some ENOENT"
    and "access (candidate (last (split_at colon llp)) so) = Some ENOTDIR"
  shows "ldso_access (\<lambda>p. path_access access h lib so p PATH_MAX) cached False so None None (Some llp) None
      (Some deflib) 0 PATH_MAX = Err ENOTDIR"
proof -
  have short: "length d \<le> length llp" if "d \<in> set (split_at colon llp)" for d
    using that by (induction llp arbitrary: d) (auto split: list.splits if_splits intro: le_SucI)
  have s: "search access l so ds False e = Inl ENOTDIR"
    if "ds \<noteq> []" "\<forall>d \<in> set ds. length d < l" "\<forall>d \<in> set (butlast ds). access (candidate d so) = Some ENOENT"
      "access (candidate (last ds) so) = Some ENOTDIR" for l ds e
    using that
  proof (induction ds arbitrary: e)
    case (Cons d ds)
    then show ?case by (cases "ds = []") auto
  qed simp
  have k: "strnlen so (NAME_MAX + 1) \<le> NAME_MAX" "strnlen llp (PATH_MAX - 1) = length llp"
    using assms(3,4) by (simp_all add: strnlen_def)
  have "search access (Suc (length llp)) so (split_at colon llp) False ENOENT = Inl ENOTDIR"
    using assms(5,6) by (intro s) (auto simp: less_Suc_eq_le short)
  then have "search_path access so (Some llp) = Inl ENOTDIR"
    using assms(1) k by (simp add: search_path_def)
  then have "path_access access h lib so (Some llp) PATH_MAX = Err ENOTDIR" by (simp add: path_access_def)
  moreover have "path_access access h lib so None PATH_MAX = Err ENOENT"
    using assms(1) by (simp add: path_access_def search_path_def)
  ultimately show ?thesis using assms(2) by (simp add: ldso_access_def)
qed

theorem ldso_access_enotdir_witness:
  "ldso_access (\<lambda>p. path_access (\<lambda>q. if q = ''/f/liba'' then Some ENOTDIR else None) bare_host (chroot_lib ''/r'') ''liba'' p PATH_MAX)
     (Err ENOENT) False ''liba'' None None (Some ''/f'') None (Some ''/lib'') 0 PATH_MAX = Err ENOTDIR"
  by (rule ldso_access_enotdir)
    (simp_all add: NAME_MAX_def PATH_MAX_def colon_def slash_def candidate_def)

section \<open>Cycles\<close>

text \<open>
  Opening what a library needs does not end on a cycle: when each of some libraries can be read, is
  not open yet, and needs as its first library one of them, no number of levels is enough. The
  library list to preload (C34) guards against that; this recursion opens an object after its needs
  only.
\<close>

theorem ld_open_needed_cycle:
  assumes "x \<in> C"
    and "\<forall>y \<in> C. \<exists>f tmp c needed t ts z. w_open w y = Inr f \<and> d_path l f = Ret tmp \<and> d_opened l d tmp = 0
           \<and> felf_so_context w env f PATH_MAX = Ret c \<and> felf_needed w f = Inr needed
           \<and> tokens colon needed = t # ts \<and> search_needed w cache env c t = Ret z \<and> z \<in> C"
  shows "ld_open_needed k w cache env l x d = Diverge"
  using assms(1)
proof (induction k arbitrary: x)
  case (Suc k)
  then obtain f tmp c needed t ts z where "w_open w x = Inr f" "d_path l f = Ret tmp" "d_opened l d tmp = 0"
      "felf_so_context w env f PATH_MAX = Ret c" "felf_needed w f = Inr needed" "tokens colon needed = t # ts"
      "search_needed w cache env c t = Ret z" "z \<in> C"
    using assms(2) by metis
  with Suc.IH [of z] show ?case by (simp add: path_iterate_run_def ld_open_needed_callback_def)
qed simp

text \<open>A library that needs itself.\<close>

lemma lib_other:
  assumes "tag \<noteq> 1"
  shows "elf_iterate_shared_object False E_OK (file_fd lib_file) tag cb u = (Inr 0, u)"
proof -
  have c: "e_ident lib_hdr ! EI_CLASS = 2" "e_shoff lib_hdr = 120" "e_phoff lib_hdr = 64"
      "unat (e_phnum lib_hdr) = 1" "unat (e_shnum lib_hdr) = 1" "e_type lib_hdr = 3"
    by (simp_all add: lib_hdr_def EI_CLASS_def)
  have s: "f_seek (file_fd lib_file) = None" by (simp add: file_fd_def)
  show ?thesis unfolding elf_iterate_shared_object_def s option.case lib_header sum.case
    using assms by (simp add: c ET_EXEC_def ET_DYN_def ELFCLASS32_def ELFCLASS64_def elf_iterate_ehdr64_def
        lib_section SHT_STRTAB_def lib_segment PT_DYNAMIC_def lib_dynamic)
qed

lemma lib_no_interp: "felf_interp False (file_fd lib_file) n = Inl ENOEXEC"
proof -
  have c: "e_ident lib_hdr ! EI_CLASS = 2" "e_phoff lib_hdr = 64" "unat (e_phnum lib_hdr) = 1"
    by (simp_all add: lib_hdr_def EI_CLASS_def)
  have "felf_header False (file_fd lib_file) = Inr lib_hdr"
    unfolding felf_header_def lib_header by (simp add: file_fd_def)
  then show ?thesis
    by (simp add: felf_interp_def c ELFCLASS32_def ELFCLASS64_def elf_interp64_def lib_segment PT_INTERP_def)
qed

definition cyclic_dso :: dso where
  "cyclic_dso = sample_dso\<lparr>w_open := (\<lambda>p. Inr (file_fd (if p = ''/x'' then tiny else lib_file))), w_execfn := Some ''/x''\<rparr>"

definition sample_linker :: "unit linker" where
  "sample_linker = \<lparr>d_path = (\<lambda>_. Ret ''/liba''), d_opened = (\<lambda>_ _. 0), d_open = (\<lambda>_ d. (True, d))\<rparr>"

lemma cyclic_deflib: "\<exists>d. felf_deflib cyclic_dso None (file_fd lib_file) n = Ret d"
proof -
  have w: "w_big cyclic_dso = False" "w_execfn cyclic_dso = Some ''/x''" "w_open cyclic_dso ''/x'' = Inr (file_fd tiny)"
    by (simp_all add: cyclic_dso_def sample_dso_def)
  have h: "felf_header False (file_fd lib_file) = Inr lib_hdr"
    unfolding felf_header_def lib_header by (simp add: file_fd_def)
  have "felf_needed cyclic_dso (file_fd lib_file) = Inr ''liba''"
    by (simp add: felf_needed_def felf_path_def cyclic_dso_def sample_dso_def lib_needed)
  moreover have "fst (path_iterate (Some ''liba'') (\<lambda>tok u. (if strleq tok ''libc.so.6'' then 1 else 0, u)) ()) = (0 :: int)"
    by code_simp
  ultimately have g: "getld_linux_so cyclic_dso (file_fd lib_file) = Err ENOENT"
    by (simp add: getld_linux_so_def has_needed_def)
  have "felf_interp False (file_fd tiny) NAME_MAX = Inr [0x2f, 0x6c, 0x64, 0x2e, 0x73, 0x6f, 0]"
    unfolding felf_interp_of_file [OF tiny_file] tiny_phdrs
    by (simp add: Let_def NAME_MAX_def) (simp add: tiny_def)
  moreover have "c_string [0x2f, 0x6c, 0x64, 0x2e, 0x73, 0x6f, 0] = ''/ld.so''" "ld_ldso_abi ''/ld.so'' = Inr ([], -1)"
    by code_simp+
  moreover have "getdeflib None lib_hdr [] (-1) = Inr ''/lib:/usr/local/lib:/usr/lib''"
    unfolding lib_hdr_def by code_simp
  ultimately show ?thesis
    by (simp add: felf_deflib_def w h lib_no_interp or_else_def g elf_interp_def)
qed

lemma cyclic_context: "\<exists>c. felf_so_context cyclic_dso None (file_fd lib_file) PATH_MAX = Ret c"
proof -
  have "felf_rpath cyclic_dso (file_fd lib_file) = Inr []" "felf_runpath cyclic_dso (file_fd lib_file) = Inr []"
      "felf_flags_1 cyclic_dso (file_fd lib_file) = Inr 0"
    by (simp_all add: felf_rpath_def felf_runpath_def felf_path_def felf_flags_1_def cyclic_dso_def sample_dso_def
        lib_other DT_RPATH_def DT_RUNPATH_def DT_FLAGS_1_def)
  moreover have "f_num (file_fd lib_file) = 3" by (simp add: file_fd_def)
  moreover obtain D where "\<And>n. felf_deflib cyclic_dso None (file_fd lib_file) n = Ret (D n)"
    using cyclic_deflib by metis
  ultimately show ?thesis by (simp add: felf_so_context_def Let_def)
qed

theorem ld_open_needed_cycle_witness:
  "ld_open_needed 1000 cyclic_dso (\<lambda>_ _. Err ENOENT) None sample_linker ''/liba'' () = Diverge"
proof (rule ld_open_needed_cycle)
  show "''/liba'' \<in> {''/liba''}" by simp
  have t: "tokens colon ''liba'' = ''liba'' # []" "slash \<notin> set ''liba''" by code_simp+
  obtain c where c: "felf_so_context cyclic_dso None (file_fd lib_file) PATH_MAX = Ret c"
      using cyclic_context by blast
  have n: "felf_needed cyclic_dso (file_fd lib_file) = Inr ''liba''"
    by (simp add: felf_needed_def felf_path_def cyclic_dso_def sample_dso_def lib_needed)
  have a: "w_access cyclic_dso ''liba'' p n = Ret ''/liba''" for p n
    by (simp add: cyclic_dso_def sample_dso_def)
  have "search_needed cyclic_dso (\<lambda>_ _. Err ENOENT) None c ''liba'' = Ret ''/liba''"
    using t(2) by (simp add: search_needed_def ldso_access_def a)
  moreover have "w_open cyclic_dso ''/liba'' = Inr (file_fd lib_file)" by (simp add: cyclic_dso_def)
  moreover have "d_path sample_linker (file_fd lib_file) = Ret ''/liba''" "d_opened sample_linker () ''/liba'' = 0"
    by (simp_all add: sample_linker_def)
  ultimately show "\<forall>y \<in> {''/liba''}. \<exists>f tmp c needed t ts z. w_open cyclic_dso y = Inr f
      \<and> d_path sample_linker f = Ret tmp \<and> d_opened sample_linker () tmp = 0
      \<and> felf_so_context cyclic_dso None f PATH_MAX = Ret c \<and> felf_needed cyclic_dso f = Inr needed
      \<and> tokens colon needed = t # ts \<and> search_needed cyclic_dso (\<lambda>_ _. Err ENOENT) None c t = Ret z \<and> z \<in> {''/liba''}"
    using c n t(1) by blast
qed

end
