(* ===== verification/Dl.thy ===== *)
theory Dl
  imports Dso_Search Attrs
begin

text \<open>
  Opening shared objects at run time (\<^verbatim>\<open>dlopen.c\<close>, \<^verbatim>\<open>dlmopen.c\<close>): in a chroot the object
  is looked for by the library itself, and what it needs is opened first. \<open>k\<close> bounds the recursion
  of the needs; a handle is \<open>None\<close> for \<^verbatim>\<open>NULL\<close>.
\<close>

definition handle_of :: "(errno + 'p) \<times> 'd \<Rightarrow> 'p option \<times> 'd" where
  "handle_of rd = (case fst rd of Inl e \<Rightarrow> None | Inr p \<Rightarrow> Some p, snd rd)"

text \<open>The path of the object: resolved when it has a slash, searched for otherwise.\<close>

definition dlopen_path ::
    "dso \<Rightarrow> (string \<Rightarrow> string option \<Rightarrow> nat \<Rightarrow> string run) \<Rightarrow> (string \<Rightarrow> nat \<Rightarrow> string run) \<Rightarrow> host \<Rightarrow> lib \<Rightarrow> errno
     \<Rightarrow> string \<Rightarrow> string run" where
  "dlopen_path so acc cache h lib e path =
     (if slash \<in> set path then path_resolution h lib e AT_FDCWD (Some path) PATH_MAX 0
      else dl_access so (l_env lib) acc cache path PATH_MAX)"

definition dlopen_with where
  "dlopen_with k next so l acc cache h lib e path d =
     (case path of None \<Rightarrow> Ret (handle_of (next None d))
      | Some p \<Rightarrow>
          if \<not> inchroot (l_env lib) then Ret (handle_of (next (Some p) d))
          else (case dlopen_path so acc cache h lib e p of
              Err x \<Rightarrow> Ret (None, d)
            | Undef \<Rightarrow> Undef
            | Diverge \<Rightarrow> Diverge
            | Ret buf \<Rightarrow>
                run_bind (ld_open_needed k so cache (l_env lib) l buf d) (\<lambda>(r, d').
                  if r = -1 then Ret (None, d') else Ret (handle_of (next (Some buf) d')))))"

definition dlopen where
  "dlopen k dl so l acc cache h lib e path (dflags :: int) d =
     dlopen_with k (\<lambda>p. next_call dl (p, dflags)) so l acc cache h lib e path d"

definition dlmopen where
  "dlmopen k dl so l acc cache h lib e (lmid :: int) path (dflags :: int) d =
     dlopen_with k (\<lambda>p. next_call dl (lmid, p, dflags)) so l acc cache h lib e path d"

end
