(* ===== verification/Exec_Facts.thy ===== *)
theory Exec_Facts
  imports Exec_Path Path_Res_Facts
begin

text \<open>
  Running programs: the words of a script line, the argument vector that is built for the loader, what
  reaches the program of the arguments it was given, and what \<^verbatim>\<open>exec.sh\<close> finds in its environment.
\<close>

section \<open>The words of a script line\<close>

abbreviation (input) "newline \<equiv> CHR 0x0A"

lemma takeWhile_line: "takeWhile in_word (takeWhile (\<lambda>c. c \<noteq> newline) s) = takeWhile in_word s"
  by (induction s) (auto simp: in_word_def)

lemma dropWhile_blank_line:
  "dropWhile is_blank (takeWhile (\<lambda>c. c \<noteq> newline) s) = takeWhile (\<lambda>c. c \<noteq> newline) (dropWhile is_blank s)"
  by (induction s) (auto simp: is_blank_def)

lemma dropWhile_word_line:
  "dropWhile in_word (takeWhile (\<lambda>c. c \<noteq> newline) s) = takeWhile (\<lambda>c. c \<noteq> newline) (dropWhile in_word s)"
  by (induction s) (auto simp: in_word_def)

lemmas line_simps = takeWhile_line dropWhile_blank_line dropWhile_word_line

lemma no_blank_no_option:
  assumes "\<not> (r \<noteq> [] \<and> is_blank (hd r))" and "r = dropWhile in_word s"
  shows "takeWhile in_word (dropWhile is_blank r) = []"
proof (cases r)
  case (Cons c t)
  then have "\<not> in_word c" using assms(2) by (metis dropWhile_eq_Cons_conv)
  moreover have "\<not> is_blank c" using assms(1) Cons by simp
  ultimately show ?thesis using Cons by simp
qed simp

lemma script_line_words:
  assumes "NUL \<notin> set t" and "script_line t = (siz, mem)"
  shows "line_words t = c_text mem #
    (if length (c_text mem) < siz \<and> c_text (drop (length (c_text mem) + 1) mem) \<noteq> []
     then [c_text (drop (length (c_text mem) + 1) mem)] else [])"
    and "siz = 0 \<longrightarrow> c_text mem = []"
proof -
  let ?s = "dropWhile is_blank t"
  let ?r = "dropWhile in_word ?s"
  let ?w = "takeWhile in_word ?s"
  let ?o = "takeWhile in_word (dropWhile is_blank ?r)"
  have n: "NUL \<notin> set ?w" "NUL \<notin> set ?o"
    by (simp_all add: assms(1) NUL_notin_takeWhile NUL_notin_dropWhile)
  have l: "line_words t = ?w # (if ?o = [] then [] else [?o])"
    by (simp add: line_words_def line_simps Let_def)
  have c: "c_text (?o @ [NUL]) = ?o" "c_text (?w @ [NUL]) = ?w" "c_text (?w @ NUL # x) = ?w" for x
    using n by simp_all
  show "line_words t = c_text mem #
    (if length (c_text mem) < siz \<and> c_text (drop (length (c_text mem) + 1) mem) \<noteq> []
     then [c_text (drop (length (c_text mem) + 1) mem)] else [])"
  proof (cases "?r \<noteq> [] \<and> is_blank (hd ?r)")
    case True
    then have "siz = length ?w + 1 + length ?o" "mem = ?w @ NUL # ?o @ [NUL]"
      using assms(2) by (simp_all add: script_line_def Let_def)
    then show ?thesis by (simp add: l c)
  next
    case False
    then have "siz = length ?w" "mem = ?w @ [NUL]"
      using assms(2) by (auto simp: script_line_def Let_def)
    moreover have "?o = []" by (rule no_blank_no_option [OF False refl])
    ultimately show ?thesis by (simp add: l c)
  qed
  show "siz = 0 \<longrightarrow> c_text mem = []"
    using assms(2) c by (auto simp: script_line_def Let_def split: if_splits)
qed

lemma line_words_split:
  assumes "takeWhile (\<lambda>c. c \<noteq> newline) s = b0 @ interp @ b1 @ opt @ rest"
    and "list_all is_blank b0" and "list_all is_blank b1" and "list_all in_word interp" and "list_all in_word opt"
    and "interp \<noteq> []" and "b1 = [] \<longrightarrow> opt = [] \<and> rest = []" and "rest = [] \<or> is_blank (hd rest)"
    and "opt = [] \<longrightarrow> rest = []"
  shows "line_words s = interp # (if opt = [] then [] else [opt])"
proof -
  have wb: "\<not> (in_word c \<and> is_blank c)" for c by (simp add: in_word_def)
  have d0: "dropWhile is_blank (b0 @ interp @ x) = interp @ x" for x
    using assms(2,4,6) wb by (cases interp) (auto simp: dropWhile_append2 list_all_iff)
  have t1: "takeWhile in_word (interp @ b1 @ opt @ rest) = interp" "dropWhile in_word (interp @ b1 @ opt @ rest) = b1 @ opt @ rest"
    using assms(3,4,7) wb
    by (cases b1; auto simp: takeWhile_append2 dropWhile_append2 list_all_iff)+
  have d2: "dropWhile is_blank (b1 @ opt @ rest) = opt @ rest"
    using assms(3,5,9) wb by (cases opt) (auto simp: dropWhile_append2 list_all_iff)
  have t3: "takeWhile in_word (opt @ rest) = opt"
    using assms(5,8) wb by (cases rest) (auto simp: takeWhile_append2 list_all_iff)
  show ?thesis unfolding line_words_def Let_def assms(1) by (simp add: d0 t1 d2 t3)
qed

lemma interpreter_script_line:
  assumes "opn path = Inr f" and "p_size f = Inr n" and "0 < n" and "off < bufsiz"
    and "p_read f (bufsiz - off - 1) = Inr (''#!'' @ t)" and "hd (line_words (c_text t)) \<noteq> []"
  shows "interpreter_script opn e path bufsiz off = Ret (line_words (c_text t) @ [path])"
proof -
  obtain siz mem where s: "script_line (c_text t) = (siz, mem)" by fastforce
  note w = script_line_words [OF NUL_notin_c_text s]
  have "interpreter_script_hashbang opn path bufsiz off = Ret (siz, mem)"
    using assms(1-5) by (simp add: interpreter_script_hashbang_def s)
  moreover have "siz \<noteq> 0" using w(1,2) assms(6) by auto
  ultimately show ?thesis by (simp add: interpreter_script_def w(1) Let_def)
qed

text \<open>
  C34: The words of an interpreter script: the interpreter, the first word of what follows it on the first
  line, if any, and then the path. Blanks around the words, the other words of the line and the other lines
  do not matter: where Linux hands on the whole rest of the line as one argument, as the comment of
  \<^verbatim>\<open>interpreter-script.c\<close> has it, the words behind the first are lost. The program is not
  empty, the text is what was read of it, and the line has an interpreter.
\<close>

theorem interpreter_script_words:
  assumes "opn path = Inr f" and "p_size f = Inr n" and "0 < n" and "off < bufsiz"
    and "p_read f (bufsiz - off - 1) = Inr (''#!'' @ t)"
    and "takeWhile (\<lambda>c. c \<noteq> newline) (c_text t) = b0 @ interp @ b1 @ opt @ rest"
    and "list_all is_blank b0" and "list_all is_blank b1" and "list_all in_word interp" and "list_all in_word opt"
    and "interp \<noteq> []" and "b1 = [] \<longrightarrow> opt = [] \<and> rest = []" and "rest = [] \<or> is_blank (hd rest)"
    and "opt = [] \<longrightarrow> rest = []"
  shows "interpreter_script opn e path bufsiz off = Ret (interp # (if opt = [] then [path] else [opt, path]))"
proof -
  have w: "line_words (c_text t) = interp # (if opt = [] then [] else [opt])"
    by (rule line_words_split [OF assms(6-10) assms(11-14)])
  then have "hd (line_words (c_text t)) \<noteq> []" using assms(11) by simp
  with assms(1-5) have "interpreter_script opn e path bufsiz off = Ret (line_words (c_text t) @ [path])"
    by (rule interpreter_script_line)
  then show ?thesis by (simp add: w)
qed

theorem interpreter_script_words_witness:
  "interpreter_script (\<lambda>_. Inr \<lparr>p_size = Inr 20, p_read = (\<lambda>n. Inr (take n (''#! /bin/sh  -e x'' @ newline # ''ls'')))\<rparr>)
     E_OK ''/s'' 4096 3 = Ret [''/bin/sh'', ''-e'', ''/s'']"
proof -
  have "takeWhile (\<lambda>c. c \<noteq> newline) (c_text ('' /bin/sh  -e x'' @ newline # ''ls'')) = '' '' @ ''/bin/sh'' @ ''  '' @ ''-e'' @ '' x''"
      "list_all is_blank '' ''" "list_all is_blank ''  ''" "list_all in_word ''/bin/sh''" "list_all in_word ''-e''"
      "is_blank (hd '' x'')" by code_simp+
  then show ?thesis
    using interpreter_script_words [of "\<lambda>_. Inr \<lparr>p_size = Inr 20,
        p_read = (\<lambda>n. Inr (take n (''#! /bin/sh  -e x'' @ newline # ''ls'')))\<rparr>" "''/s''" _ 20 3 4096
        "'' /bin/sh  -e x'' @ newline # ''ls''" "'' ''" "''/bin/sh''" "''  ''" "''-e''" "'' x''" E_OK] by simp
qed

section \<open>The argument vector\<close>

lemma shift_args_nth:
  assumes "n + k < length a"
  shows "\<exists>b. shift_args k n a = Ret b \<and> length b = length a \<and> (\<forall>j > n + k. b ! j = a ! j)
    \<and> (\<forall>i \<in> {1..n}. b ! (i + k) = a ! i)"
  using assms
proof (induction n arbitrary: a)
  case (Suc n)
  let ?a = "a[Suc n + k := a ! Suc n]"
  obtain b where b: "shift_args k n ?a = Ret b" "length b = length ?a" "\<forall>j > n + k. b ! j = ?a ! j"
      "\<forall>i \<in> {1..n}. b ! (i + k) = ?a ! i"
    using Suc.IH [of ?a] Suc.prems by auto
  have "b ! (i + k) = a ! i" if i: "i \<in> {1..Suc n}" for i
  proof (cases "i = Suc n")
    case True
    then show ?thesis using b(3) Suc.prems by simp
  next
    case False
    then show ?thesis using b(4) i by (cases "k = 0") (auto simp: nth_list_update)
  qed
  then show ?case using b Suc.prems by auto
qed simp

lemma put_args_eq:
  "i + length ss \<le> length a \<Longrightarrow> put_args i ss a = Ret (take i a @ ss @ drop (i + length ss) a)"
proof (induction ss arbitrary: i a)
  case (Cons s ss)
  then have "put_args (Suc i) ss (a[i := s]) = Ret (take (Suc i) (a[i := s]) @ ss @ drop (Suc i + length ss) a)"
    by simp
  moreover have "take (Suc i) (a[i := s]) = take i a @ [s]"
    using Cons.prems by (simp add: take_Suc_conv_app_nth)
  ultimately show ?case using Cons.prems by simp
qed simp

lemma count_args_eq: "count_args (map Some xs @ None # r) = Ret (length xs)"
proof -
  have "takeWhile (\<lambda>s. s \<noteq> None) (map Some xs @ None # r) = map Some xs"
    by (subst takeWhile_append2) auto
  then show ?thesis by (simp add: count_args_def)
qed

lemma strings_of_eq: "strings_of (map Some xs @ None # r) = Ret xs"
  by (simp add: strings_of_def count_args_eq comp_def)

lemma interparg_ends: "length ws < INTERPARG \<Longrightarrow> \<exists>r. interparg ws = map Some ws @ None # r"
  by (auto simp: interparg_def Suc_diff_Suc replicate_Suc [symmetric] simp del: replicate_Suc
      intro: exI [of _ "replicate (INTERPARG - Suc (length ws)) None"])

text \<open>Either the loader takes arguments, or it has none of the options.\<close>

definition support_ok :: "support \<Rightarrow> bool" where
  "support_ok s \<longleftrightarrow> has_shift s = 1 \<or> has_shift s = 0 \<and> \<not> has_argv0 s \<and> \<not> has_preload s \<and> \<not> has_library_path s
     \<and> \<not> has_inhibit_rpath s \<and> \<not> has_inhibit_cache s"


definition loader_words :: "support \<Rightarrow> string \<Rightarrow> string \<Rightarrow> string \<Rightarrow> string \<Rightarrow> string \<Rightarrow> string list" where
  "loader_words s preload libpath rpath interp argv0 =
     map the (ldso_slots s preload libpath rpath interp (Some argv0))"

lemma slots_words:
  "ldso_slots s preload libpath rpath interp (Some argv0) = map Some (loader_words s preload libpath rpath interp argv0)"
  by (simp add: loader_words_def ldso_slots_def)

lemma length_loader_words:
  "support_ok s \<Longrightarrow> length (loader_words s preload libpath rpath interp argv0) = ldso_shift s preload libpath rpath"
  by (auto simp: support_ok_def loader_words_def ldso_slots_def ldso_shift_def)

lemma ldso_shift_le: "support_ok s \<Longrightarrow> ldso_shift s preload libpath rpath \<le> 10"
  by (auto simp: support_ok_def ldso_shift_def)

lemma eff_env_set: "valid_name n \<Longrightarrow> eff_env (env_set n v True) env = Ret (Inr (), put_var n v env)"
  by (simp add: eff_env_def env_set_overwrite)

lemma loader_names: "valid_name ''LD_PRELOAD''" "valid_name ''LD_LIBRARY_PATH''" "valid_name ''argv0''"
  by code_simp+

lemma ldso_setenv_returns: "\<exists>env'. ldso_setenv s preload libpath rpath (Some a) env = Ret (Inr (), env')"
  by (simp add: ldso_setenv_def Let_def eff_bind_def eff_ret_def eff_env_set loader_names)

lemma ldso_args_words:
  assumes "support_ok s" and "ws \<noteq> []" and "length ws \<le> 3"
  shows "\<exists>a env'. ldso_args s preload libpath rpath interp path (interparg ws) env = Ret (Inr a, env')
    \<and> length a = INTERPARG
    \<and> strings_of a = Ret (loader_words s preload libpath rpath interp (hd ws) @ path # tl ws)"
proof -
  let ?k = "ldso_shift s preload libpath rpath" and ?n = "length ws" and ?a = "interparg ws"
  let ?w = "loader_words s preload libpath rpath interp (hd ws)"
  have k: "length ?w = ?k" "?k \<le> 10"
    using assms(1) by (simp_all add: length_loader_words ldso_shift_le)
  have la: "length ?a = 15" using assms(3) by (simp add: interparg_def INTERPARG_def)
  have count: "count_args ?a = Ret ?n"
    using interparg_ends [of ws] assms(3) by (auto simp: INTERPARG_def count_args_eq)
  have hd: "?a ! 0 = Some (hd ws)" using assms(2) by (cases ws) (simp_all add: interparg_def)
  obtain b where b: "shift_args ?k ?n ?a = Ret b" "length b = 15" "\<forall>i \<in> {1..?n}. b ! (i + ?k) = ?a ! i"
    using shift_args_nth [of ?n ?k ?a] assms(3) k la by auto
  have p1: "put_args 0 (map Some ?w) b = Ret (map Some ?w @ drop ?k b)"
    using k b(2) by (simp add: put_args_eq del: put_args.simps)
  have p2: "put_args ?k [Some path] (map Some ?w @ drop ?k b) = Ret (map Some ?w @ Some path # drop (Suc ?k) b)"
    using k b(2) by (simp add: put_args_eq del: put_args.simps)
  let ?c = "map Some ?w @ Some path # drop (Suc ?k) b"
  have p3: "put_args (?k + ?n) [None] ?c = Ret (take (?k + ?n) ?c @ None # drop (Suc (?k + ?n)) ?c)"
    using k b(2) assms(3) by (simp add: put_args_eq del: put_args.simps)
  have "take (?n - 1) (drop (Suc ?k) b) = map Some (tl ws)"
  proof (rule nth_equalityI)
    fix i assume "i < length (take (?n - 1) (drop (Suc ?k) b))"
    then have i: "i < ?n - 1" by simp
    have "b ! (Suc ?k + i) = ?a ! Suc i" using b(3) i by (auto simp: add.commute dest: bspec [of _ _ "Suc i"])
    also have "Suc i < ?n" using i by simp
    then have "?a ! Suc i = Some (ws ! Suc i)" by (simp add: interparg_def nth_append)
    finally show "take (?n - 1) (drop (Suc ?k) b) ! i = map Some (tl ws) ! i"
      using i b(2) k by (simp add: nth_tl)
  qed (use b(2) k assms(3) in simp)
  then have t: "take (?k + ?n) ?c = map Some (?w @ path # tl ws)"
    using k assms(2) by (cases ws) simp_all
  obtain env' where e: "ldso_setenv s preload libpath rpath (Some (hd ws)) env = Ret (Inr (), env')"
    using ldso_setenv_returns by blast
  define d where "d = map Some (?w @ path # tl ws) @ None # drop (Suc (?k + ?n)) ?c"
  have p4: "put_args (?k + ?n) [None] ?c = Ret d" using p3 unfolding t d_def .
  have "ldso_args s preload libpath rpath interp path ?a env = Ret (Inr d, env')"
    using la by (auto simp: ldso_args_def eff_bind_def eff_get_def hd slots_words k(1) count b(1) p1 p2 p4 e Let_def
        simp del: put_args.simps)
  moreover have "length d = INTERPARG"
    using arg_cong [OF t, of length] k b(2) assms(3) by (simp add: INTERPARG_def d_def)
  moreover have "strings_of d = Ret (?w @ path # tl ws)"
    unfolding d_def by (rule strings_of_eq)
  ultimately show ?thesis by blast
qed

text \<open>
  C18: The vector that is built for the loader fits the 15 entries of \<^verbatim>\<open>interparg\<close> whatever the
  loader takes, ends with a null pointer, and holds the loader, its options, the path of the program, and
  the entries that were there behind the first, in their order: a program with up to two words of a script line.
\<close>

theorem ldso_args_vector:
  assumes "support_ok s" and "ws \<noteq> []" and "length ws \<le> 3"
  shows "\<exists>a env'. ldso_args s preload libpath rpath interp path (interparg ws) env = Ret (Inr a, env')
    \<and> length a = INTERPARG
    \<and> strings_of a = Ret (loader_words s preload libpath rpath interp (hd ws) @ path # tl ws)"
  by (rule ldso_args_words [OF assms])

definition full_support :: support where
  "full_support = \<lparr>has_shift = 1, has_argv0 = True, has_preload = True, has_library_path = True,
     has_inhibit_rpath = True, has_inhibit_cache = True\<rparr>"

theorem ldso_args_vector_witness:
  "\<exists>a env'. ldso_args full_support ''/lib/libiamroot.so'' ''/r/lib'' ''/x'' ''/r/lib/ld.so'' ''/r/bin/sh''
      (interparg [''/bin/sh'', ''-e'', ''/s'']) None = Ret (Inr a, env')
    \<and> length a = INTERPARG
    \<and> strings_of a = Ret [''/r/lib/ld.so'', ''--preload'', ''/lib/libiamroot.so'', ''--library-path'', ''/r/lib'',
        ''--inhibit-rpath'', ''/x'', ''--inhibit-cache'', ''--argv0'', ''/bin/sh'', ''/r/bin/sh'', ''-e'', ''/s'']"
  using ldso_args_vector [of full_support "[''/bin/sh'', ''-e'', ''/s'']" "''/lib/libiamroot.so''" "''/r/lib''" "''/x''"
      "''/r/lib/ld.so''" "''/r/bin/sh''" None]
  by (simp add: support_ok_def full_support_def loader_words_def ldso_slots_def ldso_shift_def)

section \<open>What reaches the program\<close>

text \<open>Whatever a step that succeeds answers.\<close>

definition eff_post :: "'a eff \<Rightarrow> ('a \<Rightarrow> bool) \<Rightarrow> bool" where
  "eff_post m Q \<longleftrightarrow> (\<forall>env x env'. m env = Ret (Inr x, env') \<longrightarrow> Q x)"

named_theorems post_intros \<open>rules for what a step answers\<close>

lemma eff_post_ret [post_intros]: "Q x \<Longrightarrow> eff_post (eff_ret x) Q"
  by (simp add: eff_post_def eff_ret_def)

lemma eff_post_fail [post_intros]: "eff_post (eff_fail e) Q"
  by (simp add: eff_post_def eff_fail_def)

lemma eff_post_undef [post_intros]: "eff_post (\<lambda>_. Undef) Q"
  by (simp add: eff_post_def)

lemma eff_bind_Inr:
  "eff_bind m f env = Ret (Inr y, env') \<longleftrightarrow> (\<exists>x env1. m env = Ret (Inr x, env1) \<and> f x env1 = Ret (Inr y, env'))"
  by (cases "m env") (auto simp: eff_bind_def split: sum.splits prod.splits)

lemma eff_catch_Inr:
  "eff_catch m f env = Ret (Inr y, env') \<longleftrightarrow>
     m env = Ret (Inr y, env') \<or> (\<exists>e env1. m env = Ret (Inl e, env1) \<and> f e env1 = Ret (Inr y, env'))"
  by (cases "m env") (auto simp: eff_catch_def split: sum.splits prod.splits)

lemma eff_get_Inr: "eff_get g env = Ret (Inr y, env') \<longleftrightarrow> g env = Ret y \<and> env' = env"
  by (auto simp: eff_get_def split: run.splits)

lemma of_sum_Ret: "of_sum r = Ret y \<longleftrightarrow> r = Inr y"
  by (cases r) auto

lemmas eff_Inr = eff_bind_Inr eff_catch_Inr eff_get_Inr of_sum_Ret


lemma eff_post_bind [post_intros]: "(\<And>x. eff_post (f x) Q) \<Longrightarrow> eff_post (eff_bind m f) Q"
  unfolding eff_post_def eff_bind_Inr by blast

lemma eff_post_catch [post_intros]: "eff_post m Q \<Longrightarrow> (\<And>e. eff_post (f e) Q) \<Longrightarrow> eff_post (eff_catch m f) Q"
  unfolding eff_post_def eff_catch_Inr by blast

text \<open>The vector that is handed to the host ends with the arguments but the first.\<close>

definition passes :: "string list \<Rightarrow> exec_call \<Rightarrow> bool" where
  "passes argv c \<longleftrightarrow> (case c of Exit n \<Rightarrow> True | Kernel path nargv ev \<Rightarrow> \<exists>front. nargv = front @ tl argv)"

lemma passes_exec_argv [post_intros]: "eff_post (exec_argv ip argv) (passes argv)"
  by (auto simp: eff_post_def exec_argv_def passes_def Let_def split: if_splits)

lemma passes_exit [post_intros]: "passes argv (Exit n)"
  by (simp add: passes_def)

lemma passes_whole: "passes argv (Kernel path argv ev)"
  by (cases argv) (auto simp: passes_def)

lemma passes_kernel [post_intros]: "eff_post (\<lambda>env. Ret (Inr (Kernel path argv (g env)), env)) (passes argv)"
  by (simp add: eff_post_def passes_whole)

lemma passes_script [post_intros]: "eff_post (exec_script y path argv) (passes argv)"
  unfolding exec_script_def by (intro post_intros)

lemma passes_loader [post_intros]: "eff_post (run_loader internal buf argv nl) (passes argv)"
  unfolding run_loader_def by (auto intro!: post_intros)

lemma passes_ldso [post_intros]: "eff_post (run_ldso y path argv s bufsiz) (passes argv)"
  unfolding run_ldso_def by (auto intro!: post_intros split: prod.splits option.splits)

lemma exec_with_passes: "eff_post (exec_with y res internal path argv nl) (passes argv)"
  unfolding exec_with_def Let_def
  by (auto intro!: post_intros split: list.splits if_splits)

section \<open>Scripts\<close>






section \<open>Every call\<close>

text \<open>A vector that is not the one that was given is bounded.\<close>

definition small :: "string list \<Rightarrow> exec_call \<Rightarrow> bool" where
  "small argv c \<longleftrightarrow> (case c of Exit n \<Rightarrow> True | Kernel path nargv ev \<Rightarrow> nargv = argv \<or> Suc (length nargv) < ARGS_MAX)"

lemma small_exec_argv [post_intros]: "eff_post (exec_argv ip argv) (small argv)"
  by (auto simp: eff_post_def exec_argv_def small_def Let_def split: if_splits)

lemma small_kernel [post_intros]: "eff_post (\<lambda>env. Ret (Inr (Kernel path argv (g env)), env)) (small argv)"
  by (simp add: eff_post_def small_def)

lemma small_exit [post_intros]: "small argv (Exit n)"
  by (simp add: small_def)

lemma exec_with_small: "eff_post (exec_with y res internal path argv nl) (small argv)"
  unfolding exec_with_def run_loader_def run_ldso_def exec_script_def Let_def
  by (auto intro!: post_intros split: list.splits if_splits prod.splits option.splits)

text \<open>
  Whichever way a program is run, by \<^verbatim>\<open>execve\<close>, \<^verbatim>\<open>execveat\<close> or
  \<^verbatim>\<open>posix_spawn\<close>, the arguments but the first are the end of the vector the host is given, none
  lost, changed or reordered; and a vector other than the one that was given has less than 4095 entries.
\<close>

theorem exec_arguments:
  assumes "m \<in> {execve y path argv p, execveat y dfd path argv p atflags, posix_spawn y path argv p}"
    and "m env = Ret (Inr (Kernel prog nargv ev), env')"
  shows "(\<exists>front. nargv = front @ tl argv) \<and> (nargv = argv \<or> Suc (length nargv) < ARGS_MAX)"
proof -
  obtain res internal env0 where "exec_with y res internal path argv (p = Null) env0 = Ret (Inr (Kernel prog nargv ev), env')"
    using assms by (auto simp: execve_def execveat_def posix_spawn_def)
  then have "passes argv (Kernel prog nargv ev)" "small argv (Kernel prog nargv ev)"
    using exec_with_passes exec_with_small unfolding eff_post_def by blast+
  then show ?thesis by (simp add: passes_def small_def)
qed

section \<open>The environment of \<^verbatim>\<open>exec.sh\<close>\<close>

lemma script_names:
  "valid_name ''IAMROOT_VERSION''" "valid_name ''_argv0''" "valid_name ''_preload''" "valid_name ''_library_path''"
  by code_simp+

lemma eff_env_unset: "valid_name n \<Longrightarrow> eff_env (env_unset n) env = Ret (Inr (), del_var n env)"
  by (simp add: eff_env_def env_unset_valid)

text \<open>
  \<^verbatim>\<open>exec.sh\<close> is run without \<^verbatim>\<open>LD_PRELOAD\<close> and
  \<^verbatim>\<open>LD_LIBRARY_PATH\<close>, and finds their values, the empty text for an unset one, and the first
  argument in variables of its own; all variables but these and the version are those of the process.
\<close>

theorem exec_sh_environment:
  assumes "exec_sh y path (Some a) n env = Ret (Inr ws, env')"
  shows "env_get ''LD_PRELOAD'' env' = None \<and> env_get ''LD_LIBRARY_PATH'' env' = None
    \<and> env_get ''_preload'' env' = Some (or_empty (env_get ''LD_PRELOAD'' env))
    \<and> env_get ''_library_path'' env' = Some (or_empty (env_get ''LD_LIBRARY_PATH'' env))
    \<and> env_get ''_argv0'' env' = Some a
    \<and> (v \<in> {''LD_PRELOAD'', ''LD_LIBRARY_PATH'', ''_preload'', ''_library_path'', ''_argv0'', ''IAMROOT_VERSION''}
       \<or> env_get v env' = env_get v env)"
proof -
  let ?e1 = "put_var ''IAMROOT_VERSION'' (x_version y) env"
  let ?e2 = "put_var ''_argv0'' a ?e1"
  let ?e3 = "put_var ''_preload'' (or_empty (env_get ''LD_PRELOAD'' ?e2)) ?e2"
  let ?e4 = "put_var ''_library_path'' (or_empty (env_get ''LD_LIBRARY_PATH'' ?e3)) ?e3"
  have "env' = del_var ''LD_LIBRARY_PATH'' (del_var ''LD_PRELOAD'' ?e4)"
    using assms
    by (auto simp: exec_sh_def eff_Inr eff_env_set script_names eff_env_unset loader_names eff_ret_def
        eff_env_def env_set_overwrite env_unset_valid)
  then show ?thesis by (simp add: script_names loader_names ev.get_put ev.get_del)
qed

theorem exec_sh_environment_witness:
  "\<exists>y ws env'. exec_sh y ''/bin/mount'' (Some ''mount'') 8192 (Some [''LD_PRELOAD=/l.so'', ''A=b'']) = Ret (Inr ws, env')
     \<and> env_get ''_preload'' env' = Some ''/l.so'' \<and> env_get ''LD_PRELOAD'' env' = None \<and> env_get ''A'' env' = Some ''b''"
proof -
  let ?env = "Some [''LD_PRELOAD=/l.so'', ''A=b'']"
  fix z :: runner
  define y where "y = z\<lparr>x_prefix := ''/usr'', x_version := ''1'', x_access := \<lambda>_. None\<rparr>"
  have "exec_sh_file y 8192 ?env = Ret ''/usr/lib/iamroot/exec.sh''"
  proof -
    have "env_get ''IAMROOT_ORIGIN'' ?env = None" "strncpy_buf (getexec ''/usr'' ?env) 8192 = ''/usr/lib/iamroot/exec.sh''"
      by code_simp+
    then show ?thesis by (simp add: exec_sh_file_def y_def)
  qed
  then obtain ws env' where r: "exec_sh y ''/bin/mount'' (Some ''mount'') 8192 ?env = Ret (Inr ws, env')"
    by (simp add: exec_sh_def eff_bind_def eff_get_def eff_env_set script_names loader_names eff_env_unset eff_ret_def
        eff_env_def env_set_overwrite env_unset_valid)
  have "env_get ''LD_PRELOAD'' ?env = Some ''/l.so''" "env_get ''A'' ?env = Some ''b''" by code_simp+
  then show ?thesis
    using exec_sh_environment [OF r, of "''A''"] r by (auto simp: or_empty_def)
qed

end
