(* ===== verification/Exec_Sample.thy ===== *)
theory Exec_Sample
  imports Exec_Facts Elf_Facts
begin

text \<open>
  A script that is run in a chroot, step by step: the sample file is a shell with a loader of the musl kind
  and no needed libraries. The run shows that the hypotheses of the theorems on \<^verbatim>\<open>execve\<close> can hold.
\<close>

section \<open>The file of the shell\<close>

definition shell_ehdr :: "byte list" where
  "shell_ehdr = [127, 69, 76, 70, 2, 1, 1, 0, 0, 0, 0, 0, 0, 0, 0, 0, 3, 0, 62, 0, 1, 0, 0, 0, 0, 0, 0, 0, 0, 0, 0, 0,
     64, 0, 0, 0, 0, 0, 0, 0, 176, 0, 0, 0, 0, 0, 0, 0, 0, 0, 0, 0, 64, 0, 56, 0, 2, 0, 64, 0, 1, 0, 0, 0]"

definition shell_interp :: "byte list" where
  "shell_interp = [3, 0, 0, 0, 4, 0, 0, 0, 1, 1, 0, 0, 0, 0, 0, 0, 0, 0, 0, 0, 0, 0, 0, 0, 0, 0, 0, 0, 0, 0, 0, 0,
     25, 0, 0, 0, 0, 0, 0, 0, 25, 0, 0, 0, 0, 0, 0, 0, 1, 0, 0, 0, 0, 0, 0, 0]"

definition shell_dynamic :: "byte list" where
  "shell_dynamic = [2, 0, 0, 0, 4, 0, 0, 0, 240, 0, 0, 0, 0, 0, 0, 0, 0, 0, 0, 0, 0, 0, 0, 0, 0, 0, 0, 0, 0, 0, 0, 0,
     16, 0, 0, 0, 0, 0, 0, 0, 16, 0, 0, 0, 0, 0, 0, 0, 8, 0, 0, 0, 0, 0, 0, 0]"

definition shell_shdr :: "byte list" where
  "shell_shdr = [0, 0, 0, 0, 3, 0, 0, 0, 0, 0, 0, 0, 0, 0, 0, 0, 0, 0, 0, 0, 0, 0, 0, 0, 0, 1, 0, 0, 0, 0, 0, 0,
     1, 0, 0, 0, 0, 0, 0, 0, 0, 0, 0, 0, 0, 0, 0, 0, 1, 0, 0, 0, 0, 0, 0, 0, 0, 0, 0, 0, 0, 0, 0, 0]"

definition shell_loader :: "byte list" where
  "shell_loader = [47, 108, 105, 98, 47, 108, 100, 45, 109, 117, 115, 108, 45, 120, 56, 54, 95, 54, 52, 46, 115, 111,
     46, 49, 0]"

definition shell_entry :: "byte list" where
  "shell_entry = [0, 0, 0, 0, 0, 0, 0, 0, 0, 0, 0, 0, 0, 0, 0, 0]"

definition shell_file :: "byte list" where
  "shell_file = shell_ehdr @ shell_interp @ shell_dynamic @ shell_shdr @ shell_entry @ 0 # shell_loader"

lemma shell_lengths:
  "length shell_ehdr = 64" "length shell_interp = 56" "length shell_dynamic = 56" "length shell_shdr = 64"
  "length shell_loader = 25" "length shell_entry = 16" "length shell_file = 282"
  by (simp_all add: shell_file_def shell_ehdr_def shell_interp_def shell_dynamic_def shell_shdr_def shell_loader_def shell_entry_def)

definition shell_hdr :: ehdr where
  "shell_hdr = \<lparr>e_ident = [127, 69, 76, 70, 2, 1, 1, 0, 0, 0, 0, 0, 0, 0, 0, 0], e_type = 3, e_machine = 62,
     e_version = 1, e_entry = 0, e_phoff = 64, e_shoff = 176, e_flags = 0, e_ehsize = 64, e_phentsize = 56,
     e_phnum = 2, e_shentsize = 56, e_shnum = 1, e_shstrndx = 0\<rparr>"

lemmas elf_reads = Let_def elf_half_def elf_word_def elf_xword_def elf_swap_def EI_DATA_def at_def load_def

lemma shell_pieces:
  "take 64 shell_file = shell_ehdr" "drop 64 shell_file = shell_interp @ drop 120 shell_file"
  "drop 120 shell_file = shell_dynamic @ drop 176 shell_file" "drop 176 shell_file = shell_shdr @ drop 240 shell_file"
  "drop 240 shell_file = shell_entry @ drop 256 shell_file" "drop 257 shell_file = shell_loader"
  by (simp_all add: shell_file_def shell_lengths)

lemma shell_header: "elf_ehdr False (f_read (file_fd shell_file)) = Inr shell_hdr"
  by (simp add: elf_ehdr_def file_fd_def shell_pieces shell_lengths min_def)
    (simp add: shell_ehdr_def ELFMAG_def EI_CLASS_def ELFCLASS32_def ELFCLASS64_def ehdr64_of_def elf_reads shell_hdr_def)

lemma shell_ph1:
  "elf64_phdr False (e_ident shell_hdr) (file_pread shell_file) 64 = Inr \<lparr>p_type = 3, p_flags = 4, p_offset = 257,
     p_vaddr = 0, p_paddr = 0, p_filesz = 25, p_memsz = 25, p_align = 1\<rparr>"
  by (simp add: elf64_phdr_def pread_all_def file_pread_def shell_pieces shell_lengths)
    (simp add: shell_interp_def phdr64_of_def elf_reads shell_hdr_def)

lemma shell_ph2:
  "elf64_phdr False (e_ident shell_hdr) (file_pread shell_file) 120 = Inr \<lparr>p_type = 2, p_flags = 4, p_offset = 240,
     p_vaddr = 0, p_paddr = 0, p_filesz = 16, p_memsz = 16, p_align = 8\<rparr>"
  by (simp add: elf64_phdr_def pread_all_def file_pread_def shell_pieces(3) shell_lengths)
    (simp add: shell_dynamic_def phdr64_of_def elf_reads shell_hdr_def)

lemma shell_sh:
  "elf64_shdr False (e_ident shell_hdr) (file_pread shell_file) 176 = Inr \<lparr>sh_name = 0, sh_type = 3, sh_flags = 0,
     sh_addr = 0, sh_offset = 256, sh_size = 1, sh_link = 0, sh_info = 0, sh_addralign = 1, sh_entsize = 0\<rparr>"
  by (simp add: elf64_shdr_def pread_all_def file_pread_def shell_pieces(4) shell_lengths)
    (simp add: shell_shdr_def shdr64_of_def elf_reads shell_hdr_def)

lemma shell_dyn:
  "elf64_dyn False (e_ident shell_hdr) (file_pread shell_file) 16 240 =
     Inr [\<lparr>d_tag = 0, d_val = 0, d_data = [0, 0, 0, 0, 0, 0, 0, 0]\<rparr>]"
  by (simp add: elf64_dyn_def pread_all_def file_pread_def shell_pieces(5) shell_lengths)
    (simp add: shell_entry_def chunks_def dyn64_of_def elf_reads shell_hdr_def)

lemma shell_fields:
  "e_ident shell_hdr ! EI_CLASS = 2" "e_shoff shell_hdr = 176" "e_phoff shell_hdr = 64"
  "unat (e_phnum shell_hdr) = Suc (Suc 0)" "unat (e_shnum shell_hdr) = 1" "e_type shell_hdr = 3"
  "f_seek (file_fd shell_file) = None" "f_num (file_fd shell_file) = 3" "f_pread (file_fd shell_file) = file_pread shell_file"
  by (simp_all add: shell_hdr_def EI_CLASS_def file_fd_def)

lemma shell_felf_header: "felf_header False (file_fd shell_file) = Inr shell_hdr"
  unfolding felf_header_def shell_header by (simp add: file_fd_def)

lemma shell_felf_interp:
  assumes "25 \<le> n"
  shows "felf_interp False (file_fd shell_file) n = Inr shell_loader"
proof -
  have "file_pread shell_file 25 257 = Inr shell_loader"
    by (simp add: file_pread_def shell_pieces(6) shell_lengths)
  then show ?thesis
    using assms by (simp add: felf_interp_def shell_felf_header shell_fields ELFCLASS32_def ELFCLASS64_def
        elf_interp64_def shell_ph1 PT_INTERP_def pread_all_def shell_lengths)
qed

lemma shell_iterate:
  assumes "tag \<noteq> 0"
  shows "elf_iterate_shared_object False E_OK (file_fd shell_file) tag cb u = (Inr 0, u)"
  unfolding elf_iterate_shared_object_def shell_fields(7) option.case shell_header sum.case
  using assms by (simp add: shell_fields ET_EXEC_def ET_DYN_def ELFCLASS32_def ELFCLASS64_def elf_iterate_ehdr64_def
      shell_sh SHT_STRTAB_def shell_ph1 shell_ph2 PT_DYNAMIC_def shell_dyn)

section \<open>The system\<close>

definition shell_dso :: dso where
  "shell_dso = \<lparr>w_big = False, w_errno = E_OK, w_open = (\<lambda>_. Inr (file_fd shell_file)),
     w_access = (\<lambda>_ _ _. Err ENOENT), w_execfn = None\<rparr>"

definition shell_env :: env where "shell_env = Some [''IAMROOT_ROOT=/r'']"

definition script_text :: string where "script_text = ''#!/bin/sh -e'' @ [newline]"

definition shell_runner :: runner where
  "shell_runner = \<lparr>x_host = bare_host, x_lib = chroot_lib ''/r'', x_errno = E_OK, x_dso = shell_dso,
     x_re = \<lparr>re_ldso = None, re_lib = None\<rparr>, x_fuel = 1, x_prefix = ''/usr'', x_version = ''1'',
     x_find = (\<lambda>_ _. Inl ENOENT), x_access = (\<lambda>_. None), x_exec = (\<lambda>_. True),
     x_prog = (\<lambda>_. Inr \<lparr>p_size = Inr 13, p_read = (\<lambda>n. Inr (take n script_text))\<rparr>),
     y_mode = (\<lambda>_. Inr 0x81ED),
     y_open = (\<lambda>_. Inr \<lparr>e_mode = Inr 0x81ED, e_read = (\<lambda>n. Inr (take n [0x23, 0x21, 0x2f, 0x62])),
        e_size = Inr 13, e_mmap = (\<lambda>_. Inl EINVAL)\<rparr>),
     y_ignore = None, y_cache = (\<lambda>_ _. Err ENOENT)\<rparr>"

lemma shell_dso_simps [simp]:
  "w_big shell_dso = False" "w_errno shell_dso = E_OK" "w_open shell_dso p = Inr (file_fd shell_file)"
  "w_access shell_dso a b n = Err ENOENT" "w_execfn shell_dso = None"
  by (simp_all add: shell_dso_def)

lemma shell_loader_simps [simp]:
  "x_host (the_loader shell_runner) = bare_host" "x_lib (the_loader shell_runner) = chroot_lib ''/r''"
  "x_errno (the_loader shell_runner) = E_OK" "x_dso (the_loader shell_runner) = shell_dso"
  "x_fuel (the_loader shell_runner) = 1" "x_prefix (the_loader shell_runner) = ''/usr''"
  "x_find (the_loader shell_runner) = (\<lambda>_ _. Inl ENOENT)" "x_exec (the_loader shell_runner) = (\<lambda>_. True)"
  "x_re (the_loader shell_runner) = \<lparr>re_ldso = None, re_lib = None\<rparr>"
  by (simp_all add: shell_runner_def loader.truncate_def)

section \<open>What the shell needs\<close>

lemma shell_words:
  "c_string shell_loader = ''/lib/ld-musl-x86_64.so.1''"
  "ld_ldso_abi ''/lib/ld-musl-x86_64.so.1'' = Inr (''musl-x86_64'', 1)"
  "getdeflib shell_env shell_hdr ''musl-x86_64'' 1 = Inr ''/lib:/usr/local/lib:/usr/lib''"
  "secure_execution_mode shell_env = False" "getld_library_path shell_env PATH_MAX = []"
  by code_simp+

lemma shell_info:
  "elf_interp_ldso_abi shell_dso p NAME_MAX = Inr (shell_hdr, ''/lib/ld-musl-x86_64.so.1'', ''musl-x86_64'', 1)"
proof -
  obtain b bs where l: "shell_loader = b # bs" by (simp add: shell_loader_def)
  have "felf_interp False (file_fd shell_file) NAME_MAX = Inr (b # bs)"
    using shell_felf_interp [of NAME_MAX] by (simp add: NAME_MAX_def l)
  moreover have "c_string (b # bs) = ''/lib/ld-musl-x86_64.so.1''" using shell_words(1) by (simp add: l)
  ultimately show ?thesis
    by (simp add: elf_interp_ldso_abi_def felf_interp_ldso_abi_def shell_felf_header shell_words)
qed

lemma shell_felf_deflib: "felf_deflib shell_dso shell_env (file_fd shell_file) PATH_MAX = Ret ''/lib:/usr/local/lib:/usr/lib''"
proof -
  have "felf_interp False (file_fd shell_file) NAME_MAX = Inr shell_loader"
    using shell_felf_interp [of NAME_MAX] by (simp add: NAME_MAX_def)
  then show ?thesis
    by (simp add: felf_deflib_def shell_felf_header or_else_def shell_words strncpy_buf_def PATH_MAX_def)
qed

lemma shell_no_entries:
  "felf_rpath shell_dso (file_fd shell_file) = Inr []" "felf_runpath shell_dso (file_fd shell_file) = Inr []"
  "felf_flags_1 shell_dso (file_fd shell_file) = Inr 0" "felf_needed shell_dso (file_fd shell_file) = Inr []"
  by (simp_all add: felf_rpath_def felf_runpath_def felf_needed_def felf_path_def felf_flags_1_def shell_iterate
      DT_RPATH_def DT_RUNPATH_def DT_FLAGS_1_def DT_NEEDED_def)

lemma shell_lib_path: "ld_lib_path shell_dso shell_env p PATH_MAX = Ret ''/lib:/usr/local/lib:/usr/lib''"
proof -
  have "path_strncat [] (Some ''/lib:/usr/local/lib:/usr/lib'') PATH_MAX = Inr ''/lib:/usr/local/lib:/usr/lib''"
      "path_strncat ''/lib:/usr/local/lib:/usr/lib'' (Some []) PATH_MAX = Inr ''/lib:/usr/local/lib:/usr/lib''"
      "nodeflib 0 = False"
    by code_simp+
  then show ?thesis
    by (simp add: ld_lib_path_def fld_lib_path_def shell_no_entries shell_felf_deflib shell_words)
qed

lemma shell_library_path: "ld_library_path shell_dso shell_env p 8114 = Ret ''/r/lib:/r/usr/local/lib:/r/usr/lib''"
proof -
  have "path_iterate (Some ''/lib:/usr/local/lib:/usr/lib'') (ldso_library_path_callback (getrootdir shell_env) 8114) ([], E_OK)
      = (0, ''/r/lib:/r/usr/local/lib:/r/usr/lib'', E_OK)"
    by code_simp
  then show ?thesis by (simp add: ld_library_path_def shell_lib_path)
qed

lemma shell_preload:
  "ld_preload (Suc k) shell_dso re shell_env (Inr lib) p n = Ret lib"
proof -
  have "tokens colon [] = []" by code_simp
  then have "path_iterate_run [] f u = Ret (0, u)" for f and u :: "string \<times> errno"
    by (simp add: path_iterate_run_def)
  then show ?thesis
    by (simp add: ld_preload_def shell_lib_path ldso_preload_executable_def elf_needed_def shell_no_entries)
qed

section \<open>The run\<close>

lemma shell_musl: "ldso_support x env shell_hdr ''musl-x86_64'' 1 pt = Ret \<lparr>has_shift = 1, has_argv0 = True,
   has_preload = True, has_library_path = True, has_inhibit_rpath = False, has_inhibit_cache = False\<rparr>"
proof -
  have t: "is_gnu_linux_ext shell_hdr ''musl-x86_64'' 1 = False" "is_musl ''musl-x86_64'' = True"
      "is_freebsd shell_hdr ''musl-x86_64'' 1 = False" "is_netbsd shell_hdr ''musl-x86_64'' 1 = False" "is_openbsd shell_hdr = False"
    by code_simp+
  show ?thesis unfolding ldso_support_def t by (simp add: no_support_def)
qed

lemma shell_getlib:
  "getlib (the_loader shell_runner) shell_env shell_hdr ''musl-x86_64'' 1 8166
     = Inr ''/usr/lib/iamroot/x86_64/libiamroot-musl-x86_64.so.1''"
  unfolding getlib_def shell_loader_simps by code_simp

lemma shell_resolve:
  "resolve (the_loader shell_runner) shell_env AT_FDCWD ''/s'' (2 * PATH_MAX) 0 = Ret ''/r/s''"
  "resolve (the_loader shell_runner) shell_env AT_FDCWD ''/bin/sh'' 8176 0 = Ret ''/r/bin/sh''"
  "resolve (the_loader shell_runner) shell_env AT_FDCWD ''/lib/ld-musl-x86_64.so.1'' 8079 0 = Ret ''/r/lib/ld-musl-x86_64.so.1''"
  unfolding resolve_def shell_loader_simps by code_simp+

lemma shell_script: "interpreter_script (x_prog shell_runner) E_OK ''/r/s'' 8192 5 = Ret [''/bin/sh'', ''-e'', ''/r/s'']"
  unfolding shell_runner_def runner.simps loader.simps by code_simp

lemma shell_can: "can_exec shell_runner ''/r/s'' = Ret True"
  unfolding shell_runner_def by code_simp

lemma shell_unset:
  "eff_env (env_unset ''LD_PRELOAD'') shell_env = Ret (Inr (), shell_env)"
  "eff_env (env_unset ''LD_LIBRARY_PATH'') shell_env = Ret (Inr (), shell_env)"
  by code_simp+

lemma shell_ldso:
  "\<exists>a env'. ldso (the_loader shell_runner) ''/r/bin/sh'' (interparg [''/bin/sh'', ''-e'', ''/s'']) (2 * PATH_MAX) 26 shell_env
       = Ret (Inr a, env')
     \<and> strings_of a = Ret [''/r/lib/ld-musl-x86_64.so.1'', ''--preload'',
          ''/usr/lib/iamroot/x86_64/libiamroot-musl-x86_64.so.1'', ''--library-path'',
          ''/r/lib:/r/usr/local/lib:/r/usr/lib'', ''--argv0'', ''/bin/sh'', ''/r/bin/sh'', ''-e'', ''/s'']"
proof -
  let ?s = "\<lparr>has_shift = 1, has_argv0 = True, has_preload = True, has_library_path = True,
     has_inhibit_rpath = False, has_inhibit_cache = False\<rparr>"
  let ?lib = "''/usr/lib/iamroot/x86_64/libiamroot-musl-x86_64.so.1''" and ?llp = "''/r/lib:/r/usr/local/lib:/r/usr/lib''"
  obtain a env' where args: "ldso_args ?s ?lib ?llp [] ''/r/lib/ld-musl-x86_64.so.1'' ''/r/bin/sh''
      (interparg [''/bin/sh'', ''-e'', ''/s'']) shell_env = Ret (Inr a, env')"
    and words: "strings_of a = Ret (loader_words ?s ?lib ?llp [] ''/r/lib/ld-musl-x86_64.so.1'' ''/bin/sh''
      @ ''/r/bin/sh'' # [''-e'', ''/s''])"
    using ldso_args_words [of ?s "[''/bin/sh'', ''-e'', ''/s'']"] by (auto simp: support_ok_def) blast
  have room: "2 * PATH_MAX = 8192" by (simp add: PATH_MAX_def)
  have "ldso (the_loader shell_runner) ''/r/bin/sh'' (interparg [''/bin/sh'', ''-e'', ''/s'']) (2 * PATH_MAX) 26 shell_env
       = Ret (Inr a, env')"
    by (simp add: ldso_def eff_bind_def eff_get_def shell_info shell_musl with_room_def after_def room shell_getlib
        shell_preload [where k = 0, simplified] shell_library_path shell_unset shell_resolve args [unfolded One_nat_def])
  with words show ?thesis by (simp add: loader_words_def ldso_slots_def ldso_shift_def)
qed

lemma shell_through:
  "through_script shell_runner ''/s'' ''s'' ''/r/s'' 8192 (length ''/r/s'' + 1) shell_env =
     Ret (Inr ([''/bin/sh'', ''-e'', ''/s''], ''/r/bin/sh'', 26), shell_env)"
proof -
  have n: "length ''/r/s'' + 1 = (5 :: nat)" "x_errno shell_runner = E_OK" by (simp_all add: shell_runner_def)
  show ?thesis
    unfolding through_script_def n eff_get_def shell_script by (simp add: shell_resolve)
qed

lemma shell_execve:
  "\<exists>ev env'. execve shell_runner ''/s'' [''s'', ''a''] Environ shell_env =
     Ret (Inr (Kernel ''/r/lib/ld-musl-x86_64.so.1'' [''/r/lib/ld-musl-x86_64.so.1'', ''--preload'',
          ''/usr/lib/iamroot/x86_64/libiamroot-musl-x86_64.so.1'', ''--library-path'',
          ''/r/lib:/r/usr/local/lib:/r/usr/lib'', ''--argv0'', ''/bin/sh'', ''/r/bin/sh'', ''-e'', ''/s'', ''a''] ev), env')"
proof -
  obtain a env' where l: "ldso (the_loader shell_runner) ''/r/bin/sh'' (interparg [''/bin/sh'', ''-e'', ''/s''])
       (2 * PATH_MAX) 26 shell_env = Ret (Inr a, env')"
    and words: "strings_of a = Ret [''/r/lib/ld-musl-x86_64.so.1'', ''--preload'',
          ''/usr/lib/iamroot/x86_64/libiamroot-musl-x86_64.so.1'', ''--library-path'',
          ''/r/lib:/r/usr/local/lib:/r/usr/lib'', ''--argv0'', ''/bin/sh'', ''/r/bin/sh'', ''-e'', ''/s'']"
    using shell_ldso by blast
  have room: "2 * PATH_MAX = 8192" by (simp add: PATH_MAX_def)
  have f: "y_ignore shell_runner = None" "x_errno shell_runner = E_OK" "x_re shell_runner = \<lparr>re_ldso = None, re_lib = None\<rparr>"
    by (simp_all add: shell_runner_def)
  have i: "inchroot shell_env = True" by code_simp
  show ?thesis
    by (simp add: execve_def reset_env_def exec_with_def exec_ignored_def f shell_resolve [unfolded room] eff_bind_def
        eff_get_def eff_catch_def eff_ret_def shell_can i room shell_through [simplified] l [unfolded room] words
        is_ldso_def run_ldso_def exec_argv_def ARGS_MAX_def)
qed


theorem exec_arguments_witness:
  "\<exists>prog nargv ev env'. execve shell_runner ''/s'' [''s'', ''a''] Environ shell_env = Ret (Inr (Kernel prog nargv ev), env')
     \<and> (\<exists>front. nargv = front @ [''a''])"
proof -
  obtain prog nargv ev env' where
    run: "execve shell_runner ''/s'' [''s'', ''a''] Environ shell_env = Ret (Inr (Kernel prog nargv ev), env')"
    using shell_execve by blast
  with exec_arguments [of "execve shell_runner ''/s'' [''s'', ''a''] Environ" shell_runner "''/s''" "[''s'', ''a'']" Environ
      0 0 shell_env prog nargv ev env']
  show ?thesis by auto
qed

end
