(* ===== verification/Start.thy ===== *)
theory Start
  imports Ldso
begin

text \<open>
  Where a program starts (\<^verbatim>\<open>__libc_start_main.c\<close>): its first argument is taken from a
  variable, and the objects that are loaded from outside of the chroot are warned about; and the program
  \<^verbatim>\<open>ld-iamroot.so\<close> (\<^verbatim>\<open>ld.c\<close>), which sets up the environment of the library from its
  options and runs a program.
\<close>

section \<open>\<^verbatim>\<open>__libc_start_main\<close>\<close>

definition is_in_iamrootlib :: "env \<Rightarrow> string \<Rightarrow> bool" where
  "is_in_iamrootlib env pathname =
     (case env_get ''IAMROOT_LIB'' env of None \<Rightarrow> False | Some path \<Rightarrow> is_in_path pathname path \<noteq> 0)"

text \<open>Whether a loaded object is warned about.\<close>

definition phdr_warns :: "env \<Rightarrow> string \<Rightarrow> string \<Rightarrow> bool" where
  "phdr_warns env root path \<longleftrightarrow>
     starts_with path slash \<and> \<not> strleq path root \<and>
     \<not> strneq path ''/lib/ld'' 7 \<and> \<not> strneq path ''/lib64/ld'' 9 \<and>
     \<not> strneq (basename path) ''libiamroot'' 10 \<and> \<not> is_in_iamrootlib env path"

text \<open>
  The vector the program is started with, and the objects that are warned about; \<open>objects\<close> are the
  names of \<^verbatim>\<open>dl_iterate_phdr\<close>. With an empty vector the terminator is overwritten.
\<close>

definition start_argv :: "env \<Rightarrow> string list \<Rightarrow> string list run" where
  "start_argv env argv =
     (case env_get ''argv0'' env of None \<Rightarrow> Ret argv
      | Some a \<Rightarrow> if argv = [] then Undef else Ret (argv[0 := a]))"

definition libc_start_main ::
    "(string list \<Rightarrow> 'r) option \<Rightarrow> string list \<Rightarrow> env \<Rightarrow> string list \<Rightarrow> ((errno + 'r) \<times> string list) run" where
  "libc_start_main next objects env argv =
     run_bind (start_argv env argv) (\<lambda>argv'.
       let root = getrootdir env;
           warned = (if root \<noteq> ''/'' then filter (phdr_warns env root) objects else [])
       in Ret (case next of None \<Rightarrow> Inl ENOSYS | Some f \<Rightarrow> Inr (f argv'), warned))"

section \<open>\<^verbatim>\<open>ld-iamroot.so\<close>\<close>

text \<open>The options, in the order of the command line.\<close>

datatype ld_option =
    Argv0 string | Preload string | Library_path string | Origin string | Multiarch
  | Root string | Cwd string | Debug | Version | Help | Unknown

record ld_opts =
  o_argv0 :: "string option"
  o_preload :: "string option"
  o_library_path :: "string option"
  o_origin :: "string option"
  o_multiarch :: bool
  o_root :: "string option"
  o_cwd :: "string option"
  o_debug :: nat

definition no_opts :: ld_opts where
  "no_opts = \<lparr>o_argv0 = None, o_preload = None, o_library_path = None, o_origin = None, o_multiarch = False,
     o_root = None, o_cwd = None, o_debug = 0\<rparr>"

text \<open>The loop of \<^verbatim>\<open>getopt_long\<close>: \<open>Inl\<close> is the exit status.\<close>

fun ld_getopt :: "ld_option list \<Rightarrow> ld_opts \<Rightarrow> int + ld_opts" where
  "ld_getopt [] o' = Inr o'"
| "ld_getopt (opt # opts) o' =
     (case opt of
        Argv0 s \<Rightarrow> ld_getopt opts (o'\<lparr>o_argv0 := Some s\<rparr>)
      | Preload s \<Rightarrow> ld_getopt opts (o'\<lparr>o_preload := Some s\<rparr>)
      | Library_path s \<Rightarrow> ld_getopt opts (o'\<lparr>o_library_path := Some s\<rparr>)
      | Origin s \<Rightarrow> ld_getopt opts (o'\<lparr>o_origin := Some s\<rparr>)
      | Multiarch \<Rightarrow> ld_getopt opts (o'\<lparr>o_multiarch := True\<rparr>)
      | Root s \<Rightarrow> ld_getopt opts (o'\<lparr>o_root := Some s\<rparr>)
      | Cwd s \<Rightarrow> ld_getopt opts (o'\<lparr>o_cwd := Some s\<rparr>)
      | Debug \<Rightarrow> ld_getopt opts (o'\<lparr>o_debug := Suc (o_debug o')\<rparr>)
      | Version \<Rightarrow> Inl 0
      | Help \<Rightarrow> Inl 0
      | Unknown \<Rightarrow> Inl 1)"

text \<open>
  The callback of \<^verbatim>\<open>dl_iterate_phdr\<close> that looks for the run path of the program: an object is
  its name and the dynamic tables of its program headers, \<open>str\<close> the texts in memory.
\<close>

definition TAG_STRTAB :: nat where "TAG_STRTAB = 5"
definition TAG_RUNPATH :: nat where "TAG_RUNPATH = 29"

fun dyn_val :: "nat \<Rightarrow> (nat \<times> 64 word) list \<Rightarrow> 64 word option" where
  "dyn_val tag [] = None"
| "dyn_val tag ((t, v) # dyn) = (if t = tag then Some v else dyn_val tag dyn)"

fun phdr_runpath :: "(64 word \<Rightarrow> string) \<Rightarrow> (nat \<times> 64 word) list list \<Rightarrow> string option" where
  "phdr_runpath str [] = None"
| "phdr_runpath str (dyn # ds) =
     (case dyn_val TAG_STRTAB dyn of
        None \<Rightarrow> phdr_runpath str ds
      | Some strtab \<Rightarrow>
          if strtab = 0 then phdr_runpath str ds
          else (case dyn_val TAG_RUNPATH dyn of None \<Rightarrow> phdr_runpath str ds | Some off \<Rightarrow> Some (str (strtab + off))))"

text \<open>Every answer ends the iteration, so that the first object decides.\<close>

definition ld_callback ::
    "(64 word \<Rightarrow> string) \<Rightarrow> string \<Rightarrow> (nat \<times> 64 word) list list \<Rightarrow> errno + string option" where
  "ld_callback str name dyns =
     (if name \<noteq> [] then Inr None
      else case phdr_runpath str dyns of None \<Rightarrow> Inl ENOENT | Some p \<Rightarrow> Inr (Some p))"

text \<open>What \<^verbatim>\<open>main\<close> ends with: an exit status, or a call of \<^verbatim>\<open>execvpe\<close>.\<close>

datatype ld_end = Exit int | Run string "string list" env

definition or_exit :: "errno + 'a \<Rightarrow> ('a \<Rightarrow> ld_end \<times> 'w) \<Rightarrow> 'w \<Rightarrow> ld_end \<times> 'w" where
  "or_exit r f w = (case r of Inl e \<Rightarrow> (Exit 1, w) | Inr x \<Rightarrow> f x)"

definition set_opt :: "string \<Rightarrow> string option \<Rightarrow> env \<Rightarrow> errno + env" where
  "set_opt var val env = (case val of None \<Rightarrow> Inr env | Some v \<Rightarrow> env_set var v True env)"

text \<open>
  The options \<^verbatim>\<open>--root\<close> and \<^verbatim>\<open>--cwd\<close>, with the calls of the host;
  \<^verbatim>\<open>getcwd\<close> is the wrapper of the library.
\<close>

definition ld_getcwd :: "env \<Rightarrow> errno + string \<Rightarrow> errno + string" where
  "ld_getcwd env ans =
     (case ans of Inl e \<Rightarrow> Inl e
      | Inr d \<Rightarrow> (case striprootdir env d of None \<Rightarrow> Inl EINVAL | Some s \<Rightarrow> Inr s))"

definition ld_chdir ::
    "(string \<Rightarrow> 'w \<Rightarrow> errno option \<times> 'w) \<Rightarrow> string option \<Rightarrow> ('w \<Rightarrow> ld_end \<times> 'w) \<Rightarrow> 'w \<Rightarrow> ld_end \<times> 'w" where
  "ld_chdir cd dir f w =
     (case dir of None \<Rightarrow> f w
      | Some d \<Rightarrow> (case cd d w of (Some e, w') \<Rightarrow> (Exit 1, w') | (None, w') \<Rightarrow> f w'))"

definition ld_root ::
    "(string \<Rightarrow> 'w \<Rightarrow> errno option \<times> 'w) \<Rightarrow> ('w \<Rightarrow> nat \<Rightarrow> errno + string) \<Rightarrow> string option \<Rightarrow> env
     \<Rightarrow> (env \<Rightarrow> 'w \<Rightarrow> ld_end \<times> 'w) \<Rightarrow> 'w \<Rightarrow> ld_end \<times> 'w" where
  "ld_root cd cwd root env f w =
     ld_chdir cd root (\<lambda>w.
       if root = None then f env w
       else or_exit (ld_getcwd env (cwd w PATH_MAX)) (\<lambda>d. or_exit (env_set ROOT_VAR d True env) (\<lambda>env'. f env' w) w) w) w"

text \<open>The origin of the library, and the libraries to preload, which replace those of the option.\<close>

definition ld_origin :: "string \<Rightarrow> errno + string option \<Rightarrow> string option \<Rightarrow> env \<Rightarrow> errno + string option" where
  "ld_origin dflt runpath origin env =
     (case (case origin of None \<Rightarrow> env_get ''IAMROOT_ORIGIN'' env | o' \<Rightarrow> o') of
        Some p \<Rightarrow> Inr (Some p)
      | None \<Rightarrow> (case runpath of Inl e \<Rightarrow> if e = ENOENT then Inr (Some dflt) else Inl e | Inr p \<Rightarrow> Inr p))"

definition ld_preload_origin :: "string option \<Rightarrow> env \<Rightarrow> errno + env" where
  "ld_preload_origin origin env =
     (case origin of
        None \<Rightarrow> Inr env
      | Some p \<Rightarrow>
          if p = [] then Inr env
          else (case env_set ''IAMROOT_ORIGIN'' p True env of
              Inl e \<Rightarrow> Inl e
            | Inr env1 \<Rightarrow>
                (case snprintf (p @ ''/libiamroot.so'') BUFSIZ of
                   Inl e \<Rightarrow> Inl e | Inr buf \<Rightarrow> env_set ''LD_PRELOAD'' buf True env1)))"

text \<open>\<open>argv\<close> are the words behind the options, \<open>dflt\<close> is the directory of the installation.\<close>

definition ld_main ::
    "(string \<Rightarrow> 'w \<Rightarrow> errno option \<times> 'w) \<Rightarrow> ('w \<Rightarrow> nat \<Rightarrow> errno + string) \<Rightarrow> string \<Rightarrow> errno + string option
     \<Rightarrow> ld_option list \<Rightarrow> string list \<Rightarrow> env \<Rightarrow> 'w \<Rightarrow> ld_end \<times> 'w" where
  "ld_main cd cwd dflt runpath opts argv env w =
     (case ld_getopt opts no_opts of
        Inl status \<Rightarrow> (Exit status, w)
      | Inr o' \<Rightarrow>
          (case argv of
             [] \<Rightarrow> (Exit 1, w)
           | program # _ \<Rightarrow>
               let argv' = (case o_argv0 o' of None \<Rightarrow> argv | Some a \<Rightarrow> argv[0 := a]) in
               or_exit (set_opt ''LD_PRELOAD'' (o_preload o') env) (\<lambda>env1.
               or_exit (set_opt ''LD_LIBRARY_PATH'' (o_library_path o') env1) (\<lambda>env2.
               or_exit (set_opt ''IAMROOT_MULTIARCH'' (if o_multiarch o' then Some ''1'' else None) env2) (\<lambda>env3.
               ld_root cd cwd (o_root o') env3 (\<lambda>env4.
               ld_chdir cd (o_cwd o') (\<lambda>w.
               or_exit (set_opt ''IAMROOT_DEBUG'' (if 0 < o_debug o' then Some (show_dec (o_debug o')) else None) env4) (\<lambda>env5.
               or_exit (ld_origin dflt runpath (o_origin o') env5) (\<lambda>origin.
               or_exit (ld_preload_origin origin env5) (\<lambda>env6. (Run program argv' env6, w))
                 w) w) w)) w) w) w) w))"

end
