(* ===== verification/Start_Facts.thy ===== *)
theory Start_Facts
  imports Start Exec_Facts
begin

text \<open>
  The first argument of a program, from the vector of the loader to the start of the program, and the
  environment that \<^verbatim>\<open>ld-iamroot.so\<close> makes.
\<close>

section \<open>The first argument\<close>

lemma ldso_args_env:
  assumes "ldso_args s preload libpath rpath interp path a env = Ret (Inr v, env')" and "a ! 0 = Some x"
  shows "ldso_setenv s preload libpath rpath (Some x) env = Ret (Inr (), env')"
  using assms
  by (auto simp: ldso_args_def Let_def eff_Inr)

lemma ldso_setenv_argv0:
  assumes "ldso_setenv s preload libpath rpath (Some x) env = Ret (Inr (), env')" and "support_ok s"
  shows "env_get ''argv0'' env' = (if has_argv0 s then env_get ''argv0'' env else Some x)"
  using assms
  by (auto simp: ldso_setenv_def Let_def eff_bind_def eff_ret_def eff_env_set loader_names support_ok_def ldso_shift_def
      split: if_splits)

text \<open>
  C31: The first argument of a program. A loader without \<^verbatim>\<open>--argv0\<close> starts the program with its
  path, and the library puts the argument of the call back; with the option the loader does that, but
  when the variable \<^verbatim>\<open>argv0\<close> is left over from a program that was run before, the program
  is started with the first argument of that one.
\<close>

theorem program_argv0:
  assumes "support_ok s" and "ws \<noteq> []"
    and "ldso_args s preload libpath rpath interp path (interparg ws) env = Ret (Inr v, env')"
  shows "start_argv env' ((if has_argv0 s then hd ws else path) # args) =
    Ret ((if has_argv0 s \<and> env_get ''argv0'' env \<noteq> None then the (env_get ''argv0'' env) else hd ws) # args)"
proof -
  have "interparg ws ! 0 = Some (hd ws)" using assms(2) by (cases ws) (simp_all add: interparg_def)
  from ldso_setenv_argv0 [OF ldso_args_env [OF assms(3) this] assms(1)]
  show ?thesis by (auto simp: start_argv_def split: option.splits)
qed

definition plain_support :: support where
  "plain_support = no_support\<lparr>has_shift := 1, has_library_path := True\<rparr>"

theorem program_argv0_witness:
  "\<exists>v env1 v' env2.
     ldso_args plain_support [] [] [] ''/lib/ld.so'' ''/bin/busybox'' (interparg [''ls'']) None = Ret (Inr v, env1) \<and>
     start_argv env1 [''/bin/busybox'', ''-l''] = Ret [''ls'', ''-l''] \<and>
     ldso_args full_support [] [] [] ''/lib/ld.so'' ''/bin/cat'' (interparg [''cat'']) env1 = Ret (Inr v', env2) \<and>
     start_argv env2 [''cat'', ''x''] = Ret [''ls'', ''x'']"
proof -
  have ok: "support_ok plain_support" "support_ok full_support" by code_simp+
  obtain v env1 where a: "ldso_args plain_support [] [] [] ''/lib/ld.so'' ''/bin/busybox'' (interparg [''ls'']) None = Ret (Inr v, env1)"
    using ldso_args_words [OF ok(1), of "[''ls'']" "[]" "[]" "[]" "''/lib/ld.so''" "''/bin/busybox''" None] by auto
  obtain v' env2 where b: "ldso_args full_support [] [] [] ''/lib/ld.so'' ''/bin/cat'' (interparg [''cat'']) env1 = Ret (Inr v', env2)"
    using ldso_args_words [OF ok(2), of "[''cat'']" "[]" "[]" "[]" "''/lib/ld.so''" "''/bin/cat''" env1] by auto
  have "env_get ''argv0'' env1 = Some ''ls''"
    using ldso_setenv_argv0 [OF ldso_args_env [OF a, of "''ls''"] ok(1)]
    by (simp add: interparg_def plain_support_def no_support_def)
  with program_argv0 [OF ok(1) _ a, of "[''-l'']"] program_argv0 [OF ok(2) _ b, of "[''x'']"] a b
  show ?thesis by (auto simp: plain_support_def full_support_def no_support_def)
qed

section \<open>The environment of \<^verbatim>\<open>ld-iamroot.so\<close>\<close>

lemma ld_names: "valid_name ''IAMROOT_MULTIARCH''" "valid_name ''IAMROOT_DEBUG''" "valid_name ''IAMROOT_ORIGIN''"
  by code_simp+

lemma set_opt_get:
  "set_opt var val env = Inr env' \<Longrightarrow> valid_name var \<Longrightarrow>
    env_get m env' = (if m = var \<and> val \<noteq> None then val else env_get m env)"
  by (auto simp: set_opt_def env_set_overwrite split: option.splits)

lemma ld_preload_origin_get:
  assumes "ld_preload_origin origin env = Inr env'"
  shows "env_get m env' =
    (if origin = None \<or> origin = Some [] then env_get m env
     else if m = ''LD_PRELOAD'' then Some (the origin @ ''/libiamroot.so'')
     else if m = ''IAMROOT_ORIGIN'' then origin else env_get m env)"
  using assms
  by (auto simp: ld_preload_origin_def env_set_overwrite loader_names ld_names snprintf_def split: option.splits if_splits)

lemma or_exit_Run: "or_exit r f w = (Run p a e, w') \<longleftrightarrow> (\<exists>x. r = Inr x \<and> f x = (Run p a e, w'))"
  by (cases r) (auto simp: or_exit_def)

lemma ld_chdir_Run:
  "ld_chdir cd dir f w = (Run p a e, w') \<longleftrightarrow>
    (case dir of None \<Rightarrow> f w = (Run p a e, w')
     | Some d \<Rightarrow> \<exists>w1. cd d w = (None, w1) \<and> f w1 = (Run p a e, w'))"
  by (auto simp: ld_chdir_def split: option.splits prod.splits)

lemma ld_root_Run:
  "ld_root cd cwd root env f w = (Run p a e, w') \<longleftrightarrow>
    (case root of None \<Rightarrow> f env w = (Run p a e, w')
     | Some r \<Rightarrow> \<exists>w1 d env'. cd r w = (None, w1) \<and> ld_getcwd env (cwd w1 PATH_MAX) = Inr d \<and>
         env_set ROOT_VAR d True env = Inr env' \<and> f env' w1 = (Run p a e, w'))"
  by (cases root) (auto simp: ld_root_def ld_chdir_Run or_exit_Run)

text \<open>
  C32: What \<^verbatim>\<open>ld-iamroot.so\<close> runs: the program with its arguments, in an environment whose root
  directory is the working directory after the change to the option's directory, and that preloads the
  library of the origin alone: the libraries of the option \<^verbatim>\<open>--preload\<close> are lost.
\<close>

theorem ld_main_environment:
  assumes "ld_main cd cwd dflt runpath opts argv env w = (Run p a env', w')"
    and "ld_getopt opts no_opts = Inr opt" and "o_origin opt = Some origin" and "origin \<noteq> []"
  shows "p = hd argv \<and> tl a = tl argv \<and> env_get ''LD_PRELOAD'' env' = Some (origin @ ''/libiamroot.so'') \<and>
    (o_library_path opt \<noteq> None \<longrightarrow> env_get ''LD_LIBRARY_PATH'' env' = o_library_path opt) \<and>
    (case o_root opt of
       None \<Rightarrow> getroot env' = getroot env
     | Some r \<Rightarrow> \<exists>w1 env1 d. cd r w = (None, w1) \<and> ld_getcwd env1 (cwd w1 PATH_MAX) = Inr d \<and>
         getroot env1 = getroot env \<and> getroot env' = Some d)"
proof -
  obtain program rest where argv: "argv = program # rest"
    using assms(1,2) by (cases argv) (auto simp: ld_main_def)
  let ?dbg = "if 0 < o_debug opt then Some (show_dec (o_debug opt)) else None"
  let ?fin = "\<lambda>env4 w. ld_chdir cd (o_cwd opt) (\<lambda>w.
      or_exit (set_opt ''IAMROOT_DEBUG'' ?dbg env4) (\<lambda>env5.
      or_exit (ld_origin dflt runpath (o_origin opt) env5) (\<lambda>origin.
      or_exit (ld_preload_origin origin env5)
        (\<lambda>env6. (Run program (case o_argv0 opt of None \<Rightarrow> program # rest | Some a \<Rightarrow> (program # rest)[0 := a]) env6, w)) w) w) w) w"
  obtain env1 env2 env3 where
      e1: "set_opt ''LD_PRELOAD'' (o_preload opt) env = Inr env1"
    and e2: "set_opt ''LD_LIBRARY_PATH'' (o_library_path opt) env1 = Inr env2"
    and e3: "set_opt ''IAMROOT_MULTIARCH'' (if o_multiarch opt then Some ''1'' else None) env2 = Inr env3"
    and root: "ld_root cd cwd (o_root opt) env3 ?fin w = (Run p a env', w')"
    using assms(1,2) by (auto simp: ld_main_def argv Let_def or_exit_Run)
  obtain env4 w1 where
      e4: "case o_root opt of None \<Rightarrow> env4 = env3
      | Some r \<Rightarrow> cd r w = (None, w1) \<and> (\<exists>d. ld_getcwd env3 (cwd w1 PATH_MAX) = Inr d \<and> env_set ROOT_VAR d True env3 = Inr env4)"
    and en: "\<exists>w1. ?fin env4 w1 = (Run p a env', w')"
    using root unfolding ld_root_Run by (cases "o_root opt") auto
  from en obtain w2 env5 where
      e5: "set_opt ''IAMROOT_DEBUG'' ?dbg env4 = Inr env5"
    and e6: "ld_preload_origin (Some origin) env5 = Inr env'"
    and r: "p = program" "a = (case o_argv0 opt of None \<Rightarrow> program # rest | Some x \<Rightarrow> (program # rest)[0 := x])"
    using assms(3) unfolding ld_chdir_Run or_exit_Run
    by (cases "o_cwd opt") (auto simp: or_exit_Run ld_origin_def)
  note g = set_opt_get [OF e1 loader_names(1)] set_opt_get [OF e2 loader_names(2)] set_opt_get [OF e3 ld_names(1)]
    set_opt_get [OF e5 ld_names(2)] ld_preload_origin_get [OF e6]
  have m: "env_get m env4 = (if m = ROOT_VAR \<and> o_root opt \<noteq> None then env_get m env4 else env_get m env3)" for m
    using e4 by (auto simp: env_set_overwrite split: option.splits)
  have root_old: "env_get ROOT_VAR env3 = env_get ROOT_VAR env"
    by (simp add: g ROOT_VAR_def)
  have keep: "env_get m env4 = env_get m env3" if "m \<noteq> ROOT_VAR" for m
    using e4 that by (auto simp: env_set_overwrite split: option.splits)
  have new: "env_get ROOT_VAR env' = env_get ROOT_VAR env4"
    by (simp add: g(4,5) ROOT_VAR_def)
  have "env_get ''LD_PRELOAD'' env' = Some (origin @ ''/libiamroot.so'')"
    using assms(4) by (simp add: g(5))
  moreover have "env_get ''LD_LIBRARY_PATH'' env' = o_library_path opt" if "o_library_path opt \<noteq> None"
    using that by (simp add: g keep ROOT_VAR_def)
  moreover have "case o_root opt of None \<Rightarrow> getroot env' = getroot env
     | Some r \<Rightarrow> \<exists>w1 env1 d. cd r w = (None, w1) \<and> ld_getcwd env1 (cwd w1 PATH_MAX) = Inr d \<and>
         getroot env1 = getroot env \<and> getroot env' = Some d"
    using e4 root_old new by (auto simp: getroot_def env_set_overwrite split: option.splits)
  ultimately show ?thesis using r by (auto simp: argv split: option.splits)
qed

theorem ld_main_environment_witness:
  "\<exists>env'. ld_main (\<lambda>d w. (None, d)) (\<lambda>w n. Inr w) ''/opt'' (Inl ENOENT)
       [Root ''/r'', Preload ''/x.so'', Origin ''/lib'', Argv0 ''sh''] [''/bin/busybox'', ''-c''] None '''' =
      (Run ''/bin/busybox'' [''sh'', ''-c''] env', ''/r'') \<and>
     env_get ''LD_PRELOAD'' env' = Some ''/lib/libiamroot.so'' \<and> getroot env' = Some ''/r''"
proof -
  let ?o = "no_opts\<lparr>o_root := Some ''/r'', o_preload := Some ''/x.so'', o_origin := Some ''/lib'', o_argv0 := Some ''sh''\<rparr>"
  let ?env = "Some [''LD_PRELOAD=/lib/libiamroot.so'', ''IAMROOT_ROOT=/r'', ''IAMROOT_ORIGIN=/lib'']"
  let ?m = "ld_main (\<lambda>d w. (None, d)) (\<lambda>w n. Inr w) ''/opt'' (Inl ENOENT)
       [Root ''/r'', Preload ''/x.so'', Origin ''/lib'', Argv0 ''sh''] [''/bin/busybox'', ''-c''] None ''''"
  have m: "?m = (Run ''/bin/busybox'' [''sh'', ''-c''] ?env, ''/r'')" by code_simp
  have o: "ld_getopt [Root ''/r'', Preload ''/x.so'', Origin ''/lib'', Argv0 ''sh''] no_opts = Inr ?o" by simp
  have "getroot ?env = Some ''/r''" by code_simp
  with ld_main_environment [OF m o, of "''/lib''"] m show ?thesis by (auto simp: no_opts_def)
qed

end
