(* ===== verification/Db.thy ===== *)
theory Db
  imports Numbers
begin

text \<open>
  What the parsers of the user, group and shadow databases share (\<^verbatim>\<open>passwd.c\<close>,
  \<^verbatim>\<open>group.c\<close>, \<^verbatim>\<open>shadow.c\<close>): lines of a stream, fields of a line, numbers, the search for
  an entry and the static stream of an iteration. A line is the memory that \<^verbatim>\<open>getline\<close>
  filled, with two null bytes at its end; what is behind them is not known and reading it is
  \<open>Undef\<close>.
\<close>

section \<open>Streams\<close>

text \<open>The text that is left, and the error that \<^verbatim>\<open>ferror\<close> sees at its end.\<close>

record stream =
  st_text :: string
  st_error :: "errno option"

definition newline :: char where "newline = CHR 0x0A"

definition next_line :: "string \<Rightarrow> string" where
  "next_line t = take (Suc (length (takeWhile (\<lambda>c. c \<noteq> newline) t))) t"

definition getline :: "stream \<Rightarrow> (errno option + string) \<times> stream" where
  "getline f =
     (if st_text f = [] then (Inl (st_error f), f)
      else let l = next_line (st_text f) in (Inr l, f\<lparr>st_text := drop (length l) (st_text f)\<rparr>))"

text \<open>The last byte of the line is replaced by a null byte, a line break or not.\<close>

definition line_mem :: "string \<Rightarrow> string" where
  "line_mem l = butlast l @ [NUL, NUL]"

lemma next_line_length: "t \<noteq> [] \<Longrightarrow> 0 < length (next_line t)" "length (next_line t) \<le> length t"
  by (auto simp: next_line_def)

lemma getline_shorter: "getline f = (Inr l, f') \<Longrightarrow> length (st_text f') < length (st_text f)"
  using next_line_length(1) [of "st_text f"] by (auto simp: getline_def Let_def split: if_splits)

section \<open>Fields\<close>

definition sep :: char where "sep = CHR '':''"

definition opt_bind :: "'a option run \<Rightarrow> ('a \<Rightarrow> 'b option run) \<Rightarrow> 'b option run" where
  "opt_bind m f = run_bind m (\<lambda>r. case r of None \<Rightarrow> Ret None | Some x \<Rightarrow> f x)"

definition c_str :: "string \<Rightarrow> string" where
  "c_str m = takeWhile (\<lambda>c. c \<noteq> NUL) m"

text \<open>\<^verbatim>\<open>strchr (s, ':')\<close>: the text in front of the separator and the memory behind it.\<close>

definition field :: "string \<Rightarrow> (string \<times> string) option run" where
  "field m =
     (let b = takeWhile (\<lambda>c. c \<noteq> sep \<and> c \<noteq> NUL) m
      in case drop (length b) m of [] \<Rightarrow> Undef | c # r \<Rightarrow> Ret (if c = sep then Some (b, r) else None))"

text \<open>
  The loop of \<^verbatim>\<open>atou\<close>: the comparison with \<open>10\<close> is signed, so that every character below the digits
  counts as one, the null byte too.
\<close>

fun read_number :: "'w::len word \<Rightarrow> string \<Rightarrow> ('w word \<times> string) run" where
  "read_number x [] = Undef"
| "read_number x (c # m) =
     (if schar c - 48 < 10 then read_number (10 * x + word_of_int (schar c - 48)) m else Ret (x, c # m))"

definition atou :: "string \<Rightarrow> (32 word \<times> string) run" where
  "atou m = read_number 0 m"

definition number :: "string \<Rightarrow> (32 word \<times> string) option run" where
  "number m =
     run_bind (atou m) (\<lambda>(x, r). case r of [] \<Rightarrow> Undef | c # r' \<Rightarrow> Ret (if c = sep then Some (x, r') else None))"

section \<open>Entries\<close>

text \<open>Lines that are no entry are skipped. The results are the error, the entry and the stream.\<close>

function next_entry :: "(string \<Rightarrow> 'a option run) \<Rightarrow> stream \<Rightarrow> (errno option \<times> 'a option \<times> stream) run" where
  "next_entry parse f =
     (case getline f of
        (Inl err, f') \<Rightarrow> Ret (err, None, f')
      | (Inr l, f') \<Rightarrow>
          (case parse (line_mem l) of
             Ret (Some x) \<Rightarrow> Ret (None, Some x, f')
           | Ret None \<Rightarrow> next_entry parse f'
           | Err e \<Rightarrow> Err e | Undef \<Rightarrow> Undef | Diverge \<Rightarrow> Diverge))"
  by pat_completeness auto
termination
  by (relation "measure (\<lambda>(_, f). length (st_text f))") (auto dest: getline_shorter [OF sym])

declare next_entry.simps [simp del]

lemma next_entry_shorter:
  "next_entry parse f = Ret (err, Some x, f') \<Longrightarrow> length (st_text f') < length (st_text f)"
proof (induction parse f rule: next_entry.induct)
  case (1 parse f)
  show ?case
  proof (cases "getline f")
    case (Pair r f1)
    show ?thesis
    proof (cases r)
      case (Inl err')
      with 1(2) Pair show ?thesis by (simp add: next_entry.simps [of parse f])
    next
      case (Inr l)
      have s: "length (st_text f1) < length (st_text f)" using Pair Inr by (simp add: getline_shorter)
      show ?thesis
      proof (cases "parse (line_mem l) = Ret None")
        case True
        with 1(2) Pair Inr have "next_entry parse f1 = Ret (err, Some x, f')"
          by (simp add: next_entry.simps [of parse f])
        from 1(1) [OF Pair [symmetric] Inr True refl this] s show ?thesis by simp
      next
        case False
        with 1(2) Pair Inr s show ?thesis
          by (auto simp: next_entry.simps [of parse f] split: run.splits option.splits)
      qed
    qed
  qed
qed

text \<open>The first entry with a property, or the end.\<close>

function find_entry ::
    "(string \<Rightarrow> 'a option run) \<Rightarrow> ('a \<Rightarrow> bool) \<Rightarrow> stream \<Rightarrow> (errno option \<times> 'a option) run" where
  "find_entry parse P f =
     (case next_entry parse f of
        Ret (err, None, f') \<Rightarrow> Ret (err, None)
      | Ret (err, Some x, f') \<Rightarrow> if P x then Ret (err, Some x) else find_entry parse P f'
      | Err e \<Rightarrow> Err e | Undef \<Rightarrow> Undef | Diverge \<Rightarrow> Diverge)"
  by pat_completeness auto
termination
  by (relation "measure (\<lambda>(_, _, f). length (st_text f))") (auto dest: next_entry_shorter)

declare find_entry.simps [simp del]

text \<open>With the stream that \<^verbatim>\<open>fopen\<close> gives, or its error.\<close>

definition find_in ::
    "(string \<Rightarrow> 'a option run) \<Rightarrow> ('a \<Rightarrow> bool) \<Rightarrow> errno + stream \<Rightarrow> (errno option \<times> 'a option) run" where
  "find_in parse P file = (case file of Inl e \<Rightarrow> Ret (Some e, None) | Inr f \<Rightarrow> find_entry parse P f)"

text \<open>The reentrant calls: \<open>need\<close> is the room that the entry needs in the caller's buffer.\<close>

definition fit_result :: "nat \<Rightarrow> nat \<Rightarrow> errno option \<times> 'a option \<Rightarrow> errno option \<times> 'a option" where
  "fit_result bufsiz need r = (if snd r \<noteq> None \<and> bufsiz < need then (Some ERANGE, None) else r)"

section \<open>Iteration\<close>

text \<open>The static stream, \<open>None\<close> when there is none; a stream that cannot be opened ends the iteration.\<close>

definition get_entry ::
    "(string \<Rightarrow> 'a option run) \<Rightarrow> errno + stream \<Rightarrow> stream option \<Rightarrow> ('a option \<times> stream option) run" where
  "get_entry parse file st =
     (case (case st of Some f \<Rightarrow> Inr f | None \<Rightarrow> file) of
        Inl e \<Rightarrow> Ret (None, None)
      | Inr f \<Rightarrow> run_bind (next_entry parse f) (\<lambda>(err, x, f'). Ret (x, Some f')))"

text \<open>\<^verbatim>\<open>fgetpwent\<close> and \<^verbatim>\<open>fgetgrent\<close>: \<open>e\<close> is \<^verbatim>\<open>errno\<close> before the call.\<close>

definition fget_entry ::
    "(string \<Rightarrow> 'a option run) \<Rightarrow> errno \<Rightarrow> stream \<Rightarrow> ('a option \<times> errno \<times> stream) run" where
  "fget_entry parse e f =
     run_bind (next_entry parse f) (\<lambda>(err, x, f').
       let e1 = (case err of None \<Rightarrow> e | Some y \<Rightarrow> y)
       in Ret (x, if x = None \<and> e1 = E_OK then ENOENT else e1, f'))"

end
