(* ===== verification/Passwd.thy ===== *)
theory Passwd
  imports Db
begin

text \<open>
  The user database (\<^verbatim>\<open>passwd.c\<close>). \<open>file\<close> is what \<^verbatim>\<open>fopen\<close> gives for
  \<^verbatim>\<open>/etc/passwd\<close>, the file below the root directory.
\<close>

record passwd =
  pw_name :: string
  pw_passwd :: string
  pw_uid :: "32 word"
  pw_gid :: "32 word"
  pw_gecos :: string
  pw_dir :: string
  pw_shell :: string

text \<open>The loop body of \<^verbatim>\<open>__getpwent_a\<close>: the first character of the name is not looked at.\<close>

definition parse_passwd :: "string \<Rightarrow> passwd option run" where
  "parse_passwd m =
     (case m of [] \<Rightarrow> Undef
      | c # m1 \<Rightarrow>
          opt_bind (field m1) (\<lambda>(n, m2).
          opt_bind (field m2) (\<lambda>(pass, m3).
          opt_bind (number m3) (\<lambda>(uid, m4).
          opt_bind (number m4) (\<lambda>(gid, m5).
          opt_bind (field m5) (\<lambda>(gecos, m6).
          opt_bind (field m6) (\<lambda>(dir, m7).
            Ret (Some \<lparr>pw_name = c_str (c # n), pw_passwd = pass, pw_uid = uid, pw_gid = gid,
                       pw_gecos = gecos, pw_dir = dir, pw_shell = c_str m7\<rparr>))))))))"

definition getpwent_a :: "stream \<Rightarrow> (errno option \<times> passwd option \<times> stream) run" where
  "getpwent_a f = next_entry parse_passwd f"

definition getpw_a :: "string option \<Rightarrow> 32 word \<Rightarrow> errno + stream \<Rightarrow> (errno option \<times> passwd option) run" where
  "getpw_a name uid file =
     find_in parse_passwd (\<lambda>pw. case name of Some n \<Rightarrow> n = pw_name pw | None \<Rightarrow> pw_uid pw = uid) file"

text \<open>\<open>len\<close> is the size of the line buffer that \<^verbatim>\<open>getline\<close> left.\<close>

definition getpw_r ::
    "nat \<Rightarrow> string option \<Rightarrow> 32 word \<Rightarrow> nat \<Rightarrow> errno + stream \<Rightarrow> (errno option \<times> passwd option) run" where
  "getpw_r len name uid bufsiz file =
     run_bind (getpw_a name uid file) (\<lambda>r. Ret (fit_result bufsiz len r))"

definition getpwnam_r where
  "getpwnam_r len name bufsiz file = getpw_r len (Some name) 0 bufsiz file"

definition getpwuid_r where
  "getpwuid_r len uid bufsiz file = getpw_r len None uid bufsiz file"

definition fgetpwent :: "errno \<Rightarrow> stream \<Rightarrow> (passwd option \<times> errno \<times> stream) run" where
  "fgetpwent e f = fget_entry parse_passwd e f"

definition setpwent :: "stream option \<Rightarrow> stream option" where
  "setpwent st = None"

definition endpwent :: "stream option \<Rightarrow> stream option" where
  "endpwent st = setpwent st"

definition getpwent :: "errno + stream \<Rightarrow> stream option \<Rightarrow> (passwd option \<times> stream option) run" where
  "getpwent file st = get_entry parse_passwd file st"

definition getpwuid :: "32 word \<Rightarrow> errno + stream \<Rightarrow> passwd option run" where
  "getpwuid uid file = run_bind (getpw_a None uid file) (\<lambda>r. Ret (snd r))"

definition getpwnam :: "string \<Rightarrow> errno + stream \<Rightarrow> passwd option run" where
  "getpwnam name file = run_bind (getpw_a (Some name) 0 file) (\<lambda>r. Ret (snd r))"

text \<open>\<^verbatim>\<open>putpwent\<close>: the line that is appended to the stream.\<close>

definition passwd_line :: "passwd \<Rightarrow> string" where
  "passwd_line pw =
     pw_name pw @ '':'' @ pw_passwd pw @ '':'' @ show_dec (unat (pw_uid pw)) @ '':'' @ show_dec (unat (pw_gid pw))
     @ '':'' @ pw_gecos pw @ '':'' @ pw_dir pw @ '':'' @ pw_shell pw @ [newline]"

definition putpwent :: "passwd \<Rightarrow> string \<Rightarrow> string" where
  "putpwent pw t = t @ passwd_line pw"

end
