(* ===== verification/Group.thy ===== *)
theory Group
  imports Db
begin

text \<open>
  The group database (\<^verbatim>\<open>group.c\<close>). \<open>file\<close> is what \<^verbatim>\<open>fopen\<close> gives for
  \<^verbatim>\<open>/etc/group\<close>.
\<close>

record grent =
  gr_name :: string
  gr_passwd :: string
  gr_gid :: "32 word"
  gr_mem :: "string list"

definition comma :: char where "comma = CHR '',''"

text \<open>
  The members: the character behind a separator starts a member and is not looked at as a
  separator. \<open>done\<close> are the members in front, \<open>cur\<close> the text of the last one.
\<close>

fun split_mem :: "string list \<Rightarrow> string \<Rightarrow> string \<Rightarrow> string list run" where
  "split_mem done cur [] = Undef"
| "split_mem done cur [c] = (if c = NUL then Ret (done @ [cur]) else Undef)"
| "split_mem done cur (c # d # m) =
     (if c = NUL then Ret (done @ [cur])
      else if c = comma then split_mem (done @ [cur]) [d] m
      else split_mem done (cur @ [c]) (d # m))"

definition members :: "string \<Rightarrow> string list run" where
  "members m =
     (if m = [] then Undef
      else if hd m = NUL then Ret []
      else run_bind (split_mem [] [] m) (\<lambda>ms. Ret (map c_str ms)))"

text \<open>\<^verbatim>\<open>*nmem\<close>, which is not less than the number of members.\<close>

definition count_mem :: "string \<Rightarrow> nat" where
  "count_mem m = (let s = c_str m in (if s = [] then 0 else 1) + length (filter (\<lambda>c. c = comma) s))"

definition parse_group :: "string \<Rightarrow> (grent \<times> nat) option run" where
  "parse_group m =
     (case m of [] \<Rightarrow> Undef
      | c # m1 \<Rightarrow>
          opt_bind (field m1) (\<lambda>(n, m2).
          opt_bind (field m2) (\<lambda>(pass, m3).
          opt_bind (number m3) (\<lambda>(gid, m4).
            run_bind (members m4) (\<lambda>ms.
              Ret (Some (\<lparr>gr_name = c_str (c # n), gr_passwd = pass, gr_gid = gid, gr_mem = ms\<rparr>, count_mem m4)))))))"

definition getgrent_a :: "stream \<Rightarrow> (errno option \<times> (grent \<times> nat) option \<times> stream) run" where
  "getgrent_a f = next_entry parse_group f"

definition getgr_a ::
    "string option \<Rightarrow> 32 word \<Rightarrow> errno + stream \<Rightarrow> (errno option \<times> (grent \<times> nat) option) run" where
  "getgr_a name gid file =
     find_in parse_group (\<lambda>(gr, _). case name of Some n \<Rightarrow> n = gr_name gr | None \<Rightarrow> gr_gid gr = gid) file"

text \<open>The entry, a pointer for every member and for the end, and 32 bytes for the alignment.\<close>

definition getgr_r ::
    "nat \<Rightarrow> string option \<Rightarrow> 32 word \<Rightarrow> nat \<Rightarrow> errno + stream \<Rightarrow> (errno option \<times> grent option) run" where
  "getgr_r len name gid bufsiz file =
     run_bind (getgr_a name gid file) (\<lambda>r.
       case fit_result bufsiz (len + ((case snd r of None \<Rightarrow> 0 | Some (_, nmem) \<Rightarrow> nmem) + 1) * 8 + 32) r of
         (err, x) \<Rightarrow> Ret (err, map_option fst x))"

definition getgrnam_r where
  "getgrnam_r len name bufsiz file = getgr_r len (Some name) 0 bufsiz file"

definition getgrgid_r where
  "getgrgid_r len gid bufsiz file = getgr_r len None gid bufsiz file"

definition fgetgrent :: "errno \<Rightarrow> stream \<Rightarrow> (grent option \<times> errno \<times> stream) run" where
  "fgetgrent e f = run_bind (fget_entry parse_group e f) (\<lambda>(x, r). Ret (map_option fst x, r))"

definition setgrent :: "stream option \<Rightarrow> stream option" where
  "setgrent st = None"

definition endgrent :: "stream option \<Rightarrow> stream option" where
  "endgrent st = setgrent st"

definition getgrent :: "errno + stream \<Rightarrow> stream option \<Rightarrow> (grent option \<times> stream option) run" where
  "getgrent file st = run_bind (get_entry parse_group file st) (\<lambda>(x, st'). Ret (map_option fst x, st'))"

definition getgrgid :: "32 word \<Rightarrow> errno + stream \<Rightarrow> grent option run" where
  "getgrgid gid file = run_bind (getgr_a None gid file) (\<lambda>r. Ret (map_option fst (snd r)))"

definition getgrnam :: "string \<Rightarrow> errno + stream \<Rightarrow> grent option run" where
  "getgrnam name file = run_bind (getgr_a (Some name) 0 file) (\<lambda>r. Ret (map_option fst (snd r)))"

text \<open>\<^verbatim>\<open>putgrent\<close>: the line that is appended to the stream.\<close>

definition group_line :: "grent \<Rightarrow> string" where
  "group_line gr =
     gr_name gr @ '':'' @ gr_passwd gr @ '':'' @ show_dec (unat (gr_gid gr)) @ '':'' @ join_with comma (gr_mem gr)
     @ [newline]"

definition putgrent :: "grent \<Rightarrow> string \<Rightarrow> string" where
  "putgrent gr t = t @ group_line gr"

section \<open>The groups of a user\<close>

text \<open>
  The loop of \<^verbatim>\<open>getgrouplist\<close>: \<open>n\<close> counts the groups, of which the first \<open>nlim\<close> are
  written to the caller's array; none when \<open>nlim\<close>, an \<^verbatim>\<open>int\<close>, is negative.
\<close>

function group_loop ::
    "string \<Rightarrow> int \<Rightarrow> nat \<Rightarrow> 32 word list \<Rightarrow> stream \<Rightarrow> (errno option \<times> nat \<times> 32 word list) run" where
  "group_loop user nlim n out f =
     (case next_entry parse_group f of
        Ret (err, None, f') \<Rightarrow> Ret (err, n, out)
      | Ret (err, Some (gr, _), f') \<Rightarrow>
          if user \<notin> set (gr_mem gr) then group_loop user nlim n out f'
          else group_loop user nlim (Suc n) (if int (Suc n) \<le> nlim then out @ [gr_gid gr] else out) f'
      | Err e \<Rightarrow> Err e | Undef \<Rightarrow> Undef | Diverge \<Rightarrow> Diverge)"
  by pat_completeness auto
termination
  by (relation "measure (\<lambda>(_, _, _, _, f). length (st_text f))") (auto dest: next_entry_shorter)

declare group_loop.simps [simp del]

text \<open>The result, what \<^verbatim>\<open>*ngroups\<close> is afterwards, and the groups that were written.\<close>

definition getgrouplist ::
    "string \<Rightarrow> 32 word \<Rightarrow> int \<Rightarrow> errno + stream \<Rightarrow> (int \<times> int \<times> 32 word list) run" where
  "getgrouplist user gid nlim file =
     (let out = (if 1 \<le> nlim then [gid] else []);
          finish = (\<lambda>n out. (if nlim < int n then -1 else int n, int n, out))
      in case file of
           Inl e \<Rightarrow> Ret (if e \<noteq> ENOENT \<and> e \<noteq> ENOTDIR then (-1, nlim, out) else finish 1 out)
         | Inr f \<Rightarrow>
             run_bind (group_loop user nlim 1 out f) (\<lambda>(err, n, out').
               Ret (if err \<noteq> None then (-1, nlim, out') else finish n out')))"

end
