(* ===== verification/Shadow.thy ===== *)
theory Shadow
  imports Db
begin

text \<open>
  The shadow database (\<^verbatim>\<open>shadow.c\<close>), with a file for every user when there is one. A number
  that is missing is \<open>-1\<close>.
\<close>

record spwd =
  sp_namp :: string
  sp_pwdp :: string
  sp_lstchg :: "64 word"
  sp_min :: "64 word"
  sp_max :: "64 word"
  sp_warn :: "64 word"
  sp_inact :: "64 word"
  sp_expire :: "64 word"
  sp_flag :: "64 word"

section \<open>Parsing\<close>

text \<open>\<^verbatim>\<open>xatol\<close>: with the comparison of \<open>atou\<close>, the line break counts as a digit too.\<close>

definition xatol :: "string \<Rightarrow> (64 word \<times> string) run" where
  "xatol m =
     (case m of [] \<Rightarrow> Undef
      | c # _ \<Rightarrow> if c = sep \<or> c = newline then Ret (- 1, m) else read_number 0 m)"

definition sp_number :: "char \<Rightarrow> string \<Rightarrow> (64 word \<times> string) option run" where
  "sp_number stop m =
     run_bind (xatol m) (\<lambda>(x, r). case r of [] \<Rightarrow> Undef | c # r' \<Rightarrow> Ret (if c = stop then Some (x, r') else None))"

definition parsespent :: "string \<Rightarrow> spwd option run" where
  "parsespent m =
     opt_bind (field m) (\<lambda>(n, m1).
     opt_bind (field m1) (\<lambda>(pwd, m2).
     opt_bind (sp_number sep m2) (\<lambda>(lstchg, m3).
     opt_bind (sp_number sep m3) (\<lambda>(mn, m4).
     opt_bind (sp_number sep m4) (\<lambda>(mx, m5).
     opt_bind (sp_number sep m5) (\<lambda>(warn, m6).
     opt_bind (sp_number sep m6) (\<lambda>(inact, m7).
     opt_bind (sp_number sep m7) (\<lambda>(expire, m8).
     opt_bind (sp_number newline m8) (\<lambda>(fl, m9).
       Ret (Some \<lparr>sp_namp = n, sp_pwdp = pwd, sp_lstchg = lstchg, sp_min = mn, sp_max = mx,
                  sp_warn = warn, sp_inact = inact, sp_expire = expire, sp_flag = fl\<rparr>))))))))))"

section \<open>The entry of a user\<close>

text \<open>
  \<^verbatim>\<open>fgets\<close> fills at most \<open>siz - 1\<close> bytes; the memory behind its null byte is not known.
\<close>

definition fgets :: "nat \<Rightarrow> string \<Rightarrow> string \<times> string" where
  "fgets siz t = (let l = take (siz - 1) (next_line t) in (l, drop (length l) t))"

lemma fgets_shorter:
  assumes "(l, t') = fgets siz t" and "c_str l \<noteq> []"
  shows "length t' < length t"
proof -
  have l: "l = take (siz - 1) (next_line t)" and t': "t' = drop (length l) t"
    using assms(1) by (simp_all add: fgets_def Let_def)
  have "l \<noteq> []" using assms(2) by (auto simp: c_str_def)
  moreover from this have "t \<noteq> []" unfolding l next_line_def by (cases t) auto
  ultimately show ?thesis unfolding t' by simp
qed

text \<open>The loop over the lines; \<open>skp\<close> is set inside of a line that did not fit.\<close>

function shadow_loop :: "string \<Rightarrow> nat \<Rightarrow> bool \<Rightarrow> string \<Rightarrow> (errno option \<times> spwd option) run" where
  "shadow_loop name siz skp t =
     (case fgets siz t of (l, t') \<Rightarrow>
        let s = c_str l in
        if s = [] then Ret (None, None)
        else if skp \<or> \<not> strneq name s (length name) \<or> length s \<le> length name \<or> s ! length name \<noteq> sep then
          shadow_loop name siz (last s \<noteq> newline) t'
        else if last s \<noteq> newline then Ret (Some ERANGE, None)
        else (case parsespent (s @ [NUL]) of
            Ret None \<Rightarrow> shadow_loop name siz skp t'
          | Ret (Some sp) \<Rightarrow> Ret (None, Some sp)
          | Err e \<Rightarrow> Err e | Undef \<Rightarrow> Undef | Diverge \<Rightarrow> Diverge))"
  by pat_completeness auto
termination
  by (relation "measure (\<lambda>(_, _, _, t). length t)") (auto intro: fgets_shorter)

declare shadow_loop.simps [simp del]

text \<open>
  \<open>tcb path\<close> is the file of the user: the error of \<^verbatim>\<open>open\<close>, or what became of the descriptor,
  an error when it is not a regular file; \<open>file\<close> is \<^verbatim>\<open>/etc/shadow\<close>. The results are the
  error number and the entry.
\<close>

definition no_file :: "errno \<Rightarrow> bool" where
  "no_file e \<longleftrightarrow> e = ENOENT \<or> e = ENOTDIR"

definition tcb_path :: "string \<Rightarrow> string" where
  "tcb_path name = ''/etc/tcb/'' @ name @ ''/shadow''"

definition getspnam_r ::
    "(string \<Rightarrow> errno + errno + string) \<Rightarrow> errno + string \<Rightarrow> string \<Rightarrow> nat \<Rightarrow> (errno option \<times> spwd option) run" where
  "getspnam_r tcb file name siz =
     (if starts_with name (CHR ''.'') \<or> slash \<in> set name \<or> name = [] then Ret (Some EINVAL, None)
      else if siz < length name + 100 then Ret (Some ERANGE, None)
      else if 20 + NAME_MAX \<le> length (tcb_path name) then Ret (Some EINVAL, None)
      else case tcb (tcb_path name) of
          Inr (Inl e) \<Rightarrow> Ret (Some e, None)
        | Inr (Inr t) \<Rightarrow> shadow_loop name siz False t
        | Inl e \<Rightarrow>
            if \<not> no_file e then Ret (Some e, None)
            else (case file of
                Inl e' \<Rightarrow> Ret (if no_file e' then None else Some e', None)
              | Inr t \<Rightarrow> shadow_loop name siz False t))"

definition LINE_LIM :: nat where "LINE_LIM = 256"

text \<open>\<open>mem\<close> says whether there is memory for the line; the number is \<^verbatim>\<open>errno\<close> afterwards.\<close>

definition getspnam ::
    "bool \<Rightarrow> (string \<Rightarrow> errno + errno + string) \<Rightarrow> errno + string \<Rightarrow> errno \<Rightarrow> string \<Rightarrow> (spwd option \<times> errno) run" where
  "getspnam mem tcb file e name =
     (if \<not> mem then Ret (None, ENOMEM)
      else run_bind (getspnam_r tcb file name LINE_LIM) (\<lambda>(err, r).
        Ret (r, case err of None \<Rightarrow> e | Some x \<Rightarrow> x)))"

text \<open>\<^verbatim>\<open>fgetspent\<close> parses one line as it is, without a line break at the end of the file.\<close>

definition fgetspent :: "errno \<Rightarrow> stream \<Rightarrow> (spwd option \<times> errno \<times> stream) run" where
  "fgetspent e f =
     (case getline f of
        (Inl err, f') \<Rightarrow> Ret (None, case err of Some x \<Rightarrow> x | None \<Rightarrow> if e = E_OK then ENOENT else e, f')
      | (Inr l, f') \<Rightarrow>
          run_bind (parsespent (l @ [NUL])) (\<lambda>r.
            Ret (r, if r = None \<and> e = E_OK then ENOENT else e, f')))"

definition setspent :: "'s \<Rightarrow> 's" where "setspent st = st"
definition endspent :: "'s \<Rightarrow> 's" where "endspent st = setspent st"
definition getspent :: "'s \<Rightarrow> spwd option \<times> 's" where "getspent st = (None, st)"
definition lckpwdf :: "'s \<Rightarrow> int \<times> 's" where "lckpwdf st = (0, st)"
definition ulckpwdf :: "'s \<Rightarrow> int \<times> 's" where "ulckpwdf st = (0, st)"

section \<open>Printing\<close>

text \<open>\<open>%.*ld\<close> with the precision of \<^verbatim>\<open>NUM\<close>: nothing for \<open>-1\<close>.\<close>

definition show_num :: "64 word \<Rightarrow> string" where
  "show_num n = (if n = - 1 then [] else show_int (sint n))"

text \<open>The last number is printed without a sign.\<close>

definition show_flag :: "64 word \<Rightarrow> string" where
  "show_flag n = (if n = - 1 then [] else show_dec (unat n))"

definition spwd_line :: "spwd \<Rightarrow> string" where
  "spwd_line sp =
     sp_namp sp @ '':'' @ sp_pwdp sp @ '':'' @ show_num (sp_lstchg sp) @ '':'' @ show_num (sp_min sp) @ '':''
     @ show_num (sp_max sp) @ '':'' @ show_num (sp_warn sp) @ '':'' @ show_num (sp_inact sp) @ '':''
     @ show_num (sp_expire sp) @ '':'' @ show_flag (sp_flag sp) @ [newline]"

definition putspent :: "spwd \<Rightarrow> string \<Rightarrow> string" where
  "putspent sp t = t @ spwd_line sp"

end
