(* ===== verification/Db_Facts.thy ===== *)
theory Db_Facts
  imports Passwd Group Shadow
begin

text \<open>
  The databases as the files that the printing calls write: what is written can be looked up,
  listed and counted, and where the number parsers read behind the text.
\<close>

section \<open>Fields and numbers\<close>

lemma opt_bind_simps [run_simps]:
  "opt_bind (Ret None) f = Ret None" "opt_bind (Ret (Some x)) f = f x" "opt_bind Undef f = Undef"
  by (simp_all add: opt_bind_def)

text \<open>A text of a field: no separator, line break or null byte.\<close>

definition plain_text :: "string \<Rightarrow> bool" where
  "plain_text s \<longleftrightarrow> sep \<notin> set s \<and> newline \<notin> set s \<and> NUL \<notin> set s"

lemma char_facts [simp]: "sep \<noteq> NUL" "NUL \<noteq> sep" "sep \<noteq> newline" "newline \<noteq> sep" "newline \<noteq> NUL" "NUL \<noteq> newline"
  by (simp_all add: sep_def NUL_def newline_def)

lemma field_plain: "plain_text s \<Longrightarrow> field (s @ sep # r) = Ret (Some (s, r))"
proof -
  assume "plain_text s"
  then have "takeWhile (\<lambda>c. c \<noteq> sep \<and> c \<noteq> NUL) (s @ sep # r) = s"
    by (subst takeWhile_append2) (auto simp: plain_text_def)
  then show ?thesis by (simp add: field_def)
qed

lemma c_str_plain: "NUL \<notin> set s \<Longrightarrow> c_str (s @ NUL # r) = s"
  by (induction s) (auto simp: c_str_def)

lemma c_str_all: "NUL \<notin> set s \<Longrightarrow> c_str s = s"
  by (induction s) (auto simp: c_str_def)

lemma schar_digit:
  assumes "is_digit 10 c"
  shows "schar c - 48 = int (the (digit_val c))" and "schar c - 48 < 10"
proof -
  have "48 \<le> (of_char c :: nat) \<and> (of_char c :: nat) < 58"
    using assms by (auto simp: is_digit_def digit_val_def Let_def split: if_splits)
  moreover have "(of_char c :: int) = int (of_char c :: nat)" by (metis of_nat_of_char)
  ultimately show "schar c - 48 = int (the (digit_val c))" "schar c - 48 < 10"
    by (auto simp: schar_def digit_val_def Let_def)
qed

lemma read_number_digits:
  "list_all (is_digit 10) ds \<Longrightarrow> read_number (of_nat acc) (ds @ r) = read_number (of_nat (read_digits 10 ds acc)) r"
proof (induction ds arbitrary: acc)
  case (Cons c ds)
  have c: "is_digit 10 c" using Cons.prems by simp
  have "10 * of_nat acc + word_of_int (schar c - 48) = (of_nat (acc * 10 + the (digit_val c)) :: 'a word)"
    by (simp add: schar_digit(1) [OF c] algebra_simps)
  with Cons.prems Cons.IH [of "acc * 10 + the (digit_val c)"] schar_digit(2) [OF c] c show ?case
    by (simp del: of_nat_add of_nat_mult)
qed simp

lemma read_number_show:
  "read_number (0 :: 'w::len word) (show_dec n @ r) = read_number (of_nat n) r"
proof -
  have "list_all (is_digit 10) (show_dec n)" unfolding show_dec_def by (rule show_base_digits) auto
  from read_number_digits [OF this, of 0 r] show ?thesis
    using read_show_base [of 10 n] by (simp add: show_dec_def)
qed

lemma schar_stops: "\<not> schar sep - 48 < 10" "schar newline - 48 < 10" "schar NUL - 48 < 10"
  by code_simp+

lemma read_number_sep: "read_number x (sep # r) = Ret (x, sep # r)"
  using schar_stops(1) by simp

lemma number_show: "number (show_dec (unat i) @ sep # r) = Ret (Some (i, r))"
  by (simp add: number_def atou_def read_number_show read_number_sep del: read_number.simps)

lemma show_dec_plain: "plain_text (show_dec n)"
proof -
  have d: "list_all (is_digit 10) (show_dec n)" unfolding show_dec_def by (rule show_base_digits) auto
  have "\<not> is_digit 10 sep" "\<not> is_digit 10 newline" "\<not> is_digit 10 NUL" by code_simp+
  with d show ?thesis by (auto simp: plain_text_def list_all_iff)
qed

text \<open>A number that nothing stops is read past the end of the line.\<close>

lemma read_number_runs_off:
  "list_all (\<lambda>c. schar c - 48 < 10) m \<Longrightarrow> read_number x m = Undef"
  by (induction m arbitrary: x) auto

section \<open>Formats of one line\<close>

text \<open>The file with a line for each entry.\<close>

definition written :: "('a \<Rightarrow> string) \<Rightarrow> 'a list \<Rightarrow> stream" where
  "written line xs = \<lparr>st_text = concat (map line xs), st_error = None\<rparr>"

lemma getline_text:
  assumes "newline \<notin> set t"
  shows "getline \<lparr>st_text = t @ newline # r, st_error = err\<rparr> = (Inr (t @ [newline]), \<lparr>st_text = r, st_error = err\<rparr>)"
proof -
  have "takeWhile (\<lambda>c. c \<noteq> newline) (t @ newline # r) = t" using assms by (subst takeWhile_append2) auto
  then show ?thesis by (simp add: getline_def next_line_def Let_def)
qed

text \<open>The answers of a call that is made \<open>k\<close> times, each with the state the one before left.\<close>

primrec repeated :: "nat \<Rightarrow> ('s \<Rightarrow> ('a \<times> 's) run) \<Rightarrow> 's \<Rightarrow> ('a list \<times> 's) run" where
  "repeated 0 f s = Ret ([], s)"
| "repeated (Suc k) f s = run_bind (f s) (\<lambda>(x, s1). run_bind (repeated k f s1) (\<lambda>(xs, s2). Ret (x # xs, s2)))"

lemma take_padded:
  "take (Suc k) (xs @ replicate (Suc k) c) = (case xs of [] \<Rightarrow> c | x # _ \<Rightarrow> x) # take k (tl xs @ replicate k c)"
  by (cases xs) (auto simp: take_replicate min_def simp del: replicate_Suc simp flip: replicate_Suc)

text \<open>A parser and the printer of the lines it reads; \<open>body\<close> is a line without its line break.\<close>

locale line_format =
  fixes parse :: "string \<Rightarrow> 'b option run" and line :: "'a \<Rightarrow> string" and body :: "'a \<Rightarrow> string"
    and entry :: "'a \<Rightarrow> 'b" and ok :: "'a \<Rightarrow> bool"
  assumes line_body: "line x = body x @ [newline]"
    and one_line: "ok x \<Longrightarrow> newline \<notin> set (body x)"
    and parse_body: "ok x \<Longrightarrow> parse (body x @ [NUL, NUL]) = Ret (Some (entry x))"
begin

lemma next_Nil: "next_entry parse (written line []) = Ret (None, None, written line [])"
  by (simp add: next_entry.simps written_def getline_def)

lemma next_Cons:
  assumes "ok x"
  shows "next_entry parse (written line (x # xs)) = Ret (None, Some (entry x), written line xs)"
proof -
  have "getline (written line (x # xs)) = (Inr (line x), written line xs)"
    using getline_text [OF one_line [OF assms]] by (simp add: written_def line_body)
  moreover have "line_mem (line x) = body x @ [NUL, NUL]" by (simp add: line_mem_def line_body)
  ultimately show ?thesis
    using parse_body [OF assms] by (simp add: next_entry.simps [of parse "written line (x # xs)"])
qed

text \<open>A search gives the first entry with the property.\<close>

lemma find_file: "list_all ok xs \<Longrightarrow> find_entry parse P (written line xs) = Ret (None, find P (map entry xs))"
proof (induction xs)
  case Nil
  then show ?case by (simp add: find_entry.simps next_Nil)
next
  case (Cons x xs)
  then show ?case by (simp add: find_entry.simps [of parse P "written line (x # xs)"] next_Cons)
qed

text \<open>An iteration from the start of the file gives the entries one after the other.\<close>

lemma get_entry_file:
  "list_all ok xs \<Longrightarrow> get_entry parse file (Some (written line xs)) =
     (case xs of [] \<Rightarrow> Ret (None, Some (written line [])) | x # xs' \<Rightarrow> Ret (Some (entry x), Some (written line xs')))"
  by (cases xs) (simp_all add: get_entry_def next_Nil next_Cons)

lemma repeated_open:
  "list_all ok xs \<Longrightarrow> \<exists>st. repeated k (get_entry parse file) (Some (written line xs)) =
     Ret (take k (map (\<lambda>x. Some (entry x)) xs @ replicate k None), st)"
proof (induction k arbitrary: xs)
  case (Suc k)
  have step: "repeated (Suc k) (get_entry parse file) (Some (written line xs)) =
      run_bind (repeated k (get_entry parse file) (Some (written line (tl xs))))
        (\<lambda>(ys, st). Ret ((case xs of [] \<Rightarrow> None | x # _ \<Rightarrow> Some (entry x)) # ys, st))"
    using get_entry_file [OF Suc.prems] by (cases xs) simp_all
  have "list_all ok (tl xs)" using Suc.prems by (cases xs) simp_all
  from Suc.IH [OF this] show ?case
    unfolding step take_padded by (auto simp del: take_append simp: map_tl split: list.splits)
qed simp

lemma repeated_file:
  assumes "list_all ok xs"
  shows "\<exists>st. repeated k (get_entry parse (Inr (written line xs))) None =
     Ret (take k (map (\<lambda>x. Some (entry x)) xs @ replicate k None), st)"
proof (cases k)
  case (Suc j)
  have "get_entry parse (Inr (written line xs)) None = get_entry parse (Inr (written line xs)) (Some (written line xs))"
    by (simp add: get_entry_def)
  then have "repeated k (get_entry parse (Inr (written line xs))) None =
      repeated k (get_entry parse (Inr (written line xs))) (Some (written line xs))"
    by (simp add: Suc)
  with repeated_open [OF assms] show ?thesis by simp
qed simp

end

section \<open>Users\<close>

definition passwd_ok :: "passwd \<Rightarrow> bool" where
  "passwd_ok pw \<longleftrightarrow> pw_name pw \<noteq> [] \<and> plain_text (pw_name pw) \<and> plain_text (pw_passwd pw) \<and>
     plain_text (pw_gecos pw) \<and> plain_text (pw_dir pw) \<and> plain_text (pw_shell pw)"

lemma plain_textD: "plain_text s \<Longrightarrow> newline \<notin> set s" "plain_text s \<Longrightarrow> NUL \<notin> set s" "plain_text s \<Longrightarrow> sep \<notin> set s"
  by (auto simp: plain_text_def)

lemma colon_text: "'':'' @ s = sep # s"
  by (simp add: sep_def)

lemma parse_passwd_line:
  assumes "passwd_ok pw"
  shows "parse_passwd (butlast (passwd_line pw) @ [NUL, NUL]) = Ret (Some pw)"
proof -
  obtain c n where n: "pw_name pw = c # n" using assms by (cases "pw_name pw") (auto simp: passwd_ok_def)
  have ok: "plain_text n" "plain_text (pw_passwd pw)" "plain_text (pw_gecos pw)" "plain_text (pw_dir pw)"
    "NUL \<notin> set (pw_shell pw)" "NUL \<notin> set (c # n)"
    using assms n by (auto simp: passwd_ok_def plain_text_def)
  have "butlast (passwd_line pw) @ [NUL, NUL] =
      c # n @ sep # pw_passwd pw @ sep # show_dec (unat (pw_uid pw)) @ sep # show_dec (unat (pw_gid pw)) @ sep #
      pw_gecos pw @ sep # pw_dir pw @ sep # pw_shell pw @ NUL # [NUL]"
    by (simp add: passwd_line_def n butlast_append sep_def)
  then show ?thesis
    using ok c_str_all [OF ok(6)] c_str_plain [OF ok(5), of "[NUL]"]
    by (simp add: parse_passwd_def field_plain number_show run_simps n [symmetric])
qed

interpretation passwd_file: line_format parse_passwd passwd_line "\<lambda>pw. butlast (passwd_line pw)" "\<lambda>pw. pw" passwd_ok
proof unfold_locales
  fix pw assume "passwd_ok pw"
  then show "newline \<notin> set (butlast (passwd_line pw))"
    using plain_textD(1) [OF show_dec_plain]
    by (auto simp: passwd_line_def butlast_append passwd_ok_def plain_text_def newline_def split: if_splits)
next
  show "passwd_line pw = butlast (passwd_line pw) @ [newline]" for pw by (simp add: passwd_line_def butlast_append)
qed (rule parse_passwd_line)

lemma fold_putpwent: "fold putpwent pws t = t @ concat (map passwd_line pws)"
  by (induction pws arbitrary: t) (simp_all add: putpwent_def)

text \<open>
  C26: The user database that \<^verbatim>\<open>putpwent\<close> writes is the one the lookups read. A search by
  name and a search by number give the first entry with it, with every field as it was written.
  \<open>k\<close> calls of \<^verbatim>\<open>getpwent\<close> after \<^verbatim>\<open>setpwent\<close>, from any state, give the
  entries in their order, each once, and then null pointers, however many calls there are. For entries with
  a name, and fields without a separator, a line break or a null byte.
\<close>

theorem passwd_lookup:
  assumes "list_all passwd_ok pws"
  defines "file \<equiv> \<lparr>st_text = fold putpwent pws [], st_error = None\<rparr>"
  shows "getpwnam n (Inr file) = Ret (find (\<lambda>pw. n = pw_name pw) pws) \<and>
    getpwuid u (Inr file) = Ret (find (\<lambda>pw. pw_uid pw = u) pws) \<and>
    (\<exists>st. repeated k (getpwent (Inr file)) (setpwent st0) = Ret (take k (map Some pws @ replicate k None), st))"
proof -
  have f: "file = written passwd_line pws" by (simp add: file_def written_def fold_putpwent)
  have g: "getpwent (Inr file) = get_entry parse_passwd (Inr file)" by (rule ext) (simp add: getpwent_def)
  have "\<exists>st. repeated k (getpwent (Inr file)) (setpwent st0) = Ret (take k (map Some pws @ replicate k None), st)"
    using passwd_file.repeated_file [OF assms(1), of k] unfolding f g [unfolded f] setpwent_def by simp
  then show ?thesis
    using passwd_file.find_file [OF assms(1)] unfolding f
    by (auto simp: getpwnam_def getpwuid_def getpw_a_def find_in_def)
qed

definition sample_passwd :: "passwd list" where
  "sample_passwd =
     [\<lparr>pw_name = ''root'', pw_passwd = ''x'', pw_uid = 0, pw_gid = 0, pw_gecos = ''root'', pw_dir = ''/root'',
       pw_shell = ''/bin/sh''\<rparr>,
      \<lparr>pw_name = ''bob'', pw_passwd = '''', pw_uid = 4294967294, pw_gid = 100, pw_gecos = '''', pw_dir = ''/'',
       pw_shell = ''''\<rparr>]"

theorem passwd_lookup_witness:
  "getpwnam ''bob'' (Inr \<lparr>st_text = fold putpwent sample_passwd [], st_error = None\<rparr>) = Ret (Some (sample_passwd ! 1)) \<and>
   getpwuid 7 (Inr \<lparr>st_text = fold putpwent sample_passwd [], st_error = None\<rparr>) = Ret None \<and>
   (\<exists>st. repeated 3 (getpwent (Inr \<lparr>st_text = fold putpwent sample_passwd [], st_error = None\<rparr>)) (setpwent None) =
     Ret ([Some (sample_passwd ! 0), Some (sample_passwd ! 1), None], st))"
proof -
  have "list_all passwd_ok sample_passwd" by code_simp
  from passwd_lookup [OF this, of "''bob''" 7 3 None] show ?thesis by (simp add: sample_passwd_def numeral_3_eq_3)
qed

text \<open>
  A line of the user database whose number is not ended by a separator is read past its end:
  the null byte counts as a digit, because it is compared as a signed character.
\<close>

theorem passwd_runs_off:
  assumes "n \<noteq> []" and "plain_text n" and "plain_text pass" and "list_all (\<lambda>c. schar c < schar sep) x" and "newline \<notin> set x"
  shows "getpwnam user (Inr \<lparr>st_text = n @ '':'' @ pass @ '':'' @ x @ [newline] @ rest, st_error = None\<rparr>) = Undef"
proof -
  let ?l = "n @ sep # pass @ sep # x @ [newline]"
  let ?f = "\<lparr>st_text = n @ '':'' @ pass @ '':'' @ x @ [newline] @ rest, st_error = None\<rparr>"
  obtain c m where nm: "n = c # m" using assms(1) by (cases n) auto
  have "newline \<notin> set (n @ sep # pass @ sep # x)" using assms(2,3,5) by (auto simp: plain_text_def)
  then have g: "getline ?f = (Inr ?l, \<lparr>st_text = rest, st_error = None\<rparr>)"
    using getline_text [of "n @ sep # pass @ sep # x" rest None] by (simp add: sep_def)
  have "schar sep = 58" by code_simp
  then have "list_all (\<lambda>c. schar c - 48 < 10) (x @ [NUL, NUL])"
    using assms(4) schar_stops by (auto simp: list_all_iff)
  then have "number (x @ [NUL, NUL]) = Undef" by (simp add: number_def atou_def read_number_runs_off)
  moreover have "plain_text m" using assms(2) nm by (simp add: plain_text_def)
  moreover have "line_mem ?l = c # m @ sep # pass @ sep # (x @ [NUL, NUL])" by (simp add: line_mem_def butlast_append nm)
  ultimately have "parse_passwd (line_mem ?l) = Undef"
    using assms(3) by (simp add: parse_passwd_def field_plain run_simps)
  then show ?thesis
    using g by (simp add: getpwnam_def getpw_a_def find_in_def find_entry.simps next_entry.simps)
qed

theorem passwd_runs_off_witness:
  "getpwnam ''root'' (Inr \<lparr>st_text = ''root:x:0'' @ [newline], st_error = None\<rparr>) = Undef"
proof -
  have "list_all (\<lambda>c. schar c < schar sep) ''0''" by code_simp
  then show ?thesis
    using passwd_runs_off [of "''root''" "''x''" "''0''" "''root''" "[]"] by (simp add: plain_text_def sep_def newline_def NUL_def)
qed

section \<open>Groups\<close>

definition group_ok :: "grent \<Rightarrow> bool" where
  "group_ok gr \<longleftrightarrow> gr_name gr \<noteq> [] \<and> plain_text (gr_name gr) \<and> plain_text (gr_passwd gr) \<and>
     list_all (\<lambda>m. m \<noteq> [] \<and> plain_text m \<and> comma \<notin> set m) (gr_mem gr)"

lemma comma_facts [simp]: "comma \<noteq> NUL" "NUL \<noteq> comma" "comma \<noteq> newline" "newline \<noteq> comma"
  by (simp_all add: comma_def NUL_def newline_def)

lemma split_mem_end:
  "comma \<notin> set s \<Longrightarrow> NUL \<notin> set s \<Longrightarrow> split_mem ds cur (s @ NUL # NUL # r) = Ret (ds @ [cur @ s])"
proof (induction s arbitrary: cur)
  case (Cons c s)
  then show ?case by (cases s) auto
qed simp

lemma split_mem_comma:
  "comma \<notin> set s \<Longrightarrow> NUL \<notin> set s \<Longrightarrow> split_mem ds cur (s @ comma # d # r) = split_mem (ds @ [cur @ s]) [d] r"
proof (induction s arbitrary: cur)
  case (Cons c s)
  then show ?case by (cases s) auto
qed simp

lemma split_mem_join:
  assumes "list_all (\<lambda>m. m \<noteq> [] \<and> NUL \<notin> set m \<and> comma \<notin> set m) ms" and "comma \<notin> set s" and "NUL \<notin> set s"
  shows "split_mem ds cur (join_with comma (s # ms) @ [NUL, NUL]) = Ret (ds @ (cur @ s) # ms)"
  using assms
proof (induction ms arbitrary: ds cur s)
  case Nil
  then show ?case using split_mem_end [of s ds cur "[]"] by simp
next
  case (Cons m ms)
  then obtain d m' where m: "m = d # m'" "comma \<notin> set m'" "NUL \<notin> set m'" "comma \<noteq> d" "NUL \<noteq> d" by (cases m) auto
  have "join_with comma (m # ms) = d # join_with comma (m' # ms)" by (cases ms) (simp_all add: m)
  then have "split_mem ds cur (join_with comma (s # m # ms) @ [NUL, NUL]) =
      split_mem (ds @ [cur @ s]) [d] (join_with comma (m' # ms) @ [NUL, NUL])"
    using split_mem_comma [OF Cons.prems(2,3)] by simp
  also have "\<dots> = Ret ((ds @ [cur @ s]) @ ([d] @ m') # ms)" by (rule Cons.IH) (use Cons.prems m in auto)
  finally show ?case by (simp add: m)
qed

lemma members_join:
  assumes "list_all (\<lambda>m. m \<noteq> [] \<and> NUL \<notin> set m \<and> comma \<notin> set m) ms"
  shows "members (join_with comma ms @ [NUL, NUL]) = Ret ms"
proof (cases ms)
  case Nil
  then show ?thesis by (simp add: members_def)
next
  case (Cons m ns)
  then obtain d m' where m: "m = d # m'" "d \<noteq> NUL" using assms by (cases m) auto
  have "hd (join_with comma ms @ [NUL, NUL]) = d" "join_with comma ms \<noteq> []"
    by (cases ns; simp add: Cons m)+
  moreover have "split_mem [] [] (join_with comma ms @ [NUL, NUL]) = Ret ms"
    using split_mem_join [of ns m "[]" "[]"] assms Cons by simp
  moreover have "map c_str ms = ms"
    using assms by (induction ms) (auto simp: c_str_all)
  ultimately show ?thesis using m by (simp add: members_def)
qed

definition group_entry :: "grent \<Rightarrow> grent \<times> nat" where
  "group_entry gr = (gr, count_mem (join_with comma (gr_mem gr) @ [NUL, NUL]))"

lemma parse_group_line:
  assumes "group_ok gr"
  shows "parse_group (butlast (group_line gr) @ [NUL, NUL]) = Ret (Some (group_entry gr))"
proof -
  obtain c n where n: "gr_name gr = c # n" using assms by (cases "gr_name gr") (auto simp: group_ok_def)
  have ok: "plain_text n" "plain_text (gr_passwd gr)" "NUL \<notin> set (c # n)"
    using assms n by (auto simp: group_ok_def plain_text_def)
  have ms: "members (join_with comma (gr_mem gr) @ [NUL, NUL]) = Ret (gr_mem gr)"
    by (rule members_join) (use assms in \<open>auto simp: group_ok_def plain_text_def list_all_iff\<close>)
  have "butlast (group_line gr) @ [NUL, NUL] =
      c # n @ sep # gr_passwd gr @ sep # show_dec (unat (gr_gid gr)) @ sep # join_with comma (gr_mem gr) @ [NUL, NUL]"
    by (simp add: group_line_def n butlast_append sep_def)
  then show ?thesis
    using ok c_str_all [OF ok(3)]
    by (simp add: parse_group_def field_plain number_show run_simps ms n [symmetric] group_entry_def)
qed

lemma set_join_with: "set (join_with c ms) \<subseteq> insert c (\<Union> (set ` set ms))"
  by (induction c ms rule: join_with.induct) auto

interpretation group_file: line_format parse_group group_line "\<lambda>gr. butlast (group_line gr)" group_entry group_ok
proof unfold_locales
  fix gr assume ok: "group_ok gr"
  then have "newline \<notin> set (join_with comma (gr_mem gr))"
    using set_join_with [of comma "gr_mem gr"] by (auto simp: group_ok_def plain_text_def list_all_iff)
  with ok show "newline \<notin> set (butlast (group_line gr))"
    using plain_textD(1) [OF show_dec_plain]
    by (auto simp: group_line_def butlast_append group_ok_def plain_text_def newline_def split: if_splits)
next
  show "group_line gr = butlast (group_line gr) @ [newline]" for gr by (simp add: group_line_def butlast_append)
qed (rule parse_group_line)

lemma fold_putgrent: "fold putgrent grs t = t @ concat (map group_line grs)"
  by (induction grs arbitrary: t) (simp_all add: putgrent_def)

lemma find_map_fst: "map_option fst (find (\<lambda>(g, _). P g) (map group_entry grs)) = find P grs"
  by (induction grs) (auto simp: group_entry_def)

text \<open>The number of groups counted and those that are written.\<close>

lemma group_loop_file:
  "list_all group_ok grs \<Longrightarrow> length out = min (nat nlim) n \<Longrightarrow>
    group_loop user nlim n out (written group_line grs) =
      (let gids = map gr_gid (filter (\<lambda>g. user \<in> set (gr_mem g)) grs)
       in Ret (None, n + length gids, out @ take (nat nlim - n) gids))"
proof (induction grs arbitrary: n out)
  case Nil
  then show ?case by (simp add: group_loop.simps group_file.next_Nil)
next
  case (Cons g grs)
  let ?out = "if int (Suc n) \<le> nlim then out @ [gr_gid g] else out"
  have step: "group_loop user nlim n out (written group_line (g # grs)) =
      (if user \<notin> set (gr_mem g) then group_loop user nlim n out (written group_line grs)
       else group_loop user nlim (Suc n) ?out (written group_line grs))"
    using group_file.next_Cons [of g grs] Cons.prems(1)
    by (subst group_loop.simps) (simp add: group_entry_def)
  show ?case
  proof (cases "user \<in> set (gr_mem g)")
    case True
    have "length ?out = min (nat nlim) (Suc n)" using Cons.prems(2) by auto
    with Cons.IH [of ?out "Suc n"] Cons.prems(1) step True show ?thesis
      by (cases "int (Suc n) \<le> nlim") (auto simp: Let_def take_Cons' nat_diff_distrib')
  next
    case False
    with Cons step show ?thesis by simp
  qed
qed

text \<open>
  C27: The group database that \<^verbatim>\<open>putgrent\<close> writes: searches give the first group with the name
  or the number, with its members, and \<^verbatim>\<open>getgrouplist\<close> counts the group it is given and
  those the user is a member of, never writes more than the caller has room for (nothing, for a negative size), and answers
  \<open>-1\<close> just when there are more.
\<close>

theorem group_lookup:
  fixes user :: string and gid :: "32 word"
  assumes "list_all group_ok grs"
  defines "file \<equiv> \<lparr>st_text = fold putgrent grs [], st_error = None\<rparr>"
    and "gids \<equiv> gid # map gr_gid (filter (\<lambda>g. user \<in> set (gr_mem g)) grs)"
  shows "getgrnam n (Inr file) = Ret (find (\<lambda>g. n = gr_name g) grs) \<and>
    getgrgid i (Inr file) = Ret (find (\<lambda>g. gr_gid g = i) grs) \<and>
    getgrouplist user gid nlim (Inr file) =
      Ret (if nlim < int (length gids) then -1 else int (length gids), int (length gids), take (nat nlim) gids)"
proof -
  have f: "file = written group_line grs" by (simp add: file_def written_def fold_putgrent)
  have out: "length (if 1 \<le> nlim then [gid] else []) = min (nat nlim) 1" by auto
  have "getgrouplist user gid nlim (Inr file) =
      Ret (if nlim < int (length gids) then -1 else int (length gids), int (length gids), take (nat nlim) gids)"
    using group_loop_file [OF assms(1) out, of user]
    by (cases "nat nlim") (auto simp: getgrouplist_def f gids_def Let_def)
  moreover have "getgrnam n (Inr file) = Ret (find (\<lambda>g. n = gr_name g) grs)"
    using find_map_fst [of "\<lambda>g. n = gr_name g" grs]
    by (simp add: f getgrnam_def getgr_a_def find_in_def group_file.find_file [OF assms(1)])
  moreover have "getgrgid i (Inr file) = Ret (find (\<lambda>g. gr_gid g = i) grs)"
    using find_map_fst [of "\<lambda>g. gr_gid g = i" grs]
    by (simp add: f getgrgid_def getgr_a_def find_in_def group_file.find_file [OF assms(1)])
  ultimately show ?thesis by blast
qed

definition sample_groups :: "grent list" where
  "sample_groups =
     [\<lparr>gr_name = ''wheel'', gr_passwd = ''x'', gr_gid = 10, gr_mem = [''root'', ''bob'']\<rparr>,
      \<lparr>gr_name = ''users'', gr_passwd = '''', gr_gid = 100, gr_mem = []\<rparr>,
      \<lparr>gr_name = ''audio'', gr_passwd = '''', gr_gid = 63, gr_mem = [''bob'']\<rparr>]"

theorem group_lookup_witness:
  "getgrouplist ''bob'' 100 2 (Inr \<lparr>st_text = fold putgrent sample_groups [], st_error = None\<rparr>) = Ret (-1, 3, [100, 10])"
proof -
  have "list_all group_ok sample_groups" by code_simp
  from group_lookup [OF this, of _ 0 "''bob''" 100 2] show ?thesis by (simp add: sample_groups_def)
qed

section \<open>Passwords\<close>

definition spwd_ok :: "spwd \<Rightarrow> bool" where
  "spwd_ok sp \<longleftrightarrow> plain_text (sp_namp sp) \<and> plain_text (sp_pwdp sp) \<and>
     list_all (\<lambda>n. n = - 1 \<or> 0 \<le> sint n) [sp_lstchg sp, sp_min sp, sp_max sp, sp_warn sp, sp_inact sp, sp_expire sp]"

lemma xatol_dec: "xatol (show_dec n @ r) = read_number (of_nat n) r"
proof -
  obtain c t where ct: "show_dec n = c # t" by (cases "show_dec n") (simp_all add: show_dec_def)
  then have "c \<noteq> sep" "c \<noteq> newline" using show_dec_plain [of n] by (auto simp: plain_text_def)
  then show ?thesis using read_number_show [of n r] by (simp add: xatol_def ct)
qed

lemma sp_number_show:
  assumes "n = - 1 \<or> 0 \<le> sint n"
  shows "sp_number sep (show_num n @ sep # r) = Ret (Some (n, r))"
proof (cases "n = - 1")
  case True
  then show ?thesis by (simp add: sp_number_def show_num_def xatol_def)
next
  case False
  with assms have s: "0 \<le> sint n" by simp
  have "(of_nat (nat (sint n)) :: 64 word) = of_int (int (nat (sint n)))" by (rule of_int_of_nat_eq [symmetric])
  also have "\<dots> = n" using s by (simp add: scast_id)
  finally have "(of_nat (nat (sint n)) :: 64 word) = n" .
  with s False show ?thesis
    by (simp add: sp_number_def show_num_def show_int_def xatol_dec read_number_sep del: read_number.simps)
qed

lemma sp_flag_show:
  "sp_number newline (show_flag n @ newline # [NUL]) = (if n = - 1 then Ret (Some (n, [NUL])) else Undef)"
proof (cases "n = - 1")
  case True
  then show ?thesis by (simp add: sp_number_def show_flag_def xatol_def)
next
  case False
  have "read_number (of_nat (unat n)) [newline, NUL] = (Undef :: (64 word \<times> string) run)"
    by (rule read_number_runs_off) (use schar_stops in simp)
  with False show ?thesis
    by (simp add: sp_number_def show_flag_def xatol_dec del: read_number.simps)
qed

text \<open>
  A line of the shadow database that \<^verbatim>\<open>putspent\<close> writes is parsed to the entry it was
  made of when the last field is not used; a number in the last field makes the parser read past the end
  of the line, as the line break counts as a digit.
\<close>

theorem shadow_line:
  assumes "spwd_ok sp"
  shows "parsespent (putspent sp [] @ [NUL]) = (if sp_flag sp = - 1 then Ret (Some sp) else Undef)"
proof -
  have ok: "plain_text (sp_namp sp)" "plain_text (sp_pwdp sp)" using assms by (simp_all add: spwd_ok_def)
  have n: "sp_lstchg sp = - 1 \<or> 0 \<le> sint (sp_lstchg sp)" "sp_min sp = - 1 \<or> 0 \<le> sint (sp_min sp)"
    "sp_max sp = - 1 \<or> 0 \<le> sint (sp_max sp)" "sp_warn sp = - 1 \<or> 0 \<le> sint (sp_warn sp)"
    "sp_inact sp = - 1 \<or> 0 \<le> sint (sp_inact sp)" "sp_expire sp = - 1 \<or> 0 \<le> sint (sp_expire sp)"
    using assms by (auto simp: spwd_ok_def)
  have "putspent sp [] @ [NUL] =
      sp_namp sp @ sep # sp_pwdp sp @ sep # show_num (sp_lstchg sp) @ sep # show_num (sp_min sp) @ sep #
      show_num (sp_max sp) @ sep # show_num (sp_warn sp) @ sep # show_num (sp_inact sp) @ sep #
      show_num (sp_expire sp) @ sep # show_flag (sp_flag sp) @ newline # [NUL]"
    by (simp add: putspent_def spwd_line_def sep_def)
  then show ?thesis
    by (simp add: parsespent_def field_plain [OF ok(1)] field_plain [OF ok(2)] run_simps
        sp_number_show [OF n(1)] sp_number_show [OF n(2)] sp_number_show [OF n(3)] sp_number_show [OF n(4)]
        sp_number_show [OF n(5)] sp_number_show [OF n(6)] sp_flag_show)
qed

definition sample_spwd :: spwd where
  "sample_spwd = \<lparr>sp_namp = ''root'', sp_pwdp = ''!'', sp_lstchg = 19000, sp_min = 0, sp_max = 99999, sp_warn = 7,
     sp_inact = - 1, sp_expire = - 1, sp_flag = - 1\<rparr>"

theorem shadow_line_witness:
  "parsespent (putspent sample_spwd [] @ [NUL]) = Ret (Some sample_spwd) \<and>
   parsespent (putspent (sample_spwd\<lparr>sp_flag := 0\<rparr>) [] @ [NUL]) = Undef"
proof -
  have ok: "spwd_ok sample_spwd" "spwd_ok (sample_spwd\<lparr>sp_flag := 0\<rparr>)" by code_simp+
  from shadow_line [OF ok(1)] shadow_line [OF ok(2)] show ?thesis by (simp add: sample_spwd_def)
qed

end
