(* ===== verification/Jim_Comp.thy ===== *)
theory Jim_Comp
  imports Numbers
begin

unbundle bit_operations_syntax

text \<open>
  The compiler of \<^verbatim>\<open>jimregexp.c\<close>: from the text of a regular expression to a program, a list of
  words. A node is its operation and the distance to the next node, \<open>0\<close> for none. An address is an
  index into the program, and \<open>0\<close>, the place of the magic number, stands for no node. The program
  grows by appending; an access outside of it is \<open>Undef\<close>. What a function answers is an error of
  \<^verbatim>\<open>jimregexp.h\<close> (\<open>Inl\<close>) or its result.
\<close>

section \<open>Errors and options\<close>

datatype reg_err =
    REG_ERR_NULL_ARGUMENT | REG_ERR_TOO_BIG | REG_ERR_NOMEM | REG_ERR_UNMATCHED_PAREN
  | REG_ERR_UNMATCHED_BRACES | REG_ERR_BAD_COUNT | REG_ERR_JUNK_ON_END | REG_ERR_OPERAND_COULD_BE_EMPTY
  | REG_ERR_NESTED_COUNT | REG_ERR_INTERNAL | REG_ERR_COUNT_FOLLOWS_NOTHING | REG_ERR_INVALID_ESCAPE
  | REG_ERR_CORRUPTED | REG_ERR_NULL_CHAR | REG_ERR_UNMATCHED_BRACKET

definition REG_NEWLINE :: "32 word" where "REG_NEWLINE = 1"
definition REG_ICASE :: "32 word" where "REG_ICASE = 2"
definition REG_NOTBOL :: "32 word" where "REG_NOTBOL = 16"

definition REG_MAX_PAREN :: nat where "REG_MAX_PAREN = 100"
definition MAX_REP_COUNT :: int where "MAX_REP_COUNT = 1000000"
definition REG_MAGIC :: int where "REG_MAGIC = sint (0xFADED00D :: 32 word)"

text \<open>The operations.\<close>

definition OP_END :: int where "OP_END = 0"
definition BOL :: int where "BOL = 1"
definition EOL :: int where "EOL = 2"
definition ANY :: int where "ANY = 3"
definition ANYOF :: int where "ANYOF = 4"
definition ANYBUT :: int where "ANYBUT = 5"
definition BRANCH :: int where "BRANCH = 6"
definition BACK :: int where "BACK = 7"
definition EXACTLY :: int where "EXACTLY = 8"
definition NOTHING :: int where "NOTHING = 9"
definition REP :: int where "REP = 10"
definition REPMIN :: int where "REPMIN = 11"
definition REPX :: int where "REPX = 12"
definition REPXMIN :: int where "REPXMIN = 13"
definition BOLX :: int where "BOLX = 14"
definition EOLX :: int where "EOLX = 15"
definition WORDA :: int where "WORDA = 16"
definition WORDZ :: int where "WORDZ = 17"
definition OPENNC :: int where "OPENNC = 1000"
definition OPEN :: int where "OPEN = 1001"
definition CLOSENC :: int where "CLOSENC = 2000"
definition CLOSE :: int where "CLOSE = 2001"
definition CLOSE_END :: int where "CLOSE_END = CLOSE + int REG_MAX_PAREN"

lemmas op_defs =
  OP_END_def BOL_def EOL_def ANY_def ANYOF_def ANYBUT_def BRANCH_def BACK_def EXACTLY_def NOTHING_def
  REP_def REPMIN_def REPX_def REPXMIN_def BOLX_def EOLX_def WORDA_def WORDZ_def OPENNC_def OPEN_def
  CLOSENC_def CLOSE_def CLOSE_END_def

text \<open>The flags that are passed up.\<close>

record flags =
  HASWIDTH :: bool
  SIMPLE :: bool
  SPSTART :: bool

definition WORST :: flags where
  "WORST = \<lparr>HASWIDTH = False, SIMPLE = False, SPSTART = False\<rparr>"

definition WIDE :: flags where "WIDE = WORST\<lparr>HASWIDTH := True\<rparr>"
definition WIDE_SIMPLE :: flags where "WIDE_SIMPLE = WORST\<lparr>HASWIDTH := True, SIMPLE := True\<rparr>"

text \<open>The working state of the compiler: \<^verbatim>\<open>program\<close>, \<^verbatim>\<open>regparse\<close> and \<^verbatim>\<open>re_nsub\<close>.\<close>

record rc =
  rc_prog :: "int list"
  rc_parse :: string
  rc_nsub :: nat

type_synonym 'a comp = "(reg_err + 'a) run"

definition err_bind :: "'a comp \<Rightarrow> ('a \<Rightarrow> 'b comp) \<Rightarrow> 'b comp" where
  "err_bind m f = run_bind m (\<lambda>r. case r of Inl e \<Rightarrow> Ret (Inl e) | Inr x \<Rightarrow> f x)"

section \<open>Characters\<close>

text \<open>The character a text starts with, \<open>0\<close> at its end; \<^verbatim>\<open>reg_utf8_tounicode_case\<close> makes it upper case.\<close>

definition uchar :: "string \<Rightarrow> int" where
  "uchar s = (case s of [] \<Rightarrow> 0 | c # _ \<Rightarrow> of_char c)"

definition toupper :: "int \<Rightarrow> int" where
  "toupper c = (if 97 \<le> c \<and> c \<le> 122 then c - 32 else c)"

definition char_case :: "32 word \<Rightarrow> int \<Rightarrow> int" where
  "char_case cf c = (if cf AND REG_ICASE \<noteq> 0 then toupper c else c)"

definition backslash :: char where "backslash = CHR 0x5C"

definition META :: string where "META = ''^$.[()|?{+*''"

definition is_mult :: "string \<Rightarrow> bool" where
  "is_mult s \<longleftrightarrow> s \<noteq> [] \<and> hd s \<in> set ''*+?{''"

definition hexdigitval :: "int \<Rightarrow> int" where
  "hexdigitval c =
     (if 48 \<le> c \<and> c \<le> 57 then c - 48
      else if 97 \<le> c \<and> c \<le> 102 then c - 97 + 10
      else if 65 \<le> c \<and> c \<le> 70 then c - 65 + 10
      else - 1)"

text \<open>The number of digits read and their value.\<close>

fun parse_hex :: "string \<Rightarrow> nat \<Rightarrow> 32 word \<Rightarrow> nat \<times> 32 word" where
  "parse_hex [] n val = (0, val)"
| "parse_hex (c # s) n val =
     (let d = hexdigitval (schar c) in
      if n = 0 \<or> d = - 1 then (0, val)
      else case parse_hex s (n - 1) (push_bit 4 val OR word_of_int d) of (k, v) \<Rightarrow> (Suc k, v))"

text \<open>What is behind a backslash: the number of bytes it takes, and the character.\<close>

definition hex_escape :: "char \<Rightarrow> string \<Rightarrow> nat \<Rightarrow> nat \<times> int" where
  "hex_escape c s n =
     (case parse_hex s n 0 of (k, v) \<Rightarrow> if 0 < k then (Suc k, sint v) else (1, schar c))"

definition reg_decode_escape :: "string \<Rightarrow> nat \<times> int" where
  "reg_decode_escape s =
     (case s of
        [] \<Rightarrow> (0, 92)
      | c # t \<Rightarrow>
          if c = CHR ''b'' then (1, 8)
          else if c = CHR ''e'' then (1, 27)
          else if c = CHR ''f'' then (1, 12)
          else if c = CHR ''n'' then (1, 10)
          else if c = CHR ''r'' then (1, 13)
          else if c = CHR ''t'' then (1, 9)
          else if c = CHR ''v'' then (1, 11)
          else if c = CHR ''u'' then
            (if starts_with t (CHR ''{'') then
               (case parse_hex (tl t) 6 0 of (k, v) \<Rightarrow>
                  if 0 < k \<and> starts_with (drop k (tl t)) (CHR ''}'') \<and> 0 \<le> sint v \<and> sint v \<le> 0x1fffff
                  then (k + 3, sint v) else (1, 117))
             else hex_escape c t 4)
          else if c = CHR ''U'' then hex_escape c t 8
          else if c = CHR ''x'' then hex_escape c t 2
          else (1, schar c))"

section \<open>Emitting code\<close>

text \<open>The words of \<open>regc\<close> and \<open>regnode\<close>.\<close>

definition regc :: "int list \<Rightarrow> rc \<Rightarrow> rc" where
  "regc ws st = st\<lparr>rc_prog := rc_prog st @ ws\<rparr>"

definition regnode :: "int \<Rightarrow> rc \<Rightarrow> nat \<times> rc" where
  "regnode oper st = (length (rc_prog st), regc [oper, 0] st)"

definition word_at :: "int list \<Rightarrow> nat \<Rightarrow> int run" where
  "word_at prog p = (if p < length prog then Ret (prog ! p) else Undef)"

definition regnext :: "int list \<Rightarrow> nat \<Rightarrow> nat run" where
  "regnext prog p =
     run_bind (word_at prog (p + 1)) (\<lambda>off.
       if off = 0 then Ret 0
       else let q = (if prog ! p = BACK then int p - off else int p + off)
            in if q < 0 then Undef else Ret (nat q))"

text \<open>The operator in front of an operand that was emitted: the operand moves up.\<close>

definition reginsert :: "int list \<Rightarrow> nat \<Rightarrow> int list \<Rightarrow> int list" where
  "reginsert ws opnd prog = take opnd prog @ ws @ drop opnd prog"

text \<open>
  The last node of a chain. A chain without an end visits a node twice: more steps than there are words do
  not end.
\<close>

fun chain_end :: "nat \<Rightarrow> int list \<Rightarrow> nat \<Rightarrow> nat run" where
  "chain_end 0 prog scan = Diverge"
| "chain_end (Suc n) prog scan =
     run_bind (regnext prog scan) (\<lambda>temp. if temp = 0 then Ret scan else chain_end n prog temp)"

definition regtail :: "int list \<Rightarrow> nat \<Rightarrow> nat \<Rightarrow> int list run" where
  "regtail prog p val =
     run_bind (chain_end (length prog) prog p) (\<lambda>scan.
       Ret (prog[scan + 1 := (if prog ! scan = BACK then int scan - int val else int val - int scan)]))"

definition regoptail :: "int list \<Rightarrow> nat \<Rightarrow> nat \<Rightarrow> int list run" where
  "regoptail prog p val =
     (if p \<noteq> 0 then run_bind (word_at prog p) (\<lambda>oper. if oper = BRANCH then regtail prog (p + 2) val else Ret prog)
      else Ret prog)"

text \<open>The loop that hooks the tails of the branches to the closing node.\<close>

fun hook_tails :: "nat \<Rightarrow> int list \<Rightarrow> nat \<Rightarrow> nat \<Rightarrow> int list run" where
  "hook_tails 0 prog br ender = Diverge"
| "hook_tails (Suc n) prog br ender =
     (if br = 0 then Ret prog
      else run_bind (regoptail prog br ender) (\<lambda>prog'.
             run_bind (regnext prog' br) (\<lambda>br'. hook_tails n prog' br' ender)))"

section \<open>Sets of characters\<close>

text \<open>A range is its length and its first character. A swapped range is added both ways.\<close>

function reg_addrange :: "int \<Rightarrow> int \<Rightarrow> int list" where
  "reg_addrange lower upper =
     (if upper < lower then reg_addrange upper lower else []) @ [upper - lower + 1, lower]"
  by auto
termination by (relation "measure (\<lambda>(l, u). if u < l then 1 else 0)") auto

declare reg_addrange.simps [simp del]

definition reg_addrange_str :: "int list \<Rightarrow> int list" where
  "reg_addrange_str cs = concat (map (\<lambda>c. reg_addrange c c) cs)"

definition space_chars :: "int list" where "space_chars = [32, 9, 13, 10, 12, 11]"

datatype char_class =
    CC_ALPHA | CC_ALNUM | CC_SPACE | CC_BLANK | CC_UPPER | CC_LOWER
  | CC_DIGIT | CC_XDIGIT | CC_CNTRL | CC_GRAPH | CC_PRINT | CC_PUNCT

definition character_class :: "(string \<times> char_class) list" where
  "character_class =
     [('':alpha:'', CC_ALPHA), ('':alnum:'', CC_ALNUM), ('':space:'', CC_SPACE), ('':blank:'', CC_BLANK),
      ('':upper:'', CC_UPPER), ('':lower:'', CC_LOWER), ('':digit:'', CC_DIGIT), ('':xdigit:'', CC_XDIGIT),
      ('':cntrl:'', CC_CNTRL), ('':graph:'', CC_GRAPH), ('':print:'', CC_PRINT), ('':punct:'', CC_PUNCT)]"

definition class_words :: "32 word \<Rightarrow> char_class \<Rightarrow> int list" where
  "class_words cf cc =
     (let alpha = (if cf AND REG_ICASE = 0 then reg_addrange 97 122 else []) @ reg_addrange 65 90;
          digits = reg_addrange 48 57
      in case cc of
           CC_ALNUM \<Rightarrow> digits @ alpha
         | CC_ALPHA \<Rightarrow> alpha
         | CC_SPACE \<Rightarrow> reg_addrange_str space_chars
         | CC_BLANK \<Rightarrow> reg_addrange_str [32, 9]
         | CC_UPPER \<Rightarrow> reg_addrange 65 90
         | CC_LOWER \<Rightarrow> reg_addrange 97 122
         | CC_XDIGIT \<Rightarrow> reg_addrange 97 102 @ reg_addrange 65 70 @ digits
         | CC_DIGIT \<Rightarrow> digits
         | CC_CNTRL \<Rightarrow> reg_addrange 0 31 @ reg_addrange 127 127
         | CC_PRINT \<Rightarrow> reg_addrange 32 126
         | CC_GRAPH \<Rightarrow> reg_addrange 33 126
         | CC_PUNCT \<Rightarrow> reg_addrange 33 47 @ reg_addrange 58 64 @ reg_addrange 91 96 @ reg_addrange 123 126)"

text \<open>The escape in a set, with its two errors.\<close>

definition set_escape :: "string \<Rightarrow> reg_err + int \<times> string" where
  "set_escape pat =
     (case reg_decode_escape pat of (n, ch) \<Rightarrow>
        if ch = 0 then Inl REG_ERR_NULL_CHAR
        else if ch = 92 \<and> drop n pat = [] then Inl REG_ERR_INVALID_ESCAPE
        else Inr (ch, drop n pat))"

text \<open>What follows a character \<open>start\<close>: a range, a class, or the character alone.\<close>

definition set_range :: "32 word \<Rightarrow> int \<Rightarrow> string \<Rightarrow> reg_err + int list \<times> string" where
  "set_range cf start pat =
     (if starts_with pat (CHR ''-'') \<and> tl pat \<noteq> [] \<and> \<not> starts_with (tl pat) (CHR '']'') then
        (let pat1 = tl pat; ende = char_case cf (uchar pat1); pat2 = tl pat1 in
         if ende = 92 then
           (case set_escape pat2 of Inl e \<Rightarrow> Inl e | Inr (ch, pat3) \<Rightarrow> Inr (reg_addrange start ch, pat3))
         else Inr (reg_addrange start ende, pat2))
      else if start = 91 \<and> starts_with pat (CHR '':'') then
        (case find (\<lambda>(name, cc). strneq pat name (length name)) character_class of
           Some (name, cc) \<Rightarrow>
             if \<not> starts_with (drop (length name) pat) (CHR '']'') then Inl REG_ERR_UNMATCHED_BRACKET
             else Inr (class_words cf cc, drop (Suc (length name)) pat)
         | None \<Rightarrow> Inr (reg_addrange start start, pat))
      else Inr (reg_addrange start start, pat))"

text \<open>One round of the loop over the set, on a text that is not at its end.\<close>

definition set_item :: "32 word \<Rightarrow> string \<Rightarrow> reg_err + int list \<times> string" where
  "set_item cf pat =
     (let start = char_case cf (uchar pat); pat1 = tl pat in
      if start = 92 then
        (if starts_with pat1 (CHR ''s'') then Inr (class_words cf CC_SPACE, tl pat1)
         else if starts_with pat1 (CHR ''d'') then Inr (class_words cf CC_DIGIT, tl pat1)
         else if starts_with pat1 (CHR ''w'') then Inr (reg_addrange 95 95 @ class_words cf CC_ALNUM, tl pat1)
         else case set_escape pat1 of Inl e \<Rightarrow> Inl e | Inr (ch, pat2) \<Rightarrow> set_range cf ch pat2)
      else set_range cf start pat1)"

lemma length_drop_le: "length (drop n xs) \<le> length xs"
  by simp

lemma set_escape_shorter: "set_escape pat = Inr (ch, pat') \<Longrightarrow> length pat' \<le> length pat"
  by (auto simp: set_escape_def split: prod.splits if_splits)

lemma set_range_shorter: "set_range cf start pat = Inr (ws, pat') \<Longrightarrow> length pat' \<le> length pat"
  by (auto simp: set_range_def Let_def split: if_splits sum.splits option.splits
      dest!: set_escape_shorter)

lemma set_item_shorter: "set_item cf pat = Inr (ws, pat') \<Longrightarrow> pat \<noteq> [] \<Longrightarrow> length pat' < length pat"
  by (cases pat) (auto simp: set_item_def Let_def less_Suc_eq_le
      split: if_splits sum.splits dest!: set_escape_shorter set_range_shorter)

function set_loop :: "32 word \<Rightarrow> int list \<Rightarrow> string \<Rightarrow> reg_err + int list \<times> string" where
  "set_loop cf ws pat =
     (if starts_with pat (CHR '']'') then Inr (ws, tl pat)
      else if pat = [] then Inl REG_ERR_UNMATCHED_BRACKET
      else case set_item cf pat of Inl e \<Rightarrow> Inl e | Inr (w, pat') \<Rightarrow> set_loop cf (ws @ w) pat')"
  by pat_completeness auto
termination
  by (relation "measure (\<lambda>(_, _, pat). length pat)") (auto dest: set_item_shorter)

declare set_loop.simps [simp del]

text \<open>The set behind the bracket: whether it is a complement, its words, and the text behind it.\<close>

definition set_words :: "32 word \<Rightarrow> string \<Rightarrow> reg_err + bool \<times> int list \<times> string" where
  "set_words cf s =
     (let but = starts_with s (CHR ''^'');
          pat = (if but then tl s else s);
          first = (starts_with pat (CHR '']'') \<or> starts_with pat (CHR ''-''));
          ws = (if first then reg_addrange (uchar pat) (uchar pat) else [])
      in case set_loop cf ws (if first then tl pat else pat) of
           Inl e \<Rightarrow> Inl e | Inr (ws', pat') \<Rightarrow> Inr (but, ws', pat'))"

section \<open>Atoms\<close>

text \<open>
  The run of characters that are matched as they are: a character in front of a repetition is left for a run
  of its own unless it is the first.
\<close>

function exact_loop :: "32 word \<Rightarrow> int list \<Rightarrow> string \<Rightarrow> reg_err + int list \<times> string" where
  "exact_loop cf ws s =
     (if s = [] \<or> hd s \<in> set META then Inr (ws, s)
      else let c = char_case cf (uchar s); t = tl s in
        if c = 92 \<and> t \<noteq> [] \<and> hd t \<in> set ''<>mMwWdDsSAZ'' then Inr (ws, s)
        else (let (n, ch) = (if c = 92 \<and> t \<noteq> [] then reg_decode_escape t else (0, c)); rest = drop n t in
          if c = 92 \<and> t \<noteq> [] \<and> ch = 0 then Inl REG_ERR_NULL_CHAR
          else if is_mult rest then (if ws \<noteq> [] then Inr (ws, s) else Inr ([ch], rest))
          else exact_loop cf (ws @ [ch]) rest))"
  by pat_completeness auto
termination
  by (relation "measure (\<lambda>(_, _, s). length s)") (auto simp: less_Suc_eq_le Let_def neq_Nil_conv)

declare exact_loop.simps [simp del]

text \<open>What emits one node: its address, its flags and the new state.\<close>

type_synonym node = "nat \<times> flags \<times> rc"

definition put_node :: "int \<Rightarrow> int list \<Rightarrow> flags \<Rightarrow> rc \<Rightarrow> node comp" where
  "put_node oper ws fl st = (case regnode oper st of (ret, st') \<Rightarrow> Ret (Inr (ret, fl, regc ws st')))"

definition exact_atom :: "32 word \<Rightarrow> rc \<Rightarrow> node comp" where
  "exact_atom cf st =
     (case exact_loop cf [] (rc_parse st) of
        Inl e \<Rightarrow> Ret (Inl e)
      | Inr (ws, rest) \<Rightarrow>
          put_node EXACTLY (ws @ [0]) (if length ws = 1 then WIDE_SIMPLE else WIDE) (st\<lparr>rc_parse := rest\<rparr>))"

text \<open>The classes behind a backslash.\<close>

definition escape_class :: "32 word \<Rightarrow> char \<Rightarrow> (bool \<times> int list) option" where
  "escape_class cf c =
     (if c = CHR ''d'' \<or> c = CHR ''D'' then Some (c = CHR ''D'', reg_addrange 48 57)
      else if c = CHR ''w'' \<or> c = CHR ''W'' then
        Some (c = CHR ''W'', (if cf AND REG_ICASE = 0 then reg_addrange 97 122 else [])
                @ reg_addrange 65 90 @ reg_addrange 48 57 @ reg_addrange 95 95)
      else if c = CHR ''s'' \<or> c = CHR ''S'' then Some (c = CHR ''S'', reg_addrange_str space_chars)
      else None)"

definition put_set :: "bool \<Rightarrow> int list \<Rightarrow> rc \<Rightarrow> node comp" where
  "put_set but ws st = put_node (if but then ANYBUT else ANYOF) (ws @ [0]) WIDE_SIMPLE st"

definition escape_atom :: "32 word \<Rightarrow> rc \<Rightarrow> node comp" where
  "escape_atom cf st =
     (case tl (rc_parse st) of
        [] \<Rightarrow> Ret (Inl REG_ERR_INVALID_ESCAPE)
      | c # t \<Rightarrow>
          let st' = st\<lparr>rc_parse := t\<rparr> in
          if c = CHR ''A'' then put_node BOLX [] WORST st'
          else if c = CHR ''Z'' then put_node EOLX [] WORST st'
          else if c = CHR ''<'' \<or> c = CHR ''m'' then put_node WORDA [] WORST st'
          else if c = CHR ''>'' \<or> c = CHR ''M'' then put_node WORDZ [] WORST st'
          else (case escape_class cf c of
              Some (but, ws) \<Rightarrow> put_set but ws st'
            | None \<Rightarrow> exact_atom cf st))"

text \<open>\<open>grp\<close> is the recursive call for what is behind an opening parenthesis.\<close>

definition regatom :: "(rc \<Rightarrow> node comp) \<Rightarrow> 32 word \<Rightarrow> rc \<Rightarrow> node comp" where
  "regatom grp cf st =
     (case rc_parse st of
        [] \<Rightarrow> Ret (Inl REG_ERR_INTERNAL)
      | c # t \<Rightarrow>
          let st' = st\<lparr>rc_parse := t\<rparr> in
          if c = CHR ''^'' then put_node BOL [] WORST st'
          else if c = CHR ''$'' then put_node EOL [] WORST st'
          else if c = CHR ''.'' then put_node ANY [] WIDE_SIMPLE st'
          else if c = CHR ''['' then
            (case set_words cf t of
               Inl e \<Rightarrow> Ret (Inl e)
             | Inr (but, ws, pat) \<Rightarrow> put_set but ws (st\<lparr>rc_parse := pat\<rparr>))
          else if c = CHR ''('' then
            err_bind (grp st') (\<lambda>(ret, fl, st1). Ret (Inr (ret, fl\<lparr>SIMPLE := False\<rparr>, st1)))
          else if c = CHR ''|'' \<or> c = CHR '')'' then Ret (Inl REG_ERR_INTERNAL)
          else if c \<in> set ''?+*{'' then Ret (Inl REG_ERR_COUNT_FOLLOWS_NOTHING)
          else if c = backslash then escape_atom cf st
          else exact_atom cf st)"

section \<open>Pieces\<close>

text \<open>
  The count that starts a text: the least and the largest number, and the text from the last character of the
  count on. Numbers are cut to an \<^verbatim>\<open>int\<close>; a missing second number is no limit.
\<close>

definition read_count :: "string \<Rightarrow> int \<times> string" where
  "read_count s = (case strtoul_end s of (v, rest) \<Rightarrow> (sint (ucast v :: 32 word), rest))"

definition brace_count :: "string \<Rightarrow> reg_err + int \<times> int \<times> string" where
  "brace_count s =
     (case read_count (tl s) of (mn, ende) \<Rightarrow>
        if ende = tl s then Inl REG_ERR_BAD_COUNT
        else if ende = [] then Inl REG_ERR_UNMATCHED_BRACES
        else
          (case (if hd ende = CHR ''}'' then Inr (mn, s)
                 else case read_count (tl ende) of (mx, ende2) \<Rightarrow>
                   if \<not> starts_with ende2 (CHR ''}'') then Inl REG_ERR_UNMATCHED_BRACES
                   else Inr (if ende2 = tl ende then MAX_REP_COUNT else mx, ende)) of
             Inl e \<Rightarrow> Inl e
           | Inr (mx, from) \<Rightarrow>
               let open_ended = (hd ende \<noteq> CHR ''}'' \<and> snd (read_count (tl ende)) = tl ende) in
               if \<not> open_ended \<and> (mx < mn \<or> 100 \<le> mx) then Inl REG_ERR_BAD_COUNT
               else if 100 \<le> mn then Inl REG_ERR_BAD_COUNT
               else Inr (mn, mx, dropWhile (\<lambda>c. c \<noteq> CHR ''}'') from)))"

definition rep_count :: "string \<Rightarrow> reg_err + int \<times> int \<times> string" where
  "rep_count s =
     (if hd s = CHR ''{'' then brace_count s
      else Inr (if hd s = CHR ''+'' then 1 else 0, if hd s = CHR ''?'' then 1 else MAX_REP_COUNT, s))"

text \<open>The loop back of a complex repetition at \<open>ret\<close>, whose operand is at \<open>ret + 5\<close>.\<close>

definition loop_back :: "nat \<Rightarrow> rc \<Rightarrow> rc run" where
  "loop_back ret st =
     (case regnode BACK st of (back, st') \<Rightarrow>
        run_bind (regtail (rc_prog st') back ret) (\<lambda>p1.
        run_bind (regtail p1 (ret + 5) back) (\<lambda>p2. Ret (st'\<lparr>rc_prog := p2\<rparr>))))"

text \<open>What may follow an atom at \<open>ret\<close>.\<close>

definition put_count :: "nat \<Rightarrow> flags \<Rightarrow> rc \<Rightarrow> node comp" where
  "put_count ret fl st =
     (let s = rc_parse st in
      if \<not> is_mult s then Ret (Inr (ret, fl, st))
      else if \<not> HASWIDTH fl \<and> hd s \<noteq> CHR ''?'' then Ret (Inl REG_ERR_OPERAND_COULD_BE_EMPTY)
      else case rep_count s of
          Inl e \<Rightarrow> Ret (Inl e)
        | Inr (mn, mx, s1) \<Rightarrow>
            let lazy = starts_with (tl s1) (CHR ''?'');
                s2 = (if lazy then tl s1 else s1);
                oper = (if SIMPLE fl then if lazy then REPMIN else REP else if lazy then REPXMIN else REPX);
                st2 = st\<lparr>rc_prog := reginsert [oper, 0, mx, mn, 0] ret (rc_prog st)\<rparr>
            in run_bind (if SIMPLE fl then Ret st2 else loop_back ret st2) (\<lambda>st3.
                 if is_mult (tl s2) then Ret (Inl REG_ERR_NESTED_COUNT)
                 else Ret (Inr (ret, if mn \<noteq> 0 then WIDE else WORST\<lparr>SPSTART := True\<rparr>,
                            st3\<lparr>rc_parse := tl s2\<rparr>))))"

definition regpiece :: "(rc \<Rightarrow> node comp) \<Rightarrow> 32 word \<Rightarrow> rc \<Rightarrow> node comp" where
  "regpiece grp cf st = err_bind (regatom grp cf st) (\<lambda>(ret, fl, st1). put_count ret fl st1)"

section \<open>Branches and the expression\<close>

text \<open>Each round reads at least one character, so that there are no more rounds than characters.\<close>

fun piece_loop :: "nat \<Rightarrow> (rc \<Rightarrow> node comp) \<Rightarrow> 32 word \<Rightarrow> nat \<Rightarrow> flags \<Rightarrow> rc \<Rightarrow> (flags \<times> rc) comp" where
  "piece_loop 0 grp cf chain fl st = Diverge"
| "piece_loop (Suc n) grp cf chain fl st =
     (if rc_parse st = [] \<or> hd (rc_parse st) \<in> set '')|'' then
        Ret (Inr (fl, if chain = 0 then snd (regnode NOTHING st) else st))
      else err_bind (regpiece grp cf st) (\<lambda>(latest, fl1, st1).
        let fl2 = fl\<lparr>HASWIDTH := HASWIDTH fl \<or> HASWIDTH fl1\<rparr> in
        if chain = 0 then piece_loop n grp cf latest (fl2\<lparr>SPSTART := SPSTART fl \<or> SPSTART fl1\<rparr>) st1
        else run_bind (regtail (rc_prog st1) chain latest) (\<lambda>p.
          piece_loop n grp cf latest fl2 (st1\<lparr>rc_prog := p\<rparr>))))"

definition regbranch :: "(rc \<Rightarrow> node comp) \<Rightarrow> 32 word \<Rightarrow> rc \<Rightarrow> node comp" where
  "regbranch grp cf st =
     (case regnode BRANCH st of (ret, st1) \<Rightarrow>
        err_bind (piece_loop (Suc (length (rc_parse st))) grp cf 0 WORST st1) (\<lambda>(fl, st2). Ret (Inr (ret, fl, st2))))"

fun alt_loop :: "nat \<Rightarrow> (rc \<Rightarrow> node comp) \<Rightarrow> 32 word \<Rightarrow> nat \<Rightarrow> flags \<Rightarrow> rc \<Rightarrow> (flags \<times> rc) comp" where
  "alt_loop 0 grp cf ret fl st = Diverge"
| "alt_loop (Suc n) grp cf ret fl st =
     (if \<not> starts_with (rc_parse st) (CHR ''|'') then Ret (Inr (fl, st))
      else err_bind (regbranch grp cf (st\<lparr>rc_parse := tl (rc_parse st)\<rparr>)) (\<lambda>(br, fl1, st1).
        run_bind (regtail (rc_prog st1) ret br) (\<lambda>p.
          alt_loop n grp cf ret
            (fl\<lparr>HASWIDTH := HASWIDTH fl \<and> HASWIDTH fl1, SPSTART := SPSTART fl \<or> SPSTART fl1\<rparr>)
            (st1\<lparr>rc_prog := p\<rparr>))))"

text \<open>The end of an expression: \<open>ender\<close> is hooked to the last branch and to the end of each branch.\<close>

definition close_alts :: "int \<Rightarrow> nat \<Rightarrow> rc \<Rightarrow> rc run" where
  "close_alts oper ret st =
     (case regnode oper st of (ender, st1) \<Rightarrow>
        run_bind (regtail (rc_prog st1) ret ender) (\<lambda>p1.
        run_bind (hook_tails (length p1) p1 ret ender) (\<lambda>p2. Ret (st1\<lparr>rc_prog := p2\<rparr>))))"

text \<open>The check behind the expression; a closing parenthesis is read.\<close>

definition reg_end :: "bool \<Rightarrow> rc \<Rightarrow> reg_err + rc" where
  "reg_end paren st =
     (let s = rc_parse st in
      if paren then (if starts_with s (CHR '')'') then Inr (st\<lparr>rc_parse := tl s\<rparr>) else Inl REG_ERR_UNMATCHED_PAREN)
      else if s = [] then Inr st
      else if starts_with s (CHR '')'') then Inl REG_ERR_UNMATCHED_PAREN
      else Inl REG_ERR_JUNK_ON_END)"

text \<open>The node in front of a group: its number is \<open>-1\<close> when nothing is captured.\<close>

definition open_group :: "rc \<Rightarrow> int \<times> rc" where
  "open_group st =
     (if strneq (rc_parse st) ''?:'' 2 then (-1, st\<lparr>rc_parse := drop 2 (rc_parse st)\<rparr>)
      else (int (Suc (rc_nsub st)), st\<lparr>rc_nsub := Suc (rc_nsub st)\<rparr>))"

text \<open>\<open>k\<close> bounds the nesting of parentheses.\<close>

fun reg :: "nat \<Rightarrow> 32 word \<Rightarrow> bool \<Rightarrow> rc \<Rightarrow> node comp" where
  "reg 0 cf paren st = Diverge"
| "reg (Suc k) cf paren st =
     (let (parno, st1) = (if paren then open_group st else (0, st));
          (ret0, st2) = (if paren then regnode (OPEN + parno) st1 else (0, st1));
          grp = reg k cf True
      in err_bind (regbranch grp cf st2) (\<lambda>(br, fl1, st3).
         run_bind (if ret0 \<noteq> 0 then regtail (rc_prog st3) ret0 br else Ret (rc_prog st3)) (\<lambda>p.
         let ret = (if ret0 \<noteq> 0 then ret0 else br) in
         err_bind (alt_loop (Suc (length (rc_parse st3))) grp cf ret
             (WORST\<lparr>HASWIDTH := HASWIDTH fl1, SPSTART := SPSTART fl1\<rparr>) (st3\<lparr>rc_prog := p\<rparr>)) (\<lambda>(fl, st4).
         run_bind (close_alts (if paren then CLOSE + parno else OP_END) ret st4) (\<lambda>st5.
         Ret (case reg_end paren st5 of Inl e \<Rightarrow> Inl e | Inr st6 \<Rightarrow> Inr (ret, fl, st6)))))))"

section \<open>The compiled expression\<close>

record regexp =
  re_nsub :: nat
  re_cflags :: "32 word"
  re_start :: int
  re_anch :: bool
  re_must :: nat
  re_mlen :: nat
  re_program :: "int list"

text \<open>The words up to the terminator, as \<^verbatim>\<open>str_int_len\<close> counts them.\<close>

definition operand_words :: "int list \<Rightarrow> nat \<Rightarrow> int list run" where
  "operand_words prog p =
     (let ws = takeWhile (\<lambda>w. w \<noteq> 0) (drop p prog)
      in if p + length ws < length prog then Ret ws else Undef)"

text \<open>The last of the longest texts of the chain: its address and its length.\<close>

fun must_loop :: "nat \<Rightarrow> int list \<Rightarrow> nat \<Rightarrow> nat \<times> nat \<Rightarrow> (nat \<times> nat) run" where
  "must_loop 0 prog scan best = Diverge"
| "must_loop (Suc n) prog scan best =
     (if scan = 0 then Ret best
      else run_bind (word_at prog scan) (\<lambda>oper.
        run_bind (if oper = EXACTLY then
                    run_bind (operand_words prog (scan + 2)) (\<lambda>ws.
                      Ret (if snd best \<le> length ws then (scan + 2, length ws) else best))
                  else Ret best) (\<lambda>best'.
        run_bind (regnext prog scan) (\<lambda>scan'. must_loop n prog scan' best'))))"

text \<open>What the optimiser finds out, for an expression with one branch only.\<close>

definition optimise :: "flags \<Rightarrow> regexp \<Rightarrow> regexp run" where
  "optimise fl re =
     (let prog = re_program re in
      run_bind (regnext prog 1) (\<lambda>nxt.
      run_bind (word_at prog nxt) (\<lambda>oper.
        if oper \<noteq> OP_END then Ret re
        else run_bind (word_at prog 3) (\<lambda>first.
          run_bind (if first = EXACTLY then run_bind (word_at prog 5) (\<lambda>c. Ret (re\<lparr>re_start := c\<rparr>))
                    else Ret (re\<lparr>re_anch := (first = BOL)\<rparr>)) (\<lambda>re1.
          if \<not> SPSTART fl then Ret re1
          else run_bind (must_loop (length prog) prog 3 (0, 0)) (\<lambda>(longest, len).
            Ret (re1\<lparr>re_must := longest, re_mlen := len\<rparr>)))))))"

text \<open>\<^verbatim>\<open>jim_regcomp\<close>; \<open>mem\<close> says whether there is memory for the program.\<close>

definition jim_regcomp :: "bool \<Rightarrow> string option \<Rightarrow> 32 word \<Rightarrow> regexp comp" where
  "jim_regcomp mem expr cf =
     (case expr of
        None \<Rightarrow> Ret (Inl REG_ERR_NULL_ARGUMENT)
      | Some s \<Rightarrow>
          if \<not> mem then Ret (Inl REG_ERR_NOMEM)
          else err_bind (reg (Suc (length s)) cf False \<lparr>rc_prog = [REG_MAGIC], rc_parse = s, rc_nsub = 0\<rparr>)
            (\<lambda>(_, fl, st).
              if REG_MAX_PAREN \<le> rc_nsub st then Ret (Inl REG_ERR_TOO_BIG)
              else run_bind (optimise fl \<lparr>re_nsub = rc_nsub st, re_cflags = cf, re_start = 0, re_anch = False,
                       re_must = 0, re_mlen = 0, re_program = rc_prog st\<rparr>) (\<lambda>re. Ret (Inr re))))"

section \<open>Messages\<close>

definition error_strings :: "string list" where
  "error_strings =
     [''success'', ''no match'', ''bad pattern'', ''null argument'', ''unknown error'', ''too big'',
      ''out of memory'', ''too many ()'', ''parentheses () not balanced'', ''braces {} not balanced'',
      ''invalid repetition count(s)'', ''extra characters'', ''*+ of empty atom'', ''nested count'',
      ''internal error'', ''count follows nothing'', ''invalid escape '' @ [backslash] @ '' sequence'',
      ''corrupted program'', ''contains null char'', ''brackets [] not balanced'']"

text \<open>\<^verbatim>\<open>jim_regerror\<close>: the length of the message and what the buffer holds of it.\<close>

definition jim_regerror :: "int \<Rightarrow> nat \<Rightarrow> nat \<times> string" where
  "jim_regerror errcode bufsiz =
     (let err = (if errcode < 0 \<or> 20 \<le> errcode then ''Bad error code'' else error_strings ! nat errcode)
      in (length err, strncpy_buf err bufsiz))"

end
