(* ===== verification/Jim_Exec.thy ===== *)
theory Jim_Exec
  imports Jim_Comp
begin

unbundle bit_operations_syntax

text \<open>
  The matcher of \<^verbatim>\<open>jimregexp.c\<close>. A position is an index into the text; the working state is the
  program, whose complex repetitions count in it, the position that is reached, and the borders of the
  groups. \<open>k\<close> bounds the steps on a path of the search; \<open>Diverge\<close> is that it is used up.
\<close>

section \<open>The text\<close>

record rx =
  x_cf :: "32 word"
  x_ef :: "32 word"
  x_str :: string
  x_bol :: nat

record rm =
  rm_prog :: "int list"
  rm_in :: nat
  rm_match :: "(int \<times> int) list"

text \<open>The character at a position, \<open>0\<close> at the end.\<close>

definition char_at :: "string \<Rightarrow> nat \<Rightarrow> int" where
  "char_at s i = (if i < length s then of_char (s ! i) else 0)"

definition text_char :: "rx \<Rightarrow> nat \<Rightarrow> int" where
  "text_char x i = char_case (x_cf x) (char_at (x_str x) i)"

definition reg_iseol :: "rx \<Rightarrow> int \<Rightarrow> bool" where
  "reg_iseol x c \<longleftrightarrow> c = 0 \<or> x_cf x AND REG_NEWLINE \<noteq> 0 \<and> c = 10"

definition is_word :: "int \<Rightarrow> bool" where
  "is_word c \<longleftrightarrow> 48 \<le> c \<and> c \<le> 57 \<or> 65 \<le> c \<and> c \<le> 90 \<or> 97 \<le> c \<and> c \<le> 122 \<or> c = 95"

text \<open>The characters matched when the words are in front of the text.\<close>

fun prefix_cmp :: "32 word \<Rightarrow> int list \<Rightarrow> string \<Rightarrow> nat option" where
  "prefix_cmp cf [] s = Some 0"
| "prefix_cmp cf (w # ws) [] = None"
| "prefix_cmp cf (w # ws) (c # s) =
     (if char_case cf (of_char c) = w then map_option Suc (prefix_cmp cf ws s) else None)"

fun reg_range_find :: "int list \<Rightarrow> int \<Rightarrow> bool run" where
  "reg_range_find [] c = Undef"
| "reg_range_find [r] c = (if r = 0 then Ret False else Undef)"
| "reg_range_find (r # l # ws) c =
     (if r = 0 then Ret False else if l \<le> c \<and> c \<le> r + l - 1 then Ret True else reg_range_find ws c)"

text \<open>The first position from \<open>i\<close> on with the character \<open>c\<close>.\<close>

definition str_find :: "32 word \<Rightarrow> string \<Rightarrow> nat \<Rightarrow> int \<Rightarrow> nat option" where
  "str_find cf s i c =
     (let n = length (takeWhile (\<lambda>d. char_case cf (of_char d) \<noteq> char_case cf c) (drop i s))
      in if i + n < length s then Some (i + n) else None)"

section \<open>Simple repetitions\<close>

text \<open>How often a character test holds in a row, up to a bound.\<close>

fun count_chars :: "(char \<Rightarrow> bool run) \<Rightarrow> string \<Rightarrow> int \<Rightarrow> nat run" where
  "count_chars t [] mx = Ret 0"
| "count_chars t (c # s) mx =
     (if mx \<le> 0 then Ret 0
      else run_bind (t c) (\<lambda>b. if b then run_bind (count_chars t s (mx - 1)) (\<lambda>n. Ret (Suc n)) else Ret 0))"

text \<open>The test of one character by the node at \<open>p\<close>.\<close>

definition simple_test :: "rx \<Rightarrow> int list \<Rightarrow> nat \<Rightarrow> char \<Rightarrow> bool run" where
  "simple_test x prog p c =
     (let ch = char_case (x_cf x) (of_char c) in
      run_bind (word_at prog p) (\<lambda>oper.
        if oper = ANY then Ret (\<not> reg_iseol x (of_char c))
        else if oper = EXACTLY then run_bind (word_at prog (p + 2)) (\<lambda>w. Ret (w = ch))
        else if oper = ANYOF then
          (if reg_iseol x ch then Ret False else reg_range_find (drop (p + 2) prog) ch)
        else if oper = ANYBUT then
          (if reg_iseol x ch then Ret False
           else run_bind (reg_range_find (drop (p + 2) prog) ch) (\<lambda>b. Ret (\<not> b)))
        else Ret False))"

definition regrepeat :: "rx \<Rightarrow> int list \<Rightarrow> nat \<Rightarrow> int \<Rightarrow> nat \<Rightarrow> nat run" where
  "regrepeat x prog p mx i = count_chars (simple_test x prog p) (drop i (x_str x)) mx"

section \<open>Matching\<close>

text \<open>The answer of \<^verbatim>\<open>regmatch\<close>, which the callers take for success when it is not \<open>0\<close>.\<close>

definition INTERNAL :: int where "INTERNAL = 14"

text \<open>The tests that do not move, at the end of a line, of the text or of a word.\<close>

definition anchor_holds :: "rx \<Rightarrow> int \<Rightarrow> nat \<Rightarrow> bool" where
  "anchor_holds x oper i =
     (let c = text_char x i in
      if oper = BOLX then x_ef x AND REG_NOTBOL = 0 \<and> i = x_bol x
      else if oper = BOL then i = x_bol x
      else if oper = EOLX then c = 0
      else if oper = EOL then reg_iseol x c
      else if oper = WORDA then is_word c \<and> \<not> (x_bol x < i \<and> is_word (char_at (x_str x) (i - 1)))
      else if oper = WORDZ then
        x_bol x < i \<and> (reg_iseol x c \<or> \<not> is_word c) \<and> is_word (char_at (x_str x) (i - 1))
      else True)"

definition is_anchor :: "int \<Rightarrow> bool" where
  "is_anchor oper \<longleftrightarrow> oper \<in> {BOLX, BOL, EOLX, EOL, WORDA, WORDZ, NOTHING, BACK}"

text \<open>The nodes that match one text: \<open>None\<close> for a failure, or how far they move.\<close>

definition is_text :: "int \<Rightarrow> bool" where
  "is_text oper \<longleftrightarrow> oper \<in> {ANY, EXACTLY, ANYOF, ANYBUT}"

definition text_node :: "rx \<Rightarrow> int list \<Rightarrow> nat \<Rightarrow> int \<Rightarrow> nat \<Rightarrow> nat option run" where
  "text_node x prog scan oper i =
     (let c = text_char x i in
      if oper = EXACTLY then
        run_bind (operand_words prog (scan + 2)) (\<lambda>ws. Ret (prefix_cmp (x_cf x) ws (drop i (x_str x))))
      else if reg_iseol x c then Ret None
      else if oper = ANY then Ret (Some 1)
      else run_bind (reg_range_find (drop (scan + 2) prog) c) (\<lambda>b.
             Ret (if b = (oper = ANYOF) then Some 1 else None)))"

text \<open>The borders of group \<open>no\<close> when the rest has matched from \<open>i\<close> on.\<close>

definition set_border :: "int \<Rightarrow> nat \<Rightarrow> (int \<times> int) list \<Rightarrow> (int \<times> int) list" where
  "set_border oper i pm =
     (if oper < CLOSE then
        (let no = nat (oper - OPEN) in
         if no < length pm \<and> fst (pm ! no) = - 1 then pm[no := (int i, snd (pm ! no))] else pm)
      else
        (let no = nat (oper - CLOSE) in
         if no < length pm \<and> snd (pm ! no) = - 1 then pm[no := (fst (pm ! no), int i)] else pm))"

text \<open>
  The parts of \<open>regmatch\<close> that call it again; \<open>rec\<close> is that call. The branches of a choice are tried one
  after the other; a chain has no more of them than the program has words.
\<close>

type_synonym matcher = "nat \<Rightarrow> rm \<Rightarrow> (int \<times> rm) run"

fun branches :: "nat \<Rightarrow> matcher \<Rightarrow> nat \<Rightarrow> nat \<Rightarrow> rm \<Rightarrow> (int \<times> rm) run" where
  "branches 0 rec save scan m = Diverge"
| "branches (Suc n) rec save scan m =
     run_bind (rec (scan + 2) m) (\<lambda>(r, m1).
       if r \<noteq> 0 then Ret (1, m1)
       else let m2 = m1\<lparr>rm_in := save\<rparr> in
         run_bind (regnext (rm_prog m2) scan) (\<lambda>scan'.
           if scan' = 0 then Ret (0, m2)
           else run_bind (word_at (rm_prog m2) scan') (\<lambda>oper.
             if oper = BRANCH then branches n rec save scan' m2 else Ret (0, m2))))"

text \<open>
  The loop over the numbers of characters, from \<open>no\<close> to \<open>bound\<close>, down or, when \<open>lazy\<close>, up. The
  rest is only tried when the next character can be the right one.
\<close>

fun repeat_loop :: "nat \<Rightarrow> matcher \<Rightarrow> rx \<Rightarrow> nat \<Rightarrow> int \<Rightarrow> bool \<Rightarrow> nat \<Rightarrow> int \<Rightarrow> int \<Rightarrow> rm \<Rightarrow> (int \<times> rm) run" where
  "repeat_loop 0 rec x nxt nextch lazy save no bound m = Diverge"
| "repeat_loop (Suc n) rec x nxt nextch lazy save no bound m =
     (if (if lazy then bound < no else no < bound) then Ret (0, m)
      else let i = int save + no in
        if i < 0 \<or> int (length (x_str x)) < i then Undef
        else let m1 = m\<lparr>rm_in := nat i\<rparr> in
          run_bind (if reg_iseol x nextch \<or> text_char x (nat i) = nextch then rec nxt m1 else Ret (0, m1))
            (\<lambda>(r, m2). if r \<noteq> 0 then Ret (1, m2)
              else repeat_loop n rec x nxt nextch lazy save (if lazy then no + 1 else no - 1) bound m2))"

definition regmatchsimplerepeat :: "matcher \<Rightarrow> rx \<Rightarrow> nat \<Rightarrow> nat \<Rightarrow> bool \<Rightarrow> rm \<Rightarrow> (int \<times> rm) run" where
  "regmatchsimplerepeat rec x scan nxt lazy m =
     run_bind (word_at (rm_prog m) (scan + 2)) (\<lambda>mx.
     run_bind (word_at (rm_prog m) (scan + 3)) (\<lambda>mn.
     run_bind (word_at (rm_prog m) nxt) (\<lambda>oper2.
     run_bind (if oper2 = EXACTLY then word_at (rm_prog m) (nxt + 2) else Ret 0) (\<lambda>nextch.
     run_bind (regrepeat x (rm_prog m) (scan + 5) mx (rm_in m)) (\<lambda>no.
       if int no < mn then Ret (0, m\<lparr>rm_in := rm_in m + no\<rparr>)
       else repeat_loop (nat (int no - mn) + 2) rec x nxt nextch lazy (rm_in m)
              (if lazy then mn else int no) (if lazy then int no else mn) m)))))"

text \<open>A complex repetition: the count is taken back when the operand does not match.\<close>

definition add_count :: "nat \<Rightarrow> int \<Rightarrow> rm \<Rightarrow> rm" where
  "add_count scan d m = m\<lparr>rm_prog := (rm_prog m)[scan + 4 := rm_prog m ! (scan + 4) + d]\<rparr>"

definition once_more :: "matcher \<Rightarrow> nat \<Rightarrow> rm \<Rightarrow> (int \<times> rm) run" where
  "once_more rec scan m =
     run_bind (rec (scan + 5) (add_count scan 1 m)) (\<lambda>(r, m').
       if r \<noteq> 0 then Ret (1, m') else Ret (0, add_count scan (- 1) m'))"

definition regmatchrepeat :: "matcher \<Rightarrow> nat \<Rightarrow> nat \<Rightarrow> bool \<Rightarrow> rm \<Rightarrow> (int \<times> rm) run" where
  "regmatchrepeat rec scan nxt lazy m =
     run_bind (word_at (rm_prog m) (scan + 2)) (\<lambda>mx.
     run_bind (word_at (rm_prog m) (scan + 3)) (\<lambda>mn.
     run_bind (word_at (rm_prog m) (scan + 4)) (\<lambda>n.
       if n < mn then once_more rec scan m
       else if mx < n then Ret (0, m)
       else if lazy then
         run_bind (rec nxt m) (\<lambda>(r, m'). if r \<noteq> 0 then Ret (1, m') else once_more rec scan m')
       else
         run_bind (if n < mx then once_more rec scan m else Ret (0, m))
           (\<lambda>(r, m'). if r \<noteq> 0 then Ret (1, m') else rec nxt m'))))"

text \<open>One round of the loop of \<open>regmatch\<close> at a node with its operation and its next node.\<close>

definition match_node :: "matcher \<Rightarrow> rx \<Rightarrow> nat \<Rightarrow> int \<Rightarrow> nat \<Rightarrow> rm \<Rightarrow> (int \<times> rm) run" where
  "match_node rec x scan oper nxt m =
     (if is_anchor oper then (if anchor_holds x oper (rm_in m) then rec nxt m else Ret (0, m))
      else if is_text oper then
        run_bind (text_node x (rm_prog m) scan oper (rm_in m)) (\<lambda>r.
          case r of None \<Rightarrow> Ret (0, m) | Some n \<Rightarrow> rec nxt (m\<lparr>rm_in := rm_in m + n\<rparr>))
      else if oper = BRANCH then
        run_bind (word_at (rm_prog m) nxt) (\<lambda>oper2.
          if oper2 \<noteq> BRANCH then rec (scan + 2) m
          else branches (length (rm_prog m)) rec (rm_in m) scan m)
      else if oper = REP \<or> oper = REPMIN then regmatchsimplerepeat rec x scan nxt (oper = REPMIN) m
      else if oper = REPX \<or> oper = REPXMIN then regmatchrepeat rec scan nxt (oper = REPXMIN) m
      else if oper = OP_END then Ret (1, m)
      else if oper = OPENNC \<or> oper = CLOSENC then rec nxt m
      else if OPEN + 1 \<le> oper \<and> oper < CLOSE_END then
        run_bind (rec nxt m) (\<lambda>(r, m').
          if r \<noteq> 0 then Ret (1, m'\<lparr>rm_match := set_border oper (rm_in m) (rm_match m')\<rparr>)
          else Ret (0, m'\<lparr>rm_in := rm_in m\<rparr>))
      else Ret (INTERNAL, m))"

fun regmatch :: "nat \<Rightarrow> rx \<Rightarrow> matcher" where
  "regmatch 0 x scan m = Diverge"
| "regmatch (Suc k) x scan m =
     (if scan = 0 then Ret (INTERNAL, m)
      else run_bind (word_at (rm_prog m) scan) (\<lambda>oper.
           run_bind (regnext (rm_prog m) scan) (\<lambda>nxt. match_node (regmatch k x) x scan oper nxt m)))"

section \<open>Searching\<close>

text \<open>
  \<^verbatim>\<open>regtry\<close> at one position. The whole match is written without a look at \<^verbatim>\<open>nmatch\<close>.
\<close>

definition regtry :: "nat \<Rightarrow> rx \<Rightarrow> nat \<Rightarrow> rm \<Rightarrow> (bool \<times> rm) run" where
  "regtry k x i m =
     run_bind (regmatch k x 1 (m\<lparr>rm_in := i, rm_match := map (\<lambda>_. (- 1, - 1)) (rm_match m)\<rparr>)) (\<lambda>(r, m').
       if r = 0 then Ret (False, m')
       else if rm_match m' = [] then Undef
       else Ret (True, m'\<lparr>rm_match := (rm_match m')[0 := (int i, int (rm_in m'))]\<rparr>))"

definition regopsize :: "int list \<Rightarrow> nat \<Rightarrow> nat run" where
  "regopsize prog p =
     run_bind (word_at prog p) (\<lambda>oper.
       if oper \<in> {REP, REPMIN, REPX, REPXMIN} then Ret 5
       else if oper \<in> {ANYOF, ANYBUT, EXACTLY} then
         run_bind (operand_words prog (p + 2)) (\<lambda>ws. Ret (length ws + 3))
       else Ret 2)"

text \<open>The counts of the complex repetitions are cleared, node by node.\<close>

fun clear_counts :: "nat \<Rightarrow> int list \<Rightarrow> nat \<Rightarrow> int list run" where
  "clear_counts 0 prog scan = Diverge"
| "clear_counts (Suc n) prog scan =
     run_bind (word_at prog scan) (\<lambda>oper.
       if oper = OP_END then Ret prog
       else
         run_bind (if oper = REPX \<or> oper = REPXMIN then
                     (if scan + 4 < length prog then Ret (prog[scan + 4 := 0]) else Undef)
                   else Ret prog) (\<lambda>prog'.
         run_bind (regopsize prog' scan) (\<lambda>siz. clear_counts n prog' (scan + siz))))"

text \<open>Whether the text that must appear does.\<close>

fun must_appear :: "nat \<Rightarrow> 32 word \<Rightarrow> string \<Rightarrow> int list \<Rightarrow> nat \<Rightarrow> bool" where
  "must_appear 0 cf s ws i = False"
| "must_appear (Suc n) cf s ws i =
     (case str_find cf s i (hd ws) of
        None \<Rightarrow> False
      | Some j \<Rightarrow> prefix_cmp cf ws (drop j s) \<noteq> None \<or> must_appear n cf s ws (Suc j))"

text \<open>
  The three searches, with as many rounds as the text has characters and one more: at the start of
  lines, at a character, and everywhere.
\<close>

fun search_lines :: "nat \<Rightarrow> nat \<Rightarrow> rx \<Rightarrow> bool \<Rightarrow> nat \<Rightarrow> rm \<Rightarrow> (bool \<times> rm) run" where
  "search_lines 0 k x skip i m = Diverge"
| "search_lines (Suc n) k x skip i m =
     run_bind (if skip then Ret (False, m) else regtry k x i m) (\<lambda>(b, m').
       if b then Ret (True, m')
       else if \<not> skip \<and> char_at (x_str x) i = 0 then Ret (False, m')
       else if x_cf x AND REG_NEWLINE = 0 then Ret (False, m')
       else let j = i + length (takeWhile (\<lambda>c. c \<noteq> CHR 0x0A) (drop i (x_str x))) in
         if length (x_str x) \<le> j then Ret (False, m')
         else search_lines n k (x\<lparr>x_bol := Suc j\<rparr>) False (Suc j) m')"

fun search_char :: "nat \<Rightarrow> nat \<Rightarrow> rx \<Rightarrow> int \<Rightarrow> nat \<Rightarrow> rm \<Rightarrow> (bool \<times> rm) run" where
  "search_char 0 k x c i m = Diverge"
| "search_char (Suc n) k x c i m =
     (case str_find (x_cf x) (x_str x) i c of
        None \<Rightarrow> Ret (False, m)
      | Some j \<Rightarrow> run_bind (regtry k x j m) (\<lambda>(b, m').
          if b then Ret (True, m') else search_char n k x c (Suc j) m'))"

fun search_all :: "nat \<Rightarrow> nat \<Rightarrow> rx \<Rightarrow> nat \<Rightarrow> rm \<Rightarrow> (bool \<times> rm) run" where
  "search_all 0 k x i m = Diverge"
| "search_all (Suc n) k x i m =
     run_bind (regtry k x i m) (\<lambda>(b, m').
       if b then Ret (True, m')
       else if char_at (x_str x) i = 0 then Ret (False, m')
       else search_all n k x (Suc i) m')"

datatype exec_result = NoError | NoMatch | ExecErr reg_err

text \<open>
  \<^verbatim>\<open>jim_regexec\<close>: the answer, the expression with its counts, and the borders.
\<close>

definition jim_regexec ::
    "nat \<Rightarrow> regexp \<Rightarrow> string option \<Rightarrow> (int \<times> int) list \<Rightarrow> 32 word \<Rightarrow> (exec_result \<times> regexp \<times> (int \<times> int) list) run" where
  "jim_regexec k re str pmatch ef =
     (case str of
        None \<Rightarrow> Ret (ExecErr REG_ERR_NULL_ARGUMENT, re, pmatch)
      | Some s \<Rightarrow>
          if re_program re = [] then Ret (ExecErr REG_ERR_NULL_ARGUMENT, re, pmatch)
          else if hd (re_program re) \<noteq> REG_MAGIC then Ret (ExecErr REG_ERR_CORRUPTED, re, pmatch)
          else run_bind (clear_counts (length (re_program re)) (re_program re) 3) (\<lambda>prog.
            let cf = re_cflags re;
                m = \<lparr>rm_prog = prog, rm_in = 0, rm_match = pmatch\<rparr>;
                x = \<lparr>x_cf = cf, x_ef = ef, x_str = s, x_bol = 0\<rparr>
            in if re_must re \<noteq> 0 \<and>
                  \<not> must_appear (Suc (length s)) cf s (take (re_mlen re) (drop (re_must re) prog)) 0
               then Ret (NoMatch, re\<lparr>re_program := prog\<rparr>, pmatch)
               else run_bind
                 (if re_anch re then search_lines (Suc (length s)) k x (ef AND REG_NOTBOL \<noteq> 0) 0 m
                  else if re_start re \<noteq> 0 then search_char (Suc (length s)) k x (re_start re) 0 m
                  else search_all (Suc (length s)) k x 0 m)
                 (\<lambda>(b, m'). Ret (if b then NoError else NoMatch, re\<lparr>re_program := rm_prog m'\<rparr>, rm_match m'))))"

end
