(* ===== verification/Jim_Layout.thy ===== *)
theory Jim_Layout
  imports Jim_Exec
begin

text \<open>
  Regular expressions as trees, the program that a tree is laid out as, and the texts that it matches.
  The trees are those of \<^verbatim>\<open>jimregexp.c\<close>: a list of branches, a branch is a list of pieces, a piece
  is an atom with or without a count.
\<close>

section \<open>Trees\<close>

text \<open>
  \<open>Node\<close> is an operation without operand, \<open>Set\<close> has its ranges and whether it is a complement,
  \<open>Group\<close> its number. \<open>Many lazy mn mx\<close> is a counted atom.
\<close>

datatype atom =
    Node int
  | Set bool "int list"
  | Exact "int list"
  | Group int "piece list list"
and piece =
    One atom
  | Many bool int int atom

fun is_simple :: "atom \<Rightarrow> bool" where
  "is_simple (Node oper) \<longleftrightarrow> oper = ANY"
| "is_simple (Set but ws) \<longleftrightarrow> True"
| "is_simple (Exact ws) \<longleftrightarrow> length ws = 1"
| "is_simple (Group no bs) \<longleftrightarrow> False"

section \<open>Layout\<close>

fun len_atom :: "atom \<Rightarrow> nat"
and len_piece :: "piece \<Rightarrow> nat"
and len_seq :: "piece list \<Rightarrow> nat"
and len_alts :: "piece list list \<Rightarrow> nat" where
  "len_atom (Node oper) = 2"
| "len_atom (Set but ws) = length ws + 3"
| "len_atom (Exact ws) = length ws + 3"
| "len_atom (Group no bs) = len_alts bs + 4"
| "len_piece (One a) = len_atom a"
| "len_piece (Many lazy mn mx a) = (if is_simple a then len_atom a + 5 else len_atom a + 7)"
| "len_seq [] = 0"
| "len_seq (x # xs) = len_piece x + len_seq xs"
| "len_alts [] = 0"
| "len_alts (b # bs) = (if b = [] then 4 else len_seq b + 2) + len_alts bs"

definition branch_size :: "piece list \<Rightarrow> nat" where
  "branch_size b = (if b = [] then 4 else len_seq b + 2)"

text \<open>The word for the next node \<open>q\<close> of a node at \<open>p\<close>; \<open>0\<close> is none.\<close>

definition dist :: "nat \<Rightarrow> nat \<Rightarrow> int" where
  "dist p q = (if q = 0 then 0 else int q - int p)"

text \<open>A part at \<open>p\<close> that is followed by the node \<open>q\<close>.\<close>

fun code_atom :: "nat \<Rightarrow> nat \<Rightarrow> atom \<Rightarrow> int list"
and code_piece :: "nat \<Rightarrow> nat \<Rightarrow> piece \<Rightarrow> int list"
and code_seq :: "nat \<Rightarrow> nat \<Rightarrow> piece list \<Rightarrow> int list"
and code_alts :: "nat \<Rightarrow> nat \<Rightarrow> piece list list \<Rightarrow> int list" where
  "code_atom p q (Node oper) = [oper, dist p q]"
| "code_atom p q (Set but ws) = [if but then ANYBUT else ANYOF, dist p q] @ ws @ [0]"
| "code_atom p q (Exact ws) = [EXACTLY, dist p q] @ ws @ [0]"
| "code_atom p q (Group no bs) =
     [OPEN + no, 2] @ code_alts (p + 2) (p + 2 + len_alts bs) bs
       @ [CLOSE + no, dist (p + 2 + len_alts bs) q]"
| "code_piece p q (One a) = code_atom p q a"
| "code_piece p q (Many lazy mn mx a) =
     (if is_simple a then [if lazy then REPMIN else REP, dist p q, mx, mn, 0] @ code_atom (p + 5) 0 a
      else [if lazy then REPXMIN else REPX, dist p q, mx, mn, 0]
             @ code_atom (p + 5) (p + 5 + len_atom a) a @ [BACK, int (5 + len_atom a)])"
| "code_seq p q [] = []"
| "code_seq p q (x # xs) =
     code_piece p (if xs = [] then q else p + len_piece x) x @ code_seq (p + len_piece x) q xs"
| "code_alts p e [] = []"
| "code_alts p e (b # bs) =
     [BRANCH, if bs = [] then dist p e else int (if b = [] then 4 else len_seq b + 2)]
       @ (if b = [] then [NOTHING, dist (p + 2) e] else code_seq (p + 2) e b)
       @ code_alts (p + (if b = [] then 4 else len_seq b + 2)) e bs"

definition layout :: "piece list list \<Rightarrow> int list" where
  "layout bs = [REG_MAGIC] @ code_alts 1 (1 + len_alts bs) bs @ [OP_END, 0]"

text \<open>The words that the matcher writes: the counts of complex repetitions.\<close>

fun cells_atom :: "nat \<Rightarrow> atom \<Rightarrow> nat set"
and cells_piece :: "nat \<Rightarrow> piece \<Rightarrow> nat set"
and cells_seq :: "nat \<Rightarrow> piece list \<Rightarrow> nat set"
and cells_alts :: "nat \<Rightarrow> piece list list \<Rightarrow> nat set" where
  "cells_atom p (Node oper) = {}"
| "cells_atom p (Set but ws) = {}"
| "cells_atom p (Exact ws) = {}"
| "cells_atom p (Group no bs) = cells_alts (p + 2) bs"
| "cells_piece p (One a) = cells_atom p a"
| "cells_piece p (Many lazy mn mx a) = (if is_simple a then {} else insert (p + 4) (cells_atom (p + 5) a))"
| "cells_seq p [] = {}"
| "cells_seq p (x # xs) = cells_piece p x \<union> cells_seq (p + len_piece x) xs"
| "cells_alts p [] = {}"
| "cells_alts p (b # bs) = cells_seq (p + 2) b \<union> cells_alts (p + (if b = [] then 4 else len_seq b + 2)) bs"

section \<open>Meaning\<close>

text \<open>A set of characters, as ranges of a length and a first character.\<close>

fun in_ranges :: "int list \<Rightarrow> int \<Rightarrow> bool" where
  "in_ranges (r # l # ws) c \<longleftrightarrow> l \<le> c \<and> c < r + l \<or> in_ranges ws c"
| "in_ranges ws c \<longleftrightarrow> False"

text \<open>The characters of the text from \<open>i\<close> on.\<close>

definition text_at :: "rx \<Rightarrow> nat \<Rightarrow> int list \<Rightarrow> bool" where
  "text_at x i ws \<longleftrightarrow> prefix ws (map (\<lambda>c. char_case (x_cf x) (of_char c)) (drop i (x_str x)))"

text \<open>From which position to which position of the text a part matches.\<close>

fun sem_atom :: "rx \<Rightarrow> atom \<Rightarrow> (nat \<times> nat) set"
and sem_piece :: "rx \<Rightarrow> piece \<Rightarrow> (nat \<times> nat) set"
and sem_seq :: "rx \<Rightarrow> piece list \<Rightarrow> (nat \<times> nat) set"
and sem_alts :: "rx \<Rightarrow> piece list list \<Rightarrow> (nat \<times> nat) set" where
  "sem_atom x (Node oper) =
     (if oper = ANY then {(i, Suc i) | i. \<not> reg_iseol x (text_char x i)}
      else {(i, i) | i. anchor_holds x oper i})"
| "sem_atom x (Set but ws) =
     {(i, Suc i) | i. \<not> reg_iseol x (text_char x i) \<and> in_ranges ws (text_char x i) \<noteq> but}"
| "sem_atom x (Exact ws) = {(i, i + length ws) | i. text_at x i ws}"
| "sem_atom x (Group no bs) = sem_alts x bs"
| "sem_piece x (One a) = sem_atom x a"
| "sem_piece x (Many lazy mn mx a) = (\<Union>n \<in> {nat mn..nat mx}. sem_atom x a ^^ n)"
| "sem_seq x [] = Id"
| "sem_seq x (y # ys) = sem_piece x y O sem_seq x ys"
| "sem_alts x [] = {}"
| "sem_alts x (b # bs) = sem_seq x b \<union> sem_alts x bs"

section \<open>The trees the matcher is right for\<close>

text \<open>
  Counts are not negative; a complex repetition, which \<open>l\<close> allows, is greedy, its operand is a group that
  is captured, and there is no other one inside. The ranges of a set have no word \<open>0\<close>.
\<close>

fun captures :: "atom \<Rightarrow> bool" where
  "captures (Group no bs) \<longleftrightarrow> 0 < no"
| "captures a \<longleftrightarrow> False"

fun ok_atom :: "bool \<Rightarrow> atom \<Rightarrow> bool"
and ok_piece :: "bool \<Rightarrow> piece \<Rightarrow> bool"
and ok_seq :: "bool \<Rightarrow> piece list \<Rightarrow> bool"
and ok_alts :: "bool \<Rightarrow> piece list list \<Rightarrow> bool" where
  "ok_atom l (Node oper) \<longleftrightarrow> oper \<in> {BOL, EOL, ANY, BOLX, EOLX, WORDA, WORDZ}"
| "ok_atom l (Set but ws) \<longleftrightarrow> 0 \<notin> set ws \<and> even (length ws)"
| "ok_atom l (Exact ws) \<longleftrightarrow> ws \<noteq> [] \<and> 0 \<notin> set ws"
| "ok_atom l (Group no bs) \<longleftrightarrow> (no = - 1 \<or> 0 < no \<and> no < int REG_MAX_PAREN) \<and> bs \<noteq> [] \<and> ok_alts l bs"
| "ok_piece l (One a) \<longleftrightarrow> ok_atom l a"
| "ok_piece l (Many lazy mn mx a) \<longleftrightarrow>
     0 \<le> mn \<and> mn \<le> mx \<and>
     (if is_simple a then ok_atom l a else l \<and> \<not> lazy \<and> captures a \<and> ok_atom False a)"
| "ok_seq l [] \<longleftrightarrow> True"
| "ok_seq l (x # xs) \<longleftrightarrow> ok_piece l x \<and> ok_seq l xs"
| "ok_alts l [] \<longleftrightarrow> True"
| "ok_alts l (b # bs) \<longleftrightarrow> ok_seq l b \<and> ok_alts l bs"

section \<open>Lengths\<close>

lemma length_code:
  "length (code_atom p q a) = len_atom a"
  "length (code_piece p q x) = len_piece x"
  "length (code_seq p q xs) = len_seq xs"
  "length (code_alts p q bs) = len_alts bs"
  by (induction p q a and p q x and p q xs and p q bs rule: code_atom_code_piece_code_seq_code_alts.induct) auto

declare length_code [simp]

lemma len_atom_pos [simp]: "2 \<le> len_atom a" "0 < len_atom a"
  by (cases a; simp)+

lemma len_piece_pos [simp]: "2 \<le> len_piece x" "0 < len_piece x"
  using len_atom_pos by (cases x; simp add: trans_le_add1 add_pos_pos)+

lemma length_layout: "length (layout bs) = len_alts bs + 3"
  by (simp add: layout_def)

end
