(* ===== verification/Jim_Match.thy ===== *)
theory Jim_Match
  imports Jim_Layout "HOL-Library.Sublist"
begin

unbundle bit_operations_syntax

text \<open>
  The matcher does what the tree means. \<open>keeps\<close> is what one call promises, \<open>behaves\<close> that all calls at an
  address keep the promise when there is enough fuel; a lemma per kind of node carries it from what follows
  the node to the node, and \<open>right\<close> puts them together along the tree. The complex repetition is an induction
  over the rounds that are left, its count being part of the program.
\<close>

section \<open>Code in a program\<close>

definition has_code :: "int list \<Rightarrow> nat \<Rightarrow> int list \<Rightarrow> bool" where
  "has_code P p ws \<longleftrightarrow> p + length ws \<le> length P \<and> take (length ws) (drop p P) = ws"

lemma has_code_append:
  "has_code P p (u @ v) \<longleftrightarrow> has_code P p u \<and> has_code P (p + length u) v"
  by (auto simp: has_code_def take_add add.commute add.left_commute)

lemma has_code_Nil [simp]: "has_code P p [] \<longleftrightarrow> p \<le> length P"
  by (simp add: has_code_def)

lemma has_code_Cons:
  "has_code P p (w # ws) \<longleftrightarrow> p < length P \<and> P ! p = w \<and> has_code P (Suc p) ws"
  using has_code_append [of P p "[w]" ws]
  by (auto simp: has_code_def take_Suc_conv_app_nth)

lemma has_code_frame:
  assumes "has_code P p ws" "length P' = length P" "\<And>a. p \<le> a \<Longrightarrow> a < p + length ws \<Longrightarrow> P' ! a = P ! a"
  shows "has_code P' p ws"
  using assms unfolding has_code_def by (auto simp: list_eq_iff_nth_eq)

lemma has_code_mid: "has_code (u @ ws @ v) (length u) ws"
  by (simp add: has_code_def)

lemma operand_words_code:
  "has_code P p (ws @ [0]) \<Longrightarrow> 0 \<notin> set ws \<Longrightarrow> operand_words P p = Ret ws"
proof -
  assume h: "has_code P p (ws @ [0])" and z: "0 \<notin> set ws"
  have "drop p P = (ws @ [0]) @ drop (p + Suc (length ws)) P"
    using h append_take_drop_id [of "length (ws @ [0])" "drop p P"] by (simp add: has_code_def add.commute)
  then have "takeWhile (\<lambda>w. w \<noteq> 0) (drop p P) = ws" using z by (simp add: takeWhile_append)
  then show ?thesis using h by (simp add: operand_words_def has_code_def)
qed

lemma reg_range_find_0: "reg_range_find (0 # v) c = Ret False"
  by (cases v) auto

lemma reg_range_find_ranges:
  "even (length ws) \<Longrightarrow> 0 \<notin> set ws \<Longrightarrow> reg_range_find (ws @ 0 # v) c = Ret (in_ranges ws c)"
  by (induction ws c rule: in_ranges.induct) (auto simp: reg_range_find_0)

section \<open>What a match promises\<close>

text \<open>
  The answer \<open>res\<close> of a match from the state \<open>m\<close>, where \<open>R\<close> has the positions that the rest of the
  expression matches from: a success is one of them, and the program is left in \<open>W\<close>; a failure means that
  there is none, and the program is unchanged.
\<close>

definition keeps :: "int list set \<Rightarrow> (nat \<times> nat) set \<Rightarrow> rm \<Rightarrow> (int \<times> rm) run \<Rightarrow> bool" where
  "keeps W R m res \<longleftrightarrow> (\<exists>r m'. res = Ret (r, m') \<and> length (rm_match m') = length (rm_match m) \<and>
     (if r = 0 then rm_prog m' = rm_prog m \<and> rm_in m \<notin> Domain R
      else rm_prog m' \<in> W \<and> (rm_in m, rm_in m') \<in> R))"

definition states :: "rx \<Rightarrow> int list set \<Rightarrow> rm set" where
  "states x I = {m. rm_prog m \<in> I \<and> rm_in m \<le> length (x_str x)}"

definition behaves :: "rx \<Rightarrow> int list set \<Rightarrow> int list set \<Rightarrow> nat \<Rightarrow> (nat \<times> nat) set \<Rightarrow> bool" where
  "behaves x W I p R \<longleftrightarrow> 0 < p \<and> (\<forall>\<^sub>F k in sequentially. \<forall>m \<in> states x I. keeps W R m (regmatch k x p m))"

lemma keepsI_fail:
  "rm_in m \<notin> Domain R \<Longrightarrow> rm_prog m' = rm_prog m \<Longrightarrow> length (rm_match m') = length (rm_match m) \<Longrightarrow>
   keeps W R m (Ret (0, m'))"
  by (simp add: keeps_def)

lemma keeps_Ret:
  "keeps W R m (Ret (r, m')) \<longleftrightarrow> length (rm_match m') = length (rm_match m) \<and>
     (if r = 0 then rm_prog m' = rm_prog m \<and> rm_in m \<notin> Domain R
      else rm_prog m' \<in> W \<and> (rm_in m, rm_in m') \<in> R)"
  by (simp add: keeps_def)

lemma keepsE:
  assumes "keeps W R m res"
  obtains (fail) m' where "res = Ret (0, m')" "length (rm_match m') = length (rm_match m)"
      "rm_prog m' = rm_prog m" "rm_in m \<notin> Domain R"
    | (match) r m' where "res = Ret (r, m')" "r \<noteq> 0" "length (rm_match m') = length (rm_match m)"
      "rm_prog m' \<in> W" "(rm_in m, rm_in m') \<in> R"
  using assms by (auto simp: keeps_def split: if_splits)

lemma keeps_shift:
  assumes "keeps W R m1 res" "rm_prog m1 = rm_prog m" "length (rm_match m1) = length (rm_match m)"
    and "R `` {rm_in m1} = S `` {rm_in m}"
  shows "keeps W S m res"
  using assms(1)
proof (cases rule: keepsE)
  case (fail m')
  then have "rm_in m \<notin> Domain S" using assms(4) by blast
  then show ?thesis using fail assms(2,3) by (simp add: keeps_Ret)
next
  case (match r m')
  then have "(rm_in m, rm_in m') \<in> S" using assms(4) by blast
  then show ?thesis using match assms(2,3) by (simp add: keeps_Ret)
qed

lemmas keeps_mono = keeps_shift [OF _ refl refl]

declare regmatch.simps [simp del]

text \<open>The node at \<open>p\<close>: one step of the matcher.\<close>

definition node_at :: "int list \<Rightarrow> nat \<Rightarrow> int \<Rightarrow> nat \<Rightarrow> bool" where
  "node_at P p oper q \<longleftrightarrow> p + 1 < length P \<and> P ! p = oper \<and> regnext P p = Ret q"

lemma regmatch_node:
  "node_at (rm_prog m) p oper q \<Longrightarrow> 0 < p \<Longrightarrow>
   regmatch (Suc k) x p m = match_node (regmatch k x) x p oper q m"
  by (simp add: node_at_def word_at_def regmatch.simps)

lemma node_at_code:
  assumes "has_code P p (oper # dist p q # ws)" "oper \<noteq> BACK" "q = 0 \<or> p < q"
  shows "node_at P p oper q"
  using assms by (auto simp: node_at_def has_code_Cons regnext_def word_at_def dist_def Let_def)

lemma behavesI:
  assumes "0 < p" "\<And>m. m \<in> states x I \<Longrightarrow> node_at (rm_prog m) p oper q"
    and "\<forall>\<^sub>F k in sequentially. \<forall>m \<in> states x I. keeps W R m (match_node (regmatch k x) x p oper q m)"
  shows "behaves x W I p R"
proof -
  have "\<forall>\<^sub>F k in sequentially. \<forall>m \<in> states x I. keeps W R m (regmatch (Suc k) x p m)"
    using assms(3) by eventually_elim (simp add: regmatch_node [OF assms(2) assms(1)] del: regmatch.simps)
  then show ?thesis using assms(1) unfolding behaves_def
    using eventually_sequentially_Suc [of "\<lambda>k. \<forall>m \<in> states x I. keeps W R m (regmatch k x p m)"] by simp
qed

lemma behaves_mono: "behaves x W I p R \<Longrightarrow> J \<subseteq> I \<Longrightarrow> behaves x W J p R"
  unfolding behaves_def by (auto simp: states_def elim!: eventually_mono)

lemma behaves_cong:
  "behaves x W I p R \<Longrightarrow> (\<And>i. i \<le> length (x_str x) \<Longrightarrow> R `` {i} = S `` {i}) \<Longrightarrow> behaves x W I p S"
  unfolding behaves_def by (auto simp: states_def elim!: eventually_mono intro: keeps_mono)

section \<open>Programs that differ in some words\<close>

definition upd :: "int list set \<Rightarrow> nat set \<Rightarrow> int list set" where
  "upd I A = {P'. \<exists>P \<in> I. length P' = length P \<and> (\<forall>a. a \<notin> A \<longrightarrow> a < length P \<longrightarrow> P' ! a = P ! a)}"

lemma upd_subset: "I \<subseteq> upd I A"
  by (auto simp: upd_def)

lemma upd_empty [simp]: "upd I {} = I"
proof -
  have "P' \<in> I" if "P \<in> I" "length P' = length P" "\<forall>a < length P. P' ! a = P ! a" for P P'
    using nth_equalityI [of P' P] that by auto
  then show ?thesis by (auto simp: upd_def)
qed

lemma upd_upd: "upd (upd I A) B \<subseteq> upd I (A \<union> B)"
  by (auto simp: upd_def)

lemma upd_code:
  assumes "P' \<in> upd I A" "\<And>P. P \<in> I \<Longrightarrow> has_code P p ws" "A \<inter> {p..<p + length ws} = {}"
  shows "has_code P' p ws"
proof -
  obtain P where P: "P \<in> I" "length P' = length P" "\<forall>a. a \<notin> A \<longrightarrow> a < length P \<longrightarrow> P' ! a = P ! a"
    using assms(1) by (auto simp: upd_def)
  have "P' ! a = P ! a" if "p \<le> a" "a < p + length ws" for a
  proof -
    have "a \<notin> A" using assms(3) that by auto
    moreover have "a < length P" using assms(2) [OF P(1)] that by (simp add: has_code_def)
    ultimately show ?thesis using P(3) by blast
  qed
  then show ?thesis using has_code_frame [OF assms(2) [OF P(1)] P(2)] by blast
qed

section \<open>Nodes\<close>

lemma eventually_match:
  assumes "behaves x W I q R"
    and "\<And>k m. (\<And>m. m \<in> states x I \<Longrightarrow> keeps W R m (regmatch k x q m)) \<Longrightarrow> m \<in> states x I \<Longrightarrow> Q k m"
  shows "\<forall>\<^sub>F k in sequentially. \<forall>m \<in> states x I. Q k m"
  using assms unfolding behaves_def by (auto elim!: eventually_mono)

lemma behaves_end:
  assumes "0 < p" "\<And>m. m \<in> states x I \<Longrightarrow> node_at (rm_prog m) p OP_END q" "I \<subseteq> W"
  shows "behaves x W I p Id"
  using assms(1,2)
proof (rule behavesI)
  have "keeps W Id m (match_node rec x p OP_END q m)" if "m \<in> states x I" for rec m
    using that assms(3) by (auto simp: match_node_def keeps_def states_def op_defs is_anchor_def is_text_def)
  then show "\<forall>\<^sub>F k in sequentially. \<forall>m \<in> states x I. keeps W Id m (match_node (regmatch k x) x p OP_END q m)"
    by simp
qed

lemma behaves_anchor:
  assumes "0 < p" "\<And>m. m \<in> states x I \<Longrightarrow> node_at (rm_prog m) p oper q" "is_anchor oper" "behaves x W I q R"
  shows "behaves x W I p ({(i, i) | i. anchor_holds x oper i} O R)"
  using assms(1,2)
proof (rule behavesI)
  show "\<forall>\<^sub>F k in sequentially. \<forall>m \<in> states x I.
          keeps W ({(i, i) | i. anchor_holds x oper i} O R) m (match_node (regmatch k x) x p oper q m)"
  proof (rule eventually_match [OF assms(4)])
    fix k m
    assume g: "\<And>m. m \<in> states x I \<Longrightarrow> keeps W R m (regmatch k x q m)" and m: "m \<in> states x I"
    show "keeps W ({(i, i) | i. anchor_holds x oper i} O R) m (match_node (regmatch k x) x p oper q m)"
    proof (cases "anchor_holds x oper (rm_in m)")
      case True
      then show ?thesis using assms(3) by (auto simp: match_node_def intro: keeps_mono [OF g [OF m]])
    next
      case False
      then show ?thesis using assms(3) by (auto simp: match_node_def intro!: keepsI_fail)
    qed
  qed
qed

lemma behaves_text:
  assumes "0 < p" "\<And>m. m \<in> states x I \<Longrightarrow> node_at (rm_prog m) p oper q" "is_text oper" "behaves x W I q R"
    and f: "\<And>m. m \<in> states x I \<Longrightarrow> text_node x (rm_prog m) p oper (rm_in m) = Ret (f (rm_in m))"
    and b: "\<And>i n. f i = Some n \<Longrightarrow> i \<le> length (x_str x) \<Longrightarrow> i + n \<le> length (x_str x)"
  shows "behaves x W I p ({(i, i + n) | i n. f i = Some n} O R)"
  using assms(1,2)
proof (rule behavesI)
  let ?R = "{(i, i + n) | i n. f i = Some n} O R"
  have na: "\<not> is_anchor oper" using assms(3) by (auto simp: is_text_def is_anchor_def op_defs)
  show "\<forall>\<^sub>F k in sequentially. \<forall>m \<in> states x I. keeps W ?R m (match_node (regmatch k x) x p oper q m)"
  proof (rule eventually_match [OF assms(4)])
    fix k m
    assume g: "\<And>m. m \<in> states x I \<Longrightarrow> keeps W R m (regmatch k x q m)" and m: "m \<in> states x I"
    show "keeps W ?R m (match_node (regmatch k x) x p oper q m)"
    proof (cases "f (rm_in m)")
      case None
      then show ?thesis using assms(3) na f [OF m] by (auto simp: match_node_def intro!: keepsI_fail)
    next
      case (Some n)
      have "m\<lparr>rm_in := rm_in m + n\<rparr> \<in> states x I" using m b [OF Some] by (simp add: states_def)
      from g [OF this] have "keeps W ?R m (regmatch k x q (m\<lparr>rm_in := rm_in m + n\<rparr>))"
        by (rule keeps_shift) (use Some in auto)
      then show ?thesis using assms(3) na f [OF m] Some by (simp add: match_node_def)
    qed
  qed
qed

lemma match_node_group:
  assumes "oper = OPENNC \<or> oper = CLOSENC \<or> OPEN < oper \<and> oper < CLOSE_END"
  shows "match_node rec x p oper q m =
     (if oper = OPENNC \<or> oper = CLOSENC then rec q m
      else run_bind (rec q m) (\<lambda>(r, m').
        if r \<noteq> 0 then Ret (1, m'\<lparr>rm_match := set_border oper (rm_in m) (rm_match m')\<rparr>)
        else Ret (0, m'\<lparr>rm_in := rm_in m\<rparr>)))"
proof -
  have "\<not> is_anchor oper" "\<not> is_text oper" "oper \<notin> {BRANCH, REP, REPMIN, REPX, REPXMIN, OP_END}"
    using assms by (auto simp: is_anchor_def is_text_def op_defs)
  moreover have "OPEN + 1 \<le> oper" if "oper \<noteq> OPENNC" "oper \<noteq> CLOSENC" using assms that by auto
  moreover have "oper < CLOSE_END" if "oper \<noteq> OPENNC" "oper \<noteq> CLOSENC" using assms that by auto
  ultimately show ?thesis by (simp add: match_node_def)
qed

lemma length_set_border [simp]: "length (set_border oper i pm) = length pm"
  by (simp add: set_border_def Let_def)

lemma behaves_group:
  assumes "0 < p" "\<And>m. m \<in> states x I \<Longrightarrow> node_at (rm_prog m) p oper q"
    and "oper = OPENNC \<or> oper = CLOSENC \<or> OPEN < oper \<and> oper < CLOSE_END" "behaves x W I q R"
  shows "behaves x W I p R"
  using assms(1,2)
proof (rule behavesI)
  show "\<forall>\<^sub>F k in sequentially. \<forall>m \<in> states x I. keeps W R m (match_node (regmatch k x) x p oper q m)"
  proof (rule eventually_match [OF assms(4)])
    fix k m
    assume g: "\<And>m. m \<in> states x I \<Longrightarrow> keeps W R m (regmatch k x q m)" and m: "m \<in> states x I"
    have n: "match_node (regmatch k x) x p oper q m =
        (if oper = OPENNC \<or> oper = CLOSENC then regmatch k x q m
         else run_bind (regmatch k x q m) (\<lambda>(r, m').
           if r \<noteq> 0 then Ret (1, m'\<lparr>rm_match := set_border oper (rm_in m) (rm_match m')\<rparr>)
           else Ret (0, m'\<lparr>rm_in := rm_in m\<rparr>)))"
      by (rule match_node_group [OF assms(3)])
    show "keeps W R m (match_node (regmatch k x) x p oper q m)"
      using g [OF m]
    proof (cases rule: keepsE)
      case (fail m')
      then show ?thesis using assms(3) by (simp add: n keeps_Ret)
    next
      case (match r m')
      then show ?thesis using assms(3) by (simp add: n keeps_Ret)
    qed
  qed
qed

section \<open>Atoms\<close>

lemma prefix_cmp_text:
  "prefix_cmp cf ws s = (if prefix ws (map (\<lambda>c. char_case cf (of_char c)) s) then Some (length ws) else None)"
  by (induction cf ws s rule: prefix_cmp.induct) auto

lemma prefix_length_le': "text_at x i ws \<Longrightarrow> i \<le> length (x_str x) \<Longrightarrow> i + length ws \<le> length (x_str x)"
  using prefix_length_le by (fastforce simp: text_at_def)

lemma iseol_0 [simp]: "reg_iseol x 0"
  by (simp add: reg_iseol_def)

lemma text_char_end: "length (x_str x) \<le> i \<Longrightarrow> text_char x i = 0"
  by (simp add: text_char_def char_at_def char_case_def toupper_def)

lemma char_inside: "\<not> reg_iseol x (text_char x i) \<Longrightarrow> i < length (x_str x)"
  using text_char_end [of x i] by (metis iseol_0 not_le)

text \<open>The nodes that move by one character or over a text, by what they ask of it.\<close>

fun step :: "rx \<Rightarrow> atom \<Rightarrow> nat \<Rightarrow> nat option" where
  "step x (Node oper) i = (if reg_iseol x (text_char x i) then None else Some 1)"
| "step x (Set but ws) i =
     (if \<not> reg_iseol x (text_char x i) \<and> in_ranges ws (text_char x i) \<noteq> but then Some 1 else None)"
| "step x (Exact ws) i = (if text_at x i ws then Some (length ws) else None)"
| "step x (Group no bs) i = None"

lemma step_inside: "step x a i = Some n \<Longrightarrow> i \<le> length (x_str x) \<Longrightarrow> i + n \<le> length (x_str x)"
  using char_inside [of x i] by (cases a) (auto simp: prefix_length_le' split: if_splits)

text \<open>The operation of an atom.\<close>

fun atom_op :: "atom \<Rightarrow> int" where
  "atom_op (Node oper) = oper"
| "atom_op (Set but ws) = (if but then ANYBUT else ANYOF)"
| "atom_op (Exact ws) = EXACTLY"
| "atom_op (Group no bs) = OPEN + no"

lemma atom_op_node:
  assumes "has_code P p (code_atom p q a)" "ok_atom l a" "\<nexists>no bs. a = Group no bs" "q = 0 \<or> p < q"
  shows "node_at P p (atom_op a) q"
proof -
  obtain ws where "code_atom p q a = atom_op a # dist p q # ws" using assms(3) by (cases a) auto
  moreover have "atom_op a \<noteq> BACK" using assms(2,3) by (cases a) (auto simp: op_defs)
  ultimately show ?thesis using assms(1,4) by (simp add: node_at_code)
qed

lemma has_code_drop: "has_code P p ws \<Longrightarrow> drop p P = ws @ drop (p + length ws) P"
  using append_take_drop_id [of "length ws" "drop p P"] by (simp add: has_code_def add.commute)

lemma range_find_code:
  assumes "has_code P p (ws @ [0])" "0 \<notin> set ws" "even (length ws)"
  shows "reg_range_find (drop p P) c = Ret (in_ranges ws c)"
  using has_code_drop [OF assms(1)] reg_range_find_ranges [OF assms(3,2)] by simp

lemma text_node_step:
  assumes "has_code P p (code_atom p q a)" "ok_atom l a" "is_text (atom_op a)"
  shows "text_node x P p (atom_op a) i = Ret (step x a i)"
proof (cases a)
  case (Node oper)
  then have "oper = ANY" using assms(2,3) by (auto simp: is_text_def op_defs)
  then show ?thesis using Node by (simp add: text_node_def op_defs)
next
  case (Set but ws)
  then have "has_code P (p + 2) (ws @ [0])" using assms(1) by (simp add: has_code_Cons)
  then show ?thesis using Set assms(2) range_find_code [of P "p + 2" ws]
    by (simp add: text_node_def op_defs Let_def)
next
  case (Exact ws)
  then have "has_code P (p + 2) (ws @ [0])" using assms(1) by (simp add: has_code_Cons)
  then show ?thesis using Exact assms(2) by (simp add: text_node_def operand_words_code prefix_cmp_text text_at_def)
next
  case (Group no bs)
  then show ?thesis using assms(2,3) by (auto simp: is_text_def op_defs)
qed

lemma sem_step: "is_text (atom_op a) \<Longrightarrow> ok_atom l a \<Longrightarrow> sem_atom x a = {(i, i + n) | i n. step x a i = Some n}"
  by (cases a) (auto simp: is_text_def op_defs split: if_splits)

lemma behaves_plain:
  assumes "0 < p" "p < q" "\<nexists>no bs. a = Group no bs" "ok_atom l a"
    and c: "\<And>P. P \<in> I \<Longrightarrow> has_code P p (code_atom p q a)" and b: "behaves x W I q R"
  shows "behaves x W I p (sem_atom x a O R)"
proof (cases "is_text (atom_op a)")
  case True
  have "behaves x W I p ({(i, i + n) | i n. step x a i = Some n} O R)"
    using assms(1) _ True b
  proof (rule behaves_text)
    show "node_at (rm_prog m) p (atom_op a) q" if "m \<in> states x I" for m
      using atom_op_node [OF c assms(4,3)] assms(2) that by (simp add: states_def)
    show "text_node x (rm_prog m) p (atom_op a) (rm_in m) = Ret (step x a (rm_in m))" if "m \<in> states x I" for m
      using text_node_step [OF c assms(4) True] that by (simp add: states_def)
  qed (rule step_inside)
  then show ?thesis using sem_step [OF True assms(4)] by simp
next
  case False
  then obtain oper where a: "a = Node oper" "oper \<noteq> ANY"
    using assms(3) by (cases a) (auto simp: is_text_def split: if_splits)
  have "is_anchor oper" using assms(4) a by (auto simp: is_anchor_def)
  moreover have "node_at (rm_prog m) p oper q" if "m \<in> states x I" for m
    using atom_op_node [OF c assms(4,3)] assms(2) that a by (simp add: states_def)
  ultimately show ?thesis using behaves_anchor [OF assms(1) _ _ b] a by simp
qed

section \<open>Simple repetitions\<close>

definition char_ok :: "rx \<Rightarrow> atom \<Rightarrow> char \<Rightarrow> bool" where
  "char_ok x a c \<longleftrightarrow>
     (let ch = char_case (x_cf x) (of_char c) in
      case a of
        Node oper \<Rightarrow> \<not> reg_iseol x ch
      | Set but ws \<Rightarrow> \<not> reg_iseol x ch \<and> in_ranges ws ch \<noteq> but
      | Exact ws \<Rightarrow> ws = [ch]
      | Group no bs \<Rightarrow> False)"

lemma iseol_case: "reg_iseol x (char_case (x_cf x) c) = reg_iseol x c"
  by (auto simp: reg_iseol_def char_case_def toupper_def)

lemma simple_test_ok:
  assumes "has_code P p (code_atom p 0 a)" "ok_atom l a" "is_simple a"
  shows "simple_test x P p c = Ret (char_ok x a c)"
proof (cases a)
  case (Node oper)
  then show ?thesis using assms by (auto simp: simple_test_def char_ok_def has_code_Cons word_at_def iseol_case)
next
  case (Set but ws)
  then have "has_code P (p + 2) (ws @ [0])" using assms(1) by (simp add: has_code_Cons)
  then show ?thesis using Set assms range_find_code [of P "p + 2" ws]
    by (auto simp: simple_test_def char_ok_def has_code_Cons word_at_def op_defs Let_def)
next
  case (Exact ws)
  then obtain w where "ws = [w]" using assms(3) by (auto simp: length_Suc_conv)
  then show ?thesis using Exact assms
    by (auto simp: simple_test_def char_ok_def has_code_Cons word_at_def op_defs Let_def)
next
  case (Group no bs)
  then show ?thesis using assms(3) by simp
qed

lemma count_chars_takeWhile:
  "count_chars (\<lambda>c. Ret (t c)) s mx = Ret (min (nat mx) (length (takeWhile t s)))"
proof (induction s arbitrary: mx)
  case Nil
  then show ?case by simp
next
  case (Cons c s)
  show ?case
  proof (cases "mx \<le> 0")
    case False
    then have "nat mx = Suc (nat (mx - 1))" by simp
    then show ?thesis using Cons False by simp
  qed simp
qed

lemma sem_simple:
  assumes "is_simple a" "ok_atom l a"
  shows "sem_atom x a = {(i, Suc i) | i. i < length (x_str x) \<and> char_ok x a (x_str x ! i)}"
proof (cases a)
  case (Node oper)
  then show ?thesis using assms char_inside [of x]
    by (auto simp: char_ok_def text_char_def char_at_def iseol_case split: if_splits)
next
  case (Set but ws)
  then show ?thesis using char_inside [of x]
    by (auto simp: char_ok_def text_char_def char_at_def iseol_case Let_def split: if_splits)
next
  case (Exact ws)
  then obtain w where w: "ws = [w]" using assms(1) by (auto simp: length_Suc_conv)
  have "text_at x i [w] \<longleftrightarrow> i < length (x_str x) \<and> w = char_case (x_cf x) (of_char (x_str x ! i))" for i
    by (cases "i < length (x_str x)") (simp_all add: text_at_def Cons_nth_drop_Suc [symmetric])
  then show ?thesis using Exact w by (auto simp: char_ok_def Let_def)
next
  case (Group no bs)
  then show ?thesis using assms(1) by simp
qed

text \<open>How often the test holds from a position on.\<close>

definition run_of :: "rx \<Rightarrow> atom \<Rightarrow> nat \<Rightarrow> nat" where
  "run_of x a i = length (takeWhile (char_ok x a) (drop i (x_str x)))"

lemma run_of_le: "i \<le> length (x_str x) \<Longrightarrow> i + run_of x a i \<le> length (x_str x)"
  using length_takeWhile_le [of "char_ok x a" "drop i (x_str x)"] by (simp add: run_of_def)

lemma run_of_rec:
  "run_of x a i = (if i < length (x_str x) \<and> char_ok x a (x_str x ! i) then Suc (run_of x a (Suc i)) else 0)"
  by (cases "i < length (x_str x)") (auto simp: run_of_def Cons_nth_drop_Suc [symmetric])

lemma sem_simple_power:
  assumes "is_simple a" "ok_atom l a"
  shows "(i, j) \<in> sem_atom x a ^^ n \<longleftrightarrow> j = i + n \<and> n \<le> run_of x a i"
proof (induction n arbitrary: i)
  case (Suc n)
  have "(i, j) \<in> sem_atom x a ^^ Suc n \<longleftrightarrow> (i, j) \<in> sem_atom x a O sem_atom x a ^^ n"
    by (simp only: relpow.simps relpow_commute)
  also have "\<dots> \<longleftrightarrow> i < length (x_str x) \<and> char_ok x a (x_str x ! i) \<and> (Suc i, j) \<in> sem_atom x a ^^ n"
    by (auto simp: sem_simple [OF assms])
  finally show ?case using Suc run_of_rec [of x a i] by auto
qed auto

text \<open>The loop over the numbers of characters, from \<open>lo\<close> to \<open>hi\<close>.\<close>

definition tails :: "nat \<Rightarrow> int \<Rightarrow> int \<Rightarrow> (nat \<times> nat) set \<Rightarrow> (nat \<times> nat) set" where
  "tails save lo hi R = {(save, j) | j c. lo \<le> int c \<and> int c \<le> hi \<and> (save + c, j) \<in> R}"

lemma tails_empty: "hi < lo \<Longrightarrow> tails save lo hi R = {}"
  by (auto simp: tails_def)

lemma tails_lo:
  "0 \<le> lo \<Longrightarrow> lo \<le> hi \<Longrightarrow> tails save lo hi R = {(save, j) | j. (save + nat lo, j) \<in> R} \<union> tails save (lo + 1) hi R"
proof -
  assume "0 \<le> lo" "lo \<le> hi"
  then have "lo \<le> int c \<and> int c \<le> hi \<longleftrightarrow> c = nat lo \<or> lo + 1 \<le> int c \<and> int c \<le> hi" for c by auto
  note split = this
  show ?thesis by (simp only: tails_def conj_assoc [symmetric] split) blast
qed

lemma tails_hi:
  "0 \<le> lo \<Longrightarrow> lo \<le> hi \<Longrightarrow> tails save lo hi R = {(save, j) | j. (save + nat hi, j) \<in> R} \<union> tails save lo (hi - 1) R"
proof -
  assume "0 \<le> lo" "lo \<le> hi"
  then have "lo \<le> int c \<and> int c \<le> hi \<longleftrightarrow> c = nat hi \<or> lo \<le> int c \<and> int c \<le> hi - 1" for c by auto
  note split = this
  show ?thesis by (simp only: tails_def conj_assoc [symmetric] split) blast
qed

lemma repeat_loop_good:
  assumes g: "\<And>m. m \<in> states x I \<Longrightarrow> keeps W R m (rec q m)"
    and look: "\<And>m. m \<in> states x I \<Longrightarrow> \<not> reg_iseol x nextch \<Longrightarrow> text_char x (rm_in m) \<noteq> nextch \<Longrightarrow>
       rm_in m \<notin> Domain R"
    and "rm_prog m0 \<in> I" "rm_in m0 = save"
    and "rm_prog m = rm_prog m0" "length (rm_match m) = length (rm_match m0)"
    and "0 \<le> lo" "int save + hi \<le> int (length (x_str x))" "hi - lo + 2 \<le> int n" "0 < n"
  shows "keeps W (tails save lo hi R) m0
    (repeat_loop n rec x q nextch lazy save (if lazy then lo else hi) (if lazy then hi else lo) m)"
  using assms(5-)
proof (induction n arbitrary: m lo hi)
  case (Suc n)
  show ?case
  proof (cases "hi < lo")
    case True
    then show ?thesis using Suc.prems by (auto simp: tails_empty intro!: keepsI_fail)
  next
    case False
    define no where "no = (if lazy then lo else hi)"
    define m1 where "m1 = m\<lparr>rm_in := nat (int save + no)\<rparr>"
    define lo' hi' where "lo' = (if lazy then lo + 1 else lo)" and "hi' = (if lazy then hi else hi - 1)"
    have no: "lo \<le> no" "no \<le> hi" using False by (auto simp: no_def)
    have m1: "m1 \<in> states x I" using Suc.prems no assms(3) by (simp add: m1_def states_def)
    have "int save + no = int (save + nat no)" using no Suc.prems(3) by simp
    then have "nat (int save + no) = save + nat no" by (simp only: nat_int)
    then have c: "rm_in m1 = save + nat no" by (simp add: m1_def)
    have t: "tails save lo hi R = {(save, j) | j. (save + nat no, j) \<in> R} \<union> tails save lo' hi' R"
      using tails_lo [of lo hi save R] tails_hi [of lo hi save R] False Suc.prems
      by (simp add: no_def lo'_def hi'_def)
    let ?now = "if reg_iseol x nextch \<or> text_char x (nat (int save + no)) = nextch then rec q m1 else Ret (0, m1)"
    have "keeps W R m1 ?now"
      using g [OF m1] look [OF m1] by (auto simp: m1_def intro!: keepsI_fail)
    moreover have e: "repeat_loop (Suc n) rec x q nextch lazy save no (if lazy then hi else lo) m =
        run_bind ?now (\<lambda>(r, m2). if r \<noteq> 0 then Ret (1, m2)
          else repeat_loop n rec x q nextch lazy save (if lazy then no + 1 else no - 1) (if lazy then hi else lo) m2)"
      using no Suc.prems by (simp add: m1_def Let_def)
    have e': "(if lazy then no + 1 else no - 1) = (if lazy then lo' else hi')"
        "(if lazy then hi else lo) = (if lazy then hi' else lo')"
      by (auto simp: no_def lo'_def hi'_def)
    ultimately show ?thesis
    proof (cases rule: keepsE)
      case (fail m2)
      have rest: "keeps W (tails save lo' hi' R) m0
          (repeat_loop n rec x q nextch lazy save (if lazy then lo' else hi') (if lazy then hi' else lo') m2)"
      proof (rule Suc.IH)
        show "rm_prog m2 = rm_prog m0" using fail(3) Suc.prems(1) by (simp add: m1_def)
        show "length (rm_match m2) = length (rm_match m0)" using fail(2) Suc.prems(2) by (simp add: m1_def)
        show "0 \<le> lo'" using Suc.prems(3) by (simp add: lo'_def)
        show "int save + hi' \<le> int (length (x_str x))" using Suc.prems(4) by (simp add: hi'_def)
        have "hi' - lo' = hi - lo - 1" by (simp add: lo'_def hi'_def)
        then show "hi' - lo' + 2 \<le> int n" using Suc.prems(5) by simp
        show "0 < n" using Suc.prems(5) False by simp
      qed
      have "(save + nat no, j) \<notin> R" for j using fail(4) c by auto
      then have "tails save lo' hi' R = tails save lo hi R" using t by simp
      then show ?thesis using rest unfolding no_def [symmetric] e by (simp add: fail(1) e')
    next
      case (match r m2)
      have "(save + nat no, rm_in m2) \<in> R" using match(5) c by simp
      then have "(rm_in m0, rm_in m2) \<in> tails save lo hi R" using t assms(4) by simp
      then show ?thesis using match Suc.prems unfolding no_def [symmetric] e by (simp add: keeps_Ret m1_def)
    qed
  qed
qed simp

text \<open>What is known of a node that behaves: it is in the program, and so is the text of an exact match.\<close>

lemma behaves_good:
  assumes "behaves x W I q R" "m \<in> states x I"
  obtains k where "keeps W R m (regmatch (Suc k) x q m)"
proof -
  obtain n where "\<forall>k \<ge> n. \<forall>m \<in> states x I. keeps W R m (regmatch k x q m)"
    using assms(1) by (auto simp: behaves_def eventually_sequentially)
  then have "keeps W R m (regmatch (Suc n) x q m)" using assms(2) by simp
  then show thesis by (rule that)
qed

lemma behaves_node:
  assumes "behaves x W I q R" "m \<in> states x I"
  obtains k nxt where "q + 1 < length (rm_prog m)" "0 < q"
    "keeps W R m (match_node (regmatch k x) x q (rm_prog m ! q) nxt m)"
proof -
  obtain k where g: "keeps W R m (regmatch (Suc k) x q m)" using behaves_good [OF assms] .
  moreover have "0 < q" using assms(1) by (simp add: behaves_def)
  ultimately have "q + 1 < length (rm_prog m)"
    by (auto simp: keeps_def regmatch.simps run_simps word_at_def regnext_def split: if_splits)
  moreover have "0 < q" using assms(1) by (simp add: behaves_def)
  moreover obtain nxt where "keeps W R m (match_node (regmatch k x) x q (rm_prog m ! q) nxt m)"
    using g calculation by (auto simp: keeps_def regmatch.simps run_simps word_at_def)
  ultimately show thesis using that by blast
qed

lemma lookahead:
  assumes "behaves x W I q R" "m \<in> states x I" "rm_prog m ! q = EXACTLY"
  shows "q + 2 < length (rm_prog m)"
    and "\<not> reg_iseol x (rm_prog m ! (q + 2)) \<Longrightarrow> text_char x (rm_in m) \<noteq> rm_prog m ! (q + 2) \<Longrightarrow>
      rm_in m \<notin> Domain R"
proof -
  obtain k nxt where g: "keeps W R m (match_node (regmatch k x) x q EXACTLY nxt m)"
    using behaves_node [OF assms(1,2)] assms(3) by metis
  have e: "match_node (regmatch k x) x q EXACTLY nxt m =
      run_bind (operand_words (rm_prog m) (q + 2)) (\<lambda>ws.
        case prefix_cmp (x_cf x) ws (drop (rm_in m) (x_str x)) of
          None \<Rightarrow> Ret (0, m) | Some n \<Rightarrow> regmatch k x nxt (m\<lparr>rm_in := rm_in m + n\<rparr>))"
    by (simp add: match_node_def is_anchor_def is_text_def op_defs text_node_def run_bind_assoc Let_def)
  let ?ws = "takeWhile (\<lambda>w. w \<noteq> 0) (drop (q + 2) (rm_prog m))"
  have w: "operand_words (rm_prog m) (q + 2) = Ret ?ws" "q + 2 + length ?ws < length (rm_prog m)"
    using g e by (auto simp: operand_words_def keeps_def Let_def split: if_splits)
  then show b: "q + 2 < length (rm_prog m)" by simp
  assume n: "\<not> reg_iseol x (rm_prog m ! (q + 2))" "text_char x (rm_in m) \<noteq> rm_prog m ! (q + 2)"
  have "rm_prog m ! (q + 2) \<noteq> 0" using n(1) by auto
  then obtain ws where ws: "?ws = rm_prog m ! (q + 2) # ws"
    using b by (simp add: Cons_nth_drop_Suc [symmetric])
  have "prefix_cmp (x_cf x) ?ws (drop (rm_in m) (x_str x)) = None"
    using n(2) unfolding ws prefix_cmp_text
    by (cases "rm_in m < length (x_str x)")
      (simp_all add: text_char_def char_at_def Cons_nth_drop_Suc [symmetric])
  then have "match_node (regmatch k x) x q EXACTLY nxt m = Ret (0, m)"
    unfolding e w(1) by simp
  then show "rm_in m \<notin> Domain R" using g by (simp add: keeps_Ret)
qed

lemma code_rep:
  assumes "has_code P p (code_piece p q (Many lazy mn mx a))" "is_simple a" "p < q"
  shows "node_at P p (if lazy then REPMIN else REP) q" "P ! (p + 2) = mx" "P ! (p + 3) = mn" "p + 4 < length P"
    "has_code P (p + 5) (code_atom (p + 5) 0 a)"
proof -
  have c: "has_code P p ((if lazy then REPMIN else REP) # dist p q # mx # mn # 0 # code_atom (p + 5) 0 a)"
    using assms by simp
  show "node_at P p (if lazy then REPMIN else REP) q" using node_at_code [OF c] assms(3) by (auto simp: op_defs)
  show "P ! (p + 2) = mx" "P ! (p + 3) = mn" "p + 4 < length P" "has_code P (p + 5) (code_atom (p + 5) 0 a)"
    using c by (simp_all add: has_code_Cons eval_nat_numeral)
qed

lemma behaves_rep:
  assumes "0 < p" "p < q" "is_simple a" "ok_atom l a" "0 \<le> mn"
    and c: "\<And>P. P \<in> I \<Longrightarrow> has_code P p (code_piece p q (Many lazy mn mx a))" and b: "behaves x W I q R"
  shows "behaves x W I p (sem_piece x (Many lazy mn mx a) O R)"
proof -
  let ?oper = "if lazy then REPMIN else REP" and ?R = "sem_piece x (Many lazy mn mx a) O R"
  note code = code_rep [OF c assms(3,2)]
  have "behaves x W I p ?R"
    using assms(1)
  proof (rule behavesI)
    show "node_at (rm_prog m) p ?oper q" if "m \<in> states x I" for m
      using code(1) that by (simp add: states_def)
    show "\<forall>\<^sub>F k in sequentially. \<forall>m \<in> states x I. keeps W ?R m (match_node (regmatch k x) x p ?oper q m)"
    proof (rule eventually_match [OF b])
      fix k m
      assume g: "\<And>m. m \<in> states x I \<Longrightarrow> keeps W R m (regmatch k x q m)" and m: "m \<in> states x I"
      let ?P = "rm_prog m" and ?i = "rm_in m"
      have P: "?P \<in> I" "?i \<le> length (x_str x)" using m by (simp_all add: states_def)
      note code = code [OF P(1)]
      define nextch where "nextch = (if ?P ! q = EXACTLY then ?P ! (q + 2) else 0)"
      have w: "word_at ?P (p + 2) = Ret mx" "word_at ?P (p + 3) = Ret mn"
        using code(2-4) by (simp_all add: word_at_def)
      have nx: "word_at ?P q = Ret (?P ! q)"
          "(if ?P ! q = EXACTLY then word_at ?P (q + 2) else Ret 0) = Ret nextch"
        using lookahead(1) [OF b m] behaves_node [OF b m] by (force simp: word_at_def nextch_def)+
      define hi where "hi = min (nat mx) (run_of x a ?i)"
      have rep: "regrepeat x ?P (p + 5) mx ?i = Ret hi"
      proof -
        have "simple_test x ?P (p + 5) = (\<lambda>c. Ret (char_ok x a c))"
          using simple_test_ok [OF code(5) assms(4,3)] by (rule ext)
        then show ?thesis by (simp add: regrepeat_def hi_def run_of_def count_chars_takeWhile)
      qed
      have "match_node (regmatch k x) x p ?oper q m = regmatchsimplerepeat (regmatch k x) x p q lazy m"
        by (simp add: match_node_def is_anchor_def is_text_def op_defs)
      also have "\<dots> = (if int hi < mn then Ret (0, m\<lparr>rm_in := ?i + hi\<rparr>)
          else repeat_loop (nat (int hi - mn) + 2) (regmatch k x) x q nextch lazy ?i
            (if lazy then mn else int hi) (if lazy then int hi else mn) m)"
        by (simp only: regmatchsimplerepeat_def w nx rep run_bind.simps)
      finally have e: "match_node (regmatch k x) x p ?oper q m = \<dots>" .
      have t: "?R `` {?i} = tails ?i mn (int hi) R `` {?i}"
        by (auto simp: tails_def hi_def nat_le_iff relcomp_unfold sem_simple_power [OF assms(3,4)] Bex_def)
      show "keeps W ?R m (match_node (regmatch k x) x p ?oper q m)"
      proof (cases "int hi < mn")
        case True
        then have "tails ?i mn (int hi) R = {}" by (rule tails_empty)
        then have "?i \<notin> Domain ?R" using t by blast
        then show ?thesis using True e by (simp add: keeps_Ret)
      next
        case False
        have "keeps W (tails ?i mn (int hi) R) m (repeat_loop (nat (int hi - mn) + 2) (regmatch k x) x q nextch lazy ?i
            (if lazy then mn else int hi) (if lazy then int hi else mn) m)"
        proof (rule repeat_loop_good [where I = "{?P}"])
          fix m' assume "m' \<in> states x {?P}"
          then have m': "m' \<in> states x I" "rm_prog m' = ?P" using P(1) by (auto simp: states_def)
          then show "keeps W R m' (regmatch k x q m')" by (intro g)
          show "rm_in m' \<notin> Domain R" if "\<not> reg_iseol x nextch" "text_char x (rm_in m') \<noteq> nextch"
            using lookahead(2) [OF b m'(1)] that m'(2) by (auto simp: nextch_def split: if_splits)
        qed (use P run_of_le [OF P(2), of a] False assms(5) in \<open>auto simp: hi_def\<close>)
        from keeps_mono [OF this] t e False show ?thesis by simp
      qed
    qed
  qed
  then show ?thesis .
qed

section \<open>Complex repetitions\<close>

text \<open>The programs with the count \<open>n\<close> at \<open>p + 4\<close>.\<close>

definition counted :: "int list set \<Rightarrow> nat \<Rightarrow> nat \<Rightarrow> int list set" where
  "counted I p n = (\<lambda>P. P[p + 4 := int n]) ` I"

text \<open>What is left to match after \<open>n\<close> rounds.\<close>

definition rounds :: "(nat \<times> nat) set \<Rightarrow> nat \<Rightarrow> nat \<Rightarrow> nat \<Rightarrow> (nat \<times> nat) set \<Rightarrow> (nat \<times> nat) set" where
  "rounds A mn mx n R = (\<Union>c \<in> {c. mn \<le> n + c \<and> n + c \<le> mx}. A ^^ c) O R"

lemma relpow_Suc': "A ^^ Suc c = A O A ^^ c"
  by (simp add: relpow_commute)

lemma rounds_more:
  assumes "n < mx"
  shows "rounds A mn mx n R = A O rounds A mn mx (Suc n) R \<union> (if mn \<le> n then R else {})"
proof -
  have "{c. mn \<le> n + c \<and> n + c \<le> mx} = Suc ` {c. mn \<le> Suc n + c \<and> Suc n + c \<le> mx} \<union> (if mn \<le> n then {0} else {})"
  proof (rule set_eqI)
    fix c
    show "c \<in> {c. mn \<le> n + c \<and> n + c \<le> mx} \<longleftrightarrow>
        c \<in> Suc ` {c. mn \<le> Suc n + c \<and> Suc n + c \<le> mx} \<union> (if mn \<le> n then {0} else {})"
      using assms by (cases c) auto
  qed
  then show ?thesis by (auto simp: rounds_def relpow_Suc' simp del: relpow.simps(2))
qed

lemma rounds_last: "mn \<le> mx \<Longrightarrow> rounds A mn mx mx R = R"
proof -
  assume "mn \<le> mx"
  then have "{c. mn \<le> mx + c \<and> mx + c \<le> mx} = {0}" by auto
  then show ?thesis by (simp add: rounds_def)
qed

lemma captures_restores:
  assumes "has_code (rm_prog m) p (code_atom p q a)" "captures a" "ok_atom l a" "p < q" "0 < p"
    and "regmatch k x p m = Ret (0, m')"
  shows "rm_in m' = rm_in m"
proof -
  obtain no bs where a: "a = Group no bs" "0 < no" "no < int REG_MAX_PAREN"
    using assms(2,3) by (cases a) auto
  have "node_at (rm_prog m) p (OPEN + no) (p + 2)"
    using assms(1) a by (auto simp: node_at_def has_code_Cons regnext_def word_at_def op_defs)
  moreover obtain k' where "k = Suc k'" using assms(6) by (cases k) (auto simp: regmatch.simps)
  ultimately have "match_node (regmatch k' x) x p (OPEN + no) (p + 2) m = Ret (0, m')"
    using assms(5,6) by (simp add: regmatch_node)
  moreover have "OPEN < OPEN + no \<and> OPEN + no < CLOSE_END" "OPEN + no \<noteq> OPENNC" "OPEN + no \<noteq> CLOSENC"
    using a by (auto simp: op_defs REG_MAX_PAREN_def)
  ultimately show ?thesis by (auto simp: match_node_group run_simps split: if_splits)
qed

lemma once_more_good:
  assumes g: "keeps W S (add_count p 1 m) (rec (p + 5) (add_count p 1 m))" and "p + 4 < length (rm_prog m)"
    and r: "\<And>m'. rec (p + 5) (add_count p 1 m) = Ret (0, m') \<Longrightarrow> rm_in m' = rm_in m"
  obtains (fail) m' where "once_more rec p m = Ret (0, m')" "length (rm_match m') = length (rm_match m)"
      "rm_prog m' = rm_prog m" "rm_in m' = rm_in m" "rm_in m \<notin> Domain S"
    | (match) m' where "once_more rec p m = Ret (1, m')" "length (rm_match m') = length (rm_match m)"
      "rm_prog m' \<in> W" "(rm_in m, rm_in m') \<in> S"
  using g
proof (cases rule: keepsE)
  case (fail m')
  have "rm_prog (add_count p (- 1) m') = rm_prog m"
    using fail(3) assms(2) by (simp add: add_count_def)
  then show thesis using that(1) [of "add_count p (- 1) m'"] fail r [OF fail(1)]
    by (simp add: once_more_def add_count_def)
next
  case (match r m')
  then show thesis using that(2) [of m'] by (simp add: once_more_def add_count_def)
qed

lemma match_node_repx:
  "match_node rec x p REPX q m = regmatchrepeat rec p q False m"
  by (simp add: match_node_def is_anchor_def is_text_def op_defs)

text \<open>A node with the count \<open>n\<close>, when the operand and what follows behave.\<close>

lemma regmatchrepeat_good:
  assumes "p + 4 < length (rm_prog m)"
    and w: "rm_prog m ! (p + 2) = int mx" "rm_prog m ! (p + 3) = int mn" "rm_prog m ! (p + 4) = int n"
    and "n \<le> mx" "mn \<le> mx" and m: "m \<in> states x I"
    and g: "\<And>m. m \<in> states x I \<Longrightarrow> keeps W R m (rec q m)"
    and o: "n < mx \<Longrightarrow> keeps W (A O rounds A mn mx (Suc n) R) (add_count p 1 m) (rec (p + 5) (add_count p 1 m))"
    and r: "\<And>m'. rec (p + 5) (add_count p 1 m) = Ret (0, m') \<Longrightarrow> rm_in m' = rm_in m"
  shows "keeps W (rounds A mn mx n R) m (regmatchrepeat rec p q False m)"
proof -
  have e: "regmatchrepeat rec p q False m =
      (if n < mn then once_more rec p m
       else run_bind (if n < mx then once_more rec p m else Ret (0, m))
              (\<lambda>(r, m'). if r \<noteq> 0 then Ret (1, m') else rec q m'))"
    using assms(1) w \<open>n \<le> mx\<close> by (simp add: regmatchrepeat_def word_at_def)
  show ?thesis
  proof (cases "n < mx")
    case False
    then have "n = mx" using \<open>n \<le> mx\<close> by simp
    then show ?thesis using e \<open>mn \<le> mx\<close> g [OF m] by (simp add: rounds_last)
  next
    case True
    note t = rounds_more [OF True, of A mn R]
    show ?thesis
    proof (rule once_more_good [where rec = rec and p = p, OF o [OF True] assms(1)])
      show "rm_in m' = rm_in m" if "rec (p + 5) (add_count p 1 m) = Ret (0, m')" for m' by (rule r [OF that])
    next
      fix m'
      assume f: "once_more rec p m = Ret (0, m')" "length (rm_match m') = length (rm_match m)"
        "rm_prog m' = rm_prog m" "rm_in m' = rm_in m" "rm_in m \<notin> Domain (A O rounds A mn mx (Suc n) R)"
      show ?thesis
      proof (cases "n < mn")
        case True
        then show ?thesis using e t f by (simp add: keeps_Ret)
      next
        case False
        have m': "m' \<in> states x I" using m f by (simp add: states_def)
        have "R `` {rm_in m'} = rounds A mn mx n R `` {rm_in m}"
          unfolding t f(4) using False f(5) by auto
        with g [OF m'] f(3,2) have "keeps W (rounds A mn mx n R) m (rec q m')" by (rule keeps_shift)
        then show ?thesis using e False True f(1) by simp
      qed
    next
      fix m'
      assume "once_more rec p m = Ret (1, m')" "length (rm_match m') = length (rm_match m)"
        "rm_prog m' \<in> W" "(rm_in m, rm_in m') \<in> A O rounds A mn mx (Suc n) R"
      then show ?thesis using e t True by (auto simp: keeps_Ret)
    qed
  qed
qed

lemma code_repx:
  assumes "has_code P p (code_piece p q (Many False mn mx a))" "\<not> is_simple a" "p < q"
  shows "node_at P p REPX q" "P ! (p + 2) = mx" "P ! (p + 3) = mn" "P ! (p + 4) = 0" "p + 4 < length P"
    "has_code P (p + 5) (code_atom (p + 5) (p + 5 + len_atom a) a)"
    "node_at P (p + 5 + len_atom a) BACK p"
proof -
  let ?b = "p + 5 + len_atom a"
  have c: "has_code P p (REPX # dist p q # mx # mn # 0 # code_atom (p + 5) ?b a @ [BACK, int (5 + len_atom a)])"
    using assms by simp
  show "node_at P p REPX q" using node_at_code [OF c] assms(3) by (auto simp: op_defs)
  have d: "P ! (p + 2) = mx \<and> P ! (p + 3) = mn \<and> P ! (p + 4) = 0 \<and> p + 4 < length P \<and>
      has_code P (p + 5) (code_atom (p + 5) ?b a) \<and> has_code P ?b [BACK, int (5 + len_atom a)]"
    using c by (simp add: has_code_Cons has_code_append eval_nat_numeral)
  then show "P ! (p + 2) = mx" "P ! (p + 3) = mn" "P ! (p + 4) = 0" "p + 4 < length P"
    "has_code P (p + 5) (code_atom (p + 5) ?b a)" by simp_all
  show "node_at P ?b BACK p" using d by (auto simp: node_at_def has_code_Cons regnext_def word_at_def Let_def)
qed

lemma node_at_frame:
  assumes "node_at P p oper q" "length P' = length P" "P' ! p = P ! p" "P' ! (p + 1) = P ! (p + 1)"
  shows "node_at P' p oper q"
proof -
  have "regnext P' p = regnext P p" using assms(2-4) by (simp add: regnext_def word_at_def)
  then show ?thesis using assms by (simp add: node_at_def)
qed

lemma behaves_repx:
  assumes "0 < p" "p < q" "\<not> is_simple a" "captures a" "ok_atom l a" "mn \<le> mx"
    and c: "\<And>P. P \<in> I \<Longrightarrow> has_code P p (code_piece p q (Many False (int mn) (int mx) a))"
    and b: "behaves x W (upd I {p + 4}) q R"
    and IH: "\<And>J S. (\<And>P. P \<in> J \<Longrightarrow> has_code P (p + 5) (code_atom (p + 5) (p + 5 + len_atom a) a)) \<Longrightarrow>
       behaves x W J (p + 5 + len_atom a) S \<Longrightarrow> behaves x W J (p + 5) (sem_atom x a O S)"
  shows "behaves x W I p (sem_piece x (Many False (int mn) (int mx) a) O R)"
proof -
  let ?A = "sem_atom x a" and ?b = "p + 5 + len_atom a"
  note code = code_repx [OF c assms(3,2)]
  have cnt: "length P' = length P \<and> P' ! (p + 4) = int n \<and> (\<forall>a. a \<noteq> p + 4 \<longrightarrow> P' ! a = P ! a)"
    if "P \<in> I" "P' = P[p + 4 := int n]" for P P' n
    using code(5) [OF that(1)] that(2) by simp
  have node: "node_at P' p REPX q \<and> P' ! (p + 2) = int mx \<and> P' ! (p + 3) = int mn \<and> P' ! (p + 4) = int n \<and>
      p + 4 < length P' \<and> has_code P' (p + 5) (code_atom (p + 5) ?b a) \<and> node_at P' ?b BACK p"
    if P': "P' \<in> counted I p n" for P' n
  proof -
    obtain P where P: "P \<in> I" "P' = P[p + 4 := int n]" using P' by (auto simp: counted_def)
    note f = cnt [OF P]
    have "node_at P' p REPX q" "node_at P' ?b BACK p"
      using node_at_frame [OF code(1) [OF P(1)]] node_at_frame [OF code(7) [OF P(1)]] f by simp_all
    moreover have "has_code P' (p + 5) (code_atom (p + 5) ?b a)"
      using has_code_frame [OF code(6) [OF P(1)]] f by simp
    ultimately show ?thesis using f code [OF P(1)] by simp
  qed
  have sub: "counted I p n \<subseteq> upd I {p + 4}" for n
    using cnt by (auto simp: counted_def upd_def)
  have prog: "rm_prog m \<in> counted I p n" if "m \<in> states x (counted I p n)" for m n
    using that by (simp add: states_def)
  have restores: "rm_in m' = rm_in m"
    if m: "m \<in> states x (counted I p n)" and r: "regmatch k x (p + 5) (add_count p 1 m) = Ret (0, m')" for m m' k n
  proof -
    have "has_code (rm_prog (add_count p 1 m)) (p + 5) (code_atom (p + 5) ?b a)"
      using node [OF prog [OF m]] by (auto simp: add_count_def intro: has_code_frame)
    from captures_restores [OF this assms(4,5) _ _ r] show ?thesis by (simp add: add_count_def)
  qed
  have round: "keeps W (rounds ?A mn mx n R) m (match_node (regmatch k x) x p REPX q m)"
    if "n \<le> mx" and g: "\<forall>m \<in> states x (counted I p n). keeps W R m (regmatch k x q m)"
      and o: "\<forall>m \<in> states x (counted I p (Suc n)). n < mx \<longrightarrow>
        keeps W (?A O rounds ?A mn mx (Suc n) R) m (regmatch k x (p + 5) m)"
      and m: "m \<in> states x (counted I p n)" for n k m
  proof -
    note f = node [OF prog [OF m]]
    obtain P where P: "P \<in> I" "rm_prog m = P[p + 4 := int n]" using prog [OF m] by (auto simp: counted_def)
    have "rm_prog (add_count p 1 m) = P[p + 4 := int (Suc n)]"
      using P(2) f by (simp add: add_count_def add.commute)
    then have "add_count p 1 m \<in> states x (counted I p (Suc n))"
      using m P(1) by (simp add: states_def counted_def add_count_def)
    then have "n < mx \<longrightarrow> keeps W (?A O rounds ?A mn mx (Suc n) R) (add_count p 1 m)
        (regmatch k x (p + 5) (add_count p 1 m))" using o by blast
    then show ?thesis unfolding match_node_repx
      using f g restores [OF m] m \<open>n \<le> mx\<close> \<open>mn \<le> mx\<close>
      by (intro regmatchrepeat_good [where I = "counted I p n"]) auto
  qed
  have q: "\<forall>\<^sub>F k in sequentially. \<forall>m \<in> states x (counted I p n). keeps W R m (regmatch k x q m)" for n
    using behaves_mono [OF b sub] by (simp add: behaves_def)
  have main: "behaves x W (counted I p n) p (rounds ?A mn mx n R)" if "n \<le> mx" for n
    using that
  proof (induction n rule: inc_induct)
    case base
    have "\<forall>\<^sub>F k in sequentially. \<forall>m \<in> states x (counted I p mx).
        keeps W (rounds ?A mn mx mx R) m (match_node (regmatch k x) x p REPX q m)"
      using q [of mx] by eventually_elim (use round [of mx] in auto)
    then show ?case by (intro behavesI [OF assms(1)]) (use node prog in auto)
  next
    case (step n)
    let ?J = "counted I p (Suc n)"
    have "behaves x W ?J ?b ({(i, i) | i. anchor_holds x BACK i} O rounds ?A mn mx (Suc n) R)"
      using step.IH by (intro behaves_anchor) (use node prog in \<open>auto simp: is_anchor_def\<close>)
    then have "behaves x W ?J ?b (rounds ?A mn mx (Suc n) R)"
      by (rule behaves_cong) (auto simp: anchor_holds_def op_defs)
    then have "behaves x W ?J (p + 5) (?A O rounds ?A mn mx (Suc n) R)"
      using node by (intro IH) auto
    then have "\<forall>\<^sub>F k in sequentially. \<forall>m \<in> states x ?J.
        keeps W (?A O rounds ?A mn mx (Suc n) R) m (regmatch k x (p + 5) m)"
      by (simp add: behaves_def)
    then have "\<forall>\<^sub>F k in sequentially. \<forall>m \<in> states x (counted I p n).
        keeps W (rounds ?A mn mx n R) m (match_node (regmatch k x) x p REPX q m)"
      using q [of n] by eventually_elim (use round [of n] step.hyps in auto)
    then show ?case by (intro behavesI [OF assms(1)]) (use node prog in auto)
  qed
  have "I \<subseteq> counted I p 0"
  proof
    fix P assume P: "P \<in> I"
    then have "P[p + 4 := int 0] = P" using code(4) [OF P] list_update_id [of P "p + 4"] by simp
    then show "P \<in> counted I p 0" using P by (force simp: counted_def)
  qed
  from behaves_mono [OF main [of 0] this] show ?thesis
    by (simp add: rounds_def atLeastAtMost_def Int_def atLeast_def atMost_def)
qed

section \<open>Branches\<close>

lemma cells_range:
  "z \<in> cells_atom p a \<Longrightarrow> p \<le> z \<and> z < p + len_atom a"
  "z \<in> cells_piece p y \<Longrightarrow> p \<le> z \<and> z < p + len_piece y"
  "z \<in> cells_seq p ys \<Longrightarrow> p \<le> z \<and> z < p + len_seq ys"
  "z \<in> cells_alts p bs \<Longrightarrow> p \<le> z \<and> z < p + len_alts bs"
  by (induction p a and p y and p ys and p bs rule: cells_atom_cells_piece_cells_seq_cells_alts.induct)
    (auto split: if_splits)

lemma cells_flat:
  "ok_atom False a \<Longrightarrow> cells_atom p a = {}"
  "ok_piece False y \<Longrightarrow> cells_piece p y = {}"
  "ok_seq False ys \<Longrightarrow> cells_seq p ys = {}"
  "ok_alts False bs \<Longrightarrow> cells_alts p bs = {}"
  by (induction p a and p y and p ys and p bs rule: cells_atom_cells_piece_cells_seq_cells_alts.induct)
    (auto split: if_splits)

lemma behaves_body:
  assumes "0 < p" "\<And>m. m \<in> states x I \<Longrightarrow> node_at (rm_prog m) p NOTHING q" "behaves x W I q R"
  shows "behaves x W I p R"
proof -
  have "behaves x W I p ({(i, i) | i. anchor_holds x NOTHING i} O R)"
    using assms by (intro behaves_anchor) (auto simp: is_anchor_def)
  then show ?thesis by (rule behaves_cong) (auto simp: anchor_holds_def op_defs)
qed

lemma len_alts_ge: "length bs \<le> len_alts bs"
  by (induction bs) auto

lemma len_alts_pos: "bs \<noteq> [] \<Longrightarrow> 0 < len_alts bs"
  by (cases bs) auto

text \<open>The branches from \<open>p\<close> on.\<close>

definition branching :: "rx \<Rightarrow> int list set \<Rightarrow> int list set \<Rightarrow> nat \<Rightarrow> nat \<Rightarrow> (nat \<times> nat) set \<Rightarrow> bool" where
  "branching x W I l p R \<longleftrightarrow> (\<forall>\<^sub>F k in sequentially. \<forall>m \<in> states x I. \<forall>n \<ge> l.
     keeps W R m (branches n (regmatch k x) (rm_in m) p m))"

lemma code_branch:
  assumes "has_code P p (code_alts p e (b # bs))" "p + len_alts (b # bs) \<le> e"
  shows "node_at P p BRANCH (if bs = [] then e else p + branch_size b)"
    and "has_code P (p + 2) (if b = [] then [NOTHING, dist (p + 2) e] else code_seq (p + 2) e b)"
    and "has_code P (p + branch_size b) (code_alts (p + branch_size b) e bs)"
proof -
  have "p < p + branch_size b" "p < e" using assms(2) by (auto simp: branch_size_def split: if_splits)
  then show "node_at P p BRANCH (if bs = [] then e else p + branch_size b)"
    using assms(1)
    by (auto simp: node_at_def has_code_Cons regnext_def word_at_def dist_def op_defs branch_size_def split: if_splits)
  show "has_code P (p + 2) (if b = [] then [NOTHING, dist (p + 2) e] else code_seq (p + 2) e b)"
    "has_code P (p + branch_size b) (code_alts (p + branch_size b) e bs)"
    using assms(1) by (auto simp: has_code_Cons has_code_append branch_size_def eval_nat_numeral split: if_splits)
qed

lemma branches_more:
  assumes "node_at (rm_prog m) p BRANCH q" "q < length (rm_prog m)" "m \<in> states x I"
    and g: "keeps W S m (rec (p + 2) m)"
    and t: "if rm_prog m ! q = BRANCH
      then \<forall>m' \<in> states x I. keeps W T m' (branches n rec (rm_in m') q m') else T `` {rm_in m} = {}"
    and "q \<noteq> 0"
  shows "keeps W (S \<union> T) m (branches (Suc n) rec (rm_in m) p m)"
  using g
proof (cases rule: keepsE)
  case (match r m')
  then show ?thesis by (simp add: keeps_Ret)
next
  case (fail m1)
  let ?m = "m1\<lparr>rm_in := rm_in m\<rparr>"
  have m: "?m \<in> states x I" using assms(3) fail(3) by (simp add: states_def)
  have e: "branches (Suc n) rec (rm_in m) p m =
      (if rm_prog m ! q = BRANCH then branches n rec (rm_in m) q ?m else Ret (0, ?m))"
    using fail assms(1,2,6) by (simp add: node_at_def word_at_def)
  show ?thesis
  proof (cases "rm_prog m ! q = BRANCH")
    case True
    then have "keeps W T ?m (branches n rec (rm_in m) q ?m)" using t m by force
    then have "keeps W (S \<union> T) m (branches n rec (rm_in m) q ?m)"
      by (rule keeps_shift) (use fail in auto)
    then show ?thesis using e True by simp
  next
    case False
    then show ?thesis using e t fail by (auto simp: keeps_Ret)
  qed
qed

lemma behaves_branches:
  assumes "0 < p" "p + len_alts (b # bs) \<le> e"
    and c: "\<And>P. P \<in> I \<Longrightarrow> has_code P p (code_alts p e (b # bs)) \<and> e < length P \<and> P ! e \<noteq> BRANCH"
    and body: "behaves x W I (p + 2) S"
    and rest: "bs \<noteq> [] \<Longrightarrow> branching x W I (length bs) (p + branch_size b) T" and T: "bs = [] \<Longrightarrow> T = {}"
  shows "behaves x W I p (S \<union> T)" "branching x W I (length (b # bs)) p (S \<union> T)"
proof -
  let ?q = "if bs = [] then e else p + branch_size b"
  have node: "node_at (rm_prog m) p BRANCH ?q" if "m \<in> states x I" for m
    using code_branch(1) [OF _ assms(2)] c that by (auto simp: states_def)
  have q: "?q < length (rm_prog m)" "(rm_prog m ! ?q = BRANCH) = (bs \<noteq> [])" "?q \<noteq> 0" if m: "m \<in> states x I" for m
  proof -
    have P: "rm_prog m \<in> I" using m by (simp add: states_def)
    have "bs \<noteq> [] \<Longrightarrow> has_code (rm_prog m) (p + branch_size b) (code_alts (p + branch_size b) e bs)"
      using code_branch(3) [OF _ assms(2)] c [OF P] by blast
    then have "bs \<noteq> [] \<Longrightarrow> p + branch_size b < length (rm_prog m) \<and> rm_prog m ! (p + branch_size b) = BRANCH"
      by (cases bs) (simp_all add: has_code_Cons)
    then show "?q < length (rm_prog m)" "(rm_prog m ! ?q = BRANCH) = (bs \<noteq> [])" "?q \<noteq> 0"
      using c [OF P] assms(1,2) by auto
  qed
  have "\<forall>\<^sub>F k in sequentially. \<forall>m \<in> states x I. keeps W S m (regmatch k x (p + 2) m)"
    using body by (simp add: behaves_def)
  moreover have "\<forall>\<^sub>F k in sequentially. bs \<noteq> [] \<longrightarrow> (\<forall>m \<in> states x I. \<forall>n \<ge> length bs.
      keeps W T m (branches n (regmatch k x) (rm_in m) (p + branch_size b) m))"
    using rest by (cases "bs = []") (auto simp: branching_def elim!: eventually_mono)
  ultimately show br: "branching x W I (length (b # bs)) p (S \<union> T)" unfolding branching_def
  proof eventually_elim
    case (elim k)
    show ?case
    proof (intro ballI allI impI)
      fix m n assume m: "m \<in> states x I" and "length (b # bs) \<le> n"
      then obtain n' where n: "n = Suc n'" "length bs \<le> n'" by (cases n) auto
      show "keeps W (S \<union> T) m (branches n (regmatch k x) (rm_in m) p m)"
        unfolding n using elim m q [OF m] n(2) T
        by (intro branches_more [OF node [OF m] q(1) [OF m] m]) auto
    qed
  qed
  show "behaves x W I p (S \<union> T)"
  proof (rule behavesI [OF assms(1) node])
    have "\<forall>\<^sub>F k in sequentially. \<forall>m \<in> states x I. keeps W S m (regmatch k x (p + 2) m)"
      using body by (simp add: behaves_def)
    with br [unfolded branching_def]
    show "\<forall>\<^sub>F k in sequentially. \<forall>m \<in> states x I. keeps W (S \<union> T) m (match_node (regmatch k x) x p BRANCH ?q m)"
    proof eventually_elim
      case (elim k)
      show ?case
      proof
        fix m assume m: "m \<in> states x I"
        have e: "match_node (regmatch k x) x p BRANCH ?q m =
            (if bs = [] then regmatch k x (p + 2) m
             else branches (length (rm_prog m)) (regmatch k x) (rm_in m) p m)"
          using q [OF m] by (simp add: match_node_def is_anchor_def is_text_def op_defs word_at_def)
        have "length (b # bs) \<le> length (rm_prog m)"
          using c [of "rm_prog m"] assms(2) m len_alts_ge [of "b # bs"] by (simp add: states_def)
        then show "keeps W (S \<union> T) m (match_node (regmatch k x) x p BRANCH ?q m)"
          using e elim m T by (cases "bs = []") (auto split: if_splits)
      qed
    qed
  qed
qed

section \<open>Every tree behaves\<close>

definition right_atom :: "rx \<Rightarrow> int list set \<Rightarrow> nat \<Rightarrow> nat \<Rightarrow> atom \<Rightarrow> bool" where
  "right_atom x W p q a \<longleftrightarrow> (\<forall>I l R. 0 < p \<longrightarrow> p + len_atom a \<le> q \<longrightarrow> ok_atom l a \<longrightarrow>
     (\<forall>P \<in> I. has_code P p (code_atom p q a)) \<longrightarrow> behaves x W (upd I (cells_atom p a)) q R \<longrightarrow>
     behaves x W I p (sem_atom x a O R))"

definition right_piece :: "rx \<Rightarrow> int list set \<Rightarrow> nat \<Rightarrow> nat \<Rightarrow> piece \<Rightarrow> bool" where
  "right_piece x W p q y \<longleftrightarrow> (\<forall>I l R. 0 < p \<longrightarrow> p + len_piece y \<le> q \<longrightarrow> ok_piece l y \<longrightarrow>
     (\<forall>P \<in> I. has_code P p (code_piece p q y)) \<longrightarrow> behaves x W (upd I (cells_piece p y)) q R \<longrightarrow>
     behaves x W I p (sem_piece x y O R))"

definition right_seq :: "rx \<Rightarrow> int list set \<Rightarrow> nat \<Rightarrow> nat \<Rightarrow> piece list \<Rightarrow> bool" where
  "right_seq x W p q ys \<longleftrightarrow> (\<forall>I l R. ys \<noteq> [] \<longrightarrow> 0 < p \<longrightarrow> p + len_seq ys \<le> q \<longrightarrow> ok_seq l ys \<longrightarrow>
     (\<forall>P \<in> I. has_code P p (code_seq p q ys)) \<longrightarrow> behaves x W (upd I (cells_seq p ys)) q R \<longrightarrow>
     behaves x W I p (sem_seq x ys O R))"

definition right_alts :: "rx \<Rightarrow> int list set \<Rightarrow> nat \<Rightarrow> nat \<Rightarrow> piece list list \<Rightarrow> bool" where
  "right_alts x W p e bs \<longleftrightarrow> (\<forall>I l R. bs \<noteq> [] \<longrightarrow> 0 < p \<longrightarrow> p + len_alts bs \<le> e \<longrightarrow> ok_alts l bs \<longrightarrow>
     (\<forall>P \<in> I. has_code P p (code_alts p e bs) \<and> e < length P \<and> P ! e \<noteq> BRANCH) \<longrightarrow>
     behaves x W (upd I (cells_alts p bs)) e R \<longrightarrow>
     behaves x W I p (sem_alts x bs O R) \<and> branching x W I (length bs) p (sem_alts x bs O R))"

lemma right_pieceD:
  "right_piece x W p q y \<Longrightarrow> 0 < p \<Longrightarrow> p + len_piece y \<le> q \<Longrightarrow> ok_piece l y \<Longrightarrow>
   (\<And>P. P \<in> I \<Longrightarrow> has_code P p (code_piece p q y)) \<Longrightarrow> behaves x W (upd I (cells_piece p y)) q R \<Longrightarrow>
   behaves x W I p (sem_piece x y O R)"
  unfolding right_piece_def by blast

lemma right_altsD:
  "right_alts x W p e bs \<Longrightarrow> bs \<noteq> [] \<Longrightarrow> 0 < p \<Longrightarrow> p + len_alts bs \<le> e \<Longrightarrow> ok_alts l bs \<Longrightarrow>
   (\<forall>P \<in> I. has_code P p (code_alts p e bs) \<and> e < length P \<and> P ! e \<noteq> BRANCH) \<Longrightarrow>
   behaves x W (upd I (cells_alts p bs)) e R \<Longrightarrow> behaves x W I p (sem_alts x bs O R)"
  unfolding right_alts_def by blast

lemma right_plain:
  assumes "\<nexists>no bs. a = Group no bs"
  shows "right_atom x W p q a"
  unfolding right_atom_def
proof (intro allI impI)
  fix I l R
  assume h: "0 < p" "p + len_atom a \<le> q" "ok_atom l a" "\<forall>P \<in> I. has_code P p (code_atom p q a)"
    "behaves x W (upd I (cells_atom p a)) q R"
  have "p < q" using h(2) len_atom_pos(2) [of a] by linarith
  then show "behaves x W I p (sem_atom x a O R)"
    using h assms by (intro behaves_plain [of p q a l]) (auto intro: behaves_mono [OF _ upd_subset])
qed

lemma upd_mono: "A \<subseteq> B \<Longrightarrow> upd I A \<subseteq> upd I B"
  by (auto simp: upd_def)

lemma right_group:
  assumes IH: "right_alts x W (p + 2) (p + 2 + len_alts bs) bs"
  shows "right_atom x W p q (Group no bs)"
  unfolding right_atom_def
proof (intro allI impI)
  fix I l R
  let ?e = "p + 2 + len_alts bs"
  assume h: "0 < p" "p + len_atom (Group no bs) \<le> q" "ok_atom l (Group no bs)"
    "\<forall>P \<in> I. has_code P p (code_atom p q (Group no bs))" "behaves x W (upd I (cells_atom p (Group no bs))) q R"
  let ?I = "upd I (cells_alts (p + 2) bs)"
  have no: "OPEN + no = OPENNC \<and> CLOSE + no = CLOSENC \<or> OPEN < OPEN + no \<and> OPEN + no < CLOSE_END \<and>
      OPEN < CLOSE + no \<and> CLOSE + no < CLOSE_END" "CLOSE + no \<noteq> BRANCH" "CLOSE + no \<noteq> BACK"
    using h(3) by (auto simp: op_defs REG_MAX_PAREN_def)
  have c: "has_code P p ([OPEN + no, 2]) \<and> has_code P (p + 2) (code_alts (p + 2) ?e bs)
      \<and> has_code P ?e [CLOSE + no, dist ?e q]" if "P \<in> I" for P
    using h(4) that by (auto simp: has_code_append has_code_Cons eval_nat_numeral)
  have "has_code P' ?e [CLOSE + no, dist ?e q]" if "P' \<in> ?I" for P'
    using that
  proof (rule upd_code)
    show "cells_alts (p + 2) bs \<inter> {?e..<?e + length [CLOSE + no, dist ?e q]} = {}"
      using cells_range(4) [of _ "p + 2" bs] by force
  qed (use c in blast)
  then have "node_at P' ?e (CLOSE + no) q" if "P' \<in> ?I" for P'
    using that no(3) h(2) by (intro node_at_code) auto
  moreover have "CLOSE + no = OPENNC \<or> CLOSE + no = CLOSENC \<or> OPEN < CLOSE + no \<and> CLOSE + no < CLOSE_END"
    using no(1) by blast
  ultimately have "behaves x W ?I ?e R"
    using h(5) by (intro behaves_group [of ?e]) (auto simp: states_def)
  moreover have "\<forall>P \<in> I. has_code P (p + 2) (code_alts (p + 2) ?e bs) \<and> ?e < length P \<and> P ! ?e \<noteq> BRANCH"
    using c no(2) by (auto simp: has_code_Cons)
  ultimately have "behaves x W I (p + 2) (sem_alts x bs O R)"
    using IH h unfolding right_alts_def by auto
  moreover have "node_at P p (OPEN + no) (p + 2)" if "P \<in> I" for P
    using c [OF that] no h(3) by (auto simp: node_at_def has_code_Cons regnext_def word_at_def op_defs)
  ultimately show "behaves x W I p (sem_atom x (Group no bs) O R)"
    using h(1) no(1) by (simp, intro behaves_group [of p]) (auto simp: states_def)
qed

lemma right_many:
  assumes IH: "\<not> is_simple a \<Longrightarrow> right_atom x W (p + 5) (p + 5 + len_atom a) a"
  shows "right_piece x W p q (Many lazy mn mx a)"
  unfolding right_piece_def
proof (intro allI impI)
  fix I l R
  assume h: "0 < p" "p + len_piece (Many lazy mn mx a) \<le> q" "ok_piece l (Many lazy mn mx a)"
    "\<forall>P \<in> I. has_code P p (code_piece p q (Many lazy mn mx a))"
    "behaves x W (upd I (cells_piece p (Many lazy mn mx a))) q R"
  have pq: "p < q" using h(2) len_piece_pos(2) [of "Many lazy mn mx a"] by linarith
  show "behaves x W I p (sem_piece x (Many lazy mn mx a) O R)"
  proof (cases "is_simple a")
    case True
    then show ?thesis using h pq by (intro behaves_rep [of p q a l mn I lazy mx]) auto
  next
    case False
    have a: "captures a" "ok_atom False a" "\<not> lazy" "0 \<le> mn" "mn \<le> mx" using h(3) False by auto
    have "behaves x W I p (sem_piece x (Many False (int (nat mn)) (int (nat mx)) a) O R)"
    proof (rule behaves_repx [OF h(1) pq False a(1,2)])
      show "nat mn \<le> nat mx" using a by simp
      show "has_code P p (code_piece p q (Many False (int (nat mn)) (int (nat mx)) a))" if "P \<in> I" for P
        using h(4) that a by auto
      show "behaves x W (upd I {p + 4}) q R" using h(5) False cells_flat(1) [OF a(2)] by simp
      show "behaves x W J (p + 5) (sem_atom x a O S)"
        if "\<And>P. P \<in> J \<Longrightarrow> has_code P (p + 5) (code_atom (p + 5) (p + 5 + len_atom a) a)"
          "behaves x W J (p + 5 + len_atom a) S" for J S
        using IH [OF False] a(2) that cells_flat(1) [OF a(2)] unfolding right_atom_def
        by (metis add_is_0 gr0I le_refl upd_empty zero_neq_numeral)
    qed
    then show ?thesis using a by simp
  qed
qed

lemma right_seq_Cons:
  assumes y: "right_piece x W p (if ys = [] then q else p + len_piece y) y"
    and ys: "right_seq x W (p + len_piece y) q ys"
  shows "right_seq x W p q (y # ys)"
  unfolding right_seq_def
proof (intro allI impI)
  fix I l R
  let ?p = "p + len_piece y"
  assume h: "0 < p" "p + len_seq (y # ys) \<le> q" "ok_seq l (y # ys)"
    "\<forall>P \<in> I. has_code P p (code_seq p q (y # ys))" "behaves x W (upd I (cells_seq p (y # ys))) q R"
  let ?I = "upd I (cells_piece p y)"
  have c: "has_code P p (code_piece p (if ys = [] then q else ?p) y)" "has_code P ?p (code_seq ?p q ys)"
    if "P \<in> I" for P using h(4) that by (auto simp: has_code_append)
  have "behaves x W (upd ?I (cells_seq ?p ys)) q R"
    using behaves_mono [OF h(5)] upd_upd by simp
  moreover have "has_code P' ?p (code_seq ?p q ys)" if "P' \<in> ?I" for P'
    using that
  proof (rule upd_code)
    show "cells_piece p y \<inter> {?p..<?p + length (code_seq ?p q ys)} = {}"
      using cells_range(2) [of _ p y] by force
  qed (use c in blast)
  ultimately have "behaves x W ?I (if ys = [] then q else ?p) (sem_seq x ys O R)"
    using ys h unfolding right_seq_def by auto
  moreover have "p + len_piece y \<le> (if ys = [] then q else ?p)" using h(2) by simp
  ultimately have "behaves x W I p (sem_piece x y O (sem_seq x ys O R))"
    using h(1,3) c(1) by (intro right_pieceD [OF y, of l]) simp_all
  then show "behaves x W I p (sem_seq x (y # ys) O R)" by (simp add: O_assoc)
qed

lemma right_alts_Cons:
  assumes b: "b \<noteq> [] \<Longrightarrow> right_seq x W (p + 2) e b" and bs: "right_alts x W (p + branch_size b) e bs"
  shows "right_alts x W p e (b # bs)"
  unfolding right_alts_def
proof (intro allI impI)
  fix I l R
  let ?p = "p + branch_size b"
  assume h: "0 < p" "p + len_alts (b # bs) \<le> e" "ok_alts l (b # bs)"
    "\<forall>P \<in> I. has_code P p (code_alts p e (b # bs)) \<and> e < length P \<and> P ! e \<noteq> BRANCH"
    "behaves x W (upd I (cells_alts p (b # bs))) e R"
  note code = code_branch [OF _ h(2)]
  have cells: "cells_alts p (b # bs) = cells_seq (p + 2) b \<union> cells_alts ?p bs" by (simp add: branch_size_def)
  have siz: "len_alts (b # bs) = branch_size b + len_alts bs" by (simp add: branch_size_def)
  have "behaves x W (upd I (cells_seq (p + 2) b)) e R" "behaves x W (upd I (cells_alts ?p bs)) e R"
    using h(5) unfolding cells by (auto elim!: behaves_mono intro!: upd_mono)
  note e = this
  have body: "behaves x W I (p + 2) (sem_seq x b O R)"
  proof (cases "b = []")
    case True
    have "behaves x W I e R" using behaves_mono [OF h(5) upd_subset] .
    moreover have "node_at P (p + 2) NOTHING e" if "P \<in> I" for P
      using code(2) [of P] h(2,4) that True by (intro node_at_code [of _ _ _ _ "[]"]) (auto simp: op_defs)
    ultimately have "behaves x W I (p + 2) R" by (intro behaves_body [of "p + 2" x I e]) (auto simp: states_def)
    then show ?thesis using True by simp
  next
    case False
    have "p + 2 + len_seq b \<le> e" using h(2) False by simp
    then show ?thesis using b [OF False] h e(1) code(2) False unfolding right_seq_def by auto
  qed
  have rest: "branching x W I (length bs) ?p (sem_alts x bs O R)" if "bs \<noteq> []"
    using bs h e(2) code(3) siz that unfolding right_alts_def by auto
  have "behaves x W I p (sem_seq x b O R \<union> sem_alts x bs O R)"
      "branching x W I (length (b # bs)) p (sem_seq x b O R \<union> sem_alts x bs O R)"
    using behaves_branches [OF h(1,2) _ body rest] h(4) by auto
  then show "behaves x W I p (sem_alts x (b # bs) O R) \<and>
      branching x W I (length (b # bs)) p (sem_alts x (b # bs) O R)"
    by (simp add: relcomp_distrib2)
qed

theorem right:
  "right_atom x W p q a" "right_piece x W p q y" "right_seq x W p q ys" "right_alts x W p q bs"
proof (induction p q a and p q y and p q ys and p q bs rule: code_atom_code_piece_code_seq_code_alts.induct)
  case (5 p q a)
  then show ?case by (simp add: right_atom_def right_piece_def)
next
  case (7 p q)
  then show ?case by (simp add: right_seq_def)
next
  case (9 p e)
  then show ?case by (simp add: right_alts_def)
next
  case (10 p e b bs)
  then show ?case by (intro right_alts_Cons) (simp_all add: branch_size_def)
qed (simp_all add: right_plain right_group right_many right_seq_Cons)

section \<open>A whole program\<close>

text \<open>The programs of a tree: its layout with any counts.\<close>

definition programs :: "piece list list \<Rightarrow> int list set" where
  "programs bs = upd {layout bs} (cells_alts 1 bs)"

lemma layout_code:
  "has_code (layout bs) 1 (code_alts 1 (1 + len_alts bs) bs)" "has_code (layout bs) (1 + len_alts bs) [OP_END, 0]"
  "1 + len_alts bs < length (layout bs)"
proof -
  have "has_code (layout bs) 0 ([REG_MAGIC] @ code_alts 1 (1 + len_alts bs) bs @ [OP_END, 0])"
    by (simp add: has_code_def layout_def)
  then show "has_code (layout bs) 1 (code_alts 1 (1 + len_alts bs) bs)"
      "has_code (layout bs) (1 + len_alts bs) [OP_END, 0]"
    unfolding has_code_append by auto
  show "1 + len_alts bs < length (layout bs)" by (simp add: length_layout)
qed

lemma programs_end:
  assumes "P \<in> programs bs"
  shows "has_code P (1 + len_alts bs) [OP_END, 0]"
  using assms unfolding programs_def
proof (rule upd_code)
  show "cells_alts 1 bs \<inter> {1 + len_alts bs..<1 + len_alts bs + length [OP_END, 0]} = {}"
    using cells_range(4) [of _ 1 bs] by force
qed (use layout_code(2) in simp)

theorem regmatch_layout:
  assumes "bs \<noteq> []" "ok_alts l bs"
  shows "behaves x (programs bs) {layout bs} 1 (sem_alts x bs)"
proof -
  let ?e = "1 + len_alts bs"
  have "node_at P ?e OP_END 0" if "P \<in> programs bs" for P
    using programs_end [OF that] by (intro node_at_code [where ws = "[]"]) (auto simp: dist_def op_defs)
  then have "behaves x (programs bs) (programs bs) ?e Id"
    by (intro behaves_end [of ?e _ _ 0]) (auto simp: states_def)
  moreover have "right_alts x (programs bs) 1 ?e bs" by (rule right)
  moreover have "layout bs ! ?e \<noteq> BRANCH" using layout_code(2) [of bs] by (simp add: has_code_Cons op_defs)
  ultimately have "behaves x (programs bs) {layout bs} 1 (sem_alts x bs O Id)"
    using layout_code(1,3) [of bs] assms
    by (intro right_altsD [where e = ?e and l = l]) (simp_all add: programs_def)
  then show ?thesis by simp
qed

end
