(* ===== verification/Jim_Search.thy ===== *)
theory Jim_Search
  imports Jim_Match
begin

unbundle bit_operations_syntax

text \<open>
  The search of \<^verbatim>\<open>jim_regexec\<close>: the counts are cleared, the shortcuts of the compiler lose no match,
  and the first position from which the tree matches is found.
\<close>

section \<open>The counts\<close>

definition wipe :: "nat set \<Rightarrow> int list \<Rightarrow> int list" where
  "wipe A P = map (\<lambda>a. if a \<in> A then 0 else P ! a) [0..<length P]"

lemma length_wipe [simp]: "length (wipe A P) = length P"
  by (simp add: wipe_def)

lemma nth_wipe [simp]: "a < length P \<Longrightarrow> wipe A P ! a = (if a \<in> A then 0 else P ! a)"
  by (simp add: wipe_def)

lemma wipe_empty [simp]: "wipe {} P = P"
  by (simp add: wipe_def map_nth)

lemma wipe_wipe [simp]: "wipe A (wipe B P) = wipe (A \<union> B) P"
  by (intro nth_equalityI) auto

lemma wipe_insert: "wipe {a} P = P[a := 0]"
  by (intro nth_equalityI) (auto simp: nth_list_update)

lemma wipe_outside:
  assumes "has_code (wipe A P) p ws" "B \<subseteq> A" "(A - B) \<inter> {p..<p + length ws} = {}"
  shows "has_code (wipe B P) p ws"
  using assms(1)
proof (rule has_code_frame)
  fix a assume a: "p \<le> a" "a < p + length ws"
  then have "a < length P" using assms(1) by (simp add: has_code_def)
  then show "wipe B P ! a = wipe A P ! a" using a assms(2,3) by auto
qed simp

text \<open>The number of nodes of a part.\<close>

fun nodes_atom :: "atom \<Rightarrow> nat" and nodes_piece :: "piece \<Rightarrow> nat"
  and nodes_seq :: "piece list \<Rightarrow> nat" and nodes_alts :: "piece list list \<Rightarrow> nat" where
  "nodes_atom (Group no bs) = nodes_alts bs + 2"
| "nodes_atom a = 1"
| "nodes_piece (One a) = nodes_atom a"
| "nodes_piece (Many lazy mn mx a) = (if is_simple a then nodes_atom a + 1 else nodes_atom a + 2)"
| "nodes_seq [] = 0"
| "nodes_seq (y # ys) = nodes_piece y + nodes_seq ys"
| "nodes_alts [] = 0"
| "nodes_alts (b # bs) = (if b = [] then 2 else nodes_seq b + 1) + nodes_alts bs"

lemma nodes_len:
  "nodes_atom a \<le> len_atom a" "nodes_piece y \<le> len_piece y" "nodes_seq ys \<le> len_seq ys" "nodes_alts bs \<le> len_alts bs"
  by (induction a and y and ys and bs rule: nodes_atom_nodes_piece_nodes_seq_nodes_alts.induct) auto

definition clears :: "nat set \<Rightarrow> nat \<Rightarrow> nat \<Rightarrow> nat \<Rightarrow> int list \<Rightarrow> bool" where
  "clears A p n len P \<longleftrightarrow> (\<forall>k. clear_counts (k + n) P p = clear_counts k (wipe A P) (p + len))"

lemma clears_append:
  "clears A p n l P \<Longrightarrow> clears B (p + l) n' l' (wipe A P) \<Longrightarrow> clears (A \<union> B) p (n + n') (l + l') P"
proof -
  assume a: "clears A p n l P" "clears B (p + l) n' l' (wipe A P)"
  have "clear_counts (k + (n + n')) P p = clear_counts k (wipe (A \<union> B) P) (p + (l + l'))" for k
  proof -
    have "clear_counts (k + (n + n')) P p = clear_counts (k + n' + n) P p" by (simp add: ac_simps)
    also have "\<dots> = clear_counts (k + n') (wipe A P) (p + l)" using a(1) by (simp add: clears_def)
    also have "\<dots> = clear_counts k (wipe (A \<union> B) P) (p + (l + l'))"
      using a(2) by (simp add: clears_def add.assoc Un_commute)
    finally show ?thesis .
  qed
  then show ?thesis by (simp add: clears_def)
qed

lemma clears_node:
  assumes "p < length P" "P ! p = oper" "oper \<notin> {OP_END, REP, REPMIN, REPX, REPXMIN, ANYOF, ANYBUT, EXACTLY}"
  shows "clears {} p 1 2 P"
  using assms by (auto simp: clears_def word_at_def regopsize_def)

lemma clears_leaf:
  assumes "ok_atom l (Node oper)" "has_code P p [oper, d]"
  shows "clears {} p (Suc 0) 2 P"
  using assms clears_node [of p P oper] by (auto simp: has_code_Cons op_defs)

lemma clears_words:
  assumes "has_code P p (oper # d # ws @ [0])" "0 \<notin> set ws" "oper \<in> {ANYOF, ANYBUT, EXACTLY}"
  shows "clears {} p 1 (length ws + 3) P"
proof -
  have "operand_words P (p + 2) = Ret ws" using assms(1,2) by (intro operand_words_code) (auto simp: has_code_Cons)
  then have "regopsize P p = Ret (length ws + 3)"
    using assms(1,3) by (auto simp: regopsize_def has_code_Cons word_at_def op_defs)
  then show ?thesis using assms(1,3) by (auto simp: clears_def has_code_Cons word_at_def op_defs)
qed

lemma clears_rep:
  assumes "p + 4 < length P" "P ! p = oper"
  shows "oper \<in> {REP, REPMIN} \<Longrightarrow> clears {} p 1 5 P" "oper \<in> {REPX, REPXMIN} \<Longrightarrow> clears {p + 4} p 1 5 P"
  using assms by (auto simp: clears_def word_at_def regopsize_def op_defs wipe_insert)

lemma code_unwiped:
  "has_code (wipe A P) p ws \<Longrightarrow> A \<inter> {p..<p + length ws} = {} \<Longrightarrow> has_code P p ws"
  using wipe_outside [of A P p ws "{}"] by simp

lemma clears_simple:
  assumes "ok_atom l a" "has_code P p (code_atom p q a)" "is_simple a"
  shows "clears {} p 1 (len_atom a) P"
proof (cases a)
  case (Node oper)
  then show ?thesis using assms clears_leaf [of l oper P p "dist p q"] by auto
next
  case (Set but ws)
  then show ?thesis using assms clears_words [of P p _ _ ws] by auto
next
  case (Exact ws)
  then show ?thesis using assms clears_words [of P p _ _ ws] by auto
qed (use assms in auto)

lemma clears_tree:
  "ok_atom l a \<Longrightarrow> has_code (wipe (cells_atom p a) P) p (code_atom p q a) \<Longrightarrow>
     clears (cells_atom p a) p (nodes_atom a) (len_atom a) P"
  "ok_piece l y \<Longrightarrow> has_code (wipe (cells_piece p y) P) p (code_piece p q y) \<Longrightarrow>
     clears (cells_piece p y) p (nodes_piece y) (len_piece y) P"
  "ok_seq l ys \<Longrightarrow> has_code (wipe (cells_seq p ys) P) p (code_seq p q ys) \<Longrightarrow>
     clears (cells_seq p ys) p (nodes_seq ys) (len_seq ys) P"
  "ok_alts l bs \<Longrightarrow> has_code (wipe (cells_alts p bs) P) p (code_alts p q bs) \<Longrightarrow>
     clears (cells_alts p bs) p (nodes_alts bs) (len_alts bs) P"
proof (induction p q a and p q y and p q ys and p q bs arbitrary: l P and l P and l P and l P
    rule: code_atom_code_piece_code_seq_code_alts.induct)
  case (1 p q oper)
  then show ?case using clears_leaf [of l oper P p "dist p q"] by auto
next
  case (2 p q but ws)
  then show ?case using clears_words [of P p _ _ ws] by auto
next
  case (3 p q ws)
  then show ?case using clears_words [of P p _ _ ws] by auto
next
  case (4 p q no bs)
  let ?A = "cells_alts (p + 2) bs" and ?e = "p + 2 + len_alts bs"
  have r: "z \<in> ?A \<Longrightarrow> p + 2 \<le> z \<and> z < ?e" for z using cells_range(4) [of z "p + 2" bs] by simp
  have c: "has_code (wipe ?A P) p [OPEN + no, 2]" "has_code (wipe ?A P) (p + 2) (code_alts (p + 2) ?e bs)"
      "has_code (wipe ?A P) ?e [CLOSE + no, dist ?e q]"
    using 4(3) by (auto simp: has_code_append has_code_Cons eval_nat_numeral)
  have no: "OPEN + no \<ge> 1000" "CLOSE + no \<ge> 1000" using 4(2) by (auto simp: op_defs)
  have "has_code P p [OPEN + no, 2]" using c(1) by (rule code_unwiped) (use r in force)
  then have "clears {} p 1 2 P" using no(1) by (intro clears_node) (auto simp: has_code_Cons op_defs)
  moreover have "clears ?A (p + 2) (nodes_alts bs) (len_alts bs) P"
    using 4(1) [of l P] 4(2) c(2) by simp
  moreover have "clears {} ?e 1 2 (wipe ?A P)"
    using no(2) c(3) by (intro clears_node) (auto simp: has_code_Cons op_defs)
  ultimately have "clears ({} \<union> (?A \<union> {})) p (1 + (nodes_alts bs + 1)) (2 + (len_alts bs + 2)) P"
    by (intro clears_append) simp_all
  then show ?case by (simp add: ac_simps eval_nat_numeral)
next
  case (5 p q a)
  then show ?case by simp
next
  case (6 p q lazy mn mx a)
  show ?case
  proof (cases "is_simple a")
    case True
    have "has_code P p ([if lazy then REPMIN else REP, dist p q, mx, mn, 0] @ code_atom (p + 5) 0 a)"
      using 6(4) True by simp
    then have c: "p + 4 < length P" "P ! p = (if lazy then REPMIN else REP)" "has_code P (p + 5) (code_atom (p + 5) 0 a)"
      by (auto simp: has_code_append has_code_Cons eval_nat_numeral)
    have "clears {} p 1 5 P" using c by (intro clears_rep(1)) auto
    moreover have "clears {} (p + 5) 1 (len_atom a) P" using 6(3) True c(3) by (intro clears_simple) auto
    ultimately have "clears ({} \<union> {}) p (1 + 1) (5 + len_atom a) P" by (intro clears_append) simp_all
    moreover have "nodes_atom a = 1" using True by (cases a) auto
    ultimately show ?thesis using True by (simp add: ac_simps)
  next
    case False
    let ?b = "p + 5 + len_atom a" and ?A = "cells_atom (p + 5) a"
    let ?B = "insert (p + 4) ?A"
    have r: "z \<in> ?A \<Longrightarrow> p + 5 \<le> z \<and> z < ?b" for z using cells_range(1) [of z "p + 5" a] by simp
    have "has_code (wipe ?B P) p ([REPX, dist p q, mx, mn, 0] @ code_atom (p + 5) ?b a @ [BACK, int (5 + len_atom a)])"
      using 6(3,4) False by simp
    then have c: "p + 4 < length P" "wipe ?B P ! p = REPX" "has_code (wipe ?B P) (p + 5) (code_atom (p + 5) ?b a)"
        "has_code (wipe ?B P) ?b [BACK, int (5 + len_atom a)]"
      by (auto simp: has_code_append has_code_Cons eval_nat_numeral)
    have "P ! p = REPX" using c(1,2) r [of p] by (simp split: if_splits)
    then have "clears {p + 4} p 1 5 P" using c(1) by (intro clears_rep(2)) auto
    moreover have "clears ?A (p + 5) (nodes_atom a) (len_atom a) (wipe {p + 4} P)"
      using 6(2) [OF False, of False "wipe {p + 4} P"] 6(3) c(3) False by (simp add: insert_commute)
    moreover have "clears {} ?b 1 2 (wipe ?A (wipe {p + 4} P))"
      using c(4) by (intro clears_node) (auto simp: has_code_Cons op_defs)
    ultimately have "clears ({p + 4} \<union> (?A \<union> {})) p (1 + (nodes_atom a + 1)) (5 + (len_atom a + 2)) P"
      by (intro clears_append) simp_all
    then show ?thesis using False by (simp add: ac_simps)
  qed
next
  case (7 p q)
  then show ?case by (simp add: clears_def)
next
  case (8 p q y ys)
  let ?A = "cells_piece p y" and ?p = "p + len_piece y"
  let ?B = "cells_seq ?p ys"
  have r: "z \<in> ?A \<Longrightarrow> p \<le> z \<and> z < ?p" "z \<in> ?B \<Longrightarrow> ?p \<le> z" for z
    using cells_range(2) [of z p y] cells_range(3) [of z ?p ys] by auto
  have c: "has_code (wipe (?A \<union> ?B) P) p (code_piece p (if ys = [] then q else ?p) y)"
      "has_code (wipe (?A \<union> ?B) P) ?p (code_seq ?p q ys)"
    using 8(4) by (auto simp: has_code_append)
  have "has_code (wipe ?A P) p (code_piece p (if ys = [] then q else ?p) y)"
    using c(1) by (rule wipe_outside) (use r in force)+
  then have "clears ?A p (nodes_piece y) (len_piece y) P" using 8(1) [of l P] 8(3) by simp
  moreover have "clears ?B ?p (nodes_seq ys) (len_seq ys) (wipe ?A P)"
    using 8(2) [of l "wipe ?A P"] 8(3) c(2) by (simp add: Un_commute)
  ultimately show ?case using clears_append by simp
next
  case (9 p e)
  then show ?case by (simp add: clears_def)
next
  case (10 p e b bs)
  let ?A = "cells_seq (p + 2) b" and ?p = "p + branch_size b"
  let ?B = "cells_alts ?p bs"
  have r: "z \<in> ?A \<Longrightarrow> p + 2 \<le> z \<and> z < ?p" "z \<in> ?B \<Longrightarrow> ?p \<le> z" for z
    using cells_range(3) [of z "p + 2" b] cells_range(4) [of z ?p bs]
    by (auto simp: branch_size_def split: if_splits)
  have c: "has_code (wipe (?A \<union> ?B) P) p
      [BRANCH, if bs = [] then dist p e else int (if b = [] then 4 else len_seq b + 2)]"
      "has_code (wipe (?A \<union> ?B) P) (p + 2) (if b = [] then [NOTHING, dist (p + 2) e] else code_seq (p + 2) e b)"
      "has_code (wipe (?A \<union> ?B) P) ?p (code_alts ?p e bs)"
    using 10(4) by (auto simp: has_code_Cons has_code_append branch_size_def eval_nat_numeral split: if_splits)
  have siz: "2 \<le> branch_size b" by (simp add: branch_size_def)
  have "has_code P p [BRANCH, if bs = [] then dist p e else int (if b = [] then 4 else len_seq b + 2)]"
    using c(1) by (rule code_unwiped) (use r siz in force)
  then have "clears {} p 1 2 P" by (intro clears_node) (auto simp: has_code_Cons op_defs)
  moreover have "clears ?A (p + 2) (if b = [] then 1 else nodes_seq b) (branch_size b - 2) P"
  proof (cases "b = []")
    case True
    have "has_code P (p + 2) (if b = [] then [NOTHING, dist (p + 2) e] else code_seq (p + 2) e b)"
      using c(2) by (rule code_unwiped) (use r True in \<open>force simp: branch_size_def\<close>)
    then have "clears {} (p + 2) 1 2 P" using True by (intro clears_node) (auto simp: has_code_Cons op_defs)
    then show ?thesis using True by (simp add: branch_size_def)
  next
    case False
    have "has_code (wipe ?A P) (p + 2) (if b = [] then [NOTHING, dist (p + 2) e] else code_seq (p + 2) e b)"
      using c(2) by (rule wipe_outside) (use r False in \<open>force simp: branch_size_def\<close>)+
    then show ?thesis using 10(1) [of l P] 10(3) False by (simp add: branch_size_def)
  qed
  moreover have "clears ?B ?p (nodes_alts bs) (len_alts bs) (wipe ?A P)"
    using 10(2) [of l "wipe ?A P"] 10(3) c(3) by (simp add: branch_size_def Un_commute)
  ultimately have "clears ({} \<union> (?A \<union> ?B)) p (1 + ((if b = [] then 1 else nodes_seq b) + nodes_alts bs))
      (2 + (branch_size b - 2 + len_alts bs)) P"
    using siz by (intro clears_append) (simp_all del: add_2_eq_Suc add_2_eq_Suc')
  then show ?case by (auto simp: branch_size_def eval_nat_numeral split: if_splits)
qed

text \<open>The counts of a program of the tree are cleared.\<close>

lemma cells_zero:
  "has_code P p (code_atom p q a) \<Longrightarrow> z \<in> cells_atom p a \<Longrightarrow> P ! z = 0"
  "has_code P p (code_piece p q y) \<Longrightarrow> z \<in> cells_piece p y \<Longrightarrow> P ! z = 0"
  "has_code P p (code_seq p q ys) \<Longrightarrow> z \<in> cells_seq p ys \<Longrightarrow> P ! z = 0"
  "has_code P p (code_alts p q bs) \<Longrightarrow> z \<in> cells_alts p bs \<Longrightarrow> P ! z = 0"
  by (induction p q a and p q y and p q ys and p q bs rule: code_atom_code_piece_code_seq_code_alts.induct)
    (auto simp: has_code_append has_code_Cons eval_nat_numeral split: if_splits)

lemma layout_wipe: "P \<in> programs bs \<Longrightarrow> wipe (cells_alts 1 bs) P = layout bs"
  using cells_zero(4) [OF layout_code(1)] by (intro nth_equalityI) (auto simp: programs_def upd_def)

lemma clear_counts_layout:
  assumes "P \<in> programs bs" "ok_alts l bs" "bs \<noteq> []"
  shows "clear_counts (length P) P 3 = Ret (layout bs)"
proof -
  let ?W = "wipe (cells_alts 1 bs) P"
  have len: "length P = len_alts bs + 3" using assms(1) by (auto simp: programs_def upd_def length_layout)
  have W: "?W = layout bs" using assms(1) by (rule layout_wipe)
  have c: "has_code ?W 1 (code_alts 1 (1 + len_alts bs) bs)" using layout_code(1) by (simp only: W)
  then have "clears (cells_alts 1 bs) 1 (nodes_alts bs) (len_alts bs) P" using assms(2) clears_tree(4) by blast
  then have all: "clear_counts (k + nodes_alts bs) P 1 = clear_counts k ?W (1 + len_alts bs)" for k
    by (simp add: clears_def)
  have last: "clear_counts (Suc k) ?W (1 + len_alts bs) = Ret ?W" for k
    using layout_code(2,3) [of bs] W by (simp add: has_code_Cons word_at_def)
  obtain b bs' where bs: "bs = b # bs'" using assms(3) by (cases bs) auto
  have "1 \<notin> cells_alts 1 bs" using bs by (auto dest!: cells_range split: if_splits)
  then have "P ! 1 = BRANCH" using c bs len by (simp add: has_code_Cons)
  then have first: "clear_counts (Suc k) P 1 = clear_counts k P 3" for k
    using len by (simp add: word_at_def regopsize_def op_defs)
  have "nodes_alts bs \<le> len_alts bs" by (rule nodes_len)
  then obtain k where "Suc (length P) = Suc k + nodes_alts bs"
    using len by (metis add.commute add_Suc_right le_add_diff_inverse le_add1 le_trans add_Suc)
  then have "clear_counts (length P) P 3 = clear_counts (Suc k + nodes_alts bs) P 1" using first by metis
  also have "\<dots> = Ret ?W" by (simp only: all last)
  finally show ?thesis by (simp only: W)
qed

section \<open>One position\<close>

text \<open>The outcome of a search from \<open>i\<close> on for the relation \<open>A\<close>: the first position it matches from.\<close>

definition first_match :: "(nat \<times> nat) set \<Rightarrow> nat \<Rightarrow> nat \<Rightarrow> nat \<times> nat \<Rightarrow> bool" where
  "first_match A lo hi be \<longleftrightarrow> be \<in> A \<and> lo \<le> fst be \<and> fst be \<le> hi \<and> (\<forall>j. lo \<le> j \<longrightarrow> j < fst be \<longrightarrow> j \<notin> Domain A)"

definition no_match :: "(nat \<times> nat) set \<Rightarrow> nat \<Rightarrow> nat \<Rightarrow> bool" where
  "no_match A lo hi \<longleftrightarrow> (\<forall>j. lo \<le> j \<longrightarrow> j \<le> hi \<longrightarrow> j \<notin> Domain A)"

definition searched :: "int list set \<Rightarrow> (nat \<times> nat) set \<Rightarrow> nat \<Rightarrow> nat \<Rightarrow> nat \<Rightarrow> (bool \<times> rm) run \<Rightarrow> bool" where
  "searched W A lo hi n res \<longleftrightarrow> (\<exists>b m. res = Ret (b, m) \<and> rm_prog m \<in> W \<and> length (rm_match m) = n \<and>
     (if b then \<exists>i e. first_match A lo hi (i, e) \<and> rm_match m ! 0 = (int i, int e) else no_match A lo hi))"

text \<open>Enough fuel for a try at any position.\<close>

definition tries :: "nat \<Rightarrow> rx \<Rightarrow> int list set \<Rightarrow> int list \<Rightarrow> (nat \<times> nat) set \<Rightarrow> bool" where
  "tries k x W P A \<longleftrightarrow> (\<forall>i m. i \<le> length (x_str x) \<longrightarrow> rm_prog m = P \<longrightarrow> rm_match m \<noteq> [] \<longrightarrow>
     (\<exists>m'. length (rm_match m') = length (rm_match m) \<and>
        (if i \<in> Domain A then regtry k x i m = Ret (True, m') \<and> rm_prog m' \<in> W \<and>
           (\<exists>e. (i, e) \<in> A \<and> rm_match m' ! 0 = (int i, int e))
         else regtry k x i m = Ret (False, m') \<and> rm_prog m' = P)))"

lemma tries_eventually:
  assumes "behaves x W {P} 1 A"
  shows "\<forall>\<^sub>F k in sequentially. tries k x W P A"
proof -
  have "\<forall>\<^sub>F k in sequentially. \<forall>m \<in> states x {P}. keeps W A m (regmatch k x 1 m)"
    using assms by (simp add: behaves_def)
  then show ?thesis
  proof eventually_elim
    case (elim k)
    show ?case unfolding tries_def
    proof (intro allI impI)
      fix i and m :: rm assume h: "i \<le> length (x_str x)" "rm_prog m = P" "rm_match m \<noteq> []"
      let ?m = "m\<lparr>rm_in := i, rm_match := map (\<lambda>_. (- 1, - 1)) (rm_match m)\<rparr>"
      have "keeps W A ?m (regmatch k x 1 ?m)" using elim h by (simp add: states_def)
      then show "\<exists>m'. length (rm_match m') = length (rm_match m) \<and>
        (if i \<in> Domain A then regtry k x i m = Ret (True, m') \<and> rm_prog m' \<in> W \<and>
           (\<exists>e. (i, e) \<in> A \<and> rm_match m' ! 0 = (int i, int e))
         else regtry k x i m = Ret (False, m') \<and> rm_prog m' = P)"
      proof (cases rule: keepsE)
        case (fail m')
        then show ?thesis using h by (intro exI [of _ m']) (simp add: regtry_def)
      next
        case (match r m')
        have "rm_match m' \<noteq> []" using match(3) h(3) by auto
        moreover have "i \<in> Domain A" "(i, rm_in m') \<in> A" using match(5) by auto
        ultimately show ?thesis using match h
          by (intro exI [of _ "m'\<lparr>rm_match := (rm_match m')[0 := (int i, int (rm_in m'))]\<rparr>"])
            (auto simp: regtry_def)
      qed
    qed
  qed
qed

lemma triesD:
  assumes "tries k x W P A" "i \<le> length (x_str x)" "rm_prog m = P" "rm_match m \<noteq> []"
  obtains (hit) m' e where "regtry k x i m = Ret (True, m')" "length (rm_match m') = length (rm_match m)"
      "rm_prog m' \<in> W" "(i, e) \<in> A" "rm_match m' ! 0 = (int i, int e)"
    | (miss) m' where "regtry k x i m = Ret (False, m')" "length (rm_match m') = length (rm_match m)"
      "rm_prog m' = P" "i \<notin> Domain A"
  using assms unfolding tries_def by (metis (no_types, opaque_lifting))

section \<open>The searches\<close>

lemma searched_skip:
  assumes "searched W A j hi n res" "\<And>i'. i \<le> i' \<Longrightarrow> i' < j \<Longrightarrow> i' \<notin> Domain A" "i \<le> j"
  shows "searched W A i hi n res"
proof -
  have "i \<le> i' \<Longrightarrow> i' < j \<or> j \<le> i'" for i' by auto
  then have "first_match A j hi be \<Longrightarrow> first_match A i hi be" "no_match A j hi \<Longrightarrow> no_match A i hi" for be
    using assms(2,3) by (auto simp: first_match_def no_match_def)
  note skip = this
  obtain b m where bm: "res = Ret (b, m)" "rm_prog m \<in> W" "length (rm_match m) = n"
      "if b then \<exists>i e. first_match A j hi (i, e) \<and> rm_match m ! 0 = (int i, int e) else no_match A j hi"
    using assms(1) by (auto simp: searched_def)
  then have "if b then \<exists>i' e. first_match A i hi (i', e) \<and> rm_match m ! 0 = (int i', int e) else no_match A i hi"
    using skip by (cases b) auto
  with bm(1-3) show ?thesis unfolding searched_def by blast
qed

lemma of_char_0: "(of_char c :: int) = 0 \<longleftrightarrow> c = CHR 0x00"
proof -
  have "(of_char (CHR 0x00) :: int) = 0" by simp
  then show ?thesis by (metis of_char_eq_iff)
qed

lemma char_at_end: "CHR 0x00 \<notin> set s \<Longrightarrow> i \<le> length s \<Longrightarrow> char_at s i = 0 \<longleftrightarrow> i = length s"
  using nth_mem [of i s] by (auto simp: char_at_def of_char_0 simp del: nth_mem)

lemma search_all_searched:
  assumes t: "tries k x W P A" and "CHR 0x00 \<notin> set (x_str x)" "P \<in> W"
    and "i \<le> length (x_str x)" "length (x_str x) - i < n" "rm_prog m = P" "rm_match m \<noteq> []"
  shows "searched W A i (length (x_str x)) (length (rm_match m)) (search_all n k x i m)"
  using assms(4-)
proof (induction n arbitrary: i m)
  case (Suc n)
  from t Suc.prems(1,3,4) show ?case
  proof (cases rule: triesD)
    case (hit m' e)
    then show ?thesis using Suc.prems by (auto simp: searched_def first_match_def)
  next
    case (miss m')
    show ?thesis
    proof (cases "i = length (x_str x)")
      case True
      then show ?thesis using miss assms(2,3) by (auto simp: searched_def no_match_def char_at_end)
    next
      case False
      moreover have "rm_match m' \<noteq> []" using miss(2) Suc.prems(4) by auto
      ultimately have "searched W A (Suc i) (length (x_str x)) (length (rm_match m)) (search_all n k x (Suc i) m')"
        using Suc.IH [of "Suc i" m'] Suc.prems miss by auto
      moreover have "search_all (Suc n) k x i m = search_all n k x (Suc i) m'"
        using miss(1) False Suc.prems assms(2) by (simp add: char_at_end)
      moreover have "i' = i" if "i \<le> i'" "i' < Suc i" for i' using that by simp
      ultimately show ?thesis using miss(4) searched_skip [of W A "Suc i"] by (metis le_SucI le_refl)
    qed
  qed
qed simp

lemma str_find_None: "str_find cf s i c = None \<Longrightarrow> i \<le> j \<Longrightarrow> j < length s \<Longrightarrow>
    char_case cf (of_char (s ! j)) \<noteq> char_case cf c"
  and str_find_Some: "str_find cf s i c = Some l \<Longrightarrow> i \<le> l \<and> l < length s \<and>
    (\<forall>j. i \<le> j \<longrightarrow> j < l \<longrightarrow> char_case cf (of_char (s ! j)) \<noteq> char_case cf c)"
proof -
  let ?t = "\<lambda>d. char_case cf (of_char d :: int) \<noteq> char_case cf c"
  let ?n = "length (takeWhile ?t (drop i s))"
  have before: "?t (s ! j)" if "i \<le> j" "j < i + ?n" for j
  proof -
    have "takeWhile ?t (drop i s) ! (j - i) \<in> set (takeWhile ?t (drop i s))" using that by (intro nth_mem) simp
    then have "?t (takeWhile ?t (drop i s) ! (j - i))" by (auto dest: set_takeWhileD)
    moreover have "takeWhile ?t (drop i s) ! (j - i) = s ! j"
      using that length_takeWhile_le [of ?t "drop i s"] by (simp add: takeWhile_nth)
    ultimately show ?thesis by simp
  qed
  have "?n \<le> length s - i" using length_takeWhile_le [of ?t "drop i s"] by simp
  then show "str_find cf s i c = None \<Longrightarrow> i \<le> j \<Longrightarrow> j < length s \<Longrightarrow> ?t (s ! j)" for j
    using before [of j] by (auto simp: str_find_def Let_def split: if_splits)
  show "str_find cf s i c = Some l \<Longrightarrow> i \<le> l \<and> l < length s \<and> (\<forall>j. i \<le> j \<longrightarrow> j < l \<longrightarrow> ?t (s ! j))"
    using before by (auto simp: str_find_def Let_def split: if_splits)
qed

lemma search_char_searched:
  assumes t: "tries k x W P A" and "P \<in> W"
    and c: "\<And>j. j \<in> Domain A \<Longrightarrow> j < length (x_str x) \<and>
      char_case (x_cf x) (of_char (x_str x ! j)) = char_case (x_cf x) c"
    and "length (x_str x) - i < n" "rm_prog m = P" "rm_match m \<noteq> []"
  shows "searched W A i (length (x_str x)) (length (rm_match m)) (search_char n k x c i m)"
  using assms(4-)
proof (induction n arbitrary: i m)
  case (Suc n)
  show ?case
  proof (cases "str_find (x_cf x) (x_str x) i c")
    case None
    then have "no_match A i (length (x_str x))" using str_find_None c unfolding no_match_def by blast
    then show ?thesis using None Suc.prems assms(2) by (auto simp: searched_def)
  next
    case (Some l)
    note l = str_find_Some [OF Some]
    have before: "i' \<notin> Domain A" if "i \<le> i'" "i' < l" for i' using l c that by blast
    have "l \<le> length (x_str x)" using l by simp
    from t this Suc.prems(2,3) show ?thesis
    proof (cases rule: triesD)
      case (hit m' e)
      then show ?thesis using Some l before by (auto simp: searched_def first_match_def)
    next
      case (miss m')
      have "rm_match m' \<noteq> []" using miss(2) Suc.prems(3) by auto
      then have s: "searched W A (Suc l) (length (x_str x)) (length (rm_match m)) (search_char n k x c (Suc l) m')"
        using Suc.IH [of "Suc l" m'] Suc.prems miss l by auto
      have "i' \<notin> Domain A" if "i \<le> i'" "i' < Suc l" for i'
        using before [OF that(1)] miss(4) that(2) by (cases "i' = l") auto
      from searched_skip [OF s this] show ?thesis using Some miss(1) l by simp
    qed
  qed
qed simp

lemma search_lines_searched:
  assumes t: "tries k x W P A" and "x_cf x AND REG_NEWLINE = 0" "P \<in> W" "Domain A \<subseteq> {0}"
    and "rm_prog m = P" "rm_match m \<noteq> []"
  shows "searched W A 0 (length (x_str x)) (length (rm_match m)) (search_lines (Suc n) k x False 0 m)"
  using t le0 assms(5,6)
proof (cases rule: triesD)
  case (hit m' e)
  then show ?thesis by (auto simp: searched_def first_match_def)
next
  case (miss m')
  then have "no_match A 0 (length (x_str x))" using assms(4) by (auto simp: no_match_def)
  then show ?thesis using miss assms(2,3) by (auto simp: searched_def)
qed

section \<open>The text that must appear\<close>

lemma text_at_Cons: "text_at x i (w # ws) \<longleftrightarrow>
    i < length (x_str x) \<and> char_case (x_cf x) (of_char (x_str x ! i)) = w \<and> text_at x (Suc i) ws"
  by (cases "i < length (x_str x)") (auto simp: text_at_def Cons_nth_drop_Suc [symmetric])

lemma char_case_idem: "char_case cf (char_case cf c) = char_case cf c"
  by (simp add: char_case_def toupper_def)

lemma must_appear_found:
  assumes "text_at x j ws" "ws \<noteq> []" "i \<le> j" "length (x_str x) - i < n"
  shows "must_appear n (x_cf x) (x_str x) ws i"
  using assms(3,4)
proof (induction n arbitrary: i)
  case (Suc n)
  obtain w ws' where ws: "ws = w # ws'" using assms(2) by (cases ws) auto
  have j: "j < length (x_str x)" "char_case (x_cf x) (of_char (x_str x ! j)) = w"
    using assms(1) by (simp_all add: ws text_at_Cons)
  then have w: "char_case (x_cf x) w = w" by (metis char_case_idem)
  show ?case
  proof (cases "str_find (x_cf x) (x_str x) i w")
    case None
    then show ?thesis using str_find_None [OF None Suc.prems(1) j(1)] j w by simp
  next
    case (Some l)
    note l = str_find_Some [OF Some]
    then have "l \<le> j" using j w Suc.prems(1) by (metis not_le)
    show ?thesis
    proof (cases "l = j")
      case True
      then show ?thesis using Some assms(1) by (simp add: ws prefix_cmp_text text_at_def)
    next
      case False
      then have "must_appear n (x_cf x) (x_str x) ws (Suc l)" using Suc \<open>l \<le> j\<close> l by auto
      then show ?thesis using Some by (simp add: ws)
    qed
  qed
qed simp

lemma text_inside: "One (Exact ws) \<in> set ys \<Longrightarrow> (i, j) \<in> sem_seq x ys \<Longrightarrow> \<exists>l. text_at x l ws"
  by (induction ys arbitrary: i) auto

section \<open>A compiled expression\<close>

text \<open>What the compiler notes of a tree: the anchor, the first character, the text that must appear.\<close>

definition hints :: "piece list list \<Rightarrow> regexp \<Rightarrow> bool" where
  "hints bs re \<longleftrightarrow>
     (re_anch re \<longrightarrow> (\<exists>ys. bs = [One (Node BOL) # ys])) \<and>
     (re_start re \<noteq> 0 \<longrightarrow> (\<exists>ws ys. bs = [One (Exact (re_start re # ws)) # ys])) \<and>
     (re_must re \<noteq> 0 \<longrightarrow> (\<exists>b ws. bs = [b] \<and> One (Exact ws) \<in> set b \<and> ws \<noteq> [] \<and>
        has_code (layout bs) (re_must re) ws \<and> re_mlen re = length ws))"

definition compiled :: "piece list list \<Rightarrow> 32 word \<Rightarrow> regexp \<Rightarrow> bool" where
  "compiled bs cf re \<longleftrightarrow> bs \<noteq> [] \<and> re_cflags re = cf \<and> re_program re \<in> programs bs \<and> hints bs re"

text \<open>The outcome of a search of \<open>s\<close>: the borders of the first match, or that there is none.\<close>

definition outcome :: "(nat \<times> nat) set \<Rightarrow> string \<Rightarrow> exec_result \<Rightarrow> (int \<times> int) list \<Rightarrow> bool" where
  "outcome A s r pm \<longleftrightarrow>
     (if \<exists>i \<le> length s. i \<in> Domain A
      then r = NoError \<and> (\<exists>i e. first_match A 0 (length s) (i, e) \<and> pm ! 0 = (int i, int e))
      else r = NoMatch)"

definition text_of :: "32 word \<Rightarrow> 32 word \<Rightarrow> string \<Rightarrow> rx" where
  "text_of cf ef s = \<lparr>x_cf = cf, x_ef = ef, x_str = s, x_bol = 0\<rparr>"

lemma outcome_searched:
  assumes "searched W A 0 (length s) n res" "n = length pmatch"
  shows "\<exists>b m. res = Ret (b, m) \<and> rm_prog m \<in> W \<and> length (rm_match m) = length pmatch \<and>
    outcome A s (if b then NoError else NoMatch) (rm_match m)"
proof -
  obtain b m where bm: "res = Ret (b, m)" "rm_prog m \<in> W" "length (rm_match m) = length pmatch"
      "if b then \<exists>i e. first_match A 0 (length s) (i, e) \<and> rm_match m ! 0 = (int i, int e)
       else no_match A 0 (length s)"
    using assms unfolding searched_def by blast
  have "outcome A s (if b then NoError else NoMatch) (rm_match m)"
  proof (cases b)
    case True
    then obtain i e where "first_match A 0 (length s) (i, e)" "rm_match m ! 0 = (int i, int e)" using bm(4) by auto
    moreover from this have "\<exists>i \<le> length s. i \<in> Domain A" by (auto simp: first_match_def)
    ultimately show ?thesis using True by (auto simp: outcome_def)
  next
    case False
    then show ?thesis using bm(4) by (auto simp: outcome_def no_match_def)
  qed
  then show ?thesis using bm(1-3) by blast
qed

lemma hints_keep: "hints bs (re\<lparr>re_program := P\<rparr>) = hints bs re"
  by (simp add: hints_def)

lemma programs_magic:
  assumes "P \<in> programs bs"
  shows "P \<noteq> []" "hd P = REG_MAGIC"
proof -
  have "0 \<notin> cells_alts 1 bs" using cells_range(4) [of 0 1 bs] by auto
  then have "length P = length (layout bs)" "P ! 0 = layout bs ! 0"
    using assms by (auto simp: programs_def upd_def layout_def)
  then show "P \<noteq> []" "hd P = REG_MAGIC" by (cases P; auto simp: layout_def)+
qed

theorem jim_regexec_search:
  assumes "compiled bs cf re" "ok_alts l bs" "cf AND REG_NEWLINE = 0" "ef AND REG_NOTBOL = 0"
    and "CHR 0x00 \<notin> set s" "pmatch \<noteq> []"
  shows "\<forall>\<^sub>F k in sequentially. \<exists>r re' pm. jim_regexec k re (Some s) pmatch ef = Ret (r, re', pm) \<and>
    compiled bs cf re' \<and> length pm = length pmatch \<and> outcome (sem_alts (text_of cf ef s) bs) s r pm"
proof -
  let ?x = "text_of cf ef s" and ?P = "layout bs"
  let ?A = "sem_alts ?x bs"
  have bs: "bs \<noteq> []" and cf: "re_cflags re = cf" and P: "re_program re \<in> programs bs" and h: "hints bs re"
    using assms(1) by (auto simp: compiled_def)
  have x: "x_cf ?x = cf" "x_str ?x = s" "x_bol ?x = 0" by (simp_all add: text_of_def)
  have W: "?P \<in> programs bs" using upd_subset by (auto simp: programs_def)
  have "\<forall>\<^sub>F k in sequentially. tries k ?x (programs bs) ?P ?A"
    using regmatch_layout [OF bs assms(2)] by (rule tries_eventually)
  then show ?thesis
  proof eventually_elim
    case (elim k)
    let ?m = "\<lparr>rm_prog = ?P, rm_in = 0, rm_match = pmatch\<rparr>"
    let ?must = "re_must re \<noteq> 0 \<and>
      \<not> must_appear (Suc (length s)) cf s (take (re_mlen re) (drop (re_must re) ?P)) 0"
    let ?res = "if re_anch re then search_lines (Suc (length s)) k ?x False 0 ?m
      else if re_start re \<noteq> 0 then search_char (Suc (length s)) k ?x (re_start re) 0 ?m
      else search_all (Suc (length s)) k ?x 0 ?m"
    note len = programs_magic [OF P]
    have e: "jim_regexec k re (Some s) pmatch ef =
        (if ?must then Ret (NoMatch, re\<lparr>re_program := ?P\<rparr>, pmatch)
         else run_bind ?res (\<lambda>(b, m').
           Ret (if b then NoError else NoMatch, re\<lparr>re_program := rm_prog m'\<rparr>, rm_match m')))"
      using len clear_counts_layout [OF P assms(2) bs] assms(4) cf
      by (simp add: jim_regexec_def text_of_def Let_def)
    show ?case
    proof (cases ?must)
      case True
      then obtain b ws where b: "bs = [b]" "One (Exact ws) \<in> set b" "ws \<noteq> []" "has_code ?P (re_must re) ws"
          "re_mlen re = length ws" using h by (auto simp: hints_def)
      then have "\<not> must_appear (Suc (length s)) cf s ws 0" using True by (simp add: has_code_def)
      then have "\<not> text_at ?x j ws" for j using must_appear_found [of ?x j ws 0 "Suc (length s)"] b(3) x by auto
      then have "(i, j) \<notin> ?A" for i j using text_inside [OF b(2), of i j ?x] b(1) by auto
      then have "?A = {}" by auto
      then have "outcome ?A s NoMatch pmatch" by (simp add: outcome_def)
      then show ?thesis using e True assms(1) W by (auto simp: compiled_def hints_keep)
    next
      case False
      have "searched (programs bs) ?A 0 (length s) (length pmatch) ?res"
      proof (cases "re_anch re")
        case True
        then obtain ys where "bs = [One (Node BOL) # ys]" using h by (auto simp: hints_def)
        then have "Domain ?A \<subseteq> {0}" using x by (auto simp: anchor_holds_def op_defs)
        then show ?thesis
          using search_lines_searched [OF elim _ W, of ?m] True assms(3,6) x by simp
      next
        case False
        show ?thesis
        proof (cases "re_start re = 0")
          case True
          then show ?thesis
            using search_all_searched [OF elim _ W, of 0 "Suc (length s)" ?m] False assms(5,6) x by simp
        next
          case start: False
          then obtain ws ys where b: "bs = [One (Exact (re_start re # ws)) # ys]" using h by (auto simp: hints_def)
          have "j < length (x_str ?x) \<and> char_case (x_cf ?x) (of_char (x_str ?x ! j)) = char_case (x_cf ?x) (re_start re)"
            if "j \<in> Domain ?A" for j
          proof -
            have j: "j < length (x_str ?x)" "char_case (x_cf ?x) (of_char (x_str ?x ! j)) = re_start re"
              using that b by (auto simp: text_at_Cons)
            then show ?thesis using char_case_idem [of "x_cf ?x"] by metis
          qed
          from search_char_searched [OF elim W this, of 0 "Suc (length s)" ?m] show ?thesis
            using False start assms(6) x by simp
        qed
      qed
      from outcome_searched [OF this refl] show ?thesis
        using e False assms(1) by (auto simp: compiled_def hints_keep)
    qed
  qed
qed

end
