(* ===== verification/Jim_Parse.thy ===== *)
theory Jim_Parse
  imports Jim_Search
begin

unbundle bit_operations_syntax

text \<open>
  The grammar of \<^verbatim>\<open>jimregexp.c\<close> as a function from the text to the tree, without a program: the
  reference that the compiler is compared with. A function answers the tree, its flags, the rest of the text
  and the number of groups so far.
\<close>

section \<open>The tree of a text\<close>

type_synonym 'a parsed = "('a \<times> flags \<times> string \<times> nat) comp"

definition tree_exact :: "32 word \<Rightarrow> string \<Rightarrow> nat \<Rightarrow> atom parsed" where
  "tree_exact cf s n =
     (case exact_loop cf [] s of
        Inl e \<Rightarrow> Ret (Inl e)
      | Inr (ws, rest) \<Rightarrow> Ret (Inr (Exact ws, if length ws = 1 then WIDE_SIMPLE else WIDE, rest, n)))"

definition anchor_of :: "char \<Rightarrow> int option" where
  "anchor_of c =
     map_of [(CHR ''A'', BOLX), (CHR ''Z'', EOLX), (CHR ''<'', WORDA), (CHR ''m'', WORDA),
       (CHR ''>'', WORDZ), (CHR ''M'', WORDZ)] c"

definition tree_escape :: "32 word \<Rightarrow> string \<Rightarrow> nat \<Rightarrow> atom parsed" where
  "tree_escape cf s n =
     (case tl s of
        [] \<Rightarrow> Ret (Inl REG_ERR_INVALID_ESCAPE)
      | c # t \<Rightarrow>
          (case anchor_of c of
             Some oper \<Rightarrow> Ret (Inr (Node oper, WORST, t, n))
           | None \<Rightarrow>
               (case escape_class cf c of
                  Some (but, ws) \<Rightarrow> Ret (Inr (Set but ws, WIDE_SIMPLE, t, n))
                | None \<Rightarrow> tree_exact cf s n)))"

text \<open>\<open>grp\<close> parses what is behind an opening parenthesis: the number of the group and its branches.\<close>

type_synonym group_parser = "string \<Rightarrow> nat \<Rightarrow> (int \<times> piece list list) parsed"

definition tree_atom :: "group_parser \<Rightarrow> 32 word \<Rightarrow> string \<Rightarrow> nat \<Rightarrow> atom parsed" where
  "tree_atom grp cf s n =
     (case s of
        [] \<Rightarrow> Ret (Inl REG_ERR_INTERNAL)
      | c # t \<Rightarrow>
          if c = CHR ''^'' then Ret (Inr (Node BOL, WORST, t, n))
          else if c = CHR ''$'' then Ret (Inr (Node EOL, WORST, t, n))
          else if c = CHR ''.'' then Ret (Inr (Node ANY, WIDE_SIMPLE, t, n))
          else if c = CHR ''['' then
            (case set_words cf t of
               Inl e \<Rightarrow> Ret (Inl e)
             | Inr (but, ws, rest) \<Rightarrow> Ret (Inr (Set but ws, WIDE_SIMPLE, rest, n)))
          else if c = CHR ''('' then
            err_bind (grp t n) (\<lambda>((no, bs), fl, rest, n'). Ret (Inr (Group no bs, fl\<lparr>SIMPLE := False\<rparr>, rest, n')))
          else if c = CHR ''|'' \<or> c = CHR '')'' then Ret (Inl REG_ERR_INTERNAL)
          else if c \<in> set ''?+*{'' then Ret (Inl REG_ERR_COUNT_FOLLOWS_NOTHING)
          else if c = backslash then tree_escape cf s n
          else tree_exact cf s n)"

definition tree_count :: "atom \<Rightarrow> flags \<Rightarrow> string \<Rightarrow> nat \<Rightarrow> piece parsed" where
  "tree_count a fl s n =
     (if \<not> is_mult s then Ret (Inr (One a, fl, s, n))
      else if \<not> HASWIDTH fl \<and> hd s \<noteq> CHR ''?'' then Ret (Inl REG_ERR_OPERAND_COULD_BE_EMPTY)
      else case rep_count s of
          Inl e \<Rightarrow> Ret (Inl e)
        | Inr (mn, mx, s1) \<Rightarrow>
            let lazy = starts_with (tl s1) (CHR ''?''); s2 = (if lazy then tl s1 else s1)
            in if is_mult (tl s2) then Ret (Inl REG_ERR_NESTED_COUNT)
               else Ret (Inr (Many lazy mn mx a, if mn \<noteq> 0 then WIDE else WORST\<lparr>SPSTART := True\<rparr>, tl s2, n)))"

definition tree_piece :: "group_parser \<Rightarrow> 32 word \<Rightarrow> string \<Rightarrow> nat \<Rightarrow> piece parsed" where
  "tree_piece grp cf s n = err_bind (tree_atom grp cf s n) (\<lambda>(a, fl, t, n'). tree_count a fl t n')"

fun tree_pieces :: "nat \<Rightarrow> group_parser \<Rightarrow> 32 word \<Rightarrow> piece list \<Rightarrow> flags \<Rightarrow> string \<Rightarrow> nat \<Rightarrow> piece list parsed" where
  "tree_pieces 0 grp cf ys fl s n = Diverge"
| "tree_pieces (Suc k) grp cf ys fl s n =
     (if s = [] \<or> hd s \<in> set '')|'' then Ret (Inr (ys, fl, s, n))
      else err_bind (tree_piece grp cf s n) (\<lambda>(y, fl1, t, n').
        tree_pieces k grp cf (ys @ [y])
          (fl\<lparr>HASWIDTH := HASWIDTH fl \<or> HASWIDTH fl1, SPSTART := SPSTART fl \<or> ys = [] \<and> SPSTART fl1\<rparr>) t n'))"

definition tree_branch :: "group_parser \<Rightarrow> 32 word \<Rightarrow> string \<Rightarrow> nat \<Rightarrow> piece list parsed" where
  "tree_branch grp cf s n = tree_pieces (Suc (length s)) grp cf [] WORST s n"

fun tree_alts :: "nat \<Rightarrow> group_parser \<Rightarrow> 32 word \<Rightarrow> piece list list \<Rightarrow> flags \<Rightarrow> string \<Rightarrow> nat \<Rightarrow> piece list list parsed" where
  "tree_alts 0 grp cf bs fl s n = Diverge"
| "tree_alts (Suc k) grp cf bs fl s n =
     (if \<not> starts_with s (CHR ''|'') then Ret (Inr (bs, fl, s, n))
      else err_bind (tree_branch grp cf (tl s) n) (\<lambda>(b, fl1, t, n').
        tree_alts k grp cf (bs @ [b])
          (fl\<lparr>HASWIDTH := HASWIDTH fl \<and> HASWIDTH fl1, SPSTART := SPSTART fl \<or> SPSTART fl1\<rparr>) t n'))"

definition tree_open :: "bool \<Rightarrow> string \<Rightarrow> nat \<Rightarrow> int \<times> string \<times> nat" where
  "tree_open paren s n =
     (if \<not> paren then (0, s, n) else if strneq s ''?:'' 2 then (- 1, drop 2 s, n) else (int (Suc n), s, Suc n))"

definition tree_end :: "bool \<Rightarrow> string \<Rightarrow> reg_err + string" where
  "tree_end paren s =
     (if paren then (if starts_with s (CHR '')'') then Inr (tl s) else Inl REG_ERR_UNMATCHED_PAREN)
      else if s = [] then Inr s
      else if starts_with s (CHR '')'') then Inl REG_ERR_UNMATCHED_PAREN
      else Inl REG_ERR_JUNK_ON_END)"

text \<open>\<open>k\<close> bounds the nesting of parentheses, as for the compiler.\<close>

fun tree :: "nat \<Rightarrow> 32 word \<Rightarrow> bool \<Rightarrow> group_parser" where
  "tree 0 cf paren s n = Diverge"
| "tree (Suc k) cf paren s n =
     (case tree_open paren s n of (no, s1, n1) \<Rightarrow>
        err_bind (tree_branch (tree k cf True) cf s1 n1) (\<lambda>(b, fl1, s2, n2).
        err_bind (tree_alts (Suc (length s2)) (tree k cf True) cf [b]
            (WORST\<lparr>HASWIDTH := HASWIDTH fl1, SPSTART := SPSTART fl1\<rparr>) s2 n2) (\<lambda>(bs, fl, s3, n3).
          case tree_end paren s3 of Inl e \<Rightarrow> Ret (Inl e) | Inr s4 \<Rightarrow> Ret (Inr ((no, bs), fl, s4, n3)))))"

text \<open>The branches of a whole expression.\<close>

definition regex_tree :: "32 word \<Rightarrow> string \<Rightarrow> (piece list list \<times> flags \<times> nat) comp" where
  "regex_tree cf s =
     err_bind (tree (Suc (length s)) cf False s 0) (\<lambda>((_, bs), fl, _, n).
       if REG_MAX_PAREN \<le> n then Ret (Inl REG_ERR_TOO_BIG) else Ret (Inr (bs, fl, n)))"

end
