(* ===== verification/Jim_Total.thy ===== *)
theory Jim_Total
  imports Jim_Parse
begin

unbundle bit_operations_syntax

text \<open>
  The grammar answers for every text: the fuel is enough, and the tree is well formed. What is left of a text
  is never longer than the text, and shorter after an atom.
\<close>

section \<open>What is left of a text\<close>

definition within :: "string \<Rightarrow> string \<Rightarrow> bool" where
  "within t s \<longleftrightarrow> length t \<le> length s \<and> set t \<subseteq> set s"

lemma within_refl [simp]: "within s s"
  by (simp add: within_def)

lemma within_trans: "within t s \<Longrightarrow> within s r \<Longrightarrow> within t r"
  by (auto simp: within_def)

lemma within_drop [simp]: "within (drop n s) s"
  by (auto simp: within_def dest: in_set_dropD)

lemma within_tl [simp]: "within (tl s) s"
  by (cases s) (auto simp: within_def)

lemma within_dropWhile [simp]: "within (dropWhile P s) s"
  by (auto simp: within_def length_dropWhile_le dest: set_dropWhileD)

lemma within_Cons: "within t s \<Longrightarrow> within t (c # s)"
  by (auto simp: within_def)

lemma within_strtoul: "within (snd (strtoul_end s)) s"
proof -
  have "within (dropWhile P (tl (dropWhile Q s))) s" "within (dropWhile P (dropWhile Q s)) s" for P Q
    by (meson within_dropWhile within_tl within_trans)+
  then show ?thesis by (simp add: strtoul_end_def Let_def)
qed

lemma within_count: "read_count s = (n, t) \<Longrightarrow> within t s"
  using within_strtoul [of s] by (auto simp: read_count_def split: prod.splits)

section \<open>Sets, runs of characters, counts\<close>

lemma set_escape_within: "set_escape s = Inr (ch, t) \<Longrightarrow> within t s"
  by (auto simp: set_escape_def split: prod.splits if_splits)

lemma set_range_within: "set_range cf c s = Inr (ws, t) \<Longrightarrow> within t s"
  by (auto simp: set_range_def Let_def split: if_splits sum.splits option.splits
      dest!: set_escape_within intro: within_trans)
    (meson within_tl within_trans)+

lemma set_item_within: "set_item cf s = Inr (ws, t) \<Longrightarrow> within t s"
  by (auto simp: set_item_def Let_def split: if_splits sum.splits
      dest!: set_escape_within set_range_within intro: within_trans)
    (meson within_tl within_trans)+

lemma set_loop_within: "set_loop cf ws s = Inr (ws', t) \<Longrightarrow> within t s"
proof (induction cf ws s rule: set_loop.induct)
  case (1 cf ws pat)
  show ?case
  proof (cases "starts_with pat (CHR '']'') \<or> pat = []")
    case True
    then show ?thesis using "1.prems" by (auto simp: set_loop.simps [of cf ws pat] split: if_splits)
  next
    case False
    then obtain w p where i: "set_item cf pat = Inr (w, p)" "set_loop cf (ws @ w) p = Inr (ws', t)"
      using "1.prems" by (auto simp: set_loop.simps [of cf ws pat] split: sum.splits)
    then have "within t p" using "1.IH" [of "(w, p)" w p] False by simp
    then show ?thesis using set_item_within [OF i(1)] by (rule within_trans)
  qed
qed

lemma set_words_within: "set_words cf s = Inr (but, ws, t) \<Longrightarrow> within t s"
  by (auto simp: set_words_def Let_def split: if_splits sum.splits dest!: set_loop_within intro: within_trans)
    (meson within_tl within_trans)+

lemma rep_count_within: "rep_count s = Inr (mn, mx, t) \<Longrightarrow> within t s"
  by (auto simp: rep_count_def brace_count_def Let_def split: if_splits sum.splits prod.splits
      dest!: within_count intro: within_trans)
    (meson within_dropWhile within_tl within_trans)+

text \<open>A run of characters: no word is \<open>0\<close>, and the first character is taken.\<close>

lemma uchar_nonzero: "CHR 0x00 \<notin> set s \<Longrightarrow> s \<noteq> [] \<Longrightarrow> char_case cf (uchar s) \<noteq> 0"
  by (cases s) (auto simp: uchar_def char_case_def toupper_def of_char_0)

text \<open>A text at which the run ends at once, and the character it goes on with otherwise.\<close>

definition stops :: "32 word \<Rightarrow> string \<Rightarrow> bool" where
  "stops cf s \<longleftrightarrow> s = [] \<or> hd s \<in> set META \<or>
     char_case cf (uchar s) = 92 \<and> tl s \<noteq> [] \<and> hd (tl s) \<in> set ''<>mMwWdDsSAZ''"

definition next_char :: "32 word \<Rightarrow> string \<Rightarrow> nat \<times> int" where
  "next_char cf s =
     (if char_case cf (uchar s) = 92 \<and> tl s \<noteq> [] then reg_decode_escape (tl s) else (0, char_case cf (uchar s)))"

lemma exact_loop_step:
  assumes "\<not> stops cf s" "next_char cf s = (n, ch)" "CHR 0x00 \<notin> set s"
  shows "exact_loop cf ws s =
    (if ch = 0 then Inl REG_ERR_NULL_CHAR
     else if is_mult (drop n (tl s)) then if ws \<noteq> [] then Inr (ws, s) else Inr ([ch], drop n (tl s))
     else exact_loop cf (ws @ [ch]) (drop n (tl s)))"
proof (cases "char_case cf (uchar s) = 92 \<and> tl s \<noteq> []")
  case True
  then show ?thesis using assms(1,2)
    by (subst exact_loop.simps) (simp add: stops_def next_char_def Let_def del: list.set)
next
  case False
  then have "ch \<noteq> 0" using assms uchar_nonzero [of s cf] by (auto simp: stops_def next_char_def)
  then show ?thesis using False assms(1,2)
    by (subst exact_loop.simps) (auto simp: stops_def next_char_def Let_def simp del: list.set)
qed

lemma exact_loop_stops: "stops cf s \<Longrightarrow> exact_loop cf ws s = Inr (ws, s)"
  unfolding stops_def by (elim disjE; subst exact_loop.simps; simp add: Let_def del: list.set)

lemma exact_loop_words:
  assumes "exact_loop cf ws s = Inr (ws', t)" "CHR 0x00 \<notin> set s" "0 \<notin> set ws"
  shows "0 \<notin> set ws' \<and> within t s \<and> length ws \<le> length ws'"
  using assms
proof (induction "length s" arbitrary: ws s rule: less_induct)
  case less
  show ?case
  proof (cases "stops cf s")
    case True
    then show ?thesis using less.prems by (auto simp: exact_loop_stops)
  next
    case False
    obtain n ch where d: "next_char cf s = (n, ch)" by fastforce
    let ?rest = "drop n (tl s)"
    note e = exact_loop_step [OF False d less.prems(2), of ws]
    have r: "within ?rest s" by (meson within_drop within_tl within_trans)
    show ?thesis
    proof (cases "ch = 0 \<or> is_mult ?rest")
      case True
      then show ?thesis using e less.prems r by (auto split: if_splits)
    next
      case rec: False
      have "length ?rest < length s" using False by (cases s) (auto simp: stops_def)
      moreover have "CHR 0x00 \<notin> set ?rest" using r less.prems(2) by (auto simp: within_def)
      ultimately have "0 \<notin> set ws' \<and> within t ?rest \<and> length (ws @ [ch]) \<le> length ws'"
        using less.hyps [of ?rest "ws @ [ch]"] e rec less.prems by auto
      then show ?thesis using r by (auto intro: within_trans)
    qed
  qed
qed

lemma exact_loop_first:
  assumes "exact_loop cf [] s = Inr (ws, t)" "CHR 0x00 \<notin> set s" "\<not> stops cf s"
  shows "ws \<noteq> []" "0 \<notin> set ws" "within t (tl s)"
proof -
  obtain n ch where d: "next_char cf s = (n, ch)" by fastforce
  let ?rest = "drop n (tl s)"
  note e = exact_loop_step [OF assms(3) d assms(2), of "[]"]
  have r: "within ?rest (tl s)" by simp
  then have "CHR 0x00 \<notin> set ?rest" using within_trans [OF r within_tl [of s]] assms(2) by (auto simp: within_def)
  then have "ws \<noteq> [] \<and> 0 \<notin> set ws \<and> within t (tl s)"
    using e assms(1) exact_loop_words [of cf "[ch]" ?rest ws t]
    by (auto split: if_splits intro: within_trans [OF _ r])
  then show "ws \<noteq> []" "0 \<notin> set ws" "within t (tl s)" by simp_all
qed

section \<open>Well-formed trees\<close>

fun wf_atom :: "atom \<Rightarrow> bool" and wf_piece :: "piece \<Rightarrow> bool"
  and wf_seq :: "piece list \<Rightarrow> bool" and wf_alts :: "piece list list \<Rightarrow> bool" where
  "wf_atom (Node oper) \<longleftrightarrow> oper \<in> {BOL, EOL, ANY, BOLX, EOLX, WORDA, WORDZ}"
| "wf_atom (Set but ws) \<longleftrightarrow> True"
| "wf_atom (Exact ws) \<longleftrightarrow> ws \<noteq> [] \<and> 0 \<notin> set ws"
| "wf_atom (Group no bs) \<longleftrightarrow> (no = - 1 \<or> 0 < no) \<and> bs \<noteq> [] \<and> wf_alts bs"
| "wf_piece (One a) \<longleftrightarrow> wf_atom a"
| "wf_piece (Many lazy mn mx a) \<longleftrightarrow> wf_atom a"
| "wf_seq [] \<longleftrightarrow> True"
| "wf_seq (y # ys) \<longleftrightarrow> wf_piece y \<and> wf_seq ys"
| "wf_alts [] \<longleftrightarrow> True"
| "wf_alts (b # bs) \<longleftrightarrow> wf_seq b \<and> wf_alts bs"

lemma wf_append [simp]:
  "wf_seq (xs @ ys) \<longleftrightarrow> wf_seq xs \<and> wf_seq ys" "wf_alts (bs @ cs) \<longleftrightarrow> wf_alts bs \<and> wf_alts cs"
  by (induction xs; simp) (induction bs; simp)

text \<open>An error, or a tree with a property and a rest of the text.\<close>

definition yields :: "('a \<Rightarrow> flags \<Rightarrow> bool) \<Rightarrow> string \<Rightarrow> 'a parsed \<Rightarrow> bool" where
  "yields Q s res \<longleftrightarrow> (\<exists>e. res = Ret (Inl e)) \<or>
     (\<exists>t fl s' n. res = Ret (Inr (t, fl, s', n)) \<and> Q t fl \<and> within s' s)"

lemma yields_error [simp]: "yields Q s (Ret (Inl e))"
  by (simp add: yields_def)

lemma yields_Ret [simp]: "yields Q s (Ret (Inr (t, fl, s', n))) \<longleftrightarrow> Q t fl \<and> within s' s"
  by (simp add: yields_def)

lemma yields_bind:
  assumes "yields Q s r" "\<And>t fl s' n. Q t fl \<Longrightarrow> within s' s \<Longrightarrow> yields Q' s (f (t, fl, s', n))"
  shows "yields Q' s (err_bind r f)"
proof -
  consider e where "r = Ret (Inl e)" | t fl s' n where "r = Ret (Inr (t, fl, s', n))" "Q t fl" "within s' s"
    using assms(1) by (auto simp: yields_def)
  then show ?thesis
  proof cases
    case 1
    then show ?thesis by (simp add: err_bind_def)
  next
    case 2
    then show ?thesis using assms(2) [OF 2(2,3)] by (simp add: err_bind_def)
  qed
qed

lemma yields_mono: "yields Q s r \<Longrightarrow> within s s' \<Longrightarrow> (\<And>t fl. Q t fl \<Longrightarrow> Q' t fl) \<Longrightarrow> yields Q' s' r"
  by (auto simp: yields_def intro: within_trans)

definition atom_ok :: "atom \<Rightarrow> flags \<Rightarrow> bool" where
  "atom_ok a fl \<longleftrightarrow> wf_atom a \<and> SIMPLE fl = is_simple a"

lemma SIMPLE_flags [simp]: "\<not> SIMPLE WORST" "\<not> SIMPLE WIDE" "SIMPLE WIDE_SIMPLE"
  by (simp_all add: WORST_def WIDE_def WIDE_SIMPLE_def)

lemma tree_exact_yields:
  assumes "CHR 0x00 \<notin> set s" "\<not> stops cf s"
  shows "yields atom_ok (tl s) (tree_exact cf s n)"
  using exact_loop_first [OF _ assms]
  by (auto simp: tree_exact_def atom_ok_def split: sum.splits)

lemma char_case_backslash: "char_case cf (of_char c) = 92 \<longleftrightarrow> c = backslash"
proof -
  have "(of_char backslash :: int) = 92" by (simp add: backslash_def)
  then have "(of_char c :: int) = 92 \<longleftrightarrow> c = backslash" by (metis of_char_eq_iff)
  then show ?thesis by (auto simp: char_case_def toupper_def)
qed

lemma tree_escape_yields:
  assumes "CHR 0x00 \<notin> set s" "s \<noteq> []" "hd s = backslash"
  shows "yields atom_ok (tl s) (tree_escape cf s n)"
proof (cases "tl s")
  case Nil
  then show ?thesis by (simp add: tree_escape_def)
next
  case (Cons c t)
  have t: "within t (tl s)" using Cons by (simp add: within_Cons)
  show ?thesis
  proof (cases "anchor_of c")
    case (Some oper)
    then have "oper \<in> {BOLX, EOLX, WORDA, WORDZ}" by (auto simp: anchor_of_def split: if_splits)
    then show ?thesis using Some Cons t by (auto simp: tree_escape_def atom_ok_def op_defs)
  next
    case None
    show ?thesis
    proof (cases "escape_class cf c")
      case (Some bw)
      then show ?thesis using None Cons t by (cases bw) (simp add: tree_escape_def atom_ok_def)
    next
      case n: None
      have "c \<notin> set ''<>mMwWdDsSAZ''"
        using None n by (auto simp: anchor_of_def escape_class_def split: if_splits)
      then have "\<not> stops cf s" using Cons assms(2,3) by (auto simp: stops_def META_def backslash_def)
      from tree_exact_yields [OF assms(1) this] show ?thesis using None n Cons by (simp add: tree_escape_def)
    qed
  qed
qed

definition captured_ok :: "int \<times> piece list list \<Rightarrow> flags \<Rightarrow> bool" where
  "captured_ok g fl \<longleftrightarrow> (fst g = - 1 \<or> 0 < fst g) \<and> snd g \<noteq> [] \<and> wf_alts (snd g)"

lemma tree_atom_yields:
  assumes "CHR 0x00 \<notin> set s" "s \<noteq> []" and g: "yields captured_ok (tl s) (grp (tl s) n)"
  shows "yields atom_ok (tl s) (tree_atom grp cf s n)"
proof -
  obtain c t where s: "s = c # t" using assms(2) by (cases s) auto
  show ?thesis
  proof (cases "c \<in> set META \<or> c = CHR '')'' \<or> c = backslash")
    case False
    then have "\<not> stops cf s" using s char_case_backslash [of cf c] by (simp add: stops_def uchar_def)
    from tree_exact_yields [OF assms(1) this] False show ?thesis by (simp add: s tree_atom_def META_def)
  next
    case True
    have "yields atom_ok t (err_bind (grp t n) (\<lambda>((no, bs), fl, rest, n').
        Ret (Inr (Group no bs, fl\<lparr>SIMPLE := False\<rparr>, rest, n'))))"
      using g unfolding s list.sel by (rule yields_bind) (auto simp: captured_ok_def atom_ok_def)
    moreover have "yields atom_ok t (case set_words cf t of
               Inl e \<Rightarrow> Ret (Inl e)
             | Inr (but, ws, rest) \<Rightarrow> Ret (Inr (Set but ws, WIDE_SIMPLE, rest, n)))"
      using set_words_within [of cf t] by (auto simp: atom_ok_def split: sum.splits)
    moreover have "c = backslash \<Longrightarrow> yields atom_ok t (tree_escape cf s n)"
      using tree_escape_yields [OF assms(1,2), of cf n] by (simp add: s)
    ultimately show ?thesis using True by (auto simp: s tree_atom_def META_def backslash_def atom_ok_def op_defs)
  qed
qed

section \<open>Every text has a tree or an error\<close>

definition groups_below :: "nat \<Rightarrow> group_parser \<Rightarrow> bool" where
  "groups_below l grp \<longleftrightarrow> (\<forall>t n. length t < l \<longrightarrow> CHR 0x00 \<notin> set t \<longrightarrow> yields captured_ok t (grp t n))"

lemma groups_below_le: "groups_below l grp \<Longrightarrow> k \<le> l \<Longrightarrow> groups_below k grp"
  by (auto simp: groups_below_def)

lemma within_nul: "within t s \<Longrightarrow> CHR 0x00 \<notin> set s \<Longrightarrow> CHR 0x00 \<notin> set t"
  by (auto simp: within_def)

lemma tree_piece_yields:
  assumes "CHR 0x00 \<notin> set s" "s \<noteq> []" "groups_below (length s) grp"
  shows "yields (\<lambda>y fl. wf_piece y) (tl s) (tree_piece grp cf s n)"
proof -
  have "yields captured_ok (tl s) (grp (tl s) n)"
    using assms within_nul [OF within_tl assms(1)] by (simp add: groups_below_def)
  then have "yields atom_ok (tl s) (tree_atom grp cf s n)" by (rule tree_atom_yields [OF assms(1,2)])
  then show ?thesis unfolding tree_piece_def
  proof (rule yields_bind)
    fix a fl t n'
    assume a: "atom_ok a fl" and t: "within t (tl s)"
    have r: "within (tl (tl t1)) (tl s)" "within (tl t1) (tl s)" if "rep_count t = Inr (mn, mx, t1)" for mn mx t1
      using rep_count_within [OF that] t by (meson within_tl within_trans)+
    show "yields (\<lambda>y fl. wf_piece y) (tl s) (case (a, fl, t, n') of (a, fl, t, n') \<Rightarrow> tree_count a fl t n')"
      using a t r by (auto simp: tree_count_def atom_ok_def Let_def split: sum.splits)
  qed
qed

lemma tree_pieces_yields:
  assumes "CHR 0x00 \<notin> set s" "groups_below (length s) grp" "length s < k" "wf_seq ys"
  shows "yields (\<lambda>ys fl. wf_seq ys) s (tree_pieces k grp cf ys fl s n)"
  using assms
proof (induction k arbitrary: ys fl s n)
  case (Suc k)
  show ?case
  proof (cases "s = [] \<or> hd s \<in> set '')|''")
    case True
    then show ?thesis using Suc.prems by (auto simp del: list.set)
  next
    case False
    then have s: "s \<noteq> []" by simp
    let ?f = "\<lambda>(y, fl1, t, n'). tree_pieces k grp cf (ys @ [y])
          (fl\<lparr>HASWIDTH := HASWIDTH fl \<or> HASWIDTH fl1, SPSTART := SPSTART fl \<or> ys = [] \<and> SPSTART fl1\<rparr>) t n'"
    have "yields (\<lambda>y fl. wf_piece y) (tl s) (tree_piece grp cf s n)"
      using Suc.prems(1,2) s by (intro tree_piece_yields)
    then have "yields (\<lambda>ys fl. wf_seq ys) (tl s) (err_bind (tree_piece grp cf s n) ?f)"
    proof (rule yields_bind)
      fix y fl1 t n'
      assume y: "wf_piece y" and t: "within t (tl s)"
      have "length t < length s" using t s by (cases s) (auto simp: within_def)
      moreover have "CHR 0x00 \<notin> set t" using within_nul [OF within_trans [OF t within_tl] Suc.prems(1)] .
      ultimately have "yields (\<lambda>ys fl. wf_seq ys) t (?f (y, fl1, t, n'))"
        using Suc.prems(2-4) y by (auto intro!: Suc.IH elim: groups_below_le)
      then show "yields (\<lambda>ys fl. wf_seq ys) (tl s) (?f (y, fl1, t, n'))" using t by (rule yields_mono)
    qed
    then have "yields (\<lambda>ys fl. wf_seq ys) s (err_bind (tree_piece grp cf s n) ?f)" by (rule yields_mono) simp_all
    then show ?thesis using False by (simp del: list.set)
  qed
qed simp

lemma tree_branch_yields:
  "CHR 0x00 \<notin> set s \<Longrightarrow> groups_below (length s) grp \<Longrightarrow> yields (\<lambda>b fl. wf_seq b) s (tree_branch grp cf s n)"
  unfolding tree_branch_def by (rule tree_pieces_yields) simp_all

lemma tree_alts_yields:
  assumes "CHR 0x00 \<notin> set s" "groups_below (length s) grp" "length s < k" "wf_alts bs" "bs \<noteq> []"
  shows "yields (\<lambda>bs fl. wf_alts bs \<and> bs \<noteq> []) s (tree_alts k grp cf bs fl s n)"
  using assms
proof (induction k arbitrary: bs fl s n)
  case (Suc k)
  show ?case
  proof (cases "starts_with s (CHR ''|'')")
    case False
    then show ?thesis using Suc.prems by simp
  next
    case True
    then have s: "s \<noteq> []" "length (tl s) < length s" by (auto simp: starts_with_iff)
    let ?f = "\<lambda>(b, fl1, t, n'). tree_alts k grp cf (bs @ [b])
          (fl\<lparr>HASWIDTH := HASWIDTH fl \<and> HASWIDTH fl1, SPSTART := SPSTART fl \<or> SPSTART fl1\<rparr>) t n'"
    have "yields (\<lambda>b fl. wf_seq b) (tl s) (tree_branch grp cf (tl s) n)"
      using Suc.prems(2) s within_nul [OF within_tl Suc.prems(1)]
      by (intro tree_branch_yields) (auto elim: groups_below_le)
    then have "yields (\<lambda>bs fl. wf_alts bs \<and> bs \<noteq> []) (tl s) (err_bind (tree_branch grp cf (tl s) n) ?f)"
    proof (rule yields_bind)
      fix b fl1 t n'
      assume b: "wf_seq b" and t: "within t (tl s)"
      have "length t < length s" using t s(2) unfolding within_def by linarith
      moreover have "CHR 0x00 \<notin> set t" using within_nul [OF within_trans [OF t within_tl] Suc.prems(1)] .
      ultimately have "yields (\<lambda>bs fl. wf_alts bs \<and> bs \<noteq> []) t (?f (b, fl1, t, n'))"
        using Suc.prems(2-5) b by (auto intro!: Suc.IH elim: groups_below_le)
      then show "yields (\<lambda>bs fl. wf_alts bs \<and> bs \<noteq> []) (tl s) (?f (b, fl1, t, n'))" using t by (rule yields_mono)
    qed
    then have "yields (\<lambda>bs fl. wf_alts bs \<and> bs \<noteq> []) s (err_bind (tree_branch grp cf (tl s) n) ?f)"
      by (rule yields_mono) simp_all
    then show ?thesis using True by simp
  qed
qed simp

definition tree_ok :: "bool \<Rightarrow> int \<times> piece list list \<Rightarrow> flags \<Rightarrow> bool" where
  "tree_ok paren g fl \<longleftrightarrow> (paren \<longrightarrow> fst g = - 1 \<or> 0 < fst g) \<and> wf_alts (snd g) \<and> snd g \<noteq> []"

lemma tree_ok_group: "tree_ok True = captured_ok"
  by (intro ext) (auto simp: tree_ok_def captured_ok_def)

theorem tree_yields:
  assumes "CHR 0x00 \<notin> set s" "length s < k"
  shows "yields (tree_ok paren) s (tree k cf paren s n)"
  using assms
proof (induction k arbitrary: paren s n)
  case (Suc k)
  let ?grp = "tree k cf True"
  have g: "groups_below (length s) ?grp"
    using Suc.IH [where paren = True] Suc.prems(2)
    by (simp add: groups_below_def tree_ok_group)
  obtain no s1 n1 where o: "tree_open paren s n = (no, s1, n1)" by (cases "tree_open paren s n") auto
  have s1: "within s1 s" "paren \<longrightarrow> no = - 1 \<or> 0 < no"
    using o by (auto simp: tree_open_def split: if_splits)
  have below: "groups_below (length t) ?grp" "CHR 0x00 \<notin> set t" if "within t s" for t
    using that g Suc.prems(1) by (auto simp: within_def elim: groups_below_le)
  let ?stop = "\<lambda>(bs, fl, s3, n3). case tree_end paren s3 of
      Inl e \<Rightarrow> Ret (Inl e) | Inr s4 \<Rightarrow> Ret (Inr ((no, bs), fl, s4, n3))"
  let ?rest = "\<lambda>(b, fl1, s2, n2). err_bind (tree_alts (Suc (length s2)) ?grp cf [b]
      (WORST\<lparr>HASWIDTH := HASWIDTH fl1, SPSTART := SPSTART fl1\<rparr>) s2 n2) ?stop"
  have ends: "yields (tree_ok paren) s3 (?stop (bs, fl, s3, n3))" if "wf_alts bs \<and> bs \<noteq> []" for bs fl s3 n3
    using that s1(2) by (auto simp: tree_end_def tree_ok_def)
  have "yields (\<lambda>b fl. wf_seq b) s (tree_branch ?grp cf s1 n1)"
    using tree_branch_yields below [OF s1(1)] s1(1) yields_mono by metis
  then have "yields (tree_ok paren) s (err_bind (tree_branch ?grp cf s1 n1) ?rest)"
  proof (rule yields_bind)
    fix b fl1 s2 n2
    assume b: "wf_seq b" and s2: "within s2 s"
    have "yields (\<lambda>bs fl. wf_alts bs \<and> bs \<noteq> []) s2 (tree_alts (Suc (length s2)) ?grp cf [b]
        (WORST\<lparr>HASWIDTH := HASWIDTH fl1, SPSTART := SPSTART fl1\<rparr>) s2 n2)"
      using b below [OF s2] by (intro tree_alts_yields) simp_all
    then have "yields (tree_ok paren) s2 (?rest (b, fl1, s2, n2))"
      unfolding prod.case by (rule yields_bind) (use ends yields_mono in \<open>metis (no_types, lifting)\<close>)
    then show "yields (tree_ok paren) s (?rest (b, fl1, s2, n2))" using s2 by (rule yields_mono)
  qed
  then show ?case by (simp add: o)
qed simp

end
