(* ===== verification/Jim_Refine.thy ===== *)
theory Jim_Refine
  imports Jim_Total
begin

unbundle bit_operations_syntax

text \<open>
  The compiler emits the layout of the tree. Code is emitted with open ends, \<open>0\<close> for the node behind a part,
  and the ends are closed when it is known: each call of \<^verbatim>\<open>regtail\<close> turns the code of a part that
  ends with \<open>0\<close> into the code that ends with the given node.
\<close>

section \<open>Chains\<close>

text \<open>The nodes from \<open>p\<close> to \<open>q\<close> along the next words have the operations \<open>ops\<close>.\<close>

fun walk :: "int list \<Rightarrow> nat \<Rightarrow> int list \<Rightarrow> nat \<Rightarrow> bool" where
  "walk P p [] q \<longleftrightarrow> p = q"
| "walk P p (oper # ops) q \<longleftrightarrow> (\<exists>r. node_at P p oper r \<and> 0 < r \<and> walk P r ops q)"

lemma walk_append: "walk P p os q \<Longrightarrow> walk P q ops r \<Longrightarrow> walk P p (os @ ops) r"
  by (induction os arbitrary: p) auto

lemma chain_end_walk:
  "walk P p os q \<Longrightarrow> regnext P q = Ret 0 \<Longrightarrow> length os < n \<Longrightarrow> chain_end n P p = Ret q"
  by (induction os arbitrary: p n) (auto simp: node_at_def Suc_less_eq2 gr0_conv_Suc)

lemma regtail_walk:
  assumes "walk P p os l" "node_at P l oper 0" "oper \<noteq> BACK" "length os < length P"
  shows "regtail P p q = Ret (P[l + 1 := int q - int l])"
  using assms chain_end_walk [OF assms(1) _ assms(4)] by (simp add: regtail_def node_at_def)

lemma must_loop_walk:
  "walk P p os q \<Longrightarrow> EXACTLY \<notin> set os \<Longrightarrow> 0 < p \<Longrightarrow> must_loop (length os + n) P p best = must_loop n P q best"
  by (induction os arbitrary: p) (auto simp: node_at_def word_at_def)

text \<open>A choice with the node \<open>r\<close> behind its last branch word and \<open>e\<close> behind the branches.\<close>

fun open_alts :: "nat \<Rightarrow> nat \<Rightarrow> nat \<Rightarrow> piece list list \<Rightarrow> int list" where
  "open_alts p r e [] = []"
| "open_alts p r e (b # bs) =
     [BRANCH, if bs = [] then dist p r else int (branch_size b)]
       @ (if b = [] then [NOTHING, dist (p + 2) e] else code_seq (p + 2) e b)
       @ open_alts (p + branch_size b) r e bs"

lemma code_alts_open: "code_alts p e bs = open_alts p e e bs"
  by (induction bs arbitrary: p) (auto simp: branch_size_def)

lemma len_alts_Cons: "len_alts (b # bs) = branch_size b + len_alts bs"
  by (simp add: branch_size_def)

declare len_alts.simps(2) [simp del] len_alts_Cons [simp]

lemma len_append [simp]:
  "len_seq (xs @ ys) = len_seq xs + len_seq ys" "len_alts (bs @ cs) = len_alts bs + len_alts cs"
  by (induction xs; simp) (induction bs; simp)

lemma length_open_alts [simp]: "length (open_alts p r e bs) = len_alts bs"
  by (induction bs arbitrary: p) (auto simp: branch_size_def)

lemma open_alts_snoc:
  "open_alts p r e (bs @ [b]) = open_alts p (p + len_alts bs) e bs @ open_alts (p + len_alts bs) r e [b]"
  by (induction bs arbitrary: p) (auto simp: dist_def branch_size_def add.assoc)

lemma code_seq_snoc:
  "code_seq p q (ys @ [y]) = code_seq p (p + len_seq ys) ys @ code_piece (p + len_seq ys) q y"
  by (induction ys arbitrary: p) (auto simp: add.assoc)

text \<open>From the first branch to what is behind the last one.\<close>

lemma branch_size_ge: "2 \<le> branch_size b"
  by (simp add: branch_size_def)

lemma walk_branches:
  "has_code P p (open_alts p r e bs) \<Longrightarrow> 0 < p \<Longrightarrow> p + len_alts bs \<le> r \<Longrightarrow>
   bs \<noteq> [] \<Longrightarrow> walk P p (replicate (length bs) BRANCH) r"
proof (induction bs arbitrary: p)
  case (Cons b bs)
  have "p < p + branch_size b" "p < r" using branch_size_ge [of b] Cons.prems by auto
  then have "node_at P p BRANCH (if bs = [] then r else p + branch_size b)"
    using Cons.prems(1)
    by (auto simp: node_at_def has_code_Cons regnext_def word_at_def dist_def op_defs split: if_splits)
  moreover have "bs \<noteq> [] \<Longrightarrow> walk P (p + branch_size b) (replicate (length bs) BRANCH) r"
    using Cons.prems by (intro Cons.IH) (auto simp: has_code_Cons has_code_append branch_size_def eval_nat_numeral
        split: if_splits)
  ultimately show ?case using Cons.prems(2,3) \<open>p < r\<close> by auto
qed simp

text \<open>The last node of a part, from its first one.\<close>

fun end_of :: "piece \<Rightarrow> nat" where
  "end_of (One (Group no bs)) = len_alts bs + 2"
| "end_of y = 0"

fun first_op :: "piece \<Rightarrow> int" where
  "first_op (One a) = atom_op a"
| "first_op (Many lazy mn mx a) =
     (if is_simple a then if lazy then REPMIN else REP else if lazy then REPXMIN else REPX)"

lemma code_first:
  assumes "wf_piece y" "\<nexists>no bs. y = One (Group no bs)"
  shows "\<exists>ws. code_piece p q y = first_op y # dist p q # ws" "first_op y \<noteq> BACK" "end_of y = 0"
    "first_op y = EXACTLY \<Longrightarrow> \<exists>ws. y = One (Exact ws)"
proof -
  have "(\<exists>ws. code_piece p q y = first_op y # dist p q # ws) \<and> first_op y \<noteq> BACK \<and> end_of y = 0 \<and>
      (first_op y = EXACTLY \<longrightarrow> (\<exists>ws. y = One (Exact ws)))"
  proof (cases y)
    case (One a)
    then show ?thesis using assms by (cases a) (auto simp: op_defs)
  next
    case (Many lazy mn mx a)
    then show ?thesis by (auto simp: op_defs)
  qed
  then show "\<exists>ws. code_piece p q y = first_op y # dist p q # ws" "first_op y \<noteq> BACK" "end_of y = 0"
    "first_op y = EXACTLY \<Longrightarrow> \<exists>ws. y = One (Exact ws)" by auto
qed

lemma piece_chain:
  assumes "has_code P p (code_piece p q y)" "wf_piece y" "0 < p" "q = 0 \<or> p + len_piece y \<le> q"
  obtains os oper where "walk P p os (p + end_of y)" "node_at P (p + end_of y) oper q" "oper \<noteq> BACK"
    "length os < len_piece y" "EXACTLY \<notin> set os" "oper = EXACTLY \<Longrightarrow> \<exists>ws. y = One (Exact ws)"
proof (cases "\<exists>no bs. y = One (Group no bs)")
  case False
  obtain ws where ws: "code_piece p q y = first_op y # dist p q # ws"
    using code_first(1) [OF assms(2) False] by blast
  have "q = 0 \<or> p < q" using assms(4) len_piece_pos(2) [of y] by linarith
  then have "node_at P p (first_op y) q"
    using assms(1) code_first(2) [OF assms(2) False] unfolding ws by (intro node_at_code)
  then show thesis using that [of "[]" "first_op y"] code_first [OF assms(2) False] by simp
next
  case True
  then obtain no bs where y: "y = One (Group no bs)" by blast
  let ?e = "p + 2 + len_alts bs"
  have w: "bs \<noteq> []" "no = - 1 \<or> 0 < no" using assms(2) y by auto
  have c: "has_code P p [OPEN + no, 2]" "has_code P (p + 2) (open_alts (p + 2) ?e ?e bs)"
      "has_code P ?e [CLOSE + no, dist ?e q]"
    using assms(1) y by (auto simp: has_code_append has_code_Cons code_alts_open [symmetric] eval_nat_numeral)
  have "node_at P p (OPEN + no) (p + 2)"
    using c(1) w(2) by (auto simp: node_at_def has_code_Cons regnext_def word_at_def op_defs)
  moreover have "walk P (p + 2) (replicate (length bs) BRANCH) ?e"
    using walk_branches [OF c(2)] w(1) by simp
  ultimately have "walk P p ((OPEN + no) # replicate (length bs) BRANCH) ?e" by auto
  moreover have "node_at P ?e (CLOSE + no) q"
    using c(3) w(2) assms(4) y by (intro node_at_code [where ws = "[]"]) (auto simp: op_defs)
  moreover have "length bs \<le> len_alts bs" by (rule len_alts_ge)
  ultimately show thesis using w(2) y
    by (intro that [of "(OPEN + no) # replicate (length bs) BRANCH" "CLOSE + no"]) (auto simp: op_defs add.assoc)
qed

lemma patch_piece:
  "0 < q \<Longrightarrow> (code_piece p 0 y)[Suc (end_of y) := int q - int (p + end_of y)] = code_piece p q y"
proof (cases y)
  case (One a)
  assume "0 < q"
  then show ?thesis using One by (cases a) (auto simp: dist_def list_update_append)
next
  case (Many lazy mn mx a)
  assume "0 < q"
  then show ?thesis using Many by (auto simp: dist_def)
qed

lemma end_of_less: "Suc (end_of y) < len_piece y"
proof (cases "\<exists>no bs. y = One (Group no bs)")
  case False
  then have "end_of y = 0" by (cases y rule: end_of.cases) auto
  then show ?thesis using len_piece_pos(1) [of y] by linarith
qed auto

lemma regtail_piece:
  assumes "p = length pre" "0 < p" "0 < q" "wf_piece y"
  shows "regtail (pre @ code_piece p 0 y @ post) p q = Ret (pre @ code_piece p q y @ post)"
proof -
  let ?P = "pre @ code_piece p 0 y @ post"
  have "has_code ?P p (code_piece p 0 y)" using has_code_mid assms(1) by simp
  then obtain os oper where w: "walk ?P p os (p + end_of y)" "node_at ?P (p + end_of y) oper 0" "oper \<noteq> BACK"
      "length os < len_piece y" using piece_chain [OF _ assms(4,2)] by metis
  have "regtail ?P p q = Ret (?P[p + end_of y + 1 := int q - int (p + end_of y)])"
    using regtail_walk [OF w(1-3)] w(4) by simp
  also have "?P[p + end_of y + 1 := int q - int (p + end_of y)] =
      pre @ (code_piece p 0 y)[Suc (end_of y) := int q - int (p + end_of y)] @ post"
    using end_of_less [of y] by (simp add: assms(1) list_update_append)
  finally show ?thesis using patch_piece [OF assms(3)] by simp
qed

lemma walk_seq:
  "has_code P p (code_seq p q ys) \<Longrightarrow> wf_seq ys \<Longrightarrow> 0 < p \<Longrightarrow> q = p + len_seq ys \<Longrightarrow>
   \<exists>os. walk P p os q \<and> length os \<le> len_seq ys"
proof (induction ys arbitrary: p)
  case Nil
  then show ?case by (intro exI [of _ "[]"]) simp
next
  case (Cons y ys)
  let ?q = "p + len_piece y"
  have c: "has_code P p (code_piece p ?q y)" "has_code P ?q (code_seq ?q q ys)"
    using Cons.prems(1,4) by (auto simp: has_code_append split: if_splits)
  obtain os oper where w: "walk P p os (p + end_of y)" "node_at P (p + end_of y) oper ?q" "length os < len_piece y"
    using piece_chain [OF c(1)] Cons.prems(2,3) by (metis le_refl wf_seq.simps(2))
  obtain ops where "walk P ?q ops q" "length ops \<le> len_seq ys"
    using Cons.IH [OF c(2)] Cons.prems by (auto simp: add.assoc)
  moreover have "walk P p (os @ [oper]) ?q" using w(1,2) Cons.prems(3) by (intro walk_append) auto
  ultimately show ?case using w(3) walk_append [of P p "os @ [oper]" ?q ops q]
    by (intro exI [of _ "(os @ [oper]) @ ops"]) simp
qed

text \<open>The operand of a branch.\<close>

definition body :: "nat \<Rightarrow> nat \<Rightarrow> piece list \<Rightarrow> int list" where
  "body p e b = (if b = [] then [NOTHING, dist p e] else code_seq p e b)"

lemma length_body [simp]: "length (body p e b) = branch_size b - 2"
  by (simp add: body_def branch_size_def)

lemma regtail_body:
  assumes "p = length pre" "0 < p" "0 < e" "wf_seq b"
  shows "regtail (pre @ body p 0 b @ post) p e = Ret (pre @ body p e b @ post)"
proof (cases b rule: rev_cases)
  case Nil
  let ?P = "pre @ [NOTHING, 0] @ post"
  have "has_code ?P p [NOTHING, 0]" using has_code_mid [of pre "[NOTHING, 0]" post] assms(1) by simp
  then have "node_at ?P p NOTHING 0" by (auto simp: node_at_def has_code_Cons regnext_def word_at_def)
  from regtail_walk [of ?P p "[]", OF _ this, of e] show ?thesis
    using Nil assms by (simp add: body_def dist_def op_defs list_update_append)
next
  case (snoc ys y)
  let ?q = "p + len_seq ys"
  let ?pre = "pre @ code_seq p ?q ys"
  let ?P = "?pre @ code_piece ?q 0 y @ post"
  have wf: "wf_seq ys" "wf_piece y" using assms(4) snoc by auto
  have len: "?q = length ?pre" using assms(1) by simp
  have "has_code ?P p (code_seq p ?q ys)" using has_code_mid assms(1) by simp
  then obtain os where os: "walk ?P p os ?q" "length os \<le> len_seq ys" using walk_seq wf(1) assms(2) by blast
  have "has_code ?P ?q (code_piece ?q 0 y)" using has_code_mid [of ?pre] len by metis
  then obtain ops oper where w: "walk ?P ?q ops (?q + end_of y)" "node_at ?P (?q + end_of y) oper 0" "oper \<noteq> BACK"
      "length ops < len_piece y" using piece_chain [OF _ wf(2)] assms(2) by (metis add_gr_0)
  have "regtail ?P p e = Ret (?P[?q + end_of y + 1 := int e - int (?q + end_of y)])"
    using regtail_walk [OF walk_append [OF os(1) w(1)] w(2,3)] os(2) w(4) by simp
  also have "?P[?q + end_of y + 1 := int e - int (?q + end_of y)] =
      ?pre @ (code_piece ?q 0 y)[Suc (end_of y) := int e - int (?q + end_of y)] @ post"
    using end_of_less [of y] len by (simp add: list_update_append)
  finally show ?thesis using snoc patch_piece [OF assms(3), of ?q y] by (simp add: body_def code_seq_snoc)
qed

lemma open_alts_Cons:
  "open_alts p r e (b # bs) =
     [BRANCH, if bs = [] then dist p r else int (branch_size b)] @ body (p + 2) e b @ open_alts (p + branch_size b) r e bs"
  by (simp add: body_def)

declare open_alts.simps(2) [simp del]

text \<open>The end of a chain of branches that starts at \<open>s\<close> and reaches the first branch at \<open>p\<close>.\<close>

lemma regtail_branches:
  assumes "p = length pre" "0 < p" "0 < r" "bs \<noteq> []"
    and w: "walk (pre @ open_alts p 0 e bs @ post) s os p" "length os \<le> length pre"
  shows "regtail (pre @ open_alts p 0 e bs @ post) s r = Ret (pre @ open_alts p r e bs @ post)"
proof -
  obtain cs b where bs: "bs = cs @ [b]" using assms(4) by (metis rev_exhaust)
  let ?q = "p + len_alts cs"
  let ?pre = "pre @ open_alts p ?q e cs" and ?P = "pre @ open_alts p 0 e bs @ post"
  have len: "?q = length ?pre" using assms(1) by simp
  have P: "?P = ?pre @ ([BRANCH, 0] @ body (?q + 2) e b @ post)"
    using bs by (simp add: open_alts_snoc open_alts_Cons dist_def)
  have "has_code ?P p (open_alts p ?q e cs)"
    unfolding P using has_code_mid [of pre "open_alts p ?q e cs"] assms(1) by simp
  then have "walk ?P p (replicate (length cs) BRANCH) ?q"
    using walk_branches assms(2) by (cases "cs = []") auto
  note w' = walk_append [OF w(1) this]
  have "has_code ?P ?q [BRANCH, 0]" unfolding P using has_code_mid [of ?pre "[BRANCH, 0]"] len by metis
  then have "node_at ?P ?q BRANCH 0" by (auto simp: node_at_def has_code_Cons regnext_def word_at_def)
  moreover have "length cs \<le> len_alts cs" by (rule len_alts_ge)
  ultimately have "regtail ?P s r = Ret (?P[?q + 1 := int r - int ?q])"
    using regtail_walk [OF w'] w(2) bs branch_size_ge [of b] by (simp add: op_defs)
  also have "?P[?q + 1 := int r - int ?q] = ?pre @ ([BRANCH, int r - int ?q] @ body (?q + 2) e b @ post)"
    unfolding P using assms(1) by (simp add: list_update_append)
  finally show ?thesis using bs assms(3) by (simp add: open_alts_snoc open_alts_Cons dist_def)
qed

lemma hook_tails_branches:
  assumes "p = length pre" "0 < p" "0 < e" "p + len_alts bs \<le> r" "wf_alts bs" "bs \<noteq> []"
  shows "hook_tails (length bs + n) (pre @ open_alts p r 0 bs @ post) p e =
    hook_tails n (pre @ open_alts p r e bs @ post) r e"
  using assms
proof (induction bs arbitrary: pre p)
  case (Cons b bs)
  let ?w = "if bs = [] then dist p r else int (branch_size b)" and ?q = "p + branch_size b"
  let ?next = "if bs = [] then r else ?q"
  let ?pre = "pre @ [BRANCH, ?w]"
  let ?P' = "?pre @ body (p + 2) e b @ open_alts ?q r 0 bs @ post"
  have p: "p < ?q" "p < r" using branch_size_ge [of b] Cons.prems(4) by auto
  have P: "pre @ open_alts p r 0 (b # bs) @ post = ?pre @ body (p + 2) 0 b @ open_alts ?q r 0 bs @ post"
    by (simp add: open_alts_Cons)
  have br: "word_at (pre @ open_alts p r 0 (b # bs) @ post) p = Ret BRANCH"
    using Cons.prems(1) by (simp add: open_alts_Cons word_at_def nth_append)
  have "regtail (?pre @ body (p + 2) 0 b @ open_alts ?q r 0 bs @ post) (p + 2) e = Ret ?P'"
    using Cons.prems by (intro regtail_body) auto
  then have op: "regoptail (pre @ open_alts p r 0 (b # bs) @ post) p e = Ret ?P'"
    using br Cons.prems(2) unfolding P by (simp add: regoptail_def)
  have nx: "regnext ?P' p = Ret ?next"
    using Cons.prems(1) p by (auto simp: regnext_def word_at_def nth_append dist_def op_defs)
  have "hook_tails (length (b # bs) + n) (pre @ open_alts p r 0 (b # bs) @ post) p e =
      hook_tails (length bs + n) ?P' ?next e"
    using op nx Cons.prems(2) by simp
  also have "\<dots> = hook_tails n (pre @ open_alts p r e (b # bs) @ post) r e"
  proof (cases "bs = []")
    case True
    then show ?thesis by (simp add: open_alts_Cons)
  next
    case False
    let ?pre2 = "?pre @ body (p + 2) e b"
    have "hook_tails (length bs + n) (?pre2 @ open_alts ?q r 0 bs @ post) ?q e =
        hook_tails n (?pre2 @ open_alts ?q r e bs @ post) r e"
      using Cons.prems False branch_size_ge [of b] by (intro Cons.IH) auto
    then show ?thesis using False by (simp add: open_alts_Cons)
  qed
  finally show ?case .
qed simp

section \<open>Closing a choice\<close>

text \<open>The choice at \<open>p\<close> starts at \<open>ret\<close>: at its first branch, or at the node of a group in front of it.\<close>

definition starts :: "int list \<Rightarrow> nat \<Rightarrow> nat \<Rightarrow> bool" where
  "starts pre ret p \<longleftrightarrow> 0 < ret \<and> p = length pre \<and>
     (ret = p \<or> ret + 2 = p \<and> (\<exists>oper. has_code pre ret [oper, 2] \<and> oper \<noteq> BRANCH \<and> oper \<noteq> BACK))"

lemma has_code_front: "has_code pre p ws \<Longrightarrow> has_code (pre @ post) p ws"
  by (auto simp: has_code_def)

lemma starts_walk:
  assumes "starts pre ret p"
  obtains os where "walk (pre @ post) ret os p" "length os \<le> 1" "BRANCH \<notin> set os"
proof (cases "ret = p")
  case True
  then show thesis using that [of "[]"] by simp
next
  case False
  then obtain oper where o: "ret + 2 = p" "has_code pre ret [oper, 2]" "oper \<noteq> BRANCH" "oper \<noteq> BACK"
    using assms by (auto simp: starts_def)
  have "has_code (pre @ post) ret [oper, 2]" using o(2) by (rule has_code_front)
  then have "node_at (pre @ post) ret oper p"
    using o(1,4) by (auto simp: node_at_def has_code_Cons regnext_def word_at_def)
  then show thesis using that [of "[oper]"] o(1,3) by simp
qed

lemma hook_tails_skip:
  assumes "node_at P p oper q" "oper \<noteq> BRANCH" "0 < p"
  shows "hook_tails (Suc n) P p e = hook_tails n P q e"
  using assms by (simp add: regoptail_def node_at_def word_at_def)

lemma alt_linked:
  assumes "starts pre ret p" "bs \<noteq> []"
  shows "regtail (pre @ open_alts p 0 0 bs @ [BRANCH, 0] @ body (p + len_alts bs + 2) 0 b) ret (p + len_alts bs) =
    Ret (pre @ open_alts p 0 0 (bs @ [b]))"
proof -
  let ?post = "[BRANCH, 0] @ body (p + len_alts bs + 2) 0 b"
  have p: "p = length pre" "0 < p" "ret \<le> p" using assms(1) by (auto simp: starts_def)
  obtain os where "walk (pre @ open_alts p 0 0 bs @ ?post) ret os p" "length os \<le> length pre"
    using starts_walk [OF assms(1)] p by (metis One_nat_def Suc_leI le_trans)
  then have "regtail (pre @ open_alts p 0 0 bs @ ?post) ret (p + len_alts bs) =
      Ret (pre @ open_alts p (p + len_alts bs) 0 bs @ ?post)"
    using p by (intro regtail_branches) (simp_all add: assms(2))
  then show ?thesis by (simp add: open_alts_snoc open_alts_Cons dist_def)
qed

lemma close_alts_code:
  assumes "starts pre ret p" "bs \<noteq> []" "wf_alts bs" "oper \<noteq> BRANCH" "oper \<noteq> BACK"
    and st: "rc_prog st = pre @ open_alts p 0 0 bs"
  shows "close_alts oper ret st =
    Ret (st\<lparr>rc_prog := pre @ code_alts p (p + len_alts bs) bs @ [oper, 0]\<rparr>)"
proof -
  let ?e = "p + len_alts bs"
  let ?P1 = "pre @ open_alts p ?e 0 bs @ [oper, 0]" and ?P2 = "pre @ open_alts p ?e ?e bs @ [oper, 0]"
  have p: "p = length pre" "0 < p" "ret \<le> p" "0 < ret" using assms(1) by (auto simp: starts_def)
  obtain os where os: "walk (pre @ open_alts p 0 0 bs @ [oper, 0]) ret os p" "length os \<le> length pre"
    using starts_walk [OF assms(1)] p by (metis One_nat_def Suc_leI le_trans)
  then have 1: "regtail (pre @ open_alts p 0 0 bs @ [oper, 0]) ret ?e = Ret ?P1"
    using p by (intro regtail_branches) (simp_all add: assms(2))
  have len: "length bs \<le> len_alts bs" by (rule len_alts_ge)
  have hook: "hook_tails (Suc (Suc n) + length bs) ?P1 p ?e = Ret ?P2" for n
  proof -
    have "hook_tails (Suc (Suc n) + length bs) ?P1 p ?e = hook_tails (Suc (Suc n)) ?P2 ?e ?e"
      using hook_tails_branches [of p pre ?e bs ?e "Suc (Suc n)" "[oper, 0]"] p assms(2,3)
      by (simp add: add.commute)
    also have "\<dots> = hook_tails (Suc n) ?P2 0 ?e"
    proof (rule hook_tails_skip [OF _ assms(4)])
      have "has_code ?P2 ?e [oper, 0]" using has_code_mid [of "pre @ open_alts p ?e ?e bs" "[oper, 0]" "[]"] p by simp
      then show "node_at ?P2 ?e oper 0" by (auto simp: node_at_def has_code_Cons regnext_def word_at_def)
    qed (use p in simp)
    finally show ?thesis by simp
  qed
  obtain os where w: "walk ?P1 ret os p" "length os \<le> 1" "BRANCH \<notin> set os"
    using starts_walk [OF assms(1)] by metis
  obtain n where n: "length ?P1 = Suc (Suc n) + length bs + length os"
  proof -
    have "Suc (Suc 0) + length bs + length os \<le> length ?P1" using len w(2) p by simp
    then show thesis using that [of "length ?P1 - (Suc (Suc 0) + length bs + length os)"] by simp
  qed
  have "hook_tails (length ?P1) ?P1 ret ?e = Ret ?P2"
  proof (cases os)
    case Nil
    then show ?thesis using hook n w(1) by simp
  next
    case (Cons o1 os')
    then have o1: "os' = []" "node_at ?P1 ret o1 p" "o1 \<noteq> BRANCH" using w by auto
    show ?thesis unfolding n using Cons o1 hook_tails_skip [OF o1(2,3) p(4), of "Suc (Suc n) + length bs"] hook
      by simp
  qed
  then show ?thesis using 1 st p(1) by (simp add: close_alts_def regnode_def regc_def code_alts_open)
qed

end
