(* ===== verification/Jim_Emit.thy ===== *)
theory Jim_Emit
  imports Jim_Refine
begin

unbundle bit_operations_syntax

text \<open>
  Each function of the compiler against its counterpart of the grammar: it emits, at the end of the
  program, the code of the tree that the grammar answers.
\<close>

section \<open>Emitting a part\<close>

definition with_code :: "rc \<Rightarrow> int list \<Rightarrow> string \<Rightarrow> nat \<Rightarrow> rc" where
  "with_code st ws s n = \<lparr>rc_prog = rc_prog st @ ws, rc_parse = s, rc_nsub = n\<rparr>"

definition here :: "rc \<Rightarrow> nat" where
  "here st = length (rc_prog st)"

definition emits :: "rc \<Rightarrow> ('a \<Rightarrow> int list) \<Rightarrow> 'a parsed \<Rightarrow> node comp" where
  "emits st code r = err_bind r (\<lambda>(t, fl, s, n). Ret (Inr (here st, fl, with_code st (code t) s n)))"

lemma emits_Ret [simp]: "emits st code (Ret (Inr (t, fl, s, n))) = Ret (Inr (here st, fl, with_code st (code t) s n))"
  by (simp add: emits_def err_bind_def)

lemma emits_error [simp]: "emits st code (Ret (Inl e)) = Ret (Inl e)"
  by (simp add: emits_def err_bind_def)

lemma err_bind_Ret [simp]: "err_bind (Ret (Inr x)) f = f x" "err_bind (Ret (Inl e)) f = Ret (Inl e)"
  by (simp_all add: err_bind_def)

lemma err_bind_assoc: "err_bind (err_bind m f) g = err_bind m (\<lambda>x. err_bind (f x) g)"
  by (auto simp: err_bind_def run_bind_assoc intro!: arg_cong [where f = "run_bind m"] split: sum.splits)

lemma err_bind_cong:
  "m = m' \<Longrightarrow> (\<And>x. m' = Ret (Inr x) \<Longrightarrow> f x = g x) \<Longrightarrow> err_bind m f = err_bind m' g"
  by (cases m') (auto simp: err_bind_def split: sum.splits)

lemma emits_addr: "emits st code r = Ret (Inr (a, fl, st')) \<Longrightarrow> a = here st"
  by (cases r) (auto simp: emits_def err_bind_def split: sum.splits)

lemma put_node_emits:
  "put_node oper ws fl st = Ret (Inr (here st, fl, with_code st ([oper, 0] @ ws) (rc_parse st) (rc_nsub st)))"
  by (simp add: put_node_def regnode_def regc_def with_code_def here_def)

lemma with_code_sel [simp]:
  "rc_prog (with_code st ws s n) = rc_prog st @ ws" "rc_parse (with_code st ws s n) = s"
  "rc_nsub (with_code st ws s n) = n"
  by (simp_all add: with_code_def)

lemma with_code_parse [simp]: "with_code (st\<lparr>rc_parse := t\<rparr>) ws s n = with_code st ws s n"
  "here (st\<lparr>rc_parse := t\<rparr>) = here st"
  by (simp_all add: with_code_def here_def)

lemma exact_emits: "exact_atom cf st = emits st (code_atom (here st) 0) (tree_exact cf (rc_parse st) (rc_nsub st))"
  by (auto simp: exact_atom_def tree_exact_def put_node_emits dist_def split: sum.splits)

lemma escape_emits:
  "escape_atom cf st = emits st (code_atom (here st) 0) (tree_escape cf (rc_parse st) (rc_nsub st))"
proof (cases "tl (rc_parse st)")
  case Nil
  then show ?thesis by (simp add: escape_atom_def tree_escape_def)
next
  case (Cons c t)
  then show ?thesis
    by (simp add: escape_atom_def tree_escape_def anchor_of_def put_node_emits put_set_def exact_emits dist_def
        split: option.split)
qed

definition emits_groups :: "(rc \<Rightarrow> node comp) \<Rightarrow> group_parser \<Rightarrow> nat \<Rightarrow> bool" where
  "emits_groups cgrp tgrp l \<longleftrightarrow> groups_below l tgrp \<and> (\<forall>st. length (rc_parse st) < l \<longrightarrow>
     CHR 0x00 \<notin> set (rc_parse st) \<longrightarrow> rc_prog st \<noteq> [] \<longrightarrow>
     cgrp st = emits st (\<lambda>(no, bs). code_atom (here st) 0 (Group no bs)) (tgrp (rc_parse st) (rc_nsub st)))"

lemma emits_groups_le: "emits_groups cgrp tgrp l \<Longrightarrow> k \<le> l \<Longrightarrow> emits_groups cgrp tgrp k"
  by (auto simp: emits_groups_def groups_below_def)

lemma atom_emits:
  assumes "emits_groups cgrp tgrp (length (rc_parse st))" "CHR 0x00 \<notin> set (rc_parse st)" "rc_prog st \<noteq> []"
  shows "regatom cgrp cf st = emits st (code_atom (here st) 0) (tree_atom tgrp cf (rc_parse st) (rc_nsub st))"
proof (cases "rc_parse st")
  case Nil
  then show ?thesis by (simp add: regatom_def tree_atom_def)
next
  case (Cons c t)
  have "cgrp (st\<lparr>rc_parse := t\<rparr>) =
      emits st (\<lambda>(no, bs). code_atom (here st) 0 (Group no bs)) (tgrp t (rc_nsub st))"
    using assms Cons by (auto simp: emits_groups_def emits_def)
  then have g: "err_bind (cgrp (st\<lparr>rc_parse := t\<rparr>)) (\<lambda>(ret, fl, st1). Ret (Inr (ret, fl\<lparr>SIMPLE := False\<rparr>, st1))) =
      emits st (code_atom (here st) 0)
        (err_bind (tgrp t (rc_nsub st)) (\<lambda>((no, bs), fl, rest, n'). Ret (Inr (Group no bs, fl\<lparr>SIMPLE := False\<rparr>, rest, n'))))"
    by (auto simp: emits_def err_bind_assoc split: prod.splits intro!: err_bind_cong)
  show ?thesis
    unfolding regatom_def tree_atom_def Cons list.case Let_def
    by (auto simp: g put_node_emits put_set_def escape_emits exact_emits dist_def Cons
        split: sum.splits prod.splits simp del: list.set)
qed

section \<open>Pieces\<close>

text \<open>Code does not depend on where it is.\<close>

definition moved :: "nat \<Rightarrow> nat \<Rightarrow> nat" where
  "moved d q = (if q = 0 then 0 else q + d)"

lemma dist_moved: "dist (p + d) (moved d q) = dist p q"
  by (simp add: dist_def moved_def)

lemma code_moved:
  "code_atom (p + d) (moved d q) a = code_atom p q a"
  "code_piece (p + d) (moved d q) y = code_piece p q y"
  "code_seq (p + d) (moved d q) ys = code_seq p q ys"
  "code_alts (p + d) (moved d q) bs = code_alts p q bs"
proof (induction p q a and p q y and p q ys and p q bs rule: code_atom_code_piece_code_seq_code_alts.induct)
  case (4 p q no bs)
  have "moved d (p + 2 + len_alts bs) = p + d + 2 + len_alts bs" by (simp add: moved_def)
  then show ?case using 4 dist_moved [of "p + 2 + len_alts bs" d q] by (simp add: ac_simps)
next
  case (6 p q lazy mn mx a)
  have "moved d (p + 5 + len_atom a) = p + d + 5 + len_atom a" "moved d 0 = 0" by (simp_all add: moved_def)
  then show ?case using 6 dist_moved [of p d q] by (simp add: ac_simps)
next
  case (8 p q y ys)
  have "p + len_piece y \<noteq> 0" using len_piece_pos(2) [of y] by linarith
  then have "moved d (p + len_piece y) = p + d + len_piece y" by (simp only: moved_def) simp
  then show ?case using 8 by (cases "ys = []") (simp_all add: ac_simps)
next
  case (10 p e b bs)
  then show ?case using dist_moved [of p d e] dist_moved [of "p + 2" d e] by (simp add: ac_simps)
qed (simp_all add: dist_moved)

lemma code_moved_open: "code_atom (p + d) 0 a = code_atom p 0 a"
  using code_moved(1) [of p d 0 a] by (simp add: moved_def)

lemma loop_back_code:
  assumes "rc_prog st = pre @ [REPX', 0, mx, mn, 0] @ code_atom (p + 5) 0 a" "p = length pre" "0 < p" "wf_atom a"
  shows "loop_back p st = Ret (st\<lparr>rc_prog := pre @ [REPX', 0, mx, mn, 0]
    @ code_atom (p + 5) (p + 5 + len_atom a) a @ [BACK, int (5 + len_atom a)]\<rparr>)"
proof -
  let ?head = "pre @ [REPX', 0, mx, mn, 0]" and ?b = "p + 5 + len_atom a"
  let ?P = "?head @ code_atom (p + 5) 0 a @ [BACK, 0]"
  let ?P1 = "?head @ code_piece (p + 5) 0 (One a) @ [BACK, int (5 + len_atom a)]"
  have "has_code ?P ?b [BACK, 0]"
    using has_code_mid [of "?head @ code_atom (p + 5) 0 a" "[BACK, 0]" "[]"] assms(2) by (simp add: ac_simps eval_nat_numeral)
  then have "regnext ?P ?b = Ret 0" "?P ! ?b = BACK"
    by (auto simp: has_code_Cons regnext_def word_at_def)
  then have "regtail ?P ?b p = Ret (?P[?b + 1 := int ?b - int p])" by (simp add: regtail_def)
  also have "?P[?b + 1 := int ?b - int p] = ?P1" using assms(2) by (simp add: list_update_append)
  finally have 1: "regtail ?P ?b p = Ret ?P1" .
  have "regtail ?P1 (p + 5) ?b = Ret (?head @ code_piece (p + 5) ?b (One a) @ [BACK, int (5 + len_atom a)])"
    using assms(2-4) by (intro regtail_piece) auto
  then show ?thesis using 1 assms(1,2) by (simp add: loop_back_def regnode_def regc_def ac_simps eval_nat_numeral)
qed

lemma count_emits:
  assumes "wf_atom a" "SIMPLE fl = is_simple a" "rc_prog st \<noteq> []"
  shows "put_count (here st) fl (with_code st (code_atom (here st) 0 a) t n) =
    emits st (code_piece (here st) 0) (tree_count a fl t n)"
proof (cases "is_mult t \<and> (HASWIDTH fl \<or> hd t = CHR ''?'')")
  case False
  then show ?thesis by (auto simp: put_count_def tree_count_def)
next
  case True
  show ?thesis
  proof (cases "rep_count t")
    case (Inl e)
    then show ?thesis using True by (auto simp: put_count_def tree_count_def)
  next
    case (Inr c)
    obtain mn mx t1 where c: "c = (mn, mx, t1)" by (cases c)
    let ?lazy = "starts_with (tl t1) (CHR ''?'')"
    let ?oper = "if SIMPLE fl then if ?lazy then REPMIN else REP else if ?lazy then REPXMIN else REPX"
    let ?st = "with_code st ([?oper, 0, mx, mn, 0] @ code_atom (here st) 0 a) t n"
    have 1: "(with_code st (code_atom (here st) 0 a) t n)
        \<lparr>rc_prog := reginsert [oper, 0, mx, mn, 0] (here st) (rc_prog st @ code_atom (here st) 0 a)\<rparr> =
        with_code st ([oper, 0, mx, mn, 0] @ code_atom (here st) 0 a) t n" for oper
      by (simp add: reginsert_def here_def with_code_def)
    have 2: "(if SIMPLE fl then Ret ?st else loop_back (here st) ?st) =
        Ret (with_code st (code_piece (here st) 0 (Many ?lazy mn mx a)) t n)"
    proof (cases "is_simple a")
      case True
      then show ?thesis using assms(2) code_moved_open [of "here st" 5 a] by (simp add: dist_def)
    next
      case False
      then show ?thesis
        using assms loop_back_code [of ?st "rc_prog st" _ mx mn "here st" a] code_moved_open [of "here st" 5 a]
        by (simp add: dist_def here_def with_code_def)
    qed
    have "put_count (here st) fl (with_code st (code_atom (here st) 0 a) t n) =
        (let s2 = (if ?lazy then tl t1 else t1) in
         run_bind (if SIMPLE fl then Ret ?st else loop_back (here st) ?st) (\<lambda>st3.
           if is_mult (tl s2) then Ret (Inl REG_ERR_NESTED_COUNT)
           else Ret (Inr (here st, if mn \<noteq> 0 then WIDE else WORST\<lparr>SPSTART := True\<rparr>, st3\<lparr>rc_parse := tl s2\<rparr>))))"
      using True Inr c by (auto simp: put_count_def Let_def 1 [simplified])
    also have "\<dots> = emits st (code_piece (here st) 0) (tree_count a fl t n)"
      unfolding 2 using True Inr c by (simp add: tree_count_def Let_def with_code_def here_def)
    finally show ?thesis .
  qed
qed

lemma piece_emits:
  assumes g: "emits_groups cgrp tgrp (length (rc_parse st))" and "CHR 0x00 \<notin> set (rc_parse st)"
    and "rc_prog st \<noteq> []" "rc_parse st \<noteq> []"
  shows "regpiece cgrp cf st = emits st (code_piece (here st) 0) (tree_piece tgrp cf (rc_parse st) (rc_nsub st))"
proof -
  let ?a = "tree_atom tgrp cf (rc_parse st) (rc_nsub st)"
  have "yields captured_ok (tl (rc_parse st)) (tgrp (tl (rc_parse st)) (rc_nsub st))"
    using g assms(4) within_nul [OF within_tl assms(2)] by (auto simp: emits_groups_def groups_below_def)
  then have y: "yields atom_ok (tl (rc_parse st)) ?a" by (rule tree_atom_yields [OF assms(2,4)])
  have "regpiece cgrp cf st = err_bind ?a (\<lambda>(a, fl, t, n').
      put_count (here st) fl (with_code st (code_atom (here st) 0 a) t n'))"
    unfolding regpiece_def atom_emits [OF assms(1-3)] emits_def err_bind_assoc
    by (intro err_bind_cong) (auto split: prod.splits)
  also have "\<dots> = err_bind ?a (\<lambda>(a, fl, t, n'). emits st (code_piece (here st) 0) (tree_count a fl t n'))"
    using y by (intro err_bind_cong) (auto simp: atom_ok_def assms(3) count_emits)
  also have "\<dots> = emits st (code_piece (here st) 0) (tree_piece tgrp cf (rc_parse st) (rc_nsub st))"
    unfolding tree_piece_def emits_def err_bind_assoc by (intro err_bind_cong) (auto split: prod.splits)
  finally show ?thesis .
qed

section \<open>Branches\<close>

lemma with_code_with_code [simp]: "with_code (with_code st u s n) v t k = with_code st (u @ v) t k"
  by (simp add: with_code_def)

lemma with_code_prog: "rc_prog st @ v = rc_prog st @ w \<Longrightarrow> with_code st v s n = with_code st w s n"
  by (simp add: with_code_def)

definition chain_of :: "nat \<Rightarrow> piece list \<Rightarrow> nat" where
  "chain_of p ys = (if ys = [] then 0 else p + len_seq (butlast ys))"

lemma chain_linked:
  assumes "here st = p" "0 < p" "ys \<noteq> []" "wf_seq ys"
  shows "regtail (rc_prog st @ code_seq p 0 ys @ post) (chain_of p ys) (p + len_seq ys) =
    Ret (rc_prog st @ code_seq p (p + len_seq ys) ys @ post)"
proof -
  obtain zs z where ys: "ys = zs @ [z]" using assms(3) by (metis rev_exhaust)
  let ?q = "p + len_seq zs" and ?r = "p + len_seq ys"
  have "regtail ((rc_prog st @ code_seq p ?q zs) @ code_piece ?q 0 z @ post) ?q ?r =
      Ret ((rc_prog st @ code_seq p ?q zs) @ code_piece ?q ?r z @ post)"
    using assms ys by (intro regtail_piece) (auto simp: here_def)
  then show ?thesis by (simp add: ys chain_of_def code_seq_snoc)
qed

lemma piece_loop_emits:
  assumes "here st = p" "0 < p" "wf_seq ys" "length s < k" "CHR 0x00 \<notin> set s" "emits_groups cgrp tgrp (length s)"
  shows "piece_loop k cgrp cf (chain_of p ys) fl (with_code st (code_seq p 0 ys) s n) =
    err_bind (tree_pieces k tgrp cf ys fl s n) (\<lambda>(ys', fl', t, n'). Ret (Inr (fl', with_code st (body p 0 ys') t n')))"
  using assms(3-)
proof (induction k arbitrary: ys fl s n)
  case (Suc k)
  let ?st = "with_code st (code_seq p 0 ys) s n" and ?q = "p + len_seq ys"
  have chain: "(chain_of p ys = 0) = (ys = [])" using assms(2) by (simp add: chain_of_def)
  show ?case
  proof (cases "s = [] \<or> hd s \<in> set '')|''")
    case True
    then have "piece_loop (Suc k) cgrp cf (chain_of p ys) fl ?st =
        Ret (Inr (fl, if ys = [] then snd (regnode NOTHING ?st) else ?st))"
      using chain by (simp del: list.set)
    also have "\<dots> = Ret (Inr (fl, with_code st (body p 0 ys) s n))"
      by (simp add: body_def regnode_def regc_def with_code_def dist_def)
    finally show ?thesis using True by (simp del: list.set)
  next
    case False
    let ?g = "\<lambda>(y, fl1, t, n'). tree_pieces k tgrp cf (ys @ [y])
        (fl\<lparr>HASWIDTH := HASWIDTH fl \<or> HASWIDTH fl1, SPSTART := SPSTART fl \<or> ys = [] \<and> SPSTART fl1\<rparr>) t n'"
    let ?h = "\<lambda>(ys', fl', t, n'). Ret (Inr (fl', with_code st (body p 0 ys') t n'))"
    let ?f = "\<lambda>(latest, fl1, st1).
        let fl2 = fl\<lparr>HASWIDTH := HASWIDTH fl \<or> HASWIDTH fl1\<rparr> in
        if chain_of p ys = 0 then piece_loop k cgrp cf latest (fl2\<lparr>SPSTART := SPSTART fl \<or> SPSTART fl1\<rparr>) st1
        else run_bind (regtail (rc_prog st1) (chain_of p ys) latest) (\<lambda>pr.
          piece_loop k cgrp cf latest fl2 (st1\<lparr>rc_prog := pr\<rparr>))"
    have here: "here ?st = ?q" using assms(1) by (simp add: here_def)
    have e: "regpiece cgrp cf ?st = emits ?st (code_piece ?q 0) (tree_piece tgrp cf s n)"
      using piece_emits [of cgrp tgrp ?st cf] Suc.prems False assms(1,2) here by (auto simp: here_def)
    have y: "yields (\<lambda>y fl. wf_piece y) (tl s) (tree_piece tgrp cf s n)"
      using Suc.prems False by (intro tree_piece_yields) (auto simp: emits_groups_def)
    have step: "?f (?q, fl1, with_code ?st (code_piece ?q 0 y) t n') = err_bind (?g (y, fl1, t, n')) ?h"
      if r: "tree_piece tgrp cf s n = Ret (Inr (y, fl1, t, n'))" for y fl1 t n'
    proof -
      have w: "wf_piece y" "within t (tl s)" using y r by auto
      have "length t < length s" using w(2) False by (cases s) (auto simp: within_def)
      moreover have "CHR 0x00 \<notin> set t" using within_nul [OF within_trans [OF w(2) within_tl] Suc.prems(3)] .
      ultimately have IH: "piece_loop k cgrp cf (chain_of p (ys @ [y])) fl'
          (with_code st (code_seq p 0 (ys @ [y])) t n') = err_bind (tree_pieces k tgrp cf (ys @ [y]) fl' t n') ?h" for fl'
        using Suc.prems w(1) by (intro Suc.IH) (auto elim: emits_groups_le)
      have last: "chain_of p (ys @ [y]) = ?q" by (simp add: chain_of_def)
      show ?thesis
      proof (cases "ys = []")
        case True
        then show ?thesis using IH last chain by (simp add: Let_def)
      next
        case ys: False
        have "regtail (rc_prog st @ code_seq p 0 ys @ code_piece ?q 0 y) (chain_of p ys) ?q =
            Ret (rc_prog st @ code_seq p 0 (ys @ [y]))"
          using chain_linked [OF assms(1,2) ys Suc.prems(1)] by (simp add: code_seq_snoc)
        moreover have "fl\<lparr>HASWIDTH := h, SPSTART := SPSTART fl\<rparr> = fl\<lparr>HASWIDTH := h\<rparr>" for h by simp
        ultimately show ?thesis using IH last chain ys by (simp add: Let_def with_code_def)
      qed
    qed
    have "piece_loop (Suc k) cgrp cf (chain_of p ys) fl ?st = err_bind (regpiece cgrp cf ?st) ?f"
      using False by (simp del: list.set)
    also have "\<dots> = err_bind (tree_piece tgrp cf s n) (\<lambda>r. err_bind (?g r) ?h)"
      unfolding e emits_def err_bind_assoc here
      by (intro err_bind_cong) (use step here in \<open>auto split: prod.splits\<close>)
    also have "\<dots> = err_bind (tree_pieces (Suc k) tgrp cf ys fl s n) ?h"
      using False by (simp add: err_bind_assoc del: list.set)
    finally show ?thesis .
  qed
qed simp

lemma branch_emits:
  assumes "emits_groups cgrp tgrp (length (rc_parse st))" "CHR 0x00 \<notin> set (rc_parse st)"
  shows "regbranch cgrp cf st =
    emits st (\<lambda>b. [BRANCH, 0] @ body (here st + 2) 0 b) (tree_branch tgrp cf (rc_parse st) (rc_nsub st))"
proof -
  let ?st = "with_code st [BRANCH, 0] (rc_parse st) (rc_nsub st)"
  have 1: "regnode BRANCH st = (here st, ?st)" by (simp add: regnode_def regc_def with_code_def here_def)
  have "piece_loop (Suc (length (rc_parse st))) cgrp cf (chain_of (here st + 2) []) WORST
      (with_code ?st (code_seq (here st + 2) 0 []) (rc_parse st) (rc_nsub st)) =
    err_bind (tree_pieces (Suc (length (rc_parse st))) tgrp cf [] WORST (rc_parse st) (rc_nsub st))
      (\<lambda>(ys', fl', t, n'). Ret (Inr (fl', with_code ?st (body (here st + 2) 0 ys') t n')))"
    using assms by (intro piece_loop_emits) (auto simp: here_def)
  then have 2: "piece_loop (Suc (length (rc_parse st))) cgrp cf 0 WORST ?st =
    err_bind (tree_branch tgrp cf (rc_parse st) (rc_nsub st))
      (\<lambda>(ys', fl', t, n'). Ret (Inr (fl', with_code st ([BRANCH, 0] @ body (here st + 2) 0 ys') t n')))"
    by (simp add: chain_of_def tree_branch_def)
  show ?thesis
    unfolding regbranch_def 1 prod.case 2 emits_def err_bind_assoc
    by (intro err_bind_cong) (auto split: prod.splits)
qed

lemma alt_loop_emits:
  assumes "starts (rc_prog st) ret p" "wf_alts bs" "bs \<noteq> []" "length s < k" "CHR 0x00 \<notin> set s"
    and "emits_groups cgrp tgrp (length s)"
  shows "alt_loop k cgrp cf ret fl (with_code st (open_alts p 0 0 bs) s n) =
    err_bind (tree_alts k tgrp cf bs fl s n) (\<lambda>(bs', fl', t, n'). Ret (Inr (fl', with_code st (open_alts p 0 0 bs') t n')))"
  using assms(2-)
proof (induction k arbitrary: bs fl s n)
  case (Suc k)
  let ?st = "with_code st (open_alts p 0 0 bs) s n" and ?q = "p + len_alts bs"
  show ?case
  proof (cases "starts_with s (CHR ''|'')")
    case False
    then show ?thesis by simp
  next
    case True
    then have s: "s \<noteq> []" "length (tl s) < length s" by (auto simp: starts_with_iff)
    let ?g = "\<lambda>(b, fl1, t, n'). tree_alts k tgrp cf (bs @ [b])
        (fl\<lparr>HASWIDTH := HASWIDTH fl \<and> HASWIDTH fl1, SPSTART := SPSTART fl \<or> SPSTART fl1\<rparr>) t n'"
    let ?h = "\<lambda>(bs', fl', t, n'). Ret (Inr (fl', with_code st (open_alts p 0 0 bs') t n'))"
    let ?f = "\<lambda>(br, fl1, st1). run_bind (regtail (rc_prog st1) ret br) (\<lambda>pr. alt_loop k cgrp cf ret
        (fl\<lparr>HASWIDTH := HASWIDTH fl \<and> HASWIDTH fl1, SPSTART := SPSTART fl \<or> SPSTART fl1\<rparr>) (st1\<lparr>rc_prog := pr\<rparr>))"
    let ?st1 = "?st\<lparr>rc_parse := tl s\<rparr>" and ?c = "\<lambda>b. [BRANCH, 0] @ body (?q + 2) 0 b"
    have here: "here ?st1 = ?q" using assms(1) by (simp add: here_def starts_def)
    have nul: "CHR 0x00 \<notin> set (tl s)" using within_nul [OF within_tl Suc.prems(4)] .
    have g: "emits_groups cgrp tgrp (length (tl s))" using Suc.prems(5) by (rule emits_groups_le) simp
    have e: "regbranch cgrp cf ?st1 = emits ?st1 ?c (tree_branch tgrp cf (tl s) n)"
      using branch_emits [of cgrp tgrp ?st1 cf] g nul here by simp
    have y: "yields (\<lambda>b fl. wf_seq b) (tl s) (tree_branch tgrp cf (tl s) n)"
      using tree_branch_yields [OF nul] g by (auto simp: emits_groups_def)
    have step: "?f (?q, fl1, with_code ?st1 (?c b) t n') = err_bind (?g (b, fl1, t, n')) ?h"
      if r: "tree_branch tgrp cf (tl s) n = Ret (Inr (b, fl1, t, n'))" for b fl1 t n'
    proof -
      have w: "wf_seq b" "within t (tl s)" using y r by auto
      have "length t < length s" using w(2) s(2) unfolding within_def by linarith
      moreover have "CHR 0x00 \<notin> set t" using within_nul [OF w(2) nul] .
      ultimately have IH: "alt_loop k cgrp cf ret fl' (with_code st (open_alts p 0 0 (bs @ [b])) t n') =
          err_bind (tree_alts k tgrp cf (bs @ [b]) fl' t n') ?h" for fl'
        using Suc.prems w(1) by (intro Suc.IH) (auto elim: emits_groups_le)
      have "regtail (rc_prog st @ open_alts p 0 0 bs @ ?c b) ret ?q = Ret (rc_prog st @ open_alts p 0 0 (bs @ [b]))"
        using alt_linked [OF assms(1) Suc.prems(2)] by simp
      then show ?thesis using IH by (simp add: with_code_def)
    qed
    have "alt_loop (Suc k) cgrp cf ret fl ?st = err_bind (regbranch cgrp cf ?st1) ?f"
      using True by simp
    also have "\<dots> = err_bind (tree_branch tgrp cf (tl s) n) (\<lambda>r. err_bind (?g r) ?h)"
      unfolding e emits_def err_bind_assoc here
      by (intro err_bind_cong) (use step in \<open>auto split: prod.splits\<close>)
    also have "\<dots> = err_bind (tree_alts (Suc k) tgrp cf bs fl s n) ?h"
      using True by (simp add: err_bind_assoc)
    finally show ?thesis .
  qed
qed simp

section \<open>Expressions\<close>

definition code_of :: "bool \<Rightarrow> nat \<Rightarrow> int \<times> piece list list \<Rightarrow> int list" where
  "code_of paren p g =
     (if paren then code_atom p 0 (Group (fst g) (snd g))
      else code_alts p (p + len_alts (snd g)) (snd g) @ [OP_END, 0])"

lemma code_of_group: "code_of True p = (\<lambda>(no, bs). code_atom p 0 (Group no bs))"
  by (auto simp: code_of_def fun_eq_iff simp del: code_atom.simps)

text \<open>The end of an expression whose choice is at \<open>p\<close>.\<close>

lemma reg_rest:
  assumes "starts (rc_prog st) ret p" "wf_seq b" "CHR 0x00 \<notin> set s" "emits_groups cgrp tgrp (length s)"
    and "oper \<noteq> BRANCH" "oper \<noteq> BACK"
  shows "err_bind (alt_loop (Suc (length s)) cgrp cf ret fl (with_code st (open_alts p 0 0 [b]) s n)) (\<lambda>(fl, st4).
         run_bind (close_alts oper ret st4) (\<lambda>st5.
         Ret (case reg_end paren st5 of Inl e \<Rightarrow> Inl e | Inr st6 \<Rightarrow> Inr (ret, fl, st6)))) =
    err_bind (tree_alts (Suc (length s)) tgrp cf [b] fl s n) (\<lambda>(bs, fl, t, n').
      case tree_end paren t of Inl e \<Rightarrow> Ret (Inl e)
      | Inr t' \<Rightarrow> Ret (Inr (ret, fl, with_code st (code_alts p (p + len_alts bs) bs @ [oper, 0]) t' n')))"
proof -
  let ?h = "\<lambda>(fl, st4). run_bind (close_alts oper ret st4) (\<lambda>st5.
         Ret (case reg_end paren st5 of Inl e \<Rightarrow> Inl e | Inr st6 \<Rightarrow> Inr (ret, fl, st6)))"
  let ?g = "\<lambda>(bs, fl, t, n').
      case tree_end paren t of Inl e \<Rightarrow> Ret (Inl e)
      | Inr t' \<Rightarrow> Ret (Inr (ret, fl, with_code st (code_alts p (p + len_alts bs) bs @ [oper, 0]) t' n'))"
  have "alt_loop (Suc (length s)) cgrp cf ret fl (with_code st (open_alts p 0 0 [b]) s n) =
      err_bind (tree_alts (Suc (length s)) tgrp cf [b] fl s n)
        (\<lambda>(bs', fl', t, n'). Ret (Inr (fl', with_code st (open_alts p 0 0 bs') t n')))"
    using assms by (intro alt_loop_emits) auto
  note e = this
  have y: "yields (\<lambda>bs fl. wf_alts bs \<and> bs \<noteq> []) s (tree_alts (Suc (length s)) tgrp cf [b] fl s n)"
    using assms by (intro tree_alts_yields) (auto simp: emits_groups_def)
  have "?h (fl', with_code st (open_alts p 0 0 bs) t n') = ?g (bs, fl', t, n')"
    if "tree_alts (Suc (length s)) tgrp cf [b] fl s n = Ret (Inr (bs, fl', t, n'))" for bs fl' t n'
  proof -
    have "wf_alts bs" "bs \<noteq> []" using y that by auto
    then have "close_alts oper ret (with_code st (open_alts p 0 0 bs) t n') =
        Ret (with_code st (code_alts p (p + len_alts bs) bs @ [oper, 0]) t n')"
      using close_alts_code [OF assms(1) _ _ assms(5,6), of bs] by (simp add: with_code_def)
    then show ?thesis by (simp add: reg_end_def tree_end_def Let_def with_code_def)
  qed
  then show ?thesis unfolding e err_bind_assoc
    by (intro err_bind_cong) (auto split: prod.splits)
qed

theorem reg_emits:
  assumes "length (rc_parse st) < k" "CHR 0x00 \<notin> set (rc_parse st)" "rc_prog st \<noteq> []"
  shows "reg k cf paren st = emits st (code_of paren (here st)) (tree k cf paren (rc_parse st) (rc_nsub st))"
  using assms
proof (induction k arbitrary: paren st)
  case (Suc k)
  let ?s = "rc_parse st" and ?n = "rc_nsub st"
  let ?c = "reg k cf True" and ?t = "tree k cf True"
  have g: "emits_groups ?c ?t (length ?s)"
    unfolding emits_groups_def
  proof
    show "groups_below (length ?s) ?t"
      using tree_yields [of _ k True cf] Suc.prems(1) by (simp add: groups_below_def tree_ok_group)
    show "\<forall>st'. length (rc_parse st') < length ?s \<longrightarrow> CHR 0x00 \<notin> set (rc_parse st') \<longrightarrow> rc_prog st' \<noteq> [] \<longrightarrow>
        ?c st' = emits st' (\<lambda>(no, bs). code_atom (here st') 0 (Group no bs)) (?t (rc_parse st') (rc_nsub st'))"
    proof (intro allI impI)
      fix st' :: rc assume "length (rc_parse st') < length ?s" "CHR 0x00 \<notin> set (rc_parse st')" "rc_prog st' \<noteq> []"
      then have "?c st' = emits st' (code_of True (here st')) (?t (rc_parse st') (rc_nsub st'))"
        using Suc.prems(1) by (intro Suc.IH) simp_all
      then show "?c st' = emits st' (\<lambda>(no, bs). code_atom (here st') 0 (Group no bs)) (?t (rc_parse st') (rc_nsub st'))"
        by (simp only: code_of_group)
    qed
  qed
  obtain no s1 n1 where o: "tree_open paren ?s ?n = (no, s1, n1)" by (cases "tree_open paren ?s ?n") auto
  have s1: "within s1 ?s" "paren \<longrightarrow> no = - 1 \<or> 0 < no" "\<not> paren \<longrightarrow> no = 0"
    using o by (auto simp: tree_open_def split: if_splits)
  have nul: "CHR 0x00 \<notin> set s1" using within_nul [OF s1(1) Suc.prems(2)] .
  have g1: "emits_groups ?c ?t (length s1)" using g s1(1) by (auto simp: within_def elim: emits_groups_le)
  let ?head = "if paren then [OPEN + no, 0] else []" and ?head2 = "if paren then [OPEN + no, 2] else []"
  let ?p = "here st + length ?head" and ?oper = "if paren then CLOSE + no else OP_END"
  let ?st2 = "with_code st ?head s1 n1" and ?st2' = "with_code st ?head2 s1 n1"
  have here: "here ?st2 = ?p" by (simp add: here_def)
  have st: "0 < here st" using Suc.prems(3) by (simp add: here_def)
  let ?w = "\<lambda>fl1. WORST\<lparr>HASWIDTH := HASWIDTH fl1, SPSTART := SPSTART fl1\<rparr>"
  let ?rest = "\<lambda>ret (fl1 :: flags) (st3 :: rc).
      err_bind (alt_loop (Suc (length (rc_parse st3))) ?c cf ret (?w fl1) st3) (\<lambda>(fl, st4).
         run_bind (close_alts ?oper ret st4) (\<lambda>st5.
         Ret (case reg_end paren st5 of Inl e \<Rightarrow> Inl e | Inr st6 \<Rightarrow> Inr (ret, fl, st6))))"
  let ?k = "\<lambda>(br, fl1, st3). run_bind (if paren then regtail (rc_prog st3) (here st) br else Ret (rc_prog st3)) (\<lambda>pr.
      ?rest (here st) fl1 (st3\<lparr>rc_prog := pr\<rparr>))"
  have op: "open_group st = (no, with_code st [] s1 n1)" if paren
    using o that by (auto simp: open_group_def tree_open_def with_code_def split: if_splits)
  have st1: "st = with_code st [] s1 n1" if "\<not> paren" using o that by (simp add: tree_open_def with_code_def)
  have e: "regbranch ?c cf ?st2 = emits ?st2 (\<lambda>b. open_alts ?p 0 0 [b]) (tree_branch ?t cf s1 n1)"
    using branch_emits [of ?c ?t ?st2 cf] g1 nul here by (simp add: open_alts_Cons dist_def)
  have br: "br = here st" if "\<not> paren" "regbranch ?c cf ?st2 = Ret (Inr (br, fl1, st3))" for br fl1 st3
    using emits_addr [of ?st2] that(1) that(2) [unfolded e] here by fastforce
  have "reg (Suc k) cf paren st = err_bind (regbranch ?c cf ?st2) ?k"
  proof (cases paren)
    case True
    have "regnode (OPEN + no) (with_code st [] s1 n1) = (here st, ?st2)"
      using True by (simp add: regnode_def regc_def with_code_def here_def)
    then show ?thesis using True op st
      by (simp add: Let_def del: alt_loop.simps cong del: prod.case_cong_weak sum.case_cong_weak)
  next
    case False
    have "reg (Suc k) cf False st = err_bind (regbranch ?c cf st) (\<lambda>(br, fl1, st3).
        ?rest br fl1 (st3\<lparr>rc_prog := rc_prog st3\<rparr>))"
      using False by (simp add: Let_def del: alt_loop.simps cong del: prod.case_cong_weak sum.case_cong_weak)
    also have "\<dots> = err_bind (regbranch ?c cf ?st2) ?k"
      using st1 [OF False] br [OF False] False by (intro err_bind_cong) auto
    finally show ?thesis using False by simp
  qed
  also have "\<dots> = err_bind (tree_branch ?t cf s1 n1) (\<lambda>(b, fl1, s2, n2).
      ?k (?p, fl1, with_code ?st2 (open_alts ?p 0 0 [b]) s2 n2))"
    unfolding e emits_def err_bind_assoc here by (intro err_bind_cong) (auto split: prod.splits)
  also have "\<dots> = emits st (code_of paren (here st)) (tree (Suc k) cf paren ?s ?n)"
  proof -
    have step: "?k (?p, fl1, with_code ?st2 (open_alts ?p 0 0 [b]) s2 n2) =
        err_bind (tree_alts (Suc (length s2)) ?t cf [b] (?w fl1) s2 n2) (\<lambda>(bs, fl, t, n').
          case tree_end paren t of Inl e \<Rightarrow> Ret (Inl e)
          | Inr t' \<Rightarrow> Ret (Inr (here st, fl, with_code st (code_of paren (here st) (no, bs)) t' n')))"
      if b: "tree_branch ?t cf s1 n1 = Ret (Inr (b, fl1, s2, n2))" for b fl1 s2 n2
    proof -
      have "yields (\<lambda>b fl. wf_seq b) s1 (tree_branch ?t cf s1 n1)"
        using tree_branch_yields [OF nul] g1 by (auto simp: emits_groups_def)
      then have w: "wf_seq b" "within s2 s1" using b by auto
      have g2: "emits_groups ?c ?t (length s2)" "CHR 0x00 \<notin> set s2"
        using g1 w(2) within_nul [OF w(2) nul] by (auto simp: within_def elim: emits_groups_le)
      have starts: "starts (rc_prog ?st2') (here st) ?p"
        using st s1(2) by (auto simp: starts_def here_def has_code_def op_defs)
      have oper: "?oper \<noteq> BRANCH" "?oper \<noteq> BACK" using s1(2) by (auto simp: op_defs)
      have "(if paren then regtail (rc_prog st @ ?head @ open_alts ?p 0 0 [b]) (here st) ?p
          else Ret (rc_prog st @ ?head @ open_alts ?p 0 0 [b])) = Ret (rc_prog st @ ?head2 @ open_alts ?p 0 0 [b])"
      proof (cases paren)
        case True
        let ?P = "rc_prog st @ [OPEN + no, 0] @ open_alts ?p 0 0 [b]"
        have "has_code ?P (here st) [OPEN + no, 0]" unfolding here_def by (rule has_code_mid)
        then have "node_at ?P (here st) (OPEN + no) 0"
          by (auto simp: node_at_def has_code_Cons regnext_def word_at_def)
        moreover have "OPEN + no \<noteq> BACK" using s1(2) True by (auto simp: op_defs)
        ultimately show ?thesis using regtail_walk [of ?P "here st" "[]" "here st" "OPEN + no" ?p] True
          by (simp add: here_def list_update_append)
      qed simp
      then have pr: "(if paren then regtail (rc_prog (with_code ?st2 (open_alts ?p 0 0 [b]) s2 n2)) (here st) ?p
          else Ret (rc_prog (with_code ?st2 (open_alts ?p 0 0 [b]) s2 n2))) =
          Ret (rc_prog (with_code ?st2' (open_alts ?p 0 0 [b]) s2 n2))"
        by (simp only: with_code_sel(1) append_assoc)
      have up: "(with_code ?st2 (open_alts ?p 0 0 [b]) s2 n2)
          \<lparr>rc_prog := rc_prog (with_code ?st2' (open_alts ?p 0 0 [b]) s2 n2)\<rparr> =
          with_code ?st2' (open_alts ?p 0 0 [b]) s2 n2" by (simp add: with_code_def)
      have "?k (?p, fl1, with_code ?st2 (open_alts ?p 0 0 [b]) s2 n2) =
          ?rest (here st) fl1 (with_code ?st2' (open_alts ?p 0 0 [b]) s2 n2)"
        by (simp only: prod.case pr run_bind.simps up)
      also have "\<dots> = err_bind (tree_alts (Suc (length s2)) ?t cf [b] (?w fl1) s2 n2) (\<lambda>(bs, fl, t, n').
          case tree_end paren t of Inl e \<Rightarrow> Ret (Inl e)
          | Inr t' \<Rightarrow> Ret (Inr (here st, fl,
              with_code ?st2' (code_alts ?p (?p + len_alts bs) bs @ [?oper, 0]) t' n')))"
        unfolding with_code_sel(2) by (rule reg_rest [OF starts w(1) g2(2,1) oper])
      also have "\<dots> = err_bind (tree_alts (Suc (length s2)) ?t cf [b] (?w fl1) s2 n2) (\<lambda>(bs, fl, t, n').
          case tree_end paren t of Inl e \<Rightarrow> Ret (Inl e)
          | Inr t' \<Rightarrow> Ret (Inr (here st, fl, with_code st (code_of paren (here st) (no, bs)) t' n')))"
        using s1(3) by (intro err_bind_cong refl) (auto simp: code_of_def dist_def split: sum.splits prod.splits)
      finally show ?thesis .
    qed
    let ?T = "\<lambda>(b, fl1, s2, n2). err_bind (tree_alts (Suc (length s2)) ?t cf [b] (?w fl1) s2 n2)
        (\<lambda>(bs, fl, s3, n3). case tree_end paren s3 of Inl e \<Rightarrow> Ret (Inl e)
          | Inr s4 \<Rightarrow> Ret (Inr ((no, bs), fl, s4, n3)))"
    have e2: "emits st (code_of paren (here st)) (tree (Suc k) cf paren ?s ?n) =
        err_bind (tree_branch ?t cf s1 n1) (\<lambda>r. err_bind (?T r)
          (\<lambda>(t, fl, s, n). Ret (Inr (here st, fl, with_code st (code_of paren (here st) t) s n))))"
      by (simp add: o emits_def err_bind_assoc)
    have e3: "(case r of (b, fl1, s2, n2) \<Rightarrow> ?k (?p, fl1, with_code ?st2 (open_alts ?p 0 0 [b]) s2 n2)) =
        err_bind (?T r) (\<lambda>(t, fl, s, n). Ret (Inr (here st, fl, with_code st (code_of paren (here st) t) s n)))"
      if r: "tree_branch ?t cf s1 n1 = Ret (Inr r)" for r
    proof -
      obtain b fl1 s2 n2 where R: "r = (b, fl1, s2, n2)" by (cases r)
      show ?thesis unfolding R prod.case step [OF r [unfolded R], unfolded prod.case] err_bind_assoc
        by (intro err_bind_cong) (auto split: sum.splits)
    qed
    show ?thesis unfolding e2 by (rule err_bind_cong [OF refl e3])
  qed
  finally show ?case .
qed simp

end
