(* ===== verification/Jim_Facts.thy ===== *)
theory Jim_Facts
  imports Jim_Emit
begin

unbundle bit_operations_syntax

text \<open>
  The compiler and the matcher together: what is compiled is the layout of the tree of the text, with notes
  that hold of the tree, and what is matched is what the tree means.
\<close>

section \<open>The notes of the optimiser\<close>

lemma first_word:
  assumes "wf_piece y"
  shows "\<exists>w d ws. code_piece p q y = w # d # ws \<and> (w = EXACTLY \<longrightarrow> (\<exists>c cs. y = One (Exact (c # cs)) \<and> ws = c # cs @ [0])) \<and>
    (w = BOL \<longrightarrow> y = One (Node BOL))"
proof (cases y)
  case (One a)
  then show ?thesis using assms by (cases a) (auto simp: op_defs neq_Nil_conv)
next
  case (Many lazy mn mx a)
  then show ?thesis by (auto simp: op_defs)
qed

text \<open>A text of the chain: none yet, or one of the operands \<open>S\<close>.\<close>

definition noted :: "int list \<Rightarrow> piece set \<Rightarrow> nat \<times> nat \<Rightarrow> bool" where
  "noted P S m \<longleftrightarrow> (fst m \<noteq> 0 \<longrightarrow> (\<exists>ws. One (Exact ws) \<in> S \<and> ws \<noteq> [] \<and> has_code P (fst m) ws \<and> snd m = length ws))"

lemma must_piece:
  assumes "has_code P p (code_piece p q y)" "wf_piece y" "0 < p" "p + len_piece y \<le> q" "y \<in> S" "noted P S m"
  shows "\<exists>k m'. k \<le> len_piece y \<and> noted P S m' \<and> (\<forall>n. must_loop (n + k) P p m = must_loop n P q m')"
proof -
  obtain os oper where w: "walk P p os (p + end_of y)" "node_at P (p + end_of y) oper q" "oper \<noteq> BACK"
      "length os < len_piece y" "EXACTLY \<notin> set os" "oper = EXACTLY \<Longrightarrow> \<exists>ws. y = One (Exact ws)"
    using piece_chain [OF assms(1-3)] assms(4) by metis
  define m' where "m' = (if oper = EXACTLY then
      let ws = (case y of One (Exact ws) \<Rightarrow> ws | _ \<Rightarrow> []) in if snd m \<le> length ws then (p + end_of y + 2, length ws) else m
    else m)"
  have op: "(if oper = EXACTLY then run_bind (operand_words P (p + end_of y + 2)) (\<lambda>ws.
        Ret (if snd m \<le> length ws then (p + end_of y + 2, length ws) else m)) else Ret m) = Ret m' \<and> noted P S m'"
  proof (cases "oper = EXACTLY")
    case True
    then obtain ws where y: "y = One (Exact ws)" using w(6) by blast
    have c: "has_code P (p + 2) (ws @ [0])" using assms(1) y by (auto simp: has_code_Cons)
    have "ws \<noteq> []" "0 \<notin> set ws" using assms(2) y by auto
    then show ?thesis using y c True assms(5,6) operand_words_code [OF c]
      by (auto simp: m'_def noted_def has_code_append)
  next
    case False
    then show ?thesis using assms(6) by (simp add: m'_def)
  qed
  have "must_loop (n + Suc (length os)) P p m = must_loop n P q m'" for n
  proof -
    have "must_loop (n + Suc (length os)) P p m = must_loop (length os + Suc n) P p m" by (simp add: add.commute)
    also have "\<dots> = must_loop (Suc n) P (p + end_of y) m" using must_loop_walk [OF w(1,5) assms(3)] .
    also have "\<dots> = must_loop n P q m'"
      using w(2) op assms(3) by (simp add: node_at_def word_at_def)
    finally show ?thesis .
  qed
  then show ?thesis using w(4) op by (intro exI [of _ "Suc (length os)"] exI [of _ m']) auto
qed

lemma must_seq:
  assumes "has_code P p (code_seq p q ys)" "wf_seq ys" "0 < p" "q = p + len_seq ys" "set ys \<subseteq> S" "noted P S m"
  shows "\<exists>k m'. k \<le> len_seq ys \<and> noted P S m' \<and> (\<forall>n. must_loop (n + k) P p m = must_loop n P q m')"
  using assms
proof (induction ys arbitrary: p m)
  case Nil
  then show ?case by (intro exI [of _ 0] exI [of _ m]) simp
next
  case (Cons y ys)
  let ?q = "p + len_piece y"
  have c: "has_code P p (code_piece p ?q y)" "has_code P ?q (code_seq ?q q ys)"
    using Cons.prems(1,4) by (auto simp: has_code_append split: if_splits)
  obtain k1 m1 where 1: "k1 \<le> len_piece y" "noted P S m1"
      "\<And>n. must_loop (n + k1) P p m = must_loop n P ?q m1"
    using must_piece [OF c(1), of S m] Cons.prems by auto
  obtain k2 m2 where 2: "k2 \<le> len_seq ys" "noted P S m2"
      "\<And>n. must_loop (n + k2) P ?q m1 = must_loop n P q m2"
    using Cons.IH [OF c(2), of m1] Cons.prems 1(2) by (auto simp: add.assoc)
  have "must_loop (n + (k2 + k1)) P p m = must_loop n P q m2" for n
    using 1(3) [of "n + k2"] 2(3) [of n] by (simp add: add.assoc)
  then show ?case using 1 2 by (intro exI [of _ "k2 + k1"] exI [of _ m2]) auto
qed

definition blank_regexp :: "nat \<Rightarrow> 32 word \<Rightarrow> int list \<Rightarrow> regexp" where
  "blank_regexp n cf prog = \<lparr>re_nsub = n, re_cflags = cf, re_start = 0, re_anch = False, re_must = 0, re_mlen = 0,
     re_program = prog\<rparr>"

text \<open>The layout of a single branch.\<close>

lemma layout_single:
  assumes "wf_alts [b]"
  shows "regnext (layout [b]) 1 = Ret (1 + branch_size b)" "word_at (layout [b]) (1 + branch_size b) = Ret OP_END"
    "has_code (layout [b]) 3 (body 3 (1 + branch_size b) b)" "node_at (layout [b]) (1 + branch_size b) OP_END 0"
    "length (layout [b]) = branch_size b + 3"
proof -
  have e: "code_alts 1 (1 + branch_size b) [b] = [BRANCH, int (branch_size b)] @ body 3 (1 + branch_size b) b"
    using branch_size_ge [of b] by (simp add: body_def dist_def branch_size_def eval_nat_numeral)
  have "has_code (layout [b]) 1 ([BRANCH, int (branch_size b)] @ body 3 (1 + branch_size b) b)"
    using layout_code(1) [of "[b]"] e by simp
  then have c: "has_code (layout [b]) 1 [BRANCH, int (branch_size b)]" "has_code (layout [b]) 3 (body 3 (1 + branch_size b) b)"
    unfolding has_code_append by (simp_all add: numeral_3_eq_3)
  show "regnext (layout [b]) 1 = Ret (1 + branch_size b)"
    using c(1) branch_size_ge [of b] by (auto simp: has_code_Cons regnext_def word_at_def op_defs)
  show "has_code (layout [b]) 3 (body 3 (1 + branch_size b) b)" by (rule c)
  have "has_code (layout [b]) (1 + branch_size b) [OP_END, 0]" using layout_code(2) [of "[b]"] by simp
  then show "word_at (layout [b]) (1 + branch_size b) = Ret OP_END" "node_at (layout [b]) (1 + branch_size b) OP_END 0"
    by (auto simp: has_code_Cons word_at_def node_at_def regnext_def)
  show "length (layout [b]) = branch_size b + 3" by (simp add: length_layout)
qed

lemma must_body:
  assumes "wf_alts [b]"
  shows "\<exists>m. must_loop (length (layout [b])) (layout [b]) 3 (0, 0) = Ret m \<and> noted (layout [b]) (set b) m"
proof -
  let ?P = "layout [b]" and ?e = "1 + branch_size b"
  note l = layout_single [OF assms]
  have e: "must_loop (Suc (Suc n)) ?P ?e m = Ret m" for n m
    using l(4) by (simp add: node_at_def word_at_def op_defs)
  have n0: "noted ?P (set b) (0, 0)" by (simp add: noted_def)
  obtain k m where k: "k \<le> branch_size b" "noted ?P (set b) m" "\<And>n. must_loop (n + k) ?P 3 (0, 0) = must_loop n ?P ?e m"
  proof (cases "b = []")
    case True
    then have "has_code ?P 3 [NOTHING, 2]" using l(3) by (simp add: body_def dist_def branch_size_def)
    then have "must_loop (n + 1) ?P 3 (0, 0) = must_loop n ?P ?e (0, 0)" for n
      using True by (auto simp: has_code_Cons word_at_def regnext_def op_defs branch_size_def)
    then show thesis using that [of 1 "(0, 0)"] branch_size_ge [of b] by (simp add: noted_def)
  next
    case False
    then have c: "has_code ?P 3 (code_seq 3 ?e b)" using l(3) by (simp add: body_def)
    have "?e = 3 + len_seq b" using False by (simp add: branch_size_def)
    then obtain k m where "k \<le> len_seq b" "noted ?P (set b) m" "\<forall>n. must_loop (n + k) ?P 3 (0, 0) = must_loop n ?P ?e m"
      using must_seq [OF c _ _ _ subset_refl n0] assms by auto
    moreover have "len_seq b \<le> branch_size b" by (simp add: branch_size_def)
    ultimately show thesis using that [of k m] by auto
  qed
  obtain n where "length ?P = Suc (Suc n) + k"
    using l(5) k(1) that [of "branch_size b + 1 - k"] by simp
  then show ?thesis using k(2) k(3) [of "Suc (Suc n)"] e by simp
qed

lemma body_first:
  assumes "wf_alts [b]"
  obtains w where "word_at (layout [b]) 3 = Ret w"
    "w = EXACTLY \<Longrightarrow> \<exists>c cs ys. b = One (Exact (c # cs)) # ys \<and> word_at (layout [b]) 5 = Ret c"
    "w = BOL \<Longrightarrow> \<exists>ys. b = One (Node BOL) # ys"
proof (cases b)
  case Nil
  then have "has_code (layout [b]) 3 [NOTHING, 2]"
    using layout_single(3) [OF assms] by (simp add: body_def dist_def branch_size_def)
  then show thesis using that [of NOTHING] by (auto simp: has_code_Cons word_at_def op_defs)
next
  case (Cons y ys)
  let ?q = "if ys = [] then 1 + branch_size b else 3 + len_piece y"
  have "wf_piece y" using assms Cons by simp
  then obtain w d ws where w: "code_piece 3 ?q y = w # d # ws"
      "w = EXACTLY \<longrightarrow> (\<exists>c cs. y = One (Exact (c # cs)) \<and> ws = c # cs @ [0])" "w = BOL \<longrightarrow> y = One (Node BOL)"
    using first_word by blast
  have "has_code (layout [b]) 3 (code_piece 3 ?q y)"
    using layout_single(3) [OF assms] Cons by (cases "ys = []") (simp_all add: body_def has_code_append)
  then have c: "has_code (layout [b]) 3 (w # d # ws)" by (simp only: w(1))
  show thesis
  proof (rule that [of w])
    show "word_at (layout [b]) 3 = Ret w" using c by (simp add: has_code_Cons word_at_def)
    show "\<exists>c cs ys. b = One (Exact (c # cs)) # ys \<and> word_at (layout [b]) 5 = Ret c" if "w = EXACTLY"
      using c w(2) that Cons by (auto simp: has_code_Cons word_at_def eval_nat_numeral)
    show "\<exists>ys. b = One (Node BOL) # ys" if "w = BOL" using w(3) that Cons by simp
  qed
qed

lemma optimise_layout:
  assumes "bs \<noteq> []" "wf_alts bs"
  shows "\<exists>re. optimise fl (blank_regexp n cf (layout bs)) = Ret re \<and> compiled bs cf re \<and>
    re_program re = layout bs \<and> re_nsub re = n"
proof (cases "\<exists>b. bs = [b]")
  case True
  then obtain b where b: "bs = [b]" by blast
  let ?P = "layout [b]" and ?re = "blank_regexp n cf (layout [b])"
  have wf: "wf_alts [b]" using assms(2) b by simp
  note l = layout_single [OF wf]
  obtain w where w: "word_at ?P 3 = Ret w"
      "w = EXACTLY \<Longrightarrow> \<exists>c cs ys. b = One (Exact (c # cs)) # ys \<and> word_at ?P 5 = Ret c"
      "w = BOL \<Longrightarrow> \<exists>ys. b = One (Node BOL) # ys" using body_first [OF wf] by metis
  obtain re1 where re1: "(if w = EXACTLY then run_bind (word_at ?P 5) (\<lambda>c. Ret (?re\<lparr>re_start := c\<rparr>))
        else Ret (?re\<lparr>re_anch := (w = BOL)\<rparr>)) = Ret re1"
      "hints bs re1" "re_must re1 = 0" "re_program re1 = ?P" "re_cflags re1 = cf" "re_nsub re1 = n"
    using w(2,3) b that [of "?re\<lparr>re_anch := (w = BOL)\<rparr>"] that [of "?re\<lparr>re_start := _\<rparr>"]
    by (cases "w = EXACTLY") (auto simp: hints_def blank_regexp_def)
  obtain m where m: "must_loop (length ?P) ?P 3 (0, 0) = Ret m" "noted ?P (set b) m" using must_body [OF wf] by blast
  have e: "optimise fl ?re = (if SPSTART fl then Ret (re1\<lparr>re_must := fst m, re_mlen := snd m\<rparr>) else Ret re1)"
  proof -
    have "re_program ?re = ?P" by (simp add: blank_regexp_def)
    then show ?thesis unfolding optimise_def Let_def
      using l(1,2) w(1) m(1) re1(1) by (cases "w = EXACTLY") (simp_all add: case_prod_beta')
  qed
  have "?P \<in> programs bs" using upd_subset b by (auto simp: programs_def)
  moreover have "hints bs (re1\<lparr>re_must := fst m, re_mlen := snd m\<rparr>)"
    using re1(2) m(2) b by (auto simp: hints_def noted_def)
  ultimately show ?thesis using e re1 assms(1) b by (simp add: compiled_def)
next
  case False
  obtain b c bs' where bs: "bs = b # c # bs'" using False assms(1) by (metis neq_Nil_conv)
  have c: "has_code (layout bs) 1 (code_alts 1 (1 + len_alts bs) (b # c # bs'))" using layout_code(1) [of bs] bs by simp
  have len: "1 + len_alts (b # c # bs') \<le> 1 + len_alts bs" using bs by simp
  have "regnext (layout bs) 1 = Ret (1 + branch_size b)"
    using code_branch(1) [OF c len] by (simp add: node_at_def)
  moreover have "word_at (layout bs) (1 + branch_size b) = Ret BRANCH"
    using code_branch(3) [OF c len] by (simp add: has_code_Cons word_at_def)
  ultimately have "optimise fl (blank_regexp n cf (layout bs)) = Ret (blank_regexp n cf (layout bs))"
    by (simp add: optimise_def blank_regexp_def op_defs)
  moreover have "layout bs \<in> programs bs" using upd_subset by (auto simp: programs_def)
  ultimately show ?thesis using assms(1) by (simp add: compiled_def hints_def blank_regexp_def)
qed

section \<open>Compiling\<close>

text \<open>What the compiler makes of a text: the error of the grammar, or the layout of its tree with true notes.\<close>

definition compiles :: "32 word \<Rightarrow> (piece list list \<times> flags \<times> nat) comp \<Rightarrow> regexp comp \<Rightarrow> bool" where
  "compiles cf t r \<longleftrightarrow>
     (\<exists>e. t = Ret (Inl e) \<and> r = Ret (Inl e)) \<or>
     (\<exists>bs fl n re. t = Ret (Inr (bs, fl, n)) \<and> r = Ret (Inr re) \<and> compiled bs cf re \<and> re_program re = layout bs \<and> re_nsub re = n)"

lemma jim_regcomp_compiles:
  assumes "CHR 0x00 \<notin> set s"
  shows "compiles cf (regex_tree cf s) (jim_regcomp True (Some s) cf)"
proof -
  let ?st = "\<lparr>rc_prog = [REG_MAGIC], rc_parse = s, rc_nsub = 0\<rparr>" and ?t = "tree (Suc (length s)) cf False s 0"
  have e: "reg (Suc (length s)) cf False ?st = emits ?st (code_of False 1) ?t"
    using reg_emits [of ?st "Suc (length s)" cf False] assms by (simp add: here_def)
  have "yields (tree_ok False) s ?t" using tree_yields [OF assms, of "Suc (length s)"] by simp
  then consider er where "?t = Ret (Inl er)"
    | no bs fl s' n where "?t = Ret (Inr ((no, bs), fl, s', n))" "bs \<noteq> []" "wf_alts bs"
    by (auto simp: yields_def tree_ok_def)
  then show ?thesis
  proof cases
    case 1
    then show ?thesis using e by (simp add: compiles_def regex_tree_def jim_regcomp_def)
  next
    case 2
    let ?c = "\<lparr>rc_prog = layout bs, rc_parse = s', rc_nsub = n\<rparr>"
    have c: "reg (Suc (length s)) cf False ?st = Ret (Inr (1, fl, ?c))"
      using e 2(1) by (simp add: code_of_def with_code_def here_def layout_def)
    show ?thesis
    proof (cases "REG_MAX_PAREN \<le> n")
      case True
      then show ?thesis using c 2(1) by (simp add: compiles_def regex_tree_def jim_regcomp_def)
    next
      case False
      obtain re where "optimise fl (blank_regexp n cf (layout bs)) = Ret re" "compiled bs cf re"
          "re_program re = layout bs" "re_nsub re = n" using optimise_layout [OF 2(2,3)] by blast
      then show ?thesis using c 2(1) False
        by (simp add: compiles_def regex_tree_def jim_regcomp_def blank_regexp_def)
    qed
  qed
qed

lemma compiled_tree:
  assumes "CHR 0x00 \<notin> set pat" "regex_tree cf pat = Ret (Inr (bs, fl, n))"
  obtains re where "jim_regcomp True (Some pat) cf = Ret (Inr re)" "compiled bs cf re" "re_nsub re = n"
  using jim_regcomp_compiles [OF assms(1), of cf] assms(2) by (auto simp: compiles_def)

text \<open>
  C14: For every text \<^verbatim>\<open>jim_regcomp\<close> returns: the error that the grammar has for the text, or the program that
  is the layout of the tree of the text, with the number of its groups and notes for the search that are true of it.
\<close>

theorem regcomp_compiles:
  assumes "CHR 0x00 \<notin> set s"
  shows "\<exists>r. jim_regcomp True (Some s) cf = Ret r \<and>
    (case r of Inl e \<Rightarrow> regex_tree cf s = Ret (Inl e)
     | Inr re \<Rightarrow> \<exists>bs fl. regex_tree cf s = Ret (Inr (bs, fl, re_nsub re)) \<and> re_program re = layout bs \<and> compiled bs cf re)"
  using jim_regcomp_compiles [OF assms, of cf] unfolding compiles_def by fastforce

lemma regcomp_compiles_witness:
  "\<exists>r. jim_regcomp True (Some ''x(a|b)+'') 0 = Ret r \<and>
    (case r of Inl e \<Rightarrow> regex_tree 0 ''x(a|b)+'' = Ret (Inl e)
     | Inr re \<Rightarrow> \<exists>bs fl. regex_tree 0 ''x(a|b)+'' = Ret (Inr (bs, fl, re_nsub re)) \<and> re_program re = layout bs \<and> compiled bs 0 re)"
  by (rule regcomp_compiles) simp

text \<open>
  C6: A text is compiled, and with enough fuel \<^verbatim>\<open>jim_regexec\<close> answers success just when the tree of the text,
  read as a relation between positions, matches somewhere; the borders it writes are those of a match from
  the first position that has one. This is about the trees of \<open>ok_alts\<close>: a repeated group is captured,
  greedy and without another repeated group inside (a single character, a set or a dot may be repeated
  lazily too); counts are not negative and not the wrong way round; no set has a range that is empty or a
  null character. And it is about the flags without \<^verbatim>\<open>REG_NEWLINE\<close> and \<^verbatim>\<open>REG_NOTBOL\<close>, and a caller
  that asks for a border. Outside of \<open>ok_alts\<close> it is false: see \<open>group_position_lost\<close>,
  \<open>lazy_position_lost\<close>, \<open>nested_count_kept\<close>, \<open>swapped_range\<close> and \<open>negative_count\<close> of \<open>Jim_Flaws\<close>.
\<close>

theorem regcomp_regexec:
  assumes "CHR 0x00 \<notin> set pat" "regex_tree cf pat = Ret (Inr (bs, fl, n))" "ok_alts True bs"
    and "cf AND REG_NEWLINE = 0" "ef AND REG_NOTBOL = 0" "CHR 0x00 \<notin> set s" "pmatch \<noteq> []"
  shows "\<exists>re K. jim_regcomp True (Some pat) cf = Ret (Inr re) \<and>
    (\<forall>k \<ge> K. \<exists>r re' pm. jim_regexec k re (Some s) pmatch ef = Ret (r, re', pm) \<and>
       compiled bs cf re' \<and> length pm = length pmatch \<and> outcome (sem_alts (text_of cf ef s) bs) s r pm)"
proof -
  obtain re where re: "jim_regcomp True (Some pat) cf = Ret (Inr re)" "compiled bs cf re"
    using compiled_tree [OF assms(1,2)] .
  then show ?thesis using jim_regexec_search [OF re(2) assms(3-)] unfolding eventually_sequentially by blast
qed

lemma regcomp_regexec_witness:
  "\<exists>k re r re' pm. jim_regcomp True (Some ''x(a|b)+'') 0 = Ret (Inr re) \<and>
    jim_regexec k re (Some ''yxab'') [(0, 0)] 0 = Ret (r, re', pm) \<and>
    outcome (sem_alts (text_of 0 0 ''yxab'') [[One (Exact [120]), Many False 1 1000000 (Group 1 [[One (Exact [97])], [One (Exact [98])]])]])
      ''yxab'' r pm"
proof -
  let ?bs = "[[One (Exact [120]), Many False 1 1000000 (Group 1 [[One (Exact [97])], [One (Exact [98])]])]]"
  have "map_run (map_sum id fst) (regex_tree 0 ''x(a|b)+'') = Ret (Inr ?bs)" by code_simp
  then obtain fl n where t: "regex_tree 0 ''x(a|b)+'' = Ret (Inr (?bs, fl, n))"
    by (cases "regex_tree 0 ''x(a|b)+''") (auto simp: map_sum_def split: sum.splits)
  have ok: "ok_alts True ?bs" by code_simp
  obtain re K where re: "jim_regcomp True (Some ''x(a|b)+'') 0 = Ret (Inr re)"
    and K: "\<forall>k \<ge> K. \<exists>r re' pm. jim_regexec k re (Some ''yxab'') [(0, 0)] 0 = Ret (r, re', pm) \<and>
       compiled ?bs 0 re' \<and> length pm = length [(0::int, 0::int)] \<and> outcome (sem_alts (text_of 0 0 ''yxab'') ?bs) ''yxab'' r pm"
    using regcomp_regexec [OF _ t ok, of 0 "''yxab''" "[(0, 0)]", OF _ bit.conj_zero_left bit.conj_zero_left _ list.distinct(2)] by fastforce
  then show ?thesis using K [rule_format, OF order_refl] by blast
qed

end
