(* ===== verification/Jim_Lang.thy ===== *)
theory Jim_Lang
  imports Jim_Facts
begin

unbundle bit_operations_syntax

text \<open>
  The texts a tree without anchors matches are the words of a regular language: the tree read as a regular
  expression. A tree between the two anchors of a line matches the texts of the language and no other.
\<close>

section \<open>Languages\<close>

definition conc :: "string set \<Rightarrow> string set \<Rightarrow> string set" where
  "conc A B = {u @ v | u v. u \<in> A \<and> v \<in> B}"

fun times_lang :: "string set \<Rightarrow> nat \<Rightarrow> string set" where
  "times_lang A 0 = {[]}"
| "times_lang A (Suc n) = conc (times_lang A n) A"

definition repeats :: "string set \<Rightarrow> nat \<Rightarrow> nat \<Rightarrow> string set" where
  "repeats A mn mx = (\<Union>n \<in> {mn..mx}. times_lang A n)"

definition chars :: "bool \<Rightarrow> int list \<Rightarrow> char set" where
  "chars but ws = {c. c \<noteq> CHR 0x00 \<and> in_ranges ws (of_char c) \<noteq> but}"

fun lang_atom :: "atom \<Rightarrow> string set" and lang_piece :: "piece \<Rightarrow> string set"
  and lang_seq :: "piece list \<Rightarrow> string set" and lang_alts :: "piece list list \<Rightarrow> string set" where
  "lang_atom (Node oper) = {[c] | c. c \<noteq> CHR 0x00}"
| "lang_atom (Set but ws) = {[c] | c. c \<in> chars but ws}"
| "lang_atom (Exact ws) = {w. map of_char w = ws}"
| "lang_atom (Group no bs) = lang_alts bs"
| "lang_piece (One a) = lang_atom a"
| "lang_piece (Many lazy mn mx a) = repeats (lang_atom a) (nat mn) (nat mx)"
| "lang_seq [] = {[]}"
| "lang_seq (y # ys) = conc (lang_piece y) (lang_seq ys)"
| "lang_alts [] = {}"
| "lang_alts (b # bs) = lang_seq b \<union> lang_alts bs"

text \<open>No anchors.\<close>

fun free_atom :: "atom \<Rightarrow> bool" and free_piece :: "piece \<Rightarrow> bool"
  and free_seq :: "piece list \<Rightarrow> bool" and free_alts :: "piece list list \<Rightarrow> bool" where
  "free_atom (Node oper) \<longleftrightarrow> oper = ANY"
| "free_atom (Set but ws) \<longleftrightarrow> True"
| "free_atom (Exact ws) \<longleftrightarrow> True"
| "free_atom (Group no bs) \<longleftrightarrow> free_alts bs"
| "free_piece (One a) \<longleftrightarrow> free_atom a"
| "free_piece (Many lazy mn mx a) \<longleftrightarrow> free_atom a"
| "free_seq [] \<longleftrightarrow> True"
| "free_seq (y # ys) \<longleftrightarrow> free_piece y \<and> free_seq ys"
| "free_alts [] \<longleftrightarrow> True"
| "free_alts (b # bs) \<longleftrightarrow> free_seq b \<and> free_alts bs"

section \<open>Positions and words\<close>

text \<open>From \<open>i\<close> the relation goes over the words of the language that are there.\<close>

definition spells :: "string \<Rightarrow> (nat \<times> nat) set \<Rightarrow> string set \<Rightarrow> bool" where
  "spells s R L \<longleftrightarrow> (\<forall>i \<le> length s. \<forall>j. (i, j) \<in> R \<longleftrightarrow> (\<exists>w \<in> L. prefix w (drop i s) \<and> j = i + length w))"

lemma prefix_inside: "prefix w (drop i s) \<Longrightarrow> i \<le> length s \<Longrightarrow> i + length w \<le> length s"
  using prefix_length_le by fastforce

lemma prefix_conc: "prefix (u @ v) (drop i s) \<longleftrightarrow> prefix u (drop i s) \<and> prefix v (drop (i + length u) s)"
  by (auto simp: prefix_def) (metis append_eq_conv_conj drop_drop add.commute)+

lemma spells_Id: "spells s Id {[]}"
  by (auto simp: spells_def)

lemma spells_empty: "spells s {} {}"
  by (simp add: spells_def)

lemma spells_Un: "spells s R L \<Longrightarrow> spells s S M \<Longrightarrow> spells s (R \<union> S) (L \<union> M)"
  by (auto simp: spells_def)

lemma spells_comp:
  assumes "spells s R L" "spells s S M"
  shows "spells s (R O S) (conc L M)"
  unfolding spells_def
proof (intro allI impI)
  fix i k assume i: "i \<le> length s"
  have "(i, k) \<in> R O S \<longleftrightarrow> (\<exists>u \<in> L. prefix u (drop i s) \<and> (i + length u, k) \<in> S)"
    using assms(1) i by (auto simp: spells_def)
  also have "\<dots> \<longleftrightarrow> (\<exists>u \<in> L. prefix u (drop i s) \<and> (\<exists>v \<in> M. prefix v (drop (i + length u) s) \<and> k = i + length u + length v))"
    using assms(2) prefix_inside [OF _ i] unfolding spells_def by blast
  also have "\<dots> \<longleftrightarrow> (\<exists>w \<in> conc L M. prefix w (drop i s) \<and> k = i + length w)"
  proof -
    have "(\<exists>w \<in> conc L M. P w) \<longleftrightarrow> (\<exists>u \<in> L. \<exists>v \<in> M. P (u @ v))" for P by (auto simp: conc_def)
    then show ?thesis by (simp add: prefix_conc add.assoc)
  qed
  finally show "(i, k) \<in> R O S \<longleftrightarrow> (\<exists>w \<in> conc L M. prefix w (drop i s) \<and> k = i + length w)" .
qed

lemma spells_power: "spells s R L \<Longrightarrow> spells s (R ^^ n) (times_lang L n)"
proof (induction n)
  case 0
  then show ?case by (simp add: spells_Id)
next
  case (Suc n)
  then show ?case using spells_comp by simp
qed

lemma spells_repeats: "spells s R L \<Longrightarrow> spells s (\<Union>n \<in> {mn..mx}. R ^^ n) (repeats L mn mx)"
proof -
  assume "spells s R L"
  then have p: "(i, j) \<in> R ^^ n \<longleftrightarrow> (\<exists>w \<in> times_lang L n. prefix w (drop i s) \<and> j = i + length w)"
    if "i \<le> length s" for i j n using spells_power that by (simp add: spells_def)
  show ?thesis unfolding spells_def repeats_def
  proof (intro allI impI)
    fix i j assume "i \<le> length s"
    then show "(i, j) \<in> (\<Union>n \<in> {mn..mx}. R ^^ n) \<longleftrightarrow>
        (\<exists>w \<in> \<Union>n \<in> {mn..mx}. times_lang L n. prefix w (drop i s) \<and> j = i + length w)"
      by (simp add: p)
  qed
qed

lemma spells_char:
  assumes "\<And>i j. (i, j) \<in> R \<longleftrightarrow> i < length s \<and> j = Suc i \<and> s ! i \<in> C"
  shows "spells s R {[c] | c. c \<in> C}"
  unfolding spells_def
proof (intro allI impI)
  fix i j assume "i \<le> length s"
  have "prefix [c] (drop i s) \<longleftrightarrow> i < length s \<and> s ! i = c" for c
    by (cases "i < length s") (auto simp: Cons_nth_drop_Suc [symmetric])
  then show "(i, j) \<in> R \<longleftrightarrow> (\<exists>w \<in> {[c] | c. c \<in> C}. prefix w (drop i s) \<and> j = i + length w)"
    using assms [of i j] by auto
qed

section \<open>The language of a tree\<close>

lemma char_case_plain: "char_case 0 c = c"
  by (simp add: char_case_def)

lemma text_char_plain:
  assumes "x = text_of 0 ef s" "CHR 0x00 \<notin> set s"
  shows "\<not> reg_iseol x (text_char x i) \<longleftrightarrow> i < length s" "i < length s \<Longrightarrow> text_char x i = of_char (s ! i)"
    "i < length s \<Longrightarrow> s ! i \<noteq> CHR 0x00"
  using assms nth_mem [of i s] of_char_0 [of "s ! i"]
  by (auto simp: text_of_def reg_iseol_def text_char_def char_at_def char_case_plain simp del: nth_mem)

lemma text_at_words: "text_at (text_of 0 ef s) i ws \<longleftrightarrow> (\<exists>w. map of_char w = ws \<and> prefix w (drop i s))"
proof -
  have "text_at (text_of 0 ef s) i ws \<longleftrightarrow> prefix ws (map of_char (drop i s))"
    by (simp add: text_at_def text_of_def char_case_plain)
  also have "\<dots> \<longleftrightarrow> (\<exists>w. map of_char w = ws \<and> prefix w (drop i s))"
    by (metis map_mono_prefix prefix_map_rightE)
  finally show ?thesis .
qed

theorem tree_language:
  assumes "x = text_of 0 ef s" "CHR 0x00 \<notin> set s"
  shows "free_atom a \<Longrightarrow> spells s (sem_atom x a) (lang_atom a)"
    "free_piece y \<Longrightarrow> spells s (sem_piece x y) (lang_piece y)"
    "free_seq ys \<Longrightarrow> spells s (sem_seq x ys) (lang_seq ys)"
    "free_alts bs \<Longrightarrow> spells s (sem_alts x bs) (lang_alts bs)"
proof (induction a and y and ys and bs rule: lang_atom_lang_piece_lang_seq_lang_alts.induct)
  note t = text_char_plain [OF assms]
  case (1 oper)
  have "spells s (sem_atom x (Node oper)) {[c] | c. c \<in> {c. c \<noteq> CHR 0x00}}"
    using 1 t by (intro spells_char) auto
  then show ?case by simp
next
  note t = text_char_plain [OF assms]
  case (2 but ws)
  have "spells s (sem_atom x (Set but ws)) {[c] | c. c \<in> chars but ws}"
  proof (rule spells_char)
    fix i j
    show "(i, j) \<in> sem_atom x (Set but ws) \<longleftrightarrow> i < length s \<and> j = Suc i \<and> s ! i \<in> chars but ws"
      using t(1) [of i] t(2,3) [of i] by (cases "i < length s") (simp_all add: chars_def conj_commute)
  qed
  then show ?case by simp
next
  case (3 ws)
  show ?case unfolding spells_def
  proof (intro allI impI)
    fix i j
    have "text_at x i ws \<longleftrightarrow> (\<exists>w \<in> lang_atom (Exact ws). prefix w (drop i s))"
      by (auto simp: assms(1) text_at_words)
    moreover have "length w = length ws" if "w \<in> lang_atom (Exact ws)" for w using that by auto
    ultimately show "(i, j) \<in> sem_atom x (Exact ws) \<longleftrightarrow>
        (\<exists>w \<in> lang_atom (Exact ws). prefix w (drop i s) \<and> j = i + length w)" by auto
  qed
next
  case (4 no bs)
  then show ?case by simp
next
  case (5 a)
  then show ?case by simp
next
  case (6 lazy mn mx a)
  then show ?case using spells_repeats by simp
next
  case 7
  then show ?case by (simp add: spells_Id)
next
  case (8 y ys)
  then show ?case using spells_comp by simp
next
  case 9
  then show ?case by (simp add: spells_empty)
next
  case (10 b bs)
  then show ?case using spells_Un by simp
qed

text \<open>A tree between \<^verbatim>\<open>^\<close> and \<^verbatim>\<open>$\<close>, and a tree behind \<^verbatim>\<open>^\<close>.\<close>

lemma sem_seq_append: "sem_seq x (ys @ zs) = sem_seq x ys O sem_seq x zs"
  by (induction ys) (simp_all add: O_assoc)

lemma sem_BOL: "sem_piece (text_of cf ef s) (One (Node BOL)) = {(0, 0)}"
  by (auto simp: op_defs anchor_holds_def text_of_def Let_def)

lemma sem_EOL:
  assumes "CHR 0x00 \<notin> set s"
  shows "(i, j) \<in> sem_piece (text_of 0 ef s) (One (Node EOL)) \<longleftrightarrow> length s \<le> i \<and> j = i"
  using text_char_plain(1) [OF refl assms, of ef i] by (auto simp: op_defs anchor_holds_def Let_def)

theorem whole_match:
  assumes "CHR 0x00 \<notin> set s" "free_seq ys" "bs = [One (Node BOL) # ys @ [One (Node EOL)]]"
  shows "(\<exists>i \<le> length s. i \<in> Domain (sem_alts (text_of 0 ef s) bs)) \<longleftrightarrow> s \<in> lang_seq ys"
proof -
  let ?x = "text_of 0 ef s"
  have sp: "(i, j) \<in> sem_seq ?x ys \<longleftrightarrow> (\<exists>w \<in> lang_seq ys. prefix w (drop i s) \<and> j = i + length w)"
    if "i \<le> length s" for i j
    using tree_language(3) [OF refl assms(1,2)] that by (auto simp: spells_def)
  have "(i, j) \<in> sem_alts ?x bs \<longleftrightarrow> i = 0 \<and> (0, j) \<in> sem_seq ?x ys \<and> length s \<le> j" for i j
    using sem_EOL [OF assms(1), of _ _ ef] by (auto simp: assms(3) sem_seq_append sem_BOL relcomp_unfold simp del: sem_piece.simps(1))
  then have "(\<exists>i \<le> length s. i \<in> Domain (sem_alts ?x bs)) \<longleftrightarrow> (\<exists>j. (0, j) \<in> sem_seq ?x ys \<and> length s \<le> j)"
    by auto
  also have "\<dots> \<longleftrightarrow> (\<exists>w \<in> lang_seq ys. prefix w s \<and> length s \<le> length w)" using sp [of 0] by auto
  also have "\<dots> \<longleftrightarrow> s \<in> lang_seq ys" by (auto simp: prefix_def)
  finally show ?thesis .
qed

theorem front_match:
  assumes "CHR 0x00 \<notin> set s" "free_seq ys" "bs = [One (Node BOL) # ys]"
  shows "(\<exists>i \<le> length s. i \<in> Domain (sem_alts (text_of 0 ef s) bs)) \<longleftrightarrow> (\<exists>w \<in> lang_seq ys. prefix w s)"
proof -
  let ?x = "text_of 0 ef s"
  have "(0, j) \<in> sem_seq ?x ys \<longleftrightarrow> (\<exists>w \<in> lang_seq ys. prefix w s \<and> j = length w)" for j
    using tree_language(3) [OF refl assms(1,2)] by (auto simp: spells_def)
  moreover have "(i, j) \<in> sem_alts ?x bs \<longleftrightarrow> i = 0 \<and> (0, j) \<in> sem_seq ?x ys" for i j
    by (auto simp: assms(3) sem_BOL relcomp_unfold simp del: sem_piece.simps(1))
  ultimately show ?thesis by (auto simp: Domain_iff)
qed

theorem inner_match:
  assumes "CHR 0x00 \<notin> set s" "free_alts bs"
  shows "(\<exists>i \<le> length s. i \<in> Domain (sem_alts (text_of 0 ef s) bs)) \<longleftrightarrow> (\<exists>w \<in> lang_alts bs. sublist w s)"
proof -
  have "(\<exists>i \<le> length s. i \<in> Domain (sem_alts (text_of 0 ef s) bs)) \<longleftrightarrow>
      (\<exists>w \<in> lang_alts bs. \<exists>i \<le> length s. prefix w (drop i s))"
  proof -
    have "(i, j) \<in> sem_alts (text_of 0 ef s) bs \<longleftrightarrow> (\<exists>w \<in> lang_alts bs. prefix w (drop i s) \<and> j = i + length w)"
      if "i \<le> length s" for i j
      using tree_language(4) [OF refl assms, of ef] that by (simp add: spells_def)
    then show ?thesis by (simp add: Domain_iff cong: conj_cong) blast
  qed
  moreover have "(\<exists>i \<le> length s. prefix w (drop i s)) \<longleftrightarrow> sublist w s" for w
  proof
    assume "\<exists>i \<le> length s. prefix w (drop i s)"
    then obtain i v where "drop i s = w @ v" by (auto simp: prefix_def)
    then have "s = take i s @ w @ v" by (metis append_take_drop_id)
    then show "sublist w s" unfolding sublist_def by blast
  next
    assume "sublist w s"
    then obtain u v where "s = u @ w @ v" by (auto simp: sublist_def)
    then show "\<exists>i \<le> length s. prefix w (drop i s)" by (intro exI [of _ "length u"]) simp
  qed
  ultimately show ?thesis by simp
qed

end
