(* ===== verification/Jim_Builtin.thy ===== *)
theory Jim_Builtin
  imports Jim_Lang Exec Path_Res_Facts
begin

unbundle bit_operations_syntax

text \<open>
  The expressions the library compiles in its constructors, with the compiler and the matcher of
  \<^verbatim>\<open>jimregexp.c\<close> in the place of the predicates of the other theories: which names and paths they accept.
\<close>

section \<open>The predicates of the library\<close>

text \<open>The answers of \<^verbatim>\<open>jim_regexec\<close> by their number.\<close>

definition exec_code :: "exec_result \<Rightarrow> int" where
  "exec_code r = (case r of NoError \<Rightarrow> 0 | NoMatch \<Rightarrow> REG_NOMATCH
     | ExecErr e \<Rightarrow> (case e of REG_ERR_NULL_ARGUMENT \<Rightarrow> 3 | REG_ERR_TOO_BIG \<Rightarrow> 5 | REG_ERR_NOMEM \<Rightarrow> 6
         | REG_ERR_UNMATCHED_PAREN \<Rightarrow> 8 | REG_ERR_UNMATCHED_BRACES \<Rightarrow> 9 | REG_ERR_BAD_COUNT \<Rightarrow> 10
         | REG_ERR_JUNK_ON_END \<Rightarrow> 11 | REG_ERR_OPERAND_COULD_BE_EMPTY \<Rightarrow> 12 | REG_ERR_NESTED_COUNT \<Rightarrow> 13
         | REG_ERR_INTERNAL \<Rightarrow> 14 | REG_ERR_COUNT_FOLLOWS_NOTHING \<Rightarrow> 15 | REG_ERR_INVALID_ESCAPE \<Rightarrow> 16
         | REG_ERR_CORRUPTED \<Rightarrow> 17 | REG_ERR_NULL_CHAR \<Rightarrow> 18 | REG_ERR_UNMATCHED_BRACKET \<Rightarrow> 19))"

text \<open>
  An expression as a predicate: every call of the library gives room for the whole match and no flags. A
  search that uses up its fuel answers the negative \<open>NO_FUEL\<close>, which no call does.
\<close>

definition NO_FUEL :: int where "NO_FUEL = - 1"

definition regex_answer :: "nat \<Rightarrow> regexp \<Rightarrow> regex" where
  "regex_answer k re s =
     (case jim_regexec k re (Some s) [(0, 0)] 0 of Ret (r, _) \<Rightarrow> exec_code r | _ \<Rightarrow> NO_FUEL)"

definition jim_regex :: "nat \<Rightarrow> string \<Rightarrow> regex option" where
  "jim_regex k pat = (case jim_regcomp True (Some pat) 0 of Ret (Inr re) \<Rightarrow> Some (regex_answer k re) | _ \<Rightarrow> None)"

section \<open>An expression and its tree\<close>

text \<open>With enough fuel the predicate decides whether the tree matches somewhere.\<close>

definition decides :: "regex \<Rightarrow> bool \<Rightarrow> string \<Rightarrow> bool" where
  "decides m b s \<longleftrightarrow> m s = (if b then 0 else REG_NOMATCH)"

lemma regex_decides:
  assumes "CHR 0x00 \<notin> set pat" "regex_tree 0 pat = Ret (Inr (bs, fl, n))" "ok_alts True bs" "CHR 0x00 \<notin> set s"
  shows "\<forall>\<^sub>F k in sequentially. \<exists>m. jim_regex k pat = Some m \<and>
    decides m (\<exists>i \<le> length s. i \<in> Domain (sem_alts (text_of 0 0 s) bs)) s"
proof -
  obtain re where re: "jim_regcomp True (Some pat) 0 = Ret (Inr re)" "compiled bs 0 re"
    using compiled_tree [OF assms(1,2)] .
  obtain K where K: "\<forall>k \<ge> K. \<exists>r re' pm. jim_regexec k re (Some s) [(0, 0)] 0 = Ret (r, re', pm) \<and>
       compiled bs 0 re' \<and> length pm = length [(0::int, 0::int)] \<and> outcome (sem_alts (text_of 0 0 s) bs) s r pm"
    using jim_regexec_search [OF re(2) assms(3) _ _ assms(4), of 0 "[(0, 0)]"] unfolding eventually_sequentially by auto
  have "decides (regex_answer k re) (\<exists>i \<le> length s. i \<in> Domain (sem_alts (text_of 0 0 s) bs)) s" if k: "K \<le> k" for k
  proof -
    obtain r re' pm where "jim_regexec k re (Some s) [(0, 0)] 0 = Ret (r, re', pm)"
        "outcome (sem_alts (text_of 0 0 s) bs) s r pm" using K k by blast
    then show ?thesis by (simp add: decides_def regex_answer_def outcome_def exec_code_def split: if_splits)
  qed
  then show ?thesis using re unfolding eventually_sequentially jim_regex_def by auto
qed

text \<open>The tree of a pattern, which is evaluated.\<close>

definition tree_is :: "string \<Rightarrow> piece list list \<Rightarrow> bool" where
  "tree_is pat bs \<longleftrightarrow> CHR 0x00 \<notin> set pat \<and> map_run (map_sum id fst) (regex_tree 0 pat) = Ret (Inr bs) \<and> ok_alts True bs"

lemma tree_decides:
  assumes "tree_is pat bs" "CHR 0x00 \<notin> set s"
  shows "\<forall>\<^sub>F k in sequentially. \<exists>m. jim_regex k pat = Some m \<and>
    decides m (\<exists>i \<le> length s. i \<in> Domain (sem_alts (text_of 0 0 s) bs)) s"
proof -
  obtain fl n where "regex_tree 0 pat = Ret (Inr (bs, fl, n))"
    using assms(1) by (cases "regex_tree 0 pat") (auto simp: tree_is_def map_sum_def split: sum.splits)
  then show ?thesis using regex_decides [OF _ _ _ assms(2)] assms(1) by (auto simp: tree_is_def)
qed

lemma pattern_whole:
  assumes "tree_is pat [One (Node BOL) # ys @ [One (Node EOL)]]" "free_seq ys" "CHR 0x00 \<notin> set s"
  shows "\<forall>\<^sub>F k in sequentially. \<exists>m. jim_regex k pat = Some m \<and> decides m (s \<in> lang_seq ys) s"
  using tree_decides [OF assms(1,3)] whole_match [OF assms(3,2) refl] by simp

lemma pattern_front:
  assumes "tree_is pat [One (Node BOL) # ys]" "free_seq ys" "CHR 0x00 \<notin> set s"
  shows "\<forall>\<^sub>F k in sequentially. \<exists>m. jim_regex k pat = Some m \<and> decides m (\<exists>w \<in> lang_seq ys. prefix w s) s"
  using tree_decides [OF assms(1,3)] front_match [OF assms(3,2) refl] by simp

lemma pattern_inner:
  assumes "tree_is pat bs" "free_alts bs" "CHR 0x00 \<notin> set s"
  shows "\<forall>\<^sub>F k in sequentially. \<exists>m. jim_regex k pat = Some m \<and> decides m (\<exists>w \<in> lang_alts bs. sublist w s) s"
  using tree_decides [OF assms(1,3)] inner_match [OF assms(3,2)] by simp

section \<open>Sets and repetitions\<close>

definition digits :: string where "digits = ''0123456789''"
definition lower_letters :: string where "lower_letters = ''abcdefghijklmnopqrstuvwxyz''"
definition upper_letters :: string where "upper_letters = ''ABCDEFGHIJKLMNOPQRSTUVWXYZ''"
definition alnum :: string where "alnum = digits @ lower_letters @ upper_letters"

lemma char_range:
  assumes "0 < l" "l + r \<le> 256"
  shows "{c. l \<le> of_char c \<and> of_char c < r + l} = char_of ` set [l..l + r - 1]"
proof -
  have "c \<in> char_of ` {l..l + r - 1}" if "l \<le> of_char c" "of_char c < r + l" for c
    using that by (intro image_eqI [of _ _ "of_char c"]) simp_all
  moreover have "of_char (char_of i) = i" if "i \<in> {l..l + r - 1}" for i :: int
    using that assms by simp
  ultimately show ?thesis by auto
qed

lemma chars_Cons:
  assumes "0 < l" "l + r \<le> 256"
  shows "chars False (r # l # ws) = set (map char_of [l..l + r - 1]) \<union> chars False ws"
proof -
  have "chars False (r # l # ws) = {c. l \<le> of_char c \<and> of_char c < r + l} \<union> chars False ws"
    using assms(1) by (auto simp: chars_def)
  then show ?thesis using char_range [OF assms] by simp
qed

lemma chars_Nil: "chars False [] = {}"
  by (simp add: chars_def)

lemma chars_ranges:
  "chars False (10 # 48 # ws) = set digits \<union> chars False ws"
  "chars False (26 # 97 # ws) = set lower_letters \<union> chars False ws"
  "chars False (26 # 65 # ws) = set upper_letters \<union> chars False ws"
  "chars False (1 # 43 # ws) = set ''+'' \<union> chars False ws"
  "chars False (1 # 45 # ws) = set ''-'' \<union> chars False ws"
  "chars False (1 # 46 # ws) = set ''.'' \<union> chars False ws"
  "chars False (1 # 95 # ws) = set ''_'' \<union> chars False ws"
proof -
  have r: "map char_of [48..48 + 10 - 1::int] = digits" "map char_of [97..97 + 26 - 1::int] = lower_letters"
    "map char_of [65..65 + 26 - 1::int] = upper_letters" "map char_of [43..43 + 1 - 1::int] = ''+''"
    "map char_of [45..45 + 1 - 1::int] = ''-''" "map char_of [46..46 + 1 - 1::int] = ''.''"
    "map char_of [95..95 + 1 - 1::int] = ''_''" by code_simp+
  show "chars False (10 # 48 # ws) = set digits \<union> chars False ws" by (subst chars_Cons) (simp, simp, simp only: r)
  show "chars False (26 # 97 # ws) = set lower_letters \<union> chars False ws" by (subst chars_Cons) (simp, simp, simp only: r)
  show "chars False (26 # 65 # ws) = set upper_letters \<union> chars False ws" by (subst chars_Cons) (simp, simp, simp only: r)
  show "chars False (1 # 43 # ws) = set ''+'' \<union> chars False ws" by (subst chars_Cons) (simp, simp, simp only: r)
  show "chars False (1 # 45 # ws) = set ''-'' \<union> chars False ws" by (subst chars_Cons) (simp, simp, simp only: r)
  show "chars False (1 # 46 # ws) = set ''.'' \<union> chars False ws" by (subst chars_Cons) (simp, simp, simp only: r)
  show "chars False (1 # 95 # ws) = set ''_'' \<union> chars False ws" by (subst chars_Cons) (simp, simp, simp only: r)
qed

text \<open>The words over an alphabet, and those with at least one letter.\<close>

definition some_of :: "string \<Rightarrow> string set" where
  "some_of cs = {w. w \<noteq> [] \<and> set w \<subseteq> set cs}"

lemma times_set: "times_lang {[c] | c. c \<in> C} n = {w. length w = n \<and> set w \<subseteq> C}"
proof (induction n)
  case (Suc n)
  have "w \<in> conc {w. length w = n \<and> set w \<subseteq> C} {[c] | c. c \<in> C} \<longleftrightarrow> length w = Suc n \<and> set w \<subseteq> C" for w
    by (cases w rule: rev_cases) (auto simp: conc_def)
  then show ?case using Suc by (auto simp del: set_append)
qed auto

lemma repeats_set: "w \<in> repeats {[c] | c. c \<in> C} 1 n \<longleftrightarrow> w \<noteq> [] \<and> length w \<le> n \<and> set w \<subseteq> C"
  by (auto simp: repeats_def times_set Suc_le_eq)

lemma repeats_opt: "repeats A 0 1 = insert [] A"
proof -
  have "{0..1::nat} = {0, 1}" by auto
  then show ?thesis by (simp add: repeats_def conc_def)
qed

lemma conc_word: "conc {u} L = {u @ v | v. v \<in> L}"
  by (auto simp: conc_def)

lemma lang_word: "lang_atom (Exact (map of_char u)) = {u}"
proof -
  have "inj (of_char :: char \<Rightarrow> int)" by (rule injI) simp
  then show ?thesis by (auto simp: inj_map_eq_map)
qed

text \<open>Between the bounds of a star or of a plus are the words that are no longer than a text can be.\<close>

lemma repeats_times: "w \<in> repeats A mn mx \<longleftrightarrow> (\<exists>n. mn \<le> n \<and> n \<le> mx \<and> w \<in> times_lang A n)"
  by (auto simp: repeats_def)

lemma times_concat: "w \<in> times_lang A n \<longleftrightarrow> (\<exists>vs. length vs = n \<and> set vs \<subseteq> A \<and> w = concat vs)"
proof (induction n arbitrary: w)
  case (Suc n)
  have "w \<in> times_lang A (Suc n) \<longleftrightarrow> (\<exists>vs v. length vs = n \<and> set vs \<subseteq> A \<and> v \<in> A \<and> w = concat vs @ v)"
    using Suc by (auto simp: conc_def)
  also have "\<dots> \<longleftrightarrow> (\<exists>vs. length vs = Suc n \<and> set vs \<subseteq> A \<and> w = concat vs)"
  proof
    assume "\<exists>vs v. length vs = n \<and> set vs \<subseteq> A \<and> v \<in> A \<and> w = concat vs @ v"
    then obtain vs v where "length vs = n" "set vs \<subseteq> A" "v \<in> A" "w = concat vs @ v" by blast
    then show "\<exists>vs. length vs = Suc n \<and> set vs \<subseteq> A \<and> w = concat vs" by (intro exI [of _ "vs @ [v]"]) simp
  next
    assume "\<exists>vs. length vs = Suc n \<and> set vs \<subseteq> A \<and> w = concat vs"
    then obtain vs where vs: "length vs = Suc n" "set vs \<subseteq> A" "w = concat vs" by blast
    then have "vs = butlast vs @ [last vs]" by (metis append_butlast_last_id length_0_conv nat.distinct(1))
    then have "w = concat (butlast vs) @ last vs" "last vs \<in> A" "set (butlast vs) \<subseteq> A"
      using vs by (metis concat.simps concat_append append_Nil2, metis in_set_conv_decomp subsetD, meson in_set_butlastD subset_iff)
    then show "\<exists>vs v. length vs = n \<and> set vs \<subseteq> A \<and> v \<in> A \<and> w = concat vs @ v" using vs(1) by (metis diff_Suc_1 length_butlast)
  qed
  finally show ?case .
qed auto

section \<open>Loaders and libraries\<close>

definition name_chars :: string where "name_chars = alnum @ ''._-''"
definition lib_chars :: string where "lib_chars = alnum @ ''+._-''"
definition version_chars :: string where "version_chars = alnum @ ''_-''"

text \<open>
  \<^verbatim>\<open>ld\<close>, nothing or \<^verbatim>\<open>64\<close> or a dash and a name, \<^verbatim>\<open>.so\<close>, and nothing or a dot and a number.
\<close>

definition loader_name :: "string \<Rightarrow> bool" where
  "loader_name s \<longleftrightarrow> (\<exists>tag ver. s = ''ld'' @ tag @ ''.so'' @ ver \<and>
     (tag \<in> {[], ''64''} \<or> (\<exists>w \<in> some_of name_chars. tag = CHR ''-'' # w)) \<and>
     (ver = [] \<or> (\<exists>w \<in> some_of digits. ver = CHR ''.'' # w)))"

text \<open>\<^verbatim>\<open>lib\<close>, a name, \<^verbatim>\<open>.so\<close>, and versions that each follow a dot.\<close>

definition library_name :: "string \<Rightarrow> bool" where
  "library_name s \<longleftrightarrow> (\<exists>w \<in> some_of lib_chars. \<exists>vs. s = ''lib'' @ w @ ''.so'' @ concat (map (\<lambda>v. CHR ''.'' # v) vs) \<and>
     set vs \<subseteq> some_of version_chars)"

lemma chars_used:
  "chars False [10, 48] = set digits"
  "chars False [10, 48, 26, 97, 26, 65, 1, 46, 1, 95, 1, 45] = set name_chars"
  "chars False [10, 48, 26, 97, 26, 65, 1, 43, 1, 46, 1, 95, 1, 45] = set lib_chars"
  "chars False [10, 48, 26, 97, 26, 65, 1, 95, 1, 45] = set version_chars"
  unfolding chars_ranges chars_Nil name_chars_def lib_chars_def version_chars_def alnum_def set_append by (simp_all add: insert_commute)

definition ldso_pieces :: "piece list" where
  "ldso_pieces =
    [One (Exact (map of_char ''ld'')),
     Many False 0 1 (Group 1 [[One (Exact (map of_char ''64''))],
       [One (Exact (map of_char ''-'')), Many False 1 1000000 (Set False [10, 48, 26, 97, 26, 65, 1, 46, 1, 95, 1, 45])]]),
     One (Exact (map of_char ''.so'')),
     Many False 0 1 (Group 2 [[One (Exact (map of_char ''.'')), Many False 1 1000000 (Set False [10, 48])]])]"

definition lib_pieces :: "piece list" where
  "lib_pieces =
    [One (Exact (map of_char ''lib'')),
     Many False 1 1000000 (Set False [10, 48, 26, 97, 26, 65, 1, 43, 1, 46, 1, 95, 1, 45]),
     One (Exact (map of_char ''.so'')),
     Many False 0 1000000 (Group 1 [[One (Exact (map of_char ''.'')),
       Many False 1 1000000 (Set False [10, 48, 26, 97, 26, 65, 1, 95, 1, 45])]])]"

lemma library_trees:
  "tree_is ldso_regex [One (Node BOL) # ldso_pieces @ [One (Node EOL)]]"
  "tree_is lib_regex [One (Node BOL) # lib_pieces @ [One (Node EOL)]]"
  unfolding tree_is_def by code_simp+

lemma lang_plus:
  assumes "chars False ws = set cs"
  shows "lang_piece (Many lazy 1 n (Set False ws)) = {w \<in> some_of cs. length w \<le> nat n}"
  using repeats_set [of _ "set cs" "nat n"] assms by (auto simp: some_of_def)

lemma lang_option: "lang_piece (Many lazy 0 1 a) = insert [] (lang_atom a)"
  using repeats_opt by simp

lemma lang_group: "lang_atom (Group no bs) = lang_alts bs"
  by simp

lemma lang_one: "lang_piece (One a) = lang_atom a"
  by simp

lemma conc_nil: "conc A {[]} = A"
  by (simp add: conc_def)

lemma conc_between: "s \<in> conc {a} (conc A (conc {b} B)) \<longleftrightarrow> (\<exists>u \<in> A. \<exists>v \<in> B. s = a @ u @ b @ v)"
  by (simp add: conc_def) blast

lemmas lang_words = lang_word lang_one lang_option lang_group lang_seq.simps lang_alts.simps conc_nil conc_word Un_empty_right

lemma bounded_parts:
  assumes "\<And>t v. s = f t v \<Longrightarrow> (t \<in> T \<longleftrightarrow> P t) \<and> (v \<in> V \<longleftrightarrow> Q v)"
  shows "(\<exists>t \<in> T. \<exists>v \<in> V. s = f t v) \<longleftrightarrow> (\<exists>t v. s = f t v \<and> P t \<and> Q v)"
  using assms by blast

lemma loader_words: "s \<in> lang_seq ldso_pieces \<longleftrightarrow> loader_name s" if len: "length s \<le> 1000000"
proof -
  let ?T = "insert [] ({''64''} \<union> {''-'' @ w | w. w \<in> {w \<in> some_of name_chars. length w \<le> 1000000}})"
  let ?V = "insert [] {''.'' @ w | w. w \<in> {w \<in> some_of digits. length w \<le> 1000000}}"
  have "lang_seq ldso_pieces = conc {''ld''} (conc ?T (conc {''.so''} ?V))"
    unfolding ldso_pieces_def lang_plus [OF chars_used(1)] lang_plus [OF chars_used(2)] lang_words by simp
  then have "s \<in> lang_seq ldso_pieces \<longleftrightarrow> (\<exists>t \<in> ?T. \<exists>v \<in> ?V. s = ''ld'' @ t @ ''.so'' @ v)"
    by (simp only: conc_between)
  also have "\<dots> \<longleftrightarrow> loader_name s"
  proof -
    let ?P = "\<lambda>t. t \<in> {[], ''64''} \<or> (\<exists>w \<in> some_of name_chars. t = CHR ''-'' # w)"
    let ?Q = "\<lambda>v. v = [] \<or> (\<exists>w \<in> some_of digits. v = CHR ''.'' # w)"
    have PQ: "t \<in> ?T \<longleftrightarrow> ?P t" "v \<in> ?V \<longleftrightarrow> ?Q v" if "s = ''ld'' @ t @ ''.so'' @ v" for t v
    proof -
      have "length t \<le> 1000000" "length v \<le> 1000000" using that len by simp_all
      then show "t \<in> ?T \<longleftrightarrow> ?P t" "v \<in> ?V \<longleftrightarrow> ?Q v" by auto
    qed
    show ?thesis unfolding loader_name_def by (rule bounded_parts, rule conjI, erule PQ(1), erule PQ(2))
  qed
  finally show ?thesis .
qed

lemma times_dotted:
  "w \<in> times_lang {a @ v | v. v \<in> A} n \<longleftrightarrow> (\<exists>vs. length vs = n \<and> set vs \<subseteq> A \<and> w = concat (map (\<lambda>v. a @ v) vs))"
proof -
  have "w \<in> times_lang {a @ v | v. v \<in> A} n \<longleftrightarrow> (\<exists>us. length us = n \<and> set us \<subseteq> (\<lambda>v. a @ v) ` A \<and> w = concat us)"
    unfolding times_concat by (simp add: image_def Bex_def conj_commute)
  also have "\<dots> \<longleftrightarrow> (\<exists>vs. length vs = n \<and> set vs \<subseteq> A \<and> w = concat (map (\<lambda>v. a @ v) vs))"
  proof
    assume "\<exists>us. length us = n \<and> set us \<subseteq> (\<lambda>v. a @ v) ` A \<and> w = concat us"
    then obtain us where us: "length us = n" "set us \<subseteq> (\<lambda>v. a @ v) ` A" "w = concat us" by blast
    have "us \<in> lists ((\<lambda>v. a @ v) ` A)" using us(2) by auto
    then obtain vs where "us = map (\<lambda>v. a @ v) vs" "set vs \<subseteq> A" unfolding lists_image by auto
    then show "\<exists>vs. length vs = n \<and> set vs \<subseteq> A \<and> w = concat (map (\<lambda>v. a @ v) vs)" using us by auto
  next
    assume "\<exists>vs. length vs = n \<and> set vs \<subseteq> A \<and> w = concat (map (\<lambda>v. a @ v) vs)"
    then obtain vs where "length vs = n" "set vs \<subseteq> A" "w = concat (map (\<lambda>v. a @ v) vs)" by blast
    then show "\<exists>us. length us = n \<and> set us \<subseteq> (\<lambda>v. a @ v) ` A \<and> w = concat us"
      by (intro exI [of _ "map (\<lambda>v. a @ v) vs"]) auto
  qed
  finally show ?thesis .
qed

lemma length_dotted: "v \<in> set vs \<Longrightarrow> length v < length (concat (map (\<lambda>v. c # v) vs))"
  "length vs \<le> length (concat (map (\<lambda>v. c # v) vs))"
  by (induction vs) auto

lemma library_words: "s \<in> lang_seq lib_pieces \<longleftrightarrow> library_name s" if len: "length s \<le> 1000000"
proof -
  let ?W = "{w \<in> some_of lib_chars. length w \<le> 1000000}" and ?A = "{w \<in> some_of version_chars. length w \<le> 1000000}"
  let ?V = "repeats {''.'' @ v | v. v \<in> ?A} 0 1000000"
  have "lang_seq lib_pieces = conc {''lib''} (conc ?W (conc {''.so''} ?V))"
    unfolding lib_pieces_def lang_plus [OF chars_used(3)] lang_plus [OF chars_used(4)] lang_piece.simps(2) [of False 0] lang_words by simp
  then have "s \<in> lang_seq lib_pieces \<longleftrightarrow> (\<exists>w \<in> ?W. \<exists>v \<in> ?V. s = ''lib'' @ w @ ''.so'' @ v)"
    by (simp only: conc_between)
  also have "\<dots> \<longleftrightarrow> library_name s"
  proof -
    let ?Q = "\<lambda>v. \<exists>vs. v = concat (map (\<lambda>v. CHR ''.'' # v) vs) \<and> set vs \<subseteq> some_of version_chars"
    have Q: "v \<in> ?V \<longleftrightarrow> ?Q v" if "length v \<le> 1000000" for v
    proof -
      have "v \<in> ?V \<longleftrightarrow> (\<exists>vs. length vs \<le> 1000000 \<and> set vs \<subseteq> ?A \<and> v = concat (map (\<lambda>v. CHR ''.'' # v) vs))"
        unfolding repeats_times append_Cons append_Nil times_dotted [of v "''.''" ?A, unfolded append_Cons append_Nil] by blast
      also have "\<dots> \<longleftrightarrow> ?Q v" 
      proof
        assume "?Q v"
        then obtain vs where vs: "v = concat (map (\<lambda>v. CHR ''.'' # v) vs)" "set vs \<subseteq> some_of version_chars" by blast
        then have "set vs \<subseteq> ?A" "length vs \<le> 1000000"
          using length_dotted(1) [of _ vs "CHR ''.''"] length_dotted(2) [of vs "CHR ''.''"] that by fastforce+
        then show "\<exists>vs. length vs \<le> 1000000 \<and> set vs \<subseteq> ?A \<and> v = concat (map (\<lambda>v. CHR ''.'' # v) vs)" using vs(1) by blast
      qed auto
      finally show ?thesis .
    qed
    have "w \<in> ?W \<longleftrightarrow> w \<in> some_of lib_chars" "v \<in> ?V \<longleftrightarrow> ?Q v" if "s = ''lib'' @ w @ ''.so'' @ v" for w v
    proof -
      have "length w \<le> 1000000" "length v \<le> 1000000" using that len by simp_all
      then show "w \<in> ?W \<longleftrightarrow> w \<in> some_of lib_chars" "v \<in> ?V \<longleftrightarrow> ?Q v" using Q by simp_all
    qed
    then have "(\<exists>w \<in> ?W. \<exists>v \<in> ?V. s = ''lib'' @ w @ ''.so'' @ v) \<longleftrightarrow>
        (\<exists>w v. s = ''lib'' @ w @ ''.so'' @ v \<and> w \<in> some_of lib_chars \<and> ?Q v)"
      by (intro bounded_parts) blast
    then show ?thesis unfolding library_name_def by blast
  qed
  finally show ?thesis .
qed

text \<open>
  C19: The expressions of \<^verbatim>\<open>dso.c\<close> compile, and their search returns for every name of up to a million
  characters: \<^verbatim>\<open>__is_ldso\<close> accepts exactly \<^verbatim>\<open>ld\<close> with nothing, \<^verbatim>\<open>64\<close> or a dash and a name, \<^verbatim>\<open>.so\<close> and at most one
  number, and \<^verbatim>\<open>__is_lib\<close> exactly \<^verbatim>\<open>lib\<close>, a name, \<^verbatim>\<open>.so\<close> and versions behind dots.
\<close>

theorem library_names:
  assumes "CHR 0x00 \<notin> set s" "length s \<le> 1000000"
  shows "\<forall>\<^sub>F k in sequentially. \<exists>ml mb. dso_init (jim_regex k) \<lparr>re_ldso = None, re_lib = None\<rparr> = \<lparr>re_ldso = Some ml, re_lib = Some mb\<rparr> \<and>
    decides ml (loader_name s) s \<and> decides mb (library_name s) s"
proof -
  have "\<forall>\<^sub>F k in sequentially. \<exists>m. jim_regex k ldso_regex = Some m \<and> decides m (loader_name s) s"
    using pattern_whole [OF library_trees(1) _ assms(1)] loader_words [OF assms(2)] by (simp add: ldso_pieces_def op_defs)
  moreover have "\<forall>\<^sub>F k in sequentially. \<exists>m. jim_regex k lib_regex = Some m \<and> decides m (library_name s) s"
    using pattern_whole [OF library_trees(2) _ assms(1)] library_words [OF assms(2)] by (simp add: lib_pieces_def op_defs)
  ultimately show ?thesis by eventually_elim (auto simp: dso_init_def)
qed

lemma library_names_witness:
  "\<forall>\<^sub>F k in sequentially. \<exists>ml mb. dso_init (jim_regex k) \<lparr>re_ldso = None, re_lib = None\<rparr> = \<lparr>re_ldso = Some ml, re_lib = Some mb\<rparr> \<and>
    decides ml True ''ld-linux.so.2'' \<and> decides mb False ''ld-linux.so.2''"
proof -
  have "''linux'' \<in> some_of name_chars" "''2'' \<in> some_of digits"
    by (simp_all add: some_of_def name_chars_def alnum_def digits_def lower_letters_def)
  then have "loader_name ''ld-linux.so.2''" unfolding loader_name_def
    by (intro exI [of _ "''-linux''"] exI [of _ "''.2''"]) simp
  moreover have "\<not> library_name ''ld-linux.so.2''" by (auto simp: library_name_def)
  ultimately show ?thesis using library_names [of "''ld-linux.so.2''"] by simp
qed

section \<open>Paths that are left alone\<close>

definition words_atom :: "string list \<Rightarrow> atom" where
  "words_atom ws = Group 1 (map (\<lambda>w. [One (Exact (map of_char w))]) ws)"

lemma lang_words_atom: "lang_atom (words_atom ws) = set ws"
proof -
  have "lang_alts (map (\<lambda>w. [One (Exact (map of_char w))]) ws) = set ws"
    by (induction ws) (simp_all only: list.map lang_words list.set Un_insert_left Un_empty_left)
  then show ?thesis by (simp add: words_atom_def)
qed

lemma free_words_atom: "free_atom (words_atom ws)"
proof -
  have "free_alts (map (\<lambda>w. [One (Exact (map of_char w))]) ws)" by (induction ws) simp_all
  then show ?thesis by (simp add: words_atom_def)
qed

lemma path_trees:
  "tree_is default_ignore [One (Node BOL) # [One (words_atom host_dirs)]]"
  "tree_is default_warning_ignore [One (Node BOL) # [One (Exact (map of_char dnf_log))] @ [One (Node EOL)]]"
  "tree_is default_exec_ignore [[One (Exact (map of_char ''mountpoint''))]]"
  unfolding tree_is_def by code_simp+

text \<open>
  C20: Without the variables that replace them, the expressions of \<^verbatim>\<open>path_resolution.c\<close> leave exactly the
  paths whose text starts with \<^verbatim>\<open>/proc/\<close>, \<^verbatim>\<open>/sys/\<close>, \<^verbatim>\<open>/dev/\<close>, \<^verbatim>\<open>/var/run/\<close> or \<^verbatim>\<open>/run/\<close> to the host
  (\<^verbatim>\<open>/dev/../etc\<close> too), and are silent about the log of \<^verbatim>\<open>dnf\<close> alone.
\<close>

theorem ignored_paths:
  assumes "CHR 0x00 \<notin> set s" "l_ignore lib = None"
    and "env_get ''IAMROOT_PATH_RESOLUTION_IGNORE'' (l_env lib) = None"
    and "env_get ''IAMROOT_PATH_RESOLUTION_WARNING_IGNORE'' (l_env lib) = None"
  shows "\<forall>\<^sub>F k in sequentially. \<exists>mi mw. path_resolution_init (jim_regex k) lib = lib\<lparr>l_ignore := Some mi, l_warning := Some mw\<rparr> \<and>
    decides mi (\<exists>d \<in> set host_dirs. prefix d s) s \<and> decides mw (s = dnf_log) s"
proof -
  have "lang_seq [One (words_atom host_dirs)] = set host_dirs"
    by (simp only: lang_seq.simps conc_nil lang_one lang_words_atom)
  then have "\<forall>\<^sub>F k in sequentially. \<exists>m. jim_regex k default_ignore = Some m \<and> decides m (\<exists>d \<in> set host_dirs. prefix d s) s"
    using pattern_front [OF path_trees(1) _ assms(1)] by (simp add: free_words_atom)
  moreover have "lang_seq [One (Exact (map of_char dnf_log))] = {dnf_log}" by (simp only: lang_words)
  then have "\<forall>\<^sub>F k in sequentially. \<exists>m. jim_regex k default_warning_ignore = Some m \<and> decides m (s = dnf_log) s"
    using pattern_whole [OF path_trees(2) _ assms(1)] by simp
  ultimately show ?thesis
  proof eventually_elim
    case (elim k)
    then obtain mi mw where "jim_regex k default_ignore = Some mi" "decides mi (\<exists>d \<in> set host_dirs. prefix d s) s"
        "jim_regex k default_warning_ignore = Some mw" "decides mw (s = dnf_log) s" by blast
    then show ?case by (intro exI [of _ mi] exI [of _ mw]) (simp add: path_resolution_init_def assms)
  qed
qed

lemma ignored_paths_witness:
  "\<forall>\<^sub>F k in sequentially. \<exists>mi mw. path_resolution_init (jim_regex k) \<lparr>l_env = None, l_ignore = None, l_warning = None\<rparr> =
      \<lparr>l_env = None, l_ignore = Some mi, l_warning = Some mw\<rparr> \<and>
    decides mi True ''/proc/self/exe'' \<and> decides mw False ''/proc/self/exe''"
  using ignored_paths [of "''/proc/self/exe''" "\<lparr>l_env = None, l_ignore = None, l_warning = None\<rparr>"]
  by (simp add: env_get_def host_dirs_def dnf_log_def)

text \<open>The functions of \<open>chroot_lib\<close> are those of the compiled expressions.\<close>

lemma default_matches:
  "decides m (\<exists>d \<in> set host_dirs. prefix d s) s \<longleftrightarrow> m s = default_match s"
  "decides m (s = dnf_log) s \<longleftrightarrow> m s = default_warning_match s"
  by (simp_all add: decides_def default_match_def default_warning_match_def list_ex_iff)

theorem ignored_programs:
  assumes "CHR 0x00 \<notin> set s" "env_get ''IAMROOT_EXEC_IGNORE'' env = None"
  shows "\<forall>\<^sub>F k in sequentially. \<exists>m. execve_init (jim_regex k) env None = Some m \<and> decides m (sublist ''mountpoint'' s) s"
proof -
  have "lang_alts [[One (Exact (map of_char ''mountpoint''))]] = {''mountpoint''}" by (simp only: lang_words)
  then have "\<forall>\<^sub>F k in sequentially. \<exists>m. jim_regex k default_exec_ignore = Some m \<and> decides m (sublist ''mountpoint'' s) s"
    using pattern_inner [OF path_trees(3) _ assms(1)] by simp
  then show ?thesis by eventually_elim (simp add: execve_init_def assms)
qed

end
