(* ===== verification/Jim_Flaws.thy ===== *)
theory Jim_Flaws
  imports Jim_Builtin
begin

text \<open>
  Where the matcher of \<^verbatim>\<open>jimregexp.c\<close> does not match what the grammar says: repetitions of groups
  inside of each other, groups without a number and lazy groups, which \<open>ok_alts\<close> of \<^verbatim>\<open>Jim_Layout\<close> keeps
  apart, and the corners of sets and counts.
\<close>

section \<open>Counts inside of counts\<close>

text \<open>The count of the inner group is not cleared when the outer group is entered again.\<close>

definition nested_count :: string where "nested_count = ''^((a)+c)+$''"

definition nested_pieces :: "piece list" where
  "nested_pieces = [Many False 1 1000000 (Group 1 [[Many False 1 1000000 (Group 2 [[One (Exact (map of_char ''a''))]]),
     One (Exact (map of_char ''c''))]])]"

text \<open>A word of the language has no more \<open>c\<close> than \<open>a\<close>.\<close>

definition c_below_a :: "string \<Rightarrow> bool" where
  "c_below_a w \<longleftrightarrow> count_list w (CHR ''c'') \<le> count_list w (CHR ''a'')"

lemma c_below_a_times:
  assumes "\<And>v. v \<in> A \<Longrightarrow> c_below_a v" "w \<in> times_lang A n"
  shows "c_below_a w"
  using assms(2)
proof (induction n arbitrary: w)
  case (Suc n)
  then obtain u v where "w = u @ v" "u \<in> times_lang A n" "v \<in> A" by (auto simp: conc_def)
  then show ?case using Suc.IH [of u] assms(1) [of v] by (simp add: c_below_a_def)
qed (simp add: c_below_a_def)

lemma nested_words:
  assumes "w \<in> lang_seq nested_pieces"
  shows "c_below_a w"
proof -
  have a: "count_list u (CHR ''c'') = 0 \<and> count_list u (CHR ''a'') = n" if "u \<in> times_lang {''a''} n" for u n
    using that by (induction n arbitrary: u) (auto simp: conc_def)
  have "c_below_a v" if v: "v \<in> conc (repeats {''a''} 1 (nat 1000000)) {''c''}" for v
  proof -
    obtain u n where "v = u @ ''c''" "1 \<le> n" "u \<in> times_lang {''a''} n" 
      using v unfolding conc_def mem_Collect_eq repeats_times by blast
    then show ?thesis using a [of u n] by (simp add: c_below_a_def)
  qed
  moreover obtain n where "w \<in> times_lang (conc (repeats {''a''} 1 (nat 1000000)) {''c''}) n"
    using assms unfolding nested_pieces_def lang_words lang_piece.simps(2) repeats_times by (auto simp: repeats_times)
  ultimately show ?thesis by (rule c_below_a_times)
qed

lemma nested_answer: "map_option (\<lambda>m. m ''acc'') (jim_regex 29 nested_count) = Some 0"
  by code_simp

text \<open>
  A repetition inside of a repeated group keeps its count from one round of the outer to the next: the
  expression accepts a text that is not in the language of its own tree.
\<close>

theorem nested_count_kept:
  "\<exists>m. map_run (map_sum id fst) (regex_tree 0 nested_count) = Ret (Inr [One (Node BOL) # nested_pieces @ [One (Node EOL)]]) \<and>
    jim_regex 29 nested_count = Some m \<and> m ''acc'' = 0 \<and> ''acc'' \<notin> lang_seq nested_pieces"
proof -
  have "\<not> c_below_a ''acc''" by (simp add: c_below_a_def)
  then have "''acc'' \<notin> lang_seq nested_pieces" using nested_words by blast
  moreover have "map_run (map_sum id fst) (regex_tree 0 nested_count) = Ret (Inr [One (Node BOL) # nested_pieces @ [One (Node EOL)]])"
    by code_simp
  ultimately show ?thesis using nested_answer by auto
qed

section \<open>Positions that are not restored\<close>

lemma group_position_lost: "map_option (\<lambda>m. m ''abc'') (jim_regex 25 ''^(?:ab[x])*abc'') = Some REG_NOMATCH"
  by code_simp

lemma lazy_position_lost: "map_option (\<lambda>m. m ''aab'') (jim_regex 25 ''^(a)*?[a]b'') = Some REG_NOMATCH"
  by code_simp

section \<open>Sets and counts\<close>

text \<open>A range with its ends the wrong way round by one is written as an empty range, which ends the set.\<close>

lemma swapped_range: "map_option (\<lambda>m. m ''x'') (jim_regex 20 ''[b-ax]'') = Some REG_NOMATCH"
  by code_simp

text \<open>A count beyond the integers is negative, and the matcher reads in front of the text.\<close>

lemma negative_count:
  "case jim_regcomp True (Some ''a{4294967295}c'') 0 of
     Ret (Inr re) \<Rightarrow> (case jim_regexec 20 re (Some ''ac'') [(0, 0)] 0 of Undef \<Rightarrow> True | _ \<Rightarrow> False) | _ \<Rightarrow> False"
  by code_simp

end
