(* ===== verification/Bsd.thy ===== *)
theory Bsd
  imports Names Xattrs Numbers
begin

text \<open>
  The calls that only the BSD systems have: extended attributes by name space
  (\<^verbatim>\<open>extattr_get_file.c\<close> and its eleven relatives), file flags (\<^verbatim>\<open>chflags.c\<close>),
  file handles (\<^verbatim>\<open>getfh.c\<close>), the status calls of NetBSD (\<^verbatim>\<open>__lstat50.c\<close>), directories
  (\<^verbatim>\<open>__opendir2.c\<close>, \<^verbatim>\<open>scandir_b.c\<close>) and mounts (\<^verbatim>\<open>nmount.c\<close>). The path of a descriptor is a
  parameter, as these systems have no \<^verbatim>\<open>/proc/self/fd\<close>.
\<close>

section \<open>Names of attributes\<close>

definition EXTATTR_PREFIX :: string where "EXTATTR_PREFIX = ''iamroot.''"
definition EXTATTR_MAXNAMELEN :: nat where "EXTATTR_MAXNAMELEN = 255"
definition EXTATTR_NAMESPACE_USER :: int where "EXTATTR_NAMESPACE_USER = 1"
definition EXTATTR_NAMESPACE_SYSTEM :: int where "EXTATTR_NAMESPACE_SYSTEM = 2"

text \<open>A name of the system is a prefixed name of the user; a name of the user is left alone.\<close>

definition extattr_name :: "int \<Rightarrow> string \<Rightarrow> errno + int \<times> string" where
  "extattr_name ns name =
     (if ns = EXTATTR_NAMESPACE_SYSTEM then
        map_sum id (\<lambda>n. (EXTATTR_NAMESPACE_USER, n)) (snprintf (EXTATTR_PREFIX @ name) (EXTATTR_MAXNAMELEN + 1))
      else Inr (ns, name))"

definition with_extattr ::
    "int \<Rightarrow> string \<Rightarrow> (int \<Rightarrow> string \<Rightarrow> 'w \<Rightarrow> (errno + 'r) \<times> 'w) \<Rightarrow> 'w \<Rightarrow> (errno + 'r) \<times> 'w" where
  "with_extattr ns name f w = (case extattr_name ns name of Inl e \<Rightarrow> (Inl e, w) | Inr (ns', n) \<Rightarrow> f ns' n w)"

section \<open>Reading, writing and removing\<close>

definition extattr_get_file where
  "extattr_get_file dl h lib e path ns name siz w =
     with_path (path_resolution h lib e AT_FDCWD (Some path) PATH_MAX 0)
       (\<lambda>buf. with_extattr ns name (\<lambda>ns' n. next_call dl (buf, ns', n, siz))) w"

definition extattr_get_link where
  "extattr_get_link dl h lib e path ns name siz w =
     with_path (path_resolution h lib e AT_FDCWD (Some path) PATH_MAX AT_SYMLINK_NOFOLLOW)
       (\<lambda>buf. with_extattr ns name (\<lambda>ns' n. next_call dl (buf, ns', n, siz))) w"

definition extattr_get_fd where
  "extattr_get_fd dl fdpath fd ns name siz w =
     with_path (fdpath fd) (\<lambda>buf. with_extattr ns name (\<lambda>ns' n. next_call dl (fd, ns', n, siz))) w"

definition extattr_set_file where
  "extattr_set_file dl h lib e path ns name val w =
     with_path (path_resolution h lib e AT_FDCWD (Some path) PATH_MAX 0)
       (\<lambda>buf. with_extattr ns name (\<lambda>ns' n. next_call dl (buf, ns', n, val))) w"

definition extattr_set_link where
  "extattr_set_link dl h lib e path ns name val w =
     with_path (path_resolution h lib e AT_FDCWD (Some path) PATH_MAX AT_SYMLINK_NOFOLLOW)
       (\<lambda>buf. with_extattr ns name (\<lambda>ns' n. next_call dl (buf, ns', n, val))) w"

definition extattr_set_fd where
  "extattr_set_fd dl fdpath fd ns name val w =
     with_path (fdpath fd) (\<lambda>buf. with_extattr ns name (\<lambda>ns' n. next_call dl (fd, ns', n, val))) w"

definition extattr_delete_file where
  "extattr_delete_file dl h lib e path ns name w =
     with_path (path_resolution h lib e AT_FDCWD (Some path) PATH_MAX 0)
       (\<lambda>buf. with_extattr ns name (\<lambda>ns' n. next_call dl (buf, ns', n))) w"

definition extattr_delete_link where
  "extattr_delete_link dl h lib e path ns name w =
     with_path (path_resolution h lib e AT_FDCWD (Some path) PATH_MAX AT_SYMLINK_NOFOLLOW)
       (\<lambda>buf. with_extattr ns name (\<lambda>ns' n. next_call dl (buf, ns', n))) w"

definition extattr_delete_fd where
  "extattr_delete_fd dl fdpath fd ns name w =
     with_path (fdpath fd) (\<lambda>buf. with_extattr ns name (\<lambda>ns' n. next_call dl (fd, ns', n))) w"

section \<open>Listing\<close>

text \<open>
  A listing is a sequence of lengths and names. \<open>i\<close> is the index into \<^verbatim>\<open>extbuf\<close>, of which the host has
  filled \<open>buf\<close>; a length is read as a character with a sign and widened to a \<^verbatim>\<open>size_t\<close>. The name is
  compared with the prefix on from there, past its end if need be.
\<close>

fun compare_prefix :: "string \<Rightarrow> string \<Rightarrow> bool run" where
  "compare_prefix s [] = Ret True"
| "compare_prefix [] (p # ps) = Undef"
| "compare_prefix (c # s) (p # ps) = (if c = p then compare_prefix s ps else Ret False)"

definition entry_len :: "char \<Rightarrow> 64 word" where
  "entry_len c = word_of_int (schar c)"

text \<open>The copy into the list of the caller, which has \<open>room\<close> bytes; \<open>None\<close> is a null pointer.\<close>

definition copy_entry :: "nat option \<Rightarrow> string \<Rightarrow> 64 word \<Rightarrow> string \<Rightarrow> string run" where
  "copy_entry room src cnt out =
     (case room of
        None \<Rightarrow> Ret out
      | Some r \<Rightarrow>
          if unat cnt \<le> length src \<and> length out + 1 + unat cnt \<le> r
          then Ret (out @ char_of (unat cnt) # take (unat cnt) src) else Undef)"

fun extattr_list_loop ::
    "nat \<Rightarrow> bool \<Rightarrow> nat option \<Rightarrow> string \<Rightarrow> 64 word \<Rightarrow> 64 word \<Rightarrow> string \<Rightarrow> (64 word \<times> string) run" where
  "extattr_list_loop 0 sys room buf i ret out = Diverge"
| "extattr_list_loop (Suc k) sys room buf i ret out =
     (if int (length buf) \<le> sint i then Ret (ret, out)
      else if sint i < 0 then Undef
      else let len = entry_len (buf ! unat i); src = drop (unat i + 1) buf in
        if len = 0 then Ret (ret, out)
        else run_bind (if sys then compare_prefix src EXTATTR_PREFIX else Ret False) (\<lambda>b.
          let off = (if b then of_nat (length EXTATTR_PREFIX) else 0) in
          run_bind (copy_entry room (drop (unat off) src) (len - off) out) (\<lambda>out'.
            if len = off then extattr_list_loop k sys room buf (i + len + 1) ret out
            else extattr_list_loop k sys room buf (i + len + 1) (ret + len + 1 - off) out')))"

text \<open>The answer is the size and, with a list, its bytes; the size the caller gave is not looked at.\<close>

definition extattr_list where
  "extattr_list k ns room res next w =
     run_bind (with_path res (next (if ns = EXTATTR_NAMESPACE_SYSTEM then EXTATTR_NAMESPACE_USER else ns)) w) (\<lambda>(r, w').
       case r of
         Inl e \<Rightarrow> Ret (Inl e, w')
       | Inr v \<Rightarrow> run_bind (extattr_list_loop k (ns = EXTATTR_NAMESPACE_SYSTEM) room v 0 0 [])
                    (\<lambda>out. Ret (Inr out, w')))"

definition extattr_list_fd where
  "extattr_list_fd k dl fdpath fd ns room w =
     extattr_list k ns room (fdpath fd) (\<lambda>ns' buf. next_call dl (fd, ns', EXTATTR_MAXNAMELEN + 1)) w"

text \<open>These two resolve the path and give the host the path they were given.\<close>

definition extattr_list_file where
  "extattr_list_file k dl h lib e path ns room w =
     extattr_list k ns room (path_resolution h lib e AT_FDCWD (Some path) PATH_MAX 0)
       (\<lambda>ns' buf. next_call dl (path, ns', EXTATTR_MAXNAMELEN + 1)) w"

definition extattr_list_link where
  "extattr_list_link k dl h lib e path ns room w =
     extattr_list k ns room (path_resolution h lib e AT_FDCWD (Some path) PATH_MAX AT_SYMLINK_NOFOLLOW)
       (\<lambda>ns' buf. next_call dl (path, ns', EXTATTR_MAXNAMELEN + 1)) w"

section \<open>Flags and handles\<close>

text \<open>All but \<^verbatim>\<open>getfhat\<close> give the host the path they were given.\<close>

definition chflags where
  "chflags dl h lib e path (fflags :: 64 word) w =
     with_path (path_resolution h lib e AT_FDCWD (Some path) PATH_MAX 0) (\<lambda>buf. next_call dl (path, fflags)) w"

definition lchflags where
  "lchflags dl h lib e path (fflags :: 64 word) w =
     with_path (path_resolution h lib e AT_FDCWD (Some path) PATH_MAX AT_SYMLINK_NOFOLLOW)
       (\<lambda>buf. next_call dl (path, fflags)) w"

definition chflagsat where
  "chflagsat dl h lib e dfd path (fflags :: 64 word) atflags w =
     with_path (path_resolution h lib e dfd (Some path) PATH_MAX atflags)
       (\<lambda>buf. next_call dl (dfd, path, fflags, atflags)) w"

definition getfh where
  "getfh dl h lib e path w =
     with_path (path_resolution h lib e AT_FDCWD (Some path) PATH_MAX 0) (\<lambda>buf. next_call dl path) w"

definition lgetfh where
  "lgetfh dl h lib e path w =
     with_path (path_resolution h lib e AT_FDCWD (Some path) PATH_MAX AT_SYMLINK_NOFOLLOW)
       (\<lambda>buf. next_call dl path) w"

definition getfhat where
  "getfhat dl h lib e dfd path atflags w =
     with_path (path_resolution h lib e dfd (Some path) PATH_MAX atflags) (\<lambda>buf. next_call dl (dfd, buf, atflags)) w"

section \<open>Status, directories and mounts\<close>

definition stat50 where
  "stat50 xa dl fxdl h lib e path w = fstatat xa dl fxdl h lib e AT_FDCWD path 0 w"

text \<open>The numbers \<open>0\<close> that \<^verbatim>\<open>__lstat50\<close> writes first are the ones the macros write again.\<close>

definition lstat50 where
  "lstat50 xa dl h lib e path w =
     with_path (link_path h lib e AT_FDCWD path AT_SYMLINK_NOFOLLOW)
       (\<lambda>buf. stat_path xa (next_call dl buf) buf) w"

definition fstat50 where
  "fstat50 xa xfd dl fd w = stat_path xa (next_call dl fd) (xfd fd) w"

definition opendir2 where
  "opendir2 dl h lib e path (oflags :: int) w =
     with_path (path_resolution h lib e AT_FDCWD (Some path) PATH_MAX 0) (\<lambda>buf. next_call dl (buf, oflags)) w"

definition scandir_b where
  "scandir_b dl h lib e path cbs w =
     with_path (path_resolution h lib e AT_FDCWD (Some path) PATH_MAX 0) (\<lambda>buf. next_call dl (buf, cbs)) w"

definition nmount where "nmount iov (niov :: 32 word) (mflags :: int) w = not_forwarded w"
definition unmount where "unmount (dir :: string) (uflags :: int) w = not_forwarded w"

end
