(* ===== verification/Bsd_Facts.thy ===== *)
theory Bsd_Facts
  imports Bsd Xattrs_Facts
begin

text \<open>
  The calls of the BSD systems: attributes of the system as a store of the program, listings and the
  lengths they cannot hold, and the calls that leave the chroot.
\<close>

section \<open>Names\<close>

lemma extattr_name_system:
  "extattr_name EXTATTR_NAMESPACE_SYSTEM n =
    (if length (EXTATTR_PREFIX @ n) \<le> EXTATTR_MAXNAMELEN then Inr (EXTATTR_NAMESPACE_USER, EXTATTR_PREFIX @ n) else Inl ENOSPC)"
  by (simp add: extattr_name_def snprintf_def)

section \<open>Listings\<close>

definition entries :: "string list \<Rightarrow> string" where
  "entries ns = concat (map (\<lambda>n. char_of (length n) # n) ns)"

lemma entries_simps [simp]:
  "entries [] = []" "entries (n # ns) = char_of (length n) # n @ entries ns"
  by (simp_all add: entries_def)







declare extattr_list_loop.simps(2) [simp del]




section \<open>Lengths that are negative characters\<close>

lemma compare_prefix_long: "length p \<le> length s \<Longrightarrow> compare_prefix s p = Ret (prefix p s)"
proof (induction p arbitrary: s)
  case (Cons c p)
  then show ?case by (cases s) auto
qed simp

text \<open>A name of 255 bytes has the length \<open>-1\<close>, and the index stays where it is.\<close>

lemma extattr_list_stuck:
  assumes "length n = 255"
  shows "extattr_list_loop k sys None (CHR 0xFF # n) 0 ret out = Diverge"
proof (induction k arbitrary: ret)
  case (Suc k)
  have len: "entry_len (CHR 0xFF) = - 1" by (simp add: entry_len_def schar_def)
  have "compare_prefix n EXTATTR_PREFIX = Ret (prefix EXTATTR_PREFIX n)"
    using assms by (intro compare_prefix_long) (simp add: EXTATTR_PREFIX_def)
  moreover have "(- 1 :: 64 word) \<noteq> of_nat (length EXTATTR_PREFIX)" by (simp add: EXTATTR_PREFIX_def)
  ultimately show ?case using Suc assms by (cases sys) (simp_all add: extattr_list_loop.simps(2) len copy_entry_def Let_def)
qed simp

section \<open>Attributes of the system\<close>

text \<open>The contract of \<open>attr_store\<close> on a host whose attributes are a map from paths, name spaces and names.\<close>

type_synonym ext_map = "string \<times> int \<times> string \<Rightarrow> string option"

definition ext_hget :: "string \<times> int \<times> string \<times> nat \<Rightarrow> ext_map \<Rightarrow> (errno + string) \<times> ext_map" where
  "ext_hget a w = (case a of (p, s, n, siz) \<Rightarrow> (case w (p, s, n) of None \<Rightarrow> Inl ENODATA | Some v \<Rightarrow> Inr (take siz v), w))"

definition ext_hset :: "string \<times> int \<times> string \<times> string \<Rightarrow> ext_map \<Rightarrow> (errno + int) \<times> ext_map" where
  "ext_hset a w = (case a of (p, s, n, v) \<Rightarrow> (Inr (int (length v)), w((p, s, n) := Some v)))"

lemma extattr_file_store:
  assumes "path_resolution h lib e AT_FDCWD (Some path) PATH_MAX 0 = Ret buf"
    and "length (EXTATTR_PREFIX @ n) \<le> EXTATTR_MAXNAMELEN" "length (EXTATTR_PREFIX @ m) \<le> EXTATTR_MAXNAMELEN" "length v \<le> siz"
    and "run_result w (extattr_set_file (Some ext_hset) h lib e path EXTATTR_NAMESPACE_SYSTEM n v w) = (Inr r, w')"
  shows "shown_run (extattr_get_file (Some ext_hget) h lib e path EXTATTR_NAMESPACE_SYSTEM m siz w') =
    (if m = n then Some v else shown_run (extattr_get_file (Some ext_hget) h lib e path EXTATTR_NAMESPACE_SYSTEM m siz w))"
  using assms by (auto simp: extattr_set_file_def extattr_get_file_def with_path_def with_extattr_def extattr_name_system
      next_call_def ext_hset_def ext_hget_def run_result_def shown_run_def shown_def)

interpretation system: attr_store
  "\<lambda>n w. shown_run (extattr_get_file (Some ext_hget) bare_host (chroot_lib ''/r'') E_OK ''/f'' EXTATTR_NAMESPACE_SYSTEM n 16 w)"
  "\<lambda>n v w. run_result w (extattr_set_file (Some ext_hset) bare_host (chroot_lib ''/r'') E_OK ''/f'' EXTATTR_NAMESPACE_SYSTEM n v w)"
  "\<lambda>n. length (EXTATTR_PREFIX @ n) \<le> EXTATTR_MAXNAMELEN" "\<lambda>v. length v \<le> 16"
  by unfold_locales (rule extattr_file_store [OF res_f])

text \<open>The mode that is recorded for a file is the attribute \<^verbatim>\<open>mode\<close> of the system that the program writes.\<close>

lemma extattr_mode_shared:
  assumes "path_resolution h lib e AT_FDCWD (Some path) PATH_MAX 0 = Ret buf"
  shows "extattr_set_file (Some f) h lib e path EXTATTR_NAMESPACE_SYSTEM ''mode'' v w =
    Ret (f (buf, EXTATTR_NAMESPACE_USER, ''iamroot.mode'', v) w)"
  using assms by (simp add: extattr_set_file_def with_path_def with_extattr_def extattr_name_system next_call_def
      EXTATTR_PREFIX_def EXTATTR_MAXNAMELEN_def)

section \<open>Properties\<close>



text \<open>
  An attribute with a name of 255 bytes, which is the longest there is, makes a listing without a list
  run for ever: its length is read as the character -1.
\<close>

theorem extattr_list_endless:
  assumes "path_resolution h lib e AT_FDCWD (Some path) PATH_MAX 0 = Ret buf"
    and "dl (path, EXTATTR_NAMESPACE_USER, EXTATTR_MAXNAMELEN + 1) w = (Inr (entries [n]), w')" "length n = EXTATTR_MAXNAMELEN"
  shows "extattr_list_file k (Some dl) h lib e path EXTATTR_NAMESPACE_SYSTEM None w = Diverge"
proof -
  have "char_of (255 :: nat) = CHR 0xFF" by code_simp
  then have "entries [n] = CHR 0xFF # n" using assms(3) by (simp add: EXTATTR_MAXNAMELEN_def)
  then show ?thesis using assms extattr_list_stuck [of n k True 0 "[]"]
    by (simp add: extattr_list_file_def extattr_list_def with_path_def next_call_def EXTATTR_MAXNAMELEN_def)
qed

theorem extattr_list_endless_witness:
  "extattr_list_file 1000 (Some (\<lambda>_ w. (Inr (entries [replicate 255 CHR ''a'']), w))) bare_host (chroot_lib ''/r'') E_OK ''/f''
     EXTATTR_NAMESPACE_SYSTEM None () = Diverge"
  using extattr_list_endless [OF res_f, of "\<lambda>_ w. (Inr (entries [replicate 255 CHR ''a'']), w)" "()"
      "replicate 255 CHR ''a''" "()" 1000] by (simp only: EXTATTR_MAXNAMELEN_def length_replicate)

text \<open>
  The calls on file flags and handles resolve the path of the program and then give the host the path they
  were given: in a chroot they work on a file outside of it. \<^verbatim>\<open>getfhat\<close> gives the resolved path.
\<close>

lemma bsd_calls_unresolved:
  assumes "path_resolution h lib e AT_FDCWD (Some path) PATH_MAX 0 = Ret buf"
    and "path_resolution h lib e AT_FDCWD (Some path) PATH_MAX AT_SYMLINK_NOFOLLOW = Ret lbuf"
    and "path_resolution h lib e dfd (Some path) PATH_MAX atflags = Ret abuf"
  shows "chflags (Some f) h lib e path fflags w = Ret (f (path, fflags) w)"
    and "lchflags (Some f) h lib e path fflags w = Ret (f (path, fflags) w)"
    and "chflagsat (Some g) h lib e dfd path fflags atflags w = Ret (g (dfd, path, fflags, atflags) w)"
    and "getfh (Some p) h lib e path w = Ret (p path w)"
    and "lgetfh (Some p) h lib e path w = Ret (p path w)"
    and "getfhat (Some q) h lib e dfd path atflags w = Ret (q (dfd, abuf, atflags) w)"
  using assms by (simp_all add: chflags_def lchflags_def chflagsat_def getfh_def lgetfh_def getfhat_def with_path_def next_call_def)

end
