(* ===== verification/Ftw.thy ===== *)
theory Ftw
  imports Attrs
begin

unbundle bit_operations_syntax

text \<open>
  The walk over a tree of files (\<^verbatim>\<open>nftw.c\<close>, \<^verbatim>\<open>nftw64.c\<close>, \<^verbatim>\<open>ftw.c\<close>): the code of musl over the wrapped
  calls, with a callback that is shown every path without the root directory. The calls on files are the
  fields of \<open>walk_host\<close>; a directory stream is the list of the names it answers.
\<close>

section \<open>The calls and the callback\<close>

datatype ftw_type = FTW_F | FTW_D | FTW_DNR | FTW_NS | FTW_SL | FTW_DP | FTW_SLN

definition FTW_PHYS :: "32 word" where "FTW_PHYS = 1"
definition FTW_MOUNT :: "32 word" where "FTW_MOUNT = 2"
definition FTW_DEPTH :: "32 word" where "FTW_DEPTH = 8"

record wstat =
  ws_mode :: "32 word"
  ws_dev :: "64 word"
  ws_ino :: "64 word"

record 'w walk_host =
  wh_env :: "'w \<Rightarrow> env"
  wh_stat :: "string \<Rightarrow> 'w \<Rightarrow> (errno + wstat) \<times> 'w"
  wh_lstat :: "string \<Rightarrow> 'w \<Rightarrow> (errno + wstat) \<times> 'w"
  wh_open :: "string \<Rightarrow> 'w \<Rightarrow> (errno + int) \<times> 'w"
  wh_fdopendir :: "int \<Rightarrow> 'w \<Rightarrow> (errno + string list) \<times> 'w"
  wh_closedir :: "int \<Rightarrow> 'w \<Rightarrow> 'w"
  wh_close :: "int \<Rightarrow> 'w \<Rightarrow> 'w"

definition S_ISDIR :: "32 word \<Rightarrow> bool" where "S_ISDIR m \<longleftrightarrow> m AND S_IFMT = 0x4000"
definition S_ISLNK :: "32 word \<Rightarrow> bool" where "S_ISLNK m \<longleftrightarrow> m AND S_IFMT = 0xA000"

text \<open>
  What a visit tells: the path, the status (\<open>None\<close> when it could not be read), the type, and the base
  and the level of \<^verbatim>\<open>struct FTW\<close>.
\<close>

type_synonym visit = "string \<times> wstat option \<times> ftw_type \<times> nat \<times> nat"

type_synonym 'w visitor = "visit \<Rightarrow> 'w \<Rightarrow> int \<times> 'w"

text \<open>\<^verbatim>\<open>__nftw_callback\<close>, which answers \<open>-1\<close> when there is no function.\<close>

definition shown_path :: "env \<Rightarrow> string \<Rightarrow> string" where
  "shown_path env path =
     (let buf = strncpy_buf path PATH_MAX in case striprootdir env buf of None \<Rightarrow> buf | Some s \<Rightarrow> s)"

definition nftw_callback :: "'w walk_host \<Rightarrow> 'w visitor option \<Rightarrow> 'w visitor" where
  "nftw_callback host fn v w =
     (case v of (path, rest) \<Rightarrow>
        (case fn of None \<Rightarrow> (- 1, w) | Some f \<Rightarrow> f (shown_path (wh_env host w) path, rest) w))"

section \<open>One directory level\<close>

record history =
  h_dev :: "64 word"
  h_ino :: "64 word"
  h_level :: nat
  h_base :: nat

text \<open>The type of what is at a path; a status that is refused is a type as well.\<close>

definition file_type :: "32 word \<Rightarrow> 32 word \<Rightarrow> ftw_type" where
  "file_type flags m =
     (if S_ISDIR m then (if flags AND FTW_DEPTH \<noteq> 0 then FTW_DP else FTW_D)
      else if S_ISLNK m then (if flags AND FTW_PHYS \<noteq> 0 then FTW_SL else FTW_SLN)
      else FTW_F)"

definition unreadable :: "errno \<Rightarrow> errno + (ftw_type \<times> wstat option)" where
  "unreadable e = (if e \<noteq> EACCES then Inl e else Inr (FTW_NS, None))"

definition look_at ::
    "'w walk_host \<Rightarrow> 32 word \<Rightarrow> string \<Rightarrow> 'w \<Rightarrow> (errno + (ftw_type \<times> wstat option)) \<times> 'w" where
  "look_at host flags path w =
     (case (if flags AND FTW_PHYS \<noteq> 0 then wh_lstat host path w else wh_stat host path w) of
        (Inr st, w1) \<Rightarrow> (Inr (file_type flags (ws_mode st), Some st), w1)
      | (Inl e, w1) \<Rightarrow>
          if flags AND FTW_PHYS = 0 \<and> e = ENOENT then
            (case wh_lstat host path w1 of
               (Inr st, w2) \<Rightarrow> (Inr (FTW_SLN, Some st), w2)
             | (Inl e2, w2) \<Rightarrow> (unreadable e2, w2))
          else (unreadable e, w1))"

text \<open>The number of characters in front of a final slash, and where the last component starts.\<close>

definition front_len :: "string \<Rightarrow> nat" where
  "front_len path = (if path \<noteq> [] \<and> last path = slash then length path - 1 else length path)"

fun down_while :: "(nat \<Rightarrow> bool) \<Rightarrow> nat \<Rightarrow> nat" where
  "down_while P 0 = 0"
| "down_while P (Suc k) = (if P (Suc k) then down_while P k else Suc k)"

definition base_of :: "string \<Rightarrow> nat" where
  "base_of path =
     (let at = (\<lambda>k. if k < length path then path ! k else NUL);
          k = down_while (\<lambda>k. at k = slash) (front_len path)
      in down_while (\<lambda>k. at (k - 1) \<noteq> slash) k)"

definition dots :: "string \<Rightarrow> bool" where
  "dots d \<longleftrightarrow> d = ''.'' \<or> d = ''..''"

text \<open>
  The loop over the names of a directory: the name is put behind the path, in a buffer of \<open>PATH_MAX + 1\<close>
  bytes, and \<open>rec\<close> walks what is there.
\<close>

type_synonym 'w walked = "((errno + int) \<times> 'w) run"

fun nftw_entries :: "(string \<Rightarrow> 'w \<Rightarrow> 'w walked) \<Rightarrow> string \<Rightarrow> string list \<Rightarrow> 'w \<Rightarrow> 'w walked" where
  "nftw_entries rec path [] w = Ret (Inr 0, w)"
| "nftw_entries rec path (d # ds) w =
     (if dots d then nftw_entries rec path ds w
      else if length path \<le> PATH_MAX \<and> PATH_MAX - length path \<le> length d then Ret (Inl ENAMETOOLONG, w)
      else if PATH_MAX < front_len path + 1 + length d then Undef
      else run_bind (rec (take (front_len path) path @ slash # d) w) (\<lambda>(r, w').
             if r \<noteq> Inr 0 then Ret (r, w') else nftw_entries rec path ds w'))"

text \<open>The descent into an opened directory; \<open>rec\<close> is missing when no descriptor is left.\<close>

definition nftw_descend ::
    "(string \<Rightarrow> 'w \<Rightarrow> 'w walked) option \<Rightarrow> 'w walk_host \<Rightarrow> ftw_type \<Rightarrow> (errno + int) \<Rightarrow> string \<Rightarrow> 'w \<Rightarrow> 'w walked" where
  "nftw_descend rec host type dfd path w =
     (case rec of
        None \<Rightarrow> Ret (Inr 0, w)
      | Some walk \<Rightarrow>
          if type \<noteq> FTW_D \<and> type \<noteq> FTW_DP then Ret (Inr 0, w)
          else (case dfd of
              Inl e \<Rightarrow> Ret (Inl e, w)
            | Inr fd \<Rightarrow>
                (case wh_fdopendir host fd w of
                   (Inl e, w1) \<Rightarrow> Ret (Inl e, wh_close host fd w1)
                 | (Inr names, w1) \<Rightarrow>
                     run_bind (nftw_entries walk path names w1) (\<lambda>(r, w2). Ret (r, wh_closedir host fd w2)))))"

text \<open>A directory is opened before it is visited; without a descriptor left it is closed again.\<close>

definition nftw_open ::
    "bool \<Rightarrow> 'w walk_host \<Rightarrow> ftw_type \<Rightarrow> string \<Rightarrow> 'w \<Rightarrow> ftw_type \<times> (errno + int) \<times> 'w" where
  "nftw_open limited host type path w =
     (if type \<noteq> FTW_D \<and> type \<noteq> FTW_DP then (type, Inr 0, w)
      else (case wh_open host path w of (dfd, w1) \<Rightarrow>
          (if dfd = Inl EACCES then FTW_DNR else type, dfd,
           if limited then (case dfd of Inl e \<Rightarrow> w1 | Inr fd \<Rightarrow> wh_close host fd w1) else w1)))"

text \<open>
  The body of \<^verbatim>\<open>do_nftw\<close>, where \<open>rec hs\<close> is the call of itself with a chain \<open>hs\<close> of directories above and
  one descriptor less.
\<close>

definition nftw_level :: "history list \<Rightarrow> nat" where
  "nftw_level hs = (case hs of [] \<Rightarrow> 0 | h # _ \<Rightarrow> h_level h + 1)"

definition do_nftw_body ::
    "(history list \<Rightarrow> string \<Rightarrow> 'w \<Rightarrow> 'w walked) option \<Rightarrow> 'w walk_host \<Rightarrow> 'w visitor option \<Rightarrow> 32 word
     \<Rightarrow> history list \<Rightarrow> string \<Rightarrow> 'w \<Rightarrow> 'w walked" where
  "do_nftw_body rec host fn flags hs path w =
     (case look_at host flags path w of
        (Inl e, w1) \<Rightarrow> Ret (Inl e, w1)
      | (Inr (type, st), w1) \<Rightarrow>
          let dev = (case st of None \<Rightarrow> 0 | Some s \<Rightarrow> ws_dev s);
              ino = (case st of None \<Rightarrow> 0 | Some s \<Rightarrow> ws_ino s);
              new = \<lparr>h_dev = dev, h_ino = ino, h_level = nftw_level hs, h_base = front_len path + 1\<rparr>;
              base = (case hs of [] \<Rightarrow> base_of path | h # _ \<Rightarrow> h_base h)
          in if flags AND FTW_MOUNT \<noteq> 0 \<and> hs \<noteq> [] \<and> type \<noteq> FTW_NS \<and> dev \<noteq> h_dev (hd hs) then Ret (Inr 0, w1)
          else (case nftw_open (rec = None) host type path w1 of (type', dfd, w2) \<Rightarrow>
            let visit = nftw_callback host fn (path, st, type', base, nftw_level hs);
                (r, w3) = (if flags AND FTW_DEPTH = 0 then visit w2 else (0, w2))
            in if r \<noteq> 0 then Ret (Inr r, w3)
            else if \<exists>h \<in> set hs. h_dev h = dev \<and> h_ino h = ino then Ret (Inr 0, w3)
            else run_bind (nftw_descend (map_option (\<lambda>f. f (new # hs)) rec) host type' dfd path w3) (\<lambda>(r', w4).
              if r' \<noteq> Inr 0 then Ret (r', w4)
              else if flags AND FTW_DEPTH \<noteq> 0 then (case visit w4 of (r'', w5) \<Rightarrow> Ret (Inr r'', w5))
              else Ret (Inr 0, w4))))"

primrec do_nftw ::
    "nat \<Rightarrow> 'w walk_host \<Rightarrow> 'w visitor option \<Rightarrow> 32 word \<Rightarrow> history list \<Rightarrow> string \<Rightarrow> 'w \<Rightarrow> 'w walked" where
  "do_nftw 0 host fn flags = do_nftw_body None host fn flags"
| "do_nftw (Suc n) host fn flags = do_nftw_body (Some (do_nftw n host fn flags)) host fn flags"

section \<open>The calls\<close>

definition nftw :: "'w walk_host \<Rightarrow> string \<Rightarrow> 'w visitor option \<Rightarrow> int \<Rightarrow> 32 word \<Rightarrow> 'w \<Rightarrow> 'w walked" where
  "nftw host path fn fd_limit flags w =
     (if fd_limit \<le> 0 then Ret (Inr 0, w)
      else if PATH_MAX < length path then Ret (Inl ENAMETOOLONG, w)
      else do_nftw (nat fd_limit) host fn flags [] path w)"

text \<open>\<^verbatim>\<open>nftw64.c\<close> is the same code on the status calls of the large file interface.\<close>

definition do_nftw64 where
  "do_nftw64 = (do_nftw :: nat \<Rightarrow> 'w walk_host \<Rightarrow> 'w visitor option \<Rightarrow> 32 word \<Rightarrow> history list \<Rightarrow> string \<Rightarrow> 'w \<Rightarrow> 'w walked)"

definition nftw64 :: "'w walk_host \<Rightarrow> string \<Rightarrow> 'w visitor option \<Rightarrow> int \<Rightarrow> 32 word \<Rightarrow> 'w \<Rightarrow> 'w walked" where
  "nftw64 host path fn fd_limit flags w =
     (if fd_limit \<le> 0 then Ret (Inr 0, w)
      else if PATH_MAX < length path then Ret (Inl ENAMETOOLONG, w)
      else do_nftw64 (nat fd_limit) host fn flags [] path w)"

text \<open>The function of \<^verbatim>\<open>ftw\<close> is called with one argument more than it takes.\<close>

definition ftw :: "'w walk_host \<Rightarrow> string \<Rightarrow> (string \<times> wstat option \<times> ftw_type \<Rightarrow> 'w \<Rightarrow> int \<times> 'w) option \<Rightarrow> int \<Rightarrow> 'w \<Rightarrow> 'w walked" where
  "ftw host path fn fd_limit w =
     nftw host path (map_option (\<lambda>f (p, st, type, _). f (p, st, type)) fn) fd_limit FTW_PHYS w"

end
