(* ===== verification/Ftw_Facts.thy ===== *)
theory Ftw_Facts
  imports Ftw Attrs_Facts
begin

unbundle bit_operations_syntax

text \<open>
  The walk stays in its buffer and returns on every host; on a tree of files that does not change it
  makes the visits of a reference traversal and stops at the first function that asks for it.
\<close>

section \<open>The walk returns\<close>

definition returns :: "'w walked \<Rightarrow> bool" where
  "returns r \<longleftrightarrow> (\<exists>x. r = Ret x)"

lemma returns_Ret [simp]: "returns (Ret x)"
  by (simp add: returns_def)

lemma returns_bind: "returns m \<Longrightarrow> (\<And>r w. returns (f (r, w))) \<Longrightarrow> returns (run_bind m f)"
  by (auto simp: returns_def)

lemma returns_if: "(b \<Longrightarrow> returns x) \<Longrightarrow> (\<not> b \<Longrightarrow> returns y) \<Longrightarrow> returns (if b then x else y)"
  by simp

lemma returns_prod: "(\<And>a b. returns (f a b)) \<Longrightarrow> returns (case p of (a, b) \<Rightarrow> f a b)"
  by (cases p) simp

lemma returns_sum: "(\<And>a. x = Inl a \<Longrightarrow> returns (f a)) \<Longrightarrow> (\<And>b. x = Inr b \<Longrightarrow> returns (g b)) \<Longrightarrow> returns (case_sum f g x)"
  by (cases x) auto

lemmas returns_intros = returns_Ret returns_bind returns_if returns_prod returns_sum

lemma front_len_le: "front_len path \<le> length path"
  by (simp add: front_len_def)

lemma entries_return:
  assumes "\<And>p w. length p \<le> PATH_MAX \<Longrightarrow> returns (rec p w)" "length path \<le> PATH_MAX"
  shows "returns (nftw_entries rec path names w)"
proof (induction names arbitrary: w)
  case (Cons d names)
  have "front_len path + 1 + length d \<le> PATH_MAX" if "\<not> PATH_MAX - length path \<le> length d"
    using that front_len_le [of path] by linarith
  moreover have "length (take (front_len path) path @ slash # d) = front_len path + 1 + length d"
    using front_len_le [of path] by simp
  ultimately show ?case using Cons assms by (auto intro!: returns_bind)
qed simp

lemma body_returns:
  assumes "\<And>f hs p w. rec = Some f \<Longrightarrow> length p \<le> PATH_MAX \<Longrightarrow> returns (f hs p w)" "length path \<le> PATH_MAX"
  shows "returns (do_nftw_body rec host fn flags hs path w)"
proof -
  have "returns (nftw_descend (map_option (\<lambda>f. f hs') rec) host type dfd path w)" for hs' type dfd w
  proof (cases rec)
    case None
    then show ?thesis by (simp add: nftw_descend_def)
  next
    case (Some f)
    have "returns (nftw_entries (f hs') path names w)" for names w
      by (rule entries_return) (rule assms(1) [OF Some], assumption, rule assms(2))
    then show ?thesis unfolding nftw_descend_def Some option.map option.case by (intro returns_intros)
  qed
  then show ?thesis unfolding do_nftw_body_def Let_def by (intro returns_intros)
qed

lemma do_nftw_returns:
  "length path \<le> PATH_MAX \<Longrightarrow> returns (do_nftw n host fn flags hs path w)"
proof (induction n arbitrary: hs path w)
  case 0
  then show ?case by (auto intro: body_returns)
next
  case (Suc n)
  then show ?case by (auto intro!: body_returns)
qed

section \<open>A tree and its visits\<close>

datatype ftree = File | Link | Folder "(string \<times> ftree) list"

fun tree_type :: "32 word \<Rightarrow> ftree \<Rightarrow> ftw_type" where
  "tree_type flags File = FTW_F"
| "tree_type flags Link = (if flags AND FTW_PHYS \<noteq> 0 then FTW_SL else FTW_SLN)"
| "tree_type flags (Folder cs) = (if flags AND FTW_DEPTH \<noteq> 0 then FTW_DP else FTW_D)"

definition below :: "string \<Rightarrow> string \<Rightarrow> string" where
  "below path d = take (front_len path) path @ slash # d"

fun children :: "ftree \<Rightarrow> (string \<times> ftree) list" where
  "children (Folder cs) = cs"
| "children t = []"

definition around :: "32 word \<Rightarrow> visit \<Rightarrow> visit list \<Rightarrow> visit list" where
  "around flags v vs = (if flags AND FTW_DEPTH = 0 then v # vs else vs @ [v])"

text \<open>Each file in front of, or with \<open>FTW_DEPTH\<close> behind, the files below it, down to a level.\<close>

primrec visits :: "nat \<Rightarrow> (string \<Rightarrow> wstat) \<Rightarrow> 32 word \<Rightarrow> string \<Rightarrow> nat \<Rightarrow> nat \<Rightarrow> ftree \<Rightarrow> visit list" where
  "visits 0 st flags path base level t = [(path, Some (st path), tree_type flags t, base, level)]"
| "visits (Suc n) st flags path base level t =
     around flags (path, Some (st path), tree_type flags t, base, level)
       (concat (map (\<lambda>(d, t'). visits n st flags (below path d) (front_len path + 1) (level + 1) t') (children t)))"

fun visit_all :: "'w visitor \<Rightarrow> visit list \<Rightarrow> 'w \<Rightarrow> (errno + int) \<times> 'w" where
  "visit_all f [] w = (Inr 0, w)"
| "visit_all f (v # vs) w = (case f v w of (r, w') \<Rightarrow> if r \<noteq> 0 then (Inr r, w') else visit_all f vs w')"

lemma visit_all_append:
  "visit_all f (vs @ us) w = (case visit_all f vs w of (r, w') \<Rightarrow> if r \<noteq> Inr 0 then (r, w') else visit_all f us w')"
  by (induction vs arbitrary: w) (auto split: prod.splits)

text \<open>A host that serves a tree at a path: nothing fails, and no file is one of those above it.\<close>

definition kind_served :: "'w walk_host \<Rightarrow> 32 word \<Rightarrow> wstat \<Rightarrow> string \<Rightarrow> ftree \<Rightarrow> bool" where
  "kind_served host flags s path t \<longleftrightarrow>
     (if t = Link \<and> flags AND FTW_PHYS = 0
      then (\<forall>w. wh_stat host path w = (Inl ENOENT, w) \<and> wh_lstat host path w = (Inr s, w))
      else (\<forall>w. (if flags AND FTW_PHYS \<noteq> 0 then wh_lstat host path w else wh_stat host path w) = (Inr s, w)) \<and>
        file_type flags (ws_mode s) = tree_type flags t)"

definition folder_served :: "'w walk_host \<Rightarrow> string \<Rightarrow> string list \<Rightarrow> bool" where
  "folder_served host path ds \<longleftrightarrow> (\<exists>fd names. filter (\<lambda>d. \<not> dots d) names = ds \<and>
     (\<forall>w. wh_open host path w = (Inr fd, w) \<and> wh_fdopendir host fd w = (Inr names, w) \<and>
       wh_closedir host fd w = w \<and> wh_close host fd w = w))"

fun served :: "'w walk_host \<Rightarrow> (string \<Rightarrow> wstat) \<Rightarrow> 32 word \<Rightarrow> (64 word \<times> 64 word) set \<Rightarrow> string \<Rightarrow> ftree \<Rightarrow> bool"
  and all_served :: "'w walk_host \<Rightarrow> (string \<Rightarrow> wstat) \<Rightarrow> 32 word \<Rightarrow> (64 word \<times> 64 word) set \<Rightarrow> string \<Rightarrow> (string \<times> ftree) list \<Rightarrow> bool" where
  "served host st flags seen path (Folder cs) \<longleftrightarrow>
     kind_served host flags (st path) path (Folder cs) \<and> (ws_dev (st path), ws_ino (st path)) \<notin> seen \<and>
     folder_served host path (map fst cs) \<and>
     all_served host st flags (insert (ws_dev (st path), ws_ino (st path)) seen) path cs"
| "served host st flags seen path t \<longleftrightarrow>
     kind_served host flags (st path) path t \<and> (ws_dev (st path), ws_ino (st path)) \<notin> seen"
| "all_served host st flags seen path [] \<longleftrightarrow> True"
| "all_served host st flags seen path ((d, t) # cs) \<longleftrightarrow>
     length path + length d < PATH_MAX \<and> served host st flags seen (below path d) t \<and> all_served host st flags seen path cs"

lemma served_root:
  "served host st flags seen path t \<Longrightarrow>
    kind_served host flags (st path) path t \<and> (ws_dev (st path), ws_ino (st path)) \<notin> seen"
  by (cases t) auto

lemma look_at_served:
  "kind_served host flags s path t \<Longrightarrow> look_at host flags path w = (Inr (tree_type flags t, Some s), w)"
  by (cases "t = Link \<and> flags AND FTW_PHYS = 0") (auto simp: kind_served_def look_at_def)

lemma entries_served:
  assumes "\<And>d t w. (d, t) \<in> set cs \<Longrightarrow> rec (below path d) w = Ret (visit_all f (vs d t) w)"
    and "\<And>d t. (d, t) \<in> set cs \<Longrightarrow> length path + length d < PATH_MAX"
    and "filter (\<lambda>d. \<not> dots d) names = map fst cs"
  shows "nftw_entries rec path names w = Ret (visit_all f (concat (map (\<lambda>(d, t). vs d t) cs)) w)"
  using assms
proof (induction names arbitrary: cs w)
  case (Cons d names)
  show ?case
  proof (cases "dots d")
    case True
    then show ?thesis using Cons.IH [OF Cons.prems(1,2)] Cons.prems(3) by simp
  next
    case False
    then obtain t cs' where cs: "cs = (d, t) # cs'" "filter (\<lambda>d. \<not> dots d) names = map fst cs'"
      using Cons.prems(3) by (cases cs) auto
    have len: "length path + length d < PATH_MAX" using Cons.prems(2) [of d t] cs(1) by simp
    then have fit: "\<not> PATH_MAX - length path \<le> length d" "\<not> PATH_MAX < front_len path + 1 + length d"
      using front_len_le [of path] by linarith+
    have r: "rec (take (front_len path) path @ slash # d) w = Ret (visit_all f (vs d t) w)"
      using Cons.prems(1) cs(1) by (simp add: below_def)
    have "nftw_entries rec path names w = Ret (visit_all f (concat (map (\<lambda>(d, t). vs d t) cs')) w)" for w
    proof (rule Cons.IH)
      show "rec (below path d') w = Ret (visit_all f (vs d' t') w)" "length path + length d' < PATH_MAX"
        if "(d', t') \<in> set cs'" for d' t' w using Cons.prems(1,2) [of d' t'] cs(1) that by simp_all
    qed (rule cs(2))
    then show ?thesis using False fit by (simp add: r cs(1) visit_all_append split: prod.splits)
  qed
qed simp

lemma all_served_iff:
  "all_served host st flags seen path cs \<longleftrightarrow>
    (\<forall>(d, t) \<in> set cs. length path + length d < PATH_MAX \<and> served host st flags seen (below path d) t)"
  by (induction cs) auto

lemma open_served:
  assumes "served host st flags seen path t"
  shows "\<exists>dfd. nftw_open limited host (tree_type flags t) path w = (tree_type flags t, dfd, w)"
  using assms by (cases t) (auto simp: folder_served_def nftw_open_def)

lemma descend_served:
  assumes "served host st flags seen path t"
    and "nftw_open limited host (tree_type flags t) path w0 = (tree_type flags t, dfd, w0)"
    and "\<And>d t' w. (d, t') \<in> set (children t) \<Longrightarrow>
      served host st flags (insert (ws_dev (st path), ws_ino (st path)) seen) (below path d) t' \<Longrightarrow>
      walk (below path d) w = Ret (visit_all f (vs d t') w)"
  shows "nftw_descend (Some walk) host (tree_type flags t) dfd path w =
    Ret (visit_all f (concat (map (\<lambda>(d, t'). vs d t') (children t))) w)"
proof (cases "\<exists>cs. t = Folder cs")
  case True
  then obtain cs where t: "t = Folder cs" by blast
  then obtain fd names where h: "filter (\<lambda>d. \<not> dots d) names = map fst cs"
      "\<And>w. wh_open host path w = (Inr fd, w)" "\<And>w. wh_fdopendir host fd w = (Inr names, w)"
      "\<And>w. wh_closedir host fd w = w" "\<And>w. wh_close host fd w = w"
    using assms(1) by (auto simp: folder_served_def)
  have dfd: "dfd = Inr fd" using assms(2) h(2) by (auto simp: t nftw_open_def split: if_splits)
  have cs: "length path + length d < PATH_MAX"
      "served host st flags (insert (ws_dev (st path), ws_ino (st path)) seen) (below path d) t'"
    if "(d, t') \<in> set cs" for d t' using assms(1) that by (auto simp: t all_served_iff)
  have "nftw_entries walk path names w = Ret (visit_all f (concat (map (\<lambda>(d, t'). vs d t') cs)) w)" for w
    by (rule entries_served) (use assms(3) cs h(1) t in auto)
  then show ?thesis using h by (auto simp: t dfd nftw_descend_def split: prod.splits)
next
  case False
  then have "tree_type flags t \<noteq> FTW_D" "tree_type flags t \<noteq> FTW_DP" "children t = []" by (cases t; simp)+
  then show ?thesis by (simp add: nftw_descend_def)
qed

text \<open>The body on a tree that is served, when the descent makes the visits \<open>inner\<close>.\<close>

lemma body_served:
  assumes "served host st flags ((\<lambda>h. (h_dev h, h_ino h)) ` set hs) path t" "flags AND FTW_MOUNT = 0"
    and "\<And>dfd new w'. nftw_open (rec = None) host (tree_type flags t) path w = (tree_type flags t, dfd, w) \<Longrightarrow>
      new = \<lparr>h_dev = ws_dev (st path), h_ino = ws_ino (st path), h_level = nftw_level hs, h_base = front_len path + 1\<rparr> \<Longrightarrow>
      nftw_descend (map_option (\<lambda>f. f (new # hs)) rec) host (tree_type flags t) dfd path w' =
        Ret (visit_all (nftw_callback host fn) inner w')"
  shows "do_nftw_body rec host fn flags hs path w =
    Ret (visit_all (nftw_callback host fn)
      (around flags (path, Some (st path), tree_type flags t, case hs of [] \<Rightarrow> base_of path | h # _ \<Rightarrow> h_base h, nftw_level hs) inner) w)"
proof -
  have k: "kind_served host flags (st path) path t" "(ws_dev (st path), ws_ino (st path)) \<notin> (\<lambda>h. (h_dev h, h_ino h)) ` set hs"
    using served_root [OF assms(1)] by auto
  obtain dfd where o: "nftw_open (rec = None) host (tree_type flags t) path w = (tree_type flags t, dfd, w)"
    using open_served [OF assms(1)] by blast
  have fresh: "\<not> (\<exists>h \<in> set hs. h_dev h = ws_dev (st path) \<and> h_ino h = ws_ino (st path))" using k(2) by force
  show ?thesis
    unfolding do_nftw_body_def look_at_served [OF k(1)] Let_def
    using o fresh assms(2,3) by (auto simp: around_def visit_all_append split: prod.splits)
qed

lemma do_nftw_served:
  assumes "served host st flags ((\<lambda>h. (h_dev h, h_ino h)) ` set hs) path t" "flags AND FTW_MOUNT = 0"
  shows "do_nftw n host fn flags hs path w =
    Ret (visit_all (nftw_callback host fn)
      (visits n st flags path (case hs of [] \<Rightarrow> base_of path | h # _ \<Rightarrow> h_base h) (nftw_level hs) t) w)"
  using assms(1)
proof (induction n arbitrary: hs path t w)
  case 0
  have "do_nftw_body None host fn flags hs path w = Ret (visit_all (nftw_callback host fn)
      (around flags (path, Some (st path), tree_type flags t, case hs of [] \<Rightarrow> base_of path | h # _ \<Rightarrow> h_base h, nftw_level hs) []) w)"
    by (rule body_served [OF 0 assms(2)]) (simp add: nftw_descend_def)
  then show ?case by (simp add: around_def)
next
  case (Suc n)
  show ?case unfolding do_nftw.simps visits.simps
  proof (rule body_served [OF Suc.prems assms(2)])
    fix dfd new w'
    assume o: "nftw_open (Some (do_nftw n host fn flags) = None) host (tree_type flags t) path w = (tree_type flags t, dfd, w)"
      and new: "new = \<lparr>h_dev = ws_dev (st path), h_ino = ws_ino (st path), h_level = nftw_level hs, h_base = front_len path + 1\<rparr>"
    have "nftw_descend (Some (do_nftw n host fn flags (new # hs))) host (tree_type flags t) dfd path w' =
        Ret (visit_all (nftw_callback host fn)
          (concat (map (\<lambda>(d, t'). visits n st flags (below path d) (front_len path + 1) (nftw_level hs + 1) t') (children t))) w')"
    proof (rule descend_served [OF Suc.prems o])
      fix d t' w
      assume "served host st flags (insert (ws_dev (st path), ws_ino (st path)) ((\<lambda>h. (h_dev h, h_ino h)) ` set hs)) (below path d) t'"
      then show "do_nftw n host fn flags (new # hs) (below path d) w = Ret (visit_all (nftw_callback host fn)
          (visits n st flags (below path d) (front_len path + 1) (nftw_level hs + 1) t') w)"
        using Suc.IH [of "new # hs"] by (simp add: new nftw_level_def)
    qed
    then show "nftw_descend (map_option (\<lambda>f. f (new # hs)) (Some (do_nftw n host fn flags))) host (tree_type flags t) dfd path w' =
        Ret (visit_all (nftw_callback host fn)
          (concat (map (\<lambda>(d, t'). visits n st flags (below path d) (front_len path + 1) (nftw_level hs + 1) t') (children t))) w')"
      by simp
  qed
qed

section \<open>A small tree\<close>

definition demo_stat :: "string \<Rightarrow> wstat" where
  "demo_stat path = \<lparr>ws_mode = (if path \<in> {''d'', ''d/s''} then 0x41ED else 0x81A4), ws_dev = 1, ws_ino = of_nat (length path)\<rparr>"

definition demo_host :: "('w \<Rightarrow> env) \<Rightarrow> 'w walk_host" where
  "demo_host en =
     \<lparr>wh_env = en, wh_stat = (\<lambda>p w. (Inr (demo_stat p), w)), wh_lstat = (\<lambda>p w. (Inr (demo_stat p), w)),
      wh_open = (\<lambda>p w. (Inr (if p = ''d'' then 3 else 4), w)),
      wh_fdopendir = (\<lambda>fd w. (Inr (if fd = 3 then [''.'', ''..'', ''f'', ''s''] else [''g'', ''.'', ''..'']), w)),
      wh_closedir = (\<lambda>_ w. w), wh_close = (\<lambda>_ w. w)\<rparr>"

definition demo_tree :: ftree where
  "demo_tree = Folder [(''f'', File), (''s'', Folder [(''g'', File)])]"

lemma demo_paths:
  "below ''d'' ''f'' = ''d/f''" "below ''d'' ''s'' = ''d/s''" "below ''d/s'' ''g'' = ''d/s/g''"
  by (simp_all add: below_def front_len_def slash_def)

lemma demo_served: "served (demo_host en) demo_stat FTW_PHYS {} ''d'' demo_tree"
proof -
  have dirs: "kind_served (demo_host en) FTW_PHYS (demo_stat p) p (Folder cs)" if "p = ''d'' \<or> p = ''d/s''" for p cs
    using that by (auto simp: kind_served_def demo_host_def demo_stat_def file_type_def S_ISDIR_def S_IFMT_def FTW_PHYS_def FTW_DEPTH_def)
  have files: "kind_served (demo_host en) FTW_PHYS (demo_stat p) p File" if "p \<noteq> ''d''" "p \<noteq> ''d/s''" for p
    using that by (auto simp: kind_served_def demo_host_def demo_stat_def file_type_def S_ISDIR_def S_ISLNK_def S_IFMT_def FTW_PHYS_def)
  have names: "folder_served (demo_host en) ''d'' [''f'', ''s'']" "folder_served (demo_host en) ''d/s'' [''g'']"
    unfolding folder_served_def
    by (rule exI [of _ 3], rule exI [of _ "[''.'', ''..'', ''f'', ''s'']"], simp add: demo_host_def dots_def,
        rule exI [of _ 4], rule exI [of _ "[''g'', ''.'', ''..'']"], simp add: demo_host_def dots_def)
  have "ws_dev (demo_stat p) = 1" "ws_ino (demo_stat p) = of_nat (length p)" for p by (simp_all add: demo_stat_def)
  then show ?thesis by (simp add: demo_tree_def demo_paths PATH_MAX_def dirs files names)
qed

section \<open>Properties\<close>

text \<open>
  C12: On every host and with every function \<^verbatim>\<open>nftw\<close> returns, and it never writes past the end of
  \<^verbatim>\<open>pathbuf\<close>, whatever names the directories have and however deep they are.
\<close>

theorem nftw_returns: "\<exists>r w'. nftw host path fn fd_limit flags w = Ret (r, w')"
  using do_nftw_returns [of path "nat fd_limit" host fn flags "[]" w] by (auto simp: nftw_def returns_def)

text \<open>
  C11: On a tree of files that is served without an error \<^verbatim>\<open>nftw\<close> calls the function for the files of a
  reference traversal, each in front of or behind what is below it, down to the level that the number of
  descriptors allows, and stops with the first answer that is not 0. For the flags without \<^verbatim>\<open>FTW_MOUNT\<close>.
\<close>

theorem nftw_visits:
  assumes "served host st flags {} path t" "flags AND FTW_MOUNT = 0" "length path \<le> PATH_MAX" "0 < n"
  shows "nftw host path fn (int n) flags w =
    Ret (visit_all (nftw_callback host fn) (visits n st flags path (base_of path) 0 t) w)"
  using do_nftw_served [of host st flags "[]" path t n fn w] assms by (simp add: nftw_def nftw_level_def)

lemma nftw_visits_witness:
  "nftw (demo_host (\<lambda>_. None)) ''d'' (Some (\<lambda>(p, _) w. (0, w @ [p]))) 2 FTW_PHYS [] =
    Ret (Inr 0, [''d'', ''d/f'', ''d/s'', ''d/s/g''])"
proof -
  have m: "FTW_PHYS AND FTW_MOUNT = 0" by (simp add: FTW_PHYS_def FTW_MOUNT_def)
  have p: "shown_path None p = p" if "length p < 10" for p
    using that by (simp add: shown_path_def strncpy_buf_def PATH_MAX_def striprootdir_def getrootdir_def getroot_def env_get_def Let_def)
  have v: "map fst (visits 2 demo_stat FTW_PHYS ''d'' b 0 demo_tree) = [''d'', ''d/f'', ''d/s'', ''d/s/g'']" for b
    by (simp add: numeral_2_eq_2 demo_tree_def around_def demo_paths FTW_PHYS_def FTW_DEPTH_def)
  have "visit_all (nftw_callback (demo_host (\<lambda>_. None)) (Some (\<lambda>(p, _) w. (0, w @ [p])))) vs w = (Inr 0, w @ map fst vs)"
    if "\<forall>p \<in> set (map fst vs). length p < 10" for vs w
    using that by (induction vs arbitrary: w) (auto simp: nftw_callback_def demo_host_def p)
  note this [of "visits 2 demo_stat FTW_PHYS ''d'' (base_of ''d'') 0 demo_tree" "[]", unfolded v]
  then show ?thesis
    using nftw_visits [OF demo_served m, of 2 "\<lambda>_. None" "Some (\<lambda>(p, _) w. (0, w @ [p]))" "[]"] by (simp add: PATH_MAX_def)
qed

text \<open>
  In a chroot a file whose name starts with the name of the root directory is shown to the function
  under another name: the root directory is taken off a path that was never put below it.
\<close>

theorem nftw_shows_other_name:
  assumes "served host st flags {} (root @ p) File" "flags AND FTW_MOUNT = 0" "length (root @ p) < PATH_MAX"
    and "getrootdir (wh_env host w) = root" "root \<noteq> ''/''" "p \<noteq> []"
  shows "nftw host (root @ p) (Some f) 1 flags w =
    Ret (case f (p, Some (st (root @ p)), FTW_F, base_of (root @ p), 0) w of (r, w') \<Rightarrow> (Inr r, w'))"
proof -
  have "strncpy_buf (root @ p) PATH_MAX = root @ p" using assms(3) by (simp add: strncpy_buf_def)
  then have "shown_path (wh_env host w) (root @ p) = p"
    using striprootdir_below [OF assms(4,5), of p] assms(3,6) by (simp add: shown_path_def)
  moreover have "nftw host (root @ p) (Some f) (int 1) flags w =
      Ret (visit_all (nftw_callback host (Some f)) (visits 1 st flags (root @ p) (base_of (root @ p)) 0 File) w)"
    using do_nftw_served [of host st flags "[]" "root @ p" File 1 "Some f" w] assms by (simp add: nftw_def nftw_level_def)
  ultimately show ?thesis by (simp add: around_def nftw_callback_def split: prod.splits)
qed

theorem nftw_shows_other_name_witness:
  "nftw (demo_host (\<lambda>_. Some [''IAMROOT_ROOT=/r''])) ''/r/f'' (Some (\<lambda>(p, _) w. (0, w @ [p]))) 1 FTW_PHYS [] =
    Ret (Inr 0, [''/f''])"
proof -
  let ?host = "demo_host (\<lambda>_ :: string list. Some [''IAMROOT_ROOT=/r''])"
  have s: "served ?host demo_stat FTW_PHYS {} (''/r'' @ ''/f'') File"
    by (simp add: kind_served_def demo_host_def demo_stat_def file_type_def S_ISDIR_def S_ISLNK_def S_IFMT_def FTW_PHYS_def)
  have r: "getrootdir (wh_env ?host []) = ''/r''" by (simp add: demo_host_def) code_simp
  have m: "FTW_PHYS AND FTW_MOUNT = 0" by (simp add: FTW_PHYS_def FTW_MOUNT_def)
  show ?thesis using nftw_shows_other_name [OF s m _ r, of "\<lambda>(p, _) w. (0, w @ [p])"] by (simp add: PATH_MAX_def)
qed

section \<open>Descriptors that stay open\<close>

text \<open>A host that counts its open descriptors, with one empty directory.\<close>

definition count_host :: "nat walk_host" where
  "count_host =
     \<lparr>wh_env = (\<lambda>_. None), wh_stat = (\<lambda>p w. (Inr (demo_stat ''d''), w)), wh_lstat = (\<lambda>p w. (Inr (demo_stat ''d''), w)),
      wh_open = (\<lambda>p w. (Inr 3, Suc w)), wh_fdopendir = (\<lambda>_ w. (Inr [], w)),
      wh_closedir = (\<lambda>_ w. w - 1), wh_close = (\<lambda>_ w. w - 1)\<rparr>"

lemma nftw_closes: "nftw count_host ''d'' (Some (\<lambda>_ w. (0, w))) 1 FTW_PHYS 0 = Ret (Inr 0, 0)"
  by code_simp

lemma nftw_leaks: "nftw count_host ''d'' (Some (\<lambda>_ w. (1, w))) 1 FTW_PHYS 0 = Ret (Inr 1, 1)"
  by code_simp

end
