(* ===== verification/Fts.thy ===== *)
theory Fts
  imports Ftw Search
begin

unbundle bit_operations_syntax

text \<open>
  The file hierarchies of \<^verbatim>\<open>fts.c\<close> (NetBSD's code, compiled for Linux, once more in \<^verbatim>\<open>fts64.c\<close> with the
  64-bit names): the stream, its entries and the helper functions. The entries live in a store, so that
  an entry that was freed, a field that nobody has written and a pointer into a path buffer that has
  moved are seen: reading one is the outcome \<open>Crash\<close>. A failed \<^verbatim>\<open>assert\<close> is \<open>Abort\<close>, a loop over
  entries that never ends is \<open>Loop\<close>. The system calls and the allocator are the fields of \<open>fts_host\<close>.
\<close>

section \<open>Outcomes\<close>

datatype 'a act = Done 'a | Crash | Abort | Loop

fun act_bind :: "'a act \<Rightarrow> ('a \<Rightarrow> 'b act) \<Rightarrow> 'b act" where
  "act_bind (Done x) f = f x"
| "act_bind Crash f = Crash"
| "act_bind Abort f = Abort"
| "act_bind Loop f = Loop"

section \<open>Constants\<close>

definition FTS_COMFOLLOW :: "32 word" where "FTS_COMFOLLOW = 0x001"
definition FTS_LOGICAL :: "32 word" where "FTS_LOGICAL = 0x002"
definition FTS_NOCHDIR :: "32 word" where "FTS_NOCHDIR = 0x004"
definition FTS_NOSTAT :: "32 word" where "FTS_NOSTAT = 0x008"
definition FTS_PHYSICAL :: "32 word" where "FTS_PHYSICAL = 0x010"
definition FTS_SEEDOT :: "32 word" where "FTS_SEEDOT = 0x020"
definition FTS_XDEV :: "32 word" where "FTS_XDEV = 0x040"
definition FTS_OPTIONMASK :: "32 word" where "FTS_OPTIONMASK = 0x0ff"
definition FTS_NAMEONLY :: "32 word" where "FTS_NAMEONLY = 0x100"
definition FTS_STOP :: "32 word" where "FTS_STOP = 0x200"

definition FTS_ROOTPARENTLEVEL :: int where "FTS_ROOTPARENTLEVEL = - 1"
definition FTS_ROOTLEVEL :: int where "FTS_ROOTLEVEL = 0"

datatype fts_info =
    FTS_D | FTS_DC | FTS_DEFAULT | FTS_DNR | FTS_DOT | FTS_DP | FTS_ERR | FTS_F | FTS_INIT | FTS_NS
  | FTS_NSOK | FTS_SL | FTS_SLNONE

definition FTS_DONTCHDIR :: "16 word" where "FTS_DONTCHDIR = 0x01"
definition FTS_SYMFOLLOW :: "16 word" where "FTS_SYMFOLLOW = 0x02"

definition FTS_AGAIN :: int where "FTS_AGAIN = 1"
definition FTS_FOLLOW :: int where "FTS_FOLLOW = 2"
definition FTS_NOINSTR :: int where "FTS_NOINSTR = 3"
definition FTS_SKIP :: int where "FTS_SKIP = 4"

datatype build_type = BCHILD | BNAMES | BREAD

definition DT_UNKNOWN :: "8 word" where "DT_UNKNOWN = 0"
definition DT_DIR :: "8 word" where "DT_DIR = 4"

definition S_ISREG :: "32 word \<Rightarrow> bool" where "S_ISREG m \<longleftrightarrow> m AND S_IFMT = 0x8000"

text \<open>A size that is stored in an \<^verbatim>\<open>unsigned int\<close>, and the difference of two of type \<^verbatim>\<open>size_t\<close>.\<close>

definition fts_truncate :: "nat \<Rightarrow> nat" where
  "fts_truncate n = min n (2 ^ 32 - 1)"

definition size_minus :: "nat \<Rightarrow> nat \<Rightarrow> nat" where
  "size_minus a b = unat (of_nat a - of_nat b :: 64 word)"

section \<open>Entries and the stream\<close>

text \<open>
  An entry is known by its number. \<^verbatim>\<open>fts_accpath\<close> points into the path buffer of some generation
  (every move of the buffer starts a new one), at the name of an entry, or nowhere.
\<close>

type_synonym eid = nat

datatype accpath = Unset | InPath nat | NameOf eid | Wild

record fts_status = wstat +
  ws_nlink :: "64 word"

definition zero_status :: fts_status where
  "zero_status = \<lparr>ws_mode = 0, ws_dev = 0, ws_ino = 0, ws_nlink = 0\<rparr>"

text \<open>A field that may still be unwritten after \<^verbatim>\<open>malloc\<close> has an option type, \<open>None\<close> until it is written.\<close>

record ftsent =
  ent_cycle :: "eid option"
  ent_parent :: "eid option"
  ent_link :: "eid option option"
  ent_number :: int
  ent_pointer :: "nat option"
  ent_accpath :: accpath
  ent_path :: nat
  ent_errno :: errno
  ent_symfd :: "int option"
  ent_pathlen :: "nat option"
  ent_namelen :: nat
  ent_ino :: "64 word option"
  ent_dev :: "64 word option"
  ent_nlink :: "64 word option"
  ent_level :: "int option"
  ent_info :: "fts_info option"
  ent_flags :: "16 word"
  ent_instr :: int
  ent_statp :: "fts_status option option"
  ent_name :: string

record fts =
  sp_cur :: "eid option"
  sp_child :: "eid option"
  sp_array :: nat
  sp_dev :: "64 word option"
  sp_path :: string
  sp_gen :: nat
  sp_rfd :: int
  sp_pathlen :: nat
  sp_nitems :: nat
  sp_compar :: "(ftsent \<Rightarrow> ftsent \<Rightarrow> int) option"
  sp_options :: "32 word"

text \<open>The entries (\<open>None\<close> when freed), \<^verbatim>\<open>errno\<close>, the stream and the system.\<close>

record 'w fts_world =
  fw_ents :: "ftsent option list"
  fw_errno :: errno
  fw_sp :: fts
  fw_sys :: 'w

type_synonym ('w, 'a) fop = "'w fts_world \<Rightarrow> ('a \<times> 'w fts_world) act"

text \<open>
  The system: \<open>fh_realloc\<close> answers whether the memory has moved, \<open>fh_fresh\<close> is what memory holds that
  nobody has written, and \<open>fh_qsort\<close> is the sorting function of the C library.
\<close>

record 'w fts_host =
  fh_stat :: "string \<Rightarrow> 'w \<Rightarrow> (errno + fts_status) \<times> 'w"
  fh_lstat :: "string \<Rightarrow> 'w \<Rightarrow> (errno + fts_status) \<times> 'w"
  fh_fstat :: "int \<Rightarrow> 'w \<Rightarrow> (errno + fts_status) \<times> 'w"
  fh_open :: "string \<Rightarrow> 'w \<Rightarrow> (errno + int) \<times> 'w"
  fh_close :: "int \<Rightarrow> 'w \<Rightarrow> (errno + unit) \<times> 'w"
  fh_fchdir :: "int \<Rightarrow> 'w \<Rightarrow> (errno + unit) \<times> 'w"
  fh_opendir :: "string \<Rightarrow> 'w \<Rightarrow> (errno + (int \<times> (string \<times> 8 word) list)) \<times> 'w"
  fh_closedir :: "int \<Rightarrow> 'w \<Rightarrow> (errno + unit) \<times> 'w"
  fh_malloc :: "'w \<Rightarrow> (errno + unit) \<times> 'w"
  fh_realloc :: "nat \<Rightarrow> 'w \<Rightarrow> (errno + bool) \<times> 'w"
  fh_fresh :: "nat \<Rightarrow> char"
  fh_qsort :: "(eid \<Rightarrow> eid \<Rightarrow> int) \<Rightarrow> eid list \<Rightarrow> eid list"

section \<open>Steps\<close>

definition ret :: "'a \<Rightarrow> ('w, 'a) fop" where
  "ret x s = Done (x, s)"

definition bnd :: "('w, 'a) fop \<Rightarrow> ('a \<Rightarrow> ('w, 'b) fop) \<Rightarrow> ('w, 'b) fop" where
  "bnd m f s = act_bind (m s) (\<lambda>(x, s'). f x s')"

definition seq :: "('w, 'a) fop \<Rightarrow> ('w, 'b) fop \<Rightarrow> ('w, 'b) fop" where
  "seq m n = bnd m (\<lambda>_. n)"

definition crash :: "('w, 'a) fop" where "crash s = Crash"
definition loop :: "('w, 'a) fop" where "loop s = Loop"

text \<open>\<^verbatim>\<open>assert\<close>.\<close>

definition check :: "('w fts_world \<Rightarrow> bool) \<Rightarrow> ('w, unit) fop" where
  "check P s = (if P s then Done ((), s) else Abort)"

definition look :: "('w fts_world \<Rightarrow> 'a) \<Rightarrow> ('w, 'a) fop" where
  "look f s = Done (f s, s)"

definition change :: "('w fts_world \<Rightarrow> 'w fts_world) \<Rightarrow> ('w, unit) fop" where
  "change f s = Done ((), f s)"

definition set_errno :: "errno \<Rightarrow> ('w, unit) fop" where
  "set_errno e = change (fw_errno_update (\<lambda>_. e))"

definition set_sp :: "(fts \<Rightarrow> fts) \<Rightarrow> ('w, unit) fop" where
  "set_sp f = change (fw_sp_update f)"

text \<open>A field that must have been written.\<close>

definition need :: "'a option \<Rightarrow> ('w, 'a) fop" where
  "need x = (case x of None \<Rightarrow> crash | Some y \<Rightarrow> ret y)"

text \<open>A system call: its value, or \<open>None\<close> with \<^verbatim>\<open>errno\<close> set.\<close>

definition fts_sys :: "('w \<Rightarrow> (errno + 'a) \<times> 'w) \<Rightarrow> ('w, 'a option) fop" where
  "fts_sys f s =
     (case f (fw_sys s) of
        (Inl e, w) \<Rightarrow> Done (None, s\<lparr>fw_errno := e, fw_sys := w\<rparr>)
      | (Inr x, w) \<Rightarrow> Done (Some x, s\<lparr>fw_sys := w\<rparr>))"

definition live :: "ftsent option list \<Rightarrow> eid \<Rightarrow> ftsent option" where
  "live es i = (if i < length es then es ! i else None)"

definition ent :: "eid \<Rightarrow> ('w, ftsent) fop" where
  "ent i s = (case live (fw_ents s) i of None \<Rightarrow> Crash | Some e \<Rightarrow> Done (e, s))"

definition upd_ent :: "eid \<Rightarrow> (ftsent \<Rightarrow> ftsent) \<Rightarrow> ('w, unit) fop" where
  "upd_ent i f s =
     (case live (fw_ents s) i of None \<Rightarrow> Crash | Some e \<Rightarrow> Done ((), s\<lparr>fw_ents := (fw_ents s)[i := Some (f e)]\<rparr>))"

definition ent_need :: "(ftsent \<Rightarrow> 'a option) \<Rightarrow> eid \<Rightarrow> ('w, 'a) fop" where
  "ent_need field i = bnd (ent i) (\<lambda>e. need (field e))"

definition set_info :: "eid \<Rightarrow> fts_info \<Rightarrow> ('w, unit) fop" where
  "set_info i x = upd_ent i (ent_info_update (\<lambda>_. Some x))"

text \<open>The macros \<^verbatim>\<open>ISSET\<close>, \<^verbatim>\<open>SET\<close> and \<^verbatim>\<open>CLR\<close>, and the same for the flags of an entry.\<close>

definition isset :: "32 word \<Rightarrow> ('w, bool) fop" where
  "isset m = look (\<lambda>s. sp_options (fw_sp s) AND m \<noteq> 0)"

definition SET :: "32 word \<Rightarrow> ('w, unit) fop" where
  "SET m = set_sp (sp_options_update (\<lambda>o'. o' OR m))"

definition CLR :: "32 word \<Rightarrow> ('w, unit) fop" where
  "CLR m = set_sp (sp_options_update (\<lambda>o'. o' AND NOT m))"

definition flagged :: "16 word \<Rightarrow> eid \<Rightarrow> ('w, bool) fop" where
  "flagged m i = bnd (ent i) (\<lambda>e. ret (ent_flags e AND m \<noteq> 0))"

definition set_flag :: "16 word \<Rightarrow> eid \<Rightarrow> ('w, unit) fop" where
  "set_flag m i = upd_ent i (ent_flags_update (\<lambda>f. f OR m))"

text \<open>The path buffer: writing at an index, copying bytes, and reading a string.\<close>

definition poke :: "nat \<Rightarrow> char \<Rightarrow> ('w, unit) fop" where
  "poke k c s =
     (if k < length (sp_path (fw_sp s)) then set_sp (sp_path_update (\<lambda>b. b[k := c])) s else Crash)"

definition put_at :: "nat \<Rightarrow> string \<Rightarrow> string \<Rightarrow> string" where
  "put_at k bs buf = take k buf @ bs @ drop (k + length bs) buf"

definition blit :: "nat \<Rightarrow> string \<Rightarrow> ('w, unit) fop" where
  "blit k bs s =
     (if k + length bs \<le> length (sp_path (fw_sp s)) then set_sp (sp_path_update (put_at k bs)) s else Crash)"

definition fts_string :: "string \<Rightarrow> ('w, string) fop" where
  "fts_string buf = (if NUL \<in> set buf then ret (takeWhile (\<lambda>c. c \<noteq> NUL) buf) else crash)"

text \<open>The string at \<^verbatim>\<open>fts_accpath\<close>.\<close>

definition access :: "eid \<Rightarrow> ('w, string) fop" where
  "access i = bnd (ent i) (\<lambda>e. bnd (look fw_sp) (\<lambda>sp.
     case ent_accpath e of
       InPath g \<Rightarrow> if g = sp_gen sp then fts_string (sp_path sp) else crash
     | NameOf j \<Rightarrow> bnd (ent j) (\<lambda>e'. ret (ent_name e'))
     | _ \<Rightarrow> crash))"

section \<open>Helper functions\<close>

text \<open>\<^verbatim>\<open>ISDOT\<close>.\<close>

definition ISDOT :: "string \<Rightarrow> bool" where
  "ISDOT a \<longleftrightarrow> a = ''.'' \<or> a = ''..''"

text \<open>\<^verbatim>\<open>fts_pow2\<close>: the smallest power of two that is not below a size (\<^verbatim>\<open>LONG_BIT\<close> is 64).\<close>

definition fts_pow2 :: "64 word \<Rightarrow> 64 word" where
  "fts_pow2 x0 =
     (let x = x0 - 1;
          x = x OR drop_bit 1 x;
          x = x OR drop_bit 2 x;
          x = x OR drop_bit 4 x;
          x = x OR drop_bit 8 x;
          x = x OR drop_bit 16 x;
          x = x OR drop_bit 32 x
      in x + 1)"

text \<open>\<^verbatim>\<open>fts_palloc\<close>: room for \<open>size\<close> bytes in the path buffer; \<open>True\<close> when it fails.\<close>

definition fts_palloc :: "'w fts_host \<Rightarrow> nat \<Rightarrow> ('w, bool) fop" where
  "fts_palloc host n =
     (let sz = unat (fts_pow2 (of_nat n)) in
      bnd (fts_sys (fh_realloc host sz)) (\<lambda>r.
        case r of
          None \<Rightarrow> ret True
        | Some moved \<Rightarrow>
            seq (set_sp (\<lambda>sp. sp\<lparr>sp_path := map (\<lambda>k. if k < length (sp_path sp) then sp_path sp ! k else fh_fresh host k) [0..<sz],
                                  sp_gen := (if moved then sp_gen sp + 1 else sp_gen sp),
                                  sp_pathlen := fts_truncate sz\<rparr>))
              (ret False)))"

text \<open>\<^verbatim>\<open>fts_maxarglen\<close>.\<close>

definition fts_maxarglen :: "string list \<Rightarrow> nat" where
  "fts_maxarglen argv = foldl (\<lambda>m a. if m < length a then length a else m) 0 argv + 1"

text \<open>\<^verbatim>\<open>fts_alloc\<close>: the fields it does not write hold what they held.\<close>

definition new_ent :: "bool \<Rightarrow> nat \<Rightarrow> string \<Rightarrow> ftsent" where
  "new_ent nostat gen name =
     \<lparr>ent_cycle = None, ent_parent = None, ent_link = None, ent_number = 0, ent_pointer = None,
      ent_accpath = Unset, ent_path = gen, ent_errno = E_OK, ent_symfd = None, ent_pathlen = None,
      ent_namelen = fts_truncate (length name), ent_ino = None, ent_dev = None, ent_nlink = None,
      ent_level = None, ent_info = None, ent_flags = 0, ent_instr = FTS_NOINSTR,
      ent_statp = (if nostat then None else Some None), ent_name = name\<rparr>"

definition add_ent :: "ftsent \<Rightarrow> ('w, eid) fop" where
  "add_ent e s = Done (length (fw_ents s), s\<lparr>fw_ents := fw_ents s @ [Some e]\<rparr>)"

definition fts_alloc :: "'w fts_host \<Rightarrow> string \<Rightarrow> ('w, eid option) fop" where
  "fts_alloc host name =
     bnd (fts_sys (fh_malloc host)) (\<lambda>r.
       if r = None then ret None
       else bnd (isset FTS_NOSTAT) (\<lambda>nostat.
         bnd (if nostat then ret (Some ()) else fts_sys (fh_malloc host)) (\<lambda>r.
           if r = None then ret None
           else bnd (look (\<lambda>s. sp_gen (fw_sp s))) (\<lambda>gen.
             bnd (add_ent (new_ent nostat gen name)) (\<lambda>i. ret (Some i))))))"

text \<open>\<^verbatim>\<open>fts_free\<close> and \<^verbatim>\<open>fts_lfree\<close>; freeing more entries than there are is impossible.\<close>

definition fts_free :: "eid \<Rightarrow> ('w, unit) fop" where
  "fts_free i = bnd (ent i) (\<lambda>_. change (fw_ents_update (\<lambda>es. es[i := None])))"

fun lfree_loop :: "nat \<Rightarrow> eid option \<Rightarrow> ('w, unit) fop" where
  "lfree_loop n None = ret ()"
| "lfree_loop 0 (Some p) = loop"
| "lfree_loop (Suc n) (Some p) =
     bnd (ent_need ent_link p) (\<lambda>head. seq (fts_free p) (lfree_loop n head))"

definition fts_lfree :: "eid option \<Rightarrow> ('w, unit) fop" where
  "fts_lfree head = bnd (look (\<lambda>s. length (fw_ents s))) (\<lambda>n. lfree_loop (Suc n) head)"

text \<open>The entries of a list, and the walk over the ancestors that ends at the parent of the roots.\<close>

fun entries_from :: "nat \<Rightarrow> eid option \<Rightarrow> ('w, eid list) fop" where
  "entries_from n None = ret []"
| "entries_from 0 (Some p) = loop"
| "entries_from (Suc n) (Some p) =
     bnd (ent_need ent_link p) (\<lambda>q. bnd (entries_from n q) (\<lambda>ps. ret (p # ps)))"

definition fts_entries :: "eid option \<Rightarrow> ('w, eid list) fop" where
  "fts_entries head = bnd (look (\<lambda>s. length (fw_ents s))) (\<lambda>n. entries_from (Suc n) head)"

text \<open>\<^verbatim>\<open>NAPPEND\<close>: where a name is appended to the path of an entry.\<close>

definition NAPPEND :: "eid \<Rightarrow> ('w, nat) fop" where
  "NAPPEND p = bnd (ent p) (\<lambda>e. bnd (look fw_sp) (\<lambda>sp. bnd (need (ent_pathlen e)) (\<lambda>n.
     if ent_path e \<noteq> sp_gen sp \<or> n = 0 \<or> length (sp_path sp) < n then crash
     else ret (if sp_path sp ! (n - 1) = slash then n - 1 else n))))"

section \<open>\<^verbatim>\<open>fts_stat\<close>\<close>

text \<open>What \<^verbatim>\<open>stat\<close> stores: in the status of the entry, or with \<^verbatim>\<open>FTS_NOSTAT\<close> in a local variable.\<close>

definition put_status :: "eid \<Rightarrow> fts_status \<Rightarrow> ('w, unit) fop" where
  "put_status p st =
     bnd (isset FTS_NOSTAT) (\<lambda>nostat.
       if nostat then ret ()
       else bnd (ent_need ent_statp p) (\<lambda>_. upd_ent p (ent_statp_update (\<lambda>_. Some (Some st)))))"

fun find_cycle :: "nat \<Rightarrow> 64 word \<Rightarrow> 64 word \<Rightarrow> eid \<Rightarrow> ('w, eid option) fop" where
  "find_cycle 0 ino dev t = loop"
| "find_cycle (Suc n) ino dev t =
     bnd (ent_need ent_level t) (\<lambda>level.
       if level < FTS_ROOTLEVEL then ret None
       else bnd (ent_need ent_ino t) (\<lambda>ino'. bnd (if ino = ino' then bnd (ent_need ent_dev t) (\<lambda>dev'. ret (dev = dev')) else ret False) (\<lambda>same.
         if same then ret (Some t)
         else bnd (ent_need ent_parent t) (find_cycle n ino dev))))"

definition fts_kind :: "eid \<Rightarrow> fts_status \<Rightarrow> ('w, fts_info) fop" where
  "fts_kind p st =
     (if S_ISDIR (ws_mode st) then
        seq (upd_ent p (\<lambda>e. e\<lparr>ent_dev := Some (ws_dev st), ent_ino := Some (ws_ino st), ent_nlink := Some (ws_nlink st)\<rparr>))
          (bnd (ent p) (\<lambda>e.
             if ISDOT (ent_name e) then ret FTS_DOT
             else bnd (need (ent_parent e)) (\<lambda>t. bnd (look (\<lambda>s. length (fw_ents s))) (\<lambda>n.
               bnd (find_cycle (Suc n) (ws_ino st) (ws_dev st) t) (\<lambda>c.
                 case c of
                   Some t \<Rightarrow> seq (upd_ent p (ent_cycle_update (\<lambda>_. Some t))) (ret FTS_DC)
                 | None \<Rightarrow> ret FTS_D)))))
      else if S_ISLNK (ws_mode st) then ret FTS_SL
      else if S_ISREG (ws_mode st) then ret FTS_F
      else ret FTS_DEFAULT)"

definition no_status :: "eid \<Rightarrow> errno \<Rightarrow> ('w, fts_info) fop" where
  "no_status p e = seq (upd_ent p (ent_errno_update (\<lambda>_. e))) (seq (put_status p zero_status) (ret FTS_NS))"

definition fts_stat :: "'w fts_host \<Rightarrow> eid \<Rightarrow> bool \<Rightarrow> ('w, fts_info) fop" where
  "fts_stat host p follow =
     bnd (isset FTS_LOGICAL) (\<lambda>logical. bnd (access p) (\<lambda>path.
       bnd (fts_sys (if logical \<or> follow then fh_stat host path else fh_lstat host path)) (\<lambda>r.
         case r of
           Some st \<Rightarrow> seq (put_status p st) (fts_kind p st)
         | None \<Rightarrow> bnd (look fw_errno) (\<lambda>e.
             if logical \<or> follow then
               bnd (fts_sys (fh_lstat host path)) (\<lambda>r.
                 case r of
                   Some st \<Rightarrow> seq (put_status p st) (seq (set_errno E_OK) (ret FTS_SLNONE))
                 | None \<Rightarrow> no_status p e)
             else no_status p e))))"

section \<open>\<^verbatim>\<open>fts_sort\<close> and \<^verbatim>\<open>fts_padjust\<close>\<close>

fun relink :: "eid list \<Rightarrow> ('w, unit) fop" where
  "relink [] = ret ()"
| "relink [p] = upd_ent p (ent_link_update (\<lambda>_. Some None))"
| "relink (p # q # ps) = seq (upd_ent p (ent_link_update (\<lambda>_. Some (Some q)))) (relink (q # ps))"

text \<open>
  The array of the stream grows by \<^verbatim>\<open>reallocarr\<close>, which answers an error number that is assigned to
  \<^verbatim>\<open>errno\<close>; a pointer has 8 bytes.
\<close>

definition grow_array :: "'w fts_host \<Rightarrow> nat \<Rightarrow> ('w, errno) fop" where
  "grow_array host n =
     (case reallocarr (of_nat n) 8 of
        RFree \<Rightarrow> seq (set_sp (sp_array_update (\<lambda>_. 0))) (ret E_OK)
      | ROverflow \<Rightarrow> ret EOVERFLOW
      | RAlloc bytes \<Rightarrow> bnd (fts_sys (fh_realloc host (unat bytes))) (\<lambda>r.
          if r = None then look fw_errno else seq (set_sp (sp_array_update (\<lambda>_. n))) (ret E_OK)))"

text \<open>The comparison function is given the entries.\<close>

definition compare_ents :: "(ftsent \<Rightarrow> ftsent \<Rightarrow> int) \<Rightarrow> ftsent option list \<Rightarrow> eid \<Rightarrow> eid \<Rightarrow> int" where
  "compare_ents cmp es i j = (case (live es i, live es j) of (Some a, Some b) \<Rightarrow> cmp a b | _ \<Rightarrow> 0)"

definition sort_array :: "'w fts_host \<Rightarrow> eid \<Rightarrow> nat \<Rightarrow> ('w, eid) fop" where
  "sort_array host head nitems =
     bnd (fts_entries (Some head)) (\<lambda>ps. bnd (look id) (\<lambda>s.
       case sp_compar (fw_sp s) of
         None \<Rightarrow> crash
       | Some cmp \<Rightarrow>
           if length ps < nitems \<or> sp_array (fw_sp s) < length ps then crash
           else (case fh_qsort host (compare_ents cmp (fw_ents s)) (take nitems ps) of
               [] \<Rightarrow> crash
             | q # qs \<Rightarrow> seq (relink (q # qs)) (ret q))))"

definition fts_sort :: "'w fts_host \<Rightarrow> eid \<Rightarrow> nat \<Rightarrow> ('w, eid) fop" where
  "fts_sort host head nitems =
     bnd (look (\<lambda>s. sp_nitems (fw_sp s))) (\<lambda>n.
       if n < nitems then
         bnd (grow_array host (nitems + 40)) (\<lambda>e.
           seq (set_errno e)
             (if e \<noteq> E_OK then ret head
              else seq (set_sp (sp_nitems_update (\<lambda>_. fts_truncate (nitems + 40)))) (sort_array host head nitems)))
       else sort_array host head nitems)"

text \<open>
  \<^verbatim>\<open>ADJUST\<close>: the distance of \<^verbatim>\<open>fts_accpath\<close> to the old buffer is kept; for the name of another entry
  it is a pointer to nowhere.
\<close>

definition ADJUST :: "eid \<Rightarrow> ('w, unit) fop" where
  "ADJUST p = bnd (look (\<lambda>s. sp_gen (fw_sp s))) (\<lambda>addr.
     upd_ent p (\<lambda>e. e\<lparr>ent_accpath := (case ent_accpath e of
           InPath g \<Rightarrow> if g = ent_path e then InPath addr else Wild
         | NameOf j \<Rightarrow> if j = p then NameOf j else Wild
         | Unset \<Rightarrow> Unset
         | Wild \<Rightarrow> Wild),
       ent_path := addr\<rparr>))"

fun adjust_all :: "eid list \<Rightarrow> ('w, unit) fop" where
  "adjust_all [] = ret ()"
| "adjust_all (p # ps) = seq (ADJUST p) (adjust_all ps)"

fun adjust_tree :: "nat \<Rightarrow> eid \<Rightarrow> ('w, unit) fop" where
  "adjust_tree 0 p = loop"
| "adjust_tree (Suc n) p =
     bnd (ent_need ent_level p) (\<lambda>level.
       if level < FTS_ROOTLEVEL then ret ()
       else seq (ADJUST p) (bnd (ent_need ent_link p) (\<lambda>l.
         bnd (case l of Some q \<Rightarrow> ret q | None \<Rightarrow> ent_need ent_parent p) (adjust_tree n))))"

definition fts_padjust :: "eid \<Rightarrow> ('w, unit) fop" where
  "fts_padjust head =
     bnd (look (\<lambda>s. sp_child (fw_sp s))) (\<lambda>child.
       bnd (fts_entries child) (\<lambda>ps.
         seq (adjust_all ps) (bnd (look (\<lambda>s. length (fw_ents s))) (\<lambda>n. adjust_tree (Suc n) head))))"

section \<open>\<^verbatim>\<open>fts_safe_changedir\<close>\<close>

text \<open>
  The change to the directory of a descriptor, or of a path that is opened for it; \<open>True\<close> when it
  fails. Before it the status is compared with the one of the entry. Closing the descriptor leaves
  \<^verbatim>\<open>errno\<close> alone.
\<close>

definition close_keeping :: "'w fts_host \<Rightarrow> int \<Rightarrow> ('w, unit) fop" where
  "close_keeping host fd =
     bnd (look fw_errno) (\<lambda>e. seq (fts_sys (fh_close host fd)) (set_errno e))"

definition changedir_fd :: "'w fts_host \<Rightarrow> eid \<Rightarrow> int \<Rightarrow> ('w, bool) fop" where
  "changedir_fd host p fd =
     bnd (fts_sys (fh_fstat host fd)) (\<lambda>r.
       case r of
         None \<Rightarrow> ret True
       | Some sb \<Rightarrow>
           bnd (ent_need ent_ino p) (\<lambda>ino. bnd (if ws_ino sb \<noteq> ino then ret True else bnd (ent_need ent_dev p) (\<lambda>dev. ret (ws_dev sb \<noteq> dev))) (\<lambda>other.
             if other then seq (set_errno ENOENT) (ret True)
             else bnd (fts_sys (fh_fchdir host fd)) (\<lambda>r. ret (r = None)))))"

definition fts_safe_changedir :: "'w fts_host \<Rightarrow> eid \<Rightarrow> int option \<Rightarrow> ('w, string) fop \<Rightarrow> ('w, bool) fop" where
  "fts_safe_changedir host p fd path =
     bnd (isset FTS_NOCHDIR) (\<lambda>nochdir.
       if nochdir then ret False
       else (case fd of
           Some fd \<Rightarrow> changedir_fd host p fd
         | None \<Rightarrow> bnd path (\<lambda>name. bnd (fts_sys (fh_open host name)) (\<lambda>r.
             case r of
               None \<Rightarrow> ret True
             | Some fd \<Rightarrow> bnd (changedir_fd host p fd) (\<lambda>r. seq (close_keeping host fd) (ret r))))))"

text \<open>\<^verbatim>\<open>FCHDIR\<close>.\<close>

definition FCHDIR :: "'w fts_host \<Rightarrow> int \<Rightarrow> ('w, bool) fop" where
  "FCHDIR host fd =
     bnd (isset FTS_NOCHDIR) (\<lambda>nochdir.
       if nochdir then ret False else bnd (fts_sys (fh_fchdir host fd)) (\<lambda>r. ret (r = None)))"

end
