(* ===== verification/Fts_Build.thy ===== *)
theory Fts_Build
  imports Fts
begin

unbundle bit_operations_syntax

text \<open>
  The list of the entries of a directory: \<^verbatim>\<open>fts_build\<close> of \<^verbatim>\<open>fts.c\<close>, which reads the names, reads the
  status of those that may be directories, and keeps the path buffer large enough for every name.
\<close>

section \<open>How the directory is read\<close>

text \<open>
  \<^verbatim>\<open>nlinks\<close> and \<^verbatim>\<open>nostat\<close>: the number of directories that can be among the entries, 0 when no status is
  read and \<open>-1\<close> when all are.
\<close>

definition link_count :: "build_type \<Rightarrow> eid \<Rightarrow> ('w, int \<times> bool) fop" where
  "link_count type cur =
     bnd (isset FTS_NOSTAT) (\<lambda>nostat. bnd (isset FTS_PHYSICAL) (\<lambda>physical. bnd (isset FTS_SEEDOT) (\<lambda>seedot.
       if type = BNAMES then ret (0, True)
       else if nostat \<and> physical then
         bnd (ent_need ent_nlink cur) (\<lambda>n. ret (sint (ucast (n - (if seedot then 0 else 2)) :: 32 word), True))
       else ret (- 1, False))))"

text \<open>The change to the directory: whether it is now the working directory, and \<^verbatim>\<open>cderrno\<close>.\<close>

definition descend_into :: "'w fts_host \<Rightarrow> build_type \<Rightarrow> int \<Rightarrow> eid \<Rightarrow> int \<Rightarrow> ('w, bool \<times> errno) fop" where
  "descend_into host type nlinks cur fd =
     (if nlinks \<noteq> 0 \<or> type = BREAD then
        bnd (fts_safe_changedir host cur (Some fd) crash) (\<lambda>failed.
          if failed then
            bnd (look fw_errno) (\<lambda>e.
              seq (if nlinks \<noteq> 0 \<and> type = BREAD then upd_ent cur (ent_errno_update (\<lambda>_. e)) else ret ())
                (seq (set_flag FTS_DONTCHDIR cur) (ret (False, e))))
          else ret (True, E_OK))
      else ret (False, E_OK))"

section \<open>One name\<close>

text \<open>What stays the same for all names, and the local variables of the loop.\<close>

record fts_dir =
  fd_cur :: eid
  fd_len :: nat
  fd_level :: int
  fd_nostat :: bool
  fd_cderrno :: errno

record fts_list =
  fl_head :: "eid option"
  fl_tail :: "eid option"
  fl_nitems :: nat
  fl_nlinks :: int
  fl_maxlen :: nat
  fl_adjust :: bool

text \<open>Room for a name behind the path; \<open>None\<close> when there is no memory.\<close>

definition room_for :: "'w fts_host \<Rightarrow> nat \<Rightarrow> nat \<Rightarrow> fts_list \<Rightarrow> ('w, fts_list option) fop" where
  "room_for host len namelen l =
     (if fl_maxlen l \<le> namelen then
        bnd (look (\<lambda>s. sp_gen (fw_sp s))) (\<lambda>old. bnd (fts_palloc host (namelen + len + 1)) (\<lambda>failed.
          if failed then ret None
          else bnd (look fw_sp) (\<lambda>sp.
            ret (Some (l\<lparr>fl_adjust := fl_adjust l \<or> old \<noteq> sp_gen sp, fl_maxlen := size_minus (sp_pathlen sp) len\<rparr>)))))
      else ret (Some l))"

text \<open>The access path and the type of a new entry; the answer is the new \<^verbatim>\<open>nlinks\<close>.\<close>

definition no_chdir_kind :: "fts_dir \<Rightarrow> int \<Rightarrow> eid \<Rightarrow> ('w, int) fop" where
  "no_chdir_kind d nlinks p =
     seq (if nlinks \<noteq> 0 then seq (set_info p FTS_NS) (upd_ent p (ent_errno_update (\<lambda>_. fd_cderrno d)))
          else set_info p FTS_NSOK)
       (bnd (ent (fd_cur d)) (\<lambda>c. seq (upd_ent p (ent_accpath_update (\<lambda>_. ent_accpath c))) (ret nlinks)))"

definition own_path :: "eid \<Rightarrow> ('w, bool) fop" where
  "own_path p =
     bnd (isset FTS_NOCHDIR) (\<lambda>nochdir.
       seq (upd_ent p (\<lambda>e. e\<lparr>ent_accpath := (if nochdir then InPath (ent_path e) else NameOf p)\<rparr>)) (ret nochdir))"

definition stat_kind :: "'w fts_host \<Rightarrow> fts_dir \<Rightarrow> int \<Rightarrow> eid \<Rightarrow> ('w, int) fop" where
  "stat_kind host d nlinks p =
     bnd (own_path p) (\<lambda>nochdir. bnd (ent p) (\<lambda>e.
       seq (if nochdir then blit (fd_len d) (take (ent_namelen e + 1) (ent_name e @ [NUL])) else ret ())
         (bnd (fts_stat host p False) (\<lambda>info.
           seq (set_info p info)
             (ret (if 0 < nlinks \<and> info \<in> {FTS_D, FTS_DC, FTS_DOT} then nlinks - 1 else nlinks))))))"

definition entry_kind :: "'w fts_host \<Rightarrow> fts_dir \<Rightarrow> 8 word \<Rightarrow> int \<Rightarrow> eid \<Rightarrow> ('w, int) fop" where
  "entry_kind host d type nlinks p =
     (if fd_cderrno d \<noteq> E_OK then no_chdir_kind d nlinks p
      else if nlinks = 0 \<or> fd_nostat d \<and> type \<noteq> DT_DIR \<and> type \<noteq> DT_UNKNOWN then
        seq (own_path p) (seq (set_info p FTS_NSOK) (ret nlinks))
      else stat_kind host d nlinks p)"

text \<open>The entry becomes the last one of the list.\<close>

definition link_last :: "eid \<Rightarrow> fts_list \<Rightarrow> ('w, fts_list) fop" where
  "link_last p l =
     seq (upd_ent p (ent_link_update (\<lambda>_. Some None)))
       (case fl_tail l of
          None \<Rightarrow> ret (l\<lparr>fl_head := Some p, fl_tail := Some p, fl_nitems := fl_nitems l + 1\<rparr>)
        | Some t \<Rightarrow> seq (upd_ent t (ent_link_update (\<lambda>_. Some (Some p)))) (ret (l\<lparr>fl_tail := Some p, fl_nitems := fl_nitems l + 1\<rparr>)))"

definition place_entry :: "fts_dir \<Rightarrow> nat \<Rightarrow> eid \<Rightarrow> ('w, unit) fop" where
  "place_entry d namelen p =
     upd_ent p (\<lambda>e. e\<lparr>ent_level := Some (fd_level d), ent_pathlen := Some (fts_truncate (fd_len d + namelen)),
       ent_parent := Some (fd_cur d)\<rparr>)"

text \<open>
  The loop over the names. \<open>Inl\<close> is the jump to \<^verbatim>\<open>mem1\<close>, with the entry that is not in the list yet.
\<close>

fun read_names :: "'w fts_host \<Rightarrow> fts_dir \<Rightarrow> (string \<times> 8 word) list \<Rightarrow> fts_list \<Rightarrow> ('w, (eid option \<times> eid option) + fts_list) fop" where
  "read_names host d [] l = ret (Inr l)"
| "read_names host d ((name, type) # names) l =
     bnd (isset FTS_SEEDOT) (\<lambda>seedot.
       if \<not> seedot \<and> ISDOT name then read_names host d names l
       else bnd (fts_alloc host name) (\<lambda>r.
         case r of
           None \<Rightarrow> ret (Inl (None, fl_head l))
         | Some p \<Rightarrow> bnd (room_for host (fd_len d) (length name) l) (\<lambda>r.
             case r of
               None \<Rightarrow> ret (Inl (Some p, fl_head l))
             | Some l \<Rightarrow>
                 seq (place_entry d (length name) p)
                   (bnd (entry_kind host d type (fl_nlinks l) p) (\<lambda>nlinks.
                     bnd (link_last p (l\<lparr>fl_nlinks := nlinks\<rparr>)) (\<lambda>l. read_names host d names l))))))"

section \<open>\<^verbatim>\<open>fts_build\<close>\<close>

definition build_failed :: "'w fts_host \<Rightarrow> eid \<Rightarrow> int \<Rightarrow> eid option \<Rightarrow> eid option \<Rightarrow> ('w, eid option) fop" where
  "build_failed host cur fd p head =
     bnd (look fw_errno) (\<lambda>e.
       seq (case p of None \<Rightarrow> ret () | Some p \<Rightarrow> fts_free p)
         (seq (fts_lfree head) (seq (fts_sys (fh_closedir host fd)) (seq (set_errno e)
           (seq (set_info cur FTS_ERR) (seq (SET FTS_STOP) (ret None)))))))"

text \<open>The buffer shows the path of the directory again, with a slash unless the directory is empty.\<close>

definition reset_path :: "nat \<Rightarrow> nat \<Rightarrow> ('w, unit) fop" where
  "reset_path len nitems =
     bnd (isset FTS_NOCHDIR) (\<lambda>nochdir. bnd (look (\<lambda>s. sp_pathlen (fw_sp s))) (\<lambda>pathlen.
       if nochdir then poke (if len = pathlen \<or> nitems = 0 then len - 1 else len) NUL else ret ()))"

text \<open>The way back out of the directory; \<open>True\<close> when there is none.\<close>

definition climb_back :: "'w fts_host \<Rightarrow> eid \<Rightarrow> bool \<Rightarrow> ('w, bool) fop" where
  "climb_back host cur needed =
     (if \<not> needed then ret False
      else bnd (ent_need ent_level cur) (\<lambda>level. bnd (look (\<lambda>s. sp_rfd (fw_sp s))) (\<lambda>rfd.
        if level = FTS_ROOTLEVEL then FCHDIR host rfd
        else bnd (ent_need ent_parent cur) (\<lambda>q. fts_safe_changedir host q None (ret ''..'')))))"

definition build_end :: "'w fts_host \<Rightarrow> build_type \<Rightarrow> eid \<Rightarrow> bool \<Rightarrow> nat \<Rightarrow> fts_list \<Rightarrow> ('w, eid option) fop" where
  "build_end host type cur descend len l =
     seq (case fl_head l of Some h \<Rightarrow> if fl_adjust l then fts_padjust h else ret () | None \<Rightarrow> ret ())
       (seq (reset_path len (fl_nitems l))
         (bnd (climb_back host cur (descend \<and> (type = BCHILD \<or> fl_nitems l = 0))) (\<lambda>lost.
           if lost then seq (set_info cur FTS_ERR) (seq (SET FTS_STOP) (ret None))
           else (case fl_head l of
               None \<Rightarrow> seq (if type = BREAD then set_info cur FTS_DP else ret ()) (ret None)
             | Some h \<Rightarrow> bnd (look (\<lambda>s. sp_compar (fw_sp s))) (\<lambda>cmp.
                 if cmp \<noteq> None \<and> 1 < fl_nitems l then bnd (fts_sort host h (fl_nitems l)) (\<lambda>h. ret (Some h))
                 else ret (Some h))))))"

definition build_entries ::
    "'w fts_host \<Rightarrow> build_type \<Rightarrow> eid \<Rightarrow> int \<Rightarrow> (string \<times> 8 word) list \<Rightarrow> ('w, eid option) fop" where
  "build_entries host type cur fd names =
     bnd (link_count type cur) (\<lambda>(nlinks, nostat). bnd (descend_into host type nlinks cur fd) (\<lambda>(descend, cderrno).
       bnd (NAPPEND cur) (\<lambda>k. bnd (isset FTS_NOCHDIR) (\<lambda>nochdir.
         seq (if nochdir then poke k slash else ret ())
           (bnd (ent_need ent_level cur) (\<lambda>level. bnd (look (\<lambda>s. sp_pathlen (fw_sp s))) (\<lambda>pathlen.
             bnd (read_names host \<lparr>fd_cur = cur, fd_len = k + 1, fd_level = level + 1, fd_nostat = nostat, fd_cderrno = cderrno\<rparr> names
                 \<lparr>fl_head = None, fl_tail = None, fl_nitems = 0, fl_nlinks = nlinks, fl_maxlen = size_minus pathlen (k + 1), fl_adjust = False\<rparr>)
               (\<lambda>r. case r of
                   Inl (p, head) \<Rightarrow> build_failed host cur fd p head
                 | Inr l \<Rightarrow> seq (fts_sys (fh_closedir host fd)) (build_end host type cur descend (k + 1) l))))))))) "

definition fts_build :: "'w fts_host \<Rightarrow> build_type \<Rightarrow> ('w, eid option) fop" where
  "fts_build host type =
     bnd (look (\<lambda>s. sp_cur (fw_sp s))) (\<lambda>c. bnd (need c) (\<lambda>cur. bnd (access cur) (\<lambda>path.
       bnd (fts_sys (fh_opendir host path)) (\<lambda>r.
         case r of
           None \<Rightarrow> bnd (look fw_errno) (\<lambda>e.
             seq (if type = BREAD then seq (set_info cur FTS_DNR) (upd_ent cur (ent_errno_update (\<lambda>_. e))) else ret ()) (ret None))
         | Some (fd, names) \<Rightarrow> build_entries host type cur fd names))))"

end
