(* ===== verification/Fts_Read.thy ===== *)
theory Fts_Read
  imports Fts_Build
begin

unbundle bit_operations_syntax

text \<open>
  The calls on a hierarchy: \<^verbatim>\<open>fts_open\<close>, \<^verbatim>\<open>fts_read\<close>, \<^verbatim>\<open>fts_children\<close>, \<^verbatim>\<open>fts_set\<close> and \<^verbatim>\<open>fts_close\<close> of
  \<^verbatim>\<open>fts.c\<close>. The public functions at the end of the file add a line of debug output to them.
\<close>

section \<open>\<^verbatim>\<open>fts_open\<close>\<close>

text \<open>\<^verbatim>\<open>calloc\<close> gives a stream of zeros.\<close>

definition zero_fts :: "nat \<Rightarrow> fts" where
  "zero_fts gen =
     \<lparr>sp_cur = None, sp_child = None, sp_array = 0, sp_dev = Some 0, sp_path = [], sp_gen = gen, sp_rfd = 0,
      sp_pathlen = 0, sp_nitems = 0, sp_compar = None, sp_options = 0\<rparr>"

text \<open>The entry of an argument; \<open>None\<close> with \<^verbatim>\<open>errno\<close> set for an empty one and without memory.\<close>

definition root_ent :: "'w fts_host \<Rightarrow> eid \<Rightarrow> string \<Rightarrow> ('w, eid option) fop" where
  "root_ent host parent arg =
     (if arg = [] then seq (set_errno ENOENT) (ret None)
      else bnd (fts_alloc host arg) (\<lambda>r.
        case r of
          None \<Rightarrow> ret None
        | Some p \<Rightarrow>
            seq (upd_ent p (\<lambda>e. e\<lparr>ent_level := Some FTS_ROOTLEVEL, ent_parent := Some parent, ent_accpath := NameOf p\<rparr>))
              (bnd (isset FTS_COMFOLLOW) (\<lambda>follow. bnd (fts_stat host p follow) (\<lambda>info.
                seq (set_info p (if info = FTS_DOT then FTS_D else info)) (ret (Some p)))))))"

text \<open>
  The list of the roots, in the order of the arguments, or with a comparison function in the reverse
  order. \<open>Inl\<close> is the jump to \<^verbatim>\<open>mem3\<close>.
\<close>

fun open_roots :: "'w fts_host \<Rightarrow> eid \<Rightarrow> bool \<Rightarrow> string list \<Rightarrow> eid option \<Rightarrow> eid option \<Rightarrow> ('w, eid option + eid option) fop" where
  "open_roots host parent compar [] root tmp = ret (Inr root)"
| "open_roots host parent compar (arg # argv) root tmp =
     bnd (root_ent host parent arg) (\<lambda>r.
       case r of
         None \<Rightarrow> ret (Inl root)
       | Some p \<Rightarrow>
           if compar then
             seq (upd_ent p (ent_link_update (\<lambda>_. Some root))) (open_roots host parent compar argv (Some p) tmp)
           else
             seq (upd_ent p (ent_link_update (\<lambda>_. Some None)))
               (case (root, tmp) of
                  (Some r, Some t) \<Rightarrow> seq (upd_ent t (ent_link_update (\<lambda>_. Some (Some p)))) (open_roots host parent compar argv root (Some p))
                | _ \<Rightarrow> open_roots host parent compar argv (Some p) (Some p)))"

definition open_failed :: "eid \<Rightarrow> eid option \<Rightarrow> ('w, bool) fop" where
  "open_failed parent root = seq (fts_lfree root) (seq (fts_free parent) (ret False))"

definition open_start :: "'w fts_host \<Rightarrow> eid \<Rightarrow> nat \<Rightarrow> eid option \<Rightarrow> ('w, bool) fop" where
  "open_start host parent nitems root =
     bnd (fts_alloc host []) (\<lambda>r.
       case r of
         None \<Rightarrow> open_failed parent root
       | Some c \<Rightarrow>
           seq (set_sp (sp_cur_update (\<lambda>_. Some c)))
             (seq (upd_ent c (\<lambda>e. e\<lparr>ent_link := Some root, ent_info := Some FTS_INIT\<rparr>))
               (bnd (isset FTS_NOCHDIR) (\<lambda>nochdir.
                 seq (if nochdir then ret ()
                      else bnd (fts_sys (fh_open host ''.'')) (\<lambda>r.
                        case r of None \<Rightarrow> SET FTS_NOCHDIR | Some fd \<Rightarrow> set_sp (sp_rfd_update (\<lambda>_. fd))))
                   (seq (if nitems = 0 then fts_free parent else ret ()) (ret True))))))"

definition fts_open :: "'w fts_host \<Rightarrow> string list \<Rightarrow> 32 word \<Rightarrow> (ftsent \<Rightarrow> ftsent \<Rightarrow> int) option \<Rightarrow> ('w, bool) fop" where
  "fts_open host argv options compar =
     (if options AND NOT FTS_OPTIONMASK \<noteq> 0 then seq (set_errno EINVAL) (ret False)
      else bnd (fts_sys (fh_malloc host)) (\<lambda>r.
        if r = None then ret False
        else seq (set_sp (\<lambda>sp. (zero_fts (sp_gen sp))\<lparr>sp_compar := compar,
              sp_options := (if options AND FTS_LOGICAL \<noteq> 0 then options OR FTS_NOCHDIR else options)\<rparr>))
          (bnd (fts_palloc host (max (fts_maxarglen argv) PATH_MAX)) (\<lambda>failed.
            if failed then ret False
            else bnd (fts_alloc host []) (\<lambda>r.
              case r of
                None \<Rightarrow> ret False
              | Some parent \<Rightarrow>
                  seq (upd_ent parent (ent_level_update (\<lambda>_. Some FTS_ROOTPARENTLEVEL)))
                    (bnd (open_roots host parent (compar \<noteq> None) argv None None) (\<lambda>r.
                      case r of
                        Inl root \<Rightarrow> open_failed parent root
                      | Inr root \<Rightarrow>
                          bnd (case root of
                              Some h \<Rightarrow> if compar \<noteq> None \<and> 1 < length argv
                                then bnd (fts_sort host h (length argv)) (\<lambda>h. ret (Some h)) else ret root
                            | None \<Rightarrow> ret None)
                            (open_start host parent (length argv)))))))))"

section \<open>\<^verbatim>\<open>fts_load\<close>\<close>

definition last_component :: "string \<Rightarrow> string" where
  "last_component s = rev (takeWhile (\<lambda>c. c \<noteq> slash) (rev s))"

definition fts_load :: "eid \<Rightarrow> ('w, unit) fop" where
  "fts_load p =
     bnd (ent p) (\<lambda>e. bnd (look (\<lambda>s. sp_gen (fw_sp s))) (\<lambda>gen.
       let len = ent_namelen e; name = ent_name e;
           cut = slash \<in> set name \<and> name \<noteq> [slash]
       in seq (blit 0 (take (len + 1) (name @ [NUL])))
            (seq (upd_ent p (\<lambda>e. e\<lparr>ent_pathlen := Some len,
                ent_name := (if cut then last_component name else name),
                ent_namelen := (if cut then fts_truncate (length (last_component name)) else len),
                ent_accpath := InPath gen, ent_path := gen\<rparr>))
              (set_sp (sp_dev_update (\<lambda>_. ent_dev e))))))"

section \<open>\<^verbatim>\<open>fts_close\<close>\<close>

text \<open>All entries from the current one on, and those above it, up to the parent of the roots.\<close>

fun close_loop :: "nat \<Rightarrow> eid \<Rightarrow> ('w, eid) fop" where
  "close_loop 0 p = loop"
| "close_loop (Suc n) p =
     bnd (ent_need ent_level p) (\<lambda>level.
       if level < FTS_ROOTLEVEL then ret p
       else bnd (ent_need ent_link p) (\<lambda>l.
         bnd (case l of Some q \<Rightarrow> ret q | None \<Rightarrow> ent_need ent_parent p) (\<lambda>q.
           seq (fts_free p) (close_loop n q))))"

definition close_symfd :: "'w fts_host \<Rightarrow> eid \<Rightarrow> ('w, unit) fop" where
  "close_symfd host p =
     bnd (flagged FTS_SYMFOLLOW p) (\<lambda>sym.
       if sym then bnd (ent_need ent_symfd p) (\<lambda>fd. seq (fts_sys (fh_close host fd)) (ret ())) else ret ())"

definition close_entries :: "'w fts_host \<Rightarrow> ('w, unit) fop" where
  "close_entries host =
     bnd (look (\<lambda>s. sp_cur (fw_sp s))) (\<lambda>c.
       case c of
         None \<Rightarrow> ret ()
       | Some p \<Rightarrow> seq (close_symfd host p)
           (bnd (look (\<lambda>s. length (fw_ents s))) (\<lambda>n. bnd (close_loop (Suc n) p) fts_free)))"

definition fts_close :: "'w fts_host \<Rightarrow> ('w, int) fop" where
  "fts_close host =
     seq (close_entries host)
       (bnd (look (\<lambda>s. sp_child (fw_sp s))) (\<lambda>child.
         seq (fts_lfree child)
           (bnd (isset FTS_NOCHDIR) (\<lambda>nochdir.
             if nochdir then ret 0
             else bnd (look (\<lambda>s. sp_rfd (fw_sp s))) (\<lambda>rfd. bnd (fts_sys (fh_fchdir host rfd)) (\<lambda>r. bnd (look fw_errno) (\<lambda>e.
               seq (fts_sys (fh_close host rfd))
                 (if r = None \<and> e \<noteq> E_OK then seq (set_errno e) (ret (- 1)) else ret 0))))))))"

section \<open>\<^verbatim>\<open>fts_read\<close>\<close>

text \<open>A symbolic link that is followed, with a descriptor for the way back.\<close>

definition follow_link :: "'w fts_host \<Rightarrow> eid \<Rightarrow> ('w, unit) fop" where
  "follow_link host p =
     bnd (fts_stat host p True) (\<lambda>info.
       seq (set_info p info)
         (bnd (isset FTS_NOCHDIR) (\<lambda>nochdir.
           if info = FTS_D \<and> \<not> nochdir then
             bnd (fts_sys (fh_open host ''.'')) (\<lambda>r.
               case r of
                 None \<Rightarrow> bnd (look fw_errno) (\<lambda>e. seq (upd_ent p (ent_errno_update (\<lambda>_. e))) (set_info p FTS_ERR))
               | Some fd \<Rightarrow> seq (upd_ent p (ent_symfd_update (\<lambda>_. Some fd))) (set_flag FTS_SYMFOLLOW p))
           else ret ())))"

text \<open>The label \<^verbatim>\<open>name\<close>: the name is put behind the path of the parent.\<close>

definition show_name :: "eid \<Rightarrow> ('w, eid option) fop" where
  "show_name p =
     bnd (ent_need ent_parent p) (\<lambda>q. bnd (NAPPEND q) (\<lambda>k. bnd (ent p) (\<lambda>e.
       seq (poke k slash)
         (seq (blit (k + 1) (take (ent_namelen e + 1) (ent_name e @ [NUL])))
           (seq (set_sp (sp_cur_update (\<lambda>_. Some p))) (ret (Some p)))))))"

definition stop_here :: "('w, eid option) fop" where
  "stop_here = seq (SET FTS_STOP) (ret None)"

text \<open>The move to the parent, which is visited again or ends the walk.\<close>

definition leave_dir :: "'w fts_host \<Rightarrow> eid \<Rightarrow> int \<Rightarrow> ('w, bool) fop" where
  "leave_dir host p level =
     (if level = FTS_ROOTLEVEL then bnd (look (\<lambda>s. sp_rfd (fw_sp s))) (FCHDIR host)
      else bnd (flagged FTS_SYMFOLLOW p) (\<lambda>sym.
        if sym then bnd (ent_need ent_symfd p) (\<lambda>fd. bnd (FCHDIR host fd) (\<lambda>failed.
          seq (if failed then close_keeping host fd else seq (fts_sys (fh_close host fd)) (ret ())) (ret failed)))
        else bnd (flagged FTS_DONTCHDIR p) (\<lambda>dont.
          if dont then ret False
          else bnd (ent_need ent_parent p) (\<lambda>q. fts_safe_changedir host q None (ret ''..'')))))"

definition move_up :: "'w fts_host \<Rightarrow> eid \<Rightarrow> ('w, eid option) fop" where
  "move_up host p =
     bnd (ent_need ent_level p) (\<lambda>level.
       if level = FTS_ROOTPARENTLEVEL then seq (fts_free p) (seq (set_errno E_OK) (ret None))
       else bnd (ent_need ent_pathlen p) (\<lambda>n. seq (poke n NUL)
         (bnd (leave_dir host p level) (\<lambda>failed.
           if failed then stop_here
           else bnd (ent p) (\<lambda>e.
             seq (set_info p (if ent_errno e \<noteq> E_OK then FTS_ERR else FTS_DP))
               (seq (set_sp (sp_cur_update (\<lambda>_. Some p))) (ret (Some p))))))))"

text \<open>The label \<^verbatim>\<open>next\<close>: the next entry of the list, or the parent.\<close>

fun fts_next :: "'w fts_host \<Rightarrow> nat \<Rightarrow> eid \<Rightarrow> ('w, eid option) fop" where
  "fts_next host 0 tmp = loop"
| "fts_next host (Suc n) tmp =
     seq (check (\<lambda>s. sp_cur (fw_sp s) = Some tmp))
       (seq (set_sp (sp_cur_update (\<lambda>_. None)))
         (bnd (ent_need ent_link tmp) (\<lambda>l.
           case l of
             None \<Rightarrow> bnd (ent_need ent_parent tmp) (\<lambda>q. seq (fts_free tmp) (move_up host q))
           | Some p \<Rightarrow>
               seq (fts_free tmp)
                 (bnd (ent_need ent_level p) (\<lambda>level.
                   if level = FTS_ROOTLEVEL then
                     bnd (look (\<lambda>s. sp_rfd (fw_sp s))) (\<lambda>rfd. bnd (FCHDIR host rfd) (\<lambda>failed.
                       if failed then stop_here
                       else seq (fts_load p) (seq (set_sp (sp_cur_update (\<lambda>_. Some p))) (ret (Some p)))))
                   else bnd (ent p) (\<lambda>e.
                     if ent_instr e = FTS_SKIP then fts_next host n p
                     else if ent_instr e = FTS_FOLLOW then
                       seq (follow_link host p) (seq (upd_ent p (ent_instr_update (\<lambda>_. FTS_NOINSTR))) (show_name p))
                     else show_name p))))))"

text \<open>A directory in pre-order: skipped, or entered by its first child.\<close>

definition drop_child :: "('w, unit) fop" where
  "drop_child =
     bnd (look (\<lambda>s. sp_child (fw_sp s))) (\<lambda>c. seq (fts_lfree c) (set_sp (sp_child_update (\<lambda>_. None))))"

definition other_device :: "eid \<Rightarrow> ('w, bool) fop" where
  "other_device p =
     bnd (isset FTS_XDEV) (\<lambda>xdev.
       if xdev then bnd (ent_need ent_dev p) (\<lambda>dev. bnd (look (\<lambda>s. sp_dev (fw_sp s))) (\<lambda>d. bnd (need d) (\<lambda>dev'. ret (dev \<noteq> dev'))))
       else ret False)"

definition skip_dir :: "'w fts_host \<Rightarrow> eid \<Rightarrow> ('w, eid option) fop" where
  "skip_dir host p = seq (close_symfd host p) (seq drop_child (seq (set_info p FTS_DP) (ret (Some p))))"

fun same_accpath :: "eid list \<Rightarrow> ('w, unit) fop" where
  "same_accpath [] = ret ()"
| "same_accpath (p # ps) =
     seq (bnd (ent_need ent_parent p) (\<lambda>q. bnd (ent q) (\<lambda>e. upd_ent p (ent_accpath_update (\<lambda>_. ent_accpath e)))))
       (same_accpath ps)"

definition first_child :: "eid \<Rightarrow> ('w, eid option) fop" where
  "first_child c = seq (set_sp (sp_child_update (\<lambda>_. None))) (show_name c)"

definition enter_dir :: "'w fts_host \<Rightarrow> eid \<Rightarrow> ('w, eid option) fop" where
  "enter_dir host p =
     bnd (isset FTS_NAMEONLY) (\<lambda>names.
       seq (if names then bnd (look (\<lambda>s. sp_child (fw_sp s))) (\<lambda>c.
              case c of None \<Rightarrow> ret () | Some _ \<Rightarrow> seq (CLR FTS_NAMEONLY) drop_child) else ret ())
         (bnd (look (\<lambda>s. sp_child (fw_sp s))) (\<lambda>c.
           case c of
             Some c \<Rightarrow> bnd (fts_safe_changedir host p None (access p)) (\<lambda>failed.
               seq (if failed then
                      bnd (look fw_errno) (\<lambda>e. seq (upd_ent p (ent_errno_update (\<lambda>_. e)))
                        (seq (set_flag FTS_DONTCHDIR p) (bnd (fts_entries (Some c)) same_accpath)))
                    else ret ())
                 (first_child c))
           | None \<Rightarrow> bnd (fts_build host BREAD) (\<lambda>head. seq (set_sp (sp_child_update (\<lambda>_. head)))
               (case head of
                  None \<Rightarrow> bnd (isset FTS_STOP) (\<lambda>stop. ret (if stop then None else Some p))
                | Some c \<Rightarrow> first_child c)))))"

definition fts_read :: "'w fts_host \<Rightarrow> ('w, eid option) fop" where
  "fts_read host =
     bnd (look (\<lambda>s. sp_cur (fw_sp s))) (\<lambda>c. bnd (isset FTS_STOP) (\<lambda>stop.
       case c of
         None \<Rightarrow> ret None
       | Some p \<Rightarrow>
           if stop then ret None
           else bnd (ent p) (\<lambda>e. let instr = ent_instr e in
             seq (upd_ent p (ent_instr_update (\<lambda>_. FTS_NOINSTR)))
               (if instr = FTS_AGAIN then bnd (fts_stat host p False) (\<lambda>info. seq (set_info p info) (ret (Some p)))
                else bnd (ent_need ent_info p) (\<lambda>info.
                  if instr = FTS_FOLLOW \<and> (info = FTS_SL \<or> info = FTS_SLNONE) then seq (follow_link host p) (ret (Some p))
                  else if info = FTS_D then
                    bnd (if instr = FTS_SKIP then ret True else other_device p) (\<lambda>skip.
                      if skip then skip_dir host p else enter_dir host p)
                  else bnd (look (\<lambda>s. length (fw_ents s))) (\<lambda>n. fts_next host (Suc n) p))))))"

section \<open>\<^verbatim>\<open>fts_set\<close> and \<^verbatim>\<open>fts_children\<close>\<close>

definition fts_set :: "eid \<Rightarrow> int \<Rightarrow> ('w, int) fop" where
  "fts_set p instr =
     (if instr \<noteq> 0 \<and> instr \<noteq> FTS_AGAIN \<and> instr \<noteq> FTS_FOLLOW \<and> instr \<noteq> FTS_NOINSTR \<and> instr \<noteq> FTS_SKIP
      then seq (set_errno EINVAL) (ret 1)
      else seq (upd_ent p (ent_instr_update (\<lambda>_. instr))) (ret 0))"

definition build_child :: "'w fts_host \<Rightarrow> build_type \<Rightarrow> ('w, eid option) fop" where
  "build_child host type = bnd (fts_build host type) (\<lambda>head. seq (set_sp (sp_child_update (\<lambda>_. head))) (ret head))"

text \<open>The first character of the access path tells a relative one.\<close>

definition children_of :: "'w fts_host \<Rightarrow> eid \<Rightarrow> bool \<Rightarrow> ('w, eid option) fop" where
  "children_of host p names =
     seq (bnd (look (\<lambda>s. sp_child (fw_sp s))) fts_lfree)
       (seq (if names then SET FTS_NAMEONLY else ret ())
         (let type = (if names then BNAMES else BCHILD) in
          bnd (ent_need ent_level p) (\<lambda>level. bnd (isset FTS_NOCHDIR) (\<lambda>nochdir.
            bnd (if level \<noteq> FTS_ROOTLEVEL then ret True else bnd (access p) (\<lambda>a. ret (starts_with a slash \<or> nochdir))) (\<lambda>direct.
              if direct then build_child host type
              else bnd (fts_sys (fh_open host ''.'')) (\<lambda>r.
                case r of
                  None \<Rightarrow> seq (set_sp (sp_child_update (\<lambda>_. None))) (ret None)
                | Some fd \<Rightarrow> bnd (build_child host type) (\<lambda>head.
                    bnd (fts_sys (fh_fchdir host fd)) (\<lambda>r.
                      seq (fts_sys (fh_close host fd)) (ret (if r = None then None else head))))))))))"

definition fts_children :: "'w fts_host \<Rightarrow> int \<Rightarrow> ('w, eid option) fop" where
  "fts_children host instr =
     (if instr \<noteq> 0 \<and> instr \<noteq> uint FTS_NAMEONLY then seq (set_errno EINVAL) (ret None)
      else seq (set_errno E_OK)
        (bnd (look (\<lambda>s. sp_cur (fw_sp s))) (\<lambda>c. bnd (isset FTS_STOP) (\<lambda>stop.
          if stop then ret None
          else bnd (need c) (\<lambda>p. bnd (ent_need ent_info p) (\<lambda>info.
            if info = FTS_INIT then ent_need ent_link p
            else if info \<noteq> FTS_D then ret None
            else children_of host p (instr = uint FTS_NAMEONLY)))))))"

section \<open>\<^verbatim>\<open>fts64.c\<close>\<close>

text \<open>
  The text of \<^verbatim>\<open>fts64.c\<close> is that of \<^verbatim>\<open>fts.c\<close>, with the status calls and the types of the large file
  interface: the calls of \<open>fts_host\<close> are \<^verbatim>\<open>stat64\<close>, \<^verbatim>\<open>lstat64\<close> and \<^verbatim>\<open>fstat64\<close> there.
\<close>

definition fts64_open :: "'w fts_host \<Rightarrow> string list \<Rightarrow> 32 word \<Rightarrow> (ftsent \<Rightarrow> ftsent \<Rightarrow> int) option \<Rightarrow> ('w, bool) fop" where
  "fts64_open = fts_open"

definition fts64_read :: "'w fts_host \<Rightarrow> ('w, eid option) fop" where
  "fts64_read = fts_read"

definition fts64_children :: "'w fts_host \<Rightarrow> int \<Rightarrow> ('w, eid option) fop" where
  "fts64_children = fts_children"

definition fts64_set :: "eid \<Rightarrow> int \<Rightarrow> ('w, int) fop" where
  "fts64_set = fts_set"

definition fts64_close :: "'w fts_host \<Rightarrow> ('w, int) fop" where
  "fts64_close = fts_close"

end
