(* ===== verification/Fts_List.thy ===== *)
theory Fts_List
  imports Fts_Read Ftw_Facts
begin

unbundle bit_operations_syntax

text \<open>
  What \<^verbatim>\<open>fts_build\<close> makes of a directory that is served without errors: how steps run on a state, the trees of
  files that are served, the status of an entry with the search for cycles, and the list of the entries.
\<close>

section \<open>Running steps\<close>

named_theorems fop_simps \<open>the steps on a state\<close>

lemma act_bind_cong [cong]: "m = m' \<Longrightarrow> act_bind m f = act_bind m' f"
  by simp

lemma act_bind_Done_iff: "act_bind m f = Done y \<longleftrightarrow> (\<exists>x. m = Done x \<and> f x = Done y)"
  by (cases m) auto

lemma bnd_run [fop_simps]: "bnd m f s = act_bind (m s) (\<lambda>(x, s'). f x s')"
  by (simp add: bnd_def)

lemma seq_run [fop_simps]: "seq m n s = act_bind (m s) (\<lambda>(_, s'). n s')"
  by (simp add: seq_def bnd_def)

lemma set_sp_run [fop_simps]: "set_sp f s = Done ((), s\<lparr>fw_sp := f (fw_sp s)\<rparr>)"
  by (cases s) (simp add: set_sp_def change_def)

lemma set_errno_run [fop_simps]: "set_errno e s = Done ((), s\<lparr>fw_errno := e\<rparr>)"
  by (simp add: set_errno_def change_def)

lemmas step_defs [fop_simps] = ret_def look_def isset_def need_def check_def
  ent_need_def set_info_def SET_def CLR_def flagged_def set_flag_def crash_def add_ent_def

lemma ent_run [fop_simps]: "live (fw_ents s) i = Some e \<Longrightarrow> ent i s = Done (e, s)"
  by (simp add: ent_def)

lemma upd_run [fop_simps]:
  "live (fw_ents s) i = Some e \<Longrightarrow> upd_ent i f s = Done ((), s\<lparr>fw_ents := (fw_ents s)[i := Some (f e)]\<rparr>)"
  by (simp add: upd_ent_def)

lemma poke_run [fop_simps]:
  "k < length (sp_path (fw_sp s)) \<Longrightarrow> poke k c s = Done ((), s\<lparr>fw_sp := (fw_sp s)\<lparr>sp_path := (sp_path (fw_sp s))[k := c]\<rparr>\<rparr>)"
  by (cases "fw_sp s") (simp add: poke_def set_sp_run)

lemma blit_run [fop_simps]:
  "k + length bs \<le> length (sp_path (fw_sp s)) \<Longrightarrow>
    blit k bs s = Done ((), s\<lparr>fw_sp := (fw_sp s)\<lparr>sp_path := put_at k bs (sp_path (fw_sp s))\<rparr>\<rparr>)"
  by (cases "fw_sp s") (simp add: blit_def set_sp_run)

lemma free_run [fop_simps]:
  "live (fw_ents s) i = Some e \<Longrightarrow> fts_free i s = Done ((), s\<lparr>fw_ents := (fw_ents s)[i := None]\<rparr>)"
  by (cases s) (simp add: fts_free_def bnd_run ent_run change_def)

lemma sys_run [fop_simps]: "f (fw_sys s) = (Inr x, fw_sys s) \<Longrightarrow> fts_sys f s = Done (Some x, s)"
  by (simp add: fts_sys_def)

lemma ents_first [fop_simps]: "s\<lparr>fw_sp := sp, fw_ents := es\<rparr> = s\<lparr>fw_ents := es, fw_sp := sp\<rparr>"
  by simp

lemma live_Some_iff: "live es i = Some e \<longleftrightarrow> i < length es \<and> es ! i = Some e"
  by (auto simp: live_def)

lemma live_append: "live es i = Some e \<Longrightarrow> live (es @ xs) i = Some e"
  by (auto simp: live_Some_iff nth_append)

section \<open>The trees that are served\<close>

definition tree_info :: "ftree \<Rightarrow> fts_info" where
  "tree_info t = (case t of File \<Rightarrow> FTS_F | Link \<Rightarrow> FTS_SL | Folder _ \<Rightarrow> FTS_D)"

text \<open>The path of an empty directory is shown without a slash at its end when it is left.\<close>

definition left_path :: "string \<Rightarrow> (string \<times> ftree) list \<Rightarrow> string" where
  "left_path path cs = (if cs = [] then take (front_len path) path else path)"

fun fts_visits :: "string \<Rightarrow> ftree \<Rightarrow> (string \<times> fts_info) list" where
  "fts_visits path (Folder cs) =
     (path, FTS_D) # concat (map (\<lambda>(d, t). fts_visits (below path d) t) cs) @ [(left_path path cs, FTS_DP)]"
| "fts_visits path t = [(path, tree_info t)]"

definition mode_of :: "32 word \<Rightarrow> ftree \<Rightarrow> bool" where
  "mode_of m t \<longleftrightarrow> S_ISDIR m = (\<exists>cs. t = Folder cs) \<and> S_ISLNK m = (t = Link) \<and> S_ISREG m = (t = File)"

definition names_served :: "'w fts_host \<Rightarrow> string \<Rightarrow> string list \<Rightarrow> bool" where
  "names_served host path ds \<longleftrightarrow> (\<exists>fd names. filter (\<lambda>d. \<not> ISDOT d) (map fst names) = ds \<and>
     (\<forall>w. fh_opendir host path w = (Inr (fd, names), w) \<and> fh_closedir host fd w = (Inr (), w)))"

definition file_name :: "string \<Rightarrow> bool" where
  "file_name d \<longleftrightarrow> d \<noteq> [] \<and> slash \<notin> set d \<and> NUL \<notin> set d"

definition file_served :: "'w fts_host \<Rightarrow> fts_status \<Rightarrow> string \<Rightarrow> ftree \<Rightarrow> bool" where
  "file_served host s path t \<longleftrightarrow>
     length path < PATH_MAX \<and> (\<forall>w. fh_lstat host path w = (Inr s, w)) \<and> mode_of (ws_mode s) t"

definition file_key :: "fts_status \<Rightarrow> 64 word \<times> 64 word" where
  "file_key s = (ws_ino s, ws_dev s)"

fun fserved :: "'w fts_host \<Rightarrow> (string \<Rightarrow> fts_status) \<Rightarrow> (64 word \<times> 64 word) list \<Rightarrow> string \<Rightarrow> ftree \<Rightarrow> bool"
  and fserved_all :: "'w fts_host \<Rightarrow> (string \<Rightarrow> fts_status) \<Rightarrow> (64 word \<times> 64 word) list \<Rightarrow> string \<Rightarrow> (string \<times> ftree) list \<Rightarrow> bool" where
  "fserved host st seen path (Folder cs) \<longleftrightarrow>
     file_served host (st path) path (Folder cs) \<and> file_key (st path) \<notin> set seen \<and>
     names_served host path (map fst cs) \<and> fserved_all host st (file_key (st path) # seen) path cs"
| "fserved host st seen path t \<longleftrightarrow> file_served host (st path) path t"
| "fserved_all host st seen path [] \<longleftrightarrow> True"
| "fserved_all host st seen path ((d, t) # cs) \<longleftrightarrow>
     file_name d \<and> fserved host st seen (below path d) t \<and> fserved_all host st seen path cs"

lemma fserved_file: "fserved host st seen path t \<Longrightarrow> file_served host (st path) path t"
  by (cases t) auto


section \<open>Entries above\<close>

text \<open>The entries from one on up to the parent of the roots, with their keys.\<close>

fun chain :: "ftsent option list \<Rightarrow> eid \<Rightarrow> (64 word \<times> 64 word) list \<Rightarrow> bool" where
  "chain es p [] \<longleftrightarrow> (\<exists>e. live es p = Some e \<and> ent_level e = Some FTS_ROOTPARENTLEVEL)"
| "chain es p (k # ks) \<longleftrightarrow>
     (\<exists>e lv q. live es p = Some e \<and> ent_level e = Some lv \<and> FTS_ROOTLEVEL \<le> lv \<and>
       ent_ino e = Some (fst k) \<and> ent_dev e = Some (snd k) \<and> ent_parent e = Some q \<and> chain es q ks)"

lemma chain_append: "chain es p ks \<Longrightarrow> chain (es @ xs) p ks"
  by (induction ks arbitrary: p) (auto dest: live_append)

lemma levels [simp]: "FTS_ROOTPARENTLEVEL < FTS_ROOTLEVEL" "FTS_ROOTPARENTLEVEL \<noteq> FTS_ROOTLEVEL"
  by (simp_all add: FTS_ROOTPARENTLEVEL_def FTS_ROOTLEVEL_def)

lemma find_cycle_none:
  "chain (fw_ents s) t ks \<Longrightarrow> (ino, dev) \<notin> set ks \<Longrightarrow> length ks < n \<Longrightarrow> find_cycle n ino dev t s = Done (None, s)"
proof (induction ks arbitrary: t n)
  case Nil
  then show ?case by (cases n) (auto simp: fop_simps)
next
  case (Cons k ks)
  then obtain e lv q m where c: "live (fw_ents s) t = Some e" "ent_level e = Some lv" "FTS_ROOTLEVEL \<le> lv"
      "ent_ino e = Some (fst k)" "ent_dev e = Some (snd k)" "ent_parent e = Some q" "chain (fw_ents s) q ks" "n = Suc m"
    by (cases n) auto
  have "find_cycle m ino dev q s = Done (None, s)" using Cons c by simp
  then show ?case using c Cons.prems(2) by (cases k) (auto simp: fop_simps)
qed

section \<open>Reading the status of an entry\<close>

definition stat_ent :: "fts_status \<Rightarrow> ftree \<Rightarrow> ftsent \<Rightarrow> ftsent" where
  "stat_ent st t e =
     (case t of
        Folder _ \<Rightarrow> e\<lparr>ent_statp := Some (Some st), ent_dev := Some (ws_dev st), ent_ino := Some (ws_ino st), ent_nlink := Some (ws_nlink st)\<rparr>
      | _ \<Rightarrow> e\<lparr>ent_statp := Some (Some st)\<rparr>)"

text \<open>The options of the walks considered here: physical, without a change of the directory.\<close>

definition plain :: "fts \<Rightarrow> bool" where
  "plain sp \<longleftrightarrow> sp_options sp AND FTS_NOCHDIR \<noteq> 0 \<and> sp_options sp AND FTS_LOGICAL = 0 \<and> sp_options sp AND FTS_NOSTAT = 0 \<and>
     sp_options sp AND FTS_SEEDOT = 0 \<and> sp_options sp AND FTS_XDEV = 0 \<and> sp_options sp AND FTS_NAMEONLY = 0 \<and>
     sp_options sp AND FTS_STOP = 0 \<and> sp_child sp = None \<and> sp_compar sp = None \<and>
     sp_pathlen sp = PATH_MAX \<and> length (sp_path sp) = PATH_MAX"

lemma stat_found:
  assumes "live (fw_ents s) p = Some e" "access p s = Done (path, s)" "file_served host st path t"
    and "ent_statp e \<noteq> None" "sp_options (fw_sp s) AND FTS_LOGICAL = 0" "sp_options (fw_sp s) AND FTS_NOSTAT = 0"
    and "ent_parent e = Some q" "\<exists>cs. t = Folder cs \<Longrightarrow> file_key st \<notin> set ks"
    and "\<And>e'. chain ((fw_ents s)[p := Some e']) q ks" "length ks \<le> length (fw_ents s)"
  shows "fts_stat host p False s =
    Done (if ISDOT (ent_name e) \<and> (\<exists>cs. t = Folder cs) then FTS_DOT else tree_info t, s\<lparr>fw_ents := (fw_ents s)[p := Some (stat_ent st t e)]\<rparr>)"
proof -
  obtain x where x: "ent_statp e = Some x" using assms(4) by blast
  have p: "p < length (fw_ents s)" "fw_ents s ! p = Some e" using assms(1) by (auto simp: live_Some_iff)
  have l: "live ((fw_ents s)[p := Some e']) p = Some e'" for e' using p by (simp add: live_Some_iff)
  have h: "fh_lstat host path w = (Inr st, w)" "mode_of (ws_mode st) t" for w using assms(3) by (auto simp: file_served_def)
  have c: "find_cycle (Suc (length (fw_ents s))) (ws_ino st) (ws_dev st) q (s\<lparr>fw_ents := (fw_ents s)[p := Some e']\<rparr>) =
      Done (None, s\<lparr>fw_ents := (fw_ents s)[p := Some e']\<rparr>)" if "\<exists>cs. t = Folder cs" for e'
    by (rule find_cycle_none [of _ _ ks]) (use assms(8,9,10) that in \<open>auto simp: file_key_def\<close>)
  show ?thesis
  proof (cases t)
    case (Folder cs)
    then show ?thesis using c h x assms(2,5,6,7) p l
      by (simp add: fts_stat_def put_status_def fts_kind_def fop_simps mode_of_def tree_info_def stat_ent_def assms(1) del: find_cycle.simps)
  qed (use h x assms(2,5,6,7) p l in \<open>simp_all add: fts_stat_def put_status_def fts_kind_def fop_simps mode_of_def tree_info_def stat_ent_def assms(1)\<close>)
qed


section \<open>The list of a directory\<close>

lemma upto_NUL [simp]: "NUL \<notin> set path \<Longrightarrow> takeWhile (\<lambda>c. c \<noteq> NUL) (path @ NUL # r) = path"
  by (induction path) auto

lemma fts_string_prefix: "prefix (path @ [NUL]) buf \<Longrightarrow> NUL \<notin> set path \<Longrightarrow> fts_string buf = ret path"
  by (auto simp: fts_string_def prefix_def)

lemma access_path:
  assumes "live (fw_ents s) p = Some e" "ent_accpath e = InPath (sp_gen (fw_sp s))"
    and "prefix (path @ [NUL]) (sp_path (fw_sp s))" "NUL \<notin> set path"
  shows "access p s = Done (path, s)"
  using assms(1,2) by (simp add: access_def fop_simps fts_string_prefix [OF assms(3,4)])

lemma put_at_prefix:
  "length base \<le> k \<Longrightarrow> k \<le> length buf \<Longrightarrow> prefix base buf \<Longrightarrow> prefix base (put_at k bs buf)"
  by (auto simp: put_at_def prefix_def)

lemma put_at_showing:
  "prefix base buf \<Longrightarrow> k = length base \<Longrightarrow> prefix (base @ bs) (put_at k bs buf)"
  by (auto simp: put_at_def prefix_def)

lemma length_put_at [simp]: "k + length bs \<le> length buf \<Longrightarrow> length (put_at k bs buf) = length buf"
  by (simp add: put_at_def)

definition child_ent :: "nat \<Rightarrow> eid \<Rightarrow> int \<Rightarrow> string \<Rightarrow> (string \<Rightarrow> fts_status) \<Rightarrow> (string \<times> ftree) \<Rightarrow> eid option \<Rightarrow> ftsent" where
  "child_ent g p lv path st x l =
     (case x of (d, t) \<Rightarrow>
        (stat_ent (st (below path d)) t ((new_ent False g d)\<lparr>ent_level := Some lv, ent_pathlen := Some (length (below path d)),
          ent_parent := Some p, ent_accpath := InPath g\<rparr>))\<lparr>ent_info := Some (tree_info t), ent_link := Some l\<rparr>)"

fun kids :: "(nat \<Rightarrow> (string \<times> ftree) \<Rightarrow> eid option \<Rightarrow> ftsent) \<Rightarrow> nat \<Rightarrow> (string \<times> ftree) list \<Rightarrow> ftsent option list" where
  "kids mk k [] = []"
| "kids mk k (x # xs) = Some (mk k x (if xs = [] then None else Some (k + 1))) # kids mk (k + 1) xs"

lemma length_kids [simp]: "length (kids mk k xs) = length xs"
  by (induction xs arbitrary: k) auto

lemma kids_Nil [simp]: "kids mk k xs = [] \<longleftrightarrow> xs = []"
  by (cases xs) auto

lemma kids_snoc:
  "xs \<noteq> [] \<Longrightarrow> kids mk k (xs @ [x]) = butlast (kids mk k xs) @ [Some (mk (k + length xs - 1) (last xs) (Some (k + length xs))), Some (mk (k + length xs) x None)]"
  by (induction xs arbitrary: k) auto

lemma last_kids: "xs \<noteq> [] \<Longrightarrow> last (kids mk k xs) = Some (mk (k + length xs - 1) (last xs) None)"
  by (induction xs arbitrary: k) auto

lemma child_relink: "(child_ent g p lv path st x l)\<lparr>ent_link := Some l'\<rparr> = child_ent g p lv path st x l'"
  by (cases x) (simp add: child_ent_def)

definition mallocs :: "'w fts_host \<Rightarrow> bool" where
  "mallocs host \<longleftrightarrow> (\<forall>w. fh_malloc host w = (Inr (), w))"

lemma alloc_run:
  "mallocs host \<Longrightarrow> sp_options (fw_sp s) AND FTS_NOSTAT = 0 \<Longrightarrow>
    fts_alloc host name s = Done (Some (length (fw_ents s)), s\<lparr>fw_ents := fw_ents s @ [Some (new_ent False (sp_gen (fw_sp s)) name)]\<rparr>)"
  by (simp add: fts_alloc_def fop_simps mallocs_def)

lemma below_length: "length (below path d) = front_len path + 1 + length d"
  using front_len_le [of path] by (simp add: below_def)

lemma below_append: "below path d = (take (front_len path) path @ [slash]) @ d"
  by (simp add: below_def)

lemma truncate_path [simp]: "n < PATH_MAX \<Longrightarrow> fts_truncate n = n"
  by (simp add: fts_truncate_def PATH_MAX_def)

lemma stat_ent_sel [simp]:
  "ent_name (stat_ent st t e) = ent_name e" "ent_parent (stat_ent st t e) = ent_parent e" "ent_level (stat_ent st t e) = ent_level e"
  "ent_accpath (stat_ent st t e) = ent_accpath e" "ent_path (stat_ent st t e) = ent_path e" "ent_pathlen (stat_ent st t e) = ent_pathlen e"
  "ent_namelen (stat_ent st t e) = ent_namelen e" "ent_errno (stat_ent st t e) = ent_errno e" "ent_instr (stat_ent st t e) = ent_instr e"
  "ent_flags (stat_ent st t e) = ent_flags e" "ent_link (stat_ent st t e) = ent_link e"
  by (simp_all add: stat_ent_def split: ftree.split)

lemma new_ent_sel [simp]:
  "ent_name (new_ent n g d) = d" "ent_path (new_ent n g d) = g" "ent_errno (new_ent n g d) = E_OK" "ent_instr (new_ent n g d) = FTS_NOINSTR"
  "ent_flags (new_ent n g d) = 0" "ent_namelen (new_ent n g d) = fts_truncate (length d)" "ent_statp (new_ent False g d) = Some None"
  by (simp_all add: new_ent_def)

text \<open>One name: the entry is made, its status read and the list extended.\<close>

lemma stat_kind_served:
  assumes "plain (fw_sp s)" "fw_ents s = es @ X @ [Some e]" "p = length (es @ X)"
    and "e = (new_ent False (sp_gen (fw_sp s)) d)\<lparr>ent_level := Some lv, ent_pathlen := Some n, ent_parent := Some cur\<rparr>"
    and "chain es cur ks" "length ks \<le> length es" "file_name d" "\<not> ISDOT d"
    and "file_served host st (base @ d) t" "\<exists>cs. t = Folder cs \<Longrightarrow> file_key st \<notin> set ks"
    and "prefix base (sp_path (fw_sp s))" "NUL \<notin> set base" "fd_len dir = length base"
  shows "stat_kind host dir (- 1) p s =
    Done (- 1, s\<lparr>fw_ents := es @ X @ [Some ((stat_ent st t (e\<lparr>ent_accpath := InPath (sp_gen (fw_sp s))\<rparr>))\<lparr>ent_info := Some (tree_info t)\<rparr>)],
      fw_sp := (fw_sp s)\<lparr>sp_path := put_at (length base) (d @ [NUL]) (sp_path (fw_sp s))\<rparr>\<rparr>)"
proof -
  let ?g = "sp_gen (fw_sp s)"
  let ?e = "e\<lparr>ent_accpath := InPath ?g\<rparr>"
  let ?b = "put_at (length base) (d @ [NUL]) (sp_path (fw_sp s))"
  let ?s = "s\<lparr>fw_ents := es @ X @ [Some ?e], fw_sp := (fw_sp s)\<lparr>sp_path := ?b\<rparr>\<rparr>"
  have upd_ent: "(es @ X @ [a])[p := b] = es @ X @ [b]" for a b :: "ftsent option"
    by (simp add: assms(3) list_update_append)
  have len: "length (base @ d) < PATH_MAX" using assms(9) by (simp add: file_served_def)
  have buf: "length (sp_path (fw_sp s)) = PATH_MAX" using assms(1) by (simp add: plain_def)
  have name: "take (fts_truncate (length d) + 1) (d @ [NUL]) = d @ [NUL]" using len by simp
  have lv: "live (es @ X @ [Some a]) p = Some a" for a by (simp add: live_Some_iff assms(3) nth_append)
  have acc: "access p ?s = Done (base @ d, ?s)"
  proof (rule access_path)
    show "prefix ((base @ d) @ [NUL]) (sp_path (fw_sp ?s))"
      using put_at_showing [OF assms(11) refl, of "d @ [NUL]"] by simp
  qed (use lv assms(7,12) in \<open>auto simp: file_name_def\<close>)
  have "fts_stat host p False ?s = Done (if ISDOT (ent_name ?e) \<and> (\<exists>cs. t = Folder cs) then FTS_DOT else tree_info t,
      ?s\<lparr>fw_ents := (fw_ents ?s)[p := Some (stat_ent st t ?e)]\<rparr>)"
  proof (rule stat_found [OF _ acc assms(9), where q = cur and ks = ks])
    show "chain ((fw_ents ?s)[p := Some e']) cur ks" for e' using chain_append [OF assms(5)] by (simp add: upd_ent)
  qed (use assms(1,4,6,7,8,10) lv in \<open>auto simp: plain_def\<close>)
  then have st: "fts_stat host p False ?s = Done (tree_info t, ?s\<lparr>fw_ents := (fw_ents ?s)[p := Some (stat_ent st t ?e)]\<rparr>)"
    using assms(4,8) by simp
  show ?thesis
    unfolding stat_kind_def own_path_def
    using assms(1,4,13) lv len buf name st
    by (simp add: fop_simps assms(2) plain_def upd_ent)
qed


definition fts_listed :: "nat \<Rightarrow> nat \<Rightarrow> (string \<times> ftree) list \<Rightarrow> fts_list" where
  "fts_listed m b ds =
     \<lparr>fl_head = (if ds = [] then None else Some b), fl_tail = (if ds = [] then None else Some (b + length ds - 1)),
      fl_nitems = length ds, fl_nlinks = - 1, fl_maxlen = m, fl_adjust = False\<rparr>"

lemma kids_last:
  assumes "ds \<noteq> []" "k = length es + length ds - 1"
  shows "live (es @ kids mk (length es) ds @ [Some y]) k = Some (mk k (last ds) None)"
    and "(es @ kids mk (length es) ds @ [Some y])[k := Some (mk k (last ds) (Some (k + 1)))] = es @ butlast (kids mk (length es) ds) @ [Some (mk k (last ds) (Some (k + 1))), Some y]"
proof -
  have split: "kids mk (length es) ds = butlast (kids mk (length es) ds) @ [Some (mk (length es + length ds - 1) (last ds) None)]"
    using assms(1) by (metis append_butlast_last_id kids_Nil last_kids)
  obtain n where n: "length ds = Suc n" using assms(1) by (cases ds) auto
  show "live (es @ kids mk (length es) ds @ [Some y]) k = Some (mk k (last ds) None)"
    by (subst split) (simp add: live_Some_iff nth_append n assms(2))
  show "(es @ kids mk (length es) ds @ [Some y])[k := Some (mk k (last ds) (Some (k + 1)))] = es @ butlast (kids mk (length es) ds) @ [Some (mk k (last ds) (Some (k + 1))), Some y]"
    by (subst split) (simp add: list_update_append n assms(2))
qed

lemma kids_more:
  "ds \<noteq> [] \<Longrightarrow> k = n + length ds - 1 \<Longrightarrow>
    butlast (kids mk n ds) @ [Some (mk k (last ds) (Some (k + 1))), Some (mk (k + 1) x None)] = kids mk n (ds @ [x])"
  by (cases ds) (simp_all add: kids_snoc)

lemma link_last_kids:
  assumes "fw_ents s = es @ kids mk (length es) ds @ [Some e]" "p = length es + length ds"
    and "e\<lparr>ent_link := Some None\<rparr> = mk p x None" "\<And>k x l l'. (mk k x l)\<lparr>ent_link := Some l'\<rparr> = mk k x l'"
  shows "link_last p (fts_listed m (length es) ds) s =
    Done (fts_listed m (length es) (ds @ [x]), s\<lparr>fw_ents := es @ kids mk (length es) (ds @ [x])\<rparr>)"
proof -
  have p: "live (fw_ents s) p = Some e" by (simp add: live_Some_iff assms(1,2) nth_append)
  have u: "(fw_ents s)[p := Some y] = es @ kids mk (length es) ds @ [Some y]" for y
    by (simp add: assms(1,2) list_update_append)
  show ?thesis
  proof (cases "ds = []")
    case True
    then show ?thesis using p u assms(2,3) by (simp add: link_last_def fts_listed_def fop_simps)
  next
    case False
    obtain k where k: "p = k + 1" "length es + length ds - 1 = k" using False assms(2) by (cases ds) auto
    show ?thesis
      using p u kids_last [OF False, of k es mk] kids_more [OF False, of k "length es" mk x] k False assms(3,4)
      by (simp add: link_last_def fts_listed_def fop_simps) (simp add: assms(2))
  qed
qed

lemma place_kids:
  assumes "fw_ents s = es @ X @ [Some e]" "p = length (es @ X)"
  shows "place_entry dir n p s = Done ((), s\<lparr>fw_ents := es @ X @ [Some (e\<lparr>ent_level := Some (fd_level dir),
    ent_pathlen := Some (fts_truncate (fd_len dir + n)), ent_parent := Some (fd_cur dir)\<rparr>)]\<rparr>)"
proof -
  have "live (fw_ents s) p = Some e" by (simp add: live_Some_iff assms nth_append)
  then show ?thesis by (simp add: place_entry_def fop_simps assms list_update_append)
qed

lemma read_names_served:
  assumes "plain (fw_sp s)" "mallocs host" "fw_ents s = es @ kids mk (length es) ds"
    and "mk = (\<lambda>_. child_ent (sp_gen (fw_sp s)) cur lv path st)"
    and "chain es cur ks" "length ks \<le> length es" "fserved_all host st ks path cs"
    and "filter (\<lambda>d. \<not> ISDOT d) (map fst names) = map fst cs"
    and "prefix (take (front_len path) path @ [slash]) (sp_path (fw_sp s))" "NUL \<notin> set path"
    and "dir = \<lparr>fd_cur = cur, fd_len = front_len path + 1, fd_level = lv, fd_nostat = nostat, fd_cderrno = E_OK\<rparr>"
    and "m = PATH_MAX - (front_len path + 1)" "nostat = False"
  shows "\<exists>buf. prefix (take (front_len path) path @ [slash]) buf \<and> length buf = PATH_MAX \<and>
    read_names host dir names (fts_listed m (length es) ds) s =
      Done (Inr (fts_listed m (length es) (ds @ cs)), s\<lparr>fw_ents := es @ kids mk (length es) (ds @ cs), fw_sp := (fw_sp s)\<lparr>sp_path := buf\<rparr>\<rparr>)"
  using assms(1,3,4,7,8,9)
proof (induction names arbitrary: cs ds s)
  case Nil
  then have "s\<lparr>fw_ents := es @ kids mk (length es) ds, fw_sp := (fw_sp s)\<lparr>sp_path := sp_path (fw_sp s)\<rparr>\<rparr> = s"
    by (cases s) simp
  then show ?case using Nil by (intro exI [of _ "sp_path (fw_sp s)"]) (auto simp: plain_def fop_simps)
next
  case (Cons x names)
  obtain d type where x: "x = (d, type)" by (cases x)
  have sd: "sp_options (fw_sp s) AND FTS_SEEDOT = 0" using Cons.prems(1) by (simp add: plain_def)
  show ?case
  proof (cases "ISDOT d")
    case True
    then show ?thesis using Cons.IH [OF Cons.prems(1-4) _ Cons.prems(6)] Cons.prems(5) x sd by (simp add: fop_simps)
  next
    case False
    then obtain t cs' where cs: "cs = (d, t) # cs'" "filter (\<lambda>d. \<not> ISDOT d) (map fst names) = map fst cs'"
      using Cons.prems(5) x by (cases cs) auto
    have srv: "file_name d" "fserved host st ks (below path d) t" "fserved_all host st ks path cs'"
      using Cons.prems(4) cs(1) by simp_all
    let ?base = "take (front_len path) path @ [slash]"
    let ?g = "sp_gen (fw_sp s)"
    let ?K = "kids mk (length es) ds"
    let ?p = "length (es @ ?K)"
    let ?n = "length (below path d)"
    let ?e = "(new_ent False ?g d)\<lparr>ent_level := Some lv, ent_pathlen := Some ?n, ent_parent := Some cur\<rparr>"
    let ?e2 = "(stat_ent (st (below path d)) t (?e\<lparr>ent_accpath := InPath ?g\<rparr>))\<lparr>ent_info := Some (tree_info t)\<rparr>"
    let ?s1 = "s\<lparr>fw_ents := es @ ?K @ [Some (new_ent False ?g d)]\<rparr>"
    let ?s2 = "s\<lparr>fw_ents := es @ ?K @ [Some ?e]\<rparr>"
    let ?sp = "(fw_sp s)\<lparr>sp_path := put_at (length ?base) (d @ [NUL]) (sp_path (fw_sp s))\<rparr>"
    let ?s3 = "s\<lparr>fw_ents := es @ ?K @ [Some ?e2], fw_sp := ?sp\<rparr>"
    let ?s4 = "s\<lparr>fw_ents := es @ kids mk (length es) (ds @ [(d, t)]), fw_sp := ?sp\<rparr>"
    have fl: "front_len path \<le> length path" by (rule front_len_le)
    have len: "?n < PATH_MAX" using fserved_file [OF srv(2)] by (simp add: file_served_def)
    then have room: "\<not> m \<le> length d" using assms(12) by (simp add: below_length)
    have buf: "length (sp_path (fw_sp s)) = PATH_MAX" using Cons.prems(1) by (simp add: plain_def)
    have base: "length ?base = front_len path + 1" "?base @ d = below path d" "NUL \<notin> set ?base"
      using fl assms(10) by (auto simp: below_def slash_def NUL_def dest: in_set_takeD)
    have a: "fts_alloc host d s = Done (Some ?p, ?s1)"
      using alloc_run [OF assms(2), of s d] Cons.prems(1,2) by (simp add: plain_def)
    have b: "place_entry dir (length d) ?p ?s1 = Done ((), ?s2)"
      using place_kids [of ?s1 es ?K "new_ent False ?g d" ?p dir "length d"] len assms(11) by (simp add: below_length)
    have c: "stat_kind host dir (- 1) ?p ?s2 = Done (- 1, ?s3)"
      using stat_kind_served [where s = ?s2 and es = es and X = ?K and e = ?e and p = ?p and d = d and lv = lv and n = ?n and cur = cur
          and ks = ks and host = host and st = "st (below path d)" and base = ?base and t = t and dir = dir]
        Cons.prems(1,6) assms(5,6,11) srv(1) False fserved_file [OF srv(2)] base srv(2)
      by (cases t) simp_all
    have l: "link_last ?p (fts_listed m (length es) ds) ?s3 = Done (fts_listed m (length es) (ds @ [(d, t)]), ?s4)"
    proof -
      have "?e2\<lparr>ent_link := Some None\<rparr> = mk ?p (d, t) None" "\<And>k x l l'. (mk k x l)\<lparr>ent_link := Some l'\<rparr> = mk k x l'"
        by (simp_all only: Cons.prems(3) child_relink) (simp add: child_ent_def)
      then show ?thesis using link_last_kids [of ?s3 es mk ds ?e2 ?p "(d, t)" m] by simp
    qed
    have ih: "\<exists>buf. prefix ?base buf \<and> length buf = PATH_MAX \<and>
        read_names host dir names (fts_listed m (length es) (ds @ [(d, t)])) ?s4 =
          Done (Inr (fts_listed m (length es) ((ds @ [(d, t)]) @ cs')), ?s4\<lparr>fw_ents := es @ kids mk (length es) ((ds @ [(d, t)]) @ cs'), fw_sp := (fw_sp ?s4)\<lparr>sp_path := buf\<rparr>\<rparr>)"
      by (rule Cons.IH) (use Cons.prems(1,3,6) srv(3) cs(2) len base buf put_at_prefix [of ?base "length ?base"] in
        \<open>simp_all add: plain_def below_length\<close>)
    have nl: "(fts_listed m b ds)\<lparr>fl_nlinks := - 1\<rparr> = fts_listed m b ds" "fl_nlinks (fts_listed m b ds) = - 1" "fl_maxlen (fts_listed m b ds) = m" for b
      by (simp_all add: fts_listed_def)
    show ?thesis
      using ih a b c l
      by (simp add: x cs(1) False fop_simps sd room_for_def nl room entry_kind_def assms(11,13))
  qed
qed


lemma NAPPEND_run:
  assumes "live (fw_ents s) p = Some e" "ent_path e = sp_gen (fw_sp s)" "ent_pathlen e = Some (length path)"
    and "prefix path (sp_path (fw_sp s))" "path \<noteq> []"
  shows "NAPPEND p s = Done (front_len path, s)"
proof -
  have "sp_path (fw_sp s) ! (length path - 1) = last path" "length path \<le> length (sp_path (fw_sp s))"
    using assms(4,5) by (auto simp: prefix_def nth_append last_conv_nth)
  then show ?thesis using assms(1,2,3,5) by (simp add: NAPPEND_def fop_simps front_len_def)
qed

lemma plain_run [fop_simps]:
  "plain (fw_sp s) \<Longrightarrow> fts_safe_changedir host p fd path s = Done (False, s)"
  "plain (fw_sp s) \<Longrightarrow> FCHDIR host n s = Done (False, s)"
  by (simp_all add: fts_safe_changedir_def FCHDIR_def fop_simps plain_def)

lemma plain_path [simp]:
  "plain sp \<Longrightarrow> length b = PATH_MAX \<Longrightarrow> plain (sp\<lparr>sp_path := b\<rparr>)"
  "plain sp \<Longrightarrow> plain (sp\<lparr>sp_cur := c\<rparr>)"
  by (simp_all add: plain_def)

lemma prefix_poke: "prefix path buf \<Longrightarrow> k \<le> length path \<Longrightarrow> k < length buf \<Longrightarrow> prefix (take k path @ [c]) (buf[k := c])"
  by (auto simp: prefix_def list_update_append upd_conv_take_nth_drop)

lemma front_len_nonempty: "path \<noteq> [] \<Longrightarrow> take (front_len path) path @ [slash] = path \<or> front_len path = length path"
  by (cases path rule: rev_cases) (auto simp: front_len_def)

lemma size_minus_diff: "b \<le> a \<Longrightarrow> a < 2 ^ 64 \<Longrightarrow> size_minus a b = a - b"
  unfolding size_minus_def by (simp add: of_nat_diff [symmetric] unat_of_nat take_bit_nat_eq_self del: of_nat_diff)

text \<open>An entry of a directory that is about to be read.\<close>

definition dir_ent :: "fts \<Rightarrow> string \<Rightarrow> int \<Rightarrow> ftsent \<Rightarrow> bool" where
  "dir_ent sp path lv e \<longleftrightarrow> ent_accpath e = InPath (sp_gen sp) \<and> ent_path e = sp_gen sp \<and> ent_pathlen e = Some (length path) \<and>
     ent_level e = Some lv \<and> FTS_ROOTLEVEL \<le> lv \<and> ent_parent e \<noteq> None \<and> ent_errno e = E_OK \<and> ent_instr e = FTS_NOINSTR \<and>
     ent_flags e = 0"

lemma fts_entries_served:
  assumes "plain (fw_sp s)" "mallocs host" "live (fw_ents s) cur = Some e" "dir_ent (fw_sp s) path lv e"
    and "chain (fw_ents s) cur ks" "length ks \<le> length (fw_ents s)" "fserved_all host st ks path cs"
    and "filter (\<lambda>d. \<not> ISDOT d) (map fst names) = map fst cs" "\<And>w. fh_closedir host fd w = (Inr (), w)"
    and "prefix path (sp_path (fw_sp s))" "path \<noteq> []" "NUL \<notin> set path" "length path < PATH_MAX"
  shows "\<exists>buf. length buf = PATH_MAX \<and> prefix (take (front_len path) path @ [if cs = [] then NUL else slash]) buf \<and>
    build_entries host BREAD cur fd names s =
      Done (if cs = [] then None else Some (length (fw_ents s)),
        s\<lparr>fw_ents := (if cs = [] then (fw_ents s)[cur := Some (e\<lparr>ent_info := Some FTS_DP\<rparr>)]
            else fw_ents s @ kids (\<lambda>_. child_ent (sp_gen (fw_sp s)) cur (lv + 1) path st) (length (fw_ents s)) cs),
          fw_sp := (fw_sp s)\<lparr>sp_path := buf\<rparr>\<rparr>)"
proof -
  let ?k = "front_len path"
  let ?b = "(sp_path (fw_sp s))[?k := slash]"
  let ?s = "s\<lparr>fw_sp := (fw_sp s)\<lparr>sp_path := ?b\<rparr>\<rparr>"
  let ?d = "\<lparr>fd_cur = cur, fd_len = ?k + 1, fd_level = lv + 1, fd_nostat = False, fd_cderrno = E_OK\<rparr>"
  let ?mk = "child_ent (sp_gen (fw_sp s)) cur (lv + 1) path st"
  have k: "?k < PATH_MAX" "?k \<le> length path" using front_len_le [of path] assms(13) by simp_all
  have buf: "length (sp_path (fw_sp s)) = PATH_MAX" "sp_pathlen (fw_sp s) = PATH_MAX" using assms(1) by (simp_all add: plain_def)
  have ents: "fw_ents s @ kids (\<lambda>_. ?mk) n [] = fw_ents s" for n by simp
  have base: "prefix (take ?k path @ [slash]) ?b" by (rule prefix_poke) (use assms(10) k buf in auto)
  have max: "size_minus PATH_MAX (Suc ?k) = PATH_MAX - Suc ?k"
    by (rule size_minus_diff) (use k in \<open>simp_all add: PATH_MAX_def\<close>)
  have "\<exists>buf. prefix (take ?k path @ [slash]) buf \<and> length buf = PATH_MAX \<and>
      read_names host ?d names (fts_listed (PATH_MAX - (?k + 1)) (length (fw_ents s)) []) ?s =
        Done (Inr (fts_listed (PATH_MAX - (?k + 1)) (length (fw_ents s)) ([] @ cs)), ?s\<lparr>fw_ents := fw_ents s @ kids (\<lambda>_. ?mk) (length (fw_ents s)) ([] @ cs), fw_sp := (fw_sp ?s)\<lparr>sp_path := buf\<rparr>\<rparr>)"
    by (rule read_names_served [where nostat = False and cur = cur and lv = "lv + 1" and st = st and ks = ks])
      (use assms(1,2,5,6,7,8,12) base buf in simp_all)
  then obtain buf where b: "prefix (take ?k path @ [slash]) buf" "length buf = PATH_MAX"
      "read_names host ?d names (fts_listed (PATH_MAX - (?k + 1)) (length (fw_ents s)) []) ?s =
        Done (Inr (fts_listed (PATH_MAX - (?k + 1)) (length (fw_ents s)) cs), s\<lparr>fw_ents := fw_ents s @ kids (\<lambda>_. ?mk) (length (fw_ents s)) cs, fw_sp := (fw_sp s)\<lparr>sp_path := buf\<rparr>\<rparr>)"
    by (simp del: kids.simps) blast
  have link: "link_count BREAD cur s = Done ((- 1, False), s)" using assms(1) by (simp add: link_count_def fop_simps plain_def)
  have desc: "descend_into host BREAD (- 1) cur fd s = Done ((True, E_OK), s)" using assms(1) by (simp add: descend_into_def fop_simps)
  have nap: "NAPPEND cur s = Done (?k, s)" by (rule NAPPEND_run [OF assms(3) _ _ assms(10,11)]) (use assms(4) in \<open>simp_all add: dir_ent_def\<close>)
  have nochdir: "sp_options (fw_sp s) AND FTS_NOCHDIR \<noteq> 0" using assms(1) by (simp add: plain_def)
  have empty: "\<lparr>fl_head = None, fl_tail = None, fl_nitems = 0, fl_nlinks = - 1, fl_maxlen = m, fl_adjust = False\<rparr> =
      fts_listed m (length (fw_ents s)) []" for m
    by (simp add: fts_listed_def)
  let ?s2 = "s\<lparr>fw_ents := fw_ents s @ kids (\<lambda>_. ?mk) (length (fw_ents s)) cs, fw_sp := (fw_sp s)\<lparr>sp_path := buf\<rparr>\<rparr>"
  have lv: "live (fw_ents s @ X) cur = Some e" for X using assms(3) by (rule live_append)
  have start: "build_entries host BREAD cur fd names s =
      build_end host BREAD cur True (?k + 1) (fts_listed (PATH_MAX - (?k + 1)) (length (fw_ents s)) cs) ?s2"
    unfolding build_entries_def
    using b(3) assms(3,4,9) link desc nap k buf nochdir
    by (simp add: fop_simps max empty dir_ent_def del: kids.simps)
  show ?thesis
  proof (cases "cs = []")
    case True
    let ?u = "buf[?k := NUL]"
    have u: "prefix (take ?k path @ [NUL]) ?u"
      using prefix_poke [OF b(1), of ?k NUL] b(2) k by simp
    have "build_end host BREAD cur True (?k + 1) (fts_listed (PATH_MAX - (?k + 1)) (length (fw_ents s)) []) (s\<lparr>fw_sp := (fw_sp s)\<lparr>sp_path := buf\<rparr>\<rparr>) =
        Done (None, s\<lparr>fw_ents := (fw_ents s)[cur := Some (e\<lparr>ent_info := Some FTS_DP\<rparr>)], fw_sp := (fw_sp s)\<lparr>sp_path := ?u\<rparr>\<rparr>)"
      using b(1,2) assms(1,3,4) k nochdir
      by (auto simp: build_end_def fop_simps fts_listed_def reset_path_def climb_back_def dir_ent_def)
    then show ?thesis using True u b(2) start by (intro exI [of _ ?u]) simp
  next
    case False
    let ?u = "buf[?k + 1 := NUL]"
    have len: "?k + 1 < PATH_MAX"
    proof -
      obtain d t where "(d, t) \<in> set cs" "length (below path d) < PATH_MAX"
        using False assms(7) fserved_file by (cases cs) (fastforce simp: file_served_def)+
      then show ?thesis by (simp add: below_length)
    qed
    have u: "prefix (take ?k path @ [slash]) ?u"
      using b(1) k by (auto simp: prefix_def list_update_append)
    have "build_end host BREAD cur True (?k + 1) (fts_listed (PATH_MAX - (?k + 1)) (length (fw_ents s)) cs) ?s2 =
        Done (Some (length (fw_ents s)), ?s2\<lparr>fw_sp := (fw_sp s)\<lparr>sp_path := ?u\<rparr>\<rparr>)"
      using b(1,2) assms(1) len buf nochdir False
      by (auto simp: build_end_def fop_simps fts_listed_def reset_path_def climb_back_def plain_def)
    then show ?thesis using False u b(2) start by (intro exI [of _ ?u]) simp
  qed
qed

end
