(* ===== verification/Fts_Walk.thy ===== *)
theory Fts_Walk
  imports Fts_List
begin

text \<open>
  The order of a walk: reading a hierarchy that is served without errors shows the files of a tree in a
  reference order, a directory before and again after what is below it, and frees every entry.
\<close>

section \<open>One call of \<^verbatim>\<open>fts_read\<close>\<close>

lemma base_prefix: "path \<noteq> [] \<Longrightarrow> prefix path (take (front_len path) path @ [slash])"
  using front_len_nonempty [of path] by auto

lemma below_base: "below path d = (take (front_len path) path @ [slash]) @ d"
  by (simp add: below_def)

lemma instr_id: "ent_instr e = FTS_NOINSTR \<Longrightarrow> e\<lparr>ent_instr := FTS_NOINSTR\<rparr> = e"
  by (cases e) simp

lemma sp_cur_id: "sp_cur sp = c \<Longrightarrow> sp\<lparr>sp_cur := c\<rparr> = sp" "sp_child sp = h \<Longrightarrow> sp\<lparr>sp_child := h\<rparr> = sp"
  by (cases sp; simp)+

lemma live_update: "live es i = Some e \<Longrightarrow> es[i := Some e] = es"
  by (metis live_Some_iff list_update_id)

lemma live_other: "live es i = Some e \<Longrightarrow> i \<noteq> j \<Longrightarrow> live (es[j := x]) i = Some e"
  by (auto simp: live_Some_iff)

lemma show_name_run:
  assumes "live (fw_ents s) c = Some ec" "ent_parent ec = Some p" "live (fw_ents s) p = Some e"
    and "ent_path e = sp_gen (fw_sp s)" "ent_pathlen e = Some (length path)" "ent_name ec = d" "ent_namelen ec = length d"
    and "prefix path (sp_path (fw_sp s))" "path \<noteq> []" "length (below path d) < PATH_MAX" "plain (fw_sp s)"
  shows "\<exists>buf. prefix (below path d @ [NUL]) buf \<and> length buf = PATH_MAX \<and>
    show_name c s = Done (Some c, s\<lparr>fw_sp := (fw_sp s)\<lparr>sp_cur := Some c, sp_path := buf\<rparr>\<rparr>)"
proof -
  let ?k = "front_len path"
  let ?b = "put_at (?k + 1) (d @ [NUL]) ((sp_path (fw_sp s))[?k := slash])"
  have k: "?k + 1 + length d < PATH_MAX" "?k \<le> length path" "length (sp_path (fw_sp s)) = PATH_MAX"
    using assms(10,11) front_len_le [of path] by (simp_all add: below_length plain_def)
  have b: "prefix (take ?k path @ [slash]) ((sp_path (fw_sp s))[?k := slash])"
    by (rule prefix_poke) (use assms(8) k in auto)
  have "prefix (below path d @ [NUL]) ?b"
    using put_at_showing [OF b, of "?k + 1" "d @ [NUL]"] k(2) by (simp add: below_base)
  moreover have "NAPPEND p s = Done (?k, s)" by (rule NAPPEND_run) (use assms in auto)
  ultimately show ?thesis
    using assms(1,2,6,7) k by (intro exI [of _ ?b]) (simp add: show_name_def fop_simps)
qed

lemma read_start:
  assumes "plain (fw_sp s)" "sp_cur (fw_sp s) = Some p" "live (fw_ents s) p = Some e" "ent_instr e = FTS_NOINSTR" "ent_info e = Some info"
  shows "fts_read host s = (if info = FTS_D then enter_dir host p s else fts_next host (Suc (length (fw_ents s))) p s)"
proof -
  have "s\<lparr>fw_ents := (fw_ents s)[p := Some (e\<lparr>ent_instr := FTS_NOINSTR\<rparr>)]\<rparr> = s"
    using assms(3,4) by (simp add: instr_id live_update)
  then show ?thesis using assms
    by (simp add: fts_read_def fop_simps plain_def other_device_def FTS_AGAIN_def FTS_NOINSTR_def FTS_FOLLOW_def FTS_SKIP_def)
qed

lemma read_next:
  assumes "plain (fw_sp s)" "sp_cur (fw_sp s) = Some c" "live (fw_ents s) c = Some ec" "ent_instr ec = FTS_NOINSTR"
    and "ent_info ec = Some info" "info \<noteq> FTS_D" "ent_link ec = Some (Some q)"
    and "live (fw_ents s) q = Some eq" "ent_level eq = Some lv" "lv \<noteq> FTS_ROOTLEVEL" "ent_instr eq = FTS_NOINSTR" "ent_parent eq = Some p"
    and "live (fw_ents s) p = Some e" "ent_path e = sp_gen (fw_sp s)" "ent_pathlen e = Some (length path)"
    and "ent_name eq = d" "ent_namelen eq = length d" "c \<noteq> q" "c \<noteq> p"
    and "prefix path (sp_path (fw_sp s))" "path \<noteq> []" "length (below path d) < PATH_MAX"
  shows "\<exists>buf. prefix (below path d @ [NUL]) buf \<and> length buf = PATH_MAX \<and>
    fts_read host s = Done (Some q, s\<lparr>fw_ents := (fw_ents s)[c := None], fw_sp := (fw_sp s)\<lparr>sp_cur := Some q, sp_path := buf\<rparr>\<rparr>)"
proof -
  let ?s = "s\<lparr>fw_ents := (fw_ents s)[c := None], fw_sp := (fw_sp s)\<lparr>sp_cur := None\<rparr>\<rparr>"
  obtain buf where b: "prefix (below path d @ [NUL]) buf" "length buf = PATH_MAX"
      "show_name q ?s = Done (Some q, ?s\<lparr>fw_sp := (fw_sp ?s)\<lparr>sp_cur := Some q, sp_path := buf\<rparr>\<rparr>)"
    using show_name_run [of ?s q eq p e path d] assms by (auto simp: live_other)
  have "fts_read host s = fts_next host (Suc (length (fw_ents s))) c s"
    using read_start [OF assms(1,2,3,4,5)] assms(6) by simp
  also have "\<dots> = show_name q ?s"
    using assms(2,3,7-11,18) by (simp add: fop_simps check_def live_other FTS_NOINSTR_def FTS_FOLLOW_def FTS_SKIP_def)
  finally show ?thesis using b by (intro exI [of _ buf]) simp
qed

lemma read_up:
  assumes "plain (fw_sp s)" "sp_cur (fw_sp s) = Some c" "live (fw_ents s) c = Some ec" "ent_instr ec = FTS_NOINSTR"
    and "ent_info ec = Some info" "info \<noteq> FTS_D" "ent_link ec = Some None" "ent_parent ec = Some p"
    and "live (fw_ents s) p = Some e" "dir_ent (fw_sp s) path lv e" "c \<noteq> p"
    and "prefix path (sp_path (fw_sp s))" "length path < PATH_MAX"
  shows "fts_read host s = Done (Some p, s\<lparr>fw_ents := (fw_ents s)[c := None, p := Some (e\<lparr>ent_info := Some FTS_DP\<rparr>)],
    fw_sp := (fw_sp s)\<lparr>sp_cur := Some p, sp_path := (sp_path (fw_sp s))[length path := NUL]\<rparr>\<rparr>)"
proof -
  have l: "live ((fw_ents s)[c := None]) p = Some e" using assms(9,11) by (simp add: live_other)
  have len: "length path < length (sp_path (fw_sp s))" using assms(1,13) by (simp add: plain_def)
  have "fts_read host s = fts_next host (Suc (length (fw_ents s))) c s"
    using read_start [OF assms(1,2,3,4,5)] assms(6) by simp
  also have "\<dots> = move_up host p (s\<lparr>fw_ents := (fw_ents s)[c := None], fw_sp := (fw_sp s)\<lparr>sp_cur := None\<rparr>\<rparr>)"
    using assms(2,3,7,8) by (simp add: fop_simps check_def)
  also have "\<dots> = Done (Some p, s\<lparr>fw_ents := (fw_ents s)[c := None, p := Some (e\<lparr>ent_info := Some FTS_DP\<rparr>)],
    fw_sp := (fw_sp s)\<lparr>sp_cur := Some p, sp_path := (sp_path (fw_sp s))[length path := NUL]\<rparr>\<rparr>)"
    using assms(1,10) l len
    by (auto simp: move_up_def leave_dir_def fop_simps dir_ent_def FTS_ROOTLEVEL_def FTS_ROOTPARENTLEVEL_def plain_def)
  finally show ?thesis .
qed


lemma child_ent_sel [simp]:
  "ent_name (child_ent g p lv path st x l) = fst x" "ent_parent (child_ent g p lv path st x l) = Some p"
  "ent_level (child_ent g p lv path st x l) = Some lv" "ent_accpath (child_ent g p lv path st x l) = InPath g"
  "ent_path (child_ent g p lv path st x l) = g" "ent_pathlen (child_ent g p lv path st x l) = Some (length (below path (fst x)))"
  "ent_namelen (child_ent g p lv path st x l) = fts_truncate (length (fst x))" "ent_errno (child_ent g p lv path st x l) = E_OK"
  "ent_instr (child_ent g p lv path st x l) = FTS_NOINSTR" "ent_flags (child_ent g p lv path st x l) = 0"
  "ent_link (child_ent g p lv path st x l) = Some l" "ent_info (child_ent g p lv path st x l) = Some (tree_info (snd x))"
  by (simp_all add: child_ent_def split: prod.split)

lemma child_key:
  "ent_ino (child_ent g p lv path st (d, Folder cs) l) = Some (ws_ino (st (below path d)))"
  "ent_dev (child_ent g p lv path st (d, Folder cs) l) = Some (ws_dev (st (below path d)))"
  by (simp_all add: child_ent_def stat_ent_def)

text \<open>A directory that is read: its first entry is shown, or the directory again when it is empty.\<close>

lemma read_enter:
  assumes "plain (fw_sp s)" "mallocs host" "sp_cur (fw_sp s) = Some p" "live (fw_ents s) p = Some e" "dir_ent (fw_sp s) path lv e"
    and "ent_info e = Some FTS_D" "chain (fw_ents s) p ks" "length ks \<le> length (fw_ents s)" "fserved_all host st ks path cs"
    and "names_served host path (map fst cs)" "prefix (path @ [NUL]) (sp_path (fw_sp s))" "path \<noteq> []" "NUL \<notin> set path" "length path < PATH_MAX"
  shows "\<exists>buf. length buf = PATH_MAX \<and> prefix ((case cs of [] \<Rightarrow> take (front_len path) path | (d, _) # _ \<Rightarrow> below path d) @ [NUL]) buf \<and>
    fts_read host s = Done (Some (if cs = [] then p else length (fw_ents s)),
      s\<lparr>fw_ents := (if cs = [] then (fw_ents s)[p := Some (e\<lparr>ent_info := Some FTS_DP\<rparr>)]
            else fw_ents s @ kids (\<lambda>_. child_ent (sp_gen (fw_sp s)) p (lv + 1) path st) (length (fw_ents s)) cs),
        fw_sp := (fw_sp s)\<lparr>sp_cur := Some (if cs = [] then p else length (fw_ents s)), sp_path := buf\<rparr>\<rparr>)"
proof -
  let ?mk = "child_ent (sp_gen (fw_sp s)) p (lv + 1) path st"
  obtain fd names where h: "filter (\<lambda>d. \<not> ISDOT d) (map fst names) = map fst cs"
      "\<And>w. fh_opendir host path w = (Inr (fd, names), w)" "\<And>w. fh_closedir host fd w = (Inr (), w)"
    using assms(10) by (auto simp: names_served_def)
  have pre: "prefix path (sp_path (fw_sp s))" using assms(11) by (auto simp: prefix_def)
  obtain buf where b: "length buf = PATH_MAX" "prefix (take (front_len path) path @ [if cs = [] then NUL else slash]) buf"
      "build_entries host BREAD p fd names s =
      Done (if cs = [] then None else Some (length (fw_ents s)),
        s\<lparr>fw_ents := (if cs = [] then (fw_ents s)[p := Some (e\<lparr>ent_info := Some FTS_DP\<rparr>)]
            else fw_ents s @ kids (\<lambda>_. ?mk) (length (fw_ents s)) cs),
          fw_sp := (fw_sp s)\<lparr>sp_path := buf\<rparr>\<rparr>)"
    using fts_entries_served [OF assms(1,2,4,5,7,8,9) h(1) h(3) pre assms(12,13,14)] by blast
  have acc: "access p s = Done (path, s)"
    by (rule access_path [OF assms(4) _ assms(11,13)]) (use assms(5) in \<open>simp add: dir_ent_def\<close>)
  have build: "fts_build host BREAD s = build_entries host BREAD p fd names s"
    using assms(3) acc h(2) by (simp add: fts_build_def fop_simps)
  have ni: "ent_instr e = FTS_NOINSTR" using assms(5) by (simp add: dir_ent_def)
  have start: "fts_read host s = enter_dir host p s" using read_start [OF assms(1,3,4) ni assms(6)] by simp
  have flags: "sp_options (fw_sp s) AND FTS_NAMEONLY = 0" "sp_options (fw_sp s) AND FTS_STOP = 0" "sp_child (fw_sp s) = None"
    using assms(1) by (simp_all add: plain_def)
  show ?thesis
  proof (cases cs)
    case Nil
    have "(fw_sp s)\<lparr>sp_cur := Some p, sp_path := buf\<rparr> = (fw_sp s)\<lparr>sp_path := buf\<rparr>" using assms(3) by (cases "fw_sp s") simp
    moreover have "(fw_sp s)\<lparr>sp_path := buf, sp_child := None\<rparr> = (fw_sp s)\<lparr>sp_path := buf\<rparr>" using flags(3) by (cases "fw_sp s") simp
    ultimately show ?thesis using b Nil start build flags by (intro exI [of _ buf]) (simp add: enter_dir_def fop_simps)
  next
    case (Cons x cs')
    obtain d t where x: "x = (d, t)" by (cases x)
    let ?n = "length (fw_ents s)"
    let ?s = "s\<lparr>fw_ents := fw_ents s @ kids (\<lambda>_. ?mk) ?n cs, fw_sp := (fw_sp s)\<lparr>sp_path := buf\<rparr>\<rparr>"
    have len: "length (below path d) < PATH_MAX"
      using assms(9) fserved_file [of host st ks "below path d" t] by (simp add: Cons x file_served_def)
    then have nl: "length d < PATH_MAX" by (simp add: below_length)
    have child: "(fw_sp s)\<lparr>sp_path := buf, sp_child := None\<rparr> = (fw_sp s)\<lparr>sp_path := buf\<rparr>" using flags(3) by (cases "fw_sp s") simp
    have "prefix path buf" using prefix_order.trans [OF base_prefix [OF assms(12)], of buf] b(2) Cons by simp
    then obtain buf' where b': "prefix (below path d @ [NUL]) buf'" "length buf' = PATH_MAX"
        "show_name ?n ?s = Done (Some ?n, ?s\<lparr>fw_sp := (fw_sp ?s)\<lparr>sp_cur := Some ?n, sp_path := buf'\<rparr>\<rparr>)"
      using show_name_run [of ?s ?n "?mk x (if cs' = [] then None else Some (?n + 1))" p e path d] assms(1,4,5,12) len b(1) nl
      by (auto simp: Cons x live_Some_iff nth_append dir_ent_def)
    have "fts_read host s = show_name ?n ?s"
      using b(3) start build flags child Cons by (simp add: enter_dir_def first_child_def fop_simps)
    then show ?thesis using b' Cons x by (intro exI [of _ buf']) simp
  qed
qed

section \<open>A walk\<close>

text \<open>What the caller sees of an entry: the string at \<^verbatim>\<open>fts_path\<close> and \<^verbatim>\<open>fts_info\<close>.\<close>

definition fts_shown :: "eid \<Rightarrow> ('w, string \<times> fts_info) fop" where
  "fts_shown p = bnd (ent p) (\<lambda>e. bnd (look fw_sp) (\<lambda>sp. bnd (need (ent_info e)) (\<lambda>info.
     bnd (if ent_path e = sp_gen sp then fts_string (sp_path sp) else crash) (\<lambda>path. ret (path, info)))))"

fun fts_reads :: "'w fts_host \<Rightarrow> nat \<Rightarrow> ('w, (string \<times> fts_info) list) fop" where
  "fts_reads host 0 = ret []"
| "fts_reads host (Suc n) =
     bnd (fts_read host) (\<lambda>r.
       case r of
         None \<Rightarrow> ret []
       | Some p \<Rightarrow> bnd (fts_shown p) (\<lambda>v. bnd (fts_reads host n) (\<lambda>vs. ret (v # vs))))"

lemma fts_shown_run:
  assumes "live (fw_ents s) p = Some e" "ent_path e = sp_gen (fw_sp s)" "ent_info e = Some info"
    and "prefix (path @ [NUL]) (sp_path (fw_sp s))" "NUL \<notin> set path"
  shows "fts_shown p s = Done ((path, info), s)"
  using assms(1,2,3) by (simp add: fts_shown_def fop_simps fts_string_prefix [OF assms(4,5)])

lemma reads_append:
  "fts_reads host (length vs) s = Done (vs, s1) \<Longrightarrow> fts_reads host m s1 = Done (us, s2) \<Longrightarrow>
    fts_reads host (length vs + m) s = Done (vs @ us, s2)"
proof (induction vs arbitrary: s)
  case (Cons v vs)
  have "\<exists>p sa sb. fts_read host s = Done (Some p, sa) \<and> fts_shown p sa = Done (v, sb) \<and> fts_reads host (length vs) sb = Done (vs, s1)"
    using Cons.prems(1)
    by (auto simp: bnd_def act_bind_Done_iff ret_def split: option.splits)
  then show ?case using Cons.IH [OF _ Cons.prems(2)] by (auto simp: fop_simps)
qed (simp add: fop_simps)


definition fts_walked :: "ftree \<Rightarrow> ftsent \<Rightarrow> ftsent" where
  "fts_walked t e = (case t of Folder _ \<Rightarrow> e\<lparr>ent_info := Some FTS_DP\<rparr> | _ \<Rightarrow> e)"

lemma walked_sel [simp]:
  "ent_link (fts_walked t e) = ent_link e" "ent_parent (fts_walked t e) = ent_parent e" "ent_instr (fts_walked t e) = ent_instr e"
  by (simp_all add: fts_walked_def split: ftree.split)

definition end_path :: "string \<Rightarrow> ftree \<Rightarrow> string" where
  "end_path path t = (case t of Folder cs \<Rightarrow> left_path path cs | _ \<Rightarrow> path)"

text \<open>What is still to be shown of a tree whose first visit is the current entry.\<close>

definition walks :: "'w fts_host \<Rightarrow> (string \<Rightarrow> fts_status) \<Rightarrow> ftree \<Rightarrow> bool" where
  "walks host st t \<longleftrightarrow> (\<forall>s p e path lv ks.
     plain (fw_sp s) \<and> sp_cur (fw_sp s) = Some p \<and> live (fw_ents s) p = Some e \<and> dir_ent (fw_sp s) path lv e \<and>
     ent_info e = Some (tree_info t) \<and> ((\<exists>cs. t = Folder cs) \<longrightarrow> chain (fw_ents s) p (file_key (st path) # ks)) \<and>
     length ks < length (fw_ents s) \<and> fserved host st ks path t \<and> prefix (path @ [NUL]) (sp_path (fw_sp s)) \<and>
     path \<noteq> [] \<and> NUL \<notin> set path \<longrightarrow>
     (\<exists>m buf. prefix (end_path path t) buf \<and> length buf = PATH_MAX \<and>
       fts_reads host (length (tl (fts_visits path t))) s = Done (tl (fts_visits path t),
         s\<lparr>fw_ents := (fw_ents s)[p := Some (fts_walked t e)] @ replicate m None, fw_sp := (fw_sp s)\<lparr>sp_path := buf\<rparr>\<rparr>)))"

lemma visits_first: "fts_visits path t = (path, tree_info t) # tl (fts_visits path t)"
  by (cases t) (auto simp: tree_info_def)

lemma visits_cons: "fts_visits path t @ r = (path, tree_info t) # tl (fts_visits path t @ r)" "tl (fts_visits path t @ r) = tl (fts_visits path t) @ r"
  by (cases t; auto simp: tree_info_def)+

lemma walksD:
  assumes "walks host st t" "plain (fw_sp s)" "sp_cur (fw_sp s) = Some p" "live (fw_ents s) p = Some e" "dir_ent (fw_sp s) path lv e"
    and "ent_info e = Some (tree_info t)" "(\<exists>cs. t = Folder cs) \<longrightarrow> chain (fw_ents s) p (file_key (st path) # ks)"
    and "length ks < length (fw_ents s)" "fserved host st ks path t" "prefix (path @ [NUL]) (sp_path (fw_sp s))"
    and "path \<noteq> []" "NUL \<notin> set path"
  shows "\<exists>m buf. prefix (end_path path t) buf \<and> length buf = PATH_MAX \<and>
    fts_reads host (length (tl (fts_visits path t))) s = Done (tl (fts_visits path t),
      s\<lparr>fw_ents := (fw_ents s)[p := Some (fts_walked t e)] @ replicate m None, fw_sp := (fw_sp s)\<lparr>sp_path := buf\<rparr>\<rparr>)"
  using assms unfolding walks_def by blast

lemma walks_file: "t = File \<or> t = Link \<Longrightarrow> walks host st t"
  unfolding walks_def
proof (intro allI impI, elim conjE)
  fix s :: "'a fts_world" and p e path
  assume t: "t = File \<or> t = Link" and a: "plain (fw_sp s)" "live (fw_ents s) p = Some e" "prefix (path @ [NUL]) (sp_path (fw_sp s))"
  have "s\<lparr>fw_ents := (fw_ents s)[p := Some (fts_walked t e)] @ replicate 0 None, fw_sp := (fw_sp s)\<lparr>sp_path := sp_path (fw_sp s)\<rparr>\<rparr> = s"
    using a(2) t by (cases s) (auto simp: fts_walked_def live_update)
  moreover have "prefix (end_path path t) (sp_path (fw_sp s))" using a(3) t by (auto simp: end_path_def prefix_def)
  ultimately show "\<exists>m buf. prefix (end_path path t) buf \<and> length buf = PATH_MAX \<and>
       fts_reads host (length (tl (fts_visits path t))) s = Done (tl (fts_visits path t),
         s\<lparr>fw_ents := (fw_ents s)[p := Some (fts_walked t e)] @ replicate m None, fw_sp := (fw_sp s)\<lparr>sp_path := buf\<rparr>\<rparr>)"
    using a(1) t by (intro exI [of _ 0] exI [of _ "sp_path (fw_sp s)"]) (auto simp: plain_def ret_def)
qed

text \<open>From the visit of one entry on, over the entries behind it, to the second visit of the directory.\<close>

lemma list_walk:
  assumes "\<And>d t. (d, t) \<in> set cs \<Longrightarrow> walks host st t"
    and "cs \<noteq> []" "fserved_all host st ks path cs" "chain es p ks" "length ks \<le> length es"
    and "live es p = Some e" "dir_ent sp path lv e" "path \<noteq> []" "NUL \<notin> set path" "length path < PATH_MAX"
    and "plain (fw_sp s)" "sp_gen (fw_sp s) = sp_gen sp"
    and "fw_ents s = es @ replicate i None @ kids (\<lambda>_. child_ent (sp_gen sp) p (lv + 1) path st) (length es + i) cs @ replicate m None"
    and "sp_cur (fw_sp s) = Some (length es + i)" "prefix (below path (fst (hd cs)) @ [NUL]) (sp_path (fw_sp s))"
  shows "\<exists>m' buf. prefix (path @ [NUL]) buf \<and> length buf = PATH_MAX \<and>
    (let vs = tl (concat (map (\<lambda>(d, t). fts_visits (below path d) t) cs)) @ [(path, FTS_DP)] in
     fts_reads host (length vs) s = Done (vs,
      s\<lparr>fw_ents := es[p := Some (e\<lparr>ent_info := Some FTS_DP\<rparr>)] @ replicate m' None, fw_sp := (fw_sp s)\<lparr>sp_cur := Some p, sp_path := buf\<rparr>\<rparr>))"
  using assms(1-3,11-15)
proof (induction cs arbitrary: s i m)
  case (Cons x cs)
  obtain d t where x: "x = (d, t)" by (cases x)
  let ?mk = "child_ent (sp_gen sp) p (lv + 1) path st"
  let ?c = "length es + i"
  let ?l = "if cs = [] then None else Some (?c + 1)"
  let ?K = "kids (\<lambda>_. ?mk) (?c + 1) cs"
  let ?vs = "tl (fts_visits (below path d) t)"
  have ents: "fw_ents s = (es @ replicate i None) @ Some (?mk (d, t) ?l) # ?K @ replicate m None" using Cons.prems(6) x by simp
  have live_c: "live (fw_ents s) ?c = Some (?mk (d, t) ?l)" by (simp add: ents live_Some_iff nth_append)
  have upd_c: "(fw_ents s)[?c := y] = es @ replicate i None @ y # ?K @ replicate m None" for y by (simp add: ents list_update_append)
  have p: "p < length es" "es ! p = Some e" using assms(6) by (auto simp: live_Some_iff)
  have srv: "file_name d" "fserved host st ks (below path d) t" "fserved_all host st ks path cs" using Cons.prems(3) x by simp_all
  have len: "length (below path d) < PATH_MAX" using fserved_file [OF srv(2)] by (simp add: file_served_def)
  have dir: "dir_ent (fw_sp s) (below path d) (lv + 1) (?mk (d, t) ?l)"
    using assms(7) Cons.prems(5) by (simp add: dir_ent_def)
  have chain: "(\<exists>cs. t = Folder cs) \<longrightarrow> chain (fw_ents s) ?c (file_key (st (below path d)) # ks)"
  proof
    assume "\<exists>cs. t = Folder cs"
    then obtain cs' where t: "t = Folder cs'" by blast
    have "chain (fw_ents s) p ks" using chain_append [OF assms(4)] by (simp add: ents)
    then show "chain (fw_ents s) ?c (file_key (st (below path d)) # ks)"
      using assms(7) by (simp add: live_c t child_key file_key_def dir_ent_def)
  qed
  have names: "below path d \<noteq> []" "NUL \<notin> set (below path d)"
    using assms(9) srv(1) by (auto simp: below_def file_name_def slash_def NUL_def dest: in_set_takeD)
  have wt: "walks host st t" using Cons.prems(1) [of d t] x by simp
  have few: "length ks < length (fw_ents s)" using assms(5) by (simp add: ents)
  have first: "prefix (below path d @ [NUL]) (sp_path (fw_sp s))" using Cons.prems(8) x by simp
  have info: "ent_info (?mk (d, t) ?l) = Some (tree_info t)" by simp
  obtain m1 buf where w: "prefix (end_path (below path d) t) buf" "length buf = PATH_MAX"
      "fts_reads host (length ?vs) s = Done (?vs,
        s\<lparr>fw_ents := (fw_ents s)[?c := Some (fts_walked t (?mk (d, t) ?l))] @ replicate m1 None, fw_sp := (fw_sp s)\<lparr>sp_path := buf\<rparr>\<rparr>)"
    using walksD [OF wt Cons.prems(4,7) live_c dir info chain few srv(2) first names] by blast
  let ?s1 = "s\<lparr>fw_ents := es @ replicate i None @ Some (fts_walked t (?mk (d, t) ?l)) # ?K @ replicate (m + m1) None, fw_sp := (fw_sp s)\<lparr>sp_path := buf\<rparr>\<rparr>"
  have w1: "fts_reads host (length ?vs) s = Done (?vs, ?s1)" using w(3) by (simp add: upd_c replicate_add)
  have ip: "prefix path buf"
  proof -
    have "last d \<noteq> slash" "d \<noteq> []" using srv(1) by (metis file_name_def last_in_set)+
    then have "last (below path d) \<noteq> slash" by (simp add: below_def)
    then have "front_len (below path d) = length (below path d)" by (simp add: front_len_def)
    then have "prefix (below path d) buf" using w(1) by (simp add: end_path_def left_path_def split: ftree.splits if_splits)
    moreover have "prefix path (below path d)" unfolding below_base by (rule prefix_prefix [OF base_prefix [OF assms(8)]])
    ultimately show ?thesis by (rule prefix_order.trans [rotated])
  qed
  have l1: "live (fw_ents ?s1) ?c = Some (fts_walked t (?mk (d, t) ?l))" "live (fw_ents ?s1) p = Some e"
    using p by (simp_all add: live_Some_iff nth_append)
  have i1: "\<exists>info. ent_info (fts_walked t (?mk (d, t) ?l)) = Some info \<and> info \<noteq> FTS_D"
    by (cases t) (simp_all add: fts_walked_def tree_info_def)
  then obtain info where info: "ent_info (fts_walked t (?mk (d, t) ?l)) = Some info" "info \<noteq> FTS_D" by blast
  have c_p: "?c \<noteq> p" using p by simp
  have plain1: "plain (fw_sp ?s1)" "sp_cur (fw_sp ?s1) = Some ?c" using Cons.prems(4,7) w(2) by simp_all
  have instr: "ent_instr (fts_walked t (?mk (d, t) ?l)) = FTS_NOINSTR" by simp
  have de: "dir_ent (fw_sp ?s1) path lv e" using assms(7) Cons.prems(5) by (simp add: dir_ent_def)
  let ?e = "e\<lparr>ent_info := Some FTS_DP\<rparr>"
  show ?case
  proof (cases cs)
    case Nil
    let ?b = "buf[length path := NUL]"
    let ?s2 = "s\<lparr>fw_ents := es[p := Some ?e] @ replicate (i + 1 + m + m1) None, fw_sp := (fw_sp s)\<lparr>sp_cur := Some p, sp_path := ?b\<rparr>\<rparr>"
    have "es @ replicate i None @ None # replicate (m + m1) None = es @ replicate (i + 1 + m + m1) None"
      by (simp add: replicate_add replicate_app_Cons_same)
    then have ents2: "(fw_ents ?s1)[?c := None, p := Some ?e] = es[p := Some ?e] @ replicate (i + 1 + m + m1) None"
      using p by (simp add: Nil list_update_append)
    have "fts_read host ?s1 = Done (Some p, ?s2)"
      using read_up [OF plain1 l1(1) instr info _ _ l1(2) de c_p _ assms(10), of host] ip ents2 Nil by simp
    moreover have pb: "prefix (path @ [NUL]) ?b" using prefix_poke [OF ip, of "length path" NUL] w(2) assms(10) by simp
    moreover have "fts_shown p ?s2 = Done ((path, FTS_DP), ?s2)"
      by (rule fts_shown_run [where e = ?e]) (use p pb assms(7,9) Cons.prems(5) in \<open>auto simp: live_Some_iff nth_append dir_ent_def\<close>)
    ultimately have "fts_reads host 1 ?s1 = Done ([(path, FTS_DP)], ?s2)" by (simp add: fop_simps)
    from reads_append [OF w1 this] show ?thesis
      using pb w(2) x Nil by (intro exI [of _ "i + 1 + m + m1"] exI [of _ ?b]) simp
  next
    case (Cons y cs')
    obtain d2 t2 where y: "y = (d2, t2)" by (cases y)
    have srv2: "fserved host st ks (below path d2) t2" using srv(3) Cons y by simp
    have len2: "length (below path d2) < PATH_MAX" using fserved_file [OF srv2] by (simp add: file_served_def)
    have dl: "length d2 < PATH_MAX" using len2 by (simp add: below_length)
    let ?q = "?c + 1"
    let ?eq = "?mk y (if cs' = [] then None else Some (?q + 1))"
    have lq: "live (fw_ents ?s1) ?q = Some ?eq" by (simp add: live_Some_iff nth_append Cons)
    have lvl: "lv + 1 \<noteq> FTS_ROOTLEVEL" using assms(7) by (simp add: dir_ent_def FTS_ROOTLEVEL_def)
    have step: "\<exists>buf'. prefix (below path d2 @ [NUL]) buf' \<and> length buf' = PATH_MAX \<and>
        fts_read host ?s1 = Done (Some ?q, ?s1\<lparr>fw_ents := (fw_ents ?s1)[?c := None], fw_sp := (fw_sp ?s1)\<lparr>sp_cur := Some ?q, sp_path := buf'\<rparr>\<rparr>)"
      by (rule read_next [OF plain1 l1(1) instr info _ lq _ lvl _ _ l1(2) _ _ _ _ _ c_p _ assms(8) len2])
        (use de ip Cons y dl in \<open>simp_all add: dir_ent_def\<close>)
    have "(fw_ents ?s1)[?c := None] = es @ replicate (i + 1) None @ ?K @ replicate (m + m1) None"
      by (simp add: list_update_append replicate_app_Cons_same)
    with step obtain buf' where b': "prefix (below path d2 @ [NUL]) buf'" "length buf' = PATH_MAX"
        "fts_read host ?s1 = Done (Some ?q, s\<lparr>fw_ents := es @ replicate (i + 1) None @ ?K @ replicate (m + m1) None,
          fw_sp := (fw_sp s)\<lparr>sp_cur := Some ?q, sp_path := buf'\<rparr>\<rparr>)" by auto
    let ?s2 = "s\<lparr>fw_ents := es @ replicate (i + 1) None @ ?K @ replicate (m + m1) None, fw_sp := (fw_sp s)\<lparr>sp_cur := Some ?q, sp_path := buf'\<rparr>\<rparr>"
    have names2: "NUL \<notin> set (below path d2)"
      using assms(9) srv(3) Cons y by (auto simp: below_def file_name_def slash_def NUL_def dest: in_set_takeD)
    have sh: "fts_shown ?q ?s2 = Done ((below path d2, tree_info t2), ?s2)"
      by (rule fts_shown_run [where e = ?eq]) (use b'(1) names2 Cons y Cons.prems(5) in \<open>simp_all add: live_Some_iff nth_append\<close>)
    let ?us = "tl (concat (map (\<lambda>(d, t). fts_visits (below path d) t) cs)) @ [(path, FTS_DP)]"
    obtain m' bufz where z: "prefix (path @ [NUL]) bufz" "length bufz = PATH_MAX"
        "fts_reads host (length ?us) ?s2 = Done (?us, s\<lparr>fw_ents := es[p := Some ?e] @ replicate m' None, fw_sp := (fw_sp s)\<lparr>sp_cur := Some p, sp_path := bufz\<rparr>\<rparr>)"
    proof -
      have pw: "walks host st t'" if "(d', t') \<in> set cs" for d' t' using Cons.prems(1) [of d' t'] that by simp
      have "\<exists>m' buf. prefix (path @ [NUL]) buf \<and> length buf = PATH_MAX \<and>
        (let vs = tl (concat (map (\<lambda>(d, t). fts_visits (below path d) t) cs)) @ [(path, FTS_DP)] in
         fts_reads host (length vs) ?s2 = Done (vs,
          ?s2\<lparr>fw_ents := es[p := Some ?e] @ replicate m' None, fw_sp := (fw_sp ?s2)\<lparr>sp_cur := Some p, sp_path := buf\<rparr>\<rparr>))"
        by (rule Cons.IH [where i = "i + 1" and m = "m + m1", OF pw _ srv(3)]) (use Cons.prems(4,5) Cons y b'(1,2) in simp_all)
      then show ?thesis using that by (auto simp: Let_def)
    qed
    have "fts_reads host (length ((below path d2, tree_info t2) # ?us)) ?s1 =
        Done ((below path d2, tree_info t2) # ?us, s\<lparr>fw_ents := es[p := Some ?e] @ replicate m' None, fw_sp := (fw_sp s)\<lparr>sp_cur := Some p, sp_path := bufz\<rparr>\<rparr>)"
      using b'(3) sh z(3) by (simp add: fop_simps)
    note * = reads_append [OF w1 this]
    show ?thesis
    proof -
      have "tl (concat (map (\<lambda>(d, t). fts_visits (below path d) t) (x # cs))) = ?vs @ (below path d2, tree_info t2) # tl (concat (map (\<lambda>(d, t). fts_visits (below path d) t) cs))"
        using visits_cons [of "below path d" t] visits_cons [of "below path d2" t2 "concat (map (\<lambda>(d, t). fts_visits (below path d) t) cs')"]
        by (simp add: x y Cons del: append_Cons)
      with * z(1,2) show ?thesis by (intro exI [of _ m'] exI [of _ bufz]) (simp add: Let_def)
    qed
  qed
qed simp


lemma folder_walk:
  assumes "mallocs host" "\<And>d t. (d, t) \<in> set cs \<Longrightarrow> walks host st t"
  shows "walks host st (Folder cs)"
  unfolding walks_def
proof (intro allI impI, elim conjE)
  fix s :: "'a fts_world" and p e path lv ks
  let ?key = "file_key (st path)"
  assume a: "plain (fw_sp s)" "sp_cur (fw_sp s) = Some p" "live (fw_ents s) p = Some e" "dir_ent (fw_sp s) path lv e"
      "ent_info e = Some (tree_info (Folder cs))" "length ks < length (fw_ents s)" "fserved host st ks path (Folder cs)"
      "prefix (path @ [NUL]) (sp_path (fw_sp s))" "path \<noteq> []" "NUL \<notin> set path"
    and "(\<exists>cs'. Folder cs = Folder cs') \<longrightarrow> chain (fw_ents s) p (?key # ks)"
  then have ch: "chain (fw_ents s) p (?key # ks)" and few: "length (?key # ks) \<le> length (fw_ents s)" by auto
  have srv: "fserved_all host st (?key # ks) path cs" "names_served host path (map fst cs)" "length path < PATH_MAX"
    using a(7) by (simp_all add: file_served_def)
  have D: "ent_info e = Some FTS_D" using a(5) by (simp add: tree_info_def)
  let ?mk = "child_ent (sp_gen (fw_sp s)) p (lv + 1) path st"
  let ?n = "length (fw_ents s)"
  obtain buf where b: "length buf = PATH_MAX" "prefix ((case cs of [] \<Rightarrow> take (front_len path) path | (d, _) # _ \<Rightarrow> below path d) @ [NUL]) buf"
      "fts_read host s = Done (Some (if cs = [] then p else ?n),
      s\<lparr>fw_ents := (if cs = [] then (fw_ents s)[p := Some (e\<lparr>ent_info := Some FTS_DP\<rparr>)] else fw_ents s @ kids (\<lambda>_. ?mk) ?n cs),
        fw_sp := (fw_sp s)\<lparr>sp_cur := Some (if cs = [] then p else ?n), sp_path := buf\<rparr>\<rparr>)"
    using read_enter [OF a(1) assms(1) a(2,3,4) D ch few srv(1,2) a(8,9,10) srv(3)] by blast
  let ?vs = "tl (fts_visits path (Folder cs))"
  show "\<exists>m buf. prefix (end_path path (Folder cs)) buf \<and> length buf = PATH_MAX \<and>
       fts_reads host (length ?vs) s = Done (?vs,
         s\<lparr>fw_ents := (fw_ents s)[p := Some (fts_walked (Folder cs) e)] @ replicate m None, fw_sp := (fw_sp s)\<lparr>sp_path := buf\<rparr>\<rparr>)"
  proof (cases cs)
    case Nil
    let ?e = "e\<lparr>ent_info := Some FTS_DP\<rparr>"
    let ?s = "s\<lparr>fw_ents := (fw_ents s)[p := Some ?e], fw_sp := (fw_sp s)\<lparr>sp_path := buf\<rparr>\<rparr>"
    have sp: "(fw_sp s)\<lparr>sp_cur := Some p, sp_path := buf\<rparr> = (fw_sp s)\<lparr>sp_path := buf\<rparr>" using a(2) by (cases "fw_sp s") simp
    have pre: "prefix (take (front_len path) path @ [NUL]) buf" using b(2) Nil by simp
    have "fts_shown p ?s = Done ((take (front_len path) path, FTS_DP), ?s)"
      by (rule fts_shown_run [where e = ?e]) (use a(3,4,10) pre in \<open>auto simp: live_Some_iff dir_ent_def dest: in_set_takeD\<close>)
    moreover have "fts_read host s = Done (Some p, ?s)" using b(3) Nil sp by simp
    moreover have "prefix (take (front_len path) path) buf" using pre by (auto simp: prefix_def)
    ultimately show ?thesis using b(1) Nil
      by (intro exI [of _ 0] exI [of _ buf]) (simp add: fop_simps left_path_def end_path_def fts_walked_def)
  next
    case (Cons x cs')
    obtain d t where x: "x = (d, t)" by (cases x)
    let ?s = "s\<lparr>fw_ents := fw_ents s @ kids (\<lambda>_. ?mk) ?n cs, fw_sp := (fw_sp s)\<lparr>sp_cur := Some ?n, sp_path := buf\<rparr>\<rparr>"
    let ?us = "tl (concat (map (\<lambda>(d, t). fts_visits (below path d) t) cs)) @ [(path, FTS_DP)]"
    have pre: "prefix (below path d @ [NUL]) buf" using b(2) Cons x by simp
    have fn: "file_name d" using srv(1) Cons x by simp
    have nul: "NUL \<notin> set (below path d)"
      using a(10) fn by (auto simp: below_def file_name_def slash_def NUL_def dest: in_set_takeD)
    have sh: "fts_shown ?n ?s = Done ((below path d, tree_info t), ?s)"
      by (rule fts_shown_run [where e = "?mk x (if cs' = [] then None else Some (?n + 1))"])
        (use pre nul Cons x in \<open>simp_all add: live_Some_iff nth_append\<close>)
    have "\<exists>m' buf. prefix (path @ [NUL]) buf \<and> length buf = PATH_MAX \<and>
      (let vs = ?us in fts_reads host (length vs) ?s = Done (vs,
        ?s\<lparr>fw_ents := (fw_ents s)[p := Some (e\<lparr>ent_info := Some FTS_DP\<rparr>)] @ replicate m' None, fw_sp := (fw_sp ?s)\<lparr>sp_cur := Some p, sp_path := buf\<rparr>\<rparr>))"
      by (rule list_walk [OF assms(2) _ srv(1) ch few a(3,4,9,10) srv(3), where i = 0 and m = 0])
        (use a(1) b(1) pre Cons x in simp_all)
    then obtain m bufz where z: "prefix (path @ [NUL]) bufz" "length bufz = PATH_MAX"
        "fts_reads host (length ?us) ?s = Done (?us, s\<lparr>fw_ents := (fw_ents s)[p := Some (e\<lparr>ent_info := Some FTS_DP\<rparr>)] @ replicate m None,
          fw_sp := (fw_sp s)\<lparr>sp_cur := Some p, sp_path := bufz\<rparr>\<rparr>)" by (auto simp: Let_def)
    have sp: "(fw_sp s)\<lparr>sp_cur := Some p, sp_path := bufz\<rparr> = (fw_sp s)\<lparr>sp_path := bufz\<rparr>" using a(2) by (cases "fw_sp s") simp
    have vs: "?vs = (below path d, tree_info t) # ?us"
      using visits_cons [of "below path d" t "concat (map (\<lambda>(d, t). fts_visits (below path d) t) cs')"]
      by (simp add: Cons x left_path_def del: append_Cons)
    have "prefix path bufz" using z(1) by (auto simp: prefix_def)
    then show ?thesis unfolding vs using b(3) sh z sp Cons
      by (intro exI [of _ m] exI [of _ bufz]) (simp add: fop_simps end_path_def left_path_def fts_walked_def)
  qed
qed

lemma tree_walks: "mallocs host \<Longrightarrow> walks host st t"
proof (induction t)
  case (Folder cs)
  have "walks host st t" if "(d, t) \<in> set cs" for d t using Folder.IH [OF that] Folder.prems by simp
  then show ?case by (rule folder_walk [OF Folder.prems])
qed (simp_all add: walks_file)


section \<open>The arguments\<close>

text \<open>The entry of an argument before it is shown, and what \<^verbatim>\<open>fts_load\<close> makes of it.\<close>

definition arg_ent :: "nat \<Rightarrow> eid \<Rightarrow> (string \<Rightarrow> fts_status) \<Rightarrow> eid \<Rightarrow> (string \<times> ftree) \<Rightarrow> eid option \<Rightarrow> ftsent" where
  "arg_ent g r st k x l =
     (case x of (a, t) \<Rightarrow>
        (stat_ent (st a) t ((new_ent False g a)\<lparr>ent_level := Some FTS_ROOTLEVEL, ent_parent := Some r, ent_accpath := NameOf k\<rparr>))
          \<lparr>ent_info := Some (tree_info t), ent_link := Some l\<rparr>)"

lemma arg_ent_sel [simp]:
  "ent_name (arg_ent g r st k x l) = fst x" "ent_parent (arg_ent g r st k x l) = Some r"
  "ent_level (arg_ent g r st k x l) = Some FTS_ROOTLEVEL" "ent_path (arg_ent g r st k x l) = g"
  "ent_namelen (arg_ent g r st k x l) = fts_truncate (length (fst x))" "ent_errno (arg_ent g r st k x l) = E_OK"
  "ent_instr (arg_ent g r st k x l) = FTS_NOINSTR" "ent_flags (arg_ent g r st k x l) = 0"
  "ent_link (arg_ent g r st k x l) = Some l" "ent_info (arg_ent g r st k x l) = Some (tree_info (snd x))"
  by (simp_all add: arg_ent_def split: prod.split)

lemma arg_key:
  "ent_ino (arg_ent g r st k (a, Folder cs) l) = Some (ws_ino (st a))"
  "ent_dev (arg_ent g r st k (a, Folder cs) l) = Some (ws_dev (st a))"
  by (simp_all add: arg_ent_def stat_ent_def)

definition arg_ok :: "'w fts_host \<Rightarrow> (string \<Rightarrow> fts_status) \<Rightarrow> string \<times> ftree \<Rightarrow> bool" where
  "arg_ok host st x \<longleftrightarrow> fst x \<noteq> [] \<and> NUL \<notin> set (fst x) \<and> fserved host st [] (fst x) (snd x)"

lemma root_ent_served:
  assumes "mallocs host" "sp_options (fw_sp s) AND FTS_LOGICAL = 0" "sp_options (fw_sp s) AND FTS_NOSTAT = 0" "sp_options (fw_sp s) AND FTS_COMFOLLOW = 0"
    and "arg_ok host st (a, t)" "live (fw_ents s) r = Some e" "ent_level e = Some FTS_ROOTPARENTLEVEL"
  shows "\<exists>e'. root_ent host r a s = Done (Some (length (fw_ents s)), s\<lparr>fw_ents := fw_ents s @ [Some e']\<rparr>) \<and>
    (\<forall>l. e'\<lparr>ent_link := Some l\<rparr> = arg_ent (sp_gen (fw_sp s)) r st (length (fw_ents s)) (a, t) l)"
proof -
  let ?p = "length (fw_ents s)"
  let ?e = "(new_ent False (sp_gen (fw_sp s)) a)\<lparr>ent_level := Some FTS_ROOTLEVEL, ent_parent := Some r, ent_accpath := NameOf ?p\<rparr>"
  let ?s = "s\<lparr>fw_ents := fw_ents s @ [Some ?e]\<rparr>"
  have arg: "a \<noteq> []" "file_served host (st a) a t" using assms(5) fserved_file by (auto simp: arg_ok_def)
  have lv: "live (fw_ents s @ [Some y]) ?p = Some y" for y by (simp add: live_Some_iff)
  have acc: "access ?p ?s = Done (a, ?s)" by (simp add: access_def fop_simps lv)
  have "fts_stat host ?p False ?s = Done (if ISDOT (ent_name ?e) \<and> (\<exists>cs. t = Folder cs) then FTS_DOT else tree_info t,
      ?s\<lparr>fw_ents := (fw_ents ?s)[?p := Some (stat_ent (st a) t ?e)]\<rparr>)"
  proof (rule stat_found [OF _ acc arg(2), where q = r and ks = "[]"])
    show "chain ((fw_ents ?s)[?p := Some e']) r []" for e'
      using assms(6,7) live_append [OF assms(6), of "[Some e']"] by simp
  qed (use assms(2,3) lv in simp_all)
  then have stat: "fts_stat host ?p False ?s = Done (if ISDOT a \<and> (\<exists>cs. t = Folder cs) then FTS_DOT else tree_info t,
      s\<lparr>fw_ents := fw_ents s @ [Some (stat_ent (st a) t ?e)]\<rparr>)" by simp
  have info: "(if (if ISDOT a \<and> (\<exists>cs. t = Folder cs) then FTS_DOT else tree_info t) = FTS_DOT then FTS_D
      else if ISDOT a \<and> (\<exists>cs. t = Folder cs) then FTS_DOT else tree_info t) = tree_info t"
    by (auto simp: tree_info_def split: ftree.splits)
  let ?e2 = "(stat_ent (st a) t ?e)\<lparr>ent_info := Some (tree_info t)\<rparr>"
  have "root_ent host r a s = Done (Some ?p, s\<lparr>fw_ents := fw_ents s @ [Some ?e2]\<rparr>)"
    using alloc_run [OF assms(1,3), of a] arg(1) lv stat info assms(4) by (simp add: root_ent_def fop_simps)
  then show ?thesis by (auto simp: arg_ent_def)
qed

lemma open_roots_served:
  assumes "mallocs host" "sp_options (fw_sp s) AND FTS_LOGICAL = 0" "sp_options (fw_sp s) AND FTS_NOSTAT = 0" "sp_options (fw_sp s) AND FTS_COMFOLLOW = 0"
    and "\<And>x. x \<in> set xs \<Longrightarrow> arg_ok host st x" "live es r = Some e" "ent_level e = Some FTS_ROOTPARENTLEVEL"
    and "mk = arg_ent (sp_gen (fw_sp s)) r st" "fw_ents s = es @ kids mk (length es) ds"
  shows "open_roots host r False (map fst xs) (if ds = [] then None else Some (length es)) (if ds = [] then None else Some (length es + length ds - 1)) s =
    Done (Inr (if ds @ xs = [] then None else Some (length es)), s\<lparr>fw_ents := es @ kids mk (length es) (ds @ xs)\<rparr>)"
  using assms(2-5,8,9)
proof (induction xs arbitrary: ds s)
  case Nil
  then have "s\<lparr>fw_ents := es @ kids mk (length es) ds\<rparr> = s" by (cases s) simp
  then show ?case by (simp add: fop_simps)
next
  case (Cons x xs)
  obtain a t where x: "x = (a, t)" by (cases x)
  let ?p = "length es + length ds"
  let ?K = "kids mk (length es) ds"
  have ok: "arg_ok host st (a, t)" using Cons.prems(4) [of x] x by simp
  have lr: "live (fw_ents s) r = Some e" using live_append [OF assms(6)] Cons.prems(6) by simp
  obtain e' where e': "root_ent host r a s = Done (Some ?p, s\<lparr>fw_ents := es @ ?K @ [Some e']\<rparr>)" "\<And>l. e'\<lparr>ent_link := Some l\<rparr> = mk ?p (a, t) l"
    using root_ent_served [OF assms(1) Cons.prems(1,2,3) ok lr assms(7)] Cons.prems(5,6) by auto
  have relink: "(mk k x l)\<lparr>ent_link := Some l'\<rparr> = mk k x l'" for k x l l'
    by (cases x) (simp add: Cons.prems(5) arg_ent_def)
  have p: "live (es @ ?K @ [Some y]) ?p = Some y" "(es @ ?K @ [Some y])[?p := z] = es @ ?K @ [z]" for y z
    by (simp_all add: live_Some_iff nth_append list_update_append)
  let ?s = "s\<lparr>fw_ents := es @ kids mk (length es) (ds @ [x])\<rparr>"
  have "open_roots host r False (map fst (x # xs)) (if ds = [] then None else Some (length es)) (if ds = [] then None else Some (?p - 1)) s =
      open_roots host r False (map fst xs) (Some (length es)) (Some ?p) ?s"
  proof (cases "ds = []")
    case True
    then show ?thesis using e' p by (simp add: x fop_simps)
  next
    case False
    obtain k where k: "?p = k + 1" "length es + length ds - 1 = k" using False by (cases ds) auto
    show ?thesis
      using e' p kids_last [OF False, of k es mk] kids_more [OF False, of k "length es" mk x] k False relink
      by (simp add: x fop_simps)
  qed
  also have "\<dots> = Done (Inr (Some (length es)), s\<lparr>fw_ents := es @ kids mk (length es) (ds @ x # xs)\<rparr>)"
    using Cons.IH [of ?s "ds @ [x]"] Cons.prems(1-5) by simp
  finally show ?case by simp
qed


lemma maxarglen_bound: "(\<And>a. a \<in> set argv \<Longrightarrow> length a < n) \<Longrightarrow> 0 < n \<Longrightarrow> fts_maxarglen argv \<le> n"
proof -
  have "foldl (\<lambda>m a. if m < length a then length a else m) k argv < n"
    if "\<And>a. a \<in> set argv \<Longrightarrow> length a < n" "k < n" for k
    using that by (induction argv arbitrary: k) auto
  then show "(\<And>a. a \<in> set argv \<Longrightarrow> length a < n) \<Longrightarrow> 0 < n \<Longrightarrow> fts_maxarglen argv \<le> n"
    by (simp add: fts_maxarglen_def Suc_leI)
qed

lemma pow2_PATH_MAX: "unat (fts_pow2 (of_nat PATH_MAX)) = PATH_MAX"
  by (simp add: fts_pow2_def PATH_MAX_def Let_def)

lemma palloc_PATH_MAX:
  assumes "\<And>w. fh_realloc host PATH_MAX w = (Inr moved, w)"
  shows "\<exists>buf. length buf = PATH_MAX \<and> fts_palloc host PATH_MAX s = Done (False, s\<lparr>fw_sp := (fw_sp s)\<lparr>sp_path := buf,
    sp_gen := (if moved then sp_gen (fw_sp s) + 1 else sp_gen (fw_sp s)), sp_pathlen := PATH_MAX\<rparr>\<rparr>)"
proof -
  have "fts_truncate PATH_MAX = PATH_MAX" by (simp add: fts_truncate_def PATH_MAX_def)
  then show ?thesis
    by (intro exI [of _ "map (\<lambda>k. if k < length (sp_path (fw_sp s)) then sp_path (fw_sp s) ! k else fh_fresh host k) [0..<PATH_MAX]"])
      (simp add: fts_palloc_def pow2_PATH_MAX fop_simps assms)
qed

definition walk_options :: "32 word" where
  "walk_options = FTS_PHYSICAL OR FTS_NOCHDIR"

lemma walk_options_bits [simp]:
  "walk_options AND NOT FTS_OPTIONMASK = 0" "walk_options AND FTS_LOGICAL = 0" "walk_options AND FTS_NOSTAT = 0"
  "walk_options AND FTS_COMFOLLOW = 0" "walk_options AND FTS_SEEDOT = 0" "walk_options AND FTS_XDEV = 0"
  "walk_options AND FTS_NAMEONLY = 0" "walk_options AND FTS_STOP = 0" "walk_options AND FTS_NOCHDIR \<noteq> 0"
  by (simp_all add: walk_options_def FTS_PHYSICAL_def FTS_NOCHDIR_def FTS_OPTIONMASK_def FTS_LOGICAL_def FTS_NOSTAT_def
    FTS_COMFOLLOW_def FTS_SEEDOT_def FTS_XDEV_def FTS_NAMEONLY_def FTS_STOP_def)

lemma fts_open_served:
  assumes "mallocs host" "\<And>w. fh_realloc host PATH_MAX w = (Inr moved, w)" "xs \<noteq> []" "\<And>x. x \<in> set xs \<Longrightarrow> arg_ok host st x"
  shows "\<exists>sp P D. plain sp \<and> sp_cur sp = Some (length (fw_ents s) + 1 + length xs) \<and> ent_level P = Some FTS_ROOTPARENTLEVEL \<and>
    ent_link D = Some (Some (length (fw_ents s) + 1)) \<and> ent_info D = Some FTS_INIT \<and> ent_instr D = FTS_NOINSTR \<and>
    fts_open host (map fst xs) walk_options None s = Done (True, s\<lparr>fw_ents :=
      (fw_ents s @ [Some P]) @ kids (arg_ent (sp_gen sp) (length (fw_ents s)) st) (length (fw_ents s) + 1) xs @ [Some D], fw_sp := sp\<rparr>)"
proof -
  let ?E = "fw_ents s"
  let ?r = "length ?E"
  let ?sp0 = "(zero_fts (sp_gen (fw_sp s)))\<lparr>sp_compar := None, sp_options := walk_options\<rparr>"
  have "length a < PATH_MAX" if "a \<in> set (map fst xs)" for a
    using that assms(4) fserved_file by (fastforce simp: arg_ok_def file_served_def)
  then have "fts_maxarglen (map fst xs) \<le> PATH_MAX" by (rule maxarglen_bound) (simp_all add: PATH_MAX_def)
  then have max: "max (fts_maxarglen (map fst xs)) PATH_MAX = PATH_MAX" by simp
  obtain buf where b: "length buf = PATH_MAX" "fts_palloc host PATH_MAX (s\<lparr>fw_sp := ?sp0\<rparr>) = Done (False, s\<lparr>fw_sp := ?sp0\<lparr>sp_path := buf,
      sp_gen := (if moved then sp_gen (fw_sp s) + 1 else sp_gen (fw_sp s)), sp_pathlen := PATH_MAX\<rparr>\<rparr>)"
    using palloc_PATH_MAX [OF assms(2), of "s\<lparr>fw_sp := ?sp0\<rparr>"] by (auto simp: zero_fts_def)
  let ?g = "if moved then sp_gen (fw_sp s) + 1 else sp_gen (fw_sp s)"
  let ?sp = "?sp0\<lparr>sp_path := buf, sp_gen := ?g, sp_pathlen := PATH_MAX\<rparr>"
  have sp: "sp_options ?sp = walk_options" "sp_gen ?sp = ?g" "sp_compar ?sp = None" "plain ?sp"
    using b(1) by (simp_all add: plain_def zero_fts_def)
  let ?P = "(new_ent False ?g [])\<lparr>ent_level := Some FTS_ROOTPARENTLEVEL\<rparr>"
  let ?es = "?E @ [Some ?P]"
  let ?mk = "arg_ent ?g ?r st"
  let ?c = "length ?E + 1 + length xs"
  let ?D = "(new_ent False ?g [])\<lparr>ent_link := Some (Some (length ?E + 1)), ent_info := Some FTS_INIT\<rparr>"
  let ?s1 = "s\<lparr>fw_ents := ?es, fw_sp := ?sp\<rparr>"
  let ?s2 = "s\<lparr>fw_ents := ?es @ kids ?mk (length ?es) xs, fw_sp := ?sp\<rparr>"
  have lr: "live (?E @ [Some y]) ?r = Some y" "(?E @ [x])[?r := y'] = ?E @ [y']" for x y y' by (simp_all add: live_Some_iff)
  have roots: "open_roots host ?r False (map fst xs) None None ?s1 = Done (Inr (Some (length ?es)), ?s2)"
    using open_roots_served [where s = ?s1 and es = ?es and r = ?r and ds = "[]" and xs = xs and st = st and host = host and mk = ?mk and e = ?P]
      assms(1,3,4) sp lr by simp
  have c: "live (?es @ kids ?mk (length ?es) xs @ [Some y]) ?c = Some y"
      "(?es @ kids ?mk (length ?es) xs @ [x])[?c := y'] = ?es @ kids ?mk (length ?es) xs @ [y']" for x y y'
    by (simp_all add: live_Some_iff nth_append list_update_append)
  have al: "fts_alloc host n (s\<lparr>fw_sp := ?sp\<rparr>) = Done (Some (length ?E), s\<lparr>fw_ents := ?E @ [Some (new_ent False ?g n)], fw_sp := ?sp\<rparr>)" for n
    using alloc_run [OF assms(1), of "s\<lparr>fw_sp := ?sp\<rparr>"] sp by (simp add: ents_first)
  have al2: "fts_alloc host n ?s2 = Done (Some ?c, s\<lparr>fw_ents := ?es @ kids ?mk (length ?es) xs @ [Some (new_ent False ?g n)], fw_sp := ?sp\<rparr>)" for n
    using alloc_run [OF assms(1), of ?s2] sp by simp
  have "fts_open host (map fst xs) walk_options None s = open_start host ?r (length xs) (Some (length ?es)) ?s2"
    using assms(1,3) max b(2) al lr roots sp
    by (simp add: fts_open_def fop_simps mallocs_def)
  also have "\<dots> = Done (True, s\<lparr>fw_ents := ?es @ kids ?mk (length ?es) xs @ [Some ?D], fw_sp := ?sp\<lparr>sp_cur := Some ?c\<rparr>\<rparr>)"
    using al2 c assms(3) sp by (simp add: open_start_def fop_simps)
  finally show ?thesis using sp(2,4)
    by (intro exI [of _ "?sp\<lparr>sp_cur := Some ?c\<rparr>"] exI [of _ ?P] exI [of _ ?D]) simp
qed


definition loaded :: "nat \<Rightarrow> ftsent \<Rightarrow> ftsent" where
  "loaded g e =
     (let cut = slash \<in> set (ent_name e) \<and> ent_name e \<noteq> [slash] in
      e\<lparr>ent_pathlen := Some (ent_namelen e), ent_name := (if cut then last_component (ent_name e) else ent_name e),
        ent_namelen := (if cut then fts_truncate (length (last_component (ent_name e))) else ent_namelen e),
        ent_accpath := InPath g, ent_path := g\<rparr>)"

lemma loaded_sel [simp]:
  "ent_parent (loaded g e) = ent_parent e" "ent_level (loaded g e) = ent_level e" "ent_path (loaded g e) = g"
  "ent_accpath (loaded g e) = InPath g" "ent_pathlen (loaded g e) = Some (ent_namelen e)" "ent_errno (loaded g e) = ent_errno e"
  "ent_instr (loaded g e) = ent_instr e" "ent_flags (loaded g e) = ent_flags e" "ent_link (loaded g e) = ent_link e"
  "ent_info (loaded g e) = ent_info e" "ent_ino (loaded g e) = ent_ino e" "ent_dev (loaded g e) = ent_dev e"
  by (simp_all add: loaded_def Let_def)

lemma plain_dev [simp]: "plain (sp\<lparr>sp_dev := d\<rparr>) = plain sp"
  by (simp add: plain_def)

lemma read_root:
  assumes "plain (fw_sp s)" "sp_cur (fw_sp s) = Some c" "live (fw_ents s) c = Some ec" "ent_instr ec = FTS_NOINSTR"
    and "ent_info ec = Some info" "info \<noteq> FTS_D" "ent_link ec = Some (Some q)" "c \<noteq> q"
    and "live (fw_ents s) q = Some eq" "ent_level eq = Some FTS_ROOTLEVEL" "ent_namelen eq = length a" "ent_name eq = a" "length a < PATH_MAX"
  shows "\<exists>sp. plain sp \<and> sp_gen sp = sp_gen (fw_sp s) \<and> sp_cur sp = Some q \<and> prefix (a @ [NUL]) (sp_path sp) \<and>
    fts_read host s = Done (Some q, s\<lparr>fw_ents := (fw_ents s)[c := None, q := Some (loaded (sp_gen (fw_sp s)) eq)], fw_sp := sp\<rparr>)"
proof -
  let ?sp = "(fw_sp s)\<lparr>sp_cur := Some q, sp_path := put_at 0 (a @ [NUL]) (sp_path (fw_sp s)), sp_dev := ent_dev eq\<rparr>"
  have len: "length (sp_path (fw_sp s)) = PATH_MAX" using assms(1) by (simp add: plain_def)
  have l: "live ((fw_ents s)[c := None]) q = Some eq" using assms(8,9) by (simp add: live_other)
  have "fts_read host s = fts_next host (Suc (length (fw_ents s))) c s"
    using read_start [OF assms(1,2,3,4,5)] assms(6) by simp
  also have "\<dots> = Done (Some q, s\<lparr>fw_ents := (fw_ents s)[c := None, q := Some (loaded (sp_gen (fw_sp s)) eq)], fw_sp := ?sp\<rparr>)"
    using assms(1,2,3,7,10-13) l len
    by (simp add: fop_simps check_def fts_load_def Let_def loaded_def)
  finally have "fts_read host s = \<dots>" .
  moreover have "prefix (a @ [NUL]) (put_at 0 (a @ [NUL]) (sp_path (fw_sp s)))" by (simp add: put_at_def)
  moreover have "length (put_at 0 (a @ [NUL]) (sp_path (fw_sp s))) = PATH_MAX" using len assms(13) by simp
  ultimately show ?thesis using assms(1) by (intro exI [of _ ?sp]) simp
qed

lemma read_end:
  assumes "plain (fw_sp s)" "sp_cur (fw_sp s) = Some c" "live (fw_ents s) c = Some ec" "ent_instr ec = FTS_NOINSTR"
    and "ent_info ec = Some info" "info \<noteq> FTS_D" "ent_link ec = Some None" "ent_parent ec = Some r" "c \<noteq> r"
    and "live (fw_ents s) r = Some P" "ent_level P = Some FTS_ROOTPARENTLEVEL"
  shows "fts_read host s = Done (None, s\<lparr>fw_ents := (fw_ents s)[c := None, r := None], fw_errno := E_OK, fw_sp := (fw_sp s)\<lparr>sp_cur := None\<rparr>\<rparr>)"
proof -
  have l: "live ((fw_ents s)[c := None]) r = Some P" using assms(9,10) by (simp add: live_other)
  have "fts_read host s = fts_next host (Suc (length (fw_ents s))) c s"
    using read_start [OF assms(1,2,3,4,5)] assms(6) by simp
  also have "\<dots> = Done (None, s\<lparr>fw_ents := (fw_ents s)[c := None, r := None], fw_errno := E_OK, fw_sp := (fw_sp s)\<lparr>sp_cur := None\<rparr>\<rparr>)"
    using assms(2,3,7,8,11) l by (cases s) (simp add: fop_simps check_def move_up_def)
  finally show ?thesis .
qed

lemma roots_walk:
  assumes "mallocs host" "\<And>x. x \<in> set xs \<Longrightarrow> arg_ok host st x" "xs \<noteq> []" "ent_level P = Some FTS_ROOTPARENTLEVEL"
    and "plain (fw_sp s)" "mk = arg_ent (sp_gen (fw_sp s)) (length E) st" "k = length E + 1 + i"
    and "fw_ents s = E @ [Some P] @ replicate i None @ Some (loaded (sp_gen (fw_sp s)) (mk k (hd xs) (if tl xs = [] then None else Some (k + 1)))) #
      kids mk (k + 1) (tl xs) @ replicate m None"
    and "sp_cur (fw_sp s) = Some k" "prefix (fst (hd xs) @ [NUL]) (sp_path (fw_sp s))"
  shows "\<exists>m' sp. sp_cur sp = None \<and> plain sp \<and>
    (let vs = tl (concat (map (\<lambda>(a, t). fts_visits a t) xs)) in
     fts_reads host (length vs + Suc j) s = Done (vs, s\<lparr>fw_ents := E @ replicate m' None, fw_errno := E_OK, fw_sp := sp\<rparr>))"
  using assms(2,3,5-10)
proof (induction xs arbitrary: s k i m)
  case (Cons x xs)
  obtain a t where x: "x = (a, t)" by (cases x)
  let ?g = "sp_gen (fw_sp s)"
  let ?l = "if xs = [] then None else Some (k + 1)"
  let ?e = "loaded ?g (mk k (a, t) ?l)"
  let ?K = "kids mk (k + 1) xs"
  let ?vs = "tl (fts_visits a t)"
  have mk: "mk = arg_ent ?g (length E) st" by (rule Cons.prems(4))
  have ok: "a \<noteq> []" "NUL \<notin> set a" "fserved host st [] a t" using Cons.prems(1) [of x] by (simp_all add: x arg_ok_def)
  have len: "length a < PATH_MAX" using fserved_file [OF ok(3)] by (simp add: file_served_def)
  have ents: "fw_ents s = (E @ [Some P] @ replicate i None) @ Some ?e # ?K @ replicate m None" using Cons.prems(6) x by simp
  have k: "k = length (E @ [Some P] @ replicate i None)" using Cons.prems(5) by simp
  have live_k: "live (fw_ents s) k = Some ?e" unfolding ents k by (simp add: live_Some_iff nth_append)
  have upd_k: "(fw_ents s)[k := y] = E @ [Some P] @ replicate i None @ y # ?K @ replicate m None" for y
    unfolding ents k by (simp add: list_update_append)
  have dir: "dir_ent (fw_sp s) a FTS_ROOTLEVEL ?e" using len by (simp add: dir_ent_def mk)
  have live_r: "live (E @ Some P # zs) (length E) = Some P" for zs by (simp add: live_Some_iff)
  have chain: "(\<exists>cs. t = Folder cs) \<longrightarrow> chain (fw_ents s) k [file_key (st a)]"
  proof
    assume "\<exists>cs. t = Folder cs"
    then show "chain (fw_ents s) k [file_key (st a)]"
      using live_k live_r assms(4) by (auto simp: mk arg_key file_key_def ents)
  qed
  have few: "length ([] :: (64 word \<times> 64 word) list) < length (fw_ents s)" by (simp add: ents)
  have first: "prefix (a @ [NUL]) (sp_path (fw_sp s))" using Cons.prems(8) x by simp
  have info: "ent_info ?e = Some (tree_info t)" by (simp add: mk)
  obtain m1 buf where w: "length buf = PATH_MAX"
      "fts_reads host (length ?vs) s = Done (?vs, s\<lparr>fw_ents := (fw_ents s)[k := Some (fts_walked t ?e)] @ replicate m1 None, fw_sp := (fw_sp s)\<lparr>sp_path := buf\<rparr>\<rparr>)"
    using walksD [OF tree_walks [OF assms(1)] Cons.prems(3,7) live_k dir info chain few ok(3) first ok(1,2)] by blast
  let ?s1 = "s\<lparr>fw_ents := E @ [Some P] @ replicate i None @ Some (fts_walked t ?e) # ?K @ replicate (m + m1) None, fw_sp := (fw_sp s)\<lparr>sp_path := buf\<rparr>\<rparr>"
  have w1: "fts_reads host (length ?vs) s = Done (?vs, ?s1)" using w(2) by (simp add: upd_k replicate_add)
  have plain1: "plain (fw_sp ?s1)" "sp_cur (fw_sp ?s1) = Some k" using Cons.prems(3,7) w(1) by simp_all
  have l1: "live (fw_ents ?s1) k = Some (fts_walked t ?e)" by (simp add: k live_Some_iff nth_append)
  have lr1: "live (fw_ents ?s1) (length E) = Some P" using live_r by simp
  have instr: "ent_instr (fts_walked t ?e) = FTS_NOINSTR" by (simp add: mk)
  obtain info where i1: "ent_info (fts_walked t ?e) = Some info" "info \<noteq> FTS_D"
    by (cases t) (simp_all add: fts_walked_def mk tree_info_def)
  show ?case
  proof (cases xs)
    case Nil
    let ?s2 = "s\<lparr>fw_ents := E @ replicate (Suc (i + (Suc (m + m1)))) None, fw_errno := E_OK, fw_sp := (fw_sp s)\<lparr>sp_cur := None, sp_path := buf\<rparr>\<rparr>"
    have e2: "(fw_ents ?s1)[k := None, length E := None] = E @ replicate (Suc (i + (Suc (m + m1)))) None"
      by (simp add: k Nil list_update_append replicate_add replicate_append_same)
    have "fts_read host ?s1 = Done (None, ?s2)"
      using read_end [OF plain1 l1 instr i1 _ _ _ lr1 assms(4), of host] e2 Nil k by (simp add: mk)
    then have "fts_reads host (Suc j) ?s1 = Done ([], ?s2)" by (simp add: fop_simps)
    from reads_append [OF w1 this] show ?thesis
      using Cons.prems(3) w(1) x Nil by (intro exI [of _ "Suc (i + (Suc (m + m1)))"] exI [of _ "fw_sp ?s2"]) simp
  next
    case (Cons y ys)
    obtain a2 t2 where y: "y = (a2, t2)" by (cases y)
    let ?q = "k + 1"
    let ?l2 = "if ys = [] then None else Some (?q + 1)"
    let ?eq = "mk ?q y ?l2"
    have ok2: "arg_ok host st y" using Cons.prems(1) [of y] Cons by simp
    then have fs2: "fserved host st [] a2 t2" "NUL \<notin> set a2" by (simp_all add: arg_ok_def y)
    have len2: "length a2 < PATH_MAX" using fserved_file [OF fs2(1)] by (simp add: file_served_def)
    have lq: "live (fw_ents ?s1) ?q = Some ?eq" by (simp add: k live_Some_iff nth_append Cons)
    have g1: "sp_gen (fw_sp ?s1) = ?g" by simp
    obtain sp where sp: "plain sp" "sp_gen sp = ?g" "sp_cur sp = Some ?q" "prefix (a2 @ [NUL]) (sp_path sp)"
        "fts_read host ?s1 = Done (Some ?q, ?s1\<lparr>fw_ents := (fw_ents ?s1)[k := None, ?q := Some (loaded ?g ?eq)], fw_sp := sp\<rparr>)"
      using read_root [OF plain1 l1 instr i1 _ _ lq, of a2 host] len2 Cons unfolding g1 by (auto simp: mk y)
    let ?s2 = "s\<lparr>fw_ents := E @ [Some P] @ replicate (i + 1) None @ Some (loaded ?g ?eq) # kids mk (?q + 1) ys @ replicate (m + m1) None, fw_sp := sp\<rparr>"
    have "(fw_ents ?s1)[k := None, ?q := Some (loaded ?g ?eq)] = fw_ents ?s2"
      by (simp add: k Cons list_update_append replicate_app_Cons_same)
    then have r: "fts_read host ?s1 = Done (Some ?q, ?s2)" using sp(5) by simp
    have lq2: "live (fw_ents ?s2) ?q = Some (loaded ?g ?eq)" by (simp add: k live_Some_iff nth_append)
    have sh: "fts_shown ?q ?s2 = Done ((a2, tree_info t2), ?s2)"
      by (rule fts_shown_run [OF lq2]) (use sp(2,4) fs2(2) in \<open>simp_all add: mk y\<close>)
    let ?us = "tl (concat (map (\<lambda>(a, t). fts_visits a t) xs))"
    have pa: "arg_ok host st z" if "z \<in> set xs" for z using Cons.prems(1) [of z] that by simp
    have "\<exists>m' sp'. sp_cur sp' = None \<and> plain sp' \<and> (let vs = ?us in
        fts_reads host (length vs + Suc j) ?s2 = Done (vs, ?s2\<lparr>fw_ents := E @ replicate m' None, fw_errno := E_OK, fw_sp := sp'\<rparr>))"
      by (rule Cons.IH [where k = ?q and i = "i + 1" and m = "m + m1", OF pa])
        (use sp Cons Cons.prems(5) y in \<open>simp_all add: mk\<close>)
    then obtain m' sp' where z: "sp_cur sp' = None" "plain sp'"
        "fts_reads host (length ?us + Suc j) ?s2 = Done (?us, s\<lparr>fw_ents := E @ replicate m' None, fw_errno := E_OK, fw_sp := sp'\<rparr>)"
      by (auto simp: Let_def)
    have "fts_reads host (Suc (length ?us) + Suc j) ?s1 = Done ((a2, tree_info t2) # ?us, s\<lparr>fw_ents := E @ replicate m' None, fw_errno := E_OK, fw_sp := sp'\<rparr>)"
      using r sh z(3) by (simp add: fop_simps)
    note * = reads_append [OF w1 this]
    have "tl (concat (map (\<lambda>(a, t). fts_visits a t) (x # xs))) = ?vs @ (a2, tree_info t2) # ?us"
      using visits_cons [of a t] visits_cons [of a2 t2 "concat (map (\<lambda>(a, t). fts_visits a t) ys)"] by (simp add: x y Cons del: append_Cons)
    with * z(1,2) show ?thesis by (intro exI [of _ m'] exI [of _ sp']) (simp add: Let_def add.assoc)
  qed
qed simp


text \<open>Opening, reading up to the end and closing a hierarchy.\<close>

definition walk_all :: "'w fts_host \<Rightarrow> string list \<Rightarrow> 32 word \<Rightarrow> nat \<Rightarrow> ('w, (string \<times> fts_info) list \<times> int) fop" where
  "walk_all host argv options n =
     bnd (fts_open host argv options None) (\<lambda>_. bnd (fts_reads host n) (\<lambda>vs. bnd (fts_close host) (\<lambda>r. ret (vs, r))))"

lemma close_after_end:
  "sp_cur (fw_sp s) = None \<Longrightarrow> plain (fw_sp s) \<Longrightarrow> fts_close host s = Done (0, s)"
  by (simp add: fts_close_def close_entries_def fts_lfree_def fop_simps plain_def)

lemma walk_served:
  assumes "mallocs host" "\<And>w. fh_realloc host PATH_MAX w = (Inr moved, w)" "xs \<noteq> []" "\<And>x. x \<in> set xs \<Longrightarrow> arg_ok host st x"
    and "length (concat (map (\<lambda>(a, t). fts_visits a t) xs)) < n"
  shows "\<exists>m sp. walk_all host (map fst xs) walk_options n s =
    Done ((concat (map (\<lambda>(a, t). fts_visits a t) xs), 0), s\<lparr>fw_ents := fw_ents s @ replicate m None, fw_errno := E_OK, fw_sp := sp\<rparr>)"
proof -
  let ?E = "fw_ents s"
  let ?vs = "concat (map (\<lambda>(a, t). fts_visits a t) xs)"
  obtain sp P D where o: "plain sp" "sp_cur sp = Some (length ?E + 1 + length xs)" "ent_level P = Some FTS_ROOTPARENTLEVEL"
      "ent_link D = Some (Some (length ?E + 1))" "ent_info D = Some FTS_INIT" "ent_instr D = FTS_NOINSTR"
      "fts_open host (map fst xs) walk_options None s = Done (True, s\<lparr>fw_ents :=
        (?E @ [Some P]) @ kids (arg_ent (sp_gen sp) (length ?E) st) (length ?E + 1) xs @ [Some D], fw_sp := sp\<rparr>)"
    using fts_open_served [OF assms(1,2,3,4)] by blast
  let ?g = "sp_gen sp"
  let ?mk = "arg_ent ?g (length ?E) st"
  let ?c = "length ?E + 1 + length xs"
  let ?q = "length ?E + 1"
  let ?s1 = "s\<lparr>fw_ents := (?E @ [Some P]) @ kids ?mk ?q xs @ [Some D], fw_sp := sp\<rparr>"
  obtain a t ys where xs: "xs = (a, t) # ys" using assms(3) by (cases xs) auto
  let ?l = "if ys = [] then None else Some (?q + 1)"
  have ok: "NUL \<notin> set a" "fserved host st [] a t" using assms(4) [of "(a, t)"] by (simp_all add: xs arg_ok_def)
  have len: "length a < PATH_MAX" using fserved_file [OF ok(2)] by (simp add: file_served_def)
  have ls: "live (fw_ents ?s1) ?c = Some D" "live (fw_ents ?s1) ?q = Some (?mk ?q (a, t) ?l)"
    by (simp_all add: live_Some_iff nth_append xs)
  have pl: "plain (fw_sp ?s1)" "sp_cur (fw_sp ?s1) = Some ?c" using o(1,2) by simp_all
  obtain sp2 where r: "plain sp2" "sp_gen sp2 = ?g" "sp_cur sp2 = Some ?q" "prefix (a @ [NUL]) (sp_path sp2)"
      "fts_read host ?s1 = Done (Some ?q, ?s1\<lparr>fw_ents := (fw_ents ?s1)[?c := None, ?q := Some (loaded ?g (?mk ?q (a, t) ?l))], fw_sp := sp2\<rparr>)"
    using read_root [OF pl ls(1) o(6,5) _ o(4) _ ls(2), of a host] len by (auto simp: xs)
  let ?s2 = "s\<lparr>fw_ents := ?E @ [Some P] @ Some (loaded ?g (?mk ?q (a, t) ?l)) # kids ?mk (?q + 1) ys @ [None], fw_sp := sp2\<rparr>"
  have "(fw_ents ?s1)[?c := None, ?q := Some (loaded ?g (?mk ?q (a, t) ?l))] = fw_ents ?s2"
    by (simp add: xs list_update_append)
  then have r2: "fts_read host ?s1 = Done (Some ?q, ?s2)" using r(5) by simp
  have lq2: "live (fw_ents ?s2) ?q = Some (loaded ?g (?mk ?q (a, t) ?l))" by (simp add: live_Some_iff nth_append)
  have sh: "fts_shown ?q ?s2 = Done ((a, tree_info t), ?s2)"
    by (rule fts_shown_run [OF lq2]) (use r(2,4) ok(1) in simp_all)
  have vs: "(a, tree_info t) # tl ?vs = ?vs"
    using visits_cons [of a t "concat (map (\<lambda>(a, t). fts_visits a t) ys)"] by (simp add: xs del: append_Cons)
  obtain j where n: "n = Suc (length (tl ?vs) + Suc j)"
  proof -
    have "Suc (length (tl ?vs)) < n" using assms(5) arg_cong [OF vs, of length] by simp
    from less_imp_Suc_add [OF this] show ?thesis using that by auto
  qed
  have "\<exists>m' sp. sp_cur sp = None \<and> plain sp \<and> (let vs = tl ?vs in
      fts_reads host (length vs + Suc j) ?s2 = Done (vs, ?s2\<lparr>fw_ents := ?E @ replicate m' None, fw_errno := E_OK, fw_sp := sp\<rparr>))"
    by (rule roots_walk [where k = ?q and i = 0 and m = 1 and P = P and mk = ?mk and st = st, OF assms(1) assms(4)])
      (use r o(3) xs in simp_all)
  then obtain m sp3 where z: "sp_cur sp3 = None" "plain sp3"
      "fts_reads host (length (tl ?vs) + Suc j) ?s2 = Done (tl ?vs, s\<lparr>fw_ents := ?E @ replicate m None, fw_errno := E_OK, fw_sp := sp3\<rparr>)"
    by (auto simp: Let_def)
  let ?s3 = "s\<lparr>fw_ents := ?E @ replicate m None, fw_errno := E_OK, fw_sp := sp3\<rparr>"
  have "fts_reads host n ?s1 = Done ((a, tree_info t) # tl ?vs, ?s3)"
    unfolding n fts_reads.simps using r2 sh z(3) by (simp add: fop_simps del: fts_reads.simps)
  then have reads: "fts_reads host n ?s1 = Done (?vs, ?s3)" by (simp only: vs)
  have "fts_close host ?s3 = Done (0, ?s3)" using z(1,2) by (simp add: close_after_end)
  then show ?thesis using o(7) reads
    by (intro exI [of _ m] exI [of _ sp3]) (simp add: walk_all_def fop_simps)
qed

end
