(* ===== verification/Fts_Facts.thy ===== *)
theory Fts_Facts
  imports Fts_Walk
begin

unbundle bit_operations_syntax

text \<open>
  Properties of the file hierarchies: the order and completeness of a walk, cycles, the size of the path
  buffer, and two sequences of calls that the code does not survive.
\<close>

section \<open>Cycles\<close>

lemma find_cycle_some:
  "chain (fw_ents s) t ks \<Longrightarrow> (ino, dev) \<in> set ks \<Longrightarrow> length ks < n \<Longrightarrow> \<exists>a. find_cycle n ino dev t s = Done (Some a, s)"
proof (induction ks arbitrary: t n)
  case (Cons k ks)
  then obtain e lv q m where c: "live (fw_ents s) t = Some e" "ent_level e = Some lv" "FTS_ROOTLEVEL \<le> lv"
      "ent_ino e = Some (fst k)" "ent_dev e = Some (snd k)" "ent_parent e = Some q" "chain (fw_ents s) q ks" "n = Suc m"
    by (cases n) auto
  show ?case
  proof (cases "k = (ino, dev)")
    case True
    then show ?thesis using c by (simp add: fop_simps)
  next
    case False
    then have "\<exists>a. find_cycle m ino dev q s = Done (Some a, s)" using Cons c by simp
    then show ?thesis using c False by (cases k) (auto simp: fop_simps)
  qed
qed simp

section \<open>The size of the path buffer\<close>

lemma smear_step:
  fixes y z :: "64 word"
  assumes "\<And>n. bit z n \<longleftrightarrow> (\<exists>m. n \<le> m \<and> m < n + w \<and> bit y m)"
  shows "bit (z OR drop_bit w z) n \<longleftrightarrow> (\<exists>m. n \<le> m \<and> m < n + 2 * w \<and> bit y m)"
proof
  assume "bit (z OR drop_bit w z) n"
  then have "bit z n \<or> bit z (w + n)" by (simp add: bit_or_iff bit_drop_bit_eq)
  then show "\<exists>m. n \<le> m \<and> m < n + 2 * w \<and> bit y m"
  proof
    assume "bit z n"
    then obtain m where "n \<le> m" "m < n + w" "bit y m" using assms by blast
    then show ?thesis by (intro exI [of _ m]) simp
  next
    assume "bit z (w + n)"
    then obtain m where "w + n \<le> m" "m < w + n + w" "bit y m" using assms by blast
    then show ?thesis by (intro exI [of _ m]) simp
  qed
next
  assume "\<exists>m. n \<le> m \<and> m < n + 2 * w \<and> bit y m"
  then obtain m where m: "n \<le> m" "m < n + 2 * w" "bit y m" by blast
  show "bit (z OR drop_bit w z) n"
  proof (cases "m < n + w")
    case True
    then show ?thesis using m by (auto simp: bit_simps assms)
  next
    case False
    then have "bit z (n + w)" unfolding assms using m by (intro exI [of _ m]) simp
    then show ?thesis by (simp add: bit_simps add.commute)
  qed
qed

lemma pow2_bits:
  "\<exists>z. fts_pow2 x = z + 1 \<and> (\<forall>n. bit z n \<longleftrightarrow> (\<exists>m\<ge>n. bit (x - 1) m))"
proof -
  let ?y = "x - 1"
  let ?z1 = "?y OR drop_bit 1 ?y" let ?z2 = "?z1 OR drop_bit 2 ?z1" let ?z3 = "?z2 OR drop_bit 4 ?z2"
  let ?z4 = "?z3 OR drop_bit 8 ?z3" let ?z5 = "?z4 OR drop_bit 16 ?z4" let ?z = "?z5 OR drop_bit 32 ?z5"
  have b0: "bit ?y n \<longleftrightarrow> (\<exists>m. n \<le> m \<and> m < n + 1 \<and> bit ?y m)" for n by (auto simp: less_Suc_eq_le)
  note b1 = smear_step [OF b0]
  have b1': "bit ?z1 n \<longleftrightarrow> (\<exists>m. n \<le> m \<and> m < n + 2 \<and> bit ?y m)" for n using b1 [of n] by simp
  have b2: "bit ?z2 n \<longleftrightarrow> (\<exists>m. n \<le> m \<and> m < n + 4 \<and> bit ?y m)" for n using smear_step [OF b1', of n] by simp
  have b3: "bit ?z3 n \<longleftrightarrow> (\<exists>m. n \<le> m \<and> m < n + 8 \<and> bit ?y m)" for n using smear_step [OF b2, of n] by simp
  have b4: "bit ?z4 n \<longleftrightarrow> (\<exists>m. n \<le> m \<and> m < n + 16 \<and> bit ?y m)" for n using smear_step [OF b3, of n] by simp
  have b5: "bit ?z5 n \<longleftrightarrow> (\<exists>m. n \<le> m \<and> m < n + 32 \<and> bit ?y m)" for n using smear_step [OF b4, of n] by simp
  have b6: "bit ?z n \<longleftrightarrow> (\<exists>m. n \<le> m \<and> m < n + 64 \<and> bit ?y m)" for n using smear_step [OF b5, of n] by simp
  have "bit ?z n \<longleftrightarrow> (\<exists>m\<ge>n. bit ?y m)" for n
  proof -
    have "m < n + 64" if "bit ?y m" for m using bit_imp_le_length [OF that] by simp
    then show ?thesis unfolding b6 by blast
  qed
  moreover have "fts_pow2 x = ?z + 1" by (simp add: fts_pow2_def Let_def)
  ultimately show ?thesis by blast
qed

lemma top_bit:
  fixes y :: "64 word"
  assumes "y \<noteq> 0"
  shows "\<exists>l < 64. (\<forall>n. (\<exists>m\<ge>n. bit y m) \<longleftrightarrow> n \<le> l) \<and> 2 ^ l \<le> unat y \<and> unat y < 2 ^ (l + 1)"
proof -
  let ?l = "Max {m. bit y m}"
  have fin: "finite {m. bit y m}" by (rule finite_subset [of _ "{..<64}"]) (auto dest: bit_imp_le_length)
  have ne: "{m. bit y m} \<noteq> {}" using assms by (auto simp: bit_eq_iff)
  have l: "bit y ?l" using Max_in [OF fin ne] by simp
  have top: "m \<le> ?l" if "bit y m" for m using Max_ge [OF fin] that by simp
  have l64: "?l < 64" using bit_imp_le_length [OF l] by simp
  have "odd (unat y div 2 ^ ?l)" using l l64 by (simp add: bit_unsigned_iff flip: bit_iff_odd)
  then have "0 < unat y div 2 ^ ?l" by (rule odd_pos)
  then have lo: "2 ^ ?l \<le> unat y" by (simp add: div_greater_zero_iff)
  have "take_bit (?l + 1) (unat y) = unat y"
    by (rule bit_eqI) (auto simp: bit_take_bit_iff bit_unsigned_iff less_Suc_eq_le dest: top)
  then have hi: "unat y < 2 ^ (?l + 1)" by (metis take_bit_nat_less_exp)
  have "(\<exists>m\<ge>n. bit y m) \<longleftrightarrow> n \<le> ?l" for n using l top le_trans by blast
  then show ?thesis using l64 lo hi by blast
qed

text \<open>
  The path buffer gets the smallest power of two that is large enough: for a positive size up to
  \<open>2 ^ 63\<close> \<^verbatim>\<open>fts_pow2\<close> is a power of two, not below the size and less than twice as large.
\<close>

theorem fts_pow2_least:
  assumes "0 < x" "x \<le> 2 ^ 63"
  shows "\<exists>k < 64. fts_pow2 x = 2 ^ k \<and> x \<le> 2 ^ k \<and> unat (fts_pow2 x) < 2 * unat x"
proof -
  have x: "0 < unat x" "unat x \<le> 2 ^ 63" using assms by (simp_all add: word_le_nat_alt unat_gt_0)
  have y: "unat (x - 1) = unat x - 1" using x(1) by (simp add: unat_minus_one unat_gt_0)
  obtain z where z: "fts_pow2 x = z + 1" "\<And>n. bit z n \<longleftrightarrow> (\<exists>m\<ge>n. bit (x - 1) m)" using pow2_bits by blast
  have pow: "unat (2 ^ k :: 64 word) = 2 ^ k" if "k < 64" for k
  proof -
    have "(2 :: nat) ^ k < 2 ^ 64" using that by (intro power_strict_increasing) auto
    then have "unat (of_nat (2 ^ k) :: 64 word) = 2 ^ k" by (simp only: unat_of_nat take_bit_nat_eq_self) simp
    then show ?thesis by simp
  qed
  show ?thesis
  proof (cases "x - 1 = 0")
    case True
    then have "z = 0" by (intro bit_eqI) (simp add: z(2))
    then show ?thesis using True z(1) x(1) by (intro exI [of _ 0]) simp
  next
    case False
    obtain l where l: "l < 64" "\<And>n. (\<exists>m\<ge>n. bit (x - 1) m) \<longleftrightarrow> n \<le> l" "2 ^ l \<le> unat (x - 1)" "unat (x - 1) < 2 ^ (l + 1)"
      using top_bit [OF False] by blast
    have "(2 :: nat) ^ l < 2 ^ 63" using l(3) x y by (simp only: y)
    then have "l < 63" by (rule power_less_imp_less_exp [rotated]) simp
    then have l63: "l + 1 < 64" by simp
    have "z = mask (l + 1)" using l63 by (intro bit_eqI) (auto simp: z(2) l(2) bit_mask_iff)
    then have r: "fts_pow2 x = 2 ^ (l + 1)" using z(1) by (simp add: mask_eq_exp_minus_1)
    have "unat x \<le> 2 ^ (l + 1)" "2 ^ (l + 1) < 2 * unat x" using l(3,4) y x(1) by simp_all
    then show ?thesis using r l63 pow [OF l63] by (intro exI [of _ "l + 1"]) (simp add: word_le_nat_alt)
  qed
qed

lemma fts_pow2_least_witness: "\<exists>k < 64. fts_pow2 5000 = 2 ^ k \<and> (5000 :: 64 word) \<le> 2 ^ k \<and> unat (fts_pow2 5000) < 2 * unat (5000 :: 64 word)"
  by (rule fts_pow2_least) simp_all


section \<open>Calls that are not survived\<close>

lemma bnd_Done_iff: "bnd m f s = Done y \<longleftrightarrow> (\<exists>x s1. m s = Done (x, s1) \<and> f x s1 = Done y)"
  by (auto simp: bnd_def act_bind_Done_iff)

lemma seq_Done_iff: "seq m f s = Done y \<longleftrightarrow> (\<exists>x s1. m s = Done (x, s1) \<and> f s1 = Done y)"
  by (simp add: seq_def bnd_Done_iff)

lemma alloc_Done:
  assumes "fts_alloc host name s = Done (Some c, s')"
  shows "c = length (fw_ents s) \<and> fw_sp s' = fw_sp s \<and> (\<exists>n. fw_ents s' = fw_ents s @ [Some (new_ent n (sp_gen (fw_sp s)) name)])"
proof -
  have fts_sys: "fw_ents s2 = fw_ents s1 \<and> fw_sp s2 = fw_sp s1" if "fts_sys f s1 = Done (r, s2)" for f :: "'a \<Rightarrow> (errno + unit) \<times> 'a" and r s1 s2
    using that by (auto simp: fts_sys_def split: prod.splits sum.splits)
  show ?thesis
    using assms
    by (auto simp: fts_alloc_def bnd_def act_bind_Done_iff ret_def look_def isset_def add_ent_def split: if_splits dest!: fts_sys)
qed

lemma or_stop: "(o' OR FTS_NOCHDIR) AND FTS_STOP = o' AND FTS_STOP"
  by (simp add: bit.conj_disj_distrib2 FTS_NOCHDIR_def FTS_STOP_def)

lemma mask_stop: "o' AND NOT FTS_OPTIONMASK = 0 \<Longrightarrow> o' AND FTS_STOP = 0"
proof -
  assume "o' AND NOT FTS_OPTIONMASK = 0"
  moreover have "NOT FTS_OPTIONMASK AND FTS_STOP = FTS_STOP" by (simp add: FTS_STOP_def FTS_OPTIONMASK_def)
  then have "o' AND FTS_STOP = (o' AND NOT FTS_OPTIONMASK) AND FTS_STOP" by (simp only: and.assoc)
  ultimately show ?thesis by simp
qed

text \<open>The entry in front of the roots: it has a list and a type, but no level and no parent.\<close>

lemma open_start_dummy:
  assumes "open_start host parent n root s = Done (True, s')" "n = 0 \<Longrightarrow> parent < length (fw_ents s)"
  shows "\<exists>c e. sp_cur (fw_sp s') = Some c \<and> live (fw_ents s') c = Some e \<and> ent_level e = None \<and> ent_parent e = None \<and>
    ent_flags e = 0 \<and> ent_instr e = FTS_NOINSTR \<and> ent_link e = Some root \<and> ent_info e = Some FTS_INIT \<and>
    sp_options (fw_sp s') AND FTS_STOP = sp_options (fw_sp s) AND FTS_STOP"
proof -
  let ?c = "length (fw_ents s)"
  have failed: "open_failed parent root s1 \<noteq> Done (True, s')" for s1
    by (auto simp: open_failed_def seq_def bnd_def act_bind_Done_iff ret_def)
  obtain c s1 where a: "fts_alloc host [] s = Done (Some c, s1)"
    using assms(1) failed by (auto simp: open_start_def bnd_def act_bind_Done_iff split: option.splits)
  obtain ns where s1: "c = ?c" "fw_sp s1 = fw_sp s" "fw_ents s1 = fw_ents s @ [Some (new_ent ns (sp_gen (fw_sp s)) [])]"
    using alloc_Done [OF a] by blast
  let ?e = "(new_ent ns (sp_gen (fw_sp s)) [])\<lparr>ent_link := Some root, ent_info := Some FTS_INIT\<rparr>"
  let ?s2 = "s1\<lparr>fw_sp := (fw_sp s1)\<lparr>sp_cur := Some c\<rparr>, fw_ents := fw_ents s @ [Some ?e]\<rparr>"
  have fts_sys: "fw_ents s4 = fw_ents s3 \<and> fw_sp s4 = fw_sp s3" if "fts_sys f s3 = Done (r, s4)" for f :: "'a \<Rightarrow> (errno + int) \<times> 'a" and r s3 s4
    using that by (auto simp: fts_sys_def split: prod.splits sum.splits)
  have upd_ent: "live (fw_ents s1) c = Some (new_ent ns (sp_gen (fw_sp s)) [])" "(fw_ents s1)[c := y] = fw_ents s @ [y]" for y
    by (simp_all add: s1 live_Some_iff)
  have "bnd (isset FTS_NOCHDIR) (\<lambda>nochdir. seq (if nochdir then ret ()
        else bnd (fts_sys (fh_open host ''.'')) (\<lambda>r. case r of None \<Rightarrow> SET FTS_NOCHDIR | Some fd \<Rightarrow> set_sp (sp_rfd_update (\<lambda>_. fd))))
      (seq (if n = 0 then fts_free parent else ret ()) (ret True))) ?s2 = Done (True, s')"
    using assms(1) a by (simp add: open_start_def bnd_run seq_run set_sp_run upd_run upd_ent)
  then have rest: "(fw_ents s' = fw_ents ?s2 \<or> n = 0 \<and> fw_ents s' = (fw_ents ?s2)[parent := None]) \<and> sp_cur (fw_sp s') = Some c \<and>
      sp_options (fw_sp s') AND FTS_STOP = sp_options (fw_sp ?s2) AND FTS_STOP"
    by (auto simp: or_stop bnd_def seq_def act_bind_Done_iff ret_def look_def isset_def SET_def set_sp_run fts_free_def ent_def change_def
      split: if_splits option.splits dest!: fts_sys)
  have "live (fw_ents s') c = Some ?e"
    using rest assms(2) by (auto simp: live_Some_iff s1(1) nth_list_update)
  then show ?thesis using rest by (intro exI [of _ c] exI [of _ ?e]) (simp add: new_ent_def s1(2))
qed


lemma palloc_Done:
  assumes "fts_palloc host n s = Done (r, s')"
  shows "sp_options (fw_sp s') = sp_options (fw_sp s)"
proof -
  have fts_sys: "fw_sp s4 = fw_sp s3" if "fts_sys f s3 = Done (x, s4)" for f :: "'a \<Rightarrow> (errno + bool) \<times> 'a" and x s3 s4
    using that by (auto simp: fts_sys_def split: prod.splits sum.splits)
  let ?n = "unat (fts_pow2 (of_nat n))"
  obtain x s1 where x: "fts_sys (fh_realloc host ?n) s = Done (x, s1)"
    using assms by (auto simp: fts_palloc_def Let_def bnd_Done_iff)
  then have "sp_options (fw_sp s') = sp_options (fw_sp s1)"
    using assms by (cases x) (auto simp: fts_palloc_def Let_def bnd_run seq_run ret_def set_sp_run)
  then show ?thesis using fts_sys [OF x] by simp
qed

lemma open_dummy:
  assumes "fts_open host argv options compar s = Done (True, s')"
  shows "\<exists>c e. sp_cur (fw_sp s') = Some c \<and> live (fw_ents s') c = Some e \<and> ent_level e = None \<and> ent_parent e = None \<and>
    ent_flags e = 0 \<and> ent_instr e = FTS_NOINSTR \<and> ent_info e = Some FTS_INIT \<and>
    (argv = [] \<longrightarrow> ent_link e = Some None \<and> sp_options (fw_sp s') AND FTS_STOP = 0)"
proof -
  have fts_sys: "fw_ents s4 = fw_ents s3 \<and> fw_sp s4 = fw_sp s3" if "fts_sys f s3 = Done (r, s4)"
    for f :: "'a \<Rightarrow> (errno + 'b) \<times> 'a" and r s3 s4
    using that by (auto simp: fts_sys_def split: prod.splits sum.splits)
  have stop: "options AND NOT FTS_OPTIONMASK = 0"
    using assms by (auto simp: fts_open_def seq_def bnd_def act_bind_Done_iff ret_def split: if_splits)
  obtain s1 s2 s3 parent where o: "fts_palloc host (max (fts_maxarglen argv) PATH_MAX) s1 = Done (False, s2)"
      "sp_options (fw_sp s1) = options \<or> sp_options (fw_sp s1) = options OR FTS_NOCHDIR"
      "fts_alloc host [] s2 = Done (Some parent, s3)"
      "seq (upd_ent parent (ent_level_update (\<lambda>_. Some FTS_ROOTPARENTLEVEL)))
        (bnd (open_roots host parent (compar \<noteq> None) argv None None) (\<lambda>r.
          case r of
            Inl root \<Rightarrow> open_failed parent root
          | Inr root \<Rightarrow>
              bnd (case root of
                  Some h \<Rightarrow> if compar \<noteq> None \<and> 1 < length argv
                    then bnd (fts_sort host h (length argv)) (\<lambda>h. ret (Some h)) else ret root
                | None \<Rightarrow> ret None)
                (open_start host parent (length argv)))) s3 = Done (True, s')"
  proof -
    let ?sp = "\<lambda>sp. (zero_fts (sp_gen sp))\<lparr>sp_compar := compar,
      sp_options := (if options AND FTS_LOGICAL \<noteq> 0 then options OR FTS_NOCHDIR else options)\<rparr>"
    obtain x s0 where x: "fts_sys (fh_malloc host) s = Done (x, s0)" using assms stop by (auto simp: fts_open_def bnd_Done_iff)
    then have "x \<noteq> None" using assms stop by (cases x) (auto simp: fts_open_def bnd_run ret_def)
    let ?s1 = "s0\<lparr>fw_sp := ?sp (fw_sp s0)\<rparr>"
    have a: "bnd (fts_palloc host (max (fts_maxarglen argv) PATH_MAX)) (\<lambda>failed.
            if failed then ret False
            else bnd (fts_alloc host []) (\<lambda>r.
              case r of
                None \<Rightarrow> ret False
              | Some parent \<Rightarrow>
                  seq (upd_ent parent (ent_level_update (\<lambda>_. Some FTS_ROOTPARENTLEVEL)))
                    (bnd (open_roots host parent (compar \<noteq> None) argv None None) (\<lambda>r.
                      case r of
                        Inl root \<Rightarrow> open_failed parent root
                      | Inr root \<Rightarrow>
                          bnd (case root of
                              Some h \<Rightarrow> if compar \<noteq> None \<and> 1 < length argv
                                then bnd (fts_sort host h (length argv)) (\<lambda>h. ret (Some h)) else ret root
                            | None \<Rightarrow> ret None)
                            (open_start host parent (length argv)))))) ?s1 = Done (True, s')"
      using assms stop x \<open>x \<noteq> None\<close> unfolding fts_open_def by (simp add: bnd_run [of "fts_sys _"] seq_run [of "set_sp _"] set_sp_run)
    then obtain f s2 where f: "fts_palloc host (max (fts_maxarglen argv) PATH_MAX) ?s1 = Done (f, s2)"
      unfolding bnd_Done_iff [where m = "fts_palloc host (max (fts_maxarglen argv) PATH_MAX)"] by blast
    have nf: "f = False" using a f by (cases f) (simp_all add: bnd_run [of "fts_palloc _ _"] ret_def)
    obtain r s3 where r: "fts_alloc host [] s2 = Done (r, s3)"
      using a f nf by (auto simp: bnd_run [of "fts_palloc _ _"] bnd_Done_iff)
    then obtain parent where "r = Some parent"
      using a f nf by (cases r) (auto simp: bnd_run [of "fts_palloc _ _"] bnd_run [of "fts_alloc _ _"] ret_def)
    then show ?thesis using that [of ?s1 s2 parent s3] a f nf r
      by (simp add: bnd_run [of "fts_palloc _ _"] bnd_run [of "fts_alloc _ _"])
  qed
  have opt: "sp_options (fw_sp s3) AND FTS_STOP = 0"
    using palloc_Done [OF o(1)] o(2) alloc_Done [OF o(3)] mask_stop [OF stop] by (auto simp: or_stop)
  have par: "parent < length (fw_ents s3)" using alloc_Done [OF o(3)] by auto
  have failed: "open_failed parent root s1 \<noteq> Done (True, s')" for root s1
    by (auto simp: open_failed_def seq_def bnd_def act_bind_Done_iff ret_def)
  obtain s2 root where st: "open_start host parent (length argv) root s2 = Done (True, s')"
      "argv = [] \<Longrightarrow> parent < length (fw_ents s2) \<and> root = None \<and> sp_options (fw_sp s2) AND FTS_STOP = 0"
  proof (cases "argv = []")
    case True
    then show ?thesis using that o(4) opt par
      by (auto simp: seq_def bnd_def act_bind_Done_iff ret_def upd_ent_def split: option.splits)
  next
    case False
    obtain s4 r where r: "(case r of
            Inl root \<Rightarrow> open_failed parent root
          | Inr root \<Rightarrow>
              bnd (case root of
                  Some h \<Rightarrow> if compar \<noteq> None \<and> 1 < length argv
                    then bnd (fts_sort host h (length argv)) (\<lambda>h. ret (Some h)) else ret root
                | None \<Rightarrow> ret None)
                (open_start host parent (length argv))) s4 = Done (True, s')"
      using o(4) unfolding seq_Done_iff bnd_Done_iff [where m = "open_roots host parent (compar \<noteq> None) argv None None"] by blast
    show ?thesis
    proof (cases r)
      case Inl
      then show ?thesis using r failed by simp
    next
      case (Inr root)
      then have "\<exists>root' s5. open_start host parent (length argv) root' s5 = Done (True, s')"
        using r unfolding Inr sum.case bnd_Done_iff by blast
      then show ?thesis using that False by blast
    qed
  qed
  have "length argv = 0 \<Longrightarrow> parent < length (fw_ents s2)" using st(2) by simp
  then show ?thesis using open_start_dummy [OF st(1)] st(2) by fastforce
qed

section \<open>A small host\<close>

definition fts_demo_status :: "string \<Rightarrow> fts_status" where
  "fts_demo_status p =
     \<lparr>ws_mode = (if p \<in> {''d'', ''d/s'', ''e''} then 0x41ED else 0x81A4), ws_dev = 1, ws_ino = of_nat (length p), ws_nlink = 2\<rparr>"

definition fts_demo :: "unit fts_host" where
  "fts_demo =
     \<lparr>fh_stat = (\<lambda>p w. (Inr (fts_demo_status p), w)), fh_lstat = (\<lambda>p w. (Inr (fts_demo_status p), w)),
      fh_fstat = (\<lambda>_ w. (Inl EBADF, w)), fh_open = (\<lambda>_ w. (Inr 3, w)), fh_close = (\<lambda>_ w. (Inr (), w)), fh_fchdir = (\<lambda>_ w. (Inr (), w)),
      fh_opendir = (\<lambda>p w. (Inr (4, (if p = ''d'' then [(''.'', 4), (''f'', 8), (''..'', 4), (''s'', 4)] else [(''..'', 4), (''.'', 4)])), w)),
      fh_closedir = (\<lambda>_ w. (Inr (), w)), fh_malloc = (\<lambda>w. (Inr (), w)), fh_realloc = (\<lambda>_ w. (Inr True, w)),
      fh_fresh = (\<lambda>_. NUL), fh_qsort = (\<lambda>_ xs. xs)\<rparr>"

definition fts_demo_start :: "unit fts_world" where
  "fts_demo_start = \<lparr>fw_ents = [], fw_errno = ENOENT, fw_sp = zero_fts 0, fw_sys = ()\<rparr>"

definition fts_demo_args :: "(string \<times> ftree) list" where
  "fts_demo_args = [(''d'', Folder [(''f'', File), (''s'', Folder [])]), (''e'', Folder [])]"

lemma fts_demo_allocates: "mallocs fts_demo" "fh_realloc fts_demo PATH_MAX w = (Inr True, w)"
  by (simp_all add: mallocs_def fts_demo_def)

lemma fts_demo_served: "x \<in> set fts_demo_args \<Longrightarrow> arg_ok fts_demo fts_demo_status x"
proof -
  have regular: "file_served fts_demo (fts_demo_status p) p File" if "p = ''d/f''" for p
    using that by (simp add: file_served_def fts_demo_def fts_demo_status_def mode_of_def S_ISDIR_def S_ISLNK_def S_ISREG_def S_IFMT_def PATH_MAX_def)
  have dir: "file_served fts_demo (fts_demo_status p) p (Folder cs)" if "p \<in> {''d'', ''d/s'', ''e''}" for p cs
    using that by (auto simp: file_served_def fts_demo_def fts_demo_status_def mode_of_def S_ISDIR_def S_ISLNK_def S_ISREG_def S_IFMT_def PATH_MAX_def)
  have names: "names_served fts_demo ''d'' [''f'', ''s'']" "names_served fts_demo ''d/s'' []" "names_served fts_demo ''e'' []"
    unfolding names_served_def
    by (rule exI [of _ 4], rule exI [of _ "[(''.'', 4), (''f'', 8), (''..'', 4), (''s'', 4)]"], simp add: fts_demo_def ISDOT_def,
        rule exI [of _ 4], rule exI [of _ "[(''..'', 4), (''.'', 4)]"], simp add: fts_demo_def ISDOT_def,
        rule exI [of _ 4], rule exI [of _ "[(''..'', 4), (''.'', 4)]"], simp add: fts_demo_def ISDOT_def)
  have keys: "file_key (fts_demo_status ''d/s'') \<noteq> file_key (fts_demo_status ''d'')" by (simp add: file_key_def fts_demo_status_def)
  have paths: "below ''d'' ''f'' = ''d/f''" "below ''d'' ''s'' = ''d/s''" by (simp_all add: below_def front_len_def slash_def)
  show "x \<in> set fts_demo_args \<Longrightarrow> arg_ok fts_demo fts_demo_status x"
    using keys by (auto simp: fts_demo_args_def arg_ok_def paths regular dir names file_name_def NUL_def slash_def)
qed

section \<open>Properties\<close>

text \<open>
  C10: A program that opens, reads and closes a hierarchy of files that are served without an error sees, in
  the order of its arguments, every directory in front of and again behind what is below it and every other
  file once, with the path and the type of each, whatever the tree; then \<^verbatim>\<open>fts_read\<close> answers a null pointer
  with \<^verbatim>\<open>errno\<close> 0, \<^verbatim>\<open>fts_close\<close> answers 0, and every entry that was allocated is freed.
  For the options \<^verbatim>\<open>FTS_PHYSICAL\<close> and \<^verbatim>\<open>FTS_NOCHDIR\<close> without a comparison, and trees whose paths
  are shorter than \<^verbatim>\<open>PATH_MAX\<close>.
\<close>

theorem fts_order:
  assumes "mallocs host" "\<And>w. fh_realloc host PATH_MAX w = (Inr moved, w)" "xs \<noteq> []" "\<And>x. x \<in> set xs \<Longrightarrow> arg_ok host st x"
    and "length (concat (map (\<lambda>(a, t). fts_visits a t) xs)) < n"
  shows "\<exists>m sp. walk_all host (map fst xs) walk_options n s =
    Done ((concat (map (\<lambda>(a, t). fts_visits a t) xs), 0), s\<lparr>fw_ents := fw_ents s @ replicate m None, fw_errno := E_OK, fw_sp := sp\<rparr>)"
  by (rule walk_served [OF assms])

theorem fts_order_witness:
  "\<exists>m sp. walk_all fts_demo [''d'', ''e''] walk_options 9 fts_demo_start =
    Done (([(''d'', FTS_D), (''d/f'', FTS_F), (''d/s'', FTS_D), (''d/s'', FTS_DP), (''d'', FTS_DP), (''e'', FTS_D), (''e'', FTS_DP)], 0),
      fts_demo_start\<lparr>fw_ents := replicate m None, fw_errno := E_OK, fw_sp := sp\<rparr>)"
proof -
  have v: "concat (map (\<lambda>(a, t). fts_visits a t) fts_demo_args) =
      [(''d'', FTS_D), (''d/f'', FTS_F), (''d/s'', FTS_D), (''d/s'', FTS_DP), (''d'', FTS_DP), (''e'', FTS_D), (''e'', FTS_DP)]"
    by (simp add: fts_demo_args_def below_def front_len_def slash_def left_path_def tree_info_def)
  show ?thesis
    using fts_order [where n = 9 and s = fts_demo_start and xs = fts_demo_args, OF fts_demo_allocates _ fts_demo_served] unfolding v
    by (simp add: fts_demo_args_def fts_demo_start_def)
qed

text \<open>
  C13: The search for cycles is exact: a directory below entries that are all older is \<^verbatim>\<open>FTS_DC\<close> just when
  one of them has its device and inode, and \<^verbatim>\<open>FTS_D\<close> otherwise. An entry \<^verbatim>\<open>.\<close> or \<^verbatim>\<open>..\<close>, which
  \<^verbatim>\<open>FTS_SEEDOT\<close> shows, is not meant: it is \<^verbatim>\<open>FTS_DOT\<close> and not searched for.
\<close>

theorem fts_cycle:
  assumes "live (fw_ents s) p = Some e" "ent_parent e = Some q" "\<not> ISDOT (ent_name e)" "S_ISDIR (ws_mode st)"
    and "chain (take p (fw_ents s)) q ks" "length ks \<le> length (fw_ents s)"
  shows "\<exists>s'. fts_kind p st s = Done (if file_key st \<in> set ks then FTS_DC else FTS_D, s')"
proof -
  let ?e = "e\<lparr>ent_dev := Some (ws_dev st), ent_ino := Some (ws_ino st), ent_nlink := Some (ws_nlink st)\<rparr>"
  let ?s = "s\<lparr>fw_ents := (fw_ents s)[p := Some ?e]\<rparr>"
  have p: "p < length (fw_ents s)" using assms(1) by (simp add: live_Some_iff)
  have l: "live ((fw_ents s)[p := Some y]) p = Some y" for y using p by (simp add: live_Some_iff)
  have ch: "chain (fw_ents ?s) q ks"
    using chain_append [OF assms(5), of "Some ?e # drop (Suc p) (fw_ents s)"] p by (simp add: upd_conv_take_nth_drop)
  have n: "length ks < Suc (length (fw_ents s))" using assms(6) by simp
  show ?thesis
  proof (cases "file_key st \<in> set ks")
    case True
    then obtain a where "find_cycle (Suc (length (fw_ents s))) (ws_ino st) (ws_dev st) q ?s = Done (Some a, ?s)"
      using find_cycle_some [OF ch _ n] by (auto simp: file_key_def)
    then show ?thesis using assms(1-4) l True by (simp add: fts_kind_def fop_simps del: find_cycle.simps)
  next
    case False
    then have "find_cycle (Suc (length (fw_ents s))) (ws_ino st) (ws_dev st) q ?s = Done (None, ?s)"
      using find_cycle_none [OF ch _ n] by (simp add: file_key_def)
    then show ?thesis using assms(1-4) l False by (simp add: fts_kind_def fop_simps del: find_cycle.simps)
  qed
qed

theorem fts_cycle_witness:
  "\<exists>s'. fts_kind 2 (fts_demo_status ''d'') (fts_demo_start\<lparr>fw_ents :=
      [Some ((new_ent False 0 [])\<lparr>ent_level := Some FTS_ROOTPARENTLEVEL\<rparr>),
       Some ((new_ent False 0 ''d'')\<lparr>ent_level := Some FTS_ROOTLEVEL, ent_parent := Some 0, ent_ino := Some 1, ent_dev := Some 1\<rparr>),
       Some ((new_ent False 0 ''l'')\<lparr>ent_parent := Some 1\<rparr>)]\<rparr>) = Done (FTS_DC, s')"
  using fts_cycle [of "fts_demo_start\<lparr>fw_ents :=
      [Some ((new_ent False 0 [])\<lparr>ent_level := Some FTS_ROOTPARENTLEVEL\<rparr>),
       Some ((new_ent False 0 ''d'')\<lparr>ent_level := Some FTS_ROOTLEVEL, ent_parent := Some 0, ent_ino := Some 1, ent_dev := Some 1\<rparr>),
       Some ((new_ent False 0 ''l'')\<lparr>ent_parent := Some 1\<rparr>)]\<rparr>" 2 _ 1 "fts_demo_status ''d''" "[(1, 1)]"]
  by (simp add: live_Some_iff ISDOT_def fts_demo_status_def S_ISDIR_def S_IFMT_def file_key_def numeral_2_eq_2)

text \<open>
  C37: A hierarchy cannot be closed before it is read: every \<^verbatim>\<open>fts_open\<close> that succeeds leaves a current
  entry whose level nobody has written, and \<^verbatim>\<open>fts_close\<close> reads it.
\<close>

theorem fts_close_unread:
  assumes "fts_open host argv options compar s = Done (True, s')"
  shows "fts_close host s' = Crash"
proof -
  obtain c e where "sp_cur (fw_sp s') = Some c" "live (fw_ents s') c = Some e" "ent_level e = None" "ent_flags e = 0"
    using open_dummy [OF assms] by blast
  then show ?thesis by (simp add: fts_close_def close_entries_def close_symfd_def fop_simps crash_def)
qed

theorem fts_close_unread_witness:
  "\<exists>s'. fts_open fts_demo [''d''] walk_options None fts_demo_start = Done (True, s') \<and> fts_close fts_demo s' = Crash"
proof -
  have "\<exists>s'. fts_open fts_demo (map fst [hd fts_demo_args]) walk_options None fts_demo_start = Done (True, s')"
    using fts_open_served [OF fts_demo_allocates, of "[hd fts_demo_args]" fts_demo_status fts_demo_start] fts_demo_served
    by (fastforce simp: fts_demo_args_def)
  then obtain s' where o: "fts_open fts_demo [''d''] walk_options None fts_demo_start = Done (True, s')"
    by (auto simp: fts_demo_args_def)
  then show ?thesis using fts_close_unread [OF o] by blast
qed

text \<open>
  Without arguments the first \<^verbatim>\<open>fts_read\<close> follows the parent of that entry, which nobody has written.
\<close>

theorem fts_read_no_arguments:
  assumes "fts_open host [] options compar s = Done (True, s')"
  shows "fts_read host s' = Crash"
proof -
  obtain c e where "sp_cur (fw_sp s') = Some c" "live (fw_ents s') c = Some e" "ent_level e = None" "ent_parent e = None"
      "ent_instr e = FTS_NOINSTR" "ent_info e = Some FTS_INIT" "ent_link e = Some None" "sp_options (fw_sp s') AND FTS_STOP = 0"
    using open_dummy [OF assms] by blast
  moreover from this have "s'\<lparr>fw_ents := (fw_ents s')[c := Some (e\<lparr>ent_instr := FTS_NOINSTR\<rparr>)]\<rparr> = s'"
    by (simp add: instr_id live_update)
  ultimately show ?thesis
    by (simp add: fts_read_def fop_simps check_def FTS_AGAIN_def FTS_NOINSTR_def FTS_FOLLOW_def FTS_SKIP_def crash_def)
qed

text \<open>
  C36: The instruction \<^verbatim>\<open>FTS_SKIP\<close> on the entry that comes next stops the program: \<^verbatim>\<open>fts_read\<close> jumps back to
  a label behind which it asserts that the current entry has not been given up yet.
\<close>

theorem fts_skip_aborts:
  assumes "sp_cur (fw_sp s) = Some c" "sp_options (fw_sp s) AND FTS_STOP = 0"
    and "live (fw_ents s) c = Some e" "ent_instr e = FTS_NOINSTR" "ent_info e = Some info" "info \<noteq> FTS_D" "ent_link e = Some (Some q)"
    and "live (fw_ents s) q = Some e'" "ent_level e' = Some lv" "lv \<noteq> FTS_ROOTLEVEL" "q \<noteq> c"
  shows "bnd (fts_set q FTS_SKIP) (\<lambda>_. fts_read host) s = Abort"
proof -
  let ?e' = "e'\<lparr>ent_instr := FTS_SKIP\<rparr>"
  let ?s = "s\<lparr>fw_ents := (fw_ents s)[q := Some ?e']\<rparr>"
  have l: "live (fw_ents ?s) c = Some e" "live ((fw_ents ?s)[c := None]) q = Some ?e'"
    using assms(3,8,11) by (auto simp: live_Some_iff nth_list_update)
  have id: "?s\<lparr>fw_ents := (fw_ents ?s)[c := Some (e\<lparr>ent_instr := FTS_NOINSTR\<rparr>)]\<rparr> = ?s"
    using l(1) assms(4) by (simp add: instr_id live_update)
  have "fts_set q FTS_SKIP s = Done (0, ?s)" using assms(8) by (simp add: fts_set_def fop_simps)
  moreover have "fts_read host ?s = fts_next host (Suc (length (fw_ents s))) c ?s"
    using assms(1-7) l(1) id by (simp add: fts_read_def fop_simps FTS_AGAIN_def FTS_NOINSTR_def FTS_FOLLOW_def FTS_SKIP_def)
  moreover have "length (fw_ents s) = Suc (length (fw_ents s) - 1)" using assms(3) by (cases "fw_ents s") (auto simp: live_Some_iff)
  then obtain n where "length (fw_ents s) = Suc n" by blast
  ultimately show ?thesis using assms(1,7,9,10) l by (simp add: fop_simps check_def)
qed

theorem fts_skip_aborts_witness:
  "bnd (fts_set 1 FTS_SKIP) (\<lambda>_. fts_read fts_demo)
    \<lparr>fw_ents =
      [Some ((new_ent False 0 ''a'')\<lparr>ent_level := Some 1, ent_parent := Some 2, ent_link := Some (Some 1), ent_info := Some FTS_F\<rparr>),
       Some ((new_ent False 0 ''b'')\<lparr>ent_level := Some 1, ent_parent := Some 2, ent_link := Some None, ent_info := Some FTS_F\<rparr>)],
     fw_errno = E_OK, fw_sp = (zero_fts 0)\<lparr>sp_cur := Some 0, sp_options := walk_options\<rparr>, fw_sys = ()\<rparr> = Abort"
  by (rule fts_skip_aborts [where c = 0 and info = FTS_F and lv = 1
        and e = "(new_ent False 0 ''a'')\<lparr>ent_level := Some 1, ent_parent := Some 2, ent_link := Some (Some 1), ent_info := Some FTS_F\<rparr>"
        and e' = "(new_ent False 0 ''b'')\<lparr>ent_level := Some 1, ent_parent := Some 2, ent_link := Some None, ent_info := Some FTS_F\<rparr>"])
    (simp_all add: zero_fts_def live_Some_iff FTS_ROOTLEVEL_def)

end
