(* ===== verification/Fd_Range.thy ===== *)
theory Fd_Range
  imports Search Attrs Numbers
begin

text \<open>
  The calls that close many descriptors (\<^verbatim>\<open>closefrom.c\<close>, \<^verbatim>\<open>close_range.c\<close>), as they are on Linux: they
  list the descriptors of the process in a buffer for the log, and then call the host.
\<close>

section \<open>The list of descriptors\<close>

definition strtofd :: "string \<Rightarrow> int" where
  "strtofd s =
     (case parse_number s 0 of (neg, v) \<Rightarrow>
        if (if neg then 2 ^ 63 < v else 2 ^ 63 - 1 < v) then - 1 else sint (ucast (strtol s 0) :: 32 word))"

text \<open>
  \<^verbatim>\<open>__strncat\<close> on an array of \<open>n\<close> bytes: the bound is on what is appended, not on the result. \<open>None\<close> is a
  write past the end of the array.
\<close>

definition strncat_buf :: "nat \<Rightarrow> string \<Rightarrow> string option \<Rightarrow> string option" where
  "strncat_buf n s buf =
     (case buf of
        None \<Rightarrow> None
      | Some b \<Rightarrow> let t = b @ take (n - 1) s in if length t < n then Some t else None)"

definition fd_callback :: "(int \<Rightarrow> bool) \<Rightarrow> string \<Rightarrow> string \<Rightarrow> string option \<Rightarrow> int \<times> string option" where
  "fd_callback wanted path name buf =
     (let fd = strtofd name in
      if fd = - 1 then (- 1, buf)
      else if \<not> wanted fd then (0, buf)
      else (0, strncat_buf PATH_MAX name (if buf = Some [] then buf else strncat_buf PATH_MAX '', '' buf)))"

definition fd_list :: "(string \<Rightarrow> errno + string list) \<Rightarrow> (int \<Rightarrow> bool) \<Rightarrow> string option" where
  "fd_list scandir wanted = snd (dir_iterate scandir ''/proc/self/fd'' (fd_callback wanted) (Some []))"

section \<open>The calls\<close>

text \<open>\<^verbatim>\<open>closefrom\<close> has no result; a missing host call is not an error.\<close>

definition closefrom :: "(string \<Rightarrow> errno + string list) \<Rightarrow> (int \<Rightarrow> 'w \<Rightarrow> 'w) option \<Rightarrow> int \<Rightarrow> 'w \<Rightarrow> 'w run" where
  "closefrom scandir dl fd w =
     (case fd_list scandir (\<lambda>k. fd \<le> k) of
        None \<Rightarrow> Undef
      | Some _ \<Rightarrow> Ret (case dl of None \<Rightarrow> w | Some f \<Rightarrow> f fd w))"

text \<open>The bounds are signed in the list and not signed for the host.\<close>

definition close_range ::
    "(string \<Rightarrow> errno + string list) \<Rightarrow> (32 word \<times> 32 word \<times> int, int, 'w) hostcall \<Rightarrow> 32 word \<Rightarrow> 32 word \<Rightarrow> int \<Rightarrow> 'w
     \<Rightarrow> ((errno + int) \<times> 'w) run" where
  "close_range scandir dl lo hi cflags w =
     (case fd_list scandir (\<lambda>k. sint lo \<le> k \<and> k \<le> sint hi) of
        None \<Rightarrow> Undef
      | Some _ \<Rightarrow> Ret (next_call dl (lo, hi, cflags) w))"

section \<open>The buffer\<close>

text \<open>The names with a comma between them.\<close>

fun joined :: "string list \<Rightarrow> string" where
  "joined [] = []"
| "joined [n] = n"
| "joined (n # ns) = n @ '', '' @ joined ns"

lemma joined_snoc: "joined (ns @ [n]) = (if ns = [] then n else joined ns @ '', '' @ n)"
  by (induction ns rule: joined.induct) auto

lemma joined_length: "[] \<notin> set ns \<Longrightarrow> 3 * length ns \<le> length (joined ns) + 2"
proof (induction ns rule: joined.induct)
  case (3 n m ns)
  then have "1 \<le> length n" "3 * length (m # ns) \<le> length (joined (m # ns)) + 2" by (auto simp: Suc_le_eq)
  then show ?case by simp
qed (auto simp: Suc_le_eq)

lemma joined_mono: "length (joined ns) \<le> length (joined (ns @ ms))"
proof (induction ms rule: rev_induct)
  case (snoc m ms)
  then show ?case by (simp flip: append_assoc add: joined_snoc)
qed simp

text \<open>What the callbacks leave in the buffer, for the names of descriptors.\<close>

definition fd_name :: "string \<Rightarrow> bool" where
  "fd_name n \<longleftrightarrow> n \<noteq> [] \<and> length n < PATH_MAX \<and> strtofd n \<noteq> - 1 \<and> n \<noteq> ''.'' \<and> n \<noteq> ''..''"

definition fits :: "string list \<Rightarrow> string option" where
  "fits ns = (if length (joined ns) < PATH_MAX then Some (joined ns) else None)"

lemma fd_callback_fits:
  assumes "fd_name n" "[] \<notin> set ns"
  shows "fd_callback wanted path n (fits ns) = (0, fits (ns @ filter (\<lambda>n. wanted (strtofd n)) [n]))"
proof -
  have "length (joined ns) = 0 \<Longrightarrow> length ns = 0" using joined_length [OF assms(2)] by linarith
  then have "fits ns = Some [] \<longleftrightarrow> ns = []" by (auto simp: fits_def PATH_MAX_def)
  then show ?thesis using assms(1)
    by (auto simp: fd_callback_def fd_name_def strncat_buf_def fits_def joined_snoc PATH_MAX_def Let_def)
qed

lemma iter_names_fits:
  assumes "list_all fd_name ms" "[] \<notin> set ns"
  shows "snd (iter_names (fd_callback wanted) path ms (fits ns)) = fits (ns @ filter (\<lambda>n. wanted (strtofd n)) ms)"
  using assms
proof (induction ms arbitrary: ns)
  case (Cons m ms)
  let ?ns = "ns @ filter (\<lambda>n. wanted (strtofd n)) [m]"
  have m: "fd_name m" using Cons.prems(1) by simp
  then have dots: "m \<noteq> ''.''" "m \<noteq> ''..''" and "[] \<notin> set ?ns" using Cons.prems(2) by (auto simp: fd_name_def)
  then have "snd (iter_names (fd_callback wanted) path ms (fits ?ns)) = fits (?ns @ filter (\<lambda>n. wanted (strtofd n)) ms)"
    using Cons.IH Cons.prems(1) by simp
  with dots show ?case
    by (simp add: fd_callback_fits [OF m Cons.prems(2)] case_prod_unfold split: if_splits)
qed simp

lemma iter_names_dots: "iter_names cb path (ns @ [''..'', ''.'']) u = iter_names cb path ns u"
  by (induction ns arbitrary: u) (auto split: prod.splits)

text \<open>The names come in the reverse of the order the host gives them in.\<close>

lemma fd_list_fits:
  assumes "scandir ''/proc/self/fd'' = Inr ([''.'', ''..''] @ names)" "list_all fd_name names"
  shows "fd_list scandir wanted = fits (rev (filter (\<lambda>n. wanted (strtofd n)) names))"
  using iter_names_fits [of "rev names" "[]" wanted "''/proc/self/fd''"] assms
  by (simp add: fd_list_def dir_iterate_def fits_def PATH_MAX_def rev_filter [symmetric] iter_names_dots)

section \<open>Properties\<close>

text \<open>
  C25: \<^verbatim>\<open>closefrom\<close> and \<^verbatim>\<open>close_range\<close> list those of the descriptors of the process that are in
  their range, with a comma between them, in a buffer of \<^verbatim>\<open>PATH_MAX\<close> bytes. They stay in it just when this
  list fits, and then call the host with the arguments they were given; the bound of \<^verbatim>\<open>__strncat\<close> does
  not protect the buffer. The directory of the descriptors holds numbers.
\<close>

theorem closefrom_bounds:
  assumes "scandir ''/proc/self/fd'' = Inr ([''.'', ''..''] @ names)" "list_all fd_name names"
  shows "closefrom scandir (Some f) fd w =
      (if length (joined (rev (filter (\<lambda>n. fd \<le> strtofd n) names))) < PATH_MAX then Ret (f fd w) else Undef) \<and>
    close_range scandir (Some g) lo hi cf w =
      (if length (joined (rev (filter (\<lambda>n. sint lo \<le> strtofd n \<and> strtofd n \<le> sint hi) names))) < PATH_MAX
       then Ret (g (lo, hi, cf) w) else Undef)"
  using fd_list_fits [of scandir names, OF assms] by (simp add: closefrom_def close_range_def fits_def next_call_def)

theorem closefrom_bounds_witness:
  "closefrom (\<lambda>_. Inr [''.'', ''..'', ''0'', ''10'', ''2'', ''3'']) (Some (\<lambda>fd. filter (\<lambda>k. k < fd))) 3 [0, 2, 3, 10] = Ret [0, 2] \<and>
   joined (rev (filter (\<lambda>n. 3 \<le> strtofd n) [''0'', ''10'', ''2'', ''3''])) = ''3, 10''"
proof -
  have "list_all fd_name [''0'', ''10'', ''2'', ''3'']" and l: "joined (rev (filter (\<lambda>n. 3 \<le> strtofd n) [''0'', ''10'', ''2'', ''3''])) = ''3, 10''"
    by code_simp+
  from closefrom_bounds [of "\<lambda>_. Inr ([''.'', ''..''] @ [''0'', ''10'', ''2'', ''3''])" "[''0'', ''10'', ''2'', ''3'']",
      OF refl this(1), of "\<lambda>fd. filter (\<lambda>k. k < fd)" 3 "[0, 2, 3, 10]" "\<lambda>_ w. (Inr 0, w)" 0 0 0] l
  show ?thesis by (simp add: PATH_MAX_def)
qed

text \<open>With 1366 descriptors in the range the buffer overflows.\<close>

lemma closefrom_many:
  assumes "scandir ''/proc/self/fd'' = Inr ([''.'', ''..''] @ names)" "list_all fd_name names"
    and "1366 \<le> length (filter (\<lambda>n. fd \<le> strtofd n) names)"
  shows "closefrom scandir dl fd w = Undef"
proof -
  have "[] \<notin> set (rev (filter (\<lambda>n. fd \<le> strtofd n) names))" using assms(2) by (auto simp: fd_name_def list_all_iff)
  then have "PATH_MAX \<le> length (joined (rev (filter (\<lambda>n. fd \<le> strtofd n) names)))"
    using joined_length assms(3) by (fastforce simp: PATH_MAX_def)
  then show ?thesis using fd_list_fits [of scandir names, OF assms(1,2)] by (simp add: closefrom_def fits_def)
qed

end
