(* ===== verification/Spec2Isabelle.thy ===== *)
theory Spec2Isabelle
  imports Realpath_Facts Env_Store_Facts Env_Type Path_Res_Facts Path_Rel Chroot_Facts Search Ident_Facts Attrs_Facts
    Files_Facts Xattrs_Facts Sockets_Facts Names_Facts
    Elf_Facts Machine Ld_Cache Dso_Facts Dl Exec_Sample Start_Facts Db_Facts
    Jim_Flaws Bsd_Facts Ftw_Facts Fts_Facts Fd_Range
begin

text \<open>
  \<^bold>\<open>Verification of iamroot.\<close>

  iamroot lets a user without privileges run \<^verbatim>\<open>chroot\<close>: its library is preloaded into every
  program, wraps the calls of the C library that take a path, an identity or an attribute, keeps what the
  kernel would keep for root in environment variables and extended attributes, and runs the programs of
  the chroot through the dynamic loader of the chroot. This development models the C sources of the
  library and of \<^verbatim>\<open>ld-iamroot.so\<close> as functions on explicit states, and proves what they guarantee
  and, where the code falls short, what it does.

  \<^bold>\<open>Parts and how they interact.\<close>
  \<^item> The environment (\<^verbatim>\<open>env.c\<close>) is the state that survives \<^verbatim>\<open>execve\<close>: \<open>Environ\<close> is its
    value, \<open>Env_Store\<close> its pointers, strings and allocation failures. All other parts read and write it.
  \<^item> The root directory (\<^verbatim>\<open>iamroot.c\<close>, \<open>Root_Dir\<close>) is the variable \<^verbatim>\<open>IAMROOT_ROOT\<close>.
  \<^item> The path walker (\<^verbatim>\<open>__realpathat\<close>, \<open>Realpath\<close>) follows links and attributes; path
    resolution (\<^verbatim>\<open>path_resolution.c\<close>, \<open>Path_Res\<close>) puts the root directory in front of a path
    of the program and calls the walker. Every wrapper that takes a path calls it: the working
    directory (\<open>Chroot\<close>), modes and owners (\<open>Attrs\<close>), the calls on files (\<open>Files\<close>), extended
    attributes (\<open>Xattrs\<close>), sockets (\<open>Sockets\<close>), the calls whose answer is a name (\<open>Names\<close>), and the calls
    of the BSD systems (\<open>Bsd\<close>). The walks over trees of files are loops over these calls: \<^verbatim>\<open>nftw.c\<close> (\<open>Ftw\<close>),
    and the streams of \<^verbatim>\<open>fts.c\<close>, with their store of entries (\<open>Fts\<close>), the list of a directory (\<open>Fts_Build\<close>)
    and the calls on a stream (\<open>Fts_Read\<close>).
  \<^item> The identity of the process and its mask (\<open>Ident\<close>, over the number conversions of \<open>Numbers\<close>) are
    variables as well.
  \<^item> Running a program: the ELF reader (\<open>Bytes\<close>, \<open>Elf\<close>), the machine (\<open>Machine\<close>), what an object needs
    (\<open>Dso_Info\<close>), the library cache (\<open>Ld_Cache\<close>), the search of libraries and the list to preload
    (\<open>Search\<close>, \<open>Dso_Search\<close>, \<open>Dl\<close>), the vector for the loader (\<open>Ldso\<close>), interpreter scripts (\<open>Script\<close>),
    \<^verbatim>\<open>execve\<close> and its relatives (\<open>Exec\<close>, \<open>Exec_Path\<close>); the start of the program and
    \<^verbatim>\<open>ld-iamroot.so\<close> (\<open>Start\<close>) are the other end of what \<^verbatim>\<open>__ldso\<close> leaves in the
    environment.
  \<^item> The databases (\<^verbatim>\<open>passwd.c\<close>, \<^verbatim>\<open>group.c\<close>, \<^verbatim>\<open>shadow.c\<close>) are \<open>Db\<close> with
    \<open>Passwd\<close>, \<open>Group\<close> and \<open>Shadow\<close>.
  \<^item> The regular expressions (\<^verbatim>\<open>jimregexp.c\<close>) are a compiler (\<open>Jim_Comp\<close>) from a text to a program of
    words and a matcher that runs it by backtracking (\<open>Jim_Exec\<close>). Path resolution, the search of libraries
    and \<^verbatim>\<open>execve\<close> take them as predicates; \<open>Jim_Builtin\<close> puts the two together.

  \<^bold>\<open>How the code is read.\<close> A C string is the list of its characters in front of the null byte, a
  buffer that is not a string a list of its bytes. A call that may fail answers \<open>Inl\<close> its
  \<^verbatim>\<open>errno\<close>. The type \<open>run\<close> has besides \<open>Ret\<close> and \<open>Err\<close> the outcomes \<open>Undef\<close>, for an access
  outside of an object or to freed memory, and \<open>Diverge\<close>, for a loop that does not end. Integers whose
  wrap-around matters are words. The calls of the host, the memory that is mapped and the system's tables are
  parameters; a call the host does not have
  (\<^verbatim>\<open>dlsym\<close> answers \<^verbatim>\<open>NULL\<close>) is \<open>None\<close>. The streams of \<^verbatim>\<open>fts.c\<close>, whose entries are linked, changed
  and freed, are functions on a state with the store of the entries; they have outcomes of their own. A theory \<open>X\<close> has the definitions of a part, with the
  names of the sources where Isabelle allows them, and \<open>X_Facts\<close> its properties. The model is of Linux with
  64-bit addresses; messages are left out.

  \<^bold>\<open>What is shown.\<close>
  \<^item> \<open>Realpath_Facts\<close>: without \<^verbatim>\<open>path-resolution\<close> attributes the walker ends; outside of a chroot it stays
    within its buffers; what it returns is canonical. With an attribute that names its own file it runs for
    ever, and in a chroot with an absolute link that is long enough it writes outside of its buffer.
  \<^item> \<open>Path_Res_Facts\<close>: on a host without links, resolution of every absolute path in a chroot is the function
    \<open>reference_path\<close>: the components applied to the root directory, but for the paths that are the host's.
    A path without \<^verbatim>\<open>..\<close> stays below the root directory, enough of them leave it. \<open>Path_Rel\<close>: the same for
    relative paths. The state of these theorems is that of the running library: the expressions of ignored
    paths are a parameter, which the constructor sets by default (\<open>default_match\<close>, \<open>Jim_Builtin\<close>); a path is
    \<open>ordinary\<close> when it is not magic and the expression matches neither the path nor what it resolves to, so
    that, by default, paths below \<^verbatim>\<open>/proc\<close>, \<^verbatim>\<open>/sys\<close>, \<^verbatim>\<open>/dev\<close>, \<^verbatim>\<open>/run\<close> and \<^verbatim>\<open>/var/run\<close> are not. The root
    directory is recognised by its text: in \<^verbatim>\<open>/r\<close> the path \<^verbatim>\<open>/r2/x\<close> is not put below it, and the theorems
    leave such paths out where they say so.
  \<^item> \<open>Env_Store_Facts\<close>: the code on pointers refines the value-level functions, which meet the contract of
    the locale \<open>environment\<close>. \<open>Env_Type\<close>: the environment stays well typed up to the start of a program.
  \<^item> \<open>Chroot_Facts\<close>: the moves as a transition relation, with the root directory canonical in every
    reachable state (but for a \<^verbatim>\<open>chroot\<close> of the empty path, of a path that is handed on to the host as it is,
    and from an unknown working directory: \<open>root_not_canonical\<close>), and what \<^verbatim>\<open>chdir\<close> does to it. \<open>Ident_Facts\<close>, \<open>Attrs_Facts\<close>, \<open>Xattrs_Facts\<close>: identities, modes and
    attributes are stores, by locales interpreted on the calls.
  \<^item> \<open>Files_Facts\<close>: the calls on files are the calls of the host with every path below the root
    directory, but for \<^verbatim>\<open>inotify_add_watch\<close> and \<^verbatim>\<open>fanotify_mark\<close>, which hand on the program's path. \<open>Sockets_Facts\<close>, \<open>Names_Facts\<close>: the same for addresses and for names that come back.
    \<open>Bsd_Facts\<close>: listings of attributes, and the calls that do not use the path they resolved.
  \<^item> \<open>Ftw_Facts\<close>: \<^verbatim>\<open>nftw\<close> returns on every host within its buffer, and on a tree that is served without errors
    makes the visits of a reference traversal. \<open>Fd_Range\<close>: which descriptors are listed, and when the list overflows.
  \<^item> \<open>Fts_List\<close>, \<open>Fts_Walk\<close>, \<open>Fts_Facts\<close>: a physical walk that does not change the directory, on trees that
    are served without errors and have paths shorter than \<^verbatim>\<open>PATH_MAX\<close>, shows the files in the reference order
    \<open>fts_visits\<close> and frees all entries; when a directory is a cycle; the sequences of calls that crash.
  \<^item> \<open>Elf_Facts\<close>, \<open>Dso_Facts\<close>, \<open>Ld_Cache\<close>, \<open>Search\<close>: the readers agree with the bytes of the file in
    either byte order, the computation of the list of libraries ends and the list is complete as long as it is
    not longer than \<^verbatim>\<open>PATH_MAX\<close> bytes, searches answer the first hit. \<open>Exec_Facts\<close>, \<open>Exec_Sample\<close>, \<open>Start_Facts\<close>: the vector and the environment a
    program is started with. There the environment is the list of strings: the use after free of
    \<^verbatim>\<open>_resetenv\<close>, which these calls make for another environment, is shown in \<open>Env_Store_Facts\<close> only.
  \<^item> \<open>Db_Facts\<close>: what the printers write is found, listed and counted by the parsers, and the lines
    the parsers read past their end.
  \<^item> \<open>Jim_Parse\<close> is the grammar of the expressions, from texts to the trees of \<open>Jim_Layout\<close>, which also says
    what a tree matches and how it is laid out as a program. \<open>Jim_Total\<close>: the grammar answers for every text.
    \<open>Jim_Refine\<close>, \<open>Jim_Emit\<close>, \<open>Jim_Facts\<close>: the compiler writes the layout of the tree. \<open>Jim_Match\<close>,
    \<open>Jim_Search\<close>: the matcher on a layout finds the first match of the tree, for the trees of \<open>ok_alts\<close>. \<open>Jim_Lang\<close>: trees without
    anchors are regular languages. \<open>Jim_Builtin\<close>: which names and paths the expressions of the library
    accept. \<open>Jim_Flaws\<close>: where the matcher leaves the grammar.

  \<^bold>\<open>Bounds and fuel.\<close> \<^verbatim>\<open>PATH_MAX\<close>, \<^verbatim>\<open>NAME_MAX\<close>, \<^verbatim>\<open>SYMLOOP_MAX\<close> and the
  sizes of the buffers are those of the sources. The walker is a \<open>while\<close> without a bound (\<open>Diverge\<close> is that
  it does not end). The recursion over needed libraries takes a number of levels; \<open>Diverge\<close> is that it
  is used up, and more levels than there are bytes of room for the list are enough (\<open>Dso_Facts\<close>). For \<open>ld_open_needed\<close> no number is enough on a cycle, which \<open>ld_open_needed_cycle\<close> shows.
  The compiler of expressions has as much fuel as the text has characters, which is enough (\<open>tree_yields\<close>);
  for the matcher some number is enough, for every expression and text (\<open>regmatch_layout\<close>). A loop over the entries of a stream has one step
  more than there are entries, so that \<open>Loop\<close> is a chain that comes back to itself. All other loops are
  structural or have a measure.

  \<^bold>\<open>Not modelled.\<close> The log (\<^verbatim>\<open>__verbosef\<close>) has no influence on an answer, and \<^verbatim>\<open>compat.c\<close> has no operations. The
  shell scripts and the tests are not C sources of the library.
\<close>

end
